(* ===== verification/Edge_Prelude.thy ===== *)
theory Edge_Prelude
  imports Complex_Main "HOL-Library.Word" "HOL-Library.Signed_Division"
begin

text \<open>
  Vocabulary shared by every component of the model: the hint collections of the
  development, Go's error-returning functions and loops, identifiers, instants and durations,
  byte strings, and the list and map facts that several components use.
\<close>

named_theorems edge_defs \<open>definitions a component's proofs unfold together\<close>
named_theorems edge_inv \<open>preservation lemmas of the components' invariants\<close>

section \<open>Results: a Go function returning \<open>(value, error)\<close>\<close>

text \<open>\<open>Inl e\<close> is a return with a non-nil error, \<open>Inr v\<close> a return with a nil one.\<close>

definition bindE :: "'e + 'a \<Rightarrow> ('a \<Rightarrow> 'e + 'b) \<Rightarrow> 'e + 'b" where
  "bindE m f = (case m of Inl e \<Rightarrow> Inl e | Inr x \<Rightarrow> f x)"

lemma bindE_simps [simp]:
  "bindE (Inl e) f = Inl e"
  "bindE (Inr x) f = f x"
  by (simp_all add: bindE_def)

lemma bindE_Inr_iff: "bindE m f = Inr y \<longleftrightarrow> (\<exists>x. m = Inr x \<and> f x = Inr y)"
  by (cases m) auto

lemma bindE_Inl_iff: "bindE m f = Inl e \<longleftrightarrow> m = Inl e \<or> (\<exists>x. m = Inr x \<and> f x = Inl e)"
  by (cases m) auto

lemma bindE_cong [fundef_cong]:
  "m = m' \<Longrightarrow> (\<And>x. m' = Inr x \<Longrightarrow> f x = g x) \<Longrightarrow> bindE m f = bindE m' g"
  by (cases m') auto

text \<open>A \<open>for ... range\<close> loop whose body may return an error early.\<close>

fun foldE :: "('a \<Rightarrow> 's \<Rightarrow> 'e + 's) \<Rightarrow> 'a list \<Rightarrow> 's \<Rightarrow> 'e + 's" where
  "foldE f [] s = Inr s"
| "foldE f (x # xs) s = bindE (f x s) (foldE f xs)"

lemma foldE_append: "foldE f (xs @ ys) s = bindE (foldE f xs s) (foldE f ys)"
  by (induction xs arbitrary: s) (auto simp: bindE_def split: sum.splits)

lemma foldE_invariant:
  assumes "foldE f xs s = Inr t" and "P s"
    and "\<And>x s s'. x \<in> set xs \<Longrightarrow> P s \<Longrightarrow> f x s = Inr s' \<Longrightarrow> P s'"
  shows "P t"
  using assms
proof (induction xs arbitrary: s)
  case Nil
  then show ?case by simp
next
  case (Cons x xs)
  from Cons.prems(1) obtain s' where "f x s = Inr s'" and "foldE f xs s' = Inr t"
    by (auto simp: bindE_Inr_iff)
  with Cons show ?case by (metis list.set_intros(1) list.set_intros(2))
qed

section \<open>Identifiers\<close>

text \<open>
  A \<open>uuid.UUID\<close> is 16 bytes; \<open>uuid.Nil\<close> is the all-zero one. Its \<open>String()\<close> form is the
  fixed-width lower-case hexadecimal of those bytes, so the order of the strings is the
  order of the words.
\<close>

type_synonym uuid = "128 word"

abbreviation uuid_nil :: uuid where
  "uuid_nil \<equiv> 0"

section \<open>Instants and durations\<close>

text \<open>
  A \<open>time.Time\<close> is the number of nanoseconds since Go's zero time, so \<open>IsZero\<close> is
  \<open>t = 0\<close>, \<open>Before\<close>/\<open>After\<close>/\<open>Equal\<close> are the order of \<open>int\<close> and \<open>UTC()\<close>, which changes
  the zone and not the instant, is the identity. A \<open>time.Duration\<close> is an int64 of
  nanoseconds: \<open>Time.Sub\<close> saturates at the ends of that range.
\<close>

type_synonym gotime = int
type_synonym duration = int

definition max_duration :: duration where "max_duration = 2 ^ 63 - 1"
definition min_duration :: duration where "min_duration = - (2 ^ 63)"

definition time_sub :: "gotime \<Rightarrow> gotime \<Rightarrow> duration" where
  "time_sub t u = max min_duration (min max_duration (t - u))"

lemma time_sub_exact:
  "min_duration \<le> t - u \<Longrightarrow> t - u \<le> max_duration \<Longrightarrow> time_sub t u = t - u"
  by (simp add: time_sub_def)

definition nanosecond :: duration where "nanosecond = 1"
definition millisecond :: duration where "millisecond = 1000000"
definition second :: duration where "second = 1000000000"
definition minute :: duration where "minute = 60000000000"
definition hour :: duration where "hour = 3600000000000"

lemmas duration_units = nanosecond_def millisecond_def second_def minute_def hour_def
  max_duration_def min_duration_def

text \<open>Integer quotient and remainder of Go truncate towards zero (\<open>sdiv\<close>, \<open>smod\<close>).\<close>

lemma sdiv_nonneg: "0 \<le> a \<Longrightarrow> 0 < b \<Longrightarrow> (a::int) sdiv b = a div b"
  by (cases "a = 0") (auto simp: signed_divide_int_def sgn_if)

lemma smod_nonneg: "0 \<le> a \<Longrightarrow> 0 < b \<Longrightarrow> (a::int) smod b = a mod b"
  by (cases "a = 0") (auto simp: signed_modulo_int_def sgn_if)

section \<open>Byte strings\<close>

type_synonym byte = "8 word"

text \<open>
  A Go string is a sequence of bytes, one \<open>char\<close> each. \<open>strings.TrimSpace\<close> removes leading
  and trailing Unicode white space; the encodings of the characters it removes are listed.
\<close>

definition space_encodings :: "string list" where
  "space_encodings =
     map (\<lambda>n. [char_of (n::nat)]) [9, 10, 11, 12, 13, 32] @
     map (map char_of) ([[0xC2, 0x85], [0xC2, 0xA0], [0xE1, 0x9A, 0x80]] :: nat list list) @
     map (\<lambda>n. map char_of [0xE2, 0x80, (n::nat)])
       [0x80, 0x81, 0x82, 0x83, 0x84, 0x85, 0x86, 0x87, 0x88, 0x89, 0x8A, 0xA8, 0xA9, 0xAF] @
     map (map char_of) ([[0xE2, 0x81, 0x9F], [0xE3, 0x80, 0x80]] :: nat list list)"

fun strip_prefix :: "string list \<Rightarrow> string \<Rightarrow> string option" where
  "strip_prefix [] s = None"
| "strip_prefix (p # ps) s =
     (if p \<noteq> [] \<and> take (length p) s = p then Some (drop (length p) s) else strip_prefix ps s)"

lemma strip_prefix_Some: "strip_prefix ps s = Some t \<Longrightarrow> \<exists>p. p \<noteq> [] \<and> s = p @ t"
proof (induction ps s rule: strip_prefix.induct)
  case (2 p ps s)
  then show ?case
    by (cases "p \<noteq> [] \<and> take (length p) s = p") (auto, metis append_take_drop_id)
qed simp

lemma strip_prefix_shorter: "strip_prefix ps s = Some t \<Longrightarrow> length t < length s"
  by (auto dest!: strip_prefix_Some)

function trim_left :: "string list \<Rightarrow> string \<Rightarrow> string" where
  "trim_left ps s = (case strip_prefix ps s of None \<Rightarrow> s | Some t \<Rightarrow> trim_left ps t)"
  by pat_completeness auto
termination
  by (relation "measure (\<lambda>(ps, s). length s)") (auto dest: strip_prefix_shorter)

declare trim_left.simps [simp del]

lemma strip_trim_left: "strip_prefix ps (trim_left ps s) = None"
proof (induction ps s rule: trim_left.induct)
  case (1 ps s)
  then show ?case
    by (cases "strip_prefix ps s") (simp_all add: trim_left.simps [of ps s])
qed

lemma trim_left_suffix: "\<exists>pre. s = pre @ trim_left ps s"
proof (induction ps s rule: trim_left.induct)
  case (1 ps s)
  show ?case
  proof (cases "strip_prefix ps s")
    case None
    then show ?thesis by (simp add: trim_left.simps [of ps s])
  next
    case (Some t)
    then obtain p where "s = p @ t" by (auto dest: strip_prefix_Some)
    moreover from "1.IH" [OF Some] obtain pre where "t = pre @ trim_left ps t" by blast
    ultimately have "s = (p @ pre) @ trim_left ps t" by simp
    then show ?thesis unfolding trim_left.simps [of ps s] Some option.case by blast
  qed
qed

definition trim_space :: "string \<Rightarrow> string" where
  "trim_space s =
     rev (trim_left (map rev space_encodings) (rev (trim_left space_encodings s)))"

lemma trim_left_Nil [simp]: "trim_left ps [] = []"
  using trim_left_suffix [of "[]" ps] by simp

lemma trim_space_Nil [simp]: "trim_space [] = []"
  by (simp add: trim_space_def)

lemma strip_prefix_append: "strip_prefix ps s = Some t \<Longrightarrow> \<exists>t'. strip_prefix ps (s @ u) = Some t'"
proof (induction ps s rule: strip_prefix.induct)
  case (2 p ps s)
  show ?case
  proof (cases "p \<noteq> [] \<and> take (length p) s = p")
    case True
    then have "length p \<le> length s" by (metis length_take min.absorb_iff2 min.commute)
    then show ?thesis using True by auto
  next
    case False
    with 2 obtain t' where "strip_prefix ps (s @ u) = Some t'" by auto
    then show ?thesis by auto
  qed
qed simp

lemma strip_prefix_None_append: "strip_prefix ps (s @ u) = None \<Longrightarrow> strip_prefix ps s = None"
  using strip_prefix_append [of ps s _ u] by (cases "strip_prefix ps s") auto

lemma trim_left_None: "strip_prefix ps s = None \<Longrightarrow> trim_left ps s = s"
  by (simp add: trim_left.simps [of ps s])

lemma trim_space_idem [simp]: "trim_space (trim_space s) = trim_space s"
proof -
  define a where "a = trim_left space_encodings s"
  define b where "b = trim_left (map rev space_encodings) (rev a)"
  obtain pre where "rev a = pre @ b" using trim_left_suffix [of "rev a"] b_def by blast
  then have "a = rev b @ rev pre" by (metis rev_append rev_rev_ident)
  then have "strip_prefix space_encodings (rev b) = None"
    using strip_trim_left [of space_encodings s] strip_prefix_None_append by (metis a_def)
  moreover have "strip_prefix (map rev space_encodings) b = None"
    unfolding b_def by (rule strip_trim_left)
  moreover have "trim_space s = rev b" by (simp add: trim_space_def a_def b_def)
  ultimately show ?thesis by (simp add: trim_space_def trim_left_None)
qed

lemma strip_prefix_hd: "(\<And>p. p \<in> set ps \<Longrightarrow> p \<noteq> [] \<Longrightarrow> hd p \<noteq> hd s) \<Longrightarrow> strip_prefix ps s = None"
proof (induction ps s rule: strip_prefix.induct)
  case (2 p ps s)
  have "\<not> (p \<noteq> [] \<and> take (length p) s = p)"
  proof
    assume a: "p \<noteq> [] \<and> take (length p) s = p"
    then have "hd p = hd s" by (metis hd_take length_greater_0_conv)
    with 2(2) [of p] a show False by simp
  qed
  with 2 show ?case by simp
qed simp

text \<open>A character no white space encoding starts or ends with, every visible ASCII one.\<close>

definition plain_char :: "char \<Rightarrow> bool" where
  "plain_char c \<longleftrightarrow> (\<forall>p \<in> set space_encodings. hd p \<noteq> c \<and> last p \<noteq> c)"

lemma space_encodings_nonempty: "p \<in> set space_encodings \<Longrightarrow> p \<noteq> []"
  by (auto simp: space_encodings_def)

lemma trim_space_plain:
  assumes "s \<noteq> []" and "plain_char (hd s)" and "plain_char (last s)"
  shows "trim_space s = s"
proof -
  have "strip_prefix space_encodings s = None"
    by (rule strip_prefix_hd) (use assms(2) in \<open>auto simp: plain_char_def\<close>)
  moreover have "strip_prefix (map rev space_encodings) (rev s) = None"
    by (rule strip_prefix_hd)
      (use assms(1,3) in \<open>auto simp: plain_char_def hd_rev\<close>)
  ultimately show ?thesis by (simp add: trim_space_def trim_left_None)
qed
lemma plain_char_ascii: "33 \<le> (of_char c :: nat) \<Longrightarrow> (of_char c :: nat) \<le> 126 \<Longrightarrow> plain_char c"
  by (auto simp: plain_char_def space_encodings_def char_of_eq_iff take_bit_eq_mod)

section \<open>Lists, maps and options\<close>

text \<open>Go's \<open>for _, x := range xs { if seen[x] ... }\<close> finds a duplicate unless the list is distinct.\<close>

lemma map_upd_same [simp]: "(m(k := v)) k = v"
  by simp

lemma dom_fun_upd_None: "dom (m(k := None)) = dom m - {k}"
  by (simp add: dom_def) blast

lemma drop_length_diff_append:
  "length ys \<le> n \<Longrightarrow> drop (length (xs @ ys) - n) (xs @ ys) = drop (length xs - (n - length ys)) xs @ ys"
  by (simp add: drop_append)

end
