(* ===== verification/Go_Float.thy ===== *)
theory Go_Float
  imports Edge_Prelude
begin

text \<open>
  Go's \<open>float32\<close> and \<open>float64\<close>, which tag values, expressions and transforms compute with:
  an IEEE 754 datum is NaN, a signed infinity, a signed zero or a non-zero rational, and each
  operation rounds the exact rational result to nearest, ties to even, in its format. (The
  language allows a product and a sum to be fused into one rounding on some processors; the
  model rounds twice, as the amd64 compiler does.)

  A finite datum is \<open>FNum q\<close> with \<open>q\<close> a non-zero rational that the format represents; that
  is what \<open>fl_ok\<close> says, and every operation keeps it.
\<close>

datatype fl = FNaN | FInf bool | FZero bool | FNum rat

section \<open>Formats\<close>

text \<open>
  A format has \<open>f_prec\<close> bits of significand, least quantum exponent \<open>f_emin\<close> and every finite
  magnitude below two to the power \<open>f_emax\<close>.
\<close>

record fl_format =
  f_prec :: int
  f_emin :: int
  f_emax :: int

definition binary32 :: fl_format where
  "binary32 = \<lparr>f_prec = 24, f_emin = - 149, f_emax = 128\<rparr>"

definition binary64 :: fl_format where
  "binary64 = \<lparr>f_prec = 53, f_emin = - 1074, f_emax = 1024\<rparr>"

lemmas format_defs = binary32_def binary64_def

definition representable :: "fl_format \<Rightarrow> rat \<Rightarrow> bool" where
  "representable fm q \<longleftrightarrow>
     \<bar>q\<bar> < 2 powi f_emax fm \<and>
     (\<exists>m e. q = of_int m * 2 powi e \<and> of_int \<bar>m\<bar> \<le> (2 powi f_prec fm :: rat) \<and> f_emin fm \<le> e)"

definition fl_ok :: "fl_format \<Rightarrow> fl \<Rightarrow> bool" where
  "fl_ok fm x = (case x of FNum q \<Rightarrow> q \<noteq> 0 \<and> representable fm q | _ \<Rightarrow> True)"

section \<open>Binary logarithm\<close>

fun ilog2_int :: "int \<Rightarrow> int" where
  "ilog2_int n = (if n \<le> 1 then 0 else 1 + ilog2_int (n div 2))"

declare ilog2_int.simps [simp del]

lemma ilog2_int_nonneg: "0 \<le> ilog2_int n"
  by (induction n rule: ilog2_int.induct) (subst ilog2_int.simps, auto)

lemma ilog2_int_bounds:
  "1 \<le> n \<Longrightarrow> 2 ^ nat (ilog2_int n) \<le> n \<and> n < 2 ^ (nat (ilog2_int n) + 1)"
proof (induction n rule: ilog2_int.induct)
  case (1 n)
  show ?case
  proof (cases "n \<le> 1")
    case True
    with "1.prems" show ?thesis by (simp add: ilog2_int.simps)
  next
    case False
    then have half: "1 \<le> n div 2" by simp
    with "1.IH" False have
      "2 ^ nat (ilog2_int (n div 2)) \<le> n div 2" and
      "n div 2 < 2 ^ (nat (ilog2_int (n div 2)) + 1)" by auto
    moreover have "nat (ilog2_int n) = nat (ilog2_int (n div 2)) + 1"
      using False ilog2_int_nonneg [of "n div 2"] ilog2_int.simps [of n] by simp
    ultimately show ?thesis by (simp; intro conjI; linarith)
  qed
qed

lemma powi_nat: "0 \<le> k \<Longrightarrow> (2::rat) powi k = 2 ^ nat k"
  by (simp add: power_int_def)

lemma powi_pos [simp]: "0 < (2::rat) powi k"
  by (simp add: zero_less_power_int)

lemma powi_le_iff: "(2::rat) powi j \<le> 2 powi k \<longleftrightarrow> j \<le> k"
  by (meson linorder_not_less one_less_numeral_iff power_int_strict_increasing
      power_int_increasing order_less_imp_le semiring_norm(76))

lemma powi_less_iff: "(2::rat) powi j < 2 powi k \<longleftrightarrow> j < k"
  using powi_le_iff [of k j] by (simp add: linorder_not_le [symmetric])

lemma powi_split: "(2::rat) powi (j + k) = 2 powi j * 2 powi k"
  by (simp add: power_int_add)

text \<open>The floor of the binary logarithm of a positive rational.\<close>

definition ilog2 :: "rat \<Rightarrow> int" where
  "ilog2 q =
     (let (a, b) = quotient_of q; k = ilog2_int a - ilog2_int b
      in if 2 powi k \<le> q then k else k - 1)"

lemma ilog2_int_powi:
  assumes "1 \<le> n"
  shows "2 powi ilog2_int n \<le> (of_int n :: rat)" and "of_int n < (2 powi (ilog2_int n + 1) :: rat)"
proof -
  note b = ilog2_int_bounds [OF assms] and nn = ilog2_int_nonneg [of n]
  have "(2::rat) ^ nat (ilog2_int n) = of_int (2 ^ nat (ilog2_int n))" by simp
  also have "\<dots> \<le> of_int n" using b by (simp only: of_int_le_iff)
  finally show "2 powi ilog2_int n \<le> (of_int n :: rat)" using nn by (simp add: powi_nat)
  have "of_int n < (of_int (2 ^ (nat (ilog2_int n) + 1)) :: rat)" using b by (simp only: of_int_less_iff)
  also have "\<dots> = 2 powi (ilog2_int n + 1)" using nn by (simp add: powi_nat nat_add_distrib)
  finally show "of_int n < (2 powi (ilog2_int n + 1) :: rat)" .
qed

lemma ilog2_bounds:
  assumes "0 < q"
  shows "2 powi ilog2 q \<le> q" and "q < 2 powi (ilog2 q + 1)"
proof -
  obtain a b where ab: "quotient_of q = (a, b)" by fastforce
  have b: "1 \<le> b" using quotient_of_denom_pos [OF ab] by simp
  have q: "q = of_int a / of_int b" by (rule quotient_of_div [OF ab])
  have a: "1 \<le> a" using assms b q by (simp add: zero_less_divide_iff)
  define k where "k = ilog2_int a - ilog2_int b"
  have bpos: "(0::rat) < of_int b" using b by simp
  have "of_int a < (2 powi (ilog2_int a + 1) :: rat)" by (rule ilog2_int_powi [OF a])
  also have "\<dots> = 2 powi (k + 1) * 2 powi ilog2_int b"
    by (simp add: k_def flip: powi_split)
  also have "\<dots> \<le> 2 powi (k + 1) * of_int b"
    by (intro mult_left_mono ilog2_int_powi [OF b]) (simp add: less_imp_le)
  finally have up: "q < 2 powi (k + 1)" using bpos by (simp add: q divide_less_eq)
  have "2 powi (k - 1) * of_int b \<le> (2 powi (k - 1) * 2 powi (ilog2_int b + 1) :: rat)"
    by (intro mult_left_mono less_imp_le [OF ilog2_int_powi(2) [OF b]]) (simp add: less_imp_le)
  also have "\<dots> = 2 powi ilog2_int a" by (simp add: k_def flip: powi_split)
  also have "\<dots> \<le> of_int a" by (rule ilog2_int_powi [OF a])
  finally have lo: "2 powi (k - 1) \<le> q" using bpos by (simp add: q le_divide_eq)
  have def: "ilog2 q = (if 2 powi k \<le> q then k else k - 1)"
    by (simp add: ilog2_def ab k_def Let_def)
  show "2 powi ilog2 q \<le> q" using lo by (simp add: def)
  show "q < 2 powi (ilog2 q + 1)" using up by (auto simp: def)
qed

section \<open>Rounding to nearest, ties to even\<close>

definition round_half_even :: "rat \<Rightarrow> int" where
  "round_half_even q =
     (let f = \<lfloor>q\<rfloor>; d = q - of_int f
      in if d < 1 / 2 then f else if 1 / 2 < d then f + 1 else if even f then f else f + 1)"

lemma round_half_even_int [simp]: "round_half_even (of_int n) = n"
  by (simp add: round_half_even_def)

lemma round_half_even_bounds:
  "of_int n \<le> q \<Longrightarrow> n \<le> round_half_even q"
  "q \<le> of_int n \<Longrightarrow> round_half_even q \<le> n"
proof -
  assume "of_int n \<le> q"
  then have "n \<le> \<lfloor>q\<rfloor>" by (simp add: le_floor_iff)
  then show "n \<le> round_half_even q" by (simp add: round_half_even_def Let_def)
next
  assume le: "q \<le> of_int n"
  show "round_half_even q \<le> n"
  proof (cases "q = of_int n")
    case False
    with le have "\<lfloor>q\<rfloor> < n" by (simp add: floor_less_iff)
    then show ?thesis by (simp add: round_half_even_def Let_def)
  qed simp
qed

lemma round_half_even_error: "\<bar>of_int (round_half_even q) - q\<bar> \<le> 1 / 2"
proof -
  have "of_int \<lfloor>q\<rfloor> \<le> q" and "q < of_int \<lfloor>q\<rfloor> + 1" by linarith+
  then show ?thesis by (auto simp: round_half_even_def Let_def)
qed

text \<open>The exponent of the unit in the last place around \<open>q\<close>, and the rounded datum.\<close>

definition quantum :: "fl_format \<Rightarrow> rat \<Rightarrow> int" where
  "quantum fm q = max (ilog2 \<bar>q\<bar> - (f_prec fm - 1)) (f_emin fm)"

definition fl_round :: "fl_format \<Rightarrow> bool \<Rightarrow> rat \<Rightarrow> fl" where
  "fl_round fm neg q =
     (if q = 0 then FZero neg
      else let e = quantum fm q; r = of_int (round_half_even (q / 2 powi e)) * 2 powi e
           in if r = 0 then FZero (q < 0)
              else if 2 powi f_emax fm \<le> \<bar>r\<bar> then FInf (q < 0) else FNum r)"

lemma quantum_mantissa:
  assumes "q \<noteq> 0"
  shows "\<bar>q / 2 powi quantum fm q\<bar> \<le> 2 powi f_prec fm"
proof -
  have "\<bar>q\<bar> < 2 powi (ilog2 \<bar>q\<bar> + 1)" using assms by (intro ilog2_bounds) simp
  also have "\<dots> \<le> 2 powi (f_prec fm + quantum fm q)"
    by (simp add: powi_le_iff quantum_def)
  finally show ?thesis by (simp add: powi_split field_simps abs_mult)
qed

lemma fl_round_ok:
  assumes "0 \<le> f_prec fm"
  shows "fl_ok fm (fl_round fm neg q)"
proof (cases "q = 0")
  case False
  define e m where "e = quantum fm q" and "m = round_half_even (q / 2 powi e)"
  define P :: int where "P = 2 ^ nat (f_prec fm)"
  have P: "(of_int P :: rat) = 2 powi f_prec fm" using assms by (simp add: P_def powi_nat)
  have "\<bar>q / 2 powi e\<bar> \<le> of_int P" unfolding P e_def by (rule quantum_mantissa [OF False])
  then have "of_int (- P) \<le> q / 2 powi e" and "q / 2 powi e \<le> of_int P"
    unfolding abs_le_iff by linarith+
  then have "- P \<le> m" and "m \<le> P" unfolding m_def by (simp_all only: round_half_even_bounds)
  then have "of_int \<bar>m\<bar> \<le> (2 powi f_prec fm :: rat)" unfolding P [symmetric] of_int_le_iff by simp
  moreover have "f_emin fm \<le> e" by (simp add: e_def quantum_def)
  ultimately have "\<bar>of_int m * 2 powi e :: rat\<bar> < 2 powi f_emax fm \<Longrightarrow>
      representable fm (of_int m * 2 powi e)"
    unfolding representable_def by blast
  then show ?thesis using False
    by (auto simp: fl_ok_def fl_round_def Let_def not_le m_def e_def)
qed (simp add: fl_ok_def fl_round_def)

lemma fl_round_exact:
  assumes prec: "1 \<le> f_prec fm" and rep: "representable fm q" and nz: "q \<noteq> 0"
  shows "fl_round fm neg q = FNum q"
proof -
  obtain m e where q: "q = of_int m * 2 powi e" and m: "of_int \<bar>m\<bar> \<le> (2 powi f_prec fm :: rat)"
    and e: "f_emin fm \<le> e" and fin: "\<bar>q\<bar> < 2 powi f_emax fm"
    using rep unfolding representable_def by blast
  have "2 powi ilog2 \<bar>q\<bar> \<le> \<bar>q\<bar>" using nz by (intro ilog2_bounds) simp
  also have "\<dots> \<le> 2 powi f_prec fm * 2 powi e"
    unfolding q using m by (simp add: abs_mult mult_right_mono)
  finally have log: "ilog2 \<bar>q\<bar> \<le> f_prec fm + e" by (simp add: powi_le_iff flip: powi_split)
  define d where "d = quantum fm q"
  have "\<exists>n. q = of_int n * 2 powi d"
  proof (cases "d \<le> e")
    case True
    then have "q = of_int (m * 2 ^ nat (e - d)) * 2 powi d"
      using powi_split [of "e - d" d] by (simp add: q powi_nat)
    then show ?thesis by blast
  next
    case False
    with log e have "d = e + 1" and lq: "ilog2 \<bar>q\<bar> = f_prec fm + e"
      by (auto simp: d_def quantum_def)
    have "2 powi (f_prec fm + e) \<le> \<bar>q\<bar>"
      using ilog2_bounds(1) [of "\<bar>q\<bar>"] nz by (simp add: lq)
    then have "2 powi f_prec fm * 2 powi e \<le> (of_int \<bar>m\<bar> * 2 powi e :: rat)"
      by (simp add: q abs_mult powi_split)
    then have "of_int \<bar>m\<bar> = (2 powi f_prec fm :: rat)" using m by simp
    also have "\<dots> = of_int (2 ^ nat (f_prec fm))" using prec by (simp add: powi_nat)
    finally have "\<bar>m\<bar> = 2 ^ nat (f_prec fm)" by (simp only: of_int_eq_iff)
    moreover have "(2::int) dvd 2 ^ nat (f_prec fm)" using prec by (intro dvd_power) simp
    ultimately have "even m" using dvd_abs_iff [of 2 m] by metis
    then obtain k where "m = 2 * k" ..
    then have "q = of_int k * 2 powi d" unfolding \<open>d = e + 1\<close> powi_split q by simp
    then show ?thesis by blast
  qed
  then obtain n where n: "q = of_int n * 2 powi d" by blast
  then have "q / 2 powi d = of_int n" by (simp add: field_simps)
  then have "of_int (round_half_even (q / 2 powi d)) * 2 powi d = q" by (simp flip: n)
  then show ?thesis using nz fin
    by (simp only: fl_round_def Let_def flip: d_def) simp
qed

section \<open>Observers and conversions\<close>

fun fl_finite :: "fl \<Rightarrow> bool" where
  "fl_finite FNaN = False"
| "fl_finite (FInf s) = False"
| "fl_finite _ = True"

fun fl_sign :: "fl \<Rightarrow> bool" where
  "fl_sign FNaN = False"
| "fl_sign (FInf s) = s"
| "fl_sign (FZero s) = s"
| "fl_sign (FNum q) = (q < 0)"

fun fl_rat :: "fl \<Rightarrow> rat" where
  "fl_rat (FNum q) = q"
| "fl_rat _ = 0"

definition fl_is_zero :: "fl \<Rightarrow> bool" where
  "fl_is_zero x = (case x of FZero s \<Rightarrow> True | _ \<Rightarrow> False)"

text \<open>\<open>float32(x)\<close>, \<open>float64(x)\<close> of a float and of an integer.\<close>

definition fl_conv :: "fl_format \<Rightarrow> fl \<Rightarrow> fl" where
  "fl_conv fm x = (case x of FNum q \<Rightarrow> fl_round fm (q < 0) q | _ \<Rightarrow> x)"

definition fl_of_int :: "fl_format \<Rightarrow> int \<Rightarrow> fl" where
  "fl_of_int fm n = fl_round fm False (of_int n)"

text \<open>The integer part, towards zero: \<open>math.Trunc\<close> and the conversion to an integer type.\<close>

definition rat_trunc :: "rat \<Rightarrow> int" where
  "rat_trunc q = (if q < 0 then - \<lfloor>- q\<rfloor> else \<lfloor>q\<rfloor>)"

definition fl_trunc :: "fl \<Rightarrow> fl" where
  "fl_trunc x = (case x of
     FNum q \<Rightarrow> if rat_trunc q = 0 then FZero (q < 0) else FNum (of_int (rat_trunc q))
   | _ \<Rightarrow> x)"

definition fl_to_int :: "fl \<Rightarrow> int" where
  "fl_to_int x = rat_trunc (fl_rat x)"

section \<open>Arithmetic and comparison\<close>

fun fl_neg :: "fl \<Rightarrow> fl" where
  "fl_neg FNaN = FNaN"
| "fl_neg (FInf s) = FInf (\<not> s)"
| "fl_neg (FZero s) = FZero (\<not> s)"
| "fl_neg (FNum q) = FNum (- q)"

definition fl_add :: "fl_format \<Rightarrow> fl \<Rightarrow> fl \<Rightarrow> fl" where
  "fl_add fm x y = (case (x, y) of
     (FNaN, _) \<Rightarrow> FNaN
   | (_, FNaN) \<Rightarrow> FNaN
   | (FInf s, FInf t) \<Rightarrow> if s = t then FInf s else FNaN
   | (FInf s, _) \<Rightarrow> FInf s
   | (_, FInf t) \<Rightarrow> FInf t
   | (FZero s, FZero t) \<Rightarrow> FZero (s \<and> t)
   | (_, _) \<Rightarrow> fl_round fm False (fl_rat x + fl_rat y))"

definition fl_sub :: "fl_format \<Rightarrow> fl \<Rightarrow> fl \<Rightarrow> fl" where
  "fl_sub fm x y = fl_add fm x (fl_neg y)"

definition fl_mul :: "fl_format \<Rightarrow> fl \<Rightarrow> fl \<Rightarrow> fl" where
  "fl_mul fm x y =
     (if x = FNaN \<or> y = FNaN then FNaN
      else if \<not> fl_finite x \<or> \<not> fl_finite y
      then if fl_is_zero x \<or> fl_is_zero y then FNaN else FInf (fl_sign x \<noteq> fl_sign y)
      else fl_round fm (fl_sign x \<noteq> fl_sign y) (fl_rat x * fl_rat y))"

definition fl_div :: "fl_format \<Rightarrow> fl \<Rightarrow> fl \<Rightarrow> fl" where
  "fl_div fm x y =
     (let s = (fl_sign x \<noteq> fl_sign y)
      in if x = FNaN \<or> y = FNaN \<or> fl_is_zero x \<and> fl_is_zero y
            \<or> \<not> fl_finite x \<and> \<not> fl_finite y then FNaN
         else if \<not> fl_finite x \<or> fl_is_zero y then FInf s
         else if \<not> fl_finite y then FZero s
         else fl_round fm s (fl_rat x / fl_rat y))"

text \<open>\<open>math.Mod\<close>: the remainder with the sign of the dividend, which is exact.\<close>

definition fl_mod :: "fl_format \<Rightarrow> fl \<Rightarrow> fl \<Rightarrow> fl" where
  "fl_mod fm x y =
     (if x = FNaN \<or> y = FNaN \<or> fl_is_zero y \<or> \<not> fl_finite x then FNaN
      else if \<not> fl_finite y then x
      else fl_round fm (fl_sign x)
             (fl_rat x - fl_rat y * of_int (rat_trunc (fl_rat x / fl_rat y))))"

definition fl_less :: "fl \<Rightarrow> fl \<Rightarrow> bool" where
  "fl_less x y = (case (x, y) of
     (FNaN, _) \<Rightarrow> False
   | (_, FNaN) \<Rightarrow> False
   | (FInf s, FInf t) \<Rightarrow> s \<and> \<not> t
   | (FInf s, _) \<Rightarrow> s
   | (_, FInf t) \<Rightarrow> \<not> t
   | (_, _) \<Rightarrow> fl_rat x < fl_rat y)"

definition fl_eq :: "fl \<Rightarrow> fl \<Rightarrow> bool" where
  "fl_eq x y = (case (x, y) of
     (FNaN, _) \<Rightarrow> False
   | (_, FNaN) \<Rightarrow> False
   | (FInf s, FInf t) \<Rightarrow> s = t
   | (FInf s, _) \<Rightarrow> False
   | (_, FInf t) \<Rightarrow> False
   | (_, _) \<Rightarrow> fl_rat x = fl_rat y)"

definition fl_le :: "fl \<Rightarrow> fl \<Rightarrow> bool" where
  "fl_le x y \<longleftrightarrow> fl_less x y \<or> fl_eq x y"

section \<open>Bit patterns\<close>

text \<open>\<open>math.Float32frombits\<close> and \<open>math.Float64frombits\<close>: sign, biased exponent, fraction.\<close>

definition fl_of_fields :: "fl_format \<Rightarrow> nat \<Rightarrow> bool \<Rightarrow> nat \<Rightarrow> nat \<Rightarrow> fl" where
  "fl_of_fields fm emask s ex fr =
     (let sgn = (if s then - 1 else 1)
      in if ex = emask then (if fr = 0 then FInf s else FNaN)
         else if ex = 0
         then (if fr = 0 then FZero s else FNum (of_int (sgn * int fr) * 2 powi f_emin fm))
         else FNum (of_int (sgn * (2 ^ nat (f_prec fm - 1) + int fr)) * 2 powi (f_emin fm + int ex - 1)))"

definition f32_of_bits :: "32 word \<Rightarrow> fl" where
  "f32_of_bits w = fl_of_fields binary32 255 (bit w 31)
     (unat (take_bit 8 (drop_bit 23 w))) (unat (take_bit 23 w))"

definition f64_of_bits :: "64 word \<Rightarrow> fl" where
  "f64_of_bits w = fl_of_fields binary64 2047 (bit w 63)
     (unat (take_bit 11 (drop_bit 52 w))) (unat (take_bit 52 w))"

section \<open>Every operation yields a datum of its format\<close>

lemma fl_ok_simps [simp]:
  "fl_ok fm FNaN" "fl_ok fm (FInf s)" "fl_ok fm (FZero s)"
  "fl_ok fm (FNum q) \<longleftrightarrow> q \<noteq> 0 \<and> representable fm q"
  by (simp_all add: fl_ok_def)

lemma prec_pos [simp]: "0 \<le> f_prec binary32" "0 \<le> f_prec binary64"
  "1 \<le> f_prec binary32" "1 \<le> f_prec binary64"
  by (simp_all add: format_defs)

lemma representable_uminus [simp]: "representable fm (- q) = representable fm q"
proof -
  have "representable fm q \<Longrightarrow> representable fm (- q)" for q
    unfolding representable_def by (auto, metis abs_minus_cancel minus_mult_left of_int_minus)
  from this [of q] this [of "- q"] show ?thesis by auto
qed

lemma fl_ok_neg [edge_inv]: "fl_ok fm x \<Longrightarrow> fl_ok fm (fl_neg x)"
  by (cases x) simp_all

lemma fl_ok_arith [edge_inv]:
  assumes "0 \<le> f_prec fm"
  shows "fl_ok fm (fl_add fm x y)" "fl_ok fm (fl_sub fm x y)" "fl_ok fm (fl_mul fm x y)"
    "fl_ok fm (fl_div fm x y)" "fl_ok fm x \<Longrightarrow> fl_ok fm (fl_mod fm x y)"
    "fl_ok fm (fl_conv fm x)" "fl_ok fm (fl_of_int fm n)"
  using fl_round_ok [OF assms]
  by (auto simp: fl_add_def fl_sub_def fl_mul_def fl_div_def fl_mod_def fl_conv_def fl_of_int_def
      Let_def split: fl.split)

lemma fl_neg_neg [simp]: "fl_neg (fl_neg x) = x"
  by (cases x) simp_all

lemma fl_finite_neg [simp]: "fl_finite (fl_neg x) = fl_finite x"
  by (cases x) simp_all

section \<open>Exact cases\<close>

lemma representable_int:
  assumes "\<bar>n\<bar> \<le> 2 ^ nat (f_prec fm)" and "1 \<le> f_prec fm" and "f_emin fm \<le> 0"
    and "f_prec fm < f_emax fm"
  shows "representable fm (of_int n)"
proof -
  have n: "(of_int \<bar>n\<bar> :: rat) \<le> 2 powi f_prec fm"
  proof -
    have "(of_int \<bar>n\<bar> :: rat) \<le> of_int (2 ^ nat (f_prec fm))" using assms(1) by (simp only: of_int_le_iff)
    then show ?thesis using assms(2) by (simp add: powi_nat)
  qed
  moreover have "(2 powi f_prec fm :: rat) < 2 powi f_emax fm" using assms(4) by (simp add: powi_less_iff)
  moreover have "of_int n = (of_int n * 2 powi 0 :: rat)" by simp
  ultimately show ?thesis unfolding representable_def using assms(3)
    by (metis of_int_abs order_le_less_trans)
qed

lemma fl_of_int_exact64:
  "\<bar>n\<bar> \<le> 2 ^ 53 \<Longrightarrow> fl_of_int binary64 n = (if n = 0 then FZero False else FNum (of_int n))"
  using fl_round_exact [OF _ representable_int, of binary64 n]
  by (auto simp: fl_of_int_def fl_round_def [of _ _ 0] format_defs)

lemma representable_widen: "representable binary32 q \<Longrightarrow> representable binary64 q"
proof -
  assume r: "representable binary32 q"
  then obtain m e where q: "q = of_int m * 2 powi e" and m: "of_int \<bar>m\<bar> \<le> (2 powi 24 :: rat)"
    and e: "- 149 \<le> e" and f: "\<bar>q\<bar> < 2 powi 128"
    unfolding representable_def by (auto simp: format_defs)
  have "(2 powi 24 :: rat) \<le> 2 powi 53" "(2 powi 128 :: rat) \<le> 2 powi 1024"
    unfolding powi_le_iff by simp_all
  with m f have "of_int \<bar>m\<bar> \<le> (2 powi 53 :: rat)" and "\<bar>q\<bar> < 2 powi 1024"
    by linarith+
  moreover from e have "- 1074 \<le> e" by simp
  ultimately show ?thesis unfolding representable_def using q
    by (auto simp: format_defs)
qed

lemma fl_conv_widen: "fl_ok binary32 x \<Longrightarrow> fl_conv binary64 x = x"
  by (cases x) (simp_all add: fl_conv_def representable_widen fl_round_exact)

lemma fl_conv_same: "1 \<le> f_prec fm \<Longrightarrow> fl_ok fm x \<Longrightarrow> fl_conv fm x = x"
  by (cases x) (simp_all add: fl_conv_def fl_round_exact)

lemma powi_abs [simp]: "\<bar>(2::rat) powi k\<bar> = 2 powi k"
  by (simp add: less_imp_le)

lemma representable_scaled:
  assumes "\<bar>m\<bar> < 2 ^ nat (f_prec fm)" and "0 \<le> f_prec fm" and "f_emin fm \<le> e"
    and "f_prec fm + e \<le> f_emax fm"
  shows "representable fm (of_int m * 2 powi e)"
proof -
  have m: "(of_int \<bar>m\<bar> :: rat) < 2 powi f_prec fm"
  proof -
    have "(of_int \<bar>m\<bar> :: rat) < of_int (2 ^ nat (f_prec fm))" using assms(1) by (simp only: of_int_less_iff)
    then show ?thesis using assms(2) by (simp add: powi_nat)
  qed
  then have "\<bar>of_int m * 2 powi e :: rat\<bar> < 2 powi f_prec fm * 2 powi e"
    by (simp add: abs_mult)
  also have "\<dots> \<le> 2 powi f_emax fm" using assms(4) by (simp add: powi_le_iff flip: powi_split)
  finally show ?thesis using less_imp_le [OF m] assms(3) unfolding representable_def by blast
qed

lemma fl_of_fields_ok:
  assumes "fr < 2 ^ nat (f_prec fm - 1)" and "ex \<le> emask" and "1 \<le> f_prec fm"
    and "f_prec fm + f_emin fm + int emask - 2 \<le> f_emax fm" and "2 \<le> emask"
  shows "fl_ok fm (fl_of_fields fm emask s ex fr)"
proof -
  define B :: int where "B = 2 ^ nat (f_prec fm - 1)"
  have "nat (f_prec fm) = Suc (nat (f_prec fm - 1))" using assms(3) by linarith
  then have full: "2 ^ nat (f_prec fm) = 2 * B" by (simp add: B_def)
  have "int fr < int (2 ^ nat (f_prec fm - 1))" using assms(1) by (simp only: of_nat_less_iff)
  then have fr: "int fr < B" by (simp add: B_def)
  have B: "0 < B" by (simp add: B_def)
  have sub: "fr \<noteq> 0 \<Longrightarrow> representable fm (of_int (sg * int fr) * 2 powi f_emin fm)"
    if "sg = 1 \<or> sg = - 1" for sg
    by (rule representable_scaled) (use that assms fr full in auto)
  have nrm: "ex \<noteq> 0 \<Longrightarrow> ex < emask \<Longrightarrow>
      representable fm (of_int (sg * (B + int fr)) * 2 powi (f_emin fm + int ex - 1))"
    if "sg = 1 \<or> sg = - 1" for sg
    by (rule representable_scaled) (use that assms fr full B in auto)
  have "B + int fr \<noteq> 0" using B by linarith
  then have nz: "(of_int B + of_nat fr :: rat) \<noteq> 0"
    by (metis of_int_add of_int_eq_0_iff of_int_of_nat_eq)
  have nz': "(- of_int B - of_nat fr :: rat) \<noteq> 0" using nz by linarith
  have [simp]: "(2::int) ^ nat (f_prec fm - 1) = B" by (simp add: B_def)
  show ?thesis
    using sub [of 1] sub [of "- 1"] nrm [of 1] nrm [of "- 1"] assms(2) nz nz'
    by (auto simp: fl_of_fields_def Let_def B_def [symmetric] simp flip: B_def)
qed

lemma f32_of_bits_ok: "fl_ok binary32 (f32_of_bits w)"
proof -
  have "unat (take_bit 23 w) < 2 ^ 23" "unat (take_bit 8 (drop_bit 23 w)) < 2 ^ 8"
    unfolding unsigned_take_bit_eq by (rule take_bit_nat_less_exp)+
  then show ?thesis unfolding f32_of_bits_def
    by (intro fl_of_fields_ok) (simp_all add: binary32_def)
qed

lemma f64_of_bits_ok: "fl_ok binary64 (f64_of_bits w)"
proof -
  have "unat (take_bit 52 w) < 2 ^ 52" "unat (take_bit 11 (drop_bit 52 w)) < 2 ^ 11"
    unfolding unsigned_take_bit_eq by (rule take_bit_nat_less_exp)+
  then show ?thesis unfolding f64_of_bits_def
    by (intro fl_of_fields_ok) (simp_all add: binary64_def)
qed

end
