(* ===== verification/Go_Text.thy ===== *)
theory Go_Text
  imports Go_Float
begin

text \<open>
  Text as the code reads it: the number of runes of a byte string
  (\<open>utf8.RuneCountInString\<close>, which the length limits on names use), decimal integers
  (\<open>strconv.ParseInt\<close>, \<open>ParseUint\<close>) and decimal floats (\<open>strconv.ParseFloat\<close>). The callers
  pass JSON numbers and numbers of the expression grammar, so only the decimal forms are
  written out.
\<close>

section \<open>Runes\<close>

definition byte_of :: "char \<Rightarrow> nat" where
  "byte_of c = of_char c"

definition byte_in :: "nat \<Rightarrow> nat \<Rightarrow> string \<Rightarrow> nat \<Rightarrow> bool" where
  "byte_in lo hi s i \<longleftrightarrow> i < length s \<and> lo \<le> byte_of (s ! i) \<and> byte_of (s ! i) \<le> hi"

text \<open>The number of bytes of the rune a non-empty string starts with; an invalid byte is one.\<close>

definition rune_width :: "string \<Rightarrow> nat" where
  "rune_width s =
     (if byte_in 0xC2 0xDF s 0 \<and> byte_in 0x80 0xBF s 1 then 2
      else if (byte_in 0xE0 0xE0 s 0 \<and> byte_in 0xA0 0xBF s 1
             \<or> byte_in 0xE1 0xEC s 0 \<and> byte_in 0x80 0xBF s 1
             \<or> byte_in 0xED 0xED s 0 \<and> byte_in 0x80 0x9F s 1
             \<or> byte_in 0xEE 0xEF s 0 \<and> byte_in 0x80 0xBF s 1) \<and> byte_in 0x80 0xBF s 2 then 3
      else if (byte_in 0xF0 0xF0 s 0 \<and> byte_in 0x90 0xBF s 1
             \<or> byte_in 0xF1 0xF3 s 0 \<and> byte_in 0x80 0xBF s 1
             \<or> byte_in 0xF4 0xF4 s 0 \<and> byte_in 0x80 0x8F s 1)
           \<and> byte_in 0x80 0xBF s 2 \<and> byte_in 0x80 0xBF s 3 then 4
      else 1)"

lemma rune_width_pos: "0 < rune_width s"
  by (simp add: rune_width_def)

function rune_count :: "string \<Rightarrow> nat" where
  "rune_count s = (if s = [] then 0 else 1 + rune_count (drop (rune_width s) s))"
  by pat_completeness auto
termination
  by (relation "measure length") (use rune_width_pos in auto)

declare rune_count.simps [simp del]

lemma rune_count_Nil [simp]: "rune_count [] = 0"
  by (simp add: rune_count.simps)

lemma rune_count_le_length: "rune_count s \<le> length s"
proof (induction s rule: rune_count.induct)
  case (1 s)
  show ?case
  proof (cases "s = []")
    case False
    with "1.IH" have "rune_count (drop (rune_width s) s) \<le> length s - rune_width s" by simp
    then show ?thesis using False rune_width_pos [of s] rune_count.simps [of s]
      by (cases s) simp_all
  qed simp
qed

section \<open>Decimal integers\<close>

definition is_digit :: "char \<Rightarrow> bool" where
  "is_digit c \<longleftrightarrow> 48 \<le> byte_of c \<and> byte_of c \<le> 57"

definition is_alpha :: "char \<Rightarrow> bool" where
  "is_alpha c \<longleftrightarrow> 97 \<le> byte_of c \<and> byte_of c \<le> 122 \<or> 65 \<le> byte_of c \<and> byte_of c \<le> 90"

definition digits_value :: "string \<Rightarrow> int" where
  "digits_value ds = foldl (\<lambda>n c. 10 * n + (int (byte_of c) - 48)) 0 ds"

definition parse_uint :: "nat \<Rightarrow> string \<Rightarrow> int option" where
  "parse_uint bits s =
     (if s = [] \<or> \<not> list_all is_digit s then None
      else let n = digits_value s in if n < 2 ^ bits then Some n else None)"

definition parse_int :: "nat \<Rightarrow> string \<Rightarrow> int option" where
  "parse_int bits s =
     (let neg = (s \<noteq> [] \<and> hd s = CHR ''-'');
          t = (if s \<noteq> [] \<and> (hd s = CHR ''-'' \<or> hd s = CHR ''+'') then tl s else s)
      in if t = [] \<or> \<not> list_all is_digit t then None
         else let n = digits_value t
           in if neg then if n \<le> 2 ^ (bits - 1) then Some (- n) else None
              else if n < 2 ^ (bits - 1) then Some n else None)"

lemma digits_value_snoc: "digits_value (ds @ [c]) = 10 * digits_value ds + (int (byte_of c) - 48)"
  by (simp add: digits_value_def)

lemma digits_value_nonneg: "list_all is_digit ds \<Longrightarrow> 0 \<le> digits_value ds"
proof (induction ds rule: rev_induct)
  case (snoc c ds)
  then have "0 \<le> digits_value ds" and "48 \<le> byte_of c" by (simp_all add: is_digit_def)
  then show ?case by (simp add: digits_value_snoc)
qed (simp add: digits_value_def)

lemma parse_uint_bounds: "parse_uint bits s = Some n \<Longrightarrow> 0 \<le> n \<and> n < 2 ^ bits"
  using digits_value_nonneg [of s] by (auto simp: parse_uint_def Let_def split: if_splits)

lemma parse_int_bounds:
  "parse_int bits s = Some n \<Longrightarrow> - (2 ^ (bits - 1)) \<le> n \<and> n < 2 ^ (bits - 1)"
proof -
  assume p: "parse_int bits s = Some n"
  define B :: int where "B = 2 ^ (bits - 1)"
  have "0 < B" by (simp add: B_def)
  with p digits_value_nonneg [of s] digits_value_nonneg [of "tl s"] show ?thesis
    unfolding parse_int_def B_def [symmetric] by (auto simp: Let_def split: if_splits)
qed

section \<open>Decimal floats\<close>

text \<open>A decimal: sign, digits before and after the point, exponent.\<close>

definition span_digits :: "string \<Rightarrow> string \<times> string" where
  "span_digits s = (takeWhile is_digit s, dropWhile is_digit s)"

definition ten_powi :: "int \<Rightarrow> rat" where
  "ten_powi e = (if 0 \<le> e then 10 ^ nat e else 1 / 10 ^ nat (- e))"

definition scan_exponent :: "string \<Rightarrow> int option" where
  "scan_exponent s =
     (if s = [] then Some 0
      else if hd s = CHR ''e'' \<or> hd s = CHR ''E''
      then let t = tl s; neg = (t \<noteq> [] \<and> hd t = CHR ''-'');
               u = (if t \<noteq> [] \<and> (hd t = CHR ''-'' \<or> hd t = CHR ''+'') then tl t else t)
           in if u = [] \<or> \<not> list_all is_digit u then None
              else Some (if neg then - digits_value u else digits_value u)
      else None)"

definition parse_decimal :: "string \<Rightarrow> (bool \<times> rat) option" where
  "parse_decimal s =
     (let neg = (s \<noteq> [] \<and> hd s = CHR ''-'');
          t = (if s \<noteq> [] \<and> (hd s = CHR ''-'' \<or> hd s = CHR ''+'') then tl s else s);
          (ip, r) = span_digits t;
          (fp, r') = (if r \<noteq> [] \<and> hd r = CHR ''.'' then span_digits (tl r) else ([], r))
      in if ip @ fp = [] then None
         else case scan_exponent r' of None \<Rightarrow> None
              | Some e \<Rightarrow>
                  let q = of_int (digits_value (ip @ fp)) * ten_powi (e - int (length fp))
                  in Some (neg, if neg then - q else q))"

text \<open>\<open>strconv.ParseFloat\<close>: \<open>None\<close> on a syntax error and when the value overflows the format.\<close>

definition parse_float :: "fl_format \<Rightarrow> string \<Rightarrow> fl option" where
  "parse_float fm s =
     (case parse_decimal s of None \<Rightarrow> None
      | Some (neg, q) \<Rightarrow>
          (case fl_round fm neg q of FInf sg \<Rightarrow> None | FNaN \<Rightarrow> None | x \<Rightarrow> Some x))"

lemma parse_float_Some:
  "0 \<le> f_prec fm \<Longrightarrow> parse_float fm s = Some x \<Longrightarrow> fl_finite x \<and> fl_ok fm x"
proof -
  assume fm: "0 \<le> f_prec fm" and p: "parse_float fm s = Some x"
  then obtain neg q where x: "x = fl_round fm neg q" and "fl_finite x"
    by (auto simp: parse_float_def split: option.splits prod.splits fl.splits) (metis fl_finite.simps)+
  with fl_round_ok [OF fm] show ?thesis by simp
qed

section \<open>Printing integers\<close>

fun decimal_digits :: "nat \<Rightarrow> nat \<Rightarrow> string" where
  "decimal_digits 0 n = []"
| "decimal_digits (Suc fuel) n =
     (if n < 10 then [char_of (48 + n)] else decimal_digits fuel (n div 10) @ [char_of (48 + n mod 10)])"

text \<open>\<open>strconv.Itoa\<close>; a number below \<open>2 ^ 64\<close> has at most 20 digits.\<close>

definition itoa :: "int \<Rightarrow> string" where
  "itoa i = (if i < 0 then ''-'' @ decimal_digits 20 (nat (- i)) else decimal_digits 20 (nat i))"

end
