(* ===== verification/Tag_Types.thy ===== *)
theory Tag_Types
  imports Go_Text
begin

text \<open>
  The data the tag package shares (\<open>internal/tag/model.go\<close>): the type tags, the data types
  and the dynamic Go value (\<open>any\<close>) that a tag carries, with the numeric view of it that
  expressions and transforms take (\<open>expressionNumber\<close> of expression.go).
\<close>

unbundle bit_operations_syntax

text \<open>A \<open>DataType\<close> or \<open>Type\<close> is a string: the declared ones, or any other.\<close>

datatype data_type =
    DTBool | DTInt16 | DTUInt16 | DTInt32 | DTUInt32 | DTFloat32 | DTFloat64 | DTOther string

datatype tag_type = TypeReading | TypeConstant | TypeCalculated | TypeOther string

definition valid_tag_type :: "tag_type \<Rightarrow> bool" where
  "valid_tag_type t \<longleftrightarrow> t = TypeReading \<or> t = TypeConstant \<or> t = TypeCalculated"

fun valid_tag_data_type :: "data_type \<Rightarrow> bool" where
  "valid_tag_data_type (DTOther s) = False"
| "valid_tag_data_type _ = True"

text \<open>
  A Go value of interface type: the dynamic types the code distinguishes, signed and unsigned
  integers at their width, and one case for every other dynamic type. \<open>int\<close> and \<open>uint\<close> have
  64 bits.
\<close>

datatype gval =
    VNil
  | VBool bool
  | VInt "64 word" | VInt8 "8 word" | VInt16 "16 word" | VInt32 "32 word" | VInt64 "64 word"
  | VUInt "64 word" | VUInt8 "8 word" | VUInt16 "16 word" | VUInt32 "32 word" | VUInt64 "64 word"
  | VFloat32 fl | VFloat64 fl
  | VString string
  | VOtherType

definition expression_number :: "gval \<Rightarrow> fl option" where
  "expression_number v = (case v of
     VInt w \<Rightarrow> Some (fl_of_int binary64 (sint w))
   | VInt8 w \<Rightarrow> Some (fl_of_int binary64 (sint w))
   | VInt16 w \<Rightarrow> Some (fl_of_int binary64 (sint w))
   | VInt32 w \<Rightarrow> Some (fl_of_int binary64 (sint w))
   | VInt64 w \<Rightarrow> Some (fl_of_int binary64 (sint w))
   | VUInt w \<Rightarrow> Some (fl_of_int binary64 (uint w))
   | VUInt8 w \<Rightarrow> Some (fl_of_int binary64 (uint w))
   | VUInt16 w \<Rightarrow> Some (fl_of_int binary64 (uint w))
   | VUInt32 w \<Rightarrow> Some (fl_of_int binary64 (uint w))
   | VUInt64 w \<Rightarrow> Some (fl_of_int binary64 (uint w))
   | VFloat32 x \<Rightarrow> Some (fl_conv binary64 x)
   | VFloat64 x \<Rightarrow> Some x
   | _ \<Rightarrow> None)"

text \<open>A value whose floats are data of their format.\<close>

fun gval_ok :: "gval \<Rightarrow> bool" where
  "gval_ok (VFloat32 x) = fl_ok binary32 x"
| "gval_ok (VFloat64 x) = fl_ok binary64 x"
| "gval_ok _ = True"

text \<open>The dynamic type a normalised value of each data type has, and its finiteness.\<close>

definition has_data_type :: "data_type \<Rightarrow> gval \<Rightarrow> bool" where
  "has_data_type d v = (case d of
     DTBool \<Rightarrow> (case v of VBool b \<Rightarrow> True | _ \<Rightarrow> False)
   | DTInt16 \<Rightarrow> (case v of VInt16 w \<Rightarrow> True | _ \<Rightarrow> False)
   | DTUInt16 \<Rightarrow> (case v of VUInt16 w \<Rightarrow> True | _ \<Rightarrow> False)
   | DTInt32 \<Rightarrow> (case v of VInt32 w \<Rightarrow> True | _ \<Rightarrow> False)
   | DTUInt32 \<Rightarrow> (case v of VUInt32 w \<Rightarrow> True | _ \<Rightarrow> False)
   | DTFloat32 \<Rightarrow> (case v of VFloat32 x \<Rightarrow> fl_finite x \<and> fl_ok binary32 x | _ \<Rightarrow> False)
   | DTFloat64 \<Rightarrow> (case v of VFloat64 x \<Rightarrow> fl_finite x \<and> fl_ok binary64 x | _ \<Rightarrow> False)
   | DTOther s \<Rightarrow> False)"

lemma has_data_type_simps [simp]:
  "has_data_type DTBool v \<longleftrightarrow> (\<exists>b. v = VBool b)"
  "has_data_type DTInt16 v \<longleftrightarrow> (\<exists>w. v = VInt16 w)"
  "has_data_type DTUInt16 v \<longleftrightarrow> (\<exists>w. v = VUInt16 w)"
  "has_data_type DTInt32 v \<longleftrightarrow> (\<exists>w. v = VInt32 w)"
  "has_data_type DTUInt32 v \<longleftrightarrow> (\<exists>w. v = VUInt32 w)"
  "has_data_type DTFloat32 v \<longleftrightarrow> (\<exists>x. v = VFloat32 x \<and> fl_finite x \<and> fl_ok binary32 x)"
  "has_data_type DTFloat64 v \<longleftrightarrow> (\<exists>x. v = VFloat64 x \<and> fl_finite x \<and> fl_ok binary64 x)"
  "has_data_type (DTOther s) v = False"
  by (simp_all add: has_data_type_def split: gval.split)

lemma has_data_type_valid: "has_data_type d v \<Longrightarrow> valid_tag_data_type d"
  by (cases d) simp_all

lemma expression_number_ok: "gval_ok v \<Longrightarrow> expression_number v = Some x \<Longrightarrow> fl_ok binary64 x"
  by (cases v) (auto simp: expression_number_def fl_ok_arith)

lemma sint_16_abs: "\<bar>sint (w :: 16 word)\<bar> \<le> 2 ^ 53"
  using sint_ge [of w] sint_lt [of w] by simp

lemma sint_32_abs: "\<bar>sint (w :: 32 word)\<bar> \<le> 2 ^ 53"
  using sint_ge [of w] sint_lt [of w] by simp

lemma uint_16_abs: "\<bar>uint (w :: 16 word)\<bar> \<le> 2 ^ 53"
  using uint_bounded [of w] by simp

lemma uint_32_abs: "\<bar>uint (w :: 32 word)\<bar> \<le> 2 ^ 53"
  using uint_bounded [of w] by simp

lemmas word_abs_bounds = sint_16_abs sint_32_abs uint_16_abs uint_32_abs

end
