(* ===== verification/Tag_Binary.thy ===== *)
theory Tag_Binary
  imports Tag_Types
begin

text \<open>
  Decoding a register window into a typed value: \<open>internal/tag/converter.go\<close>
  (\<open>ConvertBinary\<close>, \<open>ApplyByteOrder\<close>, \<open>binaryDataSize\<close>, \<open>reverseBytes\<close>) and the decoder that
  normalises its configuration, \<open>internal/tag/decoder.go\<close>. The loops over the window are
  written as the code has them, by index, and proved equal to the reorderings of 16-bit
  registers that the names of the byte orders promise.
\<close>

datatype binary_error =
    ErrInvalidBinaryConversion | ErrInsufficientBinaryData | ErrNonFiniteBinaryValue

datatype byte_order =
    BOEmpty | BOBigEndian | BOLittleEndian | BOWordSwap | BOByteSwap | BOOther string

record binary_conversion =
  bc_data_type :: data_type
  bc_byte_order :: byte_order
  bc_byte_offset :: int
  bc_bit_offset :: byte

section \<open>Byte order\<close>

definition swap_at :: "'a list \<Rightarrow> int \<Rightarrow> int \<Rightarrow> 'a list" where
  "swap_at xs i j = xs[nat i := xs ! nat j, nat j := xs ! nat i]"

lemma length_swap_at [simp]: "length (swap_at xs i j) = length xs"
  by (simp add: swap_at_def)

lemma nth_swap_at:
  "nat i < length xs \<Longrightarrow> nat j < length xs \<Longrightarrow> k < length xs \<Longrightarrow>
   swap_at xs i j ! k = (if k = nat j then xs ! nat i else if k = nat i then xs ! nat j else xs ! k)"
  by (simp add: swap_at_def nth_list_update)

function reverse_loop :: "'a list \<Rightarrow> int \<Rightarrow> int \<Rightarrow> 'a list" where
  "reverse_loop xs l r =
     (if l < r then reverse_loop (swap_at xs l r) (l + 1) (r - 1) else xs)"
  by pat_completeness auto
termination by (relation "measure (\<lambda>(xs, l, r). nat (r - l))") auto

declare reverse_loop.simps [simp del]

definition reverse_bytes :: "byte list \<Rightarrow> byte list" where
  "reverse_bytes xs = reverse_loop xs 0 (int (length xs) - 1)"

function word_swap_loop :: "byte list \<Rightarrow> int \<Rightarrow> int \<Rightarrow> byte list" where
  "word_swap_loop xs l r =
     (if l < r
      then word_swap_loop (swap_at (swap_at xs l r) (l + 1) (r + 1)) (l + 2) (r - 2)
      else xs)"
  by pat_completeness auto
termination by (relation "measure (\<lambda>(xs, l, r). nat (r - l))") auto

declare word_swap_loop.simps [simp del]

function byte_swap_loop :: "byte list \<Rightarrow> int \<Rightarrow> byte list" where
  "byte_swap_loop xs i =
     (if i < int (length xs) then byte_swap_loop (swap_at xs i (i + 1)) (i + 2) else xs)"
  by pat_completeness auto
termination by (relation "measure (\<lambda>(xs, i). nat (int (length xs) - i))") auto

declare byte_swap_loop.simps [simp del]

definition apply_byte_order :: "byte list \<Rightarrow> byte_order \<Rightarrow> binary_error + byte list" where
  "apply_byte_order raw order0 =
     (if length raw mod 2 \<noteq> 0 then Inl ErrInvalidBinaryConversion
      else let order = (if order0 = BOEmpty then BOBigEndian else order0)
           in case order of
                BOBigEndian \<Rightarrow> Inr raw
              | BOLittleEndian \<Rightarrow> Inr (reverse_bytes raw)
              | BOWordSwap \<Rightarrow> Inr (word_swap_loop raw 0 (int (length raw) - 2))
              | BOByteSwap \<Rightarrow> Inr (byte_swap_loop raw 0)
              | _ \<Rightarrow> Inl ErrInvalidBinaryConversion)"

section \<open>Typed values\<close>

definition binary_data_size :: "data_type \<Rightarrow> binary_error + int" where
  "binary_data_size d = (case d of
     DTBool \<Rightarrow> Inr 1
   | DTInt16 \<Rightarrow> Inr 2 | DTUInt16 \<Rightarrow> Inr 2
   | DTInt32 \<Rightarrow> Inr 4 | DTUInt32 \<Rightarrow> Inr 4 | DTFloat32 \<Rightarrow> Inr 4
   | DTFloat64 \<Rightarrow> Inr 8
   | DTOther s \<Rightarrow> Inl ErrInvalidBinaryConversion)"

text \<open>\<open>binary.BigEndian.Uint16\<close>, \<open>Uint32\<close>, \<open>Uint64\<close> of the first bytes.\<close>

definition be_uint16 :: "byte list \<Rightarrow> 16 word" where
  "be_uint16 b = ucast (b ! 1) OR push_bit 8 (ucast (b ! 0))"

definition be_uint32 :: "byte list \<Rightarrow> 32 word" where
  "be_uint32 b = ucast (b ! 3) OR push_bit 8 (ucast (b ! 2)) OR push_bit 16 (ucast (b ! 1))
     OR push_bit 24 (ucast (b ! 0))"

definition be_uint64 :: "byte list \<Rightarrow> 64 word" where
  "be_uint64 b = ucast (b ! 7) OR push_bit 8 (ucast (b ! 6)) OR push_bit 16 (ucast (b ! 5))
     OR push_bit 24 (ucast (b ! 4)) OR push_bit 32 (ucast (b ! 3)) OR push_bit 40 (ucast (b ! 2))
     OR push_bit 48 (ucast (b ! 1)) OR push_bit 56 (ucast (b ! 0))"

definition convert_binary :: "byte list \<Rightarrow> binary_conversion \<Rightarrow> binary_error + gval" where
  "convert_binary raw c =
     (if bc_byte_offset c < 0 then Inl ErrInvalidBinaryConversion
      else bindE (binary_data_size (bc_data_type c)) (\<lambda>size.
        if bc_byte_offset c > int (length raw) \<or> size > int (length raw) - bc_byte_offset c
        then Inl ErrInsufficientBinaryData
        else if bc_data_type c \<noteq> DTBool \<and> bc_bit_offset c \<noteq> 0
        then Inl ErrInvalidBinaryConversion
        else let window = take (nat size) (drop (nat (bc_byte_offset c)) raw)
          in if bc_data_type c = DTBool
             then if bc_bit_offset c > 7 then Inl ErrInvalidBinaryConversion
                  else Inr (VBool (window ! 0 AND push_bit (unat (bc_bit_offset c)) 1 \<noteq> 0))
             else bindE (apply_byte_order window (bc_byte_order c)) (\<lambda>ordered.
               case bc_data_type c of
                 DTInt16 \<Rightarrow> Inr (VInt16 (be_uint16 ordered))
               | DTUInt16 \<Rightarrow> Inr (VUInt16 (be_uint16 ordered))
               | DTInt32 \<Rightarrow> Inr (VInt32 (be_uint32 ordered))
               | DTUInt32 \<Rightarrow> Inr (VUInt32 (be_uint32 ordered))
               | DTFloat32 \<Rightarrow>
                   let value = f32_of_bits (be_uint32 ordered)
                   in if fl_finite (fl_conv binary64 value) then Inr (VFloat32 value)
                      else Inl ErrNonFiniteBinaryValue
               | DTFloat64 \<Rightarrow>
                   let value = f64_of_bits (be_uint64 ordered)
                   in if fl_finite value then Inr (VFloat64 value)
                      else Inl ErrNonFiniteBinaryValue
               | _ \<Rightarrow> Inl ErrInvalidBinaryConversion)))"

section \<open>The byte orders as orders of registers\<close>

text \<open>
  A window of \<open>2 n\<close> bytes is \<open>n\<close> registers, high byte first. The reference reading of a byte
  order is what it does to that list.
\<close>

fun bytes_of_registers :: "(byte \<times> byte) list \<Rightarrow> byte list" where
  "bytes_of_registers [] = []"
| "bytes_of_registers ((hi, lo) # rs) = hi # lo # bytes_of_registers rs"

fun registers_of_bytes :: "byte list \<Rightarrow> (byte \<times> byte) list" where
  "registers_of_bytes (hi # lo # bs) = (hi, lo) # registers_of_bytes bs"
| "registers_of_bytes _ = []"

fun register_order :: "byte_order \<Rightarrow> (byte \<times> byte) list \<Rightarrow> (byte \<times> byte) list" where
  "register_order BOLittleEndian rs = rev (map prod.swap rs)"
| "register_order BOWordSwap rs = rev rs"
| "register_order BOByteSwap rs = map prod.swap rs"
| "register_order _ rs = rs"

lemma length_bytes_of_registers [simp]: "length (bytes_of_registers rs) = 2 * length rs"
  by (induction rs rule: bytes_of_registers.induct) simp_all

lemma bytes_of_registers_append:
  "bytes_of_registers (rs @ qs) = bytes_of_registers rs @ bytes_of_registers qs"
  by (induction rs rule: bytes_of_registers.induct) simp_all

lemma nth_bytes_of_registers:
  "i < 2 * length rs \<Longrightarrow>
   bytes_of_registers rs ! i = (if even i then fst else snd) (rs ! (i div 2))"
proof (induction rs arbitrary: i rule: bytes_of_registers.induct)
  case (2 hi lo rs)
  show ?case
  proof (cases i)
    case (Suc j)
    with 2 show ?thesis by (cases j) simp_all
  qed simp
qed simp

lemma bytes_of_registers_of_bytes:
  "even (length bs) \<Longrightarrow> bytes_of_registers (registers_of_bytes bs) = bs"
  by (induction bs rule: registers_of_bytes.induct) simp_all

lemma registers_of_bytes_of_registers [simp]: "registers_of_bytes (bytes_of_registers rs) = rs"
  by (induction rs rule: bytes_of_registers.induct) simp_all

lemma register_order_involution [simp]: "register_order ord (register_order ord rs) = rs"
  by (cases ord) (simp_all add: rev_map comp_def)

lemma reverse_loop_nth:
  "0 \<le> l \<Longrightarrow> r < int (length xs) \<Longrightarrow>
   length (reverse_loop xs l r) = length xs \<and>
   (\<forall>i < length xs. reverse_loop xs l r ! i =
      (if l \<le> int i \<and> int i \<le> r then xs ! nat (l + r - int i) else xs ! i))"
proof (induction xs l r rule: reverse_loop.induct)
  case (1 xs l r)
  show ?case
  proof (cases "l < r")
    case True
    note IH = "1.IH" [OF True] and step = reverse_loop.simps [of xs l r]
    have "0 \<le> l + 1" "r - 1 < int (length (swap_at xs l r))" using 1 by simp_all
    from IH [OF this] show ?thesis using True 1
      by (auto simp: step nth_swap_at nat_less_iff intro!: arg_cong [of _ _ "(!) xs"])
  next
    case False
    then have "int i = l + r - int i" if "l \<le> int i" "int i \<le> r" for i
      using that by linarith
    then have "nat (l + r - int i) = i" if "l \<le> int i" "int i \<le> r" for i
      using that by (metis nat_int)
    with False show ?thesis by (simp add: reverse_loop.simps [of xs l r])
  qed
qed

lemma reverse_loop_rev: "reverse_loop xs 0 (int (length xs) - 1) = rev xs"
proof (rule nth_equalityI)
  note nth = reverse_loop_nth [of 0 "int (length xs) - 1" xs]
  show "length (reverse_loop xs 0 (int (length xs) - 1)) = length (rev xs)" using nth by simp
  fix i assume "i < length (reverse_loop xs 0 (int (length xs) - 1))"
  then have "i < length xs" using nth by simp
  then show "reverse_loop xs 0 (int (length xs) - 1) ! i = rev xs ! i" using nth
    by (auto simp: rev_nth intro!: arg_cong [of _ _ "(!) xs"])
qed

lemma reverse_bytes_rev: "reverse_bytes xs = rev xs"
  by (simp add: reverse_bytes_def reverse_loop_rev)

text \<open>A register update is two byte updates, so the loops over bytes are loops over registers.\<close>

lemma bytes_of_registers_update:
  "bytes_of_registers (rs[i := r]) = (bytes_of_registers rs)[2 * i := fst r, 2 * i + 1 := snd r]"
proof (induction rs arbitrary: i rule: bytes_of_registers.induct)
  case (2 hi lo rs)
  then show ?case by (cases i; cases r) simp_all
qed simp

lemma swap_registers:
  assumes "a < length rs" and "b < length rs" and "a \<noteq> b"
  shows "swap_at (swap_at (bytes_of_registers rs) (int (2 * a)) (int (2 * b)))
           (int (2 * a) + 1) (int (2 * b) + 1)
         = bytes_of_registers (swap_at rs (int a) (int b))"
proof -
  have "nat (int (2 * k) + 1) = 2 * k + 1" "nat (int (2 * k)) = 2 * k" for k by simp_all
  moreover have "2 * a \<noteq> 2 * b + 1" "2 * a + 1 \<noteq> 2 * b" by presburger+
  ultimately show ?thesis using assms
    by (simp add: swap_at_def bytes_of_registers_update nth_bytes_of_registers
        list_update_swap [of "2 * b" "Suc (2 * a)"])
qed

lemma word_swap_loop_registers:
  assumes "0 \<le> a" and "b < int (length rs)"
  shows "word_swap_loop (bytes_of_registers rs) (2 * a) (2 * b) =
         bytes_of_registers (reverse_loop rs a b)"
  using assms
proof (induction rs a b rule: reverse_loop.induct)
  case (1 rs a b)
  show ?case
  proof (cases "a < b")
    case True
    then have "swap_at (swap_at (bytes_of_registers rs) (2 * a) (2 * b)) (2 * a + 1) (2 * b + 1) =
        bytes_of_registers (swap_at rs a b)"
      using swap_registers [of "nat a" rs "nat b"] "1.prems" by simp
    then have "word_swap_loop (bytes_of_registers rs) (2 * a) (2 * b) =
        word_swap_loop (bytes_of_registers (swap_at rs a b)) (2 * a + 2) (2 * b - 2)"
      using True by (subst word_swap_loop.simps) simp
    also have "\<dots> = word_swap_loop (bytes_of_registers (swap_at rs a b)) (2 * (a + 1)) (2 * (b - 1))"
      by (simp only: distrib_left right_diff_distrib mult_1_right)
    also have "\<dots> = bytes_of_registers (reverse_loop (swap_at rs a b) (a + 1) (b - 1))"
      using "1.prems" by (intro "1.IH" [OF True]) simp_all
    also have "\<dots> = bytes_of_registers (reverse_loop rs a b)"
      using True by (simp add: reverse_loop.simps [of rs a b])
    finally show ?thesis .
  qed (simp add: word_swap_loop.simps [of _ "2 * a"] reverse_loop.simps [of rs a b])
qed

lemma byte_swap_step:
  assumes "i < length rs"
  shows "swap_at (bytes_of_registers rs) (int (2 * i)) (int (2 * i) + 1) =
    bytes_of_registers (rs[i := prod.swap (rs ! i)])"
proof -
  have "nat (int (2 * i) + 1) = 2 * i + 1" "nat (int (2 * i)) = 2 * i" by simp_all
  then show ?thesis using assms
    by (simp add: swap_at_def bytes_of_registers_update nth_bytes_of_registers)
qed

lemma byte_swap_loop_registers:
  "i \<le> length rs \<Longrightarrow>
   byte_swap_loop (bytes_of_registers rs) (int (2 * i)) =
   bytes_of_registers (take i rs @ map prod.swap (drop i rs))"
proof (induction "length rs - i" arbitrary: i rs)
  case 0
  then show ?case by (simp add: byte_swap_loop.simps [of "bytes_of_registers rs"])
next
  case (Suc n)
  then have i: "i < length rs" by simp
  define rs' where "rs' = rs[i := prod.swap (rs ! i)]"
  have "byte_swap_loop (bytes_of_registers rs) (int (2 * i)) =
      byte_swap_loop (swap_at (bytes_of_registers rs) (int (2 * i)) (int (2 * i) + 1)) (int (2 * i) + 2)"
    using i by (subst byte_swap_loop.simps) simp
  also have "\<dots> = byte_swap_loop (bytes_of_registers rs') (int (2 * Suc i))"
    unfolding byte_swap_step [OF i] rs'_def by (simp add: add.commute)
  also have "\<dots> = bytes_of_registers (take (Suc i) rs' @ map prod.swap (drop (Suc i) rs'))"
    using Suc i by (intro Suc.hyps) (simp_all add: rs'_def)
  also have "take (Suc i) rs' @ map prod.swap (drop (Suc i) rs') =
      take i rs @ map prod.swap (drop i rs)"
    using i by (simp add: rs'_def take_Suc_conv_app_nth Cons_nth_drop_Suc [symmetric])
  finally show ?case .
qed

lemma apply_byte_order_registers:
  assumes "\<And>s. ord \<noteq> BOOther s"
  shows "apply_byte_order (bytes_of_registers rs) ord = Inr (bytes_of_registers (register_order ord rs))"
proof (cases ord)
  case BOLittleEndian
  have "rev (bytes_of_registers rs) = bytes_of_registers (rev (map prod.swap rs))"
    by (induction rs rule: bytes_of_registers.induct) (simp_all add: bytes_of_registers_append)
  then show ?thesis using BOLittleEndian by (simp add: apply_byte_order_def reverse_bytes_rev)
next
  case BOWordSwap
  have "int (2 * length rs) - 2 = 2 * (int (length rs) - 1)" by simp
  then show ?thesis using word_swap_loop_registers [of 0 "int (length rs) - 1" rs] BOWordSwap
    by (simp add: apply_byte_order_def reverse_loop_rev)
next
  case BOByteSwap
  then show ?thesis using byte_swap_loop_registers [of 0 rs] by (simp add: apply_byte_order_def)
qed (use assms in \<open>simp_all add: apply_byte_order_def\<close>)

lemma length_registers_of_bytes: "length (registers_of_bytes bs) = length bs div 2"
  by (induction bs rule: registers_of_bytes.induct) simp_all

text \<open>
  C1: \<open>ApplyByteOrder\<close> refuses an odd window and an unknown byte order and otherwise permutes
  the registers of the window and the two bytes of each register as the name of the byte
  order says.
\<close>

theorem apply_byte_order_refines:
  "apply_byte_order raw ord =
     (case ord of
        BOOther s \<Rightarrow> Inl ErrInvalidBinaryConversion
      | _ \<Rightarrow> if odd (length raw) then Inl ErrInvalidBinaryConversion
            else Inr (bytes_of_registers (register_order ord (registers_of_bytes raw))))"
proof (cases "odd (length raw)")
  case True
  then have "length raw mod 2 \<noteq> 0" by presburger
  with True show ?thesis by (cases ord) (simp_all add: apply_byte_order_def)
next
  case False
  then show ?thesis
    using apply_byte_order_registers [of ord "registers_of_bytes raw"]
    by (cases ord) (simp_all add: bytes_of_registers_of_bytes, simp add: apply_byte_order_def)
qed

lemma apply_byte_order_Inr_iff:
  "apply_byte_order raw ord = Inr w \<longleftrightarrow>
     (\<forall>s. ord \<noteq> BOOther s) \<and> even (length raw) \<and>
     w = bytes_of_registers (register_order ord (registers_of_bytes raw))"
proof (cases "odd (length raw)")
  case True
  then have "length raw mod 2 \<noteq> 0" by presburger
  with True show ?thesis by (simp add: apply_byte_order_def)
next
  case False
  then show ?thesis
    using apply_byte_order_registers [of ord "registers_of_bytes raw"]
    by (cases ord) (auto simp add: bytes_of_registers_of_bytes apply_byte_order_def [of _ "BOOther _"])
qed

lemma apply_byte_order_back:
  "apply_byte_order raw ord = Inr w \<Longrightarrow> apply_byte_order w ord = Inr raw"
  unfolding apply_byte_order_Inr_iff by (simp add: bytes_of_registers_of_bytes)

lemma length_register_order [simp]: "length (register_order ord rs) = length rs"
  by (cases ord) simp_all

lemma apply_byte_order_length: "apply_byte_order raw ord = Inr w \<Longrightarrow> length w = length raw"
  unfolding apply_byte_order_Inr_iff by (auto simp: length_registers_of_bytes)

section \<open>The registers of a typed value\<close>

text \<open>The bytes a device sends for a value, high byte first, before any reordering.\<close>

definition be_bytes16 :: "16 word \<Rightarrow> byte list" where
  "be_bytes16 w = [ucast (drop_bit 8 w), ucast w]"

definition be_bytes32 :: "32 word \<Rightarrow> byte list" where
  "be_bytes32 w = [ucast (drop_bit 24 w), ucast (drop_bit 16 w), ucast (drop_bit 8 w), ucast w]"

definition be_bytes64 :: "64 word \<Rightarrow> byte list" where
  "be_bytes64 w = [ucast (drop_bit 56 w), ucast (drop_bit 48 w), ucast (drop_bit 40 w),
     ucast (drop_bit 32 w), ucast (drop_bit 24 w), ucast (drop_bit 16 w), ucast (drop_bit 8 w), ucast w]"

lemma bit_byte_at:
  fixes w :: "'a::len word"
  shows "bit (push_bit k (ucast (ucast (drop_bit k w) :: byte)) :: 'a word) n \<longleftrightarrow>
    k \<le> n \<and> n < k + 8 \<and> n < LENGTH('a) \<and> bit w n"
  by (auto simp: bit_simps)

lemma bit_byte_low:
  fixes w :: "'a::len word"
  shows "bit (ucast (ucast w :: byte) :: 'a word) n \<longleftrightarrow> n < 8 \<and> n < LENGTH('a) \<and> bit w n"
  by (auto simp: bit_simps)

lemma be_uint16_bytes [simp]: "be_uint16 (be_bytes16 w) = w"
proof (rule bit_word_eqI)
  fix n assume "n < LENGTH(16)"
  then have "n < 8 \<or> 8 \<le> n \<and> n < 16" by simp linarith
  then show "bit (be_uint16 (be_bytes16 w)) n = bit w n"
    unfolding be_uint16_def be_bytes16_def bit_or_iff
    by (simp add: bit_byte_at bit_byte_low) auto
qed

lemma be_uint32_bytes [simp]: "be_uint32 (be_bytes32 w) = w"
proof (rule bit_word_eqI)
  fix n assume "n < LENGTH(32)"
  then have "n < 8 \<or> 8 \<le> n \<and> n < 16 \<or> 16 \<le> n \<and> n < 24 \<or> 24 \<le> n \<and> n < 32"
    by simp linarith
  then show "bit (be_uint32 (be_bytes32 w)) n = bit w n"
    unfolding be_uint32_def be_bytes32_def bit_or_iff
    by (simp add: bit_byte_at bit_byte_low numeral_2_eq_2 numeral_3_eq_3) auto
qed

lemma be_uint64_bytes [simp]: "be_uint64 (be_bytes64 w) = w"
proof (rule bit_word_eqI)
  fix n assume "n < LENGTH(64)"
  then have "n < 8 \<or> 8 \<le> n \<and> n < 16 \<or> 16 \<le> n \<and> n < 24 \<or> 24 \<le> n \<and> n < 32
      \<or> 32 \<le> n \<and> n < 40 \<or> 40 \<le> n \<and> n < 48 \<or> 48 \<le> n \<and> n < 56 \<or> 56 \<le> n \<and> n < 64"
    by simp linarith
  then show "bit (be_uint64 (be_bytes64 w)) n = bit w n"
    unfolding be_uint64_def be_bytes64_def bit_or_iff
    by (simp add: bit_byte_at bit_byte_low) (elim disjE conjE; simp)
qed

lemma length_be_bytes [simp]:
  "length (be_bytes16 w) = 2" "length (be_bytes32 v) = 4" "length (be_bytes64 u) = 8"
  by (simp_all add: be_bytes16_def be_bytes32_def be_bytes64_def)

text \<open>The wire form of the integers and the raw form of the floats.\<close>

datatype wire_value =
    Wire16 bool "16 word" | Wire32 bool "32 word" | WireF32 "32 word" | WireF64 "64 word"

fun wire_bytes :: "wire_value \<Rightarrow> byte list" where
  "wire_bytes (Wire16 sg w) = be_bytes16 w"
| "wire_bytes (Wire32 sg w) = be_bytes32 w"
| "wire_bytes (WireF32 w) = be_bytes32 w"
| "wire_bytes (WireF64 w) = be_bytes64 w"

fun wire_type :: "wire_value \<Rightarrow> data_type" where
  "wire_type (Wire16 sg w) = (if sg then DTInt16 else DTUInt16)"
| "wire_type (Wire32 sg w) = (if sg then DTInt32 else DTUInt32)"
| "wire_type (WireF32 w) = DTFloat32"
| "wire_type (WireF64 w) = DTFloat64"

fun wire_gval :: "wire_value \<Rightarrow> gval" where
  "wire_gval (Wire16 sg w) = (if sg then VInt16 w else VUInt16 w)"
| "wire_gval (Wire32 sg w) = (if sg then VInt32 w else VUInt32 w)"
| "wire_gval (WireF32 w) = VFloat32 (f32_of_bits w)"
| "wire_gval (WireF64 w) = VFloat64 (f64_of_bits w)"

fun wire_finite :: "wire_value \<Rightarrow> bool" where
  "wire_finite (WireF32 w) = fl_finite (f32_of_bits w)"
| "wire_finite (WireF64 w) = fl_finite (f64_of_bits w)"
| "wire_finite _ = True"

lemma convert_binary_window:
  assumes ord: "apply_byte_order window ord = Inr (wire_bytes v)"
  shows "convert_binary (pre @ window @ post)
           \<lparr>bc_data_type = wire_type v, bc_byte_order = ord, bc_byte_offset = int (length pre), bc_bit_offset = 0\<rparr>
         = (if wire_finite v then Inr (wire_gval v) else Inl ErrNonFiniteBinaryValue)"
proof -
  have "length window = length (wire_bytes v)" using apply_byte_order_length [OF ord] by simp
  with ord show ?thesis
    by (cases v) (simp_all add: convert_binary_def binary_data_size_def Let_def
        fl_conv_widen f32_of_bits_ok)
qed

text \<open>
  C2: decoding what a device sends. When the registers of a value are put on the wire in the
  configured byte order, at any place of a response, \<open>ConvertBinary\<close> at that byte offset
  returns the value itself, bit for bit; a NaN or infinite pattern is refused.
\<close>

theorem convert_binary_roundtrip:
  assumes "apply_byte_order (wire_bytes v) ord = Inr window"
  shows "convert_binary (pre @ window @ post)
           \<lparr>bc_data_type = wire_type v, bc_byte_order = ord, bc_byte_offset = int (length pre), bc_bit_offset = 0\<rparr>
         = (if wire_finite v then Inr (wire_gval v) else Inl ErrNonFiniteBinaryValue)"
  by (rule convert_binary_window [OF apply_byte_order_back [OF assms]])

theorem convert_binary_roundtrip_witness:
  "convert_binary ([0xFF] @ [0x02, 0x01] @ [])
     \<lparr>bc_data_type = DTInt16, bc_byte_order = BOByteSwap, bc_byte_offset = 1, bc_bit_offset = 0\<rparr>
   = Inr (VInt16 0x0102)"
proof -
  have "apply_byte_order (wire_bytes (Wire16 True 0x0102)) BOByteSwap = Inr [0x02, 0x01]"
    by (simp add: apply_byte_order_def be_bytes16_def byte_swap_loop.simps swap_at_def)
  from convert_binary_roundtrip [OF this, of "[0xFF]" "[]"] show ?thesis by simp
qed

section \<open>The decoder\<close>

text \<open>
  \<open>binaryNumericDecoder\<close>: the configuration as decoded from JSON, each field optional, its
  normal form, and \<open>Decode\<close>, which normalises and converts.
\<close>

datatype decoder_error = ErrInvalidDecoderConfig | DecodeConversion binary_error

record binary_numeric_config_input =
  bi_byte_offset :: "int option"
  bi_byte_order :: "byte_order option"
  bi_bit_offset :: "byte option"

record binary_numeric_config =
  bn_byte_offset :: int
  bn_byte_order :: byte_order
  bn_bit_offset :: byte

fun valid_byte_order :: "byte_order \<Rightarrow> bool" where
  "valid_byte_order BOBigEndian = True"
| "valid_byte_order BOLittleEndian = True"
| "valid_byte_order BOWordSwap = True"
| "valid_byte_order BOByteSwap = True"
| "valid_byte_order _ = False"

definition normalize_binary_config ::
  "data_type \<Rightarrow> binary_numeric_config_input \<Rightarrow> decoder_error + binary_numeric_config" where
  "normalize_binary_config d input =
     (case binary_data_size d of
        Inl e \<Rightarrow> Inl ErrInvalidDecoderConfig
      | Inr sz \<Rightarrow>
          let config = \<lparr>bn_byte_offset = (case bi_byte_offset input of None \<Rightarrow> 0 | Some n \<Rightarrow> n),
                bn_byte_order = (case bi_byte_order input of None \<Rightarrow> BOBigEndian | Some ord \<Rightarrow> ord),
                bn_bit_offset = (case bi_bit_offset input of None \<Rightarrow> 0 | Some b \<Rightarrow> b)\<rparr>
          in if bn_byte_offset config < 0 then Inl ErrInvalidDecoderConfig
             else if \<not> valid_byte_order (bn_byte_order config) then Inl ErrInvalidDecoderConfig
             else if d = DTBool
             then if bn_bit_offset config > 7 then Inl ErrInvalidDecoderConfig else Inr config
             else if bn_bit_offset config \<noteq> 0 then Inl ErrInvalidDecoderConfig else Inr config)"

text \<open>The canonical JSON of a configuration sets every field.\<close>

definition canonical_input :: "binary_numeric_config \<Rightarrow> binary_numeric_config_input" where
  "canonical_input c = \<lparr>bi_byte_offset = Some (bn_byte_offset c),
     bi_byte_order = Some (bn_byte_order c), bi_bit_offset = Some (bn_bit_offset c)\<rparr>"

definition conversion_of :: "data_type \<Rightarrow> binary_numeric_config \<Rightarrow> binary_conversion" where
  "conversion_of d c = \<lparr>bc_data_type = d, bc_byte_order = bn_byte_order c,
     bc_byte_offset = bn_byte_offset c, bc_bit_offset = bn_bit_offset c\<rparr>"

definition decode_binary ::
  "byte list \<Rightarrow> data_type \<Rightarrow> binary_numeric_config_input \<Rightarrow> decoder_error + gval" where
  "decode_binary raw d input =
     bindE (normalize_binary_config d input) (\<lambda>config.
       case convert_binary raw (conversion_of d config) of
         Inl e \<Rightarrow> Inl (DecodeConversion e)
       | Inr v \<Rightarrow> Inr v)"

lemma normalize_binary_config_Inr:
  "normalize_binary_config d input = Inr c \<Longrightarrow>
     0 \<le> bn_byte_offset c \<and> valid_byte_order (bn_byte_order c) \<and> valid_tag_data_type d \<and>
     bn_bit_offset c \<le> 7 \<and> (d \<noteq> DTBool \<longrightarrow> bn_bit_offset c = 0)"
  by (cases d)
    (auto simp: normalize_binary_config_def binary_data_size_def Let_def split: if_splits)

lemma normalize_binary_config_canonical:
  "normalize_binary_config d input = Inr c \<Longrightarrow> normalize_binary_config d (canonical_input c) = Inr c"
  by (cases d)
    (auto simp: normalize_binary_config_def canonical_input_def binary_data_size_def Let_def
      split: if_splits)

lemma binary_data_size_even:
  "d \<noteq> DTBool \<Longrightarrow> binary_data_size d = Inr sz \<Longrightarrow> even (nat sz)"
  by (cases d) (auto simp: binary_data_size_def)

lemma valid_byte_order_cases: "valid_byte_order ord \<Longrightarrow> ord \<noteq> BOEmpty \<and> (\<forall>s. ord \<noteq> BOOther s)"
  by (cases ord) simp_all

lemma convert_binary_valid:
  assumes "0 \<le> bc_byte_offset c" and "valid_byte_order (bc_byte_order c)"
    and "valid_tag_data_type (bc_data_type c)" and "bc_bit_offset c \<le> 7"
    and "bc_data_type c \<noteq> DTBool \<longrightarrow> bc_bit_offset c = 0"
  shows "case convert_binary raw c of
       Inr v \<Rightarrow> has_data_type (bc_data_type c) v
     | Inl e \<Rightarrow> e = ErrInsufficientBinaryData \<or> e = ErrNonFiniteBinaryValue"
proof -
  have bit: "\<not> bc_bit_offset c > 7" using assms(4) by (simp add: not_less)
  have ord: "\<exists>w. apply_byte_order win (bc_byte_order c) = Inr w" if "even (length win)" for win
    unfolding apply_byte_order_Inr_iff using that valid_byte_order_cases [OF assms(2)] by blast
  show ?thesis
  proof (cases "bc_data_type c = DTBool")
    case True
    with assms bit show ?thesis by (simp add: convert_binary_def binary_data_size_def)
  next
    case False
    obtain sz where size: "binary_data_size (bc_data_type c) = Inr sz"
      using assms(3) by (cases "bc_data_type c") (auto simp: binary_data_size_def)
    show ?thesis
    proof (cases "bc_byte_offset c > int (length raw) \<or> sz > int (length raw) - bc_byte_offset c")
      case False
      define win where "win = take (nat sz) (drop (nat (bc_byte_offset c)) raw)"
      have "length win = nat sz" using False assms(1) by (simp add: win_def) linarith
      then obtain w where "apply_byte_order win (bc_byte_order c) = Inr w"
        using ord [of win] binary_data_size_even [OF \<open>bc_data_type c \<noteq> DTBool\<close> size] by auto
      then show ?thesis using False \<open>bc_data_type c \<noteq> DTBool\<close> assms size
        by (cases "bc_data_type c")
          (simp_all add: convert_binary_def Let_def fl_conv_widen f32_of_bits_ok f64_of_bits_ok
            flip: win_def)
    qed (use assms size in \<open>simp add: convert_binary_def\<close>)
  qed
qed

lemma decode_binary_typed:
  assumes "decode_binary raw d input = Inr v"
  shows "has_data_type d v"
proof -
  obtain c where c: "normalize_binary_config d input = Inr c"
    using assms by (auto simp: decode_binary_def bindE_Inr_iff)
  then have "convert_binary raw (conversion_of d c) = Inr v"
    using assms by (cases "convert_binary raw (conversion_of d c)") (simp_all add: decode_binary_def)
  then show ?thesis
    using convert_binary_valid [of "conversion_of d c" raw] normalize_binary_config_Inr [OF c]
    by (simp add: conversion_of_def)
qed

text \<open>
  C3: what a saved decoder configuration guarantees. After \<open>NormalizeConfig\<close> accepts a
  configuration, decoding any response either yields a value of the tag's data type (a finite
  one for the floats) or fails because the response is too short or not finite, never because
  of the configuration; and the canonical form the service stores normalises to itself.
\<close>

theorem decode_binary_config_sound:
  assumes "normalize_binary_config d input = Inr c"
  shows "(case decode_binary raw d input of
       Inr v \<Rightarrow> has_data_type d v
     | Inl e \<Rightarrow> e = DecodeConversion ErrInsufficientBinaryData \<or>
               e = DecodeConversion ErrNonFiniteBinaryValue) \<and>
     decode_binary raw d (canonical_input c) = decode_binary raw d input \<and>
     normalize_binary_config d (canonical_input c) = Inr c"
proof -
  note ok = normalize_binary_config_Inr [OF assms]
  have "case convert_binary raw (conversion_of d c) of
       Inr v \<Rightarrow> has_data_type d v
     | Inl e \<Rightarrow> e = ErrInsufficientBinaryData \<or> e = ErrNonFiniteBinaryValue"
    using convert_binary_valid [of "conversion_of d c" raw] ok
    by (simp add: conversion_of_def split: sum.splits)
  then show ?thesis using assms normalize_binary_config_canonical [OF assms]
    by (auto simp: decode_binary_def split: sum.splits)
qed

theorem decode_binary_config_sound_witness:
  "decode_binary [0, 4] DTBool
     (canonical_input \<lparr>bn_byte_offset = 1, bn_byte_order = BOBigEndian, bn_bit_offset = 2\<rparr>)
   = Inr (VBool True) \<and>
   normalize_binary_config DTBool
     (canonical_input \<lparr>bn_byte_offset = 1, bn_byte_order = BOBigEndian, bn_bit_offset = 2\<rparr>)
   = Inr \<lparr>bn_byte_offset = 1, bn_byte_order = BOBigEndian, bn_bit_offset = 2\<rparr>"
proof -
  let ?in = "\<lparr>bi_byte_offset = Some 1, bi_byte_order = None, bi_bit_offset = Some 2\<rparr>"
  let ?c = "\<lparr>bn_byte_offset = 1, bn_byte_order = BOBigEndian, bn_bit_offset = 2\<rparr>"
  have "normalize_binary_config DTBool ?in = Inr ?c"
    by (simp add: normalize_binary_config_def binary_data_size_def)
  from decode_binary_config_sound [OF this, of "[0, 4]"]
  have same: "decode_binary [0, 4] DTBool (canonical_input ?c) = decode_binary [0, 4] DTBool ?in"
    and fixpoint: "normalize_binary_config DTBool (canonical_input ?c) = Inr ?c"
    by blast+
  have "decode_binary [0, 4] DTBool ?in = Inr (VBool True)"
    by (simp add: decode_binary_def normalize_binary_config_def binary_data_size_def
        conversion_of_def convert_binary_def)
  with same fixpoint show ?thesis by simp
qed

end
