(* ===== verification/Tag_Value.thy ===== *)
theory Tag_Value
  imports Tag_Binary
begin

text \<open>
  Typed tag values: \<open>coerceTagValue\<close>, \<open>typedJSONValue\<close>, \<open>validateTagShape\<close>,
  \<open>validateTagName\<close> and \<open>normalizeTagDescription\<close> of \<open>internal/tag/service.go\<close>, the linear
  transform of \<open>internal/tag/transform.go\<close>, and \<open>normalizeTagValue\<close> of
  \<open>internal/tag/value_store.go\<close>.
\<close>

datatype tag_error =
    ErrInvalidTagInput | ErrUnsupportedTagType | ErrUnsupportedTagDataType
  | ErrTagDisabled | ErrTagSourceReadFailed | ErrCalculatedSnapshotRequired
  | ErrCalculatedDependencyMissing | ErrCalculatedTriggerInvalid
  | ErrCircularTagDependency | ErrTagDependencyTooDeep
  | ErrInvalidTransformConfig | ErrUnsupportedTransform | ErrUnsupportedDecoder
  | ErrTagNotFound | ErrRepository string

section \<open>Comparing finite floats\<close>

lemma fl_less_finite: "fl_finite x \<Longrightarrow> fl_finite y \<Longrightarrow> fl_less x y \<longleftrightarrow> fl_rat x < fl_rat y"
  by (cases x; cases y) (auto simp: fl_less_def)

lemma fl_eq_finite: "fl_finite x \<Longrightarrow> fl_finite y \<Longrightarrow> fl_eq x y \<longleftrightarrow> fl_rat x = fl_rat y"
  by (cases x; cases y) (auto simp: fl_eq_def)

lemma fl_trunc_finite:
  "fl_finite x \<Longrightarrow> fl_finite (fl_trunc x) \<and> fl_rat (fl_trunc x) = of_int (rat_trunc (fl_rat x))"
  by (cases x) (auto simp: fl_trunc_def rat_trunc_def)

lemma rat_trunc_of_int [simp]: "rat_trunc (of_int n) = n"
  by (simp add: rat_trunc_def flip: of_int_minus)

lemma fl_of_int_finite64:
  "\<bar>n\<bar> \<le> 2 ^ 53 \<Longrightarrow> fl_finite (fl_of_int binary64 n) \<and> fl_rat (fl_of_int binary64 n) = of_int n"
  using fl_of_int_exact64 [of n] by simp

lemma fl_finite_conv_same [simp]: "fl_ok binary64 x \<Longrightarrow> fl_conv binary64 x = x"
  by (rule fl_conv_same) simp_all

section \<open>Coercion to a tag's data type\<close>

text \<open>\<open>number != math.Trunc(number) || number < lo || number > hi\<close>\<close>

definition outside_int :: "fl \<Rightarrow> int \<Rightarrow> int \<Rightarrow> bool" where
  "outside_int number lo hi \<longleftrightarrow>
     \<not> fl_eq number (fl_trunc number) \<or> fl_less number (fl_of_int binary64 lo)
     \<or> fl_less (fl_of_int binary64 hi) number"

definition coerce_tag_value :: "data_type \<Rightarrow> gval \<Rightarrow> tag_error + gval" where
  "coerce_tag_value d v =
     (if d = DTBool
      then (case v of VBool b \<Rightarrow> Inr (VBool b) | _ \<Rightarrow> Inl ErrInvalidTagInput)
      else case expression_number v of
        None \<Rightarrow> Inl ErrInvalidTagInput
      | Some number \<Rightarrow>
          if \<not> fl_finite number then Inl ErrInvalidTagInput
          else case d of
            DTInt16 \<Rightarrow>
              if outside_int number (- 32768) 32767 then Inl ErrInvalidTagInput
              else Inr (VInt16 (word_of_int (fl_to_int number)))
          | DTUInt16 \<Rightarrow>
              if outside_int number 0 65535 then Inl ErrInvalidTagInput
              else Inr (VUInt16 (word_of_int (fl_to_int number)))
          | DTInt32 \<Rightarrow>
              if outside_int number (- 2147483648) 2147483647 then Inl ErrInvalidTagInput
              else Inr (VInt32 (word_of_int (fl_to_int number)))
          | DTUInt32 \<Rightarrow>
              if outside_int number 0 4294967295 then Inl ErrInvalidTagInput
              else Inr (VUInt32 (word_of_int (fl_to_int number)))
          | DTFloat32 \<Rightarrow>
              let converted = fl_conv binary32 number
              in if \<exists>s \<in> {True, False}. fl_conv binary64 converted = FInf s
                 then Inl ErrInvalidTagInput else Inr (VFloat32 converted)
          | DTFloat64 \<Rightarrow> Inr (VFloat64 number)
          | _ \<Rightarrow> Inl ErrUnsupportedTagDataType)"

lemma outside_int_iff:
  assumes "fl_finite x" and "\<bar>lo\<bar> \<le> 2 ^ 53" and "\<bar>hi\<bar> \<le> 2 ^ 53"
  shows "\<not> outside_int x lo hi \<longleftrightarrow> (\<exists>n. lo \<le> n \<and> n \<le> hi \<and> fl_rat x = of_int n)"
proof -
  note lo = fl_of_int_finite64 [OF assms(2)] and hi = fl_of_int_finite64 [OF assms(3)]
  note tr = fl_trunc_finite [OF assms(1)]
  have "\<not> outside_int x lo hi \<longleftrightarrow> fl_rat x = of_int (rat_trunc (fl_rat x)) \<and>
      of_int lo \<le> fl_rat x \<and> fl_rat x \<le> of_int hi"
    using assms(1) lo hi tr by (auto simp: outside_int_def fl_eq_finite fl_less_finite)
  also have "\<dots> \<longleftrightarrow> (\<exists>n. lo \<le> n \<and> n \<le> hi \<and> fl_rat x = of_int n)"
    by (metis of_int_le_iff rat_trunc_of_int)
  finally show ?thesis .
qed

lemma coerce_ok: "gval_ok v \<Longrightarrow> coerce_tag_value d v = Inr w \<Longrightarrow> has_data_type d w"
proof -
  assume v: "gval_ok v" and c: "coerce_tag_value d v = Inr w"
  show ?thesis
  proof (cases "d = DTBool")
    case True
    with c show ?thesis by (auto simp: coerce_tag_value_def split: gval.splits)
  next
    case False
    with c obtain x where x: "expression_number v = Some x" "fl_finite x"
      by (auto simp: coerce_tag_value_def split: option.splits if_splits)
    have ok: "fl_ok binary64 x" by (rule expression_number_ok [OF v x(1)])
    have ok32: "fl_ok binary32 (fl_conv binary32 x)" by (simp add: fl_ok_arith)
    then have "fl_conv binary64 (fl_conv binary32 x) = fl_conv binary32 x" by (rule fl_conv_widen)
    moreover have "fl_conv binary32 x \<noteq> FNaN"
      using x(2) by (cases x) (auto simp: fl_conv_def fl_round_def Let_def)
    ultimately show ?thesis using c x ok ok32 False
      by (cases d; cases "fl_conv binary32 x")
        (auto simp: coerce_tag_value_def Let_def split: if_splits)
  qed
qed

text \<open>The range of an integer data type, and the integer a value of one holds.\<close>

definition int_range :: "data_type \<Rightarrow> (int \<times> int) option" where
  "int_range d = (case d of
     DTInt16 \<Rightarrow> Some (- 32768, 32767) | DTUInt16 \<Rightarrow> Some (0, 65535)
   | DTInt32 \<Rightarrow> Some (- 2147483648, 2147483647) | DTUInt32 \<Rightarrow> Some (0, 4294967295)
   | _ \<Rightarrow> None)"

definition int_value :: "data_type \<Rightarrow> int \<Rightarrow> gval" where
  "int_value d n = (case d of
     DTInt16 \<Rightarrow> VInt16 (word_of_int n) | DTUInt16 \<Rightarrow> VUInt16 (word_of_int n)
   | DTInt32 \<Rightarrow> VInt32 (word_of_int n) | DTUInt32 \<Rightarrow> VUInt32 (word_of_int n) | _ \<Rightarrow> VNil)"

lemma coerce_int:
  assumes "expression_number v = Some x" and "fl_finite x" and "int_range d = Some (lo, hi)"
  shows "coerce_tag_value d v =
    (if \<exists>n. lo \<le> n \<and> n \<le> hi \<and> fl_rat x = of_int n
     then Inr (int_value d (fl_to_int x)) else Inl ErrInvalidTagInput)"
proof -
  have "\<bar>lo\<bar> \<le> 2 ^ 53" "\<bar>hi\<bar> \<le> 2 ^ 53" using assms(3)
    by (auto simp: int_range_def split: data_type.splits)
  from outside_int_iff [OF assms(2) this] show ?thesis using assms
    by (cases d) (auto simp: coerce_tag_value_def int_range_def int_value_def)
qed

lemma coerce_int_value:
  assumes "expression_number v = Some (fl_of_int binary64 n)" and "int_range d = Some (lo, hi)"
    and "lo \<le> n" and "n \<le> hi"
  shows "coerce_tag_value d v = Inr (int_value d n)"
proof -
  have "\<bar>n\<bar> \<le> 2 ^ 53" using assms(2-4)
    by (auto simp: int_range_def split: data_type.splits)
  note e = fl_of_int_finite64 [OF this]
  then have "fl_to_int (fl_of_int binary64 n) = n" by (simp add: fl_to_int_def)
  with coerce_int [OF assms(1) _ assms(2)] e assms(3,4) show ?thesis by auto
qed

text \<open>A value that already has the data type is left as it is.\<close>

lemma coerce_typed:
  assumes "has_data_type d v"
  shows "coerce_tag_value d v = Inr v"
proof (cases d)
  case DTInt16
  then obtain w where v: "v = VInt16 w" using assms by auto
  have b: "- 32768 \<le> sint w" "sint w \<le> 32767" using sint_ge [of w] sint_lt [of w] by simp_all
  show ?thesis using coerce_int_value [OF _ _ b, of v d] v DTInt16
    by (simp add: expression_number_def int_range_def int_value_def)
next
  case DTUInt16
  then obtain w where v: "v = VUInt16 w" using assms by auto
  have b: "0 \<le> uint w" "uint w \<le> 65535" using uint_bounded [of w] by simp_all
  show ?thesis using coerce_int_value [OF _ _ b, of v d] v DTUInt16
    by (simp add: expression_number_def int_range_def int_value_def)
next
  case DTInt32
  then obtain w where v: "v = VInt32 w" using assms by auto
  have b: "- 2147483648 \<le> sint w" "sint w \<le> 2147483647" using sint_ge [of w] sint_lt [of w] by simp_all
  show ?thesis using coerce_int_value [OF _ _ b, of v d] v DTInt32
    by (simp add: expression_number_def int_range_def int_value_def)
next
  case DTUInt32
  then obtain w where v: "v = VUInt32 w" using assms by auto
  have b: "0 \<le> uint w" "uint w \<le> 4294967295" using uint_bounded [of w] by simp_all
  show ?thesis using coerce_int_value [OF _ _ b, of v d] v DTUInt32
    by (simp add: expression_number_def int_range_def int_value_def)
next
  case DTFloat32
  then obtain x where v: "v = VFloat32 x" and x: "fl_finite x" "fl_ok binary32 x" using assms by auto
  have "fl_conv binary32 x = x" using x by (intro fl_conv_same) simp_all
  then show ?thesis using v x DTFloat32 fl_conv_widen [OF x(2)]
    by (auto simp: coerce_tag_value_def expression_number_def)
qed (use assms in \<open>auto simp: coerce_tag_value_def expression_number_def\<close>)

text \<open>
  Coercion to an integer data type is exact. A finite number is accepted when it is an
  integer of the range of the type and refused otherwise, and the stored word reads back as
  that integer.
\<close>

theorem coerce_tag_value_integer:
  assumes "expression_number v = Some x" and "fl_finite x" and "int_range d = Some (lo, hi)"
  shows "case coerce_tag_value d v of
      Inr w \<Rightarrow> (\<exists>n. lo \<le> n \<and> n \<le> hi \<and> fl_rat x = of_int n \<and> w = int_value d n)
    | Inl e \<Rightarrow> e = ErrInvalidTagInput \<and> \<not> (\<exists>n. lo \<le> n \<and> n \<le> hi \<and> fl_rat x = of_int n)"
proof -
  have "fl_rat x = of_int n \<Longrightarrow> fl_to_int x = n" for n by (simp add: fl_to_int_def)
  with coerce_int [OF assms] show ?thesis by auto
qed

theorem coerce_tag_value_integer_witness:
  "coerce_tag_value DTInt16 (VFloat64 (FNum 40000)) = Inl ErrInvalidTagInput \<and>
   coerce_tag_value DTUInt16 (VFloat64 (FNum 40000)) = Inr (VUInt16 40000)"
proof -
  have i: "(40000 :: rat) = of_int n \<longleftrightarrow> n = 40000" for n
    by (metis of_int_eq_iff of_int_numeral)
  have x: "expression_number (VFloat64 (FNum 40000)) = Some (FNum 40000)"
    by (simp add: expression_number_def)
  from coerce_tag_value_integer [OF x, of DTInt16 "- 32768" 32767]
    coerce_tag_value_integer [OF x, of DTUInt16 0 65535]
  show ?thesis by (simp add: int_range_def i int_value_def split: sum.splits)
qed

text \<open>
  Coercion yields a value of the data type, and coercing again changes nothing, so a value
  that passed the store once passes it again unchanged.
\<close>

theorem coerce_tag_value_idempotent:
  assumes "gval_ok v" and "coerce_tag_value d v = Inr w"
  shows "has_data_type d w \<and> coerce_tag_value d w = Inr w"
  using coerce_ok [OF assms] coerce_typed by blast

theorem coerce_tag_value_idempotent_witness:
  "coerce_tag_value DTFloat32 (VFloat32 (FNum (3 / 2))) = Inr (VFloat32 (FNum (3 / 2)))"
proof -
  have r: "representable fm (3 / 2)" if "fm = binary32 \<or> fm = binary64" for fm
    unfolding representable_def
    by (intro conjI exI [of _ 3] exI [of _ "- 1"]) (use that in \<open>auto simp: format_defs power_int_def\<close>)
  have "fl_conv binary64 (FNum (3 / 2)) = FNum (3 / 2)" "fl_conv binary32 (FNum (3 / 2)) = FNum (3 / 2)"
    using r by (simp_all add: fl_conv_same)
  then have "coerce_tag_value DTFloat32 (VFloat64 (FNum (3 / 2))) = Inr (VFloat32 (FNum (3 / 2)))"
    by (simp add: coerce_tag_value_def expression_number_def)
  moreover have "gval_ok (VFloat64 (FNum (3 / 2)))" using r by simp
  ultimately show ?thesis using coerce_tag_value_idempotent by blast
qed

section \<open>Linear transform\<close>

record linear_transform_input =
  lt_gain :: "fl option"
  lt_offset :: "fl option"

record linear_transform =
  ltc_gain :: fl
  ltc_offset :: fl

definition normalize_linear_transform ::
  "linear_transform_input \<Rightarrow> tag_error + linear_transform" where
  "normalize_linear_transform input =
     (case lt_gain input of
        None \<Rightarrow> Inl ErrInvalidTransformConfig
      | Some gain \<Rightarrow>
          let offset = (case lt_offset input of None \<Rightarrow> FZero False | Some x \<Rightarrow> x)
          in if \<not> fl_finite gain \<or> \<not> fl_finite offset then Inl ErrInvalidTransformConfig
             else Inr \<lparr>ltc_gain = gain, ltc_offset = offset\<rparr>)"

definition apply_linear_transform ::
  "gval \<Rightarrow> linear_transform_input \<Rightarrow> tag_error + gval" where
  "apply_linear_transform value raw =
     (case expression_number value of
        None \<Rightarrow> Inl ErrInvalidTransformConfig
      | Some number \<Rightarrow>
          if \<not> fl_finite number then Inl ErrInvalidTransformConfig
          else bindE (normalize_linear_transform raw) (\<lambda>config.
            let result = fl_add binary64 (fl_mul binary64 number (ltc_gain config)) (ltc_offset config)
            in if \<not> fl_finite result then Inl ErrInvalidTransformConfig
               else Inr (VFloat64 result)))"

lemma apply_linear_transform_ok:
  "apply_linear_transform v raw = Inr w \<Longrightarrow> has_data_type DTFloat64 w"
  by (auto simp: apply_linear_transform_def Let_def bindE_Inr_iff fl_ok_arith
      split: option.splits if_splits)

section \<open>Constant values\<close>

text \<open>
  A JSON scalar as \<open>encoding/json\<close> reads it: \<open>json.Number\<close> accepts a number and also a string
  holding one.
\<close>

datatype json_scalar = JNull | JBool bool | JNumber string | JNumberString string | JOther

definition typed_json_value :: "data_type \<Rightarrow> json_scalar \<Rightarrow> tag_error + gval" where
  "typed_json_value d raw =
     (if raw = JNull then Inl ErrInvalidTagInput
      else if d = DTBool
      then (case raw of JBool b \<Rightarrow> Inr (VBool b) | _ \<Rightarrow> Inl ErrInvalidTagInput)
      else case (case raw of JNumber s \<Rightarrow> Some s | JNumberString s \<Rightarrow> Some s | _ \<Rightarrow> None) of
        None \<Rightarrow> Inl ErrInvalidTagInput
      | Some number \<Rightarrow>
          (case d of
             DTInt16 \<Rightarrow> (case parse_int 16 number of None \<Rightarrow> Inl ErrInvalidTagInput
                        | Some n \<Rightarrow> Inr (VInt16 (word_of_int n)))
           | DTUInt16 \<Rightarrow> (case parse_uint 16 number of None \<Rightarrow> Inl ErrInvalidTagInput
                         | Some n \<Rightarrow> Inr (VUInt16 (word_of_int n)))
           | DTInt32 \<Rightarrow> (case parse_int 32 number of None \<Rightarrow> Inl ErrInvalidTagInput
                        | Some n \<Rightarrow> Inr (VInt32 (word_of_int n)))
           | DTUInt32 \<Rightarrow> (case parse_uint 32 number of None \<Rightarrow> Inl ErrInvalidTagInput
                         | Some n \<Rightarrow> Inr (VUInt32 (word_of_int n)))
           | DTFloat32 \<Rightarrow> (case parse_float binary32 number of None \<Rightarrow> Inl ErrInvalidTagInput
                          | Some x \<Rightarrow> Inr (VFloat32 x))
           | DTFloat64 \<Rightarrow> (case parse_float binary64 number of None \<Rightarrow> Inl ErrInvalidTagInput
                          | Some x \<Rightarrow> Inr (VFloat64 x))
           | _ \<Rightarrow> Inl ErrUnsupportedTagDataType))"

lemma typed_json_value_ok: "typed_json_value d raw = Inr v \<Longrightarrow> has_data_type d v"
  using parse_float_Some [of binary32] parse_float_Some [of binary64]
  by (cases d)
    (auto simp: typed_json_value_def split: json_scalar.splits option.splits if_splits)

section \<open>The shape of a tag\<close>

definition validate_tag_shape :: "tag_type \<Rightarrow> data_type \<Rightarrow> uuid option \<Rightarrow> tag_error + unit" where
  "validate_tag_shape t d datasource =
     (if \<not> valid_tag_type t then Inl ErrUnsupportedTagType
      else if \<not> valid_tag_data_type d then Inl ErrUnsupportedTagDataType
      else if t = TypeReading
      then (if datasource = None \<or> datasource = Some uuid_nil then Inl ErrInvalidTagInput else Inr ())
      else if datasource \<noteq> None then Inl ErrInvalidTagInput else Inr ())"

definition validate_tag_name :: "string \<Rightarrow> tag_error + string" where
  "validate_tag_name raw =
     (let name = trim_space raw
      in if name = [] then Inl ErrInvalidTagInput
         else if rune_count name > 100 then Inl ErrInvalidTagInput else Inr name)"

definition normalize_tag_description :: "string option \<Rightarrow> string option" where
  "normalize_tag_description v =
     (case v of None \<Rightarrow> None
      | Some s \<Rightarrow> let normalized = trim_space s in if normalized = [] then None else Some normalized)"

definition default_tag_enabled :: "bool option \<Rightarrow> bool" where
  "default_tag_enabled v = (v = None \<or> v = Some True)"

section \<open>Observed values\<close>

datatype quality = QualityGood | QualityBad | QualityOther string

record tag_value =
  tv_tag_id :: uuid
  tv_sequence :: "64 word"
  tv_observed_at :: gotime
  tv_stored_at :: gotime
  tv_quality :: quality
  tv_data_type :: data_type
  tv_value :: gval
  tv_error :: string

datatype value_error = ErrInvalidTagValue | ErrTagValueNotFound | ErrTagValueUnavailable
  | ErrTagValueStoreInUse

definition normalize_tag_value :: "tag_value \<Rightarrow> value_error + tag_value" where
  "normalize_tag_value value =
     (if tv_tag_id value = uuid_nil \<or> \<not> valid_tag_data_type (tv_data_type value)
      then Inl ErrInvalidTagValue
      else bindE
        (case tv_quality value of
           QualityGood \<Rightarrow>
             (case coerce_tag_value (tv_data_type value) (tv_value value) of
                Inl e \<Rightarrow> Inl ErrInvalidTagValue
              | Inr coerced \<Rightarrow> Inr (value\<lparr>tv_value := coerced, tv_error := []\<rparr>))
         | QualityBad \<Rightarrow>
             if tv_error value = [] then Inl ErrInvalidTagValue else Inr (value\<lparr>tv_value := VNil\<rparr>)
         | QualityOther s \<Rightarrow> Inl ErrInvalidTagValue)
        (\<lambda>value. if tv_observed_at value = 0 then Inl ErrInvalidTagValue else Inr value))"

text \<open>What every stored value satisfies.\<close>

definition tag_value_ok :: "tag_value \<Rightarrow> bool" where
  "tag_value_ok v \<longleftrightarrow>
     tv_tag_id v \<noteq> uuid_nil \<and> tv_observed_at v \<noteq> 0 \<and> valid_tag_data_type (tv_data_type v) \<and>
     (tv_quality v = QualityGood \<and> has_data_type (tv_data_type v) (tv_value v) \<and> tv_error v = []
      \<or> tv_quality v = QualityBad \<and> tv_value v = VNil \<and> tv_error v \<noteq> [])"

lemma normalize_tag_value_ok:
  "gval_ok (tv_value v) \<Longrightarrow> normalize_tag_value v = Inr w \<Longrightarrow> tag_value_ok w"
  by (auto simp: normalize_tag_value_def bindE_Inr_iff tag_value_ok_def coerce_ok
      split: if_splits quality.splits sum.splits)

lemma normalize_tag_value_fields:
  "normalize_tag_value v = Inr w \<Longrightarrow>
   tv_tag_id w = tv_tag_id v \<and> tv_sequence w = tv_sequence v \<and> tv_stored_at w = tv_stored_at v \<and>
   tv_observed_at w = tv_observed_at v \<and> tv_quality w = tv_quality v \<and>
   tv_data_type w = tv_data_type v \<and> tv_tag_id v \<noteq> uuid_nil"
  by (auto simp: normalize_tag_value_def bindE_Inr_iff
      split: if_splits quality.splits sum.splits)

lemma normalize_tag_value_id: "tag_value_ok v \<Longrightarrow> normalize_tag_value v = Inr v"
  by (cases v)
    (auto simp: tag_value_ok_def normalize_tag_value_def coerce_typed)

end
