(* ===== verification/Tag_Graph.thy ===== *)
theory Tag_Graph
  imports Tag_Value
begin

text \<open>
  The dependency graph of calculated tags: \<open>graphCycleState\<close> and
  \<open>validateDependencyGraph\<close> of \<open>internal/tag/service.go\<close>. The search marks a node 1 while it
  is on the current path and 2 when it is finished; \<open>state\<close> is the map the code mutates, with
  0 for a missing key.
\<close>

definition max_dependency_depth :: nat where "max_dependency_depth = 128"

type_synonym tag_graph = "uuid \<Rightarrow> uuid list"
type_synonym visit_state = "uuid \<Rightarrow> nat"

text \<open>The result is (circular, too deep), with the state after the call.\<close>

function graph_cycle_state ::
  "tag_graph \<Rightarrow> uuid \<Rightarrow> visit_state \<Rightarrow> nat \<Rightarrow> (bool \<times> bool) \<times> visit_state"
  and graph_cycle_children ::
  "tag_graph \<Rightarrow> uuid list \<Rightarrow> visit_state \<Rightarrow> nat \<Rightarrow> (bool \<times> bool) \<times> visit_state"
where
  "graph_cycle_state graph i state depth =
     (if state i = 1 then ((True, False), state)
      else if state i = 2 then ((False, False), state)
      else if depth > max_dependency_depth then ((False, True), state)
      else case graph_cycle_children graph (graph i) (state(i := 1)) depth of
        ((circular, too_deep), state') \<Rightarrow>
          if circular \<or> too_deep then ((circular, too_deep), state')
          else ((False, False), state'(i := 2)))"
| "graph_cycle_children graph [] state depth = ((False, False), state)"
| "graph_cycle_children graph (d # ds) state depth =
     (case graph_cycle_state graph d state (depth + 1) of
        ((circular, too_deep), state') \<Rightarrow>
          if circular \<or> too_deep then ((circular, too_deep), state')
          else graph_cycle_children graph ds state' depth)"
  by pat_completeness auto
termination graph_cycle_state
  by (relation "(\<lambda>x. case x of
        Inl (g, i, st, d) \<Rightarrow> if d > max_dependency_depth then 0 else 2 * (Suc max_dependency_depth - d) + 1
      | Inr (g, ds, st, d) \<Rightarrow> 2 * (Suc max_dependency_depth - d)) <*mlex*>
      measure (\<lambda>x. case x of Inl (g, i, st, d) \<Rightarrow> 0 | Inr (g, ds, st, d) \<Rightarrow> Suc (length ds))")
    (auto simp: mlex_prod_def)

declare graph_cycle_state.simps [simp del] graph_cycle_children.simps [simp del]

section \<open>What the search finds\<close>

definition edges :: "tag_graph \<Rightarrow> (uuid \<times> uuid) set" where
  "edges graph = {(x, y). y \<in> set (graph x)}"

definition marked :: "nat \<Rightarrow> visit_state \<Rightarrow> uuid set" where
  "marked k state = {x. state x = k}"

text \<open>Finished nodes, built up so that each one's successors were finished before it.\<close>

inductive finished :: "tag_graph \<Rightarrow> uuid set \<Rightarrow> bool" for graph :: tag_graph where
  finished_empty: "finished graph {}"
| finished_insert: "finished graph B \<Longrightarrow> set (graph x) \<subseteq> B \<Longrightarrow> finished graph (insert x B)"

lemma finished_closed: "finished graph B \<Longrightarrow> x \<in> B \<Longrightarrow> set (graph x) \<subseteq> B"
  by (induction rule: finished.induct) auto

lemma finished_reaches: "finished graph B \<Longrightarrow> (x, y) \<in> (edges graph)\<^sup>* \<Longrightarrow> x \<in> B \<Longrightarrow> y \<in> B"
  by (rotate_tac 1, induction rule: rtrancl_induct) (use finished_closed in \<open>auto simp: edges_def\<close>)

lemma finished_no_cycle: "finished graph B \<Longrightarrow> x \<in> B \<Longrightarrow> (x, x) \<notin> (edges graph)\<^sup>+"
proof (induction rule: finished.induct)
  case (finished_insert B z)
  show ?case
  proof (cases "x \<in> B")
    case False
    with finished_insert have xz: "x = z" by simp
    show ?thesis
    proof
      assume "(x, x) \<in> (edges graph)\<^sup>+"
      then obtain y where "(x, y) \<in> edges graph" "(y, x) \<in> (edges graph)\<^sup>*"
        by (meson tranclD)
      then have "x \<in> B"
        using finished_insert.hyps xz finished_reaches [of graph B y x] by (auto simp: edges_def)
      with False show False ..
    qed
  qed (use finished_insert in simp)
qed simp

lemma marked_done:
  assumes "marked 1 mid = marked 1 (state(i := 1))" and "state i \<noteq> 1"
  shows "marked 1 (mid(i := 2)) = marked 1 state"
proof (rule set_eqI)
  fix x
  have "x \<in> marked 1 mid \<longleftrightarrow> x \<in> marked 1 (state(i := 1))" by (simp only: assms(1))
  then show "x \<in> marked 1 (mid(i := 2)) \<longleftrightarrow> x \<in> marked 1 state"
    by (cases "x = i") (use assms(2) in \<open>simp_all add: marked_def\<close>)
qed

lemma search_sound:
  "graph_cycle_state graph i state depth = ((False, False), state') \<Longrightarrow>
     finished graph (marked 2 state) \<Longrightarrow> i \<notin> marked 1 state \<Longrightarrow>
     finished graph (marked 2 state') \<and> marked 1 state' = marked 1 state \<and>
     marked 2 state \<subseteq> marked 2 state' \<and> i \<in> marked 2 state'"
  "graph_cycle_children graph ds state depth = ((False, False), state') \<Longrightarrow>
     finished graph (marked 2 state) \<Longrightarrow>
     finished graph (marked 2 state') \<and> marked 1 state' = marked 1 state \<and>
     marked 2 state \<subseteq> marked 2 state' \<and> set ds \<subseteq> marked 2 state'"
proof (induction graph i state depth and graph ds state depth arbitrary: state' and state'
    rule: graph_cycle_state_graph_cycle_children.induct)
  case (1 graph i state depth)
  show ?case
  proof (cases "state i = 2")
    case True
    then show ?thesis using 1 by (simp add: graph_cycle_state.simps [of graph i] marked_def)
  next
    case False
    have new: "state i \<noteq> 1" using 1 by (simp add: marked_def)
    obtain mid where deep: "\<not> depth > max_dependency_depth"
      and mid: "graph_cycle_children graph (graph i) (state(i := 1)) depth = ((False, False), mid)"
      and state': "state' = mid(i := 2)"
      using 1(2) False new by (auto simp: graph_cycle_state.simps [of graph i] split: if_splits prod.splits)
    have m2: "marked 2 (state(i := 1)) = marked 2 state" using False by (auto simp: marked_def)
    have "finished graph (marked 2 (state(i := 1)))" using 1(3) by (simp only: m2)
    note J = 1(1) [OF new False deep mid this]
    then have IH: "finished graph (marked 2 mid)" "marked 1 mid = marked 1 (state(i := 1))"
      "marked 2 state \<subseteq> marked 2 mid" "set (graph i) \<subseteq> marked 2 mid"
      by (simp_all only: m2)
    have "marked 2 state' = insert i (marked 2 mid)" by (auto simp: state' marked_def)
    moreover have "marked 1 state' = marked 1 state"
      unfolding state' by (rule marked_done [OF IH(2) new])
    ultimately show ?thesis using IH finished_insert [OF IH(1) IH(4)] by auto
  qed
next
  case (2 graph state depth)
  then show ?case by (simp add: graph_cycle_children.simps)
next
  case (3 graph d ds state depth)
  obtain mid where d: "graph_cycle_state graph d state (depth + 1) = ((False, False), mid)"
    and ds: "graph_cycle_children graph ds mid depth = ((False, False), state')"
    using 3(3) by (auto simp: graph_cycle_children.simps split: prod.splits if_splits)
  have "d \<notin> marked 1 state"
    using d by (auto simp: graph_cycle_state.simps [of graph d] marked_def split: if_splits)
  note D = 3(1) [OF d 3(4) this]
  have "finished graph (marked 2 state') \<and> marked 1 state' = marked 1 mid \<and>
     marked 2 mid \<subseteq> marked 2 state' \<and> set ds \<subseteq> marked 2 state'"
    using 3(2) [OF d [symmetric] refl] D ds by simp
  then show ?case using D by auto
qed

lemma search_path:
  "graph_cycle_state graph i state depth = ((False, False), state') \<Longrightarrow> marked 1 state' = marked 1 state"
  "graph_cycle_children graph ds state depth = ((False, False), state') \<Longrightarrow> marked 1 state' = marked 1 state"
proof (induction graph i state depth and graph ds state depth arbitrary: state' and state'
    rule: graph_cycle_state_graph_cycle_children.induct)
  case (1 graph i state depth)
  show ?case
  proof (cases "state i = 2")
    case True
    then show ?thesis using 1 by (simp add: graph_cycle_state.simps [of graph i])
  next
    case False
    have new: "state i \<noteq> 1" using 1(2) by (auto simp: graph_cycle_state.simps [of graph i])
    obtain mid where deep: "\<not> depth > max_dependency_depth"
      and mid: "graph_cycle_children graph (graph i) (state(i := 1)) depth = ((False, False), mid)"
      and state': "state' = mid(i := 2)"
      using 1(2) False new by (auto simp: graph_cycle_state.simps [of graph i] split: if_splits prod.splits)
    from 1(1) [OF new False deep mid] show ?thesis unfolding state' using new by (rule marked_done)
  qed
next
  case (3 graph d ds state depth)
  obtain mid where d: "graph_cycle_state graph d state (depth + 1) = ((False, False), mid)"
    and ds: "graph_cycle_children graph ds mid depth = ((False, False), state')"
    using 3(3) by (auto simp: graph_cycle_children.simps split: prod.splits if_splits)
  show ?case using 3(1) [OF d] 3(2) [OF d [symmetric] refl] ds by simp
qed (simp add: graph_cycle_children.simps)

text \<open>A circular answer is backed by a cycle: every node on the path reaches the current one.\<close>

lemma search_complete:
  "graph_cycle_state graph i state depth = ((True, b), state') \<Longrightarrow>
     \<forall>x \<in> marked 1 state. (x, i) \<in> (edges graph)\<^sup>+ \<Longrightarrow> \<exists>x. (x, x) \<in> (edges graph)\<^sup>+"
  "graph_cycle_children graph ds state depth = ((True, b), state') \<Longrightarrow>
     \<forall>d \<in> set ds. \<forall>x \<in> marked 1 state. (x, d) \<in> (edges graph)\<^sup>+ \<Longrightarrow> \<exists>x. (x, x) \<in> (edges graph)\<^sup>+"
proof (induction graph i state depth and graph ds state depth arbitrary: state' and state'
    rule: graph_cycle_state_graph_cycle_children.induct)
  case (1 graph i state depth)
  show ?case
  proof (cases "state i = 1")
    case True
    then show ?thesis using 1(3) by (auto simp: marked_def)
  next
    case False
    then obtain mid where c: "state i \<noteq> 2" "\<not> depth > max_dependency_depth"
      and mid: "graph_cycle_children graph (graph i) (state(i := 1)) depth = ((True, b), mid)"
      using 1(2) by (auto simp: graph_cycle_state.simps [of graph i] split: if_splits prod.splits)
    have "\<forall>d \<in> set (graph i). \<forall>x \<in> marked 1 (state(i := 1)). (x, d) \<in> (edges graph)\<^sup>+"
    proof (intro ballI)
      fix d x assume d: "d \<in> set (graph i)" and x: "x \<in> marked 1 (state(i := 1))"
      from d have id: "(i, d) \<in> edges graph" by (simp add: edges_def)
      show "(x, d) \<in> (edges graph)\<^sup>+"
      proof (cases "x = i")
        case False
        then have "x \<in> marked 1 state" using x by (simp add: marked_def)
        then show ?thesis using 1(3) id by (blast intro: trancl_into_trancl)
      qed (use id in blast)
    qed
    from 1(1) [OF False c mid this] show ?thesis .
  qed
next
  case (3 graph d ds state depth)
  obtain c t mid where r: "graph_cycle_state graph d state (depth + 1) = ((c, t), mid)"
    by (metis prod.collapse)
  show ?case
  proof (cases c)
    case True
    have "graph_cycle_state graph d state (depth + 1) = ((True, b), mid)"
      using 3(3) True r by (auto simp: graph_cycle_children.simps)
    then show ?thesis using 3(1) 3(4) by auto
  next
    case False
    then have t: "\<not> t" and ds: "graph_cycle_children graph ds mid depth = ((True, b), state')"
      using 3(3) r by (auto simp: graph_cycle_children.simps split: if_splits)
    have d: "graph_cycle_state graph d state (depth + 1) = ((False, False), mid)"
      using r False t by simp
    have "marked 1 mid = marked 1 state" by (rule search_path(1) [OF d])
    then show ?thesis using 3(2) [OF d [symmetric] refl _ ds] 3(4) by simp
  qed
qed (simp add: graph_cycle_children.simps)

section \<open>Validating the dependencies of a tag\<close>

text \<open>
  \<open>find_tag\<close> is the error of \<open>repository.Find\<close> for a tag, if any, and \<open>rows\<close> what
  \<open>ListDependencies\<close> returned.
\<close>

definition dependency_graph :: "uuid \<Rightarrow> uuid list \<Rightarrow> (uuid \<times> uuid) list \<Rightarrow> tag_graph" where
  "dependency_graph tag deps rows =
     (\<lambda>x. map snd (filter (\<lambda>e. fst e = x \<and> fst e \<noteq> tag) rows))(tag := deps)"

definition check_dependency :: "(uuid \<Rightarrow> tag_error option) \<Rightarrow> uuid \<Rightarrow> uuid \<Rightarrow> tag_error + unit" where
  "check_dependency find_tag tag d =
     (if d = tag then Inl ErrCircularTagDependency
      else case find_tag d of
        None \<Rightarrow> Inr ()
      | Some e \<Rightarrow> Inl (if e = ErrTagNotFound then ErrCalculatedDependencyMissing else e))"

definition validate_dependency_graph ::
  "(uuid \<Rightarrow> tag_error option) \<Rightarrow> tag_error + (uuid \<times> uuid) list \<Rightarrow> uuid \<Rightarrow> uuid list \<Rightarrow> tag_error + unit"
where
  "validate_dependency_graph find_tag rows tag deps =
     (if deps = [] then Inr ()
      else bindE (foldE (\<lambda>d u. check_dependency find_tag tag d) deps ()) (\<lambda>u.
        bindE rows (\<lambda>rows.
          case graph_cycle_state (dependency_graph tag deps rows) tag (\<lambda>x. 0) 0 of
            ((circular, too_deep), state) \<Rightarrow>
              if too_deep then Inl ErrTagDependencyTooDeep
              else if circular then Inl ErrCircularTagDependency else Inr ())))"

lemma check_all:
  "foldE (\<lambda>d u. check_dependency find_tag tag d) deps () = Inr () \<Longrightarrow>
   \<forall>d \<in> set deps. d \<noteq> tag \<and> find_tag d = None"
  by (induction deps) (auto simp: check_dependency_def bindE_Inr_iff split: if_splits option.splits)

lemma validated_no_cycle:
  assumes "validate_dependency_graph find_tag (Inr rows) tag deps = Inr ()" and "deps \<noteq> []"
  shows "(tag, tag) \<notin> (edges (dependency_graph tag deps rows))\<^sup>+"
proof -
  let ?g = "dependency_graph tag deps rows"
  obtain state where "graph_cycle_state ?g tag (\<lambda>x. 0) 0 = ((False, False), state)"
    using assms by (auto simp: validate_dependency_graph_def bindE_Inr_iff split: prod.splits if_splits)
  moreover have "marked 2 (\<lambda>x. 0) = {}" "marked 1 (\<lambda>x. 0) = {}" by (simp_all add: marked_def)
  ultimately have "finished ?g (marked 2 state) \<and> tag \<in> marked 2 state"
    using search_sound(1) [of ?g tag "\<lambda>x. 0" 0 state] finished_empty by auto
  then show ?thesis using finished_no_cycle by blast
qed

text \<open>A cycle of the updated graph that was not there before goes through the updated tag.\<close>

lemma path_avoiding:
  assumes "\<And>x. x \<noteq> tag \<Longrightarrow> g x = h x" and "(y, x) \<in> (edges g)\<^sup>*"
  shows "(y, x) \<in> (edges h)\<^sup>* \<or> (y, tag) \<in> (edges g)\<^sup>* \<and> (tag, x) \<in> (edges g)\<^sup>*"
  using assms(2)
proof (induction rule: converse_rtrancl_induct)
  case (step a b)
  have ax: "(a, x) \<in> (edges g)\<^sup>*" using step.hyps by (meson converse_rtrancl_into_rtrancl)
  show ?case
  proof (cases "a = tag")
    case False
    then have "(a, b) \<in> edges h" using step.hyps(1) assms(1) by (simp add: edges_def)
    then show ?thesis using step by (meson converse_rtrancl_into_rtrancl)
  qed (use ax in simp)
qed simp

lemma cycle_through:
  assumes "\<And>x. x \<noteq> tag \<Longrightarrow> g x = h x" and "(x, x) \<in> (edges g)\<^sup>+" and "(x, x) \<notin> (edges h)\<^sup>+"
  shows "(tag, tag) \<in> (edges g)\<^sup>+"
proof (cases "x = tag")
  case False
  obtain b where ab: "(x, b) \<in> edges g" "(b, x) \<in> (edges g)\<^sup>*" using assms(2) by (meson tranclD)
  then have "(x, b) \<in> edges h" using assms(1) [OF False] by (simp add: edges_def)
  then have "(b, x) \<notin> (edges h)\<^sup>*" using assms(3) by (meson rtrancl_into_trancl2)
  then have "(b, tag) \<in> (edges g)\<^sup>*" "(tag, x) \<in> (edges g)\<^sup>*"
    using path_avoiding [OF assms(1) ab(2)] by blast+
  then show ?thesis using ab(1) by (meson rtrancl_into_trancl1 trancl_rtrancl_trancl)
qed (use assms(2) in simp)

text \<open>The graph a set of saved rows stands for, and the rows after an accepted save.\<close>

definition rows_graph :: "(uuid \<times> uuid) list \<Rightarrow> tag_graph" where
  "rows_graph rows = (\<lambda>x. map snd (filter (\<lambda>e. fst e = x) rows))"

definition save_dependencies :: "uuid \<Rightarrow> uuid list \<Rightarrow> (uuid \<times> uuid) list \<Rightarrow> (uuid \<times> uuid) list" where
  "save_dependencies tag deps rows = filter (\<lambda>e. fst e \<noteq> tag) rows @ map (\<lambda>d. (tag, d)) deps"

lemma edges_save: "edges (rows_graph (save_dependencies tag deps rows)) = edges (dependency_graph tag deps rows)"
proof -
  have "set (rows_graph (save_dependencies tag deps rows) x) = set (dependency_graph tag deps rows x)" for x
    by (force simp: rows_graph_def save_dependencies_def dependency_graph_def)
  then show ?thesis by (simp add: edges_def)
qed

lemma save_keeps_acyclic:
  assumes "acyclic (edges (rows_graph rows))"
    and "validate_dependency_graph find_tag (Inr rows) tag deps = Inr ()"
  shows "acyclic (edges (rows_graph (save_dependencies tag deps rows)))"
proof (cases "deps = []")
  case True
  have "edges (rows_graph (save_dependencies tag deps rows)) \<subseteq> edges (rows_graph rows)"
    using True by (auto simp: edges_def rows_graph_def save_dependencies_def)
  then show ?thesis using assms(1) acyclic_subset by blast
next
  case False
  let ?g = "dependency_graph tag deps rows"
  have same: "x \<noteq> tag \<Longrightarrow> ?g x = rows_graph rows x" for x
    by (auto simp: dependency_graph_def rows_graph_def intro!: arg_cong [where f = "map snd"] filter_cong)
  have "(x, x) \<notin> (edges ?g)\<^sup>+" for x
    using cycle_through [OF same] validated_no_cycle [OF assms(2) False] assms(1)
    by (auto simp: acyclic_def)
  then show ?thesis by (simp add: edges_save acyclic_def)
qed

text \<open>
  C12: a save that passes \<open>validateDependencyGraph\<close> keeps the dependency graph of the tags
  acyclic, so evaluating a calculated tag in dependency order ends.
\<close>

theorem validate_dependency_graph_acyclic:
  assumes "acyclic (edges (rows_graph rows))"
    and "validate_dependency_graph find_tag (Inr rows) tag deps = Inr ()"
  shows "acyclic (edges (rows_graph (save_dependencies tag deps rows))) \<and>
    (\<forall>d \<in> set deps. d \<noteq> tag \<and> find_tag d = None)"
proof -
  have "\<forall>d \<in> set deps. d \<noteq> tag \<and> find_tag d = None"
  proof (cases "deps = []")
    case False
    then have "foldE (\<lambda>d u. check_dependency find_tag tag d) deps () = Inr ()"
      using assms(2) by (auto simp: validate_dependency_graph_def bindE_Inr_iff)
    then show ?thesis by (rule check_all)
  qed simp
  with save_keeps_acyclic [OF assms] show ?thesis by blast
qed

lemma validate_example:
  "validate_dependency_graph (\<lambda>d. None) (Inr []) 1 [2] = Inr ()"
  by (simp add: validate_dependency_graph_def check_dependency_def dependency_graph_def
      graph_cycle_state.simps graph_cycle_children.simps max_dependency_depth_def)

theorem validate_dependency_graph_acyclic_witness:
  "acyclic (edges (rows_graph (save_dependencies 1 [2] [])))"
proof -
  have "acyclic (edges (rows_graph []))" by (simp add: edges_def rows_graph_def acyclic_def)
  from validate_dependency_graph_acyclic [OF this validate_example] show ?thesis by blast
qed

text \<open>
  The guarantee is for one save at a time. Nothing holds the service between the check and
  the write, so two updates may both be checked against the rows before either is written: 1
  made to depend on 2 and 2 on 1 both pass, and the saved graph is a cycle.
\<close>

theorem concurrent_saves_make_cycle:
  "validate_dependency_graph (\<lambda>d. None) (Inr []) 1 [2] = Inr () \<and>
   validate_dependency_graph (\<lambda>d. None) (Inr []) 2 [1] = Inr () \<and>
   \<not> acyclic (edges (rows_graph (save_dependencies 2 [1] (save_dependencies 1 [2] []))))"
proof (intro conjI)
  show "validate_dependency_graph (\<lambda>d. None) (Inr []) 1 [2] = Inr ()" by (rule validate_example)
  show "validate_dependency_graph (\<lambda>d. None) (Inr []) 2 [1] = Inr ()"
    by (simp add: validate_dependency_graph_def check_dependency_def dependency_graph_def
        graph_cycle_state.simps graph_cycle_children.simps max_dependency_depth_def)
  let ?r = "edges (rows_graph (save_dependencies 2 [1] (save_dependencies 1 [2] [])))"
  have "(1, 2) \<in> ?r" "(2, 1) \<in> ?r"
    by (simp_all add: edges_def rows_graph_def save_dependencies_def)
  then have "(1, 1) \<in> ?r\<^sup>+" by (meson trancl.r_into_trancl trancl_trans)
  then show "\<not> acyclic ?r" by (auto simp: acyclic_def)
qed

text \<open>A circular verdict is never a false alarm.\<close>

lemma circular_verdict:
  assumes "graph_cycle_state (dependency_graph tag deps rows) tag (\<lambda>x. 0) 0 = ((True, b), state)"
  shows "\<not> acyclic (edges (dependency_graph tag deps rows))"
  using search_complete(1) [OF assms] by (simp add: marked_def acyclic_def)

section \<open>The depth limit depends on the order of the references\<close>

lemma chain_visit:
  assumes "\<forall>k < n. graph (c k) = [c (Suc k)]" and "inj_on c {..n}" and "\<forall>k < n. st (c k) = 0"
    and "depth + n \<le> max_dependency_depth"
    and "\<And>st'. (\<forall>x. x \<notin> c ` {..<n} \<longrightarrow> st' x = st x) \<Longrightarrow>
      graph_cycle_state graph (c n) st' (depth + n) = ((False, False), st'(c n := 2))"
  shows "graph_cycle_state graph (c 0) st depth = ((False, False), \<lambda>x. if x \<in> c ` {..n} then 2 else st x)"
  using assms
proof (induction n arbitrary: c st depth)
  case 0
  then show ?case by (auto simp: fun_eq_iff)
next
  case (Suc n)
  define c' st1 where "c' = (\<lambda>k. c (Suc k))" and "st1 = st(c 0 := 1)"
  have shift: "c ` {..Suc n} = insert (c 0) (c' ` {..n})" "c ` {..<Suc n} = insert (c 0) (c' ` {..<n})"
    by (simp_all add: c'_def atMost_Suc_eq_insert_0 lessThan_Suc_eq_insert_0 image_image)
  have ne: "\<forall>k \<le> n. c' k \<noteq> c 0" using Suc.prems(2) by (auto simp: c'_def inj_on_def)
  have "graph_cycle_state graph (c' 0) st1 (depth + 1) =
      ((False, False), \<lambda>x. if x \<in> c' ` {..n} then 2 else st1 x)"
  proof (rule Suc.IH)
    show "inj_on c' {..n}" using Suc.prems(2) by (auto simp: c'_def inj_on_def)
    show "\<forall>k < n. graph (c' k) = [c' (Suc k)]" using Suc.prems(1) by (simp add: c'_def)
    show "\<forall>k < n. st1 (c' k) = 0" using Suc.prems(3) ne by (auto simp: c'_def st1_def)
    show "depth + 1 + n \<le> max_dependency_depth" using Suc.prems(4) by simp
    fix st' :: visit_state assume "\<forall>x. x \<notin> c' ` {..<n} \<longrightarrow> st' x = st1 x"
    then have "\<forall>x. x \<notin> c ` {..<Suc n} \<longrightarrow> st' x = st x" by (simp add: shift(2) st1_def)
    from Suc.prems(5) [OF this]
    show "graph_cycle_state graph (c' n) st' (depth + 1 + n) = ((False, False), st'(c' n := 2))"
      by (simp add: c'_def fun_upd_def)
  qed
  moreover have "st (c 0) = 0" "graph (c 0) = [c' 0]" "\<not> depth > max_dependency_depth"
    using Suc.prems by (auto simp: c'_def)
  ultimately show ?case
    by (auto simp: graph_cycle_state.simps [of graph "c 0"] graph_cycle_children.simps st1_def shift fun_eq_iff)
qed

lemma chain_too_deep:
  assumes "\<forall>k < n. graph (c k) = [c (Suc k)]" and "inj_on c {..n}" and "\<forall>k \<le> n. st (c k) = 0"
    and "depth + n = Suc max_dependency_depth"
  shows "fst (graph_cycle_state graph (c 0) st depth) = (False, True)"
  using assms
proof (induction n arbitrary: c st depth)
  case 0
  then show ?case by (simp add: graph_cycle_state.simps)
next
  case (Suc n)
  define c' st1 where "c' = (\<lambda>k. c (Suc k))" and "st1 = st(c 0 := 1)"
  have c0: "\<forall>k \<le> n. c' k \<noteq> c 0" using Suc.prems(2) by (auto simp: c'_def inj_on_def)
  have "fst (graph_cycle_state graph (c' 0) st1 (depth + 1)) = (False, True)"
  proof (rule Suc.IH)
    show "inj_on c' {..n}" using Suc.prems(2) by (auto simp: c'_def inj_on_def)
  qed (use Suc.prems c0 in \<open>auto simp: c'_def st1_def\<close>)
  moreover have "st (c 0) = 0" "graph (c 0) = [c' 0]" "\<not> depth > max_dependency_depth"
    using Suc.prems by (auto simp: c'_def)
  ultimately show ?case
    by (auto simp: graph_cycle_state.simps [of graph "c 0"] graph_cycle_children.simps st1_def
        split: prod.splits)
qed

text \<open>
  A chain of 101 tags from 10 to 110, and one of 61 tags from 200 to 260 that ends in the
  first; tag 1 refers to the heads of both.
\<close>

definition two_chains :: "uuid list \<Rightarrow> tag_graph" where
  "two_chains deps x =
     (let n = unat x
      in if n = 1 then deps
         else if 10 \<le> n \<and> n < 110 \<or> 200 \<le> n \<and> n < 260 then [of_nat (Suc n)]
         else if n = 260 then [10] else [])"

lemma small_unat: "k < 1000 \<Longrightarrow> unat (of_nat k :: uuid) = k"
  by (simp add: unsigned_of_nat take_bit_nat_eq_self)

lemma small_inj: "j < 1000 \<Longrightarrow> k < 1000 \<Longrightarrow> (of_nat j :: uuid) = of_nat k \<longleftrightarrow> j = k"
  using small_unat by metis

lemma two_chains_at:
  "k < 1000 \<Longrightarrow> two_chains deps (of_nat k) =
     (if k = 1 then deps else if 10 \<le> k \<and> k < 110 \<or> 200 \<le> k \<and> k < 260 then [of_nat (Suc k)]
      else if k = 260 then [of_nat 10] else [])"
  by (simp add: two_chains_def small_unat Let_def)

lemma short_first:
  "fst (graph_cycle_state (two_chains [of_nat 10, of_nat 200]) (of_nat 1) (\<lambda>x. 0) 0) = (False, False)"
proof -
  let ?g = "two_chains [of_nat 10, of_nat 200]"
  let ?c = "\<lambda>k. of_nat (10 + k) :: uuid"
  let ?d = "\<lambda>k. if k \<le> 60 then of_nat (200 + k) else of_nat 10 :: uuid"
  define s1 where "s1 = (\<lambda>x. 0 :: nat)((of_nat 1 :: uuid) := 1)"
  define s2 where "s2 = (\<lambda>x. if x \<in> ?c ` {..100} then 2 else s1 x)"
  have s1: "s1 (of_nat k) = (if k = 1 then 1 else 0)" if "k < 1000" for k
    using that small_inj [of k 1] by (simp add: s1_def)
  have first: "graph_cycle_state ?g (?c 0) s1 1 = ((False, False), s2)"
    unfolding s2_def
  proof (rule chain_visit)
    fix st' :: visit_state assume "\<forall>x. x \<notin> ?c ` {..<100} \<longrightarrow> st' x = s1 x"
    moreover have "of_nat 110 \<notin> ?c ` {..<100}"
      by (auto simp: small_inj simp del: of_nat_add of_nat_numeral)
    ultimately have "st' (of_nat 110) = 0" using s1 [of 110] by (simp del: of_nat_numeral)
    then show "graph_cycle_state ?g (?c 100) st' (1 + 100) = ((False, False), st'(?c 100 := 2))"
      using two_chains_at [of 110] by (simp add: graph_cycle_state.simps graph_cycle_children.simps
          max_dependency_depth_def)
  next
    show "inj_on ?c {..100}" by (auto simp: inj_on_def small_inj simp del: of_nat_add)
  qed (auto simp: two_chains_at s1 max_dependency_depth_def simp del: of_nat_add)
  have s2: "s2 (of_nat k) = (if 10 \<le> k \<and> k \<le> 110 then 2 else s1 (of_nat k))" if k: "k < 1000" for k
  proof -
    have "of_nat k \<in> ?c ` {..100} \<longleftrightarrow> 10 \<le> k \<and> k \<le> 110"
      using k small_inj [of k] by (auto simp: image_iff simp del: of_nat_add intro: bexI [of _ "k - 10"])
    then show ?thesis by (simp add: s2_def)
  qed
  have second: "graph_cycle_state ?g (?d 0) s2 1 = ((False, False), \<lambda>x. if x \<in> ?d ` {..61} then 2 else s2 x)"
  proof (rule chain_visit)
    show "inj_on ?d {..61}" by (auto simp: inj_on_def small_inj simp del: of_nat_add of_nat_numeral)
    fix st' :: visit_state assume "\<forall>x. x \<notin> ?d ` {..<61} \<longrightarrow> st' x = s2 x"
    moreover have "of_nat 10 \<notin> ?d ` {..<61}"
      by (auto simp: small_inj simp del: of_nat_add of_nat_numeral)
    ultimately have "st' (of_nat 10) = 2" using s2 [of 10] by (simp del: of_nat_numeral)
    then show "graph_cycle_state ?g (?d 61) st' (1 + 61) = ((False, False), st'(?d 61 := 2))"
      by (simp add: graph_cycle_state.simps fun_upd_idem)
  qed (auto simp: two_chains_at s1 s2 max_dependency_depth_def simp del: of_nat_add)
  show ?thesis using first [unfolded s1_def] second two_chains_at [of 1 "[of_nat 10, of_nat 200]"]
    by (subst graph_cycle_state.simps) (simp add: graph_cycle_children.simps max_dependency_depth_def)
qed

lemma long_first:
  "fst (graph_cycle_state (two_chains [of_nat 200, of_nat 10]) (of_nat 1) (\<lambda>x. 0) 0) = (False, True)"
proof -
  let ?g = "two_chains [of_nat 200, of_nat 10]"
  let ?d = "\<lambda>k. if k \<le> 60 then of_nat (200 + k) else of_nat (k - 51) :: uuid"
  define s1 where "s1 = (\<lambda>x. 0 :: nat)((of_nat 1 :: uuid) := 1)"
  have s1: "s1 (of_nat k) = (if k = 1 then 1 else 0)" if "k < 1000" for k
    using that small_inj [of k 1] by (simp add: s1_def)
  have "fst (graph_cycle_state ?g (?d 0) s1 1) = (False, True)"
  proof (rule chain_too_deep [of 128])
    show "inj_on ?d {..128}" by (auto simp: inj_on_def small_inj simp del: of_nat_add of_nat_diff)
    show "\<forall>k < 128. ?g (?d k) = [?d (Suc k)]"
    proof (intro allI impI)
      fix k :: nat assume "k < 128"
      then consider "k < 60" | "k = 60" | "60 < k" "k - 51 < 77" "Suc (k - 51) = Suc k - 51" by linarith
      then show "?g (?d k) = [?d (Suc k)]"
        by cases (auto simp: two_chains_at simp del: of_nat_add of_nat_diff of_nat_Suc of_nat_numeral)
    qed
    show "\<forall>k \<le> 128. s1 (?d k) = 0" by (auto simp: s1 simp del: of_nat_add of_nat_diff)
  qed (simp add: max_dependency_depth_def)
  then show ?thesis using two_chains_at [of 1 "[of_nat 200, of_nat 10]"]
    unfolding s1_def
    by (subst graph_cycle_state.simps)
      (auto simp: graph_cycle_children.simps max_dependency_depth_def split: prod.splits)
qed

text \<open>
  Whether a dependency graph is too deep depends on the order in which the expression
  names its tags, not only on the graph: a node finished on a short path is not searched again
  on a longer one, so with the short chain first the search accepts a graph that, with the
  long chain first, it refuses.
\<close>

theorem depth_limit_depends_on_order:
  "edges (two_chains [of_nat 10, of_nat 200]) = edges (two_chains [of_nat 200, of_nat 10]) \<and>
   fst (graph_cycle_state (two_chains [of_nat 10, of_nat 200]) (of_nat 1) (\<lambda>x. 0) 0) = (False, False) \<and>
   fst (graph_cycle_state (two_chains [of_nat 200, of_nat 10]) (of_nat 1) (\<lambda>x. 0) 0) = (False, True)"
  using short_first long_first by (auto simp: edges_def two_chains_def Let_def)

end
