(* ===== verification/Tag_Expr_Lexer.thy ===== *)
theory Tag_Expr_Lexer
  imports Tag_Types
begin

text \<open>
  The lexer of the calculated-tag expressions, \<open>internal/tag/expression.go\<close>: the limits, the
  tokens and \<open>lexExpression\<close> with its scanners. A scanner gets the rest of the text from the
  current index and returns the token and how many bytes it read; the index itself is kept for
  the positions the errors report. \<open>uuid.Parse\<close> is a parameter.
\<close>

definition max_expression_length :: nat where "max_expression_length = 2048"
definition max_expression_tokens :: nat where "max_expression_tokens = 256"
definition max_expression_depth :: nat where "max_expression_depth = 32"
definition max_expression_dependencies :: nat where "max_expression_dependencies = 32"

lemmas expression_limits = max_expression_length_def max_expression_tokens_def
  max_expression_depth_def max_expression_dependencies_def

text \<open>A syntax error carries the index it was found at (the message adds one).\<close>

datatype expr_error =
    ErrExpressionRequired | ErrInvalidExpression nat | ErrExpressionTooComplex
  | ErrExpressionEvaluation | ErrExpressionReference | ErrContextDone

datatype token_kind =
    TokenEOF | TokenNumber fl | TokenTrue | TokenFalse | TokenReference uuid
  | TokenLeftParenthesis | TokenRightParenthesis | TokenOperator string

record expression_token =
  tok_kind :: token_kind
  tok_position :: nat

definition mk_token :: "token_kind \<Rightarrow> nat \<Rightarrow> expression_token" where
  "mk_token k n = \<lparr>tok_kind = k, tok_position = n\<rparr>"

text \<open>\<open>unicode.IsSpace\<close> of a byte taken as a rune.\<close>

definition is_space_byte :: "char \<Rightarrow> bool" where
  "is_space_byte c \<longleftrightarrow> byte_of c \<in> set [9, 10, 11, 12, 13, 32, 0x85, 0xA0]"

definition char_at :: "string \<Rightarrow> nat \<Rightarrow> char option" where
  "char_at s i = (if i < length s then Some (s ! i) else None)"

definition digits_from :: "nat \<Rightarrow> string \<Rightarrow> nat" where
  "digits_from i s = i + length (takeWhile is_digit (drop i s))"

definition number_token :: "nat \<Rightarrow> string \<Rightarrow> nat \<Rightarrow> expr_error + token_kind \<times> nat" where
  "number_token start s n =
     (case parse_float binary64 (take n s) of
        None \<Rightarrow> Inl (ErrInvalidExpression start)
      | Some x \<Rightarrow> Inr (TokenNumber x, n))"

definition scan_number :: "nat \<Rightarrow> string \<Rightarrow> expr_error + token_kind \<times> nat" where
  "scan_number start s =
     (let i = digits_from 0 s;
          i = (if char_at s i = Some (CHR ''.'') then digits_from (i + 1) s else i)
      in if char_at s i = Some (CHR ''e'') \<or> char_at s i = Some (CHR ''E'')
         then let j = i + 1;
                  j = (if char_at s j = Some (CHR ''+'') \<or> char_at s j = Some (CHR ''-'') then j + 1 else j);
                  k = digits_from j s
              in if k = j then Inl (ErrInvalidExpression start) else number_token start s k
         else number_token start s i)"

definition scan_keyword :: "nat \<Rightarrow> string \<Rightarrow> expr_error + token_kind \<times> nat" where
  "scan_keyword start s =
     (let text = takeWhile is_alpha s
      in if text = ''true'' then Inr (TokenTrue, length text)
         else if text = ''false'' then Inr (TokenFalse, length text)
         else Inl (ErrInvalidExpression start))"

definition scan_reference ::
  "(string \<Rightarrow> uuid option) \<Rightarrow> nat \<Rightarrow> string \<Rightarrow> expr_error + token_kind \<times> nat" where
  "scan_reference parse_uuid start s =
     (if char_at s 1 \<noteq> Some (CHR ''{'') then Inl (ErrInvalidExpression start)
      else let text = takeWhile (\<lambda>c. c \<noteq> CHR ''}'') (drop 2 s)
        in if length text = length (drop 2 s) then Inl (ErrInvalidExpression start)
           else case parse_uuid text of
             None \<Rightarrow> Inl (ErrInvalidExpression start)
           | Some reference \<Rightarrow>
               if reference = uuid_nil then Inl (ErrInvalidExpression start)
               else Inr (TokenReference reference, 2 + length text + 1))"

definition long_operators :: "string list" where
  "long_operators = [''&&'', ''||'', ''=='', ''!='', ''<='', ''>='']"

definition scan_operator :: "nat \<Rightarrow> string \<Rightarrow> expr_error + token_kind \<times> nat" where
  "scan_operator start s =
     (if take 2 s \<in> set long_operators then Inr (TokenOperator (take 2 s), 2)
      else if s \<noteq> [] \<and> hd s \<in> set ''+-*/%!<>'' then Inr (TokenOperator [hd s], 1)
      else Inl (ErrInvalidExpression start))"

definition scan_token ::
  "(string \<Rightarrow> uuid option) \<Rightarrow> nat \<Rightarrow> string \<Rightarrow> expr_error + token_kind \<times> nat" where
  "scan_token parse_uuid position s =
     (let c = hd s
      in if is_digit c \<or> c = CHR ''.'' \<and> 1 < length s \<and> is_digit (s ! 1) then scan_number position s
         else if is_alpha c then scan_keyword position s
         else if c = CHR ''$'' then scan_reference parse_uuid position s
         else if c = CHR ''('' then Inr (TokenLeftParenthesis, 1)
         else if c = CHR '')'' then Inr (TokenRightParenthesis, 1)
         else scan_operator position s)"

definition lexer_append ::
  "expression_token \<Rightarrow> expression_token list \<Rightarrow> expr_error + expression_token list" where
  "lexer_append t tokens =
     (if length tokens \<ge> max_expression_tokens then Inl ErrExpressionTooComplex
      else Inr (tokens @ [t]))"

section \<open>Every scanner reads at least one byte\<close>

lemma parse_float_Nil [simp]: "parse_float fm [] = None"
  by (simp add: parse_float_def parse_decimal_def span_digits_def)

lemma number_token_width: "number_token start s n = Inr (k, m) \<Longrightarrow> 0 < m"
  by (cases "n = 0") (auto simp: number_token_def split: option.splits)

lemma scan_token_width: "scan_token parse_uuid p s = Inr (k, n) \<Longrightarrow> 0 < n"
proof -
  have number: "scan_number p s = Inr (k, n) \<Longrightarrow> 0 < n"
    by (auto simp: scan_number_def Let_def dest: number_token_width split: if_splits)
  have keyword: "scan_keyword p s = Inr (k, n) \<Longrightarrow> 0 < n"
    by (auto simp: scan_keyword_def Let_def split: if_splits)
  have reference: "scan_reference parse_uuid p s = Inr (k, n) \<Longrightarrow> 0 < n"
    by (auto simp: scan_reference_def Let_def split: if_splits option.splits)
  have operator: "scan_operator p s = Inr (k, n) \<Longrightarrow> 0 < n"
    by (auto simp: scan_operator_def split: if_splits)
  show "scan_token parse_uuid p s = Inr (k, n) \<Longrightarrow> 0 < n"
    using number keyword reference operator by (auto simp: scan_token_def Let_def split: if_splits)
qed

function lex_loop ::
  "(string \<Rightarrow> uuid option) \<Rightarrow> nat \<Rightarrow> string \<Rightarrow> expression_token list \<Rightarrow> expr_error + expression_token list"
where
  "lex_loop parse_uuid index s tokens =
     (if s = [] then Inr (tokens @ [mk_token TokenEOF index])
      else if is_space_byte (hd s) then lex_loop parse_uuid (index + 1) (tl s) tokens
      else bindE (scan_token parse_uuid index s) (\<lambda>(kind, n).
        bindE (lexer_append (mk_token kind index) tokens) (\<lambda>tokens.
          lex_loop parse_uuid (index + n) (drop n s) tokens)))"
  by pat_completeness auto
termination
  by (relation "measure (\<lambda>(u, i, s, ts). length s)")
    (auto dest: scan_token_width)

declare lex_loop.simps [simp del]

definition lex_expression :: "(string \<Rightarrow> uuid option) \<Rightarrow> string \<Rightarrow> expr_error + expression_token list" where
  "lex_expression parse_uuid raw = lex_loop parse_uuid 0 raw []"

section \<open>What a token list satisfies\<close>

definition kind_ok :: "token_kind \<Rightarrow> bool" where
  "kind_ok k = (case k of
     TokenEOF \<Rightarrow> False
   | TokenNumber x \<Rightarrow> fl_finite x \<and> fl_ok binary64 x
   | TokenReference r \<Rightarrow> r \<noteq> uuid_nil
   | TokenOperator text \<Rightarrow> text \<in> set long_operators \<or> (\<exists>c \<in> set ''+-*/%!<>''. text = [c])
   | _ \<Rightarrow> True)"

lemma number_token_kind: "number_token start s n = Inr (k, m) \<Longrightarrow> kind_ok k"
  using parse_float_Some [of binary64] by (auto simp: number_token_def kind_ok_def split: option.splits)

lemma scan_token_kind: "s \<noteq> [] \<Longrightarrow> scan_token parse_uuid p s = Inr (k, n) \<Longrightarrow> kind_ok k"
proof -
  have number: "scan_number p s = Inr (k, n) \<Longrightarrow> kind_ok k"
    by (auto simp: scan_number_def Let_def dest: number_token_kind split: if_splits)
  have keyword: "scan_keyword p s = Inr (k, n) \<Longrightarrow> kind_ok k"
    by (auto simp: scan_keyword_def Let_def kind_ok_def split: if_splits)
  have reference: "scan_reference parse_uuid p s = Inr (k, n) \<Longrightarrow> kind_ok k"
    by (auto simp: scan_reference_def Let_def kind_ok_def split: if_splits option.splits)
  have operator: "scan_operator p s = Inr (k, n) \<Longrightarrow> kind_ok k"
    unfolding scan_operator_def kind_ok_def by (auto simp del: list.set split: if_splits)
  show "scan_token parse_uuid p s = Inr (k, n) \<Longrightarrow> kind_ok k"
    using number keyword reference operator
    by (auto simp: scan_token_def Let_def kind_ok_def split: if_splits)
qed

definition tokens_ok :: "nat \<Rightarrow> expression_token list \<Rightarrow> bool" where
  "tokens_ok index ts \<longleftrightarrow>
     length ts \<le> max_expression_tokens \<and> (\<forall>t \<in> set ts. kind_ok (tok_kind t) \<and> tok_position t < index) \<and>
     sorted_wrt (\<lambda>a b. tok_position a < tok_position b) ts"

lemma digits_from_le: "i \<le> length s \<Longrightarrow> digits_from i s \<le> length s"
  using length_takeWhile_le [of is_digit "drop i s"] by (simp add: digits_from_def)

lemma number_token_n: "number_token start s n = Inr (k, m) \<Longrightarrow> m = n"
  by (auto simp: number_token_def split: option.splits)

lemma char_at_less: "char_at s i = Some c \<Longrightarrow> i < length s"
  by (simp add: char_at_def split: if_splits)

lemma scan_number_length: "scan_number p s = Inr (k, n) \<Longrightarrow> n \<le> length s"
proof -
  define i where "i = digits_from 0 s"
  define j where "j = (if char_at s i = Some (CHR ''.'') then digits_from (i + 1) s else i)"
  define e where "e = (if char_at s (j + 1) = Some (CHR ''+'') \<or> char_at s (j + 1) = Some (CHR ''-'')
    then j + 1 + 1 else j + 1)"
  have i: "i \<le> length s" by (simp add: i_def digits_from_le)
  then have j: "j \<le> length s"
    using char_at_less [of s i] by (auto simp: j_def intro!: digits_from_le)
  have e: "e \<le> length s" if "char_at s j = Some c" for c
    using char_at_less [OF that] char_at_less [of s "j + 1"] by (auto simp: e_def)
  have "scan_number p s = (if char_at s j = Some (CHR ''e'') \<or> char_at s j = Some (CHR ''E'')
      then if digits_from e s = e then Inl (ErrInvalidExpression p) else number_token p s (digits_from e s)
      else number_token p s j)"
    by (simp add: scan_number_def Let_def i_def j_def e_def)
  then show "scan_number p s = Inr (k, n) \<Longrightarrow> n \<le> length s"
    using j e digits_from_le [of e s] by (auto dest: number_token_n split: if_splits)
qed

lemma scan_token_length: "s \<noteq> [] \<Longrightarrow> scan_token parse_uuid p s = Inr (k, n) \<Longrightarrow> n \<le> length s"
proof -
  have keyword: "scan_keyword p s = Inr (k, n) \<Longrightarrow> n \<le> length s"
    using length_takeWhile_le [of is_alpha s] by (auto simp: scan_keyword_def Let_def split: if_splits)
  have reference: "scan_reference parse_uuid p s = Inr (k, n) \<Longrightarrow> n \<le> length s"
    using length_takeWhile_le [of "\<lambda>c. c \<noteq> CHR ''}''" "drop 2 s"]
    by (auto simp: scan_reference_def Let_def split: if_splits option.splits)
  have "take 2 s \<in> set long_operators \<Longrightarrow> length (take 2 s) = 2"
    by (auto simp: long_operators_def simp del: length_take)
  then have operator: "s \<noteq> [] \<Longrightarrow> scan_operator p s = Inr (k, n) \<Longrightarrow> n \<le> length s"
    by (cases s) (auto simp: scan_operator_def split: if_splits)
  show "s \<noteq> [] \<Longrightarrow> scan_token parse_uuid p s = Inr (k, n) \<Longrightarrow> n \<le> length s"
    using scan_number_length [of p s k n] keyword reference operator
    by (cases s) (auto simp: scan_token_def Let_def split: if_splits)
qed

lemma lex_loop_ok:
  "tokens_ok index ts \<Longrightarrow> lex_loop parse_uuid index s ts = Inr out \<Longrightarrow>
   \<exists>us. out = us @ [mk_token TokenEOF (index + length s)] \<and> tokens_ok (index + length s) us"
proof (induction parse_uuid index s ts rule: lex_loop.induct)
  case (1 parse_uuid index s ts)
  note step = lex_loop.simps [of parse_uuid index s ts]
  consider "s = []" | "s \<noteq> []" "is_space_byte (hd s)" | "s \<noteq> []" "\<not> is_space_byte (hd s)" by blast
  then show ?case
  proof cases
    case 1
    with "1.prems" step show ?thesis by auto
  next
    case 2
    have "tokens_ok (index + 1) ts" using "1.prems"(1) by (auto simp: tokens_ok_def)
    with "1.IH"(1) 2 "1.prems"(2) step show ?thesis by (cases s) auto
  next
    case 3
    from "1.prems"(2) 3 step obtain k n ts' where sc: "scan_token parse_uuid index s = Inr (k, n)"
      and app: "lexer_append (mk_token k index) ts = Inr ts'"
      and rest: "lex_loop parse_uuid (index + n) (drop n s) ts' = Inr out"
      by (auto simp: bindE_Inr_iff split: prod.splits)
    have n: "0 < n" "n \<le> length s" using scan_token_width [OF sc] scan_token_length [OF 3(1) sc] by auto
    have ts': "ts' = ts @ [mk_token k index]" "length ts < max_expression_tokens"
      using app by (auto simp: lexer_append_def split: if_splits)
    have "tokens_ok (index + n) ts'"
      using "1.prems"(1) scan_token_kind [OF 3(1) sc] n ts'
      by (auto simp: tokens_ok_def mk_token_def sorted_wrt_append)
    with "1.IH"(2) [OF 3 sc refl app _ rest] n show ?thesis by simp
  qed
qed

text \<open>
  C8: \<open>lexExpression\<close> ends for every text (it is a total function), and when it accepts one
  the result is at most 256 tokens and an end token: every number is a finite float64, every
  reference is a non-nil identifier, every operator one of the grammar's, and the positions
  increase strictly inside the text.
\<close>

theorem lex_expression_tokens:
  assumes "lex_expression parse_uuid raw = Inr tokens"
  shows "\<exists>ts. tokens = ts @ [mk_token TokenEOF (length raw)] \<and> tokens_ok (length raw) ts"
  using lex_loop_ok [of 0 "[]" parse_uuid raw tokens] assms
  by (simp add: lex_expression_def tokens_ok_def)

theorem lex_expression_tokens_witness:
  "\<exists>ts. [mk_token TokenTrue 0, mk_token (TokenOperator ''*'') 4, mk_token TokenFalse 5, mk_token TokenEOF 10]
      = ts @ [mk_token TokenEOF 10] \<and> tokens_ok 10 ts"
proof -
  have "lex_expression (\<lambda>t. None) ''true*false'' =
      Inr [mk_token TokenTrue 0, mk_token (TokenOperator ''*'') 4, mk_token TokenFalse 5, mk_token TokenEOF 10]"
    by code_simp
  moreover have "length ''true*false'' = 10" by simp
  ultimately show ?thesis using lex_expression_tokens by metis
qed

end
