(* ===== verification/Tag_Expr_Parser.thy ===== *)
theory Tag_Expr_Parser
  imports Tag_Expr_Lexer
begin

text \<open>
  The recursive-descent parser of \<open>internal/tag/expression.go\<close>. The binary levels of the
  grammar are numbered as the calls nest: 6 is \<open>parseOr\<close>, then \<open>parseAnd\<close>,
  \<open>parseEquality\<close>, \<open>parseComparison\<close>, \<open>parseTerm\<close> and 1 is \<open>parseFactor\<close>; level 0 is
  \<open>parseUnary\<close>. The parser keeps the tokens from its index on.
\<close>

datatype expression_node =
    LiteralNode gval
  | ReferenceNode uuid
  | UnaryNode string expression_node
  | BinaryNode string expression_node expression_node

record expression_parser =
  ep_tokens :: "expression_token list"
  ep_depth :: nat
  ep_dependencies :: "uuid list"

definition current :: "expression_parser \<Rightarrow> expression_token" where
  "current p = (case ep_tokens p of [] \<Rightarrow> mk_token TokenEOF 0 | t # ts \<Rightarrow> t)"

definition advance :: "expression_parser \<Rightarrow> expression_parser" where
  "advance p = p\<lparr>ep_tokens := tl (ep_tokens p)\<rparr>"

text \<open>\<open>matchesOperator\<close>: the operator it consumed, with its position.\<close>

definition matches_operator ::
  "string list \<Rightarrow> expression_parser \<Rightarrow> (string \<times> nat \<times> expression_parser) option" where
  "matches_operator operators p =
     (case tok_kind (current p) of
        TokenOperator text \<Rightarrow>
          if text \<in> set operators then Some (text, tok_position (current p), advance p) else None
      | _ \<Rightarrow> None)"

definition enter_depth :: "expression_parser \<Rightarrow> expr_error + expression_parser" where
  "enter_depth p =
     (if ep_depth p + 1 > max_expression_depth then Inl ErrExpressionTooComplex
      else Inr (p\<lparr>ep_depth := ep_depth p + 1\<rparr>))"

definition leave_depth :: "expression_parser \<Rightarrow> expression_parser" where
  "leave_depth p = p\<lparr>ep_depth := ep_depth p - 1\<rparr>"

definition add_dependency :: "uuid \<Rightarrow> expression_parser \<Rightarrow> expr_error + expression_parser" where
  "add_dependency r p =
     (if r \<in> set (ep_dependencies p) then Inr p
      else if length (ep_dependencies p) \<ge> max_expression_dependencies then Inl ErrExpressionTooComplex
      else Inr (p\<lparr>ep_dependencies := ep_dependencies p @ [r]\<rparr>))"

definition level_operators :: "nat \<Rightarrow> string list" where
  "level_operators l =
     (if l = 6 then [''||''] else if l = 5 then [''&&''] else if l = 4 then [''=='', ''!='']
      else if l = 3 then [''<'', ''<='', ''>'', ''>=''] else if l = 2 then [''+'', ''-'']
      else if l = 1 then [''*'', ''/'', ''%''] else [])"

definition unary_operators :: "string list" where
  "unary_operators = [''!'', ''+'', ''-'']"

type_synonym parse_result = "expr_error + expression_node \<times> expression_parser"

function parse_level :: "nat \<Rightarrow> expression_parser \<Rightarrow> parse_result"
  and parse_loop :: "nat \<Rightarrow> expression_node \<Rightarrow> expression_parser \<Rightarrow> parse_result"
  and parse_unary :: "expression_parser \<Rightarrow> parse_result"
  and parse_primary :: "expression_parser \<Rightarrow> parse_result"
where
  "parse_level l p =
     (if l = 0 then parse_unary p
      else bindE (parse_level (l - 1) p) (\<lambda>(left, p). parse_loop l left p))"
| "parse_loop l left p =
     (case matches_operator (level_operators l) p of
        None \<Rightarrow> Inr (left, p)
      | Some (operator, position, p) \<Rightarrow>
          bindE (parse_level (l - 1) p) (\<lambda>(right, p). parse_loop l (BinaryNode operator left right) p))"
| "parse_unary p =
     (case matches_operator unary_operators p of
        Some (operator, position, p) \<Rightarrow>
          bindE (enter_depth p) (\<lambda>p.
            bindE (parse_unary p) (\<lambda>(operand, p). Inr (UnaryNode operator operand, leave_depth p)))
      | None \<Rightarrow> parse_primary p)"
| "parse_primary p =
     (case tok_kind (current p) of
        TokenNumber x \<Rightarrow> Inr (LiteralNode (VFloat64 x), advance p)
      | TokenTrue \<Rightarrow> Inr (LiteralNode (VBool True), advance p)
      | TokenFalse \<Rightarrow> Inr (LiteralNode (VBool False), advance p)
      | TokenReference r \<Rightarrow>
          bindE (add_dependency r (advance p)) (\<lambda>p. Inr (ReferenceNode r, p))
      | TokenLeftParenthesis \<Rightarrow>
          bindE (enter_depth (advance p)) (\<lambda>p.
            bindE (parse_level 6 p) (\<lambda>(node, p).
              let p = leave_depth p
              in if tok_kind (current p) \<noteq> TokenRightParenthesis
                 then Inl (ErrInvalidExpression (tok_position (current p)))
                 else Inr (node, advance p)))
      | _ \<Rightarrow> Inl (ErrInvalidExpression (tok_position (current p))))"
  by pat_completeness auto

text \<open>Parsing never puts tokens back, which is what makes the descent end.\<close>

lemma matches_operator_shorter:
  "matches_operator ops p = Some (text, n, p') \<Longrightarrow> length (ep_tokens p') < length (ep_tokens p)"
  by (auto simp: matches_operator_def current_def advance_def mk_token_def
      split: list.splits token_kind.splits if_splits)

lemma enter_depth_tokens: "enter_depth p = Inr p' \<Longrightarrow> ep_tokens p' = ep_tokens p"
  by (auto simp: enter_depth_def split: if_splits)

lemma leave_depth_tokens [simp]: "ep_tokens (leave_depth p) = ep_tokens p"
  by (simp add: leave_depth_def)

lemma add_dependency_tokens: "add_dependency r p = Inr p' \<Longrightarrow> ep_tokens p' = ep_tokens p"
  by (auto simp: add_dependency_def split: if_splits)

lemma advance_tokens [simp]: "ep_tokens (advance p) = tl (ep_tokens p)"
  by (simp add: advance_def)

lemma current_nonempty: "tok_kind (current p) \<noteq> TokenEOF \<Longrightarrow> ep_tokens p \<noteq> []"
  by (auto simp: current_def mk_token_def)

lemma enter_after_match:
  "matches_operator ops p = Some (opr, n, q) \<Longrightarrow> enter_depth q = Inr e \<Longrightarrow>
   length (ep_tokens e) < length (ep_tokens p)"
  using matches_operator_shorter [of ops p opr n q] by (simp add: enter_depth_tokens)

lemma enter_after_paren:
  "tok_kind (current p) = TokenLeftParenthesis \<Longrightarrow> enter_depth (advance p) = Inr e \<Longrightarrow>
   length (ep_tokens e) < length (ep_tokens p)"
  using current_nonempty [of p] by (simp add: enter_depth_tokens)

lemma parse_shrinks:
  "parse_level_parse_loop_parse_unary_parse_primary_dom (Inl (Inl (l, p))) \<Longrightarrow>
     (\<forall>n p'. parse_level l p = Inr (n, p') \<longrightarrow> length (ep_tokens p') \<le> length (ep_tokens p))"
  "parse_level_parse_loop_parse_unary_parse_primary_dom (Inl (Inr (l, left, p))) \<Longrightarrow>
     (\<forall>n p'. parse_loop l left p = Inr (n, p') \<longrightarrow> length (ep_tokens p') \<le> length (ep_tokens p))"
  "parse_level_parse_loop_parse_unary_parse_primary_dom (Inr (Inl p)) \<Longrightarrow>
     (\<forall>n p'. parse_unary p = Inr (n, p') \<longrightarrow> length (ep_tokens p') \<le> length (ep_tokens p))"
  "parse_level_parse_loop_parse_unary_parse_primary_dom (Inr (Inr p)) \<Longrightarrow>
     (\<forall>n p'. parse_primary p = Inr (n, p') \<longrightarrow> length (ep_tokens p') \<le> length (ep_tokens p))"
proof (induction l p and l left p and p and p rule: parse_level_parse_loop_parse_unary_parse_primary.pinduct)
  case (1 l p)
  show ?case
  proof (cases "l = 0")
    case True
    then show ?thesis using 1 by (simp add: parse_level.psimps)
  next
    case False
    then show ?thesis using 1
      by (fastforce simp: parse_level.psimps bindE_Inr_iff intro: order_trans)
  qed
next
  case (2 l left p)
  show ?case
  proof (cases "matches_operator (level_operators l) p")
    case None
    then show ?thesis using 2(1) by (simp add: parse_loop.psimps)
  next
    case (Some a)
    obtain opr k q where a: "a = (opr, k, q)" by (cases a)
    note m = Some [unfolded a]
    have q: "length (ep_tokens q) < length (ep_tokens p)" by (rule matches_operator_shorter [OF m])
    show ?thesis
    proof (intro allI impI)
      fix n p' assume "parse_loop l left p = Inr (n, p')"
      then obtain right q' where r: "parse_level (l - 1) q = Inr (right, q')"
        and rest: "parse_loop l (BinaryNode opr left right) q' = Inr (n, p')"
        using 2(1) m by (auto simp: parse_loop.psimps bindE_Inr_iff)
      have "length (ep_tokens q') \<le> length (ep_tokens q)"
        using 2(2) [OF m refl refl] r by blast
      moreover have "length (ep_tokens p') \<le> length (ep_tokens q')"
        using 2(3) [OF m refl refl r refl] rest by blast
      ultimately show "length (ep_tokens p') \<le> length (ep_tokens p)" using q by simp
    qed
  qed
next
  case (3 p)
  show ?case
  proof (cases "matches_operator unary_operators p")
    case None
    then show ?thesis using 3(1) 3(2) [OF None] by (simp add: parse_unary.psimps)
  next
    case (Some a)
    obtain opr k q where a: "a = (opr, k, q)" by (cases a)
    note m = Some [unfolded a]
    have q: "length (ep_tokens q) < length (ep_tokens p)" by (rule matches_operator_shorter [OF m])
    show ?thesis
    proof (intro allI impI)
      fix n p' assume "parse_unary p = Inr (n, p')"
      then obtain e operand q' where e: "enter_depth q = Inr e" and r: "parse_unary e = Inr (operand, q')"
        and p': "p' = leave_depth q'"
        using 3(1) m by (auto simp: parse_unary.psimps bindE_Inr_iff)
      have "length (ep_tokens q') \<le> length (ep_tokens e)" using 3(3) [OF m refl refl e] r by blast
      then show "length (ep_tokens p') \<le> length (ep_tokens p)"
        using q enter_depth_tokens [OF e] by (simp add: p')
    qed
  qed
next
  case (4 p)
  show ?case
  proof (cases "tok_kind (current p) = TokenLeftParenthesis")
    case True
    show ?thesis
    proof (intro allI impI)
      fix n p' assume "parse_primary p = Inr (n, p')"
      then obtain e node q where e: "enter_depth (advance p) = Inr e" and r: "parse_level 6 e = Inr (node, q)"
        and p': "p' = advance (leave_depth q)"
        using 4(1) True by (auto simp: parse_primary.psimps bindE_Inr_iff Let_def split: if_splits)
      have "length (ep_tokens q) \<le> length (ep_tokens e)" using 4(2) [OF True e] r by blast
      then show "length (ep_tokens p') \<le> length (ep_tokens p)"
        using enter_depth_tokens [OF e] by (simp add: p')
    qed
  next
    case False
    then show ?thesis using 4(1)
      by (auto simp: parse_primary.psimps bindE_Inr_iff dest!: add_dependency_tokens split: token_kind.splits)
  qed
qed

termination parse_level
proof (relation "(\<lambda>x. case x of
      Inl (Inl (l, p)) \<Rightarrow> length (ep_tokens p)
    | Inl (Inr (l, left, p)) \<Rightarrow> length (ep_tokens p)
    | Inr (Inl p) \<Rightarrow> length (ep_tokens p)
    | Inr (Inr p) \<Rightarrow> length (ep_tokens p)) <*mlex*>
    measure (\<lambda>x. case x of
      Inl (Inl (l, p)) \<Rightarrow> l + 2 | Inl (Inr (l, left, p)) \<Rightarrow> 0 | Inr (Inl p) \<Rightarrow> 1 | Inr (Inr p) \<Rightarrow> 0)")
qed (auto simp: mlex_prod_def enter_after_match enter_after_paren matches_operator_shorter
    intro: less_trans [OF _ matches_operator_shorter]
    dest!: le_neq_implies_less [OF parse_shrinks(1) [rule_format]])

declare parse_level.simps [simp del] parse_loop.simps [simp del] parse_unary.simps [simp del]
  parse_primary.simps [simp del]

definition parse_tokens :: "expression_token list \<Rightarrow> expr_error + expression_node \<times> uuid list" where
  "parse_tokens tokens =
     bindE (parse_level 6 \<lparr>ep_tokens = tokens, ep_depth = 0, ep_dependencies = []\<rparr>) (\<lambda>(root, p).
       if tok_kind (current p) \<noteq> TokenEOF then Inl (ErrInvalidExpression (tok_position (current p)))
       else Inr (root, ep_dependencies p))"

text \<open>\<open>ParseExpression\<close>: the root of the tree and the dependencies.\<close>

definition parse_expression ::
  "(string \<Rightarrow> uuid option) \<Rightarrow> string \<Rightarrow> expr_error + expression_node \<times> uuid list" where
  "parse_expression parse_uuid raw =
     (if length raw = 0 then Inl ErrExpressionRequired
      else if length raw > max_expression_length then Inl ErrExpressionTooComplex
      else bindE (lex_expression parse_uuid raw) parse_tokens)"

definition validate_expression ::
  "(string \<Rightarrow> uuid option) \<Rightarrow> string \<Rightarrow> expr_error + uuid list" where
  "validate_expression parse_uuid raw = bindE (parse_expression parse_uuid raw) (\<lambda>(root, deps). Inr deps)"

section \<open>Well-formed trees\<close>

definition binary_level :: "string \<Rightarrow> nat" where
  "binary_level operator =
     (if operator = ''||'' then 6 else if operator = ''&&'' then 5
      else if operator \<in> set [''=='', ''!=''] then 4
      else if operator \<in> set [''<'', ''<='', ''>'', ''>=''] then 3
      else if operator \<in> set [''+'', ''-''] then 2
      else if operator \<in> set [''*'', ''/'', ''%''] then 1 else 0)"

definition literal_ok :: "gval \<Rightarrow> bool" where
  "literal_ok v = (case v of VBool b \<Rightarrow> True | VFloat64 x \<Rightarrow> fl_finite x \<and> fl_ok binary64 x | _ \<Rightarrow> False)"

primrec node_ok :: "expression_node \<Rightarrow> bool" where
  "node_ok (LiteralNode v) = literal_ok v"
| "node_ok (ReferenceNode r) = (r \<noteq> uuid_nil)"
| "node_ok (UnaryNode operator n) = (operator \<in> set unary_operators \<and> node_ok n)"
| "node_ok (BinaryNode operator l r) = (0 < binary_level operator \<and> node_ok l \<and> node_ok r)"

text \<open>The references of a tree, from left to right, and the dependencies they add.\<close>

primrec node_refs :: "expression_node \<Rightarrow> uuid list" where
  "node_refs (LiteralNode v) = []"
| "node_refs (ReferenceNode r) = [r]"
| "node_refs (UnaryNode operator n) = node_refs n"
| "node_refs (BinaryNode operator l r) = node_refs l @ node_refs r"

definition extend_refs :: "uuid list \<Rightarrow> uuid list \<Rightarrow> uuid list" where
  "extend_refs ds rs = foldl (\<lambda>ds r. if r \<in> set ds then ds else ds @ [r]) ds rs"

lemma extend_refs_simps [simp]:
  "extend_refs ds [] = ds"
  "extend_refs ds (r # rs) = extend_refs (if r \<in> set ds then ds else ds @ [r]) rs"
  by (simp_all add: extend_refs_def)

lemma extend_refs_append: "extend_refs ds (rs @ qs) = extend_refs (extend_refs ds rs) qs"
  by (simp add: extend_refs_def)

lemma extend_refs_length: "length ds \<le> length (extend_refs ds rs)"
proof (induction rs arbitrary: ds)
  case (Cons r rs)
  show ?case using Cons.IH [of ds] Cons.IH [of "ds @ [r]"] by simp
qed simp

lemma extend_refs_set: "set (extend_refs ds rs) = set ds \<union> set rs"
  by (induction rs arbitrary: ds) auto

lemma extend_refs_distinct: "distinct ds \<Longrightarrow> distinct (extend_refs ds rs)"
  by (induction rs arbitrary: ds) auto

text \<open>How deep the unary operators of a tree nest.\<close>

primrec unary_nesting :: "expression_node \<Rightarrow> nat" where
  "unary_nesting (LiteralNode v) = 0"
| "unary_nesting (ReferenceNode r) = 0"
| "unary_nesting (UnaryNode operator n) = Suc (unary_nesting n)"
| "unary_nesting (BinaryNode operator l r) = max (unary_nesting l) (unary_nesting r)"

section \<open>Printing\<close>

text \<open>
  The tokens of a tree with as few parentheses as the grammar needs at level \<open>l\<close>, and the
  nesting depth the parser reaches on them.
\<close>

definition literal_kind :: "gval \<Rightarrow> token_kind" where
  "literal_kind v = (case v of VFloat64 x \<Rightarrow> TokenNumber x | VBool b \<Rightarrow> if b then TokenTrue else TokenFalse
     | _ \<Rightarrow> TokenEOF)"

primrec print_node :: "expression_node \<Rightarrow> nat \<Rightarrow> token_kind list" where
  "print_node (LiteralNode v) l = [literal_kind v]"
| "print_node (ReferenceNode r) l = [TokenReference r]"
| "print_node (UnaryNode operator n) l = TokenOperator operator # print_node n 0"
| "print_node (BinaryNode operator a b) l =
     (let k = binary_level operator;
          body = print_node a k @ TokenOperator operator # print_node b (k - 1)
      in if k \<le> l then body else TokenLeftParenthesis # body @ [TokenRightParenthesis])"

primrec print_depth :: "expression_node \<Rightarrow> nat \<Rightarrow> nat" where
  "print_depth (LiteralNode v) l = 0"
| "print_depth (ReferenceNode r) l = 0"
| "print_depth (UnaryNode operator n) l = Suc (print_depth n 0)"
| "print_depth (BinaryNode operator a b) l =
     (let k = binary_level operator; d = max (print_depth a k) (print_depth b (k - 1))
      in if k \<le> l then d else Suc d)"

definition toks :: "token_kind list \<Rightarrow> expression_token list" where
  "toks ks = map (\<lambda>k. mk_token k 0) ks"

lemma toks_simps [simp]:
  "toks [] = []" "toks (k # ks) = mk_token k 0 # toks ks" "toks (ks @ js) = toks ks @ toks js"
  by (simp_all add: toks_def)

text \<open>The next token is not a binary operator of level at most \<open>k\<close>.\<close>

definition stops :: "nat \<Rightarrow> expression_token list \<Rightarrow> bool" where
  "stops k ts \<longleftrightarrow> (case ts of [] \<Rightarrow> True
     | t # us \<Rightarrow> (case tok_kind t of TokenOperator operator \<Rightarrow> k < binary_level operator \<or> binary_level operator = 0
                | _ \<Rightarrow> True))"

lemma stops_mono: "stops k ts \<Longrightarrow> j \<le> k \<Longrightarrow> stops j ts"
  by (auto simp: stops_def split: list.splits token_kind.splits)

lemma level_operators_iff: "1 \<le> l \<Longrightarrow> l \<le> 6 \<Longrightarrow> operator \<in> set (level_operators l) \<longleftrightarrow> binary_level operator = l"
proof -
  assume "1 \<le> l" "l \<le> 6"
  then have "l = 1 \<or> l = 2 \<or> l = 3 \<or> l = 4 \<or> l = 5 \<or> l = 6" by linarith
  then show ?thesis
    by (elim disjE) (auto simp: level_operators_def binary_level_def)
qed

lemma binary_level_le: "binary_level operator \<le> 6"
  by (simp add: binary_level_def)

lemma loop_stops:
  assumes "stops l (ep_tokens p)" and "1 \<le> l" and "l \<le> 6"
  shows "parse_loop l n p = Inr (n, p)"
proof -
  have "matches_operator (level_operators l) p = None"
    using assms level_operators_iff [OF assms(2,3)]
    by (auto simp: matches_operator_def current_def stops_def mk_token_def
        split: list.splits token_kind.splits)
  then show ?thesis by (simp add: parse_loop.simps)
qed

lemma level_climbs:
  assumes "parse_level k p = Inr (n, q)" and "k < l" and "l \<le> 6" and "stops (l - 1) (ep_tokens q)"
  shows "parse_level l p = parse_loop l n q"
  using assms(2-4)
proof (induction "l - k" arbitrary: l)
  case (Suc d)
  show ?case
  proof (cases "l - 1 = k")
    case True
    then show ?thesis using Suc.prems assms(1) by (simp add: parse_level.simps [of l])
  next
    case False
    have "parse_level (l - 1) p = parse_loop (l - 1) n q"
      using Suc False by (intro Suc.hyps(1)) (auto intro: stops_mono)
    also have "\<dots> = Inr (n, q)" using Suc.prems False by (intro loop_stops) auto
    finally show ?thesis using Suc.prems by (simp add: parse_level.simps [of l])
  qed
qed simp

definition after_node :: "expression_node \<Rightarrow> expression_token list \<Rightarrow> expression_parser \<Rightarrow> expression_parser" where
  "after_node n ts p = p\<lparr>ep_tokens := ts, ep_dependencies := extend_refs (ep_dependencies p) (node_refs n)\<rparr>"

lemma after_node_simps [simp]:
  "ep_tokens (after_node n ts p) = ts" "ep_depth (after_node n ts p) = ep_depth p"
  "ep_dependencies (after_node n ts p) = extend_refs (ep_dependencies p) (node_refs n)"
  by (simp_all add: after_node_def)

text \<open>The parser can read the tokens of \<open>n\<close>: the depth and the dependencies are in bounds.\<close>

definition fits :: "expression_node \<Rightarrow> nat \<Rightarrow> expression_parser \<Rightarrow> bool" where
  "fits n l p \<longleftrightarrow> ep_depth p + print_depth n l \<le> max_expression_depth \<and>
     length (extend_refs (ep_dependencies p) (node_refs n)) \<le> max_expression_dependencies"

definition reads :: "expression_node \<Rightarrow> bool" where
  "reads n \<longleftrightarrow> (\<forall>l p ts. l \<le> 6 \<longrightarrow> ep_tokens p = toks (print_node n l) @ ts \<longrightarrow> fits n l p \<longrightarrow>
     (l = 0 \<longrightarrow> parse_level 0 p = Inr (n, after_node n ts p)) \<and>
     (0 < l \<longrightarrow> stops (l - 1) ts \<longrightarrow> parse_level l p = parse_loop l n (after_node n ts p)))"

lemma readsD:
  assumes "reads n" and "l \<le> 6" and "ep_tokens p = toks (print_node n l) @ ts" and "fits n l p"
    and "stops l ts"
  shows "parse_level l p = Inr (n, after_node n ts p)"
proof (cases "l = 0")
  case True
  then show ?thesis using assms(1) [unfolded reads_def, rule_format, OF assms(2-4)] by simp
next
  case False
  have "parse_level l p = parse_loop l n (after_node n ts p)"
    using assms(1) [unfolded reads_def, rule_format, OF assms(2-4)] False
      stops_mono [OF assms(5), of "l - 1"] by simp
  also have "\<dots> = Inr (n, after_node n ts p)" using assms False by (intro loop_stops) auto
  finally show ?thesis .
qed

text \<open>A node whose printed form does not depend on the level is read by \<open>parseUnary\<close>.\<close>

lemma reads_atomI:
  assumes "\<And>l. print_node n l = print_node n 0" and "\<And>l. print_depth n l = print_depth n 0"
    and "\<And>p ts. ep_tokens p = toks (print_node n 0) @ ts \<Longrightarrow> fits n 0 p \<Longrightarrow>
      parse_unary p = Inr (n, after_node n ts p)"
  shows "reads n"
  unfolding reads_def
proof (intro allI impI)
  fix l p ts assume l: "l \<le> (6::nat)" and t: "ep_tokens p = toks (print_node n l) @ ts" and f: "fits n l p"
  from t f have "parse_unary p = Inr (n, after_node n ts p)"
    using assms(1) [of l] assms(2) [of l] by (intro assms(3)) (simp_all add: fits_def)
  then have unary: "parse_level 0 p = Inr (n, after_node n ts p)" by (simp add: parse_level.simps)
  then show "(l = 0 \<longrightarrow> parse_level 0 p = Inr (n, after_node n ts p)) \<and>
      (0 < l \<longrightarrow> stops (l - 1) ts \<longrightarrow> parse_level l p = parse_loop l n (after_node n ts p))"
    using level_climbs [OF unary _ l] by simp
qed

lemma no_unary_operator:
  "\<forall>operator. tok_kind (current p) \<noteq> TokenOperator operator \<Longrightarrow> parse_unary p = parse_primary p"
  by (auto simp: parse_unary.simps matches_operator_def split: token_kind.splits)

lemma current_Cons: "ep_tokens p = t # ts \<Longrightarrow> current p = t"
  by (simp add: current_def)

lemma reads_literal: "literal_ok v \<Longrightarrow> reads (LiteralNode v)"
proof (rule reads_atomI)
  fix p :: expression_parser and ts assume v: "literal_ok v" and t: "ep_tokens p = toks (print_node (LiteralNode v) 0) @ ts"
  have k: "tok_kind (current p) = literal_kind v" using t by (simp add: current_def mk_token_def)
  have "parse_primary p = Inr (LiteralNode v, advance p)"
    using v k by (auto simp: parse_primary.simps literal_kind_def literal_ok_def split: gval.splits if_splits)
  moreover have "parse_unary p = parse_primary p"
    using v k by (intro no_unary_operator) (auto simp: literal_kind_def literal_ok_def split: gval.splits if_splits)
  moreover have "advance p = after_node (LiteralNode v) ts p"
    using t by (simp add: advance_def after_node_def)
  ultimately show "parse_unary p = Inr (LiteralNode v, after_node (LiteralNode v) ts p)" by simp
qed simp_all

lemma reads_reference: "reads (ReferenceNode r)"
proof (rule reads_atomI)
  fix p :: expression_parser and ts assume t: "ep_tokens p = toks (print_node (ReferenceNode r) 0) @ ts" and f: "fits (ReferenceNode r) 0 p"
  have k: "tok_kind (current p) = TokenReference r" using t by (simp add: current_def mk_token_def)
  have "add_dependency r (advance p) = Inr (after_node (ReferenceNode r) ts p)"
    using t f by (auto simp: add_dependency_def advance_def after_node_def fits_def split: if_splits)
  then show "parse_unary p = Inr (ReferenceNode r, after_node (ReferenceNode r) ts p)"
    using k by (simp add: no_unary_operator parse_primary.simps)
qed simp_all

lemma reads_unary:
  assumes "reads n" and "operator \<in> set unary_operators"
  shows "reads (UnaryNode operator n)"
proof (rule reads_atomI)
  fix p :: expression_parser and ts assume t: "ep_tokens p = toks (print_node (UnaryNode operator n) 0) @ ts"
    and f: "fits (UnaryNode operator n) 0 p"
  define q where "q = (advance p)\<lparr>ep_depth := ep_depth p + 1\<rparr>"
  have m: "matches_operator unary_operators p = Some (operator, 0, advance p)"
    using t assms(2) by (simp add: matches_operator_def current_def mk_token_def)
  have e: "enter_depth (advance p) = Inr q"
    using f by (simp add: enter_depth_def q_def advance_def fits_def)
  have "parse_level 0 q = Inr (n, after_node n ts q)"
    using assms(1) t f by (auto simp: reads_def q_def fits_def advance_def)
  then have u: "parse_unary q = Inr (n, after_node n ts q)" by (simp add: parse_level.simps)
  have "leave_depth (after_node n ts q) = after_node (UnaryNode operator n) ts p"
    by (simp add: leave_depth_def after_node_def q_def advance_def)
  then show "parse_unary p = Inr (UnaryNode operator n, after_node (UnaryNode operator n) ts p)"
    using m e u by (simp add: parse_unary.simps [of p])
qed simp_all

text \<open>A binary node at its own level, and in parentheses.\<close>

lemma reads_binary_level:
  assumes a: "reads a" and b: "reads b" and k: "k = binary_level operator" "0 < k"
    and t: "ep_tokens p = toks (print_node (BinaryNode operator a b) k) @ ts"
    and f: "fits (BinaryNode operator a b) k p" and st: "stops (k - 1) ts"
  shows "parse_level k p = parse_loop k (BinaryNode operator a b) (after_node (BinaryNode operator a b) ts p)"
proof -
  have k6: "k \<le> 6" using binary_level_le k by simp
  define us where "us = mk_token (TokenOperator operator) 0 # toks (print_node b (k - 1)) @ ts"
  define p1 where "p1 = after_node a us p"
  define p2 where "p2 = advance p1"
  have ta: "ep_tokens p = toks (print_node a k) @ us"
    using t k by (simp add: us_def Let_def)
  have fa: "fits a k p"
    using f k extend_refs_length [of "extend_refs (ep_dependencies p) (node_refs a)" "node_refs b"]
    by (auto simp: fits_def extend_refs_append Let_def)
  have "stops (k - 1) us" using k by (simp add: stops_def us_def mk_token_def)
  then have la: "parse_level k p = parse_loop k a p1"
    using a ta fa k k6 by (simp add: reads_def p1_def)
  have m: "matches_operator (level_operators k) p1 = Some (operator, 0, p2)"
    using level_operators_iff [of k operator] k k6
    by (simp add: matches_operator_def current_def p1_def p2_def us_def mk_token_def)
  have "fits b (k - 1) p2" using f k
    by (auto simp: fits_def p2_def p1_def advance_def after_node_def extend_refs_append Let_def)
  then have "parse_level (k - 1) p2 = Inr (b, after_node b ts p2)"
    using b k6 st by (intro readsD) (auto simp: p2_def p1_def us_def)
  moreover have "after_node b ts p2 = after_node (BinaryNode operator a b) ts p"
    by (simp add: after_node_def p2_def p1_def advance_def extend_refs_append)
  ultimately show ?thesis using la m by (simp add: parse_loop.simps [of k a])
qed

lemma reads_binary:
  assumes a: "reads a" and b: "reads b" and k: "0 < binary_level operator"
  shows "reads (BinaryNode operator a b)" (is "reads ?n")
proof -
  define k where "k = binary_level operator"
  have k6: "k \<le> 6" and k0: "0 < k" using binary_level_le k by (simp_all add: k_def)
  have level: "parse_level l p = parse_loop l ?n (after_node ?n ts p)"
    if l: "l \<le> 6" "k \<le> l" and t: "ep_tokens p = toks (print_node ?n k) @ ts" and f: "fits ?n k p"
      and st: "stops (l - 1) ts" for l p ts
  proof -
    have at_k: "parse_level k p = parse_loop k ?n (after_node ?n ts p)"
      using t f stops_mono [OF st, of "k - 1"] l k0
      by (intro reads_binary_level [OF a b k_def]) auto
    show ?thesis
    proof (cases "k = l")
      case False
      then have "parse_loop k ?n (after_node ?n ts p) = Inr (?n, after_node ?n ts p)"
        using l k0 stops_mono [OF st, of k] by (intro loop_stops) auto
      with at_k show ?thesis using False l st by (intro level_climbs [of k]) auto
    qed (use at_k in simp)
  qed
  have paren: "parse_level 0 p = Inr (?n, after_node ?n ts p)"
    if l: "l < k" and t: "ep_tokens p = toks (print_node ?n l) @ ts" and f: "fits ?n l p" for l p ts
  proof -
    define us where "us = mk_token TokenRightParenthesis 0 # ts"
    define q where "q = (advance p)\<lparr>ep_depth := ep_depth p + 1\<rparr>"
    have kind: "tok_kind (current p) = TokenLeftParenthesis"
      using t l by (simp add: current_def mk_token_def k_def Let_def)
    have e: "enter_depth (advance p) = Inr q"
      using f l by (simp add: enter_depth_def q_def advance_def fits_def k_def Let_def)
    have tq: "ep_tokens q = toks (print_node ?n k) @ us"
      using t l by (simp add: q_def advance_def us_def k_def Let_def)
    have fq: "fits ?n k q" using f l by (simp add: fits_def q_def advance_def k_def Let_def)
    have "parse_level 6 q = parse_loop 6 ?n (after_node ?n us q)"
      using level [OF _ k6 tq fq] by (simp add: stops_def us_def mk_token_def)
    also have "\<dots> = Inr (?n, after_node ?n us q)"
      by (rule loop_stops) (simp_all add: stops_def us_def mk_token_def)
    finally have inner: "parse_level 6 q = Inr (?n, after_node ?n us q)" .
    have "advance (leave_depth (after_node ?n us q)) = after_node ?n ts p"
      by (simp add: advance_def leave_depth_def after_node_def us_def q_def)
    moreover have "tok_kind (current (leave_depth (after_node ?n us q))) = TokenRightParenthesis"
      by (simp add: current_def us_def mk_token_def)
    ultimately show ?thesis using kind e inner
      by (simp add: parse_level.simps [of 0] no_unary_operator parse_primary.simps Let_def)
  qed
  have same: "k \<le> l \<Longrightarrow> print_node ?n l = print_node ?n k \<and> print_depth ?n l = print_depth ?n k" for l
    by (simp add: k_def Let_def)
  show ?thesis unfolding reads_def
  proof (intro allI impI)
    fix l p ts assume l: "l \<le> (6::nat)" and t: "ep_tokens p = toks (print_node ?n l) @ ts" and f: "fits ?n l p"
    show "(l = 0 \<longrightarrow> parse_level 0 p = Inr (?n, after_node ?n ts p)) \<and>
        (0 < l \<longrightarrow> stops (l - 1) ts \<longrightarrow> parse_level l p = parse_loop l ?n (after_node ?n ts p))"
    proof (cases "k \<le> l")
      case True
      then show ?thesis using level [OF l True] t f same [OF True] k0 by (simp add: fits_def)
    next
      case False
      then show ?thesis using paren [OF _ t f] level_climbs [OF paren [OF _ t f] _ l] by simp
    qed
  qed
qed

lemma reads_ok: "node_ok n \<Longrightarrow> reads n"
  by (induction n) (simp_all add: reads_literal reads_reference reads_unary reads_binary)

text \<open>
  C9: the parser accepts what the grammar prints. For every well-formed tree whose printed
  form, with the fewest parentheses the precedences and the left associativity allow, nests at
  most 32 deep and refers to at most 32 tags, parsing that form gives back the tree and its
  references in the order of their first occurrence.
\<close>

theorem parse_print_roundtrip:
  assumes "node_ok n" and "print_depth n 6 \<le> max_expression_depth"
    and "length (extend_refs [] (node_refs n)) \<le> max_expression_dependencies"
  shows "parse_tokens (toks (print_node n 6) @ [mk_token TokenEOF e]) =
    Inr (n, extend_refs [] (node_refs n))"
proof -
  let ?p = "\<lparr>ep_tokens = toks (print_node n 6) @ [mk_token TokenEOF e], ep_depth = 0, ep_dependencies = []\<rparr>"
  have "parse_level 6 ?p = Inr (n, after_node n [mk_token TokenEOF e] ?p)"
    using assms by (intro readsD reads_ok) (simp_all add: fits_def stops_def mk_token_def)
  then show ?thesis by (simp add: parse_tokens_def current_def mk_token_def)
qed

theorem parse_print_roundtrip_witness:
  "parse_tokens (toks [TokenLeftParenthesis, TokenReference 5, TokenOperator ''+'', TokenReference 6,
       TokenRightParenthesis, TokenOperator ''*'', TokenReference 5] @ [mk_token TokenEOF 9]) =
   Inr (BinaryNode ''*'' (BinaryNode ''+'' (ReferenceNode 5) (ReferenceNode 6)) (ReferenceNode 5), [5, 6])"
proof -
  let ?n = "BinaryNode ''*'' (BinaryNode ''+'' (ReferenceNode 5) (ReferenceNode 6)) (ReferenceNode 5)"
  have "node_ok ?n" by (simp add: binary_level_def)
  moreover have "print_depth ?n 6 \<le> max_expression_depth"
    by (simp add: binary_level_def expression_limits Let_def)
  moreover have "length (extend_refs [] (node_refs ?n)) \<le> max_expression_dependencies"
    by (simp add: expression_limits)
  ultimately have "parse_tokens (toks (print_node ?n 6) @ [mk_token TokenEOF 9]) =
      Inr (?n, extend_refs [] (node_refs ?n))" by (rule parse_print_roundtrip)
  moreover have "print_node ?n 6 = [TokenLeftParenthesis, TokenReference 5, TokenOperator ''+'',
      TokenReference 6, TokenRightParenthesis, TokenOperator ''*'', TokenReference 5]"
    by (simp add: binary_level_def Let_def)
  ultimately show ?thesis by simp
qed

section \<open>What a parsed tree satisfies\<close>

definition kinds_ok :: "expression_parser \<Rightarrow> bool" where
  "kinds_ok p \<longleftrightarrow> (\<forall>t \<in> set (ep_tokens p). tok_kind t = TokenEOF \<or> kind_ok (tok_kind t))"

definition parse_sound :: "expression_parser \<Rightarrow> uuid list \<Rightarrow> expression_parser \<Rightarrow> bool" where
  "parse_sound p refs p' \<longleftrightarrow> kinds_ok p' \<and> ep_depth p' = ep_depth p \<and>
     ep_dependencies p' = extend_refs (ep_dependencies p) refs \<and>
     (length (ep_dependencies p) \<le> max_expression_dependencies \<longrightarrow>
        length (ep_dependencies p') \<le> max_expression_dependencies)"

definition nests :: "expression_parser \<Rightarrow> expression_node \<Rightarrow> bool" where
  "nests p n \<longleftrightarrow> ep_depth p + unary_nesting n \<le> max max_expression_depth (ep_depth p)"

lemma kinds_ok_advance [simp]: "kinds_ok p \<Longrightarrow> kinds_ok (advance p)"
  by (cases "ep_tokens p") (auto simp: kinds_ok_def advance_def)

lemma matches_operator_sound:
  "kinds_ok p \<Longrightarrow> matches_operator ops p = Some (opr, k, q) \<Longrightarrow>
   kinds_ok q \<and> ep_depth q = ep_depth p \<and> ep_dependencies q = ep_dependencies p \<and> opr \<in> set ops"
proof -
  assume k: "kinds_ok p" and m: "matches_operator ops p = Some (opr, k, q)"
  then have "q = advance p" "opr \<in> set ops"
    by (auto simp: matches_operator_def split: token_kind.splits if_splits)
  then show ?thesis using kinds_ok_advance [OF k] by (simp add: advance_def)
qed

lemma enter_depth_sound:
  "enter_depth q = Inr e \<Longrightarrow> kinds_ok e = kinds_ok q \<and> ep_depth e = ep_depth q + 1 \<and>
   ep_depth e \<le> max_expression_depth \<and> ep_dependencies e = ep_dependencies q"
  by (auto simp: enter_depth_def kinds_ok_def split: if_splits)

lemma add_dependency_sound:
  "kinds_ok p \<Longrightarrow> add_dependency r p = Inr q \<Longrightarrow> parse_sound p [r] q"
  by (auto simp: add_dependency_def parse_sound_def kinds_ok_def split: if_splits)

lemma parse_sound_trans:
  "parse_sound p rs q \<Longrightarrow> parse_sound q ss r \<Longrightarrow> parse_sound p (rs @ ss) r"
  by (auto simp: parse_sound_def extend_refs_append)

lemma level_operator_ok: "operator \<in> set (level_operators l) \<Longrightarrow> 0 < binary_level operator"
  by (auto simp: level_operators_def binary_level_def split: if_splits)

lemma current_kind: "kinds_ok p \<Longrightarrow> tok_kind (current p) = TokenEOF \<or> kind_ok (tok_kind (current p))"
  by (cases "ep_tokens p") (auto simp: kinds_ok_def current_def mk_token_def)

lemma parse_sound_advance: "kinds_ok p \<Longrightarrow> parse_sound p [] (advance p)"
  using kinds_ok_advance [of p] by (auto simp: parse_sound_def advance_def)

lemma parse_sound_all:
  "kinds_ok p \<longrightarrow> (\<forall>n p'. parse_level l p = Inr (n, p') \<longrightarrow>
     node_ok n \<and> parse_sound p (node_refs n) p' \<and> nests p n)"
  "kinds_ok p \<longrightarrow> (\<forall>n p'. node_ok left \<longrightarrow> nests p left \<longrightarrow> parse_loop l left p = Inr (n, p') \<longrightarrow>
     node_ok n \<and> nests p n \<and> (\<exists>rs. node_refs n = node_refs left @ rs \<and> parse_sound p rs p'))"
  "kinds_ok p \<longrightarrow> (\<forall>n p'. parse_unary p = Inr (n, p') \<longrightarrow>
     node_ok n \<and> parse_sound p (node_refs n) p' \<and> nests p n)"
  "kinds_ok p \<longrightarrow> (\<forall>n p'. parse_primary p = Inr (n, p') \<longrightarrow>
     node_ok n \<and> parse_sound p (node_refs n) p' \<and> nests p n)"
proof (induction l p and l left p and p and p rule: parse_level_parse_loop_parse_unary_parse_primary.induct)
  case (1 l p)
  show ?case
  proof (intro impI allI)
    fix n p' assume k: "kinds_ok p" and r: "parse_level l p = Inr (n, p')"
    show "node_ok n \<and> parse_sound p (node_refs n) p' \<and> nests p n"
    proof (cases "l = 0")
      case True
      then have "parse_unary p = Inr (n, p')" using r by (simp add: parse_level.simps [of 0 p])
      then show ?thesis using 1(1) [OF True] k by blast
    next
      case False
      then obtain left q where a: "parse_level (l - 1) p = Inr (left, q)"
        and b: "parse_loop l left q = Inr (n, p')"
        using r by (auto simp: parse_level.simps [of l] bindE_Inr_iff)
      have left: "node_ok left" "parse_sound p (node_refs left) q" "nests p left"
        using 1(2) [OF False] k a by blast+
      then have q: "kinds_ok q" "ep_depth q = ep_depth p" by (simp_all add: parse_sound_def)
      then have "nests q left" using left by (simp add: nests_def)
      then obtain rs where "node_ok n" "nests q n" "node_refs n = node_refs left @ rs" "parse_sound q rs p'"
        using 1(3) [OF False a refl] q left(1) b by blast
      then show ?thesis using parse_sound_trans [OF left(2)] q(2) by (simp add: nests_def)
    qed
  qed
next
  case (2 l left p)
  show ?case
  proof (intro impI allI)
    fix n p' assume k: "kinds_ok p" and left: "node_ok left" "nests p left"
      and r: "parse_loop l left p = Inr (n, p')"
    show "node_ok n \<and> nests p n \<and> (\<exists>rs. node_refs n = node_refs left @ rs \<and> parse_sound p rs p')"
    proof (cases "matches_operator (level_operators l) p")
      case None
      then show ?thesis using k left r by (auto simp: parse_loop.simps [of l] parse_sound_def)
    next
      case (Some a)
      obtain opr j q where a: "a = (opr, j, q)" by (cases a)
      note m = Some [unfolded a] and ms = matches_operator_sound [OF k Some [unfolded a]]
      from r m obtain right q' where b: "parse_level (l - 1) q = Inr (right, q')"
        and c: "parse_loop l (BinaryNode opr left right) q' = Inr (n, p')"
        by (auto simp: parse_loop.simps [of l left] bindE_Inr_iff)
      have right: "node_ok right" "parse_sound q (node_refs right) q'" "nests q right"
        using 2(1) [OF m refl refl] ms b by blast+
      have q': "kinds_ok q'" "ep_depth q' = ep_depth p" using right(2) ms by (simp_all add: parse_sound_def)
      have "node_ok (BinaryNode opr left right)" using left right ms by (auto intro: level_operator_ok)
      moreover have "nests q' (BinaryNode opr left right)"
        using left(2) right(3) q' ms by (simp add: nests_def)
      ultimately obtain rs where n: "node_ok n" "nests q' n" and
        refs: "node_refs n = node_refs (BinaryNode opr left right) @ rs" and rs: "parse_sound q' rs p'"
        using 2(2) [OF m refl refl b refl] q'(1) c by blast
      have "parse_sound p (node_refs right) q'" using right(2) ms unfolding parse_sound_def by metis
      from parse_sound_trans [OF this rs] show ?thesis using n refs q' by (auto simp: nests_def)
    qed
  qed
next
  case (3 p)
  show ?case
  proof (intro impI allI)
    fix n p' assume k: "kinds_ok p" and r: "parse_unary p = Inr (n, p')"
    show "node_ok n \<and> parse_sound p (node_refs n) p' \<and> nests p n"
    proof (cases "matches_operator unary_operators p")
      case None
      then have "parse_primary p = Inr (n, p')" using r by (simp add: parse_unary.simps [of p])
      then show ?thesis using 3(1) [OF None] k by blast
    next
      case (Some a)
      obtain opr j q where a: "a = (opr, j, q)" by (cases a)
      note m = Some [unfolded a] and ms = matches_operator_sound [OF k Some [unfolded a]]
      from r m obtain e operand q' where e: "enter_depth q = Inr e" and b: "parse_unary e = Inr (operand, q')"
        and n: "n = UnaryNode opr operand" "p' = leave_depth q'"
        by (auto simp: parse_unary.simps [of p] bindE_Inr_iff)
      note es = enter_depth_sound [OF e]
      have "node_ok operand" "parse_sound e (node_refs operand) q'" "nests e operand"
        using 3(2) [OF m refl refl e] ms es b by blast+
      then show ?thesis using ms es
        by (auto simp: n nests_def parse_sound_def leave_depth_def kinds_ok_def)
    qed
  qed
next
  case (4 p)
  show ?case
  proof (intro impI allI)
    fix n p' assume k: "kinds_ok p" and r: "parse_primary p = Inr (n, p')"
    show "node_ok n \<and> parse_sound p (node_refs n) p' \<and> nests p n"
    proof (cases "tok_kind (current p) = TokenLeftParenthesis")
      case True
      from r True obtain e q where e: "enter_depth (advance p) = Inr e" and b: "parse_level 6 e = Inr (n, q)"
        and p': "p' = advance (leave_depth q)"
        by (auto simp: parse_primary.simps [of p] bindE_Inr_iff Let_def split: if_splits)
      note es = enter_depth_sound [OF e]
      have s: "node_ok n" "parse_sound e (node_refs n) q" "nests e n"
        using 4 [OF True e] es k b by auto
      have "kinds_ok (leave_depth q)" using s(2) by (simp add: parse_sound_def leave_depth_def kinds_ok_def)
      from kinds_ok_advance [OF this] show ?thesis using s es
        by (auto simp: p' nests_def parse_sound_def leave_depth_def advance_def)
    next
      case False
      have kind: "tok_kind (current p) = TokenEOF \<or> kind_ok (tok_kind (current p))"
        by (rule current_kind [OF k])
      show ?thesis using False r kind parse_sound_advance [OF k] add_dependency_sound [of "advance p"] k
        by (auto simp: parse_primary.simps [of p] bindE_Inr_iff kind_ok_def literal_ok_def nests_def
            parse_sound_def advance_def split: token_kind.splits)
    qed
  qed
qed

section \<open>How deep the text nests\<close>

text \<open>
  A scan of the tokens, apart from the parser. A unary operator (one where an operand is due) holds
  until its operand is complete, a parenthesis until it is closed: the depth is the number of
  both that hold. \<open>sc_outer\<close> has, for each open parenthesis, the depth at which its operand ends.
\<close>

record nesting_scan =
  sc_operand_due :: bool
  sc_outer :: "nat list"
  sc_base :: nat
  sc_depth :: nat
  sc_deepest :: nat

definition scan_kind :: "token_kind \<Rightarrow> nesting_scan \<Rightarrow> nesting_scan" where
  "scan_kind k s =
     (if sc_operand_due s
      then (case k of
          TokenOperator text \<Rightarrow>
            s\<lparr>sc_depth := sc_depth s + 1, sc_deepest := max (sc_deepest s) (sc_depth s + 1)\<rparr>
        | TokenLeftParenthesis \<Rightarrow>
            s\<lparr>sc_outer := sc_base s # sc_outer s, sc_base := sc_depth s + 1, sc_depth := sc_depth s + 1,
              sc_deepest := max (sc_deepest s) (sc_depth s + 1)\<rparr>
        | _ \<Rightarrow> s\<lparr>sc_operand_due := False, sc_depth := sc_base s\<rparr>)
      else (case k of
          TokenRightParenthesis \<Rightarrow>
            s\<lparr>sc_outer := tl (sc_outer s), sc_base := hd (sc_outer s), sc_depth := hd (sc_outer s)\<rparr>
        | _ \<Rightarrow> s\<lparr>sc_operand_due := True\<rparr>))"

definition nesting_depth :: "token_kind list \<Rightarrow> nat" where
  "nesting_depth ks = sc_deepest (fold scan_kind (takeWhile (\<lambda>k. k \<noteq> TokenEOF) ks)
     \<lparr>sc_operand_due = True, sc_outer = [], sc_base = 0, sc_depth = 0, sc_deepest = 0\<rparr>)"

definition scan_at :: "bool \<Rightarrow> nat list \<Rightarrow> nat \<Rightarrow> nat \<Rightarrow> nat \<Rightarrow> nesting_scan" where
  "scan_at due outer base depth deepest =
     \<lparr>sc_operand_due = due, sc_outer = outer, sc_base = base, sc_depth = depth, sc_deepest = deepest\<rparr>"

lemma scan_kind_at:
  "scan_kind (TokenOperator opr) (scan_at True outer b d m) = scan_at True outer b (d + 1) (max m (d + 1))"
  "scan_kind TokenLeftParenthesis (scan_at True outer b d m) = scan_at True (b # outer) (d + 1) (d + 1) (max m (d + 1))"
  "k \<noteq> TokenLeftParenthesis \<Longrightarrow> (\<And>t. k \<noteq> TokenOperator t) \<Longrightarrow> scan_kind k (scan_at True outer b d m) = scan_at False outer b b m"
  "scan_kind (TokenOperator opr) (scan_at False outer b d m) = scan_at True outer b d m"
  "scan_kind TokenRightParenthesis (scan_at False (b # outer) c d m) = scan_at False outer b b m"
  by (simp_all add: scan_kind_def scan_at_def split: token_kind.split)

text \<open>
  A stretch of tokens the parser may read at depth \<open>d\<close>: a scan ends at the base with the same
  parentheses open and never goes deeper than the parser allows.
\<close>

definition walks :: "bool \<Rightarrow> nat \<Rightarrow> nat \<Rightarrow> token_kind list \<Rightarrow> bool" where
  "walks due b d ks \<longleftrightarrow> TokenEOF \<notin> set ks \<and>
     (\<forall>outer m. m \<le> max_expression_depth \<longrightarrow> (\<exists>m' \<le> max_expression_depth.
        fold scan_kind ks (scan_at due outer b d m) = scan_at False outer b b m'))"

lemma walks_Nil: "walks False b b []"
  by (auto simp: walks_def)

lemma walks_append: "walks due b d ks \<Longrightarrow> walks False b b js \<Longrightarrow> walks due b d (ks @ js)"
  unfolding walks_def by simp metis

lemma walks_step:
  assumes "walks due' b' d' ks" and "k \<noteq> TokenEOF"
    and "\<And>outer m. m \<le> max_expression_depth \<Longrightarrow>
       \<exists>m' \<le> max_expression_depth. scan_kind k (scan_at due outer b d m) = scan_at due' outer b d' m'" and "b' = b"
  shows "walks due b d (k # ks)"
  using assms unfolding walks_def by simp metis

lemma walks_atom:
  assumes "k \<noteq> TokenLeftParenthesis" and "\<And>t. k \<noteq> TokenOperator t" and "k \<noteq> TokenEOF"
  shows "walks True b d [k]"
  by (rule walks_step [OF walks_Nil assms(3)]) (use assms in \<open>auto simp: scan_kind_at\<close>)

lemma walks_unary: "walks True b (d + 1) ks \<Longrightarrow> d + 1 \<le> max_expression_depth \<Longrightarrow> walks True b d (TokenOperator t # ks)"
proof (erule walks_step)
  fix outer m assume "d + 1 \<le> max_expression_depth" and "m \<le> max_expression_depth"
  then show "\<exists>m' \<le> max_expression_depth. scan_kind (TokenOperator t) (scan_at True outer b d m) = scan_at True outer b (d + 1) m'"
    by (intro exI [of _ "max m (d + 1)"]) (simp add: scan_kind_at)
qed simp_all

lemma walks_binary: "walks True b b ks \<Longrightarrow> walks False b b (TokenOperator t # ks)"
  by (erule walks_step) (auto simp: scan_kind_at)

lemma walks_paren:
  assumes "walks True (d + 1) (d + 1) ks" and "d + 1 \<le> max_expression_depth"
  shows "walks True b d (TokenLeftParenthesis # ks @ [TokenRightParenthesis])"
  unfolding walks_def
proof (intro conjI allI impI)
  fix outer m assume "m \<le> max_expression_depth"
  with assms(2) have "max m (d + 1) \<le> max_expression_depth" by simp
  then obtain m' where "m' \<le> max_expression_depth"
    "fold scan_kind ks (scan_at True (b # outer) (d + 1) (d + 1) (max m (d + 1))) = scan_at False (b # outer) (d + 1) (d + 1) m'"
    using assms(1) unfolding walks_def by blast
  then show "\<exists>m' \<le> max_expression_depth. fold scan_kind (TokenLeftParenthesis # ks @ [TokenRightParenthesis])
      (scan_at True outer b d m) = scan_at False outer b b m'"
    by (auto simp: scan_kind_at)
qed (use assms(1) in \<open>simp add: walks_def\<close>)

definition consumes :: "expression_parser \<Rightarrow> token_kind list \<Rightarrow> expression_parser \<Rightarrow> bool" where
  "consumes p ks p' \<longleftrightarrow> ep_depth p' = ep_depth p \<and> map tok_kind (ep_tokens p) = ks @ map tok_kind (ep_tokens p')"

lemma consumes_trans: "consumes p ks q \<Longrightarrow> consumes q js r \<Longrightarrow> consumes p (ks @ js) r"
  by (simp add: consumes_def)

lemma consumes_advance: "tok_kind (current p) \<noteq> TokenEOF \<Longrightarrow> consumes p [tok_kind (current p)] (advance p)"
  using current_nonempty [of p] by (cases "ep_tokens p") (auto simp: consumes_def advance_def current_def)

lemma consumes_matched:
  "matches_operator ops p = Some (opr, k, q) \<Longrightarrow> consumes p [TokenOperator opr] q"
  using consumes_advance [of p] by (auto simp: matches_operator_def split: token_kind.splits if_splits)

lemma enter_depth_view:
  "enter_depth q = Inr e \<Longrightarrow> ep_tokens e = ep_tokens q \<and> ep_depth e = ep_depth q + 1 \<and> ep_depth q + 1 \<le> max_expression_depth"
  by (auto simp: enter_depth_def split: if_splits)

text \<open>A stretch read one level deeper.\<close>

lemma consumes_entered:
  assumes "consumes p js q" and "enter_depth q = Inr e" and "consumes e ks r"
  shows "consumes p (js @ ks) (leave_depth r) \<and> ep_depth e = ep_depth p + 1 \<and> ep_depth p + 1 \<le> max_expression_depth"
  using assms(1,3) enter_depth_view [OF assms(2)] by (simp add: consumes_def leave_depth_def)

lemma add_dependency_view: "add_dependency r p = Inr q \<Longrightarrow> ep_tokens q = ep_tokens p \<and> ep_depth q = ep_depth p"
  by (auto simp: add_dependency_def split: if_splits)

lemma parse_walks:
  "\<forall>n p'. parse_level l p = Inr (n, p') \<longrightarrow> (\<exists>ks. consumes p ks p' \<and> walks True (ep_depth p) (ep_depth p) ks)"
  "\<forall>n p'. parse_loop l left p = Inr (n, p') \<longrightarrow> (\<exists>ks. consumes p ks p' \<and> walks False (ep_depth p) (ep_depth p) ks)"
  "\<forall>n p'. parse_unary p = Inr (n, p') \<longrightarrow> (\<exists>ks. consumes p ks p' \<and> (\<forall>b. walks True b (ep_depth p) ks))"
  "\<forall>n p'. parse_primary p = Inr (n, p') \<longrightarrow> (\<exists>ks. consumes p ks p' \<and> (\<forall>b. walks True b (ep_depth p) ks))"
proof (induction l p and l left p and p and p rule: parse_level_parse_loop_parse_unary_parse_primary.induct)
  case (1 l p)
  show ?case
  proof (intro allI impI)
    fix n p' assume r: "parse_level l p = Inr (n, p')"
    show "\<exists>ks. consumes p ks p' \<and> walks True (ep_depth p) (ep_depth p) ks"
    proof (cases "l = 0")
      case True
      then have "parse_unary p = Inr (n, p')" using r by (simp add: parse_level.simps [of 0 p])
      then show ?thesis using 1(1) [OF True] by blast
    next
      case False
      then obtain left q where a: "parse_level (l - 1) p = Inr (left, q)" and b: "parse_loop l left q = Inr (n, p')"
        using r by (auto simp: parse_level.simps [of l] bindE_Inr_iff)
      obtain ks where ks: "consumes p ks q" "walks True (ep_depth p) (ep_depth p) ks" using 1(2) [OF False] a by blast
      obtain js where js: "consumes q js p'" "walks False (ep_depth q) (ep_depth q) js" using 1(3) [OF False a refl] b by blast
      have "ep_depth q = ep_depth p" using ks(1) by (simp add: consumes_def)
      then show ?thesis using consumes_trans [OF ks(1) js(1)] walks_append [OF ks(2)] js(2) by auto
    qed
  qed
next
  case (2 l left p)
  show ?case
  proof (intro allI impI)
    fix n p' assume r: "parse_loop l left p = Inr (n, p')"
    show "\<exists>ks. consumes p ks p' \<and> walks False (ep_depth p) (ep_depth p) ks"
    proof (cases "matches_operator (level_operators l) p")
      case None
      then have "consumes p [] p'" using r by (simp add: parse_loop.simps [of l] consumes_def)
      then show ?thesis using walks_Nil by blast
    next
      case (Some a)
      obtain opr j q where a: "a = (opr, j, q)" by (cases a)
      note m = Some [unfolded a]
      from r m obtain right q' where b: "parse_level (l - 1) q = Inr (right, q')"
        and c: "parse_loop l (BinaryNode opr left right) q' = Inr (n, p')"
        by (auto simp: parse_loop.simps [of l left] bindE_Inr_iff)
      obtain ks where ks: "consumes q ks q'" "walks True (ep_depth q) (ep_depth q) ks"
        using 2(1) [OF m refl refl] b by blast
      obtain js where js: "consumes q' js p'" "walks False (ep_depth q') (ep_depth q') js"
        using 2(2) [OF m refl refl b refl] c by blast
      have o1: "consumes p [TokenOperator opr] q" by (rule consumes_matched [OF m])
      then have d: "ep_depth q = ep_depth p" "ep_depth q' = ep_depth p" using ks(1) by (simp_all add: consumes_def)
      have "consumes p (([TokenOperator opr] @ ks) @ js) p'"
        by (rule consumes_trans [OF consumes_trans [OF o1 ks(1)] js(1)])
      moreover have "walks False (ep_depth p) (ep_depth p) ((TokenOperator opr # ks) @ js)"
        using ks(2) js(2) unfolding d by (intro walks_append walks_binary)
      ultimately show ?thesis by auto
    qed
  qed
next
  case (3 p)
  show ?case
  proof (intro allI impI)
    fix n p' assume r: "parse_unary p = Inr (n, p')"
    show "\<exists>ks. consumes p ks p' \<and> (\<forall>b. walks True b (ep_depth p) ks)"
    proof (cases "matches_operator unary_operators p")
      case None
      then have "parse_primary p = Inr (n, p')" using r by (simp add: parse_unary.simps [of p])
      then show ?thesis using 3(1) [OF None] by blast
    next
      case (Some a)
      obtain opr j q where a: "a = (opr, j, q)" by (cases a)
      note m = Some [unfolded a]
      from r m obtain e operand q' where e: "enter_depth q = Inr e" and b: "parse_unary e = Inr (operand, q')"
        and p': "p' = leave_depth q'"
        by (auto simp: parse_unary.simps [of p] bindE_Inr_iff)
      obtain ks where ks: "consumes e ks q'" "\<forall>b. walks True b (ep_depth e) ks"
        using 3(2) [OF m refl refl e] b by blast
      note c = consumes_entered [OF consumes_matched [OF m] e ks(1)]
      then have "\<forall>b. walks True b (ep_depth p) (TokenOperator opr # ks)" using ks(2) walks_unary by auto
      then show ?thesis using c p' by auto
    qed
  qed
next
  case (4 p)
  show ?case
  proof (intro allI impI)
    fix n p' assume r: "parse_primary p = Inr (n, p')"
    show "\<exists>ks. consumes p ks p' \<and> (\<forall>b. walks True b (ep_depth p) ks)"
    proof (cases "tok_kind (current p) = TokenLeftParenthesis")
      case True
      from r True obtain e q where e: "enter_depth (advance p) = Inr e" and b: "parse_level 6 e = Inr (n, q)"
        and p': "p' = advance (leave_depth q)" and close: "tok_kind (current (leave_depth q)) = TokenRightParenthesis"
        by (auto simp: parse_primary.simps [of p] bindE_Inr_iff Let_def split: if_splits)
      obtain ks where ks: "consumes e ks q" "walks True (ep_depth e) (ep_depth e) ks" using 4 [OF True e] b by blast
      have o1: "consumes p [TokenLeftParenthesis] (advance p)" using consumes_advance [of p] True by simp
      note c = consumes_entered [OF o1 e ks(1)]
      have "consumes p (([TokenLeftParenthesis] @ ks) @ [TokenRightParenthesis]) p'"
        using consumes_trans [OF conjunct1 [OF c] consumes_advance [of "leave_depth q"]] close p' by simp
      moreover have "walks True b' (ep_depth p) (TokenLeftParenthesis # ks @ [TokenRightParenthesis])" for b'
        using c ks(2) by (intro walks_paren) auto
      ultimately show ?thesis by auto
    next
      case False
      define k where "k = tok_kind (current p)"
      have atom: "\<And>t. k \<noteq> TokenOperator t" "k \<noteq> TokenEOF"
        using r False by (auto simp: parse_primary.simps [of p] k_def)
      have "ep_tokens p' = ep_tokens (advance p) \<and> ep_depth p' = ep_depth (advance p)"
        using r False by (auto simp: parse_primary.simps [of p] bindE_Inr_iff dest!: add_dependency_view split: token_kind.splits)
      then have "consumes p [k] p'" using consumes_advance [of p] atom(2) by (simp add: consumes_def k_def)
      moreover have "walks True b' (ep_depth p) [k]" for b' using False atom by (intro walks_atom) (auto simp: k_def)
      ultimately show ?thesis by blast
    qed
  qed
qed

lemma walks_nesting_depth:
  assumes "walks True 0 0 ks" and "rest = [] \<or> hd rest = TokenEOF"
  shows "nesting_depth (ks @ rest) \<le> max_expression_depth"
proof -
  have "takeWhile (\<lambda>k. k \<noteq> TokenEOF) (ks @ rest) = ks"
    using assms by (cases rest) (auto simp: walks_def takeWhile_append takeWhile_eq_all_conv)
  moreover obtain m' where "m' \<le> max_expression_depth"
    "fold scan_kind ks (scan_at True [] 0 0 0) = scan_at False [] 0 0 m'"
    using assms(1) unfolding walks_def by blast
  ultimately show ?thesis by (simp add: nesting_depth_def flip: scan_at_def) (simp add: scan_at_def)
qed

text \<open>
  C10: what \<open>ParseExpression\<close> returns. For every text it accepts the tree is well formed
  (operators of the grammar, finite literals, no nil reference), the tokens of the text nest at
  most 32 deep, unary operators and parentheses together, as a scan apart from the parser counts
  them, and the dependency list is exactly the tree's references in the order of their first
  occurrence: distinct, and at most 32.
\<close>

theorem parse_expression_sound:
  assumes "parse_expression parse_uuid raw = Inr (tree, deps)"
  shows "node_ok tree \<and> unary_nesting tree \<le> max_expression_depth \<and>
    (\<exists>tokens. lex_expression parse_uuid raw = Inr tokens \<and> nesting_depth (map tok_kind tokens) \<le> max_expression_depth) \<and>
    deps = extend_refs [] (node_refs tree) \<and> set deps = set (node_refs tree) \<and> distinct deps \<and>
    length deps \<le> max_expression_dependencies \<and> length raw \<le> max_expression_length"
proof -
  from assms obtain tokens p where lex: "lex_expression parse_uuid raw = Inr tokens"
    and parse: "parse_level 6 \<lparr>ep_tokens = tokens, ep_depth = 0, ep_dependencies = []\<rparr> = Inr (tree, p)"
    and deps: "deps = ep_dependencies p" and len: "length raw \<le> max_expression_length"
    and ended: "tok_kind (current p) = TokenEOF"
    by (auto simp: parse_expression_def parse_tokens_def bindE_Inr_iff split: if_splits)
  let ?p = "\<lparr>ep_tokens = tokens, ep_depth = 0, ep_dependencies = []\<rparr>"
  have "kinds_ok ?p"
    using lex_loop_ok [of 0 "[]" parse_uuid raw tokens] lex
    by (auto simp: lex_expression_def tokens_ok_def kinds_ok_def mk_token_def)
  then have "node_ok tree" "parse_sound ?p (node_refs tree) p" "nests ?p tree"
    using parse_sound_all(1) [of ?p 6] parse by blast+
  moreover obtain ks where "consumes ?p ks p" "walks True 0 0 ks"
    using parse_walks(1) [of 6 ?p] parse by auto
  then have "nesting_depth (map tok_kind tokens) \<le> max_expression_depth"
    using walks_nesting_depth [of ks "map tok_kind (ep_tokens p)"] ended
    by (cases "ep_tokens p") (auto simp: consumes_def current_def)
  ultimately show ?thesis using len lex extend_refs_set [of "[]"] extend_refs_distinct [of "[]"]
    by (auto simp: parse_sound_def nests_def deps expression_limits)
qed

text \<open>The scan counts what it should.\<close>

lemma nesting_depth_examples:
  "nesting_depth [TokenOperator ''-'', TokenLeftParenthesis, TokenTrue, TokenOperator ''-'', TokenOperator ''!'', TokenFalse,
     TokenRightParenthesis, TokenOperator ''+'', TokenTrue, TokenEOF] = 3"
  "nesting_depth [TokenLeftParenthesis, TokenLeftParenthesis, TokenTrue, TokenRightParenthesis, TokenRightParenthesis] = 2"
  "nesting_depth [TokenTrue, TokenOperator ''-'', TokenTrue, TokenOperator ''-'', TokenTrue] = 0"
  by (simp_all add: nesting_depth_def scan_kind_def)

theorem parse_expression_sound_witness:
  "\<exists>tree. parse_expression (\<lambda>t. Some 7) ''!${x}'' = Inr (tree, [7]) \<and> node_ok tree"
proof -
  have p: "parse_expression (\<lambda>t. Some 7) ''!${x}'' = Inr (UnaryNode ''!'' (ReferenceNode 7), [7])"
    by code_simp
  with parse_expression_sound [OF p] show ?thesis by blast
qed

end
