(* ===== verification/Tag_Expr_Eval.thy ===== *)
theory Tag_Expr_Eval
  imports Tag_Expr_Parser
begin

text \<open>
  Evaluating a calculated tag, \<open>Expression.Evaluate\<close> of \<open>internal/tag/expression.go\<close>. The
  context is asked before every node and may be cancelled between two questions, and the
  resolver may answer the same question differently each time, so both are functions of how
  often they have been asked (\<open>ev_checks\<close>, \<open>ev_calls\<close>). The value of a tree under one value
  per tag, \<open>tree_value\<close>, is what the evaluator's cache makes of a resolver that changes its answers;
  the reference semantics \<open>denote\<close> shares no operation with the evaluator.
\<close>

record evaluator =
  ev_cache :: "uuid \<rightharpoonup> gval"
  ev_calls :: nat
  ev_checks :: nat

type_synonym resolver = "nat \<Rightarrow> uuid \<Rightarrow> gval option"

definition finite_result :: "fl \<Rightarrow> expr_error + gval" where
  "finite_result x = (if fl_finite x then Inr (VFloat64 x) else Inl ErrExpressionEvaluation)"

text \<open>The type assertion \<open>value.(bool)\<close>.\<close>

definition as_bool :: "gval \<Rightarrow> bool option" where
  "as_bool v = (case v of VBool b \<Rightarrow> Some b | _ \<Rightarrow> None)"

lemma as_bool_VBool [simp]: "as_bool (VBool b) = Some b"
  by (simp add: as_bool_def)

lemma as_bool_Some: "as_bool v = Some b \<longleftrightarrow> v = VBool b"
  by (simp add: as_bool_def split: gval.split)

definition normalize_expression_value :: "gval \<Rightarrow> expr_error + gval" where
  "normalize_expression_value v =
     (case as_bool v of
        Some b \<Rightarrow> Inr (VBool b)
      | None \<Rightarrow> (case expression_number v of
           Some x \<Rightarrow> if fl_finite x then Inr (VFloat64 x) else Inl ErrExpressionEvaluation
         | None \<Rightarrow> Inl ErrExpressionEvaluation))"

definition values_equal :: "gval \<Rightarrow> gval \<Rightarrow> expr_error + bool" where
  "values_equal left right =
     (if as_bool left \<noteq> None \<or> as_bool right \<noteq> None
      then if as_bool left = None \<or> as_bool right = None then Inl ErrExpressionEvaluation
           else Inr (as_bool left = as_bool right)
      else case (expression_number left, expression_number right) of
        (Some x, Some y) \<Rightarrow> Inr (fl_eq x y)
      | _ \<Rightarrow> Inl ErrExpressionEvaluation)"

definition apply_unary :: "string \<Rightarrow> gval \<Rightarrow> expr_error + gval" where
  "apply_unary operator v =
     (if operator = ''!'' then (case as_bool v of Some b \<Rightarrow> Inr (VBool (\<not> b)) | None \<Rightarrow> Inl ErrExpressionEvaluation)
      else if operator = ''+''
      then (case expression_number v of Some x \<Rightarrow> Inr (VFloat64 x) | None \<Rightarrow> Inl ErrExpressionEvaluation)
      else if operator = ''-''
      then (case expression_number v of Some x \<Rightarrow> Inr (VFloat64 (fl_neg x)) | None \<Rightarrow> Inl ErrExpressionEvaluation)
      else Inl ErrExpressionEvaluation)"

lemma values_equal_bool: "values_equal (VBool a) (VBool b) = Inr (a = b)"
  unfolding values_equal_def as_bool_VBool by (simp only: option.simps if_True if_False not_True_eq_False simp_thms)

text \<open>The part of a binary node after both operands have a value, \<open>&&\<close> and \<open>||\<close> apart.\<close>

definition apply_numeric :: "string \<Rightarrow> fl \<Rightarrow> fl \<Rightarrow> expr_error + gval" where
  "apply_numeric operator x y =
     (if operator = ''+'' then finite_result (fl_add binary64 x y)
      else if operator = ''-'' then finite_result (fl_sub binary64 x y)
      else if operator = ''*'' then finite_result (fl_mul binary64 x y)
      else if operator = ''/''
      then if fl_eq y (FZero False) then Inl ErrExpressionEvaluation else finite_result (fl_div binary64 x y)
      else if operator = ''%''
      then if fl_eq y (FZero False) then Inl ErrExpressionEvaluation else finite_result (fl_mod binary64 x y)
      else if operator = ''<'' then Inr (VBool (fl_less x y))
      else if operator = ''<='' then Inr (VBool (fl_le x y))
      else if operator = ''>'' then Inr (VBool (fl_less y x))
      else if operator = ''>='' then Inr (VBool (fl_le y x))
      else Inl ErrExpressionEvaluation)"

definition apply_binary :: "string \<Rightarrow> gval \<Rightarrow> gval \<Rightarrow> expr_error + gval" where
  "apply_binary operator left right =
     (if operator = ''=='' \<or> operator = ''!=''
      then bindE (values_equal left right) (\<lambda>equal. Inr (VBool (if operator = ''!='' then \<not> equal else equal)))
      else case (expression_number left, expression_number right) of
        (Some x, Some y) \<Rightarrow> apply_numeric operator x y
      | _ \<Rightarrow> Inl ErrExpressionEvaluation)"

text \<open>\<open>referenceExpressionNode.evaluate\<close>\<close>

definition evaluate_reference ::
  "resolver option \<Rightarrow> uuid \<Rightarrow> evaluator \<Rightarrow> (expr_error + gval) \<times> evaluator" where
  "evaluate_reference resolver r ev =
     (case ev_cache ev r of
        Some v \<Rightarrow> (Inr v, ev)
      | None \<Rightarrow>
          (case resolver of
             None \<Rightarrow> (Inl ErrExpressionReference, ev)
           | Some f \<Rightarrow>
               let ev' = ev\<lparr>ev_calls := ev_calls ev + 1\<rparr>
               in case f (ev_calls ev) r of
                    None \<Rightarrow> (Inl ErrExpressionReference, ev')
                  | Some v \<Rightarrow>
                      (case normalize_expression_value v of
                         Inl e \<Rightarrow> (Inl ErrExpressionReference, ev')
                       | Inr w \<Rightarrow> (Inr w, ev'\<lparr>ev_cache := (ev_cache ev)(r \<mapsto> w)\<rparr>))))"

text \<open>Sequencing on the evaluator's state; an error keeps the state it was found in.\<close>

definition ev_bind ::
  "(expr_error + gval) \<times> evaluator \<Rightarrow> (gval \<Rightarrow> evaluator \<Rightarrow> (expr_error + gval) \<times> evaluator)
     \<Rightarrow> (expr_error + gval) \<times> evaluator" where
  "ev_bind m f = (case m of (Inl e, ev) \<Rightarrow> (Inl e, ev) | (Inr v, ev) \<Rightarrow> f v ev)"

lemma ev_bind_simps [simp]:
  "ev_bind (Inl e, ev) f = (Inl e, ev)" "ev_bind (Inr v, ev) f = f v ev"
  by (simp_all add: ev_bind_def)

text \<open>\<open>expressionEvaluator.evaluate\<close> and the \<open>evaluate\<close> methods of the nodes.\<close>

primrec evaluate ::
  "(nat \<Rightarrow> bool) \<Rightarrow> resolver option \<Rightarrow> expression_node \<Rightarrow> evaluator \<Rightarrow> (expr_error + gval) \<times> evaluator"
where
  "evaluate cancelled resolver (LiteralNode v) ev =
     (let ev' = ev\<lparr>ev_checks := ev_checks ev + 1\<rparr>
      in if cancelled (ev_checks ev) then (Inl ErrContextDone, ev') else (Inr v, ev'))"
| "evaluate cancelled resolver (ReferenceNode r) ev =
     (let ev' = ev\<lparr>ev_checks := ev_checks ev + 1\<rparr>
      in if cancelled (ev_checks ev) then (Inl ErrContextDone, ev') else evaluate_reference resolver r ev')"
| "evaluate cancelled resolver (UnaryNode operator n) ev =
     (let ev' = ev\<lparr>ev_checks := ev_checks ev + 1\<rparr>
      in if cancelled (ev_checks ev) then (Inl ErrContextDone, ev')
         else ev_bind (evaluate cancelled resolver n ev') (\<lambda>v ev. (apply_unary operator v, ev)))"
| "evaluate cancelled resolver (BinaryNode operator l r) ev =
     (let ev' = ev\<lparr>ev_checks := ev_checks ev + 1\<rparr>
      in if cancelled (ev_checks ev) then (Inl ErrContextDone, ev')
         else ev_bind (evaluate cancelled resolver l ev') (\<lambda>left ev.
           if operator = ''&&'' \<or> operator = ''||''
           then (case as_bool left of
                None \<Rightarrow> (Inl ErrExpressionEvaluation, ev)
              | Some a \<Rightarrow>
                  if operator = ''&&'' \<and> \<not> a then (Inr (VBool False), ev)
                  else if operator = ''||'' \<and> a then (Inr (VBool True), ev)
                  else ev_bind (evaluate cancelled resolver r ev) (\<lambda>right ev.
                    case as_bool right of
                      None \<Rightarrow> (Inl ErrExpressionEvaluation, ev)
                    | Some b \<Rightarrow> (Inr (VBool (if operator = ''&&'' then a \<and> b else a \<or> b)), ev)))
           else ev_bind (evaluate cancelled resolver r ev) (\<lambda>right ev.
             (apply_binary operator left right, ev))))"

definition evaluate_expression ::
  "(nat \<Rightarrow> bool) \<Rightarrow> resolver option \<Rightarrow> expression_node \<Rightarrow> expr_error + gval" where
  "evaluate_expression cancelled resolver n =
     fst (evaluate cancelled resolver n \<lparr>ev_cache = Map.empty, ev_calls = 0, ev_checks = 0\<rparr>)"

section \<open>One value per tag\<close>

primrec tree_value :: "(uuid \<rightharpoonup> gval) \<Rightarrow> expression_node \<Rightarrow> expr_error + gval" where
  "tree_value env (LiteralNode v) = Inr v"
| "tree_value env (ReferenceNode r) = (case env r of None \<Rightarrow> Inl ErrExpressionReference | Some v \<Rightarrow> Inr v)"
| "tree_value env (UnaryNode operator n) = bindE (tree_value env n) (apply_unary operator)"
| "tree_value env (BinaryNode operator l r) =
     bindE (tree_value env l) (\<lambda>left.
       if operator = ''&&'' \<or> operator = ''||''
       then (case as_bool left of
            None \<Rightarrow> Inl ErrExpressionEvaluation
          | Some a \<Rightarrow>
              if a = (operator = ''||'') then Inr (VBool a)
              else bindE (tree_value env r) (\<lambda>right.
                case as_bool right of None \<Rightarrow> Inl ErrExpressionEvaluation | Some b \<Rightarrow> Inr (VBool b)))
       else bindE (tree_value env r) (apply_binary operator left))"

definition value_ok :: "gval \<Rightarrow> bool" where
  "value_ok v \<longleftrightarrow> literal_ok v"

lemma value_ok_simps [simp]:
  "value_ok (VBool b)" "value_ok (VFloat64 x) \<longleftrightarrow> fl_finite x \<and> fl_ok binary64 x"
  by (simp_all add: value_ok_def literal_ok_def)

lemma value_okE: "value_ok v \<Longrightarrow> (\<exists>b. v = VBool b) \<or> (\<exists>x. v = VFloat64 x \<and> fl_finite x \<and> fl_ok binary64 x)"
  by (cases v) (simp_all add: value_ok_def literal_ok_def)

lemma finite_result_ok: "fl_ok binary64 x \<Longrightarrow> finite_result x = Inr v \<Longrightarrow> value_ok v"
  by (auto simp: finite_result_def split: if_splits)

lemma normalize_value_ok: "gval_ok v \<Longrightarrow> normalize_expression_value v = Inr w \<Longrightarrow> value_ok w"
  using expression_number_ok [of v]
  by (auto simp: normalize_expression_value_def split: option.splits if_splits)

lemma expression_number_value: "value_ok v \<Longrightarrow> expression_number v = Some x \<Longrightarrow> fl_finite x \<and> fl_ok binary64 x"
  by (drule value_okE) (auto simp: expression_number_def)

lemma apply_unary_ok: "value_ok v \<Longrightarrow> apply_unary operator v = Inr w \<Longrightarrow> value_ok w"
  using expression_number_value [of v]
  by (auto simp: apply_unary_def fl_ok_neg split: if_splits option.splits)

lemma apply_numeric_ok: "fl_ok binary64 x \<Longrightarrow> apply_numeric operator x y = Inr w \<Longrightarrow> value_ok w"
  by (auto simp: apply_numeric_def intro: finite_result_ok [OF fl_ok_arith(1)] finite_result_ok [OF fl_ok_arith(2)]
      finite_result_ok [OF fl_ok_arith(3)] finite_result_ok [OF fl_ok_arith(4)]
      finite_result_ok [OF fl_ok_arith(5)] split: if_splits)

lemma apply_binary_ok: "value_ok l \<Longrightarrow> apply_binary operator l r = Inr w \<Longrightarrow> value_ok w"
  using expression_number_value [of l]
  by (auto simp: apply_binary_def bindE_Inr_iff intro: apply_numeric_ok split: if_splits option.splits)

section \<open>The evaluator against the reference semantics\<close>

lemma ev_bind_Inr:
  "ev_bind m f = (Inr v, ev') \<longleftrightarrow> (\<exists>u ev. m = (Inr u, ev) \<and> f u ev = (Inr v, ev'))"
  by (cases m; cases "fst m") (auto simp: ev_bind_def)

text \<open>
  An evaluation that returns: the cache only grows, each new entry cost one call of the
  resolver, and the result is the reference meaning under the final cache.
\<close>

definition grows :: "evaluator \<Rightarrow> evaluator \<Rightarrow> uuid set \<Rightarrow> bool" where
  "grows ev ev' refs \<longleftrightarrow>
     ev_cache ev \<subseteq>\<^sub>m ev_cache ev' \<and> dom (ev_cache ev') \<subseteq> dom (ev_cache ev) \<union> refs \<and>
     ev_calls ev' = ev_calls ev + card (dom (ev_cache ev') - dom (ev_cache ev))"

lemma grows_refl: "ev_cache ev' = ev_cache ev \<Longrightarrow> ev_calls ev' = ev_calls ev \<Longrightarrow> grows ev ev' refs"
  by (simp add: grows_def)

lemma grows_trans:
  assumes "grows a b R" and "grows b c S" and "finite R" and "finite S"
  shows "grows a c (R \<union> S)"
proof -
  let ?d = "\<lambda>e. dom (ev_cache e)"
  have ab: "?d a \<subseteq> ?d b" and bc: "?d b \<subseteq> ?d c"
    using assms(1,2) by (auto simp: grows_def dest: map_le_implies_dom_le)
  have "?d b - ?d a \<subseteq> R" "?d c - ?d b \<subseteq> S" using assms(1,2) by (auto simp: grows_def)
  then have fin: "finite (?d b - ?d a)" "finite (?d c - ?d b)"
    using assms(3,4) finite_subset by blast+
  have "?d c - ?d a = (?d b - ?d a) \<union> (?d c - ?d b)" using ab bc by auto
  moreover have "(?d b - ?d a) \<inter> (?d c - ?d b) = {}" by auto
  ultimately have "card (?d c - ?d a) = card (?d b - ?d a) + card (?d c - ?d b)"
    using card_Un_disjoint [OF fin] by simp
  moreover have "?d c \<subseteq> ?d a \<union> (R \<union> S)" using assms(1,2) unfolding grows_def by blast
  ultimately show ?thesis using assms(1,2) by (simp add: grows_def) (blast intro: map_le_trans)
qed

lemma grows_mono: "grows a b R \<Longrightarrow> R \<subseteq> S \<Longrightarrow> grows a b S"
  by (auto simp: grows_def)

lemma evaluate_reference_sound:
  assumes "evaluate_reference resolver r ev = (Inr v, ev')"
  shows "grows ev ev' {r} \<and> ev_cache ev' r = Some v"
proof (cases "ev_cache ev r")
  case (Some w)
  then show ?thesis using assms by (auto simp: evaluate_reference_def intro: grows_refl)
next
  case None
  then obtain f u w where "resolver = Some f" "f (ev_calls ev) r = Some u" "normalize_expression_value u = Inr w"
    and v: "v = w" "ev' = ev\<lparr>ev_calls := ev_calls ev + 1, ev_cache := (ev_cache ev)(r \<mapsto> w)\<rparr>"
    using assms by (auto simp: evaluate_reference_def Let_def split: option.splits sum.splits)
  have "dom (ev_cache ev') - dom (ev_cache ev) = {r}" using None by (auto simp: v)
  then show ?thesis using None by (auto simp: grows_def v map_le_def)
qed

lemma tree_value_cache_mono:
  "env \<subseteq>\<^sub>m env' \<Longrightarrow> tree_value env n = Inr v \<Longrightarrow> tree_value env' n = Inr v"
proof (induction n arbitrary: v)
  case (ReferenceNode r)
  then have "env r = Some v" by (simp split: option.splits)
  with ReferenceNode(1) have "env' r = Some v" by (metis domI map_le_def)
  then show ?case by simp
next
  case (UnaryNode operator n)
  then show ?case by (auto simp: bindE_Inr_iff)
next
  case (BinaryNode operator l r)
  then obtain left where left: "tree_value env' l = Inr left" "tree_value env l = Inr left"
    by (auto simp: bindE_Inr_iff)
  have "tree_value env r = Inr w \<Longrightarrow> tree_value env' r = Inr w" for w using BinaryNode by blast
  then show ?case using BinaryNode.prems(2) left
    by (auto simp: bindE_Inr_iff split: option.splits if_splits)
qed simp

lemma evaluate_sound:
  "evaluate cancelled resolver n ev = (Inr v, ev') \<Longrightarrow>
   grows ev ev' (set (node_refs n)) \<and> tree_value (ev_cache ev') n = Inr v"
proof (induction n arbitrary: ev v ev')
  case (LiteralNode x)
  then show ?case by (auto simp: Let_def intro: grows_refl split: if_splits)
next
  case (ReferenceNode r)
  let ?ev = "ev\<lparr>ev_checks := ev_checks ev + 1\<rparr>"
  have "evaluate_reference resolver r ?ev = (Inr v, ev')"
    using ReferenceNode by (simp add: Let_def split: if_splits)
  from evaluate_reference_sound [OF this] show ?case by (simp add: grows_def)
next
  case (UnaryNode operator n)
  let ?ev = "ev\<lparr>ev_checks := ev_checks ev + 1\<rparr>"
  obtain u where u: "evaluate cancelled resolver n ?ev = (Inr u, ev')" "apply_unary operator u = Inr v"
    using UnaryNode.prems by (auto simp: Let_def ev_bind_Inr split: if_splits)
  from UnaryNode.IH [OF u(1)] u(2) show ?case by (simp add: grows_def)
next
  case (BinaryNode operator l r)
  let ?ev = "ev\<lparr>ev_checks := ev_checks ev + 1\<rparr>"
  obtain left ev1 where left: "evaluate cancelled resolver l ?ev = (Inr left, ev1)"
    using BinaryNode.prems by (auto simp: Let_def ev_bind_Inr split: if_splits)
  note L = BinaryNode.IH(1) [OF left]
  then have g: "grows ev ev1 (set (node_refs l))" by (simp add: grows_def)
  have right: "grows ev ev2 (set (node_refs (BinaryNode operator l r))) \<and>
      tree_value (ev_cache ev2) l = Inr left \<and> tree_value (ev_cache ev2) r = Inr w"
    if "evaluate cancelled resolver r ev1 = (Inr w, ev2)" for w ev2
  proof -
    note R = BinaryNode.IH(2) [OF that]
    then have "ev_cache ev1 \<subseteq>\<^sub>m ev_cache ev2" by (simp add: grows_def)
    with L have "tree_value (ev_cache ev2) l = Inr left" by (blast intro: tree_value_cache_mono)
    then show ?thesis using R grows_trans [OF g, of ev2 "set (node_refs r)"] by simp
  qed
  have short: "grows ev ev1 (set (node_refs (BinaryNode operator l r)))" by (rule grows_mono [OF g]) auto
  show ?case
  proof (cases "operator = ''&&'' \<or> operator = ''||''")
    case True
    then obtain a where a: "left = VBool a"
      using BinaryNode.prems left by (auto simp: Let_def as_bool_Some split: if_splits option.splits)
    show ?thesis
    proof (cases "a = (operator = ''||'')")
      case stop: True
      then have "v = VBool a" "ev' = ev1"
        using BinaryNode.prems left True a by (auto simp: Let_def split: if_splits)
      then show ?thesis using L short stop True a by auto
    next
      case False
      then obtain b where "evaluate cancelled resolver r ev1 = (Inr (VBool b), ev')" "v = VBool b"
        using BinaryNode.prems left True a
        by (auto simp: Let_def ev_bind_Inr as_bool_Some split: if_splits option.splits)
      then show ?thesis using right [of "VBool b" ev'] False True a by auto
    qed
  next
    case False
    then obtain w where "evaluate cancelled resolver r ev1 = (Inr w, ev')" "apply_binary operator left w = Inr v"
      using BinaryNode.prems left by (auto simp: Let_def ev_bind_Inr split: if_splits)
    then show ?thesis using right [of w ev'] False by auto
  qed
qed

definition cache_ok :: "evaluator \<Rightarrow> bool" where
  "cache_ok ev \<longleftrightarrow> (\<forall>v \<in> ran (ev_cache ev). value_ok v)"

definition resolver_ok :: "resolver option \<Rightarrow> bool" where
  "resolver_ok resolver \<longleftrightarrow> (\<forall>f k r v. resolver = Some f \<longrightarrow> f k r = Some v \<longrightarrow> gval_ok v)"

lemma cache_ok_check [simp]: "cache_ok (ev\<lparr>ev_checks := k\<rparr>) = cache_ok ev"
  by (simp add: cache_ok_def)

lemma evaluate_reference_ok:
  assumes "resolver_ok resolver" and "cache_ok ev" and "evaluate_reference resolver r ev = (Inr v, ev')"
  shows "value_ok v \<and> cache_ok ev'"
proof (cases "ev_cache ev r")
  case (Some w)
  then show ?thesis using assms by (auto simp: evaluate_reference_def cache_ok_def intro: ranI)
next
  case None
  then obtain f u w where f: "resolver = Some f" "f (ev_calls ev) r = Some u" "normalize_expression_value u = Inr w"
    and v: "v = w" "ev' = ev\<lparr>ev_calls := ev_calls ev + 1, ev_cache := (ev_cache ev)(r \<mapsto> w)\<rparr>"
    using assms(3) by (auto simp: evaluate_reference_def Let_def split: option.splits sum.splits)
  have "value_ok w" using f assms(1) unfolding resolver_ok_def by (blast intro: normalize_value_ok)
  then show ?thesis using assms(2) None by (auto simp: v cache_ok_def)
qed

lemma evaluate_ok:
  "node_ok n \<Longrightarrow> resolver_ok resolver \<Longrightarrow> cache_ok ev \<Longrightarrow>
   evaluate cancelled resolver n ev = (Inr v, ev') \<Longrightarrow> value_ok v \<and> cache_ok ev'"
proof (induction n arbitrary: ev v ev')
  case (LiteralNode x)
  then show ?case by (auto simp: Let_def value_ok_def split: if_splits)
next
  case (ReferenceNode r)
  then have "evaluate_reference resolver r (ev\<lparr>ev_checks := ev_checks ev + 1\<rparr>) = (Inr v, ev')"
    by (simp add: Let_def split: if_splits)
  with ReferenceNode show ?case by (intro evaluate_reference_ok) simp_all
next
  case (UnaryNode operator n)
  then obtain u where "evaluate cancelled resolver n (ev\<lparr>ev_checks := ev_checks ev + 1\<rparr>) = (Inr u, ev')"
    "apply_unary operator u = Inr v" by (auto simp: Let_def ev_bind_Inr split: if_splits)
  with UnaryNode show ?case by (metis apply_unary_ok cache_ok_check node_ok.simps(3))
next
  case (BinaryNode operator l r)
  obtain left ev1 where left: "evaluate cancelled resolver l (ev\<lparr>ev_checks := ev_checks ev + 1\<rparr>) = (Inr left, ev1)"
    using BinaryNode.prems by (auto simp: Let_def ev_bind_Inr split: if_splits)
  then have l: "value_ok left" "cache_ok ev1"
    using BinaryNode.IH(1) [OF _ _ _ left] BinaryNode.prems(1-3) by auto
  have "cache_ok ev2" if "evaluate cancelled resolver r ev1 = (Inr w, ev2)" for w ev2
    using BinaryNode.IH(2) [OF _ _ l(2) that] BinaryNode.prems by simp
  note right = this
  show ?case
  proof (cases "operator = ''&&'' \<or> operator = ''||''")
    case True
    then show ?thesis using BinaryNode.prems(4) left l(2) right
      by (auto simp: Let_def ev_bind_Inr as_bool_Some split: if_splits option.splits)
  next
    case False
    then obtain w where "evaluate cancelled resolver r ev1 = (Inr w, ev')" "apply_binary operator left w = Inr v"
      using BinaryNode.prems(4) left by (auto simp: Let_def ev_bind_Inr split: if_splits)
    then show ?thesis using right l(1) apply_binary_ok by blast
  qed
qed

text \<open>
  Evaluation is finite. When the resolver answers with Go values, an evaluation of a
  well-formed tree that returns yields a bool or a finite float64, never NaN or an infinity:
  overflow, division by zero and non-finite inputs are errors.
\<close>

theorem evaluate_expression_finite:
  assumes "node_ok n" and "resolver_ok resolver" and "evaluate_expression cancelled resolver n = Inr v"
  shows "(\<exists>b. v = VBool b) \<or> (\<exists>x. v = VFloat64 x \<and> fl_finite x \<and> fl_ok binary64 x)"
proof -
  let ?ev = "\<lparr>ev_cache = Map.empty, ev_calls = 0, ev_checks = 0\<rparr>"
  obtain ev' where "evaluate cancelled resolver n ?ev = (Inr v, ev')"
    using assms(3) by (metis evaluate_expression_def prod.collapse)
  moreover have "cache_ok ?ev" by (simp add: cache_ok_def)
  ultimately show ?thesis using evaluate_ok [OF assms(1,2)] value_okE by blast
qed

theorem evaluate_expression_finite_witness:
  "\<exists>b. evaluate_expression (\<lambda>k. False) None (UnaryNode ''!'' (LiteralNode (VBool True))) = Inr (VBool b)"
proof -
  let ?n = "UnaryNode ''!'' (LiteralNode (VBool True))"
  have "node_ok ?n" by (simp add: unary_operators_def literal_ok_def)
  moreover have "resolver_ok None" by (simp add: resolver_ok_def)
  moreover have e: "evaluate_expression (\<lambda>k. False) None ?n = Inr (VBool False)"
    by (simp add: evaluate_expression_def apply_unary_def)
  ultimately have "(\<exists>b. VBool False = VBool b) \<or> (\<exists>x. VBool False = VFloat64 x \<and> fl_finite x \<and> fl_ok binary64 x)"
    by (rule evaluate_expression_finite)
  then show ?thesis using e by auto
qed

text \<open>
  An evaluation sees one snapshot. However the resolver changes its answers while the
  expression is evaluated, a result is the reference meaning of the tree under a single
  assignment of values to tags, and the resolver was asked once for each tag of that
  assignment, all of them references of the tree.
\<close>

theorem evaluate_expression_snapshot:
  assumes "evaluate cancelled resolver n \<lparr>ev_cache = Map.empty, ev_calls = 0, ev_checks = 0\<rparr> = (Inr v, ev)"
  shows "tree_value (ev_cache ev) n = Inr v \<and> dom (ev_cache ev) \<subseteq> set (node_refs n) \<and>
    ev_calls ev = card (dom (ev_cache ev))"
  using evaluate_sound [OF assms] by (simp add: grows_def)

theorem evaluate_expression_snapshot_witness:
  "tree_value [7 \<mapsto> VBool True] (BinaryNode ''=='' (ReferenceNode 7) (ReferenceNode 7)) = Inr (VBool True)"
proof -
  have "evaluate (\<lambda>k. False) (Some (\<lambda>k r. Some (VBool (k = 0))))
      (BinaryNode ''=='' (ReferenceNode 7) (ReferenceNode 7))
      \<lparr>ev_cache = Map.empty, ev_calls = 0, ev_checks = 0\<rparr> =
    (Inr (VBool True), \<lparr>ev_cache = [7 \<mapsto> VBool True], ev_calls = 1, ev_checks = 3\<rparr>)"
    by (simp add: evaluate_reference_def normalize_expression_value_def apply_binary_def
        values_equal_bool Let_def fun_upd_def)
  from evaluate_expression_snapshot [OF this] show ?thesis by simp
qed

text \<open>The assignment a resolver that always answers the same stands for.\<close>

definition env_of :: "(uuid \<Rightarrow> gval option) \<Rightarrow> uuid \<rightharpoonup> gval" where
  "env_of f r = (case f r of None \<Rightarrow> None
     | Some v \<Rightarrow> (case normalize_expression_value v of Inl e \<Rightarrow> None | Inr w \<Rightarrow> Some w))"

lemma evaluate_reference_env:
  "ev_cache ev r = None \<Longrightarrow>
   evaluate_reference (Some (\<lambda>k. f)) r ev =
     (let ev' = ev\<lparr>ev_calls := ev_calls ev + 1\<rparr>
      in case env_of f r of None \<Rightarrow> (Inl ErrExpressionReference, ev')
         | Some w \<Rightarrow> (Inr w, ev'\<lparr>ev_cache := (ev_cache ev)(r \<mapsto> w)\<rparr>))"
  by (simp add: evaluate_reference_def env_of_def Let_def split: option.split sum.split)

lemma evaluate_complete:
  "ev_cache ev \<subseteq>\<^sub>m env_of f \<Longrightarrow>
   fst (evaluate (\<lambda>k. False) (Some (\<lambda>k. f)) n ev) = tree_value (env_of f) n \<and>
   ev_cache (snd (evaluate (\<lambda>k. False) (Some (\<lambda>k. f)) n ev)) \<subseteq>\<^sub>m env_of f"
proof (induction n arbitrary: ev)
  case (ReferenceNode r)
  show ?case
  proof (cases "ev_cache ev r")
    case (Some v)
    then have "env_of f r = Some v" using ReferenceNode by (metis domI map_le_def)
    then show ?thesis using Some ReferenceNode by (simp add: Let_def evaluate_reference_def)
  next
    case None
    then show ?thesis using ReferenceNode
      by (auto simp: Let_def evaluate_reference_env map_le_def split: option.split)
  qed
next
  case (UnaryNode operator n)
  show ?case using UnaryNode.IH [of "ev\<lparr>ev_checks := ev_checks ev + 1\<rparr>"] UnaryNode.prems
    by (cases "evaluate (\<lambda>k. False) (Some (\<lambda>k. f)) n (ev\<lparr>ev_checks := ev_checks ev + 1\<rparr>)")
      (auto simp: Let_def ev_bind_def bindE_def split: sum.splits)
next
  case (BinaryNode operator l r)
  obtain x ev1 where left: "evaluate (\<lambda>k. False) (Some (\<lambda>k. f)) l (ev\<lparr>ev_checks := ev_checks ev + 1\<rparr>) = (x, ev1)"
    by fastforce
  then have l: "tree_value (env_of f) l = x" "ev_cache ev1 \<subseteq>\<^sub>m env_of f"
    using BinaryNode.IH(1) [of "ev\<lparr>ev_checks := ev_checks ev + 1\<rparr>"] BinaryNode.prems by auto
  obtain y ev2 where right: "evaluate (\<lambda>k. False) (Some (\<lambda>k. f)) r ev1 = (y, ev2)" by fastforce
  then have r: "tree_value (env_of f) r = y" "ev_cache ev2 \<subseteq>\<^sub>m env_of f"
    using BinaryNode.IH(2) [OF l(2)] by auto
  show ?case
  proof (cases x)
    case (Inr v)
    then show ?thesis using left right l r
      by (cases y) (auto simp: Let_def split: option.split)
  qed (use left l in \<open>simp add: Let_def\<close>)
qed (simp add: Let_def)

section \<open>Reference semantics\<close>

text \<open>
  What an expression means, over truth values and exact rational numbers: each arithmetic operation
  is the exact result rounded once to a binary64 number, \<open>%\<close> is the remainder of the truncated
  quotient, and there is no result when the divisor is zero, the rounded result overflows or the
  operands have the wrong kind.
\<close>

datatype meaning = Truth bool | Number rat

definition nearest :: "rat \<Rightarrow> rat option" where
  "nearest q = (case fl_round binary64 False q of FZero s \<Rightarrow> Some 0 | FNum r \<Rightarrow> Some r | _ \<Rightarrow> None)"

definition arithmetic_table :: "(string \<times> (rat \<Rightarrow> rat \<Rightarrow> rat option)) list" where
  "arithmetic_table =
     [(''+'', \<lambda>x y. nearest (x + y)),
      (''-'', \<lambda>x y. nearest (x - y)),
      (''*'', \<lambda>x y. nearest (x * y)),
      (''/'', \<lambda>x y. if y = 0 then None else nearest (x / y)),
      (''%'', \<lambda>x y. if y = 0 then None else nearest (x - y * of_int (rat_trunc (x / y))))]"

definition comparison_table :: "(string \<times> (rat \<Rightarrow> rat \<Rightarrow> bool)) list" where
  "comparison_table = [(''<'', (<)), (''<='', (\<le>)), (''>'', (>)), (''>='', (\<ge>))]"

definition unary_meaning :: "string \<Rightarrow> meaning \<Rightarrow> meaning option" where
  "unary_meaning operator m =
     (case m of
        Truth b \<Rightarrow> if operator = ''!'' then Some (Truth (\<not> b)) else None
      | Number q \<Rightarrow> if operator = ''+'' then Some (Number q) else if operator = ''-'' then Some (Number (- q)) else None)"

definition binary_meaning :: "string \<Rightarrow> meaning \<Rightarrow> meaning \<Rightarrow> meaning option" where
  "binary_meaning operator m n =
     (case (m, n) of
        (Truth a, Truth b) \<Rightarrow>
          if operator = ''=='' then Some (Truth (a \<longleftrightarrow> b)) else if operator = ''!='' then Some (Truth (a \<longleftrightarrow> \<not> b)) else None
      | (Number x, Number y) \<Rightarrow>
          if operator = ''=='' then Some (Truth (x = y)) else if operator = ''!='' then Some (Truth (x \<noteq> y))
          else (case map_of arithmetic_table operator of
              Some f \<Rightarrow> map_option Number (f x y)
            | None \<Rightarrow> map_option (\<lambda>r. Truth (r x y)) (map_of comparison_table operator))
      | _ \<Rightarrow> None)"

definition or_failure :: "meaning option \<Rightarrow> expr_error + meaning" where
  "or_failure m = (case m of None \<Rightarrow> Inl ErrExpressionEvaluation | Some x \<Rightarrow> Inr x)"

text \<open>The meaning of a value of the world; a float that is not finite has none.\<close>

definition input_meaning :: "gval \<Rightarrow> meaning option" where
  "input_meaning v =
     (let whole = (\<lambda>n. map_option Number (nearest (of_int n)))
      in case v of
        VBool b \<Rightarrow> Some (Truth b)
      | VInt w \<Rightarrow> whole (sint w) | VInt8 w \<Rightarrow> whole (sint w) | VInt16 w \<Rightarrow> whole (sint w)
      | VInt32 w \<Rightarrow> whole (sint w) | VInt64 w \<Rightarrow> whole (sint w)
      | VUInt w \<Rightarrow> whole (uint w) | VUInt8 w \<Rightarrow> whole (uint w) | VUInt16 w \<Rightarrow> whole (uint w)
      | VUInt32 w \<Rightarrow> whole (uint w) | VUInt64 w \<Rightarrow> whole (uint w)
      | VFloat32 x \<Rightarrow> if fl_finite x then map_option Number (nearest (fl_rat x)) else None
      | VFloat64 x \<Rightarrow> if fl_finite x then Some (Number (fl_rat x)) else None
      | _ \<Rightarrow> None)"

primrec denote :: "(uuid \<rightharpoonup> meaning) \<Rightarrow> expression_node \<Rightarrow> expr_error + meaning" where
  "denote env (LiteralNode v) = or_failure (input_meaning v)"
| "denote env (ReferenceNode r) = (case env r of None \<Rightarrow> Inl ErrExpressionReference | Some m \<Rightarrow> Inr m)"
| "denote env (UnaryNode operator n) = bindE (denote env n) (\<lambda>m. or_failure (unary_meaning operator m))"
| "denote env (BinaryNode operator l r) =
     bindE (denote env l) (\<lambda>m.
       if operator = ''&&'' \<or> operator = ''||''
       then (case m of
            Number q \<Rightarrow> Inl ErrExpressionEvaluation
          | Truth a \<Rightarrow>
              if a = (operator = ''||'') then Inr (Truth a)
              else bindE (denote env r) (\<lambda>n. case n of Number q \<Rightarrow> Inl ErrExpressionEvaluation | Truth b \<Rightarrow> Inr (Truth b)))
       else bindE (denote env r) (\<lambda>n. or_failure (binary_meaning operator m n)))"

text \<open>The values of the evaluator and what they mean; the sign of a zero has no meaning.\<close>

definition meaning_of :: "gval \<Rightarrow> meaning" where
  "meaning_of v = (case v of VBool b \<Rightarrow> Truth b | VFloat64 x \<Rightarrow> Number (fl_rat x) | _ \<Rightarrow> Number 0)"

definition plain_value :: "gval \<Rightarrow> bool" where
  "plain_value v = (case v of VBool b \<Rightarrow> True | VFloat64 x \<Rightarrow> fl_finite x | _ \<Rightarrow> False)"

lemma plain_value_simps [simp]: "plain_value (VBool b)" "plain_value (VFloat64 x) = fl_finite x"
  "meaning_of (VBool b) = Truth b" "meaning_of (VFloat64 x) = Number (fl_rat x)"
  by (simp_all add: plain_value_def meaning_of_def)

lemma plain_valueE: "plain_value v \<Longrightarrow> (\<exists>b. v = VBool b) \<or> (\<exists>x. v = VFloat64 x \<and> fl_finite x)"
  by (cases v) (simp_all add: plain_value_def)

definition finite_number :: "fl \<Rightarrow> rat option" where
  "finite_number x = (if fl_finite x then Some (fl_rat x) else None)"

lemma finite_number_round: "finite_number (fl_round binary64 neg q) = nearest q"
  by (auto simp: finite_number_def nearest_def fl_round_def Let_def)

lemma nearest_zero [simp]: "nearest 0 = Some 0"
  by (simp add: nearest_def fl_round_def)

lemma fl_rat_neg [simp]: "fl_rat (fl_neg x) = - fl_rat x"
  by (cases x) simp_all

lemma finite_number_add: "fl_finite x \<Longrightarrow> fl_finite y \<Longrightarrow> finite_number (fl_add binary64 x y) = nearest (fl_rat x + fl_rat y)"
  by (cases x; cases y) (auto simp: fl_add_def finite_number_round, simp_all add: finite_number_def)

lemma finite_number_sub: "fl_finite x \<Longrightarrow> fl_finite y \<Longrightarrow> finite_number (fl_sub binary64 x y) = nearest (fl_rat x - fl_rat y)"
  by (simp add: fl_sub_def finite_number_add)

lemma finite_not_NaN: "fl_finite x \<Longrightarrow> x \<noteq> FNaN"
  by auto

lemma finite_number_mul: "fl_finite x \<Longrightarrow> fl_finite y \<Longrightarrow> finite_number (fl_mul binary64 x y) = nearest (fl_rat x * fl_rat y)"
  by (simp add: fl_mul_def finite_number_round finite_not_NaN)

lemma fl_zero_rat: "fl_is_zero y \<Longrightarrow> fl_rat y = 0"
  by (cases y) (simp_all add: fl_is_zero_def)

lemma finite_number_div:
  "fl_finite x \<Longrightarrow> fl_finite y \<Longrightarrow> fl_rat y \<noteq> 0 \<Longrightarrow> finite_number (fl_div binary64 x y) = nearest (fl_rat x / fl_rat y)"
  using fl_zero_rat [of y] by (auto simp: fl_div_def Let_def finite_number_round)

lemma finite_number_mod:
  "fl_finite x \<Longrightarrow> fl_finite y \<Longrightarrow> fl_rat y \<noteq> 0 \<Longrightarrow>
   finite_number (fl_mod binary64 x y) = nearest (fl_rat x - fl_rat y * of_int (rat_trunc (fl_rat x / fl_rat y)))"
  using fl_zero_rat [of y] by (auto simp: fl_mod_def finite_number_round)

lemma finite_comparisons:
  assumes "fl_finite x" and "fl_finite y"
  shows "fl_less x y \<longleftrightarrow> fl_rat x < fl_rat y" "fl_eq x y \<longleftrightarrow> fl_rat x = fl_rat y" "fl_le x y \<longleftrightarrow> fl_rat x \<le> fl_rat y"
  using assms by (cases x; cases y; auto simp: fl_less_def fl_eq_def fl_le_def)+

text \<open>A result of the evaluator and its meaning.\<close>

definition means :: "expr_error + gval \<Rightarrow> expr_error + meaning \<Rightarrow> bool" where
  "means r m = (case r of Inl e \<Rightarrow> m = Inl e | Inr v \<Rightarrow> plain_value v \<and> m = Inr (meaning_of v))"

lemma means_simps [simp]: "means (Inl e) m \<longleftrightarrow> m = Inl e" "means (Inr v) m \<longleftrightarrow> plain_value v \<and> m = Inr (meaning_of v)"
  by (simp_all add: means_def)

lemma means_finite_result: "means (finite_result x) (or_failure (map_option Number (finite_number x)))"
  by (simp add: finite_result_def finite_number_def or_failure_def)

lemma means_apply_numeric:
  assumes "fl_finite x" and "fl_finite y" and "operator \<noteq> ''==''" and "operator \<noteq> ''!=''"
  shows "means (apply_numeric operator x y) (or_failure (binary_meaning operator (Number (fl_rat x)) (Number (fl_rat y))))"
proof -
  note arith = finite_number_add [OF assms(1,2), symmetric] finite_number_sub [OF assms(1,2), symmetric]
    finite_number_mul [OF assms(1,2), symmetric]
  note compare = finite_comparisons [OF assms(1,2)] finite_comparisons [OF assms(2,1)] finite_comparisons [OF assms(2), of "FZero False"]
  consider (plus) "operator = ''+''" | (minus) "operator = ''-''" | (mult) "operator = ''*''" | (over) "operator = ''/''"
    | (rem) "operator = ''%''" | (compare) "operator \<in> {''<'', ''<='', ''>'', ''>=''}"
    | (other) "operator \<notin> {''+'', ''-'', ''*'', ''/'', ''%'', ''<'', ''<='', ''>'', ''>=''}" by blast
  then show ?thesis
  proof cases
    case over
    then show ?thesis using assms(1,2) means_finite_result [of "fl_div binary64 x y"] finite_number_div [OF assms(1,2)]
      by (cases "fl_rat y = 0") (simp_all add: apply_numeric_def binary_meaning_def arithmetic_table_def compare or_failure_def)
  next
    case rem
    then show ?thesis using assms(1,2) means_finite_result [of "fl_mod binary64 x y"] finite_number_mod [OF assms(1,2)]
      by (cases "fl_rat y = 0") (simp_all add: apply_numeric_def binary_meaning_def arithmetic_table_def compare or_failure_def)
  next
    case compare
    then show ?thesis
      by (auto simp: apply_numeric_def binary_meaning_def arithmetic_table_def comparison_table_def
          finite_comparisons [OF assms(1,2)] finite_comparisons [OF assms(2,1)] or_failure_def)
  qed (simp_all add: apply_numeric_def binary_meaning_def arithmetic_table_def comparison_table_def arith means_finite_result,
      use assms(3,4) in \<open>simp add: or_failure_def\<close>)
qed

lemma means_apply_unary: "plain_value v \<Longrightarrow> means (apply_unary operator v) (or_failure (unary_meaning operator (meaning_of v)))"
  by (drule plain_valueE) (auto simp: apply_unary_def unary_meaning_def or_failure_def expression_number_def as_bool_def)

lemma means_apply_binary:
  assumes "plain_value v" and "plain_value w"
  shows "means (apply_binary operator v w) (or_failure (binary_meaning operator (meaning_of v) (meaning_of w)))"
proof -
  have number: "expression_number (VFloat64 x) = Some x" "expression_number (VBool b) = None" "as_bool (VFloat64 x) = None" for x b
    by (simp_all add: expression_number_def as_bool_def)
  consider a b where "v = VBool a" "w = VBool b" | a y where "v = VBool a" "w = VFloat64 y"
    | x b where "v = VFloat64 x" "w = VBool b" | x y where "v = VFloat64 x" "w = VFloat64 y" "fl_finite x" "fl_finite y"
    using plain_valueE [OF assms(1)] plain_valueE [OF assms(2)] by blast
  then show ?thesis
  proof cases
    case 4
    show ?thesis
    proof (cases "operator = ''=='' \<or> operator = ''!=''")
      case True
      then show ?thesis using 4
        by (auto simp: apply_binary_def values_equal_def number binary_meaning_def or_failure_def finite_comparisons)
    next
      case False
      then show ?thesis using 4 means_apply_numeric [of x y operator] by (simp add: apply_binary_def number)
    qed
  qed (auto simp: apply_binary_def values_equal_def number binary_meaning_def or_failure_def)
qed

lemma means_input:
  "(case normalize_expression_value v of Inl e \<Rightarrow> input_meaning v = None
    | Inr w \<Rightarrow> plain_value w \<and> input_meaning v = Some (meaning_of w))"
proof -
  have near: "nearest q = (if fl_finite (fl_round binary64 neg q) then Some (fl_rat (fl_round binary64 neg q)) else None)" for neg q
    by (simp add: finite_number_def flip: finite_number_round [of neg q])
  show ?thesis
  proof (cases v)
    case (VFloat32 x)
    then show ?thesis by (cases x)
      (simp_all add: normalize_expression_value_def input_meaning_def expression_number_def as_bool_def fl_conv_def fl_round_def [of _ _ 0] near [of q "q < 0" for q])
  qed (simp_all add: near [of _ False] normalize_expression_value_def input_meaning_def expression_number_def as_bool_def fl_of_int_def)
qed

lemma tree_value_denotes:
  "node_ok n \<Longrightarrow>
   means (tree_value (env_of f) n) (denote (\<lambda>r. case f r of None \<Rightarrow> None | Some v \<Rightarrow> input_meaning v) n)"
proof (induction n)
  case (LiteralNode v)
  then show ?case by (cases v) (simp_all add: literal_ok_def input_meaning_def or_failure_def)
next
  case (ReferenceNode r)
  show ?case
  proof (cases "f r")
    case (Some v)
    then show ?thesis using means_input [of v]
      by (cases "normalize_expression_value v") (simp_all add: env_of_def)
  qed (simp add: env_of_def)
next
  case (UnaryNode operator n)
  then show ?case using means_apply_unary
    by (cases "tree_value (env_of f) n") simp_all
next
  case (BinaryNode operator l r)
  let ?env = "\<lambda>r. case f r of None \<Rightarrow> None | Some v \<Rightarrow> input_meaning v"
  have l: "means (tree_value (env_of f) l) (denote ?env l)" and r: "means (tree_value (env_of f) r) (denote ?env r)"
    using BinaryNode by simp_all
  show ?case
  proof (cases "tree_value (env_of f) l")
    case (Inr v)
    then have v: "plain_value v" "denote ?env l = Inr (meaning_of v)" using l by simp_all
    show ?thesis
    proof (cases "operator = ''&&'' \<or> operator = ''||''")
      case True
      then show ?thesis using Inr r plain_valueE [OF v(1)] v(2)
        by (cases "tree_value (env_of f) r") (auto simp: as_bool_def dest!: plain_valueE)
    next
      case False
      then show ?thesis using Inr r v means_apply_binary [OF v(1)]
        by (cases "tree_value (env_of f) r") simp_all
    qed
  qed (use l in simp)
qed

text \<open>
  C11: the evaluator computes the reference semantics. With a context that is not cancelled and
  a resolver that answers the same question the same way, \<open>Evaluate\<close> of a tree the parser builds
  returns a bool or a finite float64 with exactly the value that exact rational arithmetic with one
  rounding per operation gives, and the error where there is none; in particular the right operand
  of \<open>&&\<close> and \<open>||\<close> is not evaluated when the left one decides.
\<close>

theorem evaluate_expression_denotes:
  assumes "node_ok n"
  shows "(case evaluate_expression (\<lambda>k. False) (Some (\<lambda>k. f)) n of
      Inl e \<Rightarrow> denote (\<lambda>r. case f r of None \<Rightarrow> None | Some v \<Rightarrow> input_meaning v) n = Inl e
    | Inr v \<Rightarrow> ((\<exists>b. v = VBool b) \<or> (\<exists>x. v = VFloat64 x \<and> fl_finite x)) \<and>
        denote (\<lambda>r. case f r of None \<Rightarrow> None | Some v \<Rightarrow> input_meaning v) n = Inr (meaning_of v))"
  using tree_value_denotes [OF assms, of f] plain_valueE
  by (simp add: evaluate_expression_def evaluate_complete means_def split: sum.splits)

theorem evaluate_expression_denotes_witness:
  "denote Map.empty (BinaryNode ''||'' (BinaryNode ''<'' (LiteralNode (VFloat64 (FNum 2))) (LiteralNode (VFloat64 (FNum 3)))) (ReferenceNode 7))
     = Inr (Truth True)"
proof -
  let ?n = "BinaryNode ''||'' (BinaryNode ''<'' (LiteralNode (VFloat64 (FNum 2))) (LiteralNode (VFloat64 (FNum 3)))) (ReferenceNode 7)"
  have rep: "representable binary64 2" "representable binary64 3"
    using representable_int [of 2 binary64] representable_int [of 3 binary64] by (simp_all add: format_defs)
  have "node_ok ?n" by (simp add: binary_level_def literal_ok_def rep)
  note d = evaluate_expression_denotes [OF this, of "\<lambda>r. None"]
  have "evaluate_expression (\<lambda>k. False) (Some (\<lambda>k r. None)) ?n = Inr (VBool True)"
    by (simp add: evaluate_expression_def Let_def apply_binary_def apply_numeric_def expression_number_def fl_less_def)
  with d show ?thesis by simp
qed

end
