(* ===== verification/Edge_Interfaces.thy ===== *)
theory Edge_Interfaces
  imports Edge_Prelude "HOL-Library.Sublist"
begin

text \<open>
  The contracts between components, as locales, and the Go channel that most of them are
  built on. Every locale is interpreted in the theory of each component that provides it:
    \<^item> \<open>recent_buffer\<close>: a bounded buffer that drops its oldest element (tag history, lossy
      channels, the MQTT queue and diagnostics);
    \<^item> \<open>lossy_subscriber\<close>: one subscriber of a broker that delivers in order and disconnects
      a subscriber that falls behind;
    \<^item> \<open>invariant_system\<close>: a component as an initial state and atomic operations.
\<close>

section \<open>Buffered channels\<close>

text \<open>
  \<open>make(chan T, n)\<close> with \<open>n > 0\<close>: the queued values, the capacity and whether it was closed.
  A receive from a closed channel still yields the queued values first.
\<close>

record 'a chan =
  ch_queue :: "'a list"
  ch_capacity :: nat
  ch_closed :: bool

definition make_chan :: "nat \<Rightarrow> 'a chan" where
  "make_chan n = \<lparr>ch_queue = [], ch_capacity = n, ch_closed = False\<rparr>"

text \<open>\<open>select { case ch <- v: default: }\<close>\<close>

definition chan_offer :: "'a \<Rightarrow> 'a chan \<Rightarrow> 'a chan option" where
  "chan_offer v c =
     (if length (ch_queue c) < ch_capacity c then Some (c\<lparr>ch_queue := ch_queue c @ [v]\<rparr>) else None)"

text \<open>\<open>select { case v := <-ch: default: }\<close>\<close>

definition chan_poll :: "'a chan \<Rightarrow> ('a \<times> 'a chan) option" where
  "chan_poll c = (case ch_queue c of [] \<Rightarrow> None | v # vs \<Rightarrow> Some (v, c\<lparr>ch_queue := vs\<rparr>))"

definition chan_close :: "'a chan \<Rightarrow> 'a chan" where
  "chan_close c = c\<lparr>ch_closed := True\<rparr>"

text \<open>Send, or drop the oldest value and send.\<close>

definition chan_offer_latest :: "'a \<Rightarrow> 'a chan \<Rightarrow> 'a chan" where
  "chan_offer_latest v c =
     (case chan_offer v c of
        Some c' \<Rightarrow> c'
      | None \<Rightarrow>
          let c' = (case chan_poll c of Some (w, c') \<Rightarrow> c' | None \<Rightarrow> c)
          in case chan_offer v c' of Some c'' \<Rightarrow> c'' | None \<Rightarrow> c')"

lemmas chan_defs = make_chan_def chan_offer_def chan_poll_def chan_close_def

section \<open>Buffers that keep the most recent values\<close>

definition keep_last :: "nat \<Rightarrow> 'a list \<Rightarrow> 'a list" where
  "keep_last n xs = drop (length xs - n) xs"

lemma length_keep_last [simp]: "length (keep_last n xs) = min n (length xs)"
  by (simp add: keep_last_def min_def)

lemma keep_last_all [simp]: "length xs \<le> n \<Longrightarrow> keep_last n xs = xs"
  by (simp add: keep_last_def)

lemma keep_last_snoc:
  "keep_last n (keep_last n xs @ [x]) = keep_last n (xs @ [x])"
  by (cases "length xs \<le> n") (auto simp: keep_last_def Suc_diff_le)

lemma suffix_keep_last: "suffix (keep_last n xs) xs"
  by (simp add: keep_last_def suffix_drop)

lemma set_keep_last: "set (keep_last n xs) \<subseteq> set xs"
  by (simp add: keep_last_def set_drop_subset)

lemma last_keep_last: "0 < n \<Longrightarrow> xs \<noteq> [] \<Longrightarrow> keep_last n xs \<noteq> [] \<and> last (keep_last n xs) = last xs"
  by (simp add: keep_last_def last_drop Suc_le_eq flip: length_greater_0_conv)

locale recent_buffer =
  fixes push :: "'a \<Rightarrow> 'b \<Rightarrow> 'b"
    and contents :: "'b \<Rightarrow> 'a list"
    and room :: "'b \<Rightarrow> nat"
  assumes contents_push: "0 < room b \<Longrightarrow> length (contents b) \<le> room b \<Longrightarrow>
        contents (push x b) = keep_last (room b) (contents b @ [x])"
    and room_push: "room (push x b) = room b"
begin

lemma room_fold: "room (fold push xs b) = room b"
  by (induction xs arbitrary: b) (simp_all add: room_push)

lemma contents_fold:
  assumes "0 < room b" and "length (contents b) \<le> room b"
  shows "contents (fold push xs b) = keep_last (room b) (contents b @ xs)"
  using assms
proof (induction xs rule: rev_induct)
  case (snoc x xs)
  then show ?case
    by (simp add: contents_push keep_last_snoc room_fold)
qed simp

lemma bounded:
  "0 < room b \<Longrightarrow> length (contents b) \<le> room b \<Longrightarrow> length (contents (push x b)) \<le> room b"
  by (simp add: contents_push)

lemma newest:
  "0 < room b \<Longrightarrow> length (contents b) \<le> room b \<Longrightarrow>
   contents (push x b) \<noteq> [] \<and> last (contents (push x b)) = x"
  using last_keep_last [of "room b" "contents b @ [x]"] by (simp add: contents_push)

end

text \<open>The lossy channel is such a buffer.\<close>

lemma chan_offer_latest_queue:
  assumes "0 < ch_capacity c" and "length (ch_queue c) \<le> ch_capacity c"
  shows "chan_offer_latest v c = c\<lparr>ch_queue := keep_last (ch_capacity c) (ch_queue c @ [v])\<rparr>"
proof (cases "length (ch_queue c) < ch_capacity c")
  case True
  then show ?thesis by (simp add: chan_offer_latest_def chan_offer_def)
next
  case False
  with assms obtain w ws where q: "ch_queue c = w # ws" by (cases "ch_queue c") auto
  with False assms have "Suc (length ws) = ch_capacity c" by simp
  then show ?thesis using q
    by (simp add: chan_offer_latest_def chan_offer_def chan_poll_def keep_last_def)
qed

interpretation lossy_chan: recent_buffer chan_offer_latest ch_queue ch_capacity
proof unfold_locales
  fix v and c :: "'a chan" assume "0 < ch_capacity c" "length (ch_queue c) \<le> ch_capacity c"
  then show "ch_queue (chan_offer_latest v c) = keep_last (ch_capacity c) (ch_queue c @ [v])"
    by (simp add: chan_offer_latest_queue)
next
  fix v and c :: "'a chan"
  show "ch_capacity (chan_offer_latest v c) = ch_capacity c"
    by (auto simp: chan_offer_latest_def chan_offer_def chan_poll_def Let_def
        split: option.splits list.splits)
qed

section \<open>Subscribers that are disconnected when they lag\<close>

text \<open>What can happen to one subscriber: an event is published, or it receives.\<close>

datatype 'e feed_action = Publish 'e | Receive

fun drive ::
  "('e \<Rightarrow> 's \<Rightarrow> 's) \<Rightarrow> ('s \<Rightarrow> ('e \<times> 's) option) \<Rightarrow> 'e feed_action list \<Rightarrow> 's \<Rightarrow> 'e list \<times> 's" where
  "drive offer receive [] s = ([], s)"
| "drive offer receive (Publish e # acts) s = drive offer receive acts (offer e s)"
| "drive offer receive (Receive # acts) s =
     (case receive s of
        None \<Rightarrow> drive offer receive acts s
      | Some (e, s') \<Rightarrow> let (es, t) = drive offer receive acts s' in (e # es, t))"

fun published :: "'e feed_action list \<Rightarrow> 'e list" where
  "published [] = []"
| "published (Publish e # acts) = e # published acts"
| "published (Receive # acts) = published acts"

locale lossy_subscriber =
  fixes offer :: "'e \<Rightarrow> 's \<Rightarrow> 's"
    and receive :: "'s \<Rightarrow> ('e \<times> 's) option"
    and buffered :: "'s \<Rightarrow> 'e list"
    and live :: "'s \<Rightarrow> bool"
    and has_room :: "'s \<Rightarrow> bool"
    and wants :: "'s \<Rightarrow> 'e \<Rightarrow> bool"
    and valid :: "'s \<Rightarrow> bool"
  assumes offer_room: "valid s \<Longrightarrow> live s \<Longrightarrow> wants s e \<Longrightarrow> has_room s \<Longrightarrow>
        live (offer e s) \<and> buffered (offer e s) = buffered s @ [e]"
    and offer_lag: "valid s \<Longrightarrow> live s \<Longrightarrow> wants s e \<Longrightarrow> \<not> has_room s \<Longrightarrow>
        \<not> live (offer e s) \<and> buffered (offer e s) = buffered s"
    and offer_other: "valid s \<Longrightarrow> \<not> live s \<or> \<not> wants s e \<Longrightarrow>
        live (offer e s) = live s \<and> buffered (offer e s) = buffered s"
    and wants_offer: "valid s \<Longrightarrow> live s \<Longrightarrow> live (offer e s) \<Longrightarrow> wants (offer e s) = wants s"
    and receive_None: "valid s \<Longrightarrow> receive s = None \<longleftrightarrow> buffered s = []"
    and receive_Some: "valid s \<Longrightarrow> receive s = Some (e, s') \<Longrightarrow>
        buffered s = e # buffered s' \<and> live s' = live s \<and> (live s \<longrightarrow> wants s' = wants s)"
    and valid_offer: "valid s \<Longrightarrow> valid (offer e s)"
    and valid_receive: "valid s \<Longrightarrow> receive s = Some (e, s') \<Longrightarrow> valid s'"
begin

lemma dead_drive:
  "valid s \<Longrightarrow> \<not> live s \<Longrightarrow> drive offer receive acts s = (out, t) \<Longrightarrow>
   \<not> live t \<and> out @ buffered t = buffered s"
proof (induction acts arbitrary: s out t)
  case (Cons a acts)
  show ?case
  proof (cases a)
    case (Publish e)
    then show ?thesis using Cons.IH [of "offer e s" out t] Cons.prems offer_other [of s e] valid_offer by simp
  next
    case Receive
    show ?thesis
    proof (cases "receive s")
      case (Some es)
      obtain e s' where es: "es = (e, s')" by (cases es)
      obtain out' where "drive offer receive acts s' = (out', t)" and "out = e # out'"
        using Cons.prems Receive Some es by (auto split: prod.splits)
      then show ?thesis using Cons.IH [of s' out' t] Cons.prems receive_Some [of s e s'] Some es
          valid_receive [of s e s'] by simp
    qed (use Cons Receive in simp)
  qed
qed simp

lemma in_order:
  "valid s \<Longrightarrow> live s \<Longrightarrow> drive offer receive acts s = (out, t) \<Longrightarrow>
   prefix (out @ buffered t) (buffered s @ filter (wants s) (published acts)) \<and>
   (live t \<longrightarrow> out @ buffered t = buffered s @ filter (wants s) (published acts))"
proof (induction acts arbitrary: s out t)
  case (Cons a acts)
  show ?case
  proof (cases a)
    case (Publish e)
    then have run: "drive offer receive acts (offer e s) = (out, t)" using Cons.prems(3) by simp
    note w = wants_offer [OF Cons.prems(1,2), of e] and v = valid_offer [OF Cons.prems(1), of e]
    consider "\<not> wants s e" | "wants s e" "has_room s" | "wants s e" "\<not> has_room s" by blast
    then show ?thesis
    proof cases
      case 1
      then show ?thesis
        using Cons.IH [OF v _ run] offer_other [of s e] Cons.prems(1,2) w Publish by simp
    next
      case 2
      then show ?thesis
        using Cons.IH [OF v _ run] offer_room [of s e] Cons.prems(1,2) w Publish by simp
    next
      case 3
      then show ?thesis
        using dead_drive [OF v _ run] offer_lag [of s e] Cons.prems(1,2) Publish by simp
    qed
  next
    case Receive
    show ?thesis
    proof (cases "receive s")
      case (Some es)
      obtain e s' where es: "es = (e, s')" by (cases es)
      obtain out' where "drive offer receive acts s' = (out', t)" and "out = e # out'"
        using Cons.prems Receive Some es by (auto split: prod.splits)
      then show ?thesis using Cons.IH [of s' out' t] Cons.prems receive_Some [of s e s'] Some es Receive
          valid_receive [of s e s'] by simp
    qed (use Cons Receive in simp)
  qed
qed simp

end

section \<open>Components as systems of atomic operations\<close>

text \<open>
  A component guarded by one mutex: an operation is one step, and what every operation keeps
  holds in every reachable state.
\<close>

inductive reachable :: "('s \<Rightarrow> bool) \<Rightarrow> ('s \<Rightarrow> 's \<Rightarrow> bool) \<Rightarrow> 's \<Rightarrow> bool"
  for init :: "'s \<Rightarrow> bool" and step :: "'s \<Rightarrow> 's \<Rightarrow> bool" where
  reachable_init: "init s \<Longrightarrow> reachable init step s"
| reachable_step: "reachable init step s \<Longrightarrow> step s t \<Longrightarrow> reachable init step t"

locale invariant_system =
  fixes init :: "'s \<Rightarrow> bool" and step :: "'s \<Rightarrow> 's \<Rightarrow> bool" and inv :: "'s \<Rightarrow> bool"
  assumes inv_init: "init s \<Longrightarrow> inv s"
    and inv_step: "inv s \<Longrightarrow> step s t \<Longrightarrow> inv t"
begin

lemma reachable_inv: "reachable init step s \<Longrightarrow> inv s"
  by (induction rule: reachable.induct) (auto intro: inv_init inv_step)

end

end
