(* ===== verification/Tag_Service.thy ===== *)
theory Tag_Service
  imports Tag_Graph Tag_Binary Tag_Expr_Eval Edge_Interfaces
begin

text \<open>
  The tag service, \<open>internal/tag/service.go\<close>, on the table behind it
  (\<open>internal/tag/postgres/repository.go\<close> with the constraints of
  \<open>migrations/000004_create_tags.up.sql\<close>). A configuration is the struct its JSON object
  decodes to; JSON that no struct of the tag's type accepts is \<open>MalformedConfig\<close>. The canonical
  JSON of a constant is \<open>marshal v\<close>, an argument that stands for \<open>encoding/json\<close>. Errors keep
  the chain of wrapped sentinels, which is what \<open>errors.Is\<close> sees; messages are dropped.
\<close>

datatype service_error =
    Sentinel tag_error
  | Wrapping tag_error service_error
  | DecoderError decoder_error
  | ExpressionError expr_error
  | SourceError string
  | NilPointer

fun error_is :: "tag_error \<Rightarrow> service_error \<Rightarrow> bool" where
  "error_is t (Sentinel e) = (t = e)"
| "error_is t (Wrapping e w) = (t = e \<or> error_is t w)"
| "error_is t _ = False"

definition wrapE :: "('e \<Rightarrow> 'f) \<Rightarrow> 'e + 'a \<Rightarrow> 'f + 'a" where
  "wrapE f m = (case m of Inl e \<Rightarrow> Inl (f e) | Inr x \<Rightarrow> Inr x)"

lemma wrapE_simps [simp]:
  "wrapE f (Inl e) = Inl (f e)" "wrapE f (Inr x) = Inr x"
  "wrapE f m = Inr y \<longleftrightarrow> m = Inr y" "wrapE f m = Inl z \<longleftrightarrow> (\<exists>e. m = Inl e \<and> z = f e)"
  by (auto simp: wrapE_def split: sum.splits)

section \<open>Configurations\<close>

text \<open>A decoder's own configuration; \<open>None\<close> is JSON the decoder's struct does not accept.\<close>

type_synonym decoder_config = "binary_numeric_config_input option"

record decoder_envelope =
  de_type :: string
  de_data_type :: "data_type option"
  de_config :: decoder_config

record transform_envelope =
  tre_type :: string
  tre_config :: "linear_transform_input option"

record reading_config =
  rc_decoder :: "decoder_envelope option"
  rc_transform :: "transform_envelope option"

record calculated_trigger =
  ct_tag_id :: uuid
  ct_mode :: string

record calculated_config =
  cc_expression :: string
  cc_trigger :: "calculated_trigger option"

datatype tag_config =
    MalformedConfig
  | ReadingConfig reading_config
  | ConstantConfig "json_scalar option"
  | CalculatedConfig calculated_config

record datasource_sample =
  smp_observed_at :: gotime
  smp_quality :: string
  smp_raw :: "byte list"
  smp_error :: string

section \<open>Reading decoders\<close>

text \<open>The interface \<open>ReadingDecoder\<close>: its two operations, and the contract the service needs.\<close>

record reading_decoder =
  rd_normalize :: "data_type \<Rightarrow> decoder_config \<Rightarrow> decoder_error + decoder_config"
  rd_decode :: "datasource_sample \<Rightarrow> data_type \<Rightarrow> decoder_config \<Rightarrow> decoder_error + gval"

type_synonym decoders = "string \<rightharpoonup> reading_decoder"

locale reading_decoder_contract =
  fixes norm :: "data_type \<Rightarrow> decoder_config \<Rightarrow> decoder_error + decoder_config"
    and dec :: "datasource_sample \<Rightarrow> data_type \<Rightarrow> decoder_config \<Rightarrow> decoder_error + gval"
  assumes norm_canonical: "norm d c = Inr c' \<Longrightarrow> norm d c' = Inr c'"
    and norm_type: "norm d c = Inr c' \<Longrightarrow> valid_tag_data_type d"
    and dec_typed: "dec s d c = Inr v \<Longrightarrow> has_data_type d v"
    and dec_canonical: "norm d c = Inr c' \<Longrightarrow> dec s d c' = dec s d c"
begin

lemma dec_any_form: "norm d c = norm d c' \<Longrightarrow> norm d c = Inr e \<Longrightarrow> dec s d c = dec s d c'"
  by (metis dec_canonical)

end

definition binary_numeric_normalize :: "data_type \<Rightarrow> decoder_config \<Rightarrow> decoder_error + decoder_config" where
  "binary_numeric_normalize d raw =
     (case raw of
        None \<Rightarrow> Inl ErrInvalidDecoderConfig
      | Some input \<Rightarrow> bindE (normalize_binary_config d input) (\<lambda>c. Inr (Some (canonical_input c))))"

definition binary_numeric_decode ::
  "datasource_sample \<Rightarrow> data_type \<Rightarrow> decoder_config \<Rightarrow> decoder_error + gval" where
  "binary_numeric_decode sample d raw =
     (case raw of
        None \<Rightarrow> Inl ErrInvalidDecoderConfig
      | Some input \<Rightarrow> decode_binary (smp_raw sample) d input)"

definition binary_numeric_decoder :: reading_decoder where
  "binary_numeric_decoder = \<lparr>rd_normalize = binary_numeric_normalize, rd_decode = binary_numeric_decode\<rparr>"

text \<open>\<open>cmd/server/main.go\<close> registers this decoder and no other.\<close>

definition server_decoders :: decoders where
  "server_decoders = [''binary_numeric'' \<mapsto> binary_numeric_decoder]"

interpretation binary_numeric: reading_decoder_contract binary_numeric_normalize binary_numeric_decode
proof unfold_locales
  show "binary_numeric_normalize d c = Inr c' \<Longrightarrow> binary_numeric_normalize d c' = Inr c'" for d c c'
    by (auto simp: binary_numeric_normalize_def bindE_Inr_iff normalize_binary_config_canonical
        split: option.splits)
  show "binary_numeric_normalize d c = Inr c' \<Longrightarrow> valid_tag_data_type d" for d c c'
    by (auto simp: binary_numeric_normalize_def bindE_Inr_iff dest: normalize_binary_config_Inr
        split: option.splits)
  show "binary_numeric_decode s d c = Inr v \<Longrightarrow> has_data_type d v" for s d c v
    by (auto simp: binary_numeric_decode_def dest: decode_binary_typed split: option.splits)
  show "binary_numeric_normalize d c = Inr c' \<Longrightarrow> binary_numeric_decode s d c' = binary_numeric_decode s d c"
    for s d c c'
    by (auto simp: binary_numeric_normalize_def binary_numeric_decode_def bindE_Inr_iff decode_binary_def
        normalize_binary_config_canonical split: option.splits)
qed

definition decoders_ok :: "decoders \<Rightarrow> bool" where
  "decoders_ok decs \<longleftrightarrow>
     (\<forall>k r. decs k = Some r \<longrightarrow> reading_decoder_contract (rd_normalize r) (rd_decode r))"

record service_env =
  se_decoders :: decoders
  se_parse_uuid :: "string \<Rightarrow> uuid option"
  se_marshal :: "gval \<Rightarrow> json_scalar"

definition server_env :: "(string \<Rightarrow> uuid option) \<Rightarrow> (gval \<Rightarrow> json_scalar) \<Rightarrow> service_env" where
  "server_env parse_uuid marshal =
     \<lparr>se_decoders = server_decoders, se_parse_uuid = parse_uuid, se_marshal = marshal\<rparr>"

lemma server_decoders_ok: "decoders_ok server_decoders"
  using binary_numeric.reading_decoder_contract_axioms
  by (simp add: decoders_ok_def server_decoders_def binary_numeric_decoder_def)

lemma server_env_ok [simp]: "decoders_ok (se_decoders (server_env parse_uuid marshal))"
  by (simp add: server_env_def server_decoders_ok)

text \<open>\<open>NewService\<close>: the decoders by trimmed type; a nil decoder is \<open>None\<close>.\<close>

datatype new_service_error = ErrReadingDecodersRequired | ErrDuplicateReadingDecoder

definition register_decoder ::
  "(string \<times> reading_decoder) option \<Rightarrow> decoders \<Rightarrow> new_service_error + decoders" where
  "register_decoder d decs =
     (case d of
        None \<Rightarrow> Inl ErrReadingDecodersRequired
      | Some (raw, r) \<Rightarrow>
          let kind = trim_space raw
          in if kind = [] then Inl ErrReadingDecodersRequired
             else if decs kind \<noteq> None then Inl ErrDuplicateReadingDecoder
             else Inr (decs(kind \<mapsto> r)))"

definition new_tag_service :: "(string \<times> reading_decoder) option list \<Rightarrow> new_service_error + decoders" where
  "new_tag_service ds = (if ds = [] then Inl ErrReadingDecodersRequired else foldE register_decoder ds Map.empty)"

section \<open>Normalizing a configuration\<close>

definition transform_type :: string where "transform_type = ''linear''"

definition normalize_transform ::
  "data_type \<Rightarrow> data_type \<Rightarrow> transform_envelope \<Rightarrow> service_error + transform_envelope" where
  "normalize_transform source_type d t =
     (if source_type = DTBool \<or> d = DTBool then Inl (Sentinel ErrInvalidTransformConfig)
      else let kind = trim_space (tre_type t)
           in if kind \<noteq> transform_type then Inl (Sentinel ErrUnsupportedTransform)
              else case tre_config t of
                None \<Rightarrow> Inl (Wrapping ErrInvalidTagInput (Sentinel ErrInvalidTransformConfig))
              | Some input \<Rightarrow>
                  wrapE (\<lambda>e. Wrapping ErrInvalidTagInput (Sentinel e))
                    (bindE (normalize_linear_transform input) (\<lambda>c.
                      Inr \<lparr>tre_type = kind,
                        tre_config = Some \<lparr>lt_gain = Some (ltc_gain c), lt_offset = Some (ltc_offset c)\<rparr>\<rparr>)))"

definition normalize_optional_transform ::
  "data_type \<Rightarrow> data_type \<Rightarrow> transform_envelope option \<Rightarrow> service_error + transform_envelope option" where
  "normalize_optional_transform source_type d t =
     (case t of None \<Rightarrow> Inr None
      | Some t \<Rightarrow> bindE (normalize_transform source_type d t) (\<lambda>t'. Inr (Some t')))"

definition source_data_type :: "data_type \<Rightarrow> decoder_envelope \<Rightarrow> data_type" where
  "source_data_type d e = (case de_data_type e of None \<Rightarrow> d | Some s \<Rightarrow> s)"

definition normalize_reading_config ::
  "decoders \<Rightarrow> data_type \<Rightarrow> reading_config \<Rightarrow> service_error + reading_config" where
  "normalize_reading_config decs d input =
     (case rc_decoder input of
        None \<Rightarrow> Inl (Sentinel ErrInvalidTagInput)
      | Some e \<Rightarrow>
          let kind = trim_space (de_type e); src = source_data_type d e
          in if kind = [] then Inl (Sentinel ErrInvalidTagInput)
             else case decs kind of
               None \<Rightarrow> Inl (Sentinel ErrUnsupportedDecoder)
             | Some r \<Rightarrow>
                 if \<not> valid_tag_data_type src then Inl (Sentinel ErrUnsupportedTagDataType)
                 else bindE (wrapE (\<lambda>x. Wrapping ErrInvalidTagInput (DecoderError x)) (rd_normalize r src (de_config e)))
                   (\<lambda>dc. bindE (normalize_optional_transform src d (rc_transform input)) (\<lambda>tr.
                     Inr \<lparr>rc_decoder = Some \<lparr>de_type = kind,
                            de_data_type = (if src \<noteq> d then Some src else None), de_config = dc\<rparr>,
                          rc_transform = tr\<rparr>)))"

definition normalize_constant_config ::
  "(gval \<Rightarrow> json_scalar) \<Rightarrow> data_type \<Rightarrow> tag_config \<Rightarrow> service_error + tag_config \<times> gval" where
  "normalize_constant_config marshal d raw =
     (case raw of
        ConstantConfig (Some v) \<Rightarrow>
          bindE (wrapE Sentinel (typed_json_value d v)) (\<lambda>value. Inr (ConstantConfig (Some (marshal value)), value))
      | _ \<Rightarrow> Inl (Sentinel ErrInvalidTagInput))"

definition on_sample :: string where "on_sample = ''on_sample''"

definition normalize_calculated_config ::
  "(string \<Rightarrow> uuid option) \<Rightarrow> calculated_config \<Rightarrow> service_error + calculated_config \<times> uuid list" where
  "normalize_calculated_config parse_uuid input =
     (let expression = trim_space (cc_expression input)
      in case cc_trigger input of
           None \<Rightarrow> Inl (Sentinel ErrCalculatedTriggerInvalid)
         | Some trigger \<Rightarrow>
             if ct_tag_id trigger = uuid_nil then Inl (Sentinel ErrCalculatedTriggerInvalid)
             else let trimmed = trim_space (ct_mode trigger);
                      mode = (if trimmed = [] then on_sample else trimmed)
                  in if mode \<noteq> on_sample then Inl (Sentinel ErrCalculatedTriggerInvalid)
                     else bindE (wrapE (\<lambda>e. Wrapping ErrInvalidTagInput (ExpressionError e))
                            (parse_expression parse_uuid expression))
                       (\<lambda>(tree, deps).
                         Inr (\<lparr>cc_expression = expression,
                               cc_trigger = Some \<lparr>ct_tag_id = ct_tag_id trigger, ct_mode = mode\<rparr>\<rparr>,
                              if ct_tag_id trigger \<in> set deps then deps else deps @ [ct_tag_id trigger])))"

definition normalize_config ::
  "service_env \<Rightarrow> tag_type \<Rightarrow> data_type \<Rightarrow> tag_config \<Rightarrow> service_error + tag_config \<times> uuid list" where
  "normalize_config env t d raw =
     (case t of
        TypeReading \<Rightarrow>
          (case raw of
             ReadingConfig input \<Rightarrow>
               bindE (normalize_reading_config (se_decoders env) d input) (\<lambda>c. Inr (ReadingConfig c, []))
           | _ \<Rightarrow> Inl (Sentinel ErrInvalidTagInput))
      | TypeConstant \<Rightarrow>
          bindE (normalize_constant_config (se_marshal env) d raw) (\<lambda>(c, v). Inr (c, []))
      | TypeCalculated \<Rightarrow>
          (case raw of
             CalculatedConfig input \<Rightarrow>
               bindE (normalize_calculated_config (se_parse_uuid env) input) (\<lambda>(c, deps). Inr (CalculatedConfig c, deps))
           | _ \<Rightarrow> Inl (Sentinel ErrInvalidTagInput))
      | TypeOther s \<Rightarrow> Inl (Sentinel ErrUnsupportedTagType))"

section \<open>Values of reading and calculated tags\<close>

definition apply_transform :: "transform_envelope option \<Rightarrow> gval \<Rightarrow> tag_error + gval" where
  "apply_transform transform value =
     (case transform of
        None \<Rightarrow> Inr value
      | Some t \<Rightarrow>
          if tre_type t = transform_type
          then (case tre_config t of None \<Rightarrow> Inl ErrInvalidTransformConfig
                | Some input \<Rightarrow> apply_linear_transform value input)
          else Inl ErrUnsupportedTransform)"

definition process_normalized_sample ::
  "service_env \<Rightarrow> data_type \<Rightarrow> reading_config \<Rightarrow> datasource_sample \<Rightarrow> service_error + gval" where
  "process_normalized_sample env d reading sample =
     (if smp_quality sample \<noteq> [] \<and> smp_quality sample \<noteq> ''good''
      then Inl (Wrapping ErrTagSourceReadFailed
        (SourceError (let message = trim_space (smp_error sample)
                      in if message = [] then ''datasource sample quality is '' @ smp_quality sample else message)))
      else case rc_decoder reading of
        None \<Rightarrow> Inl NilPointer
      | Some e \<Rightarrow>
          (case se_decoders env (de_type e) of
             None \<Rightarrow> Inl NilPointer
           | Some r \<Rightarrow>
               bindE (wrapE (\<lambda>x. Wrapping ErrTagSourceReadFailed (DecoderError x))
                       (rd_decode r sample (source_data_type d e) (de_config e))) (\<lambda>value.
               bindE (wrapE (\<lambda>x. Wrapping ErrTagSourceReadFailed (Sentinel x))
                       (apply_transform (rc_transform reading) value)) (\<lambda>value.
               wrapE Sentinel (coerce_tag_value d value)))))"

definition process_reading_sample ::
  "service_env \<Rightarrow> data_type \<Rightarrow> tag_config \<Rightarrow> datasource_sample \<Rightarrow> service_error + gval" where
  "process_reading_sample env d raw sample =
     bindE (normalize_config env TypeReading d raw) (\<lambda>(config, deps).
       case config of ReadingConfig reading \<Rightarrow> process_normalized_sample env d reading sample
       | _ \<Rightarrow> Inl (Sentinel ErrInvalidTagInput))"

definition evaluate_calculated ::
  "service_env \<Rightarrow> (nat \<Rightarrow> bool) \<Rightarrow> data_type \<Rightarrow> tag_config \<Rightarrow> resolver option \<Rightarrow> service_error + gval" where
  "evaluate_calculated env cancelled d raw resolve =
     (if resolve = None then Inl (Sentinel ErrCalculatedSnapshotRequired)
      else bindE (normalize_config env TypeCalculated d raw) (\<lambda>(config, deps).
        case config of
          CalculatedConfig calculated \<Rightarrow>
            bindE (wrapE ExpressionError (parse_expression (se_parse_uuid env) (cc_expression calculated)))
              (\<lambda>(tree, refs).
            bindE (wrapE ExpressionError (evaluate_expression cancelled resolve tree)) (\<lambda>value.
            wrapE Sentinel (coerce_tag_value d value)))
        | _ \<Rightarrow> Inl (Sentinel ErrInvalidTagInput)))"

section \<open>The table of tags\<close>

record tag_entity =
  te_id :: uuid
  te_datasource :: "uuid option"
  te_name :: string
  te_type :: tag_type
  te_data_type :: data_type
  te_description :: "string option"
  te_enabled :: bool
  te_config :: tag_config

text \<open>The rows of \<open>tags\<close> in order of creation, of \<open>tag_dependencies\<close>, and the datasources.\<close>

record tag_repository =
  tr_tags :: "tag_entity list"
  tr_rows :: "(uuid \<times> uuid) list"
  tr_datasources :: "uuid list"

definition repository_find :: "uuid \<Rightarrow> tag_repository \<Rightarrow> tag_error + tag_entity" where
  "repository_find i r =
     (case List.find (\<lambda>e. te_id e = i) (tr_tags r) of None \<Rightarrow> Inl ErrTagNotFound | Some e \<Rightarrow> Inr e)"

definition list_enabled_tags :: "tag_repository \<Rightarrow> tag_entity list" where
  "list_enabled_tags r = filter te_enabled (tr_tags r)"

text \<open>The constraints of the tables; \<open>mapError\<close> names the one that was violated.\<close>

definition check_tag_row :: "tag_entity list \<Rightarrow> uuid list \<Rightarrow> tag_entity \<Rightarrow> tag_error + unit" where
  "check_tag_row others sources e =
     (if te_name e \<in> te_name ` set others then Inl (ErrRepository ''tag name already exists'')
      else case te_datasource e of
        None \<Rightarrow> Inr ()
      | Some d \<Rightarrow> if d \<in> set sources then Inr () else Inl (ErrRepository ''datasource not found''))"

definition check_dependency_rows :: "tag_entity list \<Rightarrow> uuid \<Rightarrow> uuid list \<Rightarrow> tag_error + unit" where
  "check_dependency_rows tags i deps =
     (if \<not> set deps \<subseteq> te_id ` set tags then Inl (ErrRepository ''tag dependency not found'')
      else if \<not> distinct deps \<or> i \<in> set deps then Inl (ErrRepository ''invalid tag dependency'')
      else Inr ())"

definition repository_create ::
  "tag_entity \<Rightarrow> uuid list \<Rightarrow> tag_repository \<Rightarrow> (tag_error + unit) \<times> tag_repository" where
  "repository_create e deps r =
     (let tags = tr_tags r @ [e]
      in if te_id e \<in> te_id ` set (tr_tags r) then (Inl (ErrRepository ''tags_pkey''), r)
         else case bindE (check_tag_row (tr_tags r) (tr_datasources r) e)
                     (\<lambda>u. check_dependency_rows tags (te_id e) deps) of
           Inl x \<Rightarrow> (Inl x, r)
         | Inr u \<Rightarrow> (Inr (), r\<lparr>tr_tags := tags, tr_rows := tr_rows r @ map (\<lambda>d. (te_id e, d)) deps\<rparr>))"

definition replace_tag :: "tag_entity \<Rightarrow> tag_entity list \<Rightarrow> tag_entity list" where
  "replace_tag e tags = map (\<lambda>x. if te_id x = te_id e then e else x) tags"

definition repository_update ::
  "tag_entity \<Rightarrow> uuid list \<Rightarrow> tag_repository \<Rightarrow> (tag_error + unit) \<times> tag_repository" where
  "repository_update e deps r =
     (if te_id e \<notin> te_id ` set (tr_tags r) then (Inl ErrTagNotFound, r)
      else let others = filter (\<lambda>x. te_id x \<noteq> te_id e) (tr_tags r);
               tags = replace_tag e (tr_tags r)
           in case bindE (check_tag_row others (tr_datasources r) e)
                     (\<lambda>u. check_dependency_rows tags (te_id e) deps) of
           Inl x \<Rightarrow> (Inl x, r)
         | Inr u \<Rightarrow> (Inr (), r\<lparr>tr_tags := tags, tr_rows := save_dependencies (te_id e) deps (tr_rows r)\<rparr>))"

definition repository_delete :: "uuid \<Rightarrow> tag_repository \<Rightarrow> (tag_error + unit) \<times> tag_repository" where
  "repository_delete i r =
     (if i \<notin> te_id ` set (tr_tags r) then (Inl ErrTagNotFound, r)
      else (Inr (), r\<lparr>tr_tags := filter (\<lambda>x. te_id x \<noteq> i) (tr_tags r),
              tr_rows := filter (\<lambda>e. fst e \<noteq> i \<and> snd e \<noteq> i) (tr_rows r)\<rparr>))"

section \<open>Creating, changing and deleting tags\<close>

definition validate_calculated_trigger :: "tag_repository \<Rightarrow> tag_entity \<Rightarrow> service_error + unit" where
  "validate_calculated_trigger r e =
     (if te_type e \<noteq> TypeCalculated then Inr ()
      else case te_config e of
        CalculatedConfig config \<Rightarrow>
          (case cc_trigger config of
             None \<Rightarrow> Inl (Sentinel ErrCalculatedTriggerInvalid)
           | Some t \<Rightarrow>
               if ct_tag_id t = uuid_nil \<or> ct_tag_id t = te_id e
               then Inl (Sentinel ErrCalculatedTriggerInvalid)
               else case repository_find (ct_tag_id t) r of
                 Inl x \<Rightarrow> Inl (Sentinel (if x = ErrTagNotFound then ErrCalculatedDependencyMissing else x))
               | Inr trigger \<Rightarrow>
                   if te_type trigger = TypeConstant then Inl (Sentinel ErrCalculatedTriggerInvalid)
                   else Inr ())
      | _ \<Rightarrow> Inl (Sentinel ErrInvalidTagInput))"

definition validate_dependencies :: "tag_repository \<Rightarrow> uuid \<Rightarrow> uuid list \<Rightarrow> service_error + unit" where
  "validate_dependencies r i deps =
     wrapE Sentinel (validate_dependency_graph
       (\<lambda>x. case repository_find x r of Inl e \<Rightarrow> Some e | Inr t \<Rightarrow> None) (Inr (tr_rows r)) i deps)"

record create_input =
  ci_datasource :: "uuid option"
  ci_name :: string
  ci_type :: tag_type
  ci_data_type :: data_type
  ci_description :: "string option"
  ci_enabled :: "bool option"
  ci_config :: tag_config

text \<open>The checks of \<open>Create\<close> before the write: the entity and its dependencies.\<close>

definition prepare_create ::
  "service_env \<Rightarrow> uuid \<Rightarrow> create_input \<Rightarrow> tag_repository \<Rightarrow> service_error + tag_entity \<times> uuid list" where
  "prepare_create env new_id input r =
     bindE (wrapE Sentinel (validate_tag_name (ci_name input))) (\<lambda>name.
     bindE (wrapE Sentinel (validate_tag_shape (ci_type input) (ci_data_type input) (ci_datasource input))) (\<lambda>u.
     bindE (normalize_config env (ci_type input) (ci_data_type input) (ci_config input)) (\<lambda>(config, deps).
       let e = \<lparr>te_id = new_id, te_datasource = ci_datasource input, te_name = name, te_type = ci_type input,
             te_data_type = ci_data_type input, te_description = normalize_tag_description (ci_description input),
             te_enabled = default_tag_enabled (ci_enabled input), te_config = config\<rparr>
       in bindE (validate_calculated_trigger r e) (\<lambda>u.
          bindE (validate_dependencies r new_id deps) (\<lambda>u. Inr (e, deps))))))"

definition create_tag ::
  "service_env \<Rightarrow> uuid \<Rightarrow> create_input \<Rightarrow> tag_repository \<Rightarrow> (service_error + tag_entity) \<times> tag_repository" where
  "create_tag env new_id input r =
     (case prepare_create env new_id input r of
        Inl x \<Rightarrow> (Inl x, r)
      | Inr (e, deps) \<Rightarrow>
          (case repository_create e deps r of
             (Inl x, r') \<Rightarrow> (Inl (Sentinel x), r') | (Inr u, r') \<Rightarrow> (Inr e, r')))"

record update_input =
  ui_datasource :: "uuid option option"
  ui_name :: "string option"
  ui_data_type :: "data_type option"
  ui_description :: "string option option"
  ui_enabled :: "bool option"
  ui_config :: "tag_config option"

definition set_field :: "'a option \<Rightarrow> 'a \<Rightarrow> 'a" where
  "set_field new old = (case new of None \<Rightarrow> old | Some x \<Rightarrow> x)"

definition prepare_update ::
  "service_env \<Rightarrow> uuid \<Rightarrow> update_input \<Rightarrow> tag_repository \<Rightarrow> service_error + tag_entity \<times> uuid list" where
  "prepare_update env i input r =
     bindE (wrapE Sentinel (repository_find i r)) (\<lambda>e.
     bindE (case ui_name input of None \<Rightarrow> Inr (te_name e)
            | Some raw \<Rightarrow> wrapE Sentinel (validate_tag_name raw)) (\<lambda>name.
       let e = e\<lparr>te_name := name, te_data_type := set_field (ui_data_type input) (te_data_type e),
             te_datasource := set_field (ui_datasource input) (te_datasource e),
             te_description := (case ui_description input of None \<Rightarrow> te_description e
               | Some d \<Rightarrow> normalize_tag_description d),
             te_enabled := set_field (ui_enabled input) (te_enabled e),
             te_config := set_field (ui_config input) (te_config e)\<rparr>
       in bindE (wrapE Sentinel (validate_tag_shape (te_type e) (te_data_type e) (te_datasource e))) (\<lambda>u.
          bindE (normalize_config env (te_type e) (te_data_type e) (te_config e)) (\<lambda>(config, deps).
            let e = e\<lparr>te_config := config\<rparr>
            in bindE (validate_calculated_trigger r e) (\<lambda>u.
               bindE (validate_dependencies r (te_id e) deps) (\<lambda>u. Inr (e, deps)))))))"

definition update_tag ::
  "service_env \<Rightarrow> uuid \<Rightarrow> update_input \<Rightarrow> tag_repository \<Rightarrow> (service_error + tag_entity) \<times> tag_repository" where
  "update_tag env i input r =
     (case prepare_update env i input r of
        Inl x \<Rightarrow> (Inl x, r)
      | Inr (e, deps) \<Rightarrow>
          (case repository_update e deps r of
             (Inl x, r') \<Rightarrow> (Inl (Sentinel x), r') | (Inr u, r') \<Rightarrow> (Inr e, r')))"

definition delete_tag :: "uuid \<Rightarrow> tag_repository \<Rightarrow> (tag_error + unit) \<times> tag_repository" where
  "delete_tag i r = repository_delete i r"

definition validate_calculated_expression ::
  "service_env \<Rightarrow> tag_repository \<Rightarrow> uuid \<Rightarrow> string \<Rightarrow> service_error + uuid list" where
  "validate_calculated_expression env r i raw =
     bindE (wrapE ExpressionError (parse_expression (se_parse_uuid env) (trim_space raw))) (\<lambda>(tree, deps).
     bindE (validate_dependencies r i deps) (\<lambda>u. Inr deps))"

record list_input =
  li_type :: "tag_type option"
  li_data_type :: "data_type option"
  li_page :: int
  li_per_page :: int

text \<open>\<open>List\<close>: the input the repository is asked with.\<close>

definition normalize_list_input :: "list_input \<Rightarrow> tag_error + list_input" where
  "normalize_list_input input =
     (if \<exists>t \<in> set_option (li_type input). \<not> valid_tag_type t then Inl ErrUnsupportedTagType
      else if \<exists>d \<in> set_option (li_data_type input). \<not> valid_tag_data_type d then Inl ErrUnsupportedTagDataType
      else if li_page input < 0 \<or> li_per_page input < 0 \<or> li_per_page input > 100 then Inl ErrInvalidTagInput
      else Inr (input\<lparr>li_page := (if li_page input = 0 then 1 else li_page input),
             li_per_page := (if li_per_page input = 0 then 20 else li_per_page input)\<rparr>))"

section \<open>Previews\<close>

record preview_result =
  pr_tag_id :: uuid
  pr_observed_at :: gotime
  pr_quality :: string
  pr_data_type :: data_type
  pr_value :: gval

record preview_state =
  pv_cache :: "uuid \<rightharpoonup> preview_result"
  pv_visiting :: "uuid set"

definition evaluate_entity ::
  "service_env \<Rightarrow> (uuid \<Rightarrow> service_error + datasource_sample) \<Rightarrow> gotime \<Rightarrow> tag_entity \<Rightarrow>
     service_error + preview_result" where
  "evaluate_entity env read_source now e =
     bindE (normalize_config env (te_type e) (te_data_type e) (te_config e)) (\<lambda>(config, deps).
     bindE (case te_type e of
          TypeReading \<Rightarrow>
            (case te_datasource e of
               None \<Rightarrow> Inl NilPointer
             | Some source \<Rightarrow>
                 bindE (wrapE (Wrapping ErrTagSourceReadFailed) (read_source source)) (\<lambda>sample.
                 bindE (case config of
                     ReadingConfig reading \<Rightarrow> process_normalized_sample env (te_data_type e) reading sample
                   | _ \<Rightarrow> Inl (Sentinel ErrInvalidTagInput)) (\<lambda>value.
                   Inr (value, if smp_observed_at sample \<noteq> 0 then smp_observed_at sample else now))))
        | TypeConstant \<Rightarrow>
            bindE (normalize_constant_config (se_marshal env) (te_data_type e) config) (\<lambda>(c, value). Inr (value, now))
        | TypeCalculated \<Rightarrow> Inl (Sentinel ErrCalculatedSnapshotRequired)
        | TypeOther s \<Rightarrow> Inl (Sentinel ErrUnsupportedTagType)) (\<lambda>(value, observed).
       Inr \<lparr>pr_tag_id = te_id e, pr_observed_at = observed, pr_quality = ''good'', pr_data_type = te_data_type e, pr_value = value\<rparr>))"

definition evaluate_saved ::
  "service_env \<Rightarrow> (uuid \<Rightarrow> service_error + datasource_sample) \<Rightarrow> gotime \<Rightarrow> tag_repository \<Rightarrow> uuid \<Rightarrow> bool \<Rightarrow>
     preview_state \<Rightarrow> (service_error + preview_result) \<times> preview_state" where
  "evaluate_saved env read_source now r i dependency st =
     (case pv_cache st i of
        Some cached \<Rightarrow> (Inr cached, st)
      | None \<Rightarrow>
          if i \<in> pv_visiting st then (Inl (Sentinel ErrCircularTagDependency), st)
          else if card (pv_visiting st) \<ge> max_dependency_depth then (Inl (Sentinel ErrTagDependencyTooDeep), st)
          else case repository_find i r of
            Inl x \<Rightarrow>
              (Inl (Sentinel (if dependency \<and> x = ErrTagNotFound then ErrCalculatedDependencyMissing else x)), st)
          | Inr e \<Rightarrow>
              if \<not> te_enabled e then (Inl (Sentinel ErrTagDisabled), st)
              else case evaluate_entity env read_source now e of
                Inl x \<Rightarrow> (Inl x, st\<lparr>pv_visiting := pv_visiting st - {i}\<rparr>)
              | Inr result \<Rightarrow>
                  (Inr result, st\<lparr>pv_visiting := pv_visiting st - {i}, pv_cache := (pv_cache st)(i \<mapsto> result)\<rparr>))"

definition preview ::
  "service_env \<Rightarrow> (uuid \<Rightarrow> service_error + datasource_sample) \<Rightarrow> gotime \<Rightarrow> create_input \<Rightarrow>
     service_error + preview_result" where
  "preview env read_source now input =
     bindE (wrapE Sentinel (validate_tag_shape (ci_type input) (ci_data_type input) (ci_datasource input))) (\<lambda>u.
     bindE (normalize_config env (ci_type input) (ci_data_type input) (ci_config input)) (\<lambda>(config, deps).
       evaluate_entity env read_source now
         \<lparr>te_id = uuid_nil, te_datasource = ci_datasource input, te_name = [], te_type = ci_type input,
          te_data_type = ci_data_type input, te_description = None, te_enabled = True, te_config = config\<rparr>))"

definition preview_saved ::
  "service_env \<Rightarrow> (uuid \<Rightarrow> service_error + datasource_sample) \<Rightarrow> gotime \<Rightarrow> tag_repository \<Rightarrow> uuid \<Rightarrow>
     service_error + preview_result" where
  "preview_saved env read_source now r i =
     fst (evaluate_saved env read_source now r i False \<lparr>pv_cache = Map.empty, pv_visiting = {}\<rparr>)"

section \<open>Canonical configurations\<close>

text \<open>The service of the server is the one \<open>NewService\<close> builds.\<close>

lemma new_tag_service_server:
  "new_tag_service [Some (''binary_numeric'', binary_numeric_decoder)] = Inr server_decoders"
proof -
  have "trim_space ''binary_numeric'' = ''binary_numeric''" by (rule trim_space_plain; simp add: plain_char_ascii)
  then show ?thesis by (simp add: new_tag_service_def register_decoder_def server_decoders_def)
qed

lemma normalize_linear_canonical:
  "normalize_linear_transform input = Inr c \<Longrightarrow>
   normalize_linear_transform \<lparr>lt_gain = Some (ltc_gain c), lt_offset = Some (ltc_offset c)\<rparr> = Inr c"
  by (auto simp: normalize_linear_transform_def Let_def split: option.splits if_splits)

lemma trim_literals [simp]:
  "trim_space ''linear'' = ''linear''" "trim_space ''on_sample'' = ''on_sample''"
  "trim_space ''binary_numeric'' = ''binary_numeric''"
  by (rule trim_space_plain; simp add: plain_char_ascii)+

lemma normalize_transform_idem:
  "normalize_optional_transform src d t = Inr t' \<Longrightarrow> normalize_optional_transform src d t' = Inr t'"
  by (cases t)
    (auto simp: normalize_optional_transform_def normalize_transform_def bindE_Inr_iff Let_def
        transform_type_def normalize_linear_canonical split: if_splits option.splits)

lemma decoder_idem:
  "decoders_ok decs \<Longrightarrow> decs k = Some r \<Longrightarrow> rd_normalize r d c = Inr c' \<Longrightarrow>
   rd_normalize r d c' = Inr c' \<and> rd_decode r s d c' = rd_decode r s d c"
  unfolding decoders_ok_def using reading_decoder_contract.norm_canonical
    reading_decoder_contract.dec_canonical by blast

lemma normalize_reading_facts:
  assumes "normalize_reading_config decs d input = Inr c"
  obtains e kind r src dc where "rc_decoder input = Some e" "kind = trim_space (de_type e)" "kind \<noteq> []"
    "decs kind = Some r" "src = source_data_type d e" "valid_tag_data_type src"
    "rd_normalize r src (de_config e) = Inr dc"
    "normalize_optional_transform src d (rc_transform input) = Inr (rc_transform c)"
    "rc_decoder c = Some \<lparr>de_type = kind, de_data_type = (if src \<noteq> d then Some src else None), de_config = dc\<rparr>"
  using assms
  by (auto simp: normalize_reading_config_def bindE_Inr_iff Let_def split: option.splits if_splits)

lemma source_data_type_canonical:
  "source_data_type d \<lparr>de_type = k, de_data_type = (if src \<noteq> d then Some src else None), de_config = dc\<rparr> = src"
  by (simp add: source_data_type_def)

lemma normalize_reading_idem:
  assumes "decoders_ok decs" and "normalize_reading_config decs d input = Inr c"
  shows "normalize_reading_config decs d c = Inr c"
  using assms(2)
proof (rule normalize_reading_facts)
  fix e kind r src dc
  assume f: "kind = trim_space (de_type e)" "kind \<noteq> []" "decs kind = Some r" "valid_tag_data_type src"
    "rd_normalize r src (de_config e) = Inr dc"
    "normalize_optional_transform src d (rc_transform input) = Inr (rc_transform c)"
    and c: "rc_decoder c = Some \<lparr>de_type = kind, de_data_type = (if src \<noteq> d then Some src else None), de_config = dc\<rparr>"
  have "rd_normalize r src dc = Inr dc" using decoder_idem [OF assms(1) f(3,5)] by simp
  moreover have "trim_space kind = kind" using f(1) by simp
  ultimately show ?thesis
    using f(2-4) normalize_transform_idem [OF f(6)] c
    by (cases c) (simp add: normalize_reading_config_def source_data_type_canonical Let_def)
qed

lemma normalize_calculated_facts:
  assumes "normalize_calculated_config parse_uuid input = Inr (c, deps)"
  obtains tree refs t where "parse_expression parse_uuid (cc_expression c) = Inr (tree, refs)"
    "cc_expression c = trim_space (cc_expression input)"
    "cc_trigger c = Some \<lparr>ct_tag_id = t, ct_mode = on_sample\<rparr>" "t \<noteq> uuid_nil" "t \<in> set deps"
    "deps = (if t \<in> set refs then refs else refs @ [t])"
proof -
  let ?x = "trim_space (cc_expression input)"
  obtain t where t: "cc_trigger input = Some t" "ct_tag_id t \<noteq> uuid_nil"
    using assms by (auto simp: normalize_calculated_config_def Let_def split: option.splits if_splits)
  define mode where "mode = (if trim_space (ct_mode t) = [] then on_sample else trim_space (ct_mode t))"
  have mode: "mode = on_sample"
    using assms t by (simp add: normalize_calculated_config_def Let_def flip: mode_def split: if_splits)
  obtain tree refs where p: "parse_expression parse_uuid ?x = Inr (tree, refs)"
    using assms t mode
    by (cases "parse_expression parse_uuid ?x")
      (auto simp: normalize_calculated_config_def Let_def simp flip: mode_def)
  have "c = \<lparr>cc_expression = ?x, cc_trigger = Some \<lparr>ct_tag_id = ct_tag_id t, ct_mode = on_sample\<rparr>\<rparr> \<and>
      deps = (if ct_tag_id t \<in> set refs then refs else refs @ [ct_tag_id t])"
    using assms t mode p by (simp add: normalize_calculated_config_def Let_def flip: mode_def)
  then show thesis using that [of tree refs "ct_tag_id t"] p t by auto
qed

lemma normalize_calculated_idem:
  assumes "normalize_calculated_config parse_uuid input = Inr (c, deps)"
  shows "normalize_calculated_config parse_uuid c = Inr (c, deps)"
  using assms
proof (rule normalize_calculated_facts)
  fix tree refs t
  assume "parse_expression parse_uuid (cc_expression c) = Inr (tree, refs)"
    "cc_expression c = trim_space (cc_expression input)"
    "cc_trigger c = Some \<lparr>ct_tag_id = t, ct_mode = on_sample\<rparr>" "t \<noteq> uuid_nil"
    "deps = (if t \<in> set refs then refs else refs @ [t])"
  then show ?thesis by (cases c) (simp add: normalize_calculated_config_def on_sample_def)
qed

text \<open>
  The configuration a tag is stored with is canonical: normalising it again, as every
  sample and every evaluation does, accepts it, gives it back and names the same dependencies.
  For a constant this rests on \<open>encoding/json\<close> writing a value so that it reads back.
\<close>

theorem normalize_config_idempotent:
  assumes "decoders_ok (se_decoders env)"
    and "\<And>v. has_data_type d v \<Longrightarrow> typed_json_value d (se_marshal env v) = Inr v"
    and "normalize_config env t d raw = Inr (config, deps)"
  shows "normalize_config env t d config = Inr (config, deps)"
proof (cases t)
  case TypeReading
  then show ?thesis using assms(3) normalize_reading_idem [OF assms(1)]
    by (auto simp: normalize_config_def bindE_Inr_iff split: tag_config.splits)
next
  case TypeConstant
  then show ?thesis using assms(2,3) typed_json_value_ok
    by (auto simp: normalize_config_def normalize_constant_config_def bindE_Inr_iff
        split: tag_config.splits option.splits)
next
  case TypeCalculated
  then show ?thesis using assms(3) normalize_calculated_idem
    by (auto simp: normalize_config_def bindE_Inr_iff split: tag_config.splits)
qed (use assms in \<open>simp add: normalize_config_def\<close>)

definition sample_env :: service_env where
  "sample_env = server_env (\<lambda>s. if s = ''t'' then Some 7 else None)
     (\<lambda>v. case v of VBool b \<Rightarrow> JBool b | _ \<Rightarrow> JNull)"

definition sample_reading :: tag_config where
  "sample_reading = ReadingConfig \<lparr>rc_decoder = Some \<lparr>de_type = ''binary_numeric'', de_data_type = None,
     de_config = Some \<lparr>bi_byte_offset = None, bi_byte_order = None, bi_bit_offset = Some 2\<rparr>\<rparr>,
     rc_transform = None\<rparr>"

lemma sample_reading_normal:
  "normalize_config sample_env TypeReading DTBool sample_reading =
     Inr (ReadingConfig \<lparr>rc_decoder = Some \<lparr>de_type = ''binary_numeric'', de_data_type = None,
       de_config = Some \<lparr>bi_byte_offset = Some 0, bi_byte_order = Some BOBigEndian, bi_bit_offset = Some 2\<rparr>\<rparr>,
       rc_transform = None\<rparr>, [])"
  by (simp add: normalize_config_def sample_reading_def normalize_reading_config_def Let_def
      sample_env_def server_env_def server_decoders_def source_data_type_def binary_numeric_decoder_def
      binary_numeric_normalize_def normalize_binary_config_def binary_data_size_def canonical_input_def
      normalize_optional_transform_def)

theorem normalize_config_idempotent_witness:
  "\<exists>c. normalize_config sample_env TypeReading DTBool sample_reading = Inr (c, []) \<and> c \<noteq> sample_reading \<and>
    normalize_config sample_env TypeReading DTBool c = Inr (c, [])"
proof -
  have "decoders_ok (se_decoders sample_env)" by (simp add: sample_env_def)
  moreover have "has_data_type DTBool v \<Longrightarrow> typed_json_value DTBool (se_marshal sample_env v) = Inr v" for v
    by (auto simp: sample_env_def server_env_def typed_json_value_def)
  ultimately show ?thesis
    using normalize_config_idempotent [OF _ _ sample_reading_normal] sample_reading_normal
    by (auto simp: sample_reading_def)
qed

lemma has_data_type_ok: "has_data_type d v \<Longrightarrow> gval_ok v"
  by (cases d) auto

lemma apply_transform_ok: "apply_transform t v = Inr w \<Longrightarrow> gval_ok v \<Longrightarrow> gval_ok w"
  using has_data_type_ok [OF apply_linear_transform_ok]
  by (auto simp: apply_transform_def split: option.splits if_splits)

lemma process_normalized_typed:
  assumes "decoders_ok (se_decoders env)" and "process_normalized_sample env d reading sample = Inr v"
  shows "has_data_type d v"
proof -
  obtain e r raw w where r: "se_decoders env (de_type e) = Some r"
    and d: "rd_decode r sample (source_data_type d e) (de_config e) = Inr raw"
    and w: "apply_transform (rc_transform reading) raw = Inr w" and v: "coerce_tag_value d w = Inr v"
    using assms(2)
    by (auto simp: process_normalized_sample_def bindE_Inr_iff split: if_splits option.splits)
  have "has_data_type (source_data_type d e) raw"
    using r d assms(1) reading_decoder_contract.dec_typed unfolding decoders_ok_def by blast
  then show ?thesis by (rule coerce_ok [OF apply_transform_ok [OF w has_data_type_ok] v])
qed

text \<open>
  What the acquisition loop stores for a reading: a sample that is processed without an
  error yields a value of the tag's data type, whatever the decoder, the source data type and
  the transform; and processing it under the canonical configuration yields the same value or
  the same error.
\<close>

theorem process_reading_sample_typed:
  assumes "decoders_ok (se_decoders env)" and "normalize_config env TypeReading d raw = Inr (config, deps)"
  shows "process_reading_sample env d config sample = process_reading_sample env d raw sample \<and>
    (\<forall>v. process_reading_sample env d raw sample = Inr v \<longrightarrow> has_data_type d v)"
proof -
  obtain input reading where raw: "raw = ReadingConfig input" "config = ReadingConfig reading"
    and n: "normalize_reading_config (se_decoders env) d input = Inr reading"
    using assms(2) by (auto simp: normalize_config_def bindE_Inr_iff split: tag_config.splits)
  note n2 = normalize_reading_idem [OF assms(1) n]
  have "process_reading_sample env d config sample = process_reading_sample env d raw sample"
    using n n2 by (simp add: process_reading_sample_def normalize_config_def raw)
  moreover have "has_data_type d v" if "process_reading_sample env d raw sample = Inr v" for v
    using that n process_normalized_typed [OF assms(1)]
    by (simp add: process_reading_sample_def normalize_config_def raw)
  ultimately show ?thesis by blast
qed

definition sample_of_byte :: "byte \<Rightarrow> datasource_sample" where
  "sample_of_byte b = \<lparr>smp_observed_at = 5, smp_quality = ''good'', smp_raw = [b], smp_error = []\<rparr>"

theorem process_reading_sample_typed_witness:
  "process_reading_sample sample_env DTBool sample_reading (sample_of_byte 4) = Inr (VBool True) \<and>
   has_data_type DTBool (VBool True)"
proof -
  have "decoders_ok (se_decoders sample_env)" by (simp add: sample_env_def)
  moreover have "process_reading_sample sample_env DTBool sample_reading (sample_of_byte 4) = Inr (VBool True)"
    unfolding process_reading_sample_def sample_reading_normal
    by (simp add: process_normalized_sample_def sample_of_byte_def sample_env_def server_env_def server_decoders_def
        binary_numeric_decoder_def source_data_type_def binary_numeric_decode_def decode_binary_def
        normalize_binary_config_def binary_data_size_def conversion_of_def convert_binary_def
        coerce_tag_value_def apply_transform_def Let_def)
  ultimately show ?thesis
    using process_reading_sample_typed [OF _ sample_reading_normal, of "sample_of_byte 4"] by blast
qed

section \<open>What the table keeps\<close>

text \<open>
  Requests are taken one at a time (two updates that overlap are the subject of
  \<open>concurrent_saves_make_cycle\<close>).
\<close>

definition canonical_config :: "service_env \<Rightarrow> tag_entity \<Rightarrow> bool" where
  "canonical_config env e =
     (case te_type e of
        TypeConstant \<Rightarrow> (\<exists>v. has_data_type (te_data_type e) v \<and> te_config e = ConstantConfig (Some (se_marshal env v)))
      | _ \<Rightarrow> (\<exists>deps. normalize_config env (te_type e) (te_data_type e) (te_config e) = Inr (te_config e, deps)))"

definition tag_entity_ok :: "service_env \<Rightarrow> tag_entity \<Rightarrow> bool" where
  "tag_entity_ok env e \<longleftrightarrow>
     validate_tag_name (te_name e) = Inr (te_name e) \<and>
     validate_tag_shape (te_type e) (te_data_type e) (te_datasource e) = Inr () \<and> canonical_config env e"

definition tag_rows_ok :: "uuid set \<Rightarrow> (uuid \<times> uuid) list \<Rightarrow> bool" where
  "tag_rows_ok tags rows \<longleftrightarrow>
     acyclic (edges (rows_graph rows)) \<and> distinct rows \<and>
     (\<forall>(a, b) \<in> set rows. a \<in> tags \<and> b \<in> tags \<and> a \<noteq> b)"

definition tag_repository_inv :: "service_env \<Rightarrow> tag_repository \<Rightarrow> bool" where
  "tag_repository_inv env r \<longleftrightarrow>
     distinct (map te_id (tr_tags r)) \<and> distinct (map te_name (tr_tags r)) \<and>
     (\<forall>e \<in> set (tr_tags r). tag_entity_ok env e) \<and>
     tag_rows_ok (te_id ` set (tr_tags r)) (tr_rows r)"

inductive tag_service_step :: "service_env \<Rightarrow> tag_repository \<Rightarrow> tag_repository \<Rightarrow> bool"
  for env :: service_env where
  step_create: "create_tag env new_id input r = (res, r') \<Longrightarrow> tag_service_step env r r'"
| step_update: "update_tag env i change r = (res, r') \<Longrightarrow> tag_service_step env r r'"
| step_delete: "delete_tag i r = (dres, r') \<Longrightarrow> tag_service_step env r r'"

lemma validate_tag_name_canonical: "validate_tag_name raw = Inr name \<Longrightarrow> validate_tag_name name = Inr name"
  by (auto simp: validate_tag_name_def Let_def split: if_splits)

lemma normalize_config_canonical:
  assumes "decoders_ok (se_decoders env)"
    and "normalize_config env (te_type e) (te_data_type e) raw = Inr (config, deps)"
  shows "canonical_config env (e\<lparr>te_config := config\<rparr>)"
proof (cases "te_type e")
  case TypeReading
  then show ?thesis using assms(2) normalize_reading_idem [OF assms(1)]
    by (auto simp: canonical_config_def normalize_config_def bindE_Inr_iff split: tag_config.splits)
next
  case TypeConstant
  then show ?thesis using assms(2) typed_json_value_ok
    by (fastforce simp: canonical_config_def normalize_config_def normalize_constant_config_def
        bindE_Inr_iff split: tag_config.splits option.splits)
next
  case TypeCalculated
  then show ?thesis using assms(2) normalize_calculated_idem
    by (fastforce simp: canonical_config_def normalize_config_def bindE_Inr_iff split: tag_config.splits)
qed (use assms in \<open>simp add: normalize_config_def\<close>)

lemma prepare_create_facts:
  assumes "prepare_create env new_id input r = Inr (e, deps)" and "decoders_ok (se_decoders env)"
  shows "tag_entity_ok env e \<and> te_id e = new_id \<and> validate_dependencies r new_id deps = Inr ()"
  using assms normalize_config_canonical [OF assms(2), of e] validate_tag_name_canonical
  by (auto simp: prepare_create_def tag_entity_ok_def bindE_Inr_iff Let_def)

lemma repository_find_id: "repository_find i r = Inr e \<Longrightarrow> te_id e = i \<and> e \<in> set (tr_tags r)"
  by (auto simp: repository_find_def find_Some_iff split: option.splits)

lemma prepare_update_facts:
  assumes "prepare_update env i input r = Inr (e, deps)" and "decoders_ok (se_decoders env)"
    and "\<forall>x \<in> set (tr_tags r). tag_entity_ok env x"
  shows "tag_entity_ok env e \<and> te_id e = i \<and> validate_dependencies r i deps = Inr ()"
proof -
  obtain old where old: "repository_find i r = Inr old"
    using assms(1) by (auto simp: prepare_update_def bindE_Inr_iff)
  note old' = repository_find_id [OF old]
  then have "validate_tag_name (te_name old) = Inr (te_name old)"
    using assms(3) by (simp add: tag_entity_ok_def)
  then show ?thesis
    using assms(1) old old' normalize_config_canonical [OF assms(2)] validate_tag_name_canonical
    by (auto simp: prepare_update_def tag_entity_ok_def bindE_Inr_iff Let_def split: option.splits)
qed

lemma rows_ok_save:
  assumes "tag_rows_ok tags rows" and "validate_dependencies r i deps = Inr ()" and "tr_rows r = rows"
    and "i \<in> tags'" and "set deps \<subseteq> tags'" and "tags \<subseteq> tags'" and "distinct deps" and "i \<notin> set deps"
  shows "tag_rows_ok tags' (save_dependencies i deps rows)"
proof -
  have "acyclic (edges (rows_graph (save_dependencies i deps rows)))"
    by (rule save_keeps_acyclic) (use assms in \<open>auto simp: tag_rows_ok_def validate_dependencies_def\<close>)
  moreover have "distinct (save_dependencies i deps rows)"
    using assms(1,7) by (auto simp: save_dependencies_def tag_rows_ok_def distinct_map inj_on_def)
  moreover have "a \<in> tags' \<and> b \<in> tags' \<and> a \<noteq> b" if "(a, b) \<in> set (save_dependencies i deps rows)" for a b
  proof (cases "(a, b) \<in> set rows")
    case True
    then show ?thesis using assms(1,6) by (auto simp: tag_rows_ok_def)
  next
    case False
    then have "a = i" "b \<in> set deps" using that by (auto simp: save_dependencies_def)
    then show ?thesis using assms(4,5,8) by blast
  qed
  ultimately show ?thesis by (auto simp: tag_rows_ok_def)
qed

lemma rows_ok_filter:
  assumes "tag_rows_ok tags rows" and "\<And>a b. (a, b) \<in> set rows \<Longrightarrow> P (a, b) \<Longrightarrow> a \<in> tags' \<and> b \<in> tags'"
  shows "tag_rows_ok tags' (filter P rows)"
proof -
  have "edges (rows_graph (filter P rows)) \<subseteq> edges (rows_graph rows)"
    by (auto simp: edges_def rows_graph_def)
  then have "acyclic (edges (rows_graph (filter P rows)))"
    using assms(1) acyclic_subset by (auto simp: tag_rows_ok_def)
  then show ?thesis using assms by (fastforce simp: tag_rows_ok_def)
qed

lemma create_tag_inv [edge_inv]:
  assumes "tag_repository_inv env r" and "decoders_ok (se_decoders env)"
    and "create_tag env new_id input r = (res, r')"
  shows "tag_repository_inv env r'"
proof (cases "prepare_create env new_id input r")
  case (Inr ed)
  obtain e deps where ed: "ed = (e, deps)" by (cases ed)
  note f = prepare_create_facts [OF Inr [unfolded ed] assms(2)]
  show ?thesis
  proof (cases "fst (repository_create e deps r)")
    case Inl
    then have "r' = r" using assms(3) Inr ed
      by (auto simp: create_tag_def repository_create_def Let_def split: sum.splits if_splits prod.splits)
    then show ?thesis using assms(1) by simp
  next
    case (Inr u)
    have new: "te_id e \<notin> te_id ` set (tr_tags r)" "te_name e \<notin> te_name ` set (tr_tags r)"
      "set deps \<subseteq> te_id ` set (tr_tags r @ [e])" "distinct deps" "te_id e \<notin> set deps"
      and r': "r' = r\<lparr>tr_tags := tr_tags r @ [e], tr_rows := tr_rows r @ map (\<lambda>d. (te_id e, d)) deps\<rparr>"
      using Inr assms(3) \<open>prepare_create env new_id input r = Inr ed\<close> ed
      by (auto simp: create_tag_def repository_create_def check_tag_row_def check_dependency_rows_def
          bindE_Inr_iff Let_def split: sum.splits if_splits prod.splits)
    have "filter (\<lambda>x. fst x \<noteq> te_id e) (tr_rows r) = tr_rows r"
      using assms(1) new(1) by (force simp: tag_repository_inv_def tag_rows_ok_def intro!: filter_True)
    then have "tr_rows r' = save_dependencies (te_id e) deps (tr_rows r)"
      by (simp add: r' save_dependencies_def)
    moreover have "tag_rows_ok (te_id ` set (tr_tags r')) (save_dependencies (te_id e) deps (tr_rows r))"
      by (rule rows_ok_save [of "te_id ` set (tr_tags r)" _ r])
        (use assms(1) f new in \<open>auto simp: tag_repository_inv_def r'\<close>)
    ultimately show ?thesis using assms(1) f new by (auto simp: tag_repository_inv_def r')
  qed
qed (use assms in \<open>simp add: create_tag_def\<close>)

lemma replace_tag_ids [simp]: "map te_id (replace_tag e xs) = map te_id xs"
  by (induction xs) (auto simp: replace_tag_def)

lemma replace_tag_id_set [simp]: "te_id ` set (replace_tag e xs) = te_id ` set xs"
  using replace_tag_ids [of e xs] by (metis set_map)

lemma set_replace_tag: "set (replace_tag e xs) \<subseteq> insert e (set xs)"
  by (auto simp: replace_tag_def)

lemma replace_tag_names:
  assumes "distinct (map te_id xs)" and "distinct (map te_name xs)"
    and new: "te_name e \<notin> te_name ` set (filter (\<lambda>x. te_id x \<noteq> te_id e) xs)"
  shows "distinct (map te_name (replace_tag e xs))"
  using assms
proof (induction xs)
  case (Cons x xs)
  show ?case
  proof (cases "te_id x = te_id e")
    case True
    then have "replace_tag e xs = xs"
      using Cons.prems(1) by (auto simp: replace_tag_def image_iff intro!: map_idI)
    moreover have "filter (\<lambda>x. te_id x \<noteq> te_id e) xs = xs"
      using Cons.prems(1) True by (auto simp: image_iff intro!: filter_True)
    ultimately show ?thesis using Cons.prems True by (simp add: replace_tag_def)
  next
    case False
    then have "te_name x \<notin> te_name ` set (replace_tag e xs)"
      using Cons.prems(2,3) set_replace_tag [of e xs] by auto
    moreover have "replace_tag e (x # xs) = x # replace_tag e xs" using False by (simp add: replace_tag_def)
    ultimately show ?thesis using Cons False by simp
  qed
qed (simp add: replace_tag_def)

lemma repository_update_effect:
  "repository_update e deps r = (Inl x, r') \<Longrightarrow> r' = r"
  "repository_update e deps r = (Inr u, r') \<Longrightarrow>
     te_id e \<in> te_id ` set (tr_tags r) \<and>
     te_name e \<notin> te_name ` set (filter (\<lambda>x. te_id x \<noteq> te_id e) (tr_tags r)) \<and>
     set deps \<subseteq> te_id ` set (replace_tag e (tr_tags r)) \<and>
     distinct deps \<and> te_id e \<notin> set deps \<and>
     r' = r\<lparr>tr_tags := replace_tag e (tr_tags r),
            tr_rows := save_dependencies (te_id e) deps (tr_rows r)\<rparr>"
proof -
  let ?check = "bindE (check_tag_row (filter (\<lambda>x. te_id x \<noteq> te_id e) (tr_tags r)) (tr_datasources r) e)
      (\<lambda>u. check_dependency_rows (replace_tag e (tr_tags r)) (te_id e) deps)"
  show "repository_update e deps r = (Inl x, r') \<Longrightarrow> r' = r"
    by (cases ?check) (simp_all add: repository_update_def Let_def split: if_splits)
  assume a: "repository_update e deps r = (Inr u, r')"
  then obtain v where c: "?check = Inr v"
    by (cases ?check) (simp_all add: repository_update_def Let_def split: if_splits)
  have "te_name e \<notin> te_name ` set (filter (\<lambda>x. te_id x \<noteq> te_id e) (tr_tags r))"
    using c by (simp add: check_tag_row_def bindE_Inr_iff split: if_splits)
  moreover have "set deps \<subseteq> te_id ` set (replace_tag e (tr_tags r)) \<and>
      distinct deps \<and> te_id e \<notin> set deps"
    using c unfolding check_dependency_rows_def bindE_Inr_iff by (metis Inl_Inr_False)
  ultimately show "te_id e \<in> te_id ` set (tr_tags r) \<and>
     te_name e \<notin> te_name ` set (filter (\<lambda>x. te_id x \<noteq> te_id e) (tr_tags r)) \<and>
     set deps \<subseteq> te_id ` set (replace_tag e (tr_tags r)) \<and>
     distinct deps \<and> te_id e \<notin> set deps \<and>
     r' = r\<lparr>tr_tags := replace_tag e (tr_tags r),
            tr_rows := save_dependencies (te_id e) deps (tr_rows r)\<rparr>"
    using a c by (simp add: repository_update_def Let_def split: if_splits)
qed

lemma update_tag_inv [edge_inv]:
  assumes "tag_repository_inv env r" and "decoders_ok (se_decoders env)"
    and "update_tag env i input r = (res, r')"
  shows "tag_repository_inv env r'"
proof (cases "prepare_update env i input r")
  case (Inr ed)
  obtain e deps where ed: "ed = (e, deps)" by (cases ed)
  have "\<forall>x \<in> set (tr_tags r). tag_entity_ok env x" using assms(1) by (simp add: tag_repository_inv_def)
  note f = prepare_update_facts [OF Inr [unfolded ed] assms(2) this]
  obtain v r2 where up: "repository_update e deps r = (v, r2)" by fastforce
  have r2: "r2 = r'" using assms(3) Inr ed up by (auto simp: update_tag_def split: sum.splits)
  show ?thesis
  proof (cases v)
    case Inl
    then show ?thesis using assms(1) repository_update_effect(1) up r2 by metis
  next
    case (Inr u)
    let ?tags = "replace_tag e (tr_tags r)"
    have new: "te_id e \<in> te_id ` set (tr_tags r)"
      "te_name e \<notin> te_name ` set (filter (\<lambda>x. te_id x \<noteq> te_id e) (tr_tags r))"
      "set deps \<subseteq> te_id ` set ?tags" "distinct deps" "te_id e \<notin> set deps"
      and r': "r' = r\<lparr>tr_tags := ?tags, tr_rows := save_dependencies (te_id e) deps (tr_rows r)\<rparr>"
      using repository_update_effect(2) [of e deps r u r2] Inr up r2 by blast+
    have names: "distinct (map te_name ?tags)"
      using replace_tag_names [OF _ _ new(2)] assms(1) by (simp add: tag_repository_inv_def)
    have "tag_rows_ok (te_id ` set ?tags) (save_dependencies (te_id e) deps (tr_rows r))"
      by (rule rows_ok_save [of "te_id ` set (tr_tags r)" _ r])
        (use assms(1) f new in \<open>simp_all add: tag_repository_inv_def\<close>)
    moreover have "\<forall>x \<in> set ?tags. tag_entity_ok env x"
      using assms(1) f set_replace_tag [of e "tr_tags r"] by (auto simp: tag_repository_inv_def)
    ultimately show ?thesis using assms(1) names by (simp add: tag_repository_inv_def r')
  qed
qed (use assms in \<open>simp add: update_tag_def\<close>)

lemma delete_tag_inv [edge_inv]:
  assumes "tag_repository_inv env r" and "delete_tag i r = (res, r')"
  shows "tag_repository_inv env r'"
proof (cases "i \<in> te_id ` set (tr_tags r)")
  case True
  have "tag_rows_ok (te_id ` set (filter (\<lambda>x. te_id x \<noteq> i) (tr_tags r)))
      (filter (\<lambda>e. fst e \<noteq> i \<and> snd e \<noteq> i) (tr_rows r))"
    by (rule rows_ok_filter [of "te_id ` set (tr_tags r)"])
      (use assms(1) in \<open>force simp: tag_repository_inv_def tag_rows_ok_def\<close>)+
  then show ?thesis using assms True
    by (auto simp: delete_tag_def repository_delete_def tag_repository_inv_def distinct_map_filter)
qed (use assms in \<open>simp add: delete_tag_def repository_delete_def\<close>)

definition empty_repository :: "tag_repository \<Rightarrow> bool" where
  "empty_repository r \<longleftrightarrow> tr_tags r = [] \<and> tr_rows r = []"

interpretation tag_service: invariant_system empty_repository
  "tag_service_step (server_env parse_uuid marshal)" "tag_repository_inv (server_env parse_uuid marshal)"
  for parse_uuid marshal
proof unfold_locales
  show "empty_repository r \<Longrightarrow> tag_repository_inv (server_env parse_uuid marshal) r" for r
    by (simp add: empty_repository_def tag_repository_inv_def tag_rows_ok_def edges_def rows_graph_def acyclic_def)
  show "tag_repository_inv (server_env parse_uuid marshal) r \<Longrightarrow>
      tag_service_step (server_env parse_uuid marshal) r t \<Longrightarrow>
      tag_repository_inv (server_env parse_uuid marshal) t" for r t
    by (elim tag_service_step.cases) (auto dest: create_tag_inv update_tag_inv delete_tag_inv)
qed

text \<open>
  C13: whatever the requests to create, change and delete tags, in the tables of the server every
  tag has a valid name that no other tag has, a valid shape and a canonical configuration, and
  the dependency rows are between distinct existing tags, without duplicates and without a cycle.
\<close>

theorem tag_repository_reachable_inv:
  assumes "reachable empty_repository (tag_service_step (server_env parse_uuid marshal)) r"
  shows "tag_repository_inv (server_env parse_uuid marshal) r"
  using assms by (rule tag_service.reachable_inv)

definition sample_create :: "string \<Rightarrow> create_input" where
  "sample_create name = \<lparr>ci_datasource = Some 3, ci_name = name, ci_type = TypeReading, ci_data_type = DTBool,
     ci_description = None, ci_enabled = None, ci_config = sample_reading\<rparr>"

definition sample_repository :: tag_repository where
  "sample_repository = \<lparr>tr_tags = [], tr_rows = [], tr_datasources = [3]\<rparr>"

lemma sample_name [simp]: "validate_tag_name ''x'' = Inr ''x''"
proof -
  have "trim_space ''x'' = ''x''" by (rule trim_space_plain; simp add: plain_char_ascii)
  moreover have "rune_count ''x'' \<le> 100" by code_simp
  ultimately show ?thesis by (simp add: validate_tag_name_def)
qed

lemma sample_create_result:
  "\<exists>e. create_tag sample_env 9 (sample_create ''x'') sample_repository =
     (Inr e, sample_repository\<lparr>tr_tags := [e]\<rparr>) \<and> te_id e = 9 \<and> te_name e = ''x''"
  by (simp add: create_tag_def prepare_create_def sample_create_def sample_reading_normal
      validate_tag_shape_def valid_tag_type_def validate_calculated_trigger_def validate_dependencies_def
      validate_dependency_graph_def repository_create_def check_tag_row_def check_dependency_rows_def
      sample_repository_def Let_def)

theorem tag_repository_reachable_inv_witness:
  "\<exists>r. tag_repository_inv sample_env r \<and> map te_id (tr_tags r) = [9]"
proof -
  obtain e where e: "create_tag sample_env 9 (sample_create ''x'') sample_repository =
      (Inr e, sample_repository\<lparr>tr_tags := [e]\<rparr>)" "te_id e = 9"
    using sample_create_result by blast
  have "reachable empty_repository (tag_service_step sample_env) sample_repository"
    by (rule reachable_init) (simp add: empty_repository_def sample_repository_def)
  then have "reachable empty_repository (tag_service_step sample_env) (sample_repository\<lparr>tr_tags := [e]\<rparr>)"
    using step_create [OF e(1)] by (rule reachable_step)
  then have "tag_repository_inv sample_env (sample_repository\<lparr>tr_tags := [e]\<rparr>)"
    unfolding sample_env_def by (rule tag_repository_reachable_inv)
  then show ?thesis using e(2) by (intro exI [of _ "sample_repository\<lparr>tr_tags := [e]\<rparr>"]) simp
qed

end
