(* ===== verification/Value_Store.thy ===== *)
theory Value_Store
  imports Tag_Value Edge_Interfaces
begin

text \<open>
  The in-memory store of tag values, \<open>internal/tag/value_store.go\<close>: the latest value and a
  short history per tag, one sequence for the whole store, and the subscribers a put is
  offered to. Every method holds the store's mutex, so it is one step on the state. Go's
  iteration order over a map is an argument (\<open>ord\<close>) where a result depends on it. The
  sequence is a uint64: the invariant is about fewer than \<open>2 ^ 64 - 1\<close> puts.
\<close>

definition history_limit :: nat where "history_limit = 10"
definition event_buffer :: nat where "event_buffer = 64"

record value_subscriber =
  vsub_tag_ids :: "uuid set"
  vsub_stream :: "tag_value chan"
  vsub_disconnect_on_lag :: bool

text \<open>
  A closed subscriber leaves the map of the store; its stream stays with the client, which may
  still drain it, and is kept in \<open>vs_closed\<close>.
\<close>

record value_store =
  vs_sequence :: "64 word"
  vs_latest :: "uuid \<rightharpoonup> tag_value"
  vs_history :: "uuid \<rightharpoonup> tag_value list"
  vs_subscribers :: "64 word \<rightharpoonup> value_subscriber"
  vs_next_subscriber :: "64 word"
  vs_closed :: "64 word \<rightharpoonup> tag_value chan"

definition new_value_store :: value_store where
  "new_value_store = \<lparr>vs_sequence = 0, vs_latest = Map.empty, vs_history = Map.empty,
     vs_subscribers = Map.empty, vs_next_subscriber = 0, vs_closed = Map.empty\<rparr>"

section \<open>Putting a value\<close>

definition subscriber_matches :: "value_subscriber \<Rightarrow> uuid \<Rightarrow> bool" where
  "subscriber_matches sub tag \<longleftrightarrow> vsub_tag_ids sub = {} \<or> tag \<in> vsub_tag_ids sub"

text \<open>One iteration of the loop of \<open>Put\<close>: the subscriber after it, or the stream it closed.\<close>

definition offer_subscriber ::
  "tag_value \<Rightarrow> value_subscriber \<Rightarrow> tag_value chan + value_subscriber" where
  "offer_subscriber v sub =
     (if \<not> subscriber_matches sub (tv_tag_id v) then Inr sub
      else case chan_offer v (vsub_stream sub) of
        Some c \<Rightarrow> Inr (sub\<lparr>vsub_stream := c\<rparr>)
      | None \<Rightarrow>
          if vsub_disconnect_on_lag sub then Inl (chan_close (vsub_stream sub))
          else Inr (sub\<lparr>vsub_stream := chan_offer_latest v (vsub_stream sub)\<rparr>))"

definition deliver_value :: "tag_value \<Rightarrow> value_store \<Rightarrow> value_store" where
  "deliver_value v s = s\<lparr>
     vs_subscribers := (\<lambda>i. case vs_subscribers s i of None \<Rightarrow> None
        | Some sub \<Rightarrow> (case offer_subscriber v sub of Inl c \<Rightarrow> None | Inr sub' \<Rightarrow> Some sub')),
     vs_closed := (\<lambda>i. case vs_subscribers s i of None \<Rightarrow> vs_closed s i
        | Some sub \<Rightarrow> (case offer_subscriber v sub of Inl c \<Rightarrow> Some c | Inr sub' \<Rightarrow> vs_closed s i))\<rparr>"

definition history_of :: "value_store \<Rightarrow> uuid \<Rightarrow> tag_value list" where
  "history_of s tag = (case vs_history s tag of None \<Rightarrow> [] | Some h \<Rightarrow> h)"

definition push_history :: "tag_value \<Rightarrow> tag_value list \<Rightarrow> tag_value list" where
  "push_history v h =
     (let history = h @ [v]
      in if length history > history_limit then drop (length history - history_limit) history
         else history)"

definition store_value :: "gotime \<Rightarrow> tag_value \<Rightarrow> value_store \<Rightarrow> tag_value \<times> value_store" where
  "store_value now value s =
     (let sequence = vs_sequence s + 1;
          value = value\<lparr>tv_sequence := sequence, tv_stored_at := now\<rparr>;
          tag = tv_tag_id value
      in (value, deliver_value value (s\<lparr>vs_sequence := sequence,
             vs_latest := (vs_latest s)(tag \<mapsto> value),
             vs_history := (vs_history s)(tag \<mapsto> push_history value (history_of s tag))\<rparr>)))"

definition value_store_put ::
  "gotime \<Rightarrow> tag_value \<Rightarrow> value_store \<Rightarrow> (value_error + tag_value) \<times> value_store" where
  "value_store_put now value s =
     (case normalize_tag_value value of
        Inl e \<Rightarrow> (Inl e, s)
      | Inr value \<Rightarrow> let (stored, s') = store_value now value s in (Inr stored, s'))"

section \<open>Restoring and reading\<close>

definition restore_entry ::
  "tag_value \<Rightarrow> uuid set \<times> tag_value list \<Rightarrow> value_error + (uuid set \<times> tag_value list)" where
  "restore_entry value acc =
     bindE (normalize_tag_value value) (\<lambda>entry.
       if tv_sequence entry = 0 \<or> tv_stored_at entry = 0 then Inl ErrInvalidTagValue
       else if tv_tag_id entry \<in> fst acc then Inl ErrInvalidTagValue
       else Inr (insert (tv_tag_id entry) (fst acc), snd acc @ [entry]))"

definition restore_value :: "tag_value \<Rightarrow> value_store \<Rightarrow> value_store" where
  "restore_value value s = s\<lparr>
     vs_latest := (vs_latest s)(tv_tag_id value \<mapsto> value),
     vs_history := (vs_history s)(tv_tag_id value \<mapsto> [value]),
     vs_sequence := (if tv_sequence value > vs_sequence s then tv_sequence value else vs_sequence s)\<rparr>"

definition restore_latest ::
  "tag_value list \<Rightarrow> value_store \<Rightarrow> (value_error + unit) \<times> value_store" where
  "restore_latest values s =
     (case foldE restore_entry values ({}, []) of
        Inl e \<Rightarrow> (Inl e, s)
      | Inr (seen, normalized) \<Rightarrow>
          if vs_sequence s \<noteq> 0 \<or> dom (vs_latest s) \<noteq> {} \<or> dom (vs_history s) \<noteq> {}
          then (Inl ErrTagValueStoreInUse, s)
          else (Inr (), fold restore_value normalized s))"

definition latest_value :: "uuid \<Rightarrow> value_store \<Rightarrow> tag_value option" where
  "latest_value tag s = vs_latest s tag"

definition snapshot_values :: "uuid list \<Rightarrow> value_store \<Rightarrow> (uuid \<rightharpoonup> tag_value)" where
  "snapshot_values tags s = vs_latest s |` set tags"

definition history_values :: "uuid \<Rightarrow> int \<Rightarrow> value_store \<Rightarrow> tag_value list" where
  "history_values tag limit0 s =
     (let limit = (if limit0 \<le> 0 \<or> limit0 > int history_limit then int history_limit else limit0);
          history = history_of s tag
      in if int (length history) > limit then drop (length history - nat limit) history else history)"

text \<open>\<open>ValueSnapshot.Resolve\<close>; a cancelled context is \<open>Inl None\<close>.\<close>

definition snapshot_resolve ::
  "bool \<Rightarrow> (uuid \<rightharpoonup> tag_value) \<Rightarrow> uuid \<Rightarrow> value_error option + gval" where
  "snapshot_resolve cancelled snapshot tag =
     (if cancelled then Inl None
      else case snapshot tag of
        None \<Rightarrow> Inl (Some ErrTagValueNotFound)
      | Some value \<Rightarrow>
          if tv_quality value \<noteq> QualityGood then Inl (Some ErrTagValueUnavailable)
          else Inr (tv_value value))"

section \<open>Subscribing\<close>

definition new_subscriber :: "uuid list \<Rightarrow> nat \<Rightarrow> bool \<Rightarrow> value_subscriber" where
  "new_subscriber tags buffer disconnect =
     \<lparr>vsub_tag_ids = set tags - {uuid_nil}, vsub_stream = make_chan buffer,
      vsub_disconnect_on_lag = disconnect\<rparr>"

definition add_subscriber :: "value_subscriber \<Rightarrow> value_store \<Rightarrow> 64 word \<times> value_store" where
  "add_subscriber sub s =
     (let i = vs_next_subscriber s + 1
      in (i, s\<lparr>vs_next_subscriber := i, vs_subscribers := (vs_subscribers s)(i \<mapsto> sub)\<rparr>))"

text \<open>\<open>Subscribe\<close>: the filter's tags are visited in the order \<open>ord\<close>.\<close>

definition subscribe ::
  "uuid list \<Rightarrow> uuid list \<Rightarrow> value_store \<Rightarrow> 64 word \<times> value_store" where
  "subscribe ord tags s =
     (let sub = new_subscriber tags (history_limit + 1) False;
          stream = fold (\<lambda>tag c. case vs_latest s tag of None \<Rightarrow> c | Some v \<Rightarrow> chan_offer_latest v c)
            (filter (\<lambda>tag. tag \<in> vsub_tag_ids sub) ord) (vsub_stream sub)
      in add_subscriber (sub\<lparr>vsub_stream := stream\<rparr>) s)"

text \<open>\<open>SubscribeValues\<close>: \<open>ord\<close> is the order in which the latest values are visited.\<close>

definition replay_values :: "uuid list \<Rightarrow> value_subscriber \<Rightarrow> 64 word \<Rightarrow> value_store \<Rightarrow> tag_value list" where
  "replay_values ord sub after s =
     sort_key tv_sequence
       (filter (\<lambda>v. tv_sequence v > after) (List.map_filter (vs_latest s)
         (filter (subscriber_matches sub) ord)))"

definition subscribe_values ::
  "uuid list \<Rightarrow> uuid list \<Rightarrow> 64 word \<Rightarrow> value_store \<Rightarrow> (64 word \<times> tag_value list) \<times> value_store" where
  "subscribe_values ord tags after s =
     (let sub = new_subscriber tags event_buffer True; (i, s') = add_subscriber sub s
      in ((i, replay_values ord sub after s), s'))"

definition unsubscribe :: "64 word \<Rightarrow> value_store \<Rightarrow> value_store" where
  "unsubscribe i s =
     (case vs_subscribers s i of
        None \<Rightarrow> s
      | Some sub \<Rightarrow> s\<lparr>vs_subscribers := (vs_subscribers s)(i := None),
          vs_closed := (vs_closed s)(i \<mapsto> chan_close (vsub_stream sub))\<rparr>)"

text \<open>The client of subscription \<open>i\<close> receives from its stream.\<close>

definition receive_value :: "64 word \<Rightarrow> value_store \<Rightarrow> (tag_value \<times> value_store) option" where
  "receive_value i s =
     (case vs_subscribers s i of
        Some sub \<Rightarrow>
          (case chan_poll (vsub_stream sub) of None \<Rightarrow> None
           | Some (v, c) \<Rightarrow> Some (v, s\<lparr>vs_subscribers := (vs_subscribers s)(i \<mapsto> sub\<lparr>vsub_stream := c\<rparr>)\<rparr>))
      | None \<Rightarrow>
          (case vs_closed s i of None \<Rightarrow> None
           | Some ch \<Rightarrow> (case chan_poll ch of None \<Rightarrow> None
               | Some (v, c) \<Rightarrow> Some (v, s\<lparr>vs_closed := (vs_closed s)(i \<mapsto> c)\<rparr>))))"

lemmas value_store_ops = value_store_put_def store_value_def deliver_value_def
  restore_latest_def subscribe_def subscribe_values_def add_subscriber_def unsubscribe_def

section \<open>A subscriber's view\<close>

definition stream_queue :: "64 word \<Rightarrow> value_store \<Rightarrow> tag_value list" where
  "stream_queue i s = (case vs_subscribers s i of
     Some sub \<Rightarrow> ch_queue (vsub_stream sub)
   | None \<Rightarrow> (case vs_closed s i of Some c \<Rightarrow> ch_queue c | None \<Rightarrow> []))"

definition stream_live :: "64 word \<Rightarrow> value_store \<Rightarrow> bool" where
  "stream_live i s \<longleftrightarrow> vs_subscribers s i \<noteq> None"

definition stream_room :: "64 word \<Rightarrow> value_store \<Rightarrow> bool" where
  "stream_room i s = (case vs_subscribers s i of
     Some sub \<Rightarrow> length (ch_queue (vsub_stream sub)) < ch_capacity (vsub_stream sub) | None \<Rightarrow> False)"

definition stream_wants :: "64 word \<Rightarrow> value_store \<Rightarrow> tag_value \<Rightarrow> bool" where
  "stream_wants i s v = (case vs_subscribers s i of
     Some sub \<Rightarrow> subscriber_matches sub (tv_tag_id v) | None \<Rightarrow> False)"

definition stream_strict :: "64 word \<Rightarrow> value_store \<Rightarrow> bool" where
  "stream_strict i s \<longleftrightarrow> (\<forall>sub. vs_subscribers s i = Some sub \<longrightarrow> vsub_disconnect_on_lag sub)"

lemmas stream_defs = stream_queue_def stream_live_def stream_room_def stream_wants_def stream_strict_def

interpretation value_feed: lossy_subscriber deliver_value "receive_value i"
  "stream_queue i" "stream_live i" "stream_room i" "stream_wants i" "stream_strict i" for i
proof unfold_locales
  fix s e assume "stream_strict i s" "stream_live i s" "stream_wants i s e" "stream_room i s"
  then show "stream_live i (deliver_value e s) \<and>
      stream_queue i (deliver_value e s) = stream_queue i s @ [e]"
    by (auto simp: stream_defs deliver_value_def offer_subscriber_def chan_offer_def)
next
  fix s e assume "stream_strict i s" "stream_live i s" "stream_wants i s e" "\<not> stream_room i s"
  then show "\<not> stream_live i (deliver_value e s) \<and>
      stream_queue i (deliver_value e s) = stream_queue i s"
    by (auto simp: stream_defs deliver_value_def offer_subscriber_def chan_defs)
next
  fix s e assume "stream_strict i s" "\<not> stream_live i s \<or> \<not> stream_wants i s e"
  then show "stream_live i (deliver_value e s) = stream_live i s \<and>
      stream_queue i (deliver_value e s) = stream_queue i s"
    by (auto simp: stream_defs deliver_value_def offer_subscriber_def split: option.splits)
next
  fix s e assume "stream_strict i s" "stream_live i s" "stream_live i (deliver_value e s)"
  then show "stream_wants i (deliver_value e s) = stream_wants i s"
    by (auto simp: stream_defs deliver_value_def offer_subscriber_def subscriber_matches_def fun_eq_iff
        split: option.splits sum.splits if_splits)
next
  fix s assume "stream_strict i s"
  show "receive_value i s = None \<longleftrightarrow> stream_queue i s = []"
    by (auto simp: stream_defs receive_value_def chan_poll_def split: option.splits list.splits)
next
  fix s e s' assume "stream_strict i s" "receive_value i s = Some (e, s')"
  then show "stream_queue i s = e # stream_queue i s' \<and> stream_live i s' = stream_live i s \<and>
      (stream_live i s \<longrightarrow> stream_wants i s' = stream_wants i s)"
    by (auto simp: stream_defs receive_value_def chan_poll_def subscriber_matches_def fun_eq_iff
        split: option.splits list.splits)
next
  fix s e assume "stream_strict i s"
  then show "stream_strict i (deliver_value e s)"
    by (auto simp: stream_defs deliver_value_def offer_subscriber_def
        split: option.splits sum.splits if_splits)
next
  fix s e s' assume "stream_strict i s" "receive_value i s = Some (e, s')"
  then show "stream_strict i s'"
    by (auto simp: stream_defs receive_value_def split: option.splits)
qed

interpretation tag_history: recent_buffer push_history id "\<lambda>h. history_limit"
  by unfold_locales (auto simp: push_history_def keep_last_def Let_def)

section \<open>The invariant of the store\<close>

definition increasing :: "tag_value list \<Rightarrow> bool" where
  "increasing vs \<longleftrightarrow> sorted_wrt (\<lambda>a b. tv_sequence a < tv_sequence b) vs"

text \<open>A tag's entry: the latest value is well formed, its history ends with it, in order.\<close>

definition tag_entry_ok :: "64 word \<Rightarrow> uuid \<Rightarrow> tag_value \<Rightarrow> tag_value list \<Rightarrow> bool" where
  "tag_entry_ok sequence tag v h \<longleftrightarrow>
     h \<noteq> [] \<and> last h = v \<and> length h \<le> history_limit \<and> increasing h \<and>
     (\<forall>w \<in> set h. tag_value_ok w \<and> tv_tag_id w = tag \<and> 0 < tv_sequence w \<and> tv_sequence w \<le> sequence)"

definition entries_ok :: "value_store \<Rightarrow> bool" where
  "entries_ok s \<longleftrightarrow>
     dom (vs_history s) = dom (vs_latest s) \<and>
     (\<forall>tag v. vs_latest s tag = Some v \<longrightarrow> tag_entry_ok (vs_sequence s) tag v (history_of s tag))"

definition streams_ok :: "value_store \<Rightarrow> bool" where
  "streams_ok s \<longleftrightarrow>
     (\<forall>i sub. vs_subscribers s i = Some sub \<longrightarrow>
        \<not> ch_closed (vsub_stream sub) \<and> 0 < ch_capacity (vsub_stream sub) \<and>
        length (ch_queue (vsub_stream sub)) \<le> ch_capacity (vsub_stream sub))"

definition value_store_inv :: "value_store \<Rightarrow> bool" where
  "value_store_inv s \<longleftrightarrow> entries_ok s \<and> streams_ok s"

lemma word_le_less_succ: "x \<le> y \<Longrightarrow> y \<noteq> - 1 \<Longrightarrow> x < y + (1 :: 'a::len word)"
proof -
  assume "x \<le> y" and "y \<noteq> - 1"
  then have "1 + y \<noteq> 0" by (simp add: eq_neg_iff_add_eq_0 add.commute)
  then have "unat (y + 1) = Suc (unat y)" using unatSuc [of y] by (simp add: add.commute)
  with \<open>x \<le> y\<close> show ?thesis by (simp add: word_less_nat_alt word_le_nat_alt)
qed

lemma deliver_keeps [simp]:
  "vs_sequence (deliver_value v s) = vs_sequence s"
  "vs_latest (deliver_value v s) = vs_latest s"
  "vs_history (deliver_value v s) = vs_history s"
  "history_of (deliver_value v s) = history_of s"
  by (simp_all add: deliver_value_def history_of_def fun_eq_iff)

lemma deliver_streams_ok: "streams_ok s \<Longrightarrow> streams_ok (deliver_value v s)"
proof (unfold streams_ok_def, intro allI impI)
  fix i sub' assume inv: "\<forall>i sub. vs_subscribers s i = Some sub \<longrightarrow>
        \<not> ch_closed (vsub_stream sub) \<and> 0 < ch_capacity (vsub_stream sub) \<and>
        length (ch_queue (vsub_stream sub)) \<le> ch_capacity (vsub_stream sub)"
    and sub': "vs_subscribers (deliver_value v s) i = Some sub'"
  then obtain sub where sub: "vs_subscribers s i = Some sub" and off: "offer_subscriber v sub = Inr sub'"
    by (auto simp: deliver_value_def split: option.splits sum.splits)
  from inv sub have c: "0 < ch_capacity (vsub_stream sub)"
    "length (ch_queue (vsub_stream sub)) \<le> ch_capacity (vsub_stream sub)"
    "\<not> ch_closed (vsub_stream sub)" by auto
  from off c show "\<not> ch_closed (vsub_stream sub') \<and> 0 < ch_capacity (vsub_stream sub') \<and>
      length (ch_queue (vsub_stream sub')) \<le> ch_capacity (vsub_stream sub')"
    by (auto simp: offer_subscriber_def chan_offer_def chan_offer_latest_queue split: if_splits)
qed

lemma increasing_snoc:
  "increasing h \<Longrightarrow> \<forall>w \<in> set h. tv_sequence w < tv_sequence v \<Longrightarrow> increasing (h @ [v])"
  by (simp add: increasing_def sorted_wrt_append)

lemma increasing_keep_last: "increasing h \<Longrightarrow> increasing (keep_last n h)"
  unfolding increasing_def keep_last_def by (rule sorted_wrt_drop)

lemma push_history_entry:
  assumes "h = [] \<or> tag_entry_ok n tag u h" and "tag_value_ok v" and "tv_tag_id v = tag"
    and "tv_sequence v = n + 1" and "n \<noteq> - 1"
  shows "tag_entry_ok (n + 1) tag v (push_history v h)"
proof -
  have "length h \<le> history_limit" using assms(1) unfolding tag_entry_ok_def
    by (metis le0 list.size(3))
  then have len: "0 < history_limit" "length (id h) \<le> history_limit"
    by (simp_all add: history_limit_def)
  have p: "push_history v h = keep_last history_limit (h @ [v])"
    using tag_history.contents_push [OF len] by simp
  have old: "w \<in> set h \<Longrightarrow> tv_sequence w < n + 1" for w
  proof -
    assume "w \<in> set h"
    then have "tv_sequence w \<le> n" using assms(1) by (auto simp: tag_entry_ok_def)
    then show ?thesis using assms(5) by (rule word_le_less_succ)
  qed
  have inc: "increasing (h @ [v])"
    using assms(1,4) old by (intro increasing_snoc) (auto simp: tag_entry_ok_def increasing_def)
  have "0 < n + 1" using assms(5) by (metis gr_zeroI linorder_not_le word_le_less_succ word_zero_le)
  then have "\<forall>w \<in> set (h @ [v]). tag_value_ok w \<and> tv_tag_id w = tag \<and> 0 < tv_sequence w \<and> tv_sequence w \<le> n + 1"
    using assms(1-4) old by (auto simp: tag_entry_ok_def less_imp_le)
  then have "\<forall>w \<in> set (push_history v h). tag_value_ok w \<and> tv_tag_id w = tag \<and> 0 < tv_sequence w \<and> tv_sequence w \<le> n + 1"
    unfolding p using set_keep_last [of history_limit "h @ [v]"] by blast
  moreover have "push_history v h \<noteq> [] \<and> last (push_history v h) = v"
    unfolding p using last_keep_last [OF len(1), of "h @ [v]"] by simp
  moreover have "increasing (push_history v h)" unfolding p by (rule increasing_keep_last [OF inc])
  moreover have "length (push_history v h) \<le> history_limit" by (simp add: p)
  ultimately show ?thesis unfolding tag_entry_ok_def by blast
qed

lemma store_value_inv [edge_inv]:
  assumes "value_store_inv s" and "tag_value_ok v" and "vs_sequence s \<noteq> - 1"
  shows "value_store_inv (snd (store_value now v s))"
proof -
  define w where "w = v\<lparr>tv_sequence := vs_sequence s + 1, tv_stored_at := now\<rparr>"
  define t where "t = tv_tag_id v"
  have w: "tag_value_ok w" "tv_tag_id w = t" "tv_sequence w = vs_sequence s + 1"
    using assms(2) by (simp_all add: w_def t_def tag_value_ok_def)
  define s1 where "s1 = s\<lparr>vs_sequence := vs_sequence s + 1, vs_latest := (vs_latest s)(t \<mapsto> w),
     vs_history := (vs_history s)(t \<mapsto> push_history w (history_of s t))\<rparr>"
  have res: "snd (store_value now v s) = deliver_value w s1"
    by (simp add: store_value_def Let_def s1_def w_def t_def)
  have ent: "entries_ok s" and str: "streams_ok s" using assms(1) by (simp_all add: value_store_inv_def)
  have h: "history_of s t = [] \<or> (\<exists>u. tag_entry_ok (vs_sequence s) t u (history_of s t))"
  proof (cases "vs_latest s t")
    case None
    then have "vs_history s t = None" using ent by (auto simp: entries_ok_def)
    then show ?thesis by (simp add: history_of_def)
  qed (use ent in \<open>auto simp: entries_ok_def\<close>)
  then have new: "tag_entry_ok (vs_sequence s + 1) t w (push_history w (history_of s t))"
    using push_history_entry [OF _ w(1,2,3) assms(3)] by blast
  have old: "tag_entry_ok (vs_sequence s + 1) i u (history_of s i)" if "vs_latest s i = Some u" for i u
  proof -
    have "tag_entry_ok (vs_sequence s) i u (history_of s i)" using ent that by (simp add: entries_ok_def)
    then show ?thesis unfolding tag_entry_ok_def
      using less_imp_le [OF word_le_less_succ [OF _ assms(3)]] by blast
  qed
  have "entries_ok s1" using ent new old unfolding entries_ok_def
    by (auto simp: s1_def history_of_def)
  moreover have "streams_ok s1" using str by (simp add: streams_ok_def s1_def)
  ultimately have "value_store_inv (deliver_value w s1)"
    using deliver_streams_ok by (simp add: value_store_inv_def entries_ok_def)
  then show ?thesis by (simp only: res)
qed

lemma put_inv [edge_inv]:
  "value_store_inv s \<Longrightarrow> gval_ok (tv_value v) \<Longrightarrow> vs_sequence s \<noteq> - 1 \<Longrightarrow>
   value_store_inv (snd (value_store_put now v s))"
  using store_value_inv normalize_tag_value_ok
  by (auto simp: value_store_put_def split: sum.splits prod.splits) (metis snd_conv)

text \<open>Restoring: the accepted values are well formed, stamped and of distinct tags.\<close>

definition restored_ok :: "uuid set \<times> tag_value list \<Rightarrow> bool" where
  "restored_ok acc \<longleftrightarrow>
     fst acc = tv_tag_id ` set (snd acc) \<and> distinct (map tv_tag_id (snd acc)) \<and>
     (\<forall>v \<in> set (snd acc). tag_value_ok v \<and> 0 < tv_sequence v)"

lemma restore_entry_ok:
  "restored_ok acc \<Longrightarrow> gval_ok (tv_value v) \<Longrightarrow> restore_entry v acc = Inr acc' \<Longrightarrow> restored_ok acc'"
proof -
  assume acc: "restored_ok acc" and v: "gval_ok (tv_value v)" and res: "restore_entry v acc = Inr acc'"
  then obtain e where e: "normalize_tag_value v = Inr e" "tv_sequence e \<noteq> 0" "tv_tag_id e \<notin> fst acc"
    and acc': "acc' = (insert (tv_tag_id e) (fst acc), snd acc @ [e])"
    by (auto simp: restore_entry_def bindE_Inr_iff split: if_splits)
  have "tag_value_ok e" using normalize_tag_value_ok [OF v e(1)] .
  then show ?thesis using acc e(2,3) by (auto simp: restored_ok_def acc' word_gt_0)
qed

lemma restore_entries_ok:
  assumes "\<forall>v \<in> set values. gval_ok (tv_value v)"
    and "foldE restore_entry values ({}, []) = Inr acc"
  shows "restored_ok acc"
proof (rule foldE_invariant [where P = restored_ok, OF assms(2)])
  show "restored_ok ({}, [])" by (simp add: restored_ok_def)
  fix v acc acc' assume "v \<in> set values" "restored_ok acc" "restore_entry v acc = Inr acc'"
  with assms(1) show "restored_ok acc'" by (blast intro: restore_entry_ok)
qed

lemma restore_value_entries:
  assumes "entries_ok s" and "tag_value_ok v" and "0 < tv_sequence v"
  shows "entries_ok (restore_value v s)"
proof -
  have mono: "tag_entry_ok n i u h \<Longrightarrow> n \<le> m \<Longrightarrow> tag_entry_ok m i u h" for n m i u h
    unfolding tag_entry_ok_def using order_trans by blast
  have le: "vs_sequence s \<le> vs_sequence (restore_value v s)" "tv_sequence v \<le> vs_sequence (restore_value v s)"
    by (auto simp: restore_value_def)
  have hist: "history_of (restore_value v s) i = (if i = tv_tag_id v then [v] else history_of s i)" for i
    by (simp add: restore_value_def history_of_def)
  have "tag_entry_ok (vs_sequence (restore_value v s)) (tv_tag_id v) v [v]"
    using assms le by (simp add: tag_entry_ok_def increasing_def history_limit_def)
  then show ?thesis using assms(1) mono [OF _ le(1)]
    unfolding entries_ok_def hist
    by (auto simp: restore_value_def)
qed

lemma restore_inv [edge_inv]:
  assumes "value_store_inv s" and "\<forall>v \<in> set values. gval_ok (tv_value v)"
  shows "value_store_inv (snd (restore_latest values s))"
proof -
  have fold: "value_store_inv (fold restore_value vs s)"
    if "\<forall>v \<in> set vs. tag_value_ok v \<and> 0 < tv_sequence v" "value_store_inv s" for vs s
    using that
  proof (induction vs arbitrary: s)
    case (Cons v vs)
    moreover have "streams_ok (restore_value v s)"
      using Cons.prems(2) by (simp add: restore_value_def value_store_inv_def streams_ok_def)
    ultimately show ?case by (simp add: value_store_inv_def restore_value_entries)
  qed simp
  show ?thesis using restore_entries_ok [OF assms(2)] fold [OF _ assms(1)] assms(1)
    by (fastforce simp: restore_latest_def restored_ok_def split: sum.splits)
qed

lemma entries_ok_other [simp]:
  "entries_ok (s\<lparr>vs_subscribers := x\<rparr>) = entries_ok s"
  "entries_ok (s\<lparr>vs_closed := y\<rparr>) = entries_ok s"
  "entries_ok (s\<lparr>vs_next_subscriber := n\<rparr>) = entries_ok s"
  by (simp_all add: entries_ok_def history_of_def)

lemma chan_fold_latest_ok:
  fixes latest :: "uuid \<rightharpoonup> tag_value"
  assumes "0 < ch_capacity c" and "length (ch_queue c) \<le> ch_capacity c"
  defines "f \<equiv> \<lambda>tag c. case latest tag of None \<Rightarrow> c | Some v \<Rightarrow> chan_offer_latest v c"
  shows "ch_capacity (fold f tags c) = ch_capacity c \<and> ch_closed (fold f tags c) = ch_closed c \<and>
    length (ch_queue (fold f tags c)) \<le> ch_capacity c"
  using assms(1,2)
proof (induction tags arbitrary: c)
  case (Cons a tags)
  have "ch_capacity (f a c) = ch_capacity c \<and> ch_closed (f a c) = ch_closed c \<and>
      length (ch_queue (f a c)) \<le> ch_capacity c"
    using Cons.prems by (cases "latest a") (simp_all add: f_def chan_offer_latest_queue)
  with Cons.IH [of "f a c"] Cons.prems show ?case by simp
qed simp

lemma subscribe_inv [edge_inv]:
  assumes "value_store_inv s"
  shows "value_store_inv (snd (subscribe ord tags s))"
proof -
  let ?sub = "new_subscriber tags (history_limit + 1) False"
  let ?c = "fold (\<lambda>tag c. case vs_latest s tag of None \<Rightarrow> c | Some v \<Rightarrow> chan_offer_latest v c)
     (filter (\<lambda>tag. tag \<in> vsub_tag_ids ?sub) ord) (vsub_stream ?sub)"
  have "0 < ch_capacity ?c \<and> \<not> ch_closed ?c \<and> length (ch_queue ?c) \<le> ch_capacity ?c"
    using chan_fold_latest_ok [of "vsub_stream ?sub" "vs_latest s" "filter (\<lambda>tag. tag \<in> vsub_tag_ids ?sub) ord"]
    by (simp add: new_subscriber_def make_chan_def Let_def)
  then show ?thesis using assms
    by (simp add: subscribe_def Let_def add_subscriber_def value_store_inv_def entries_ok_def
        history_of_def streams_ok_def)
qed

lemma subscribe_values_inv [edge_inv]:
  "value_store_inv s \<Longrightarrow> value_store_inv (snd (subscribe_values ord tags after s))"
  by (simp add: subscribe_values_def Let_def add_subscriber_def value_store_inv_def entries_ok_def
      history_of_def streams_ok_def new_subscriber_def make_chan_def event_buffer_def)

lemma unsubscribe_inv [edge_inv]: "value_store_inv s \<Longrightarrow> value_store_inv (unsubscribe i s)"
  by (auto simp: unsubscribe_def value_store_inv_def entries_ok_def history_of_def streams_ok_def
      split: option.splits)

lemma receive_inv [edge_inv]:
  "value_store_inv s \<Longrightarrow> receive_value i s = Some (v, t) \<Longrightarrow> value_store_inv t"
proof (cases "vs_subscribers s i")
  case (Some sub)
  assume inv: "value_store_inv s" and r: "receive_value i s = Some (v, t)"
  then obtain vs where q: "ch_queue (vsub_stream sub) = v # vs" and
    t: "t = s\<lparr>vs_subscribers := (vs_subscribers s)(i \<mapsto> sub\<lparr>vsub_stream := vsub_stream sub\<lparr>ch_queue := vs\<rparr>\<rparr>)\<rparr>"
    using Some by (auto simp: receive_value_def chan_poll_def split: list.splits)
  have "streams_ok s" using inv by (simp add: value_store_inv_def)
  then have "length (v # vs) \<le> ch_capacity (vsub_stream sub)" "\<not> ch_closed (vsub_stream sub)"
    using Some q unfolding streams_ok_def by (metis, metis)
  with \<open>streams_ok s\<close> have "streams_ok t" by (simp add: t streams_ok_def)
  then show ?thesis using inv by (simp add: value_store_inv_def t)
next
  case None
  assume inv: "value_store_inv s" and r: "receive_value i s = Some (v, t)"
  then show ?thesis using None
    by (auto simp: receive_value_def value_store_inv_def streams_ok_def split: option.splits)
qed

section \<open>The store as a system\<close>

inductive value_store_step :: "value_store \<Rightarrow> value_store \<Rightarrow> bool" where
  step_put: "gval_ok (tv_value v) \<Longrightarrow> vs_sequence s \<noteq> - 1 \<Longrightarrow>
     value_store_step s (snd (value_store_put now v s))"
| step_restore: "\<forall>v \<in> set values. gval_ok (tv_value v) \<Longrightarrow>
     value_store_step s (snd (restore_latest values s))"
| step_subscribe: "value_store_step s (snd (subscribe ord tags s))"
| step_subscribe_values: "value_store_step s (snd (subscribe_values ord tags after s))"
| step_unsubscribe: "value_store_step s (unsubscribe i s)"
| step_receive: "receive_value i s = Some (v, t) \<Longrightarrow> value_store_step s t"

inductive_cases value_store_stepE: "value_store_step s t"

interpretation value_store: invariant_system "\<lambda>s. s = new_value_store" value_store_step value_store_inv
proof unfold_locales
  fix s :: value_store assume "s = new_value_store"
  then show "value_store_inv s"
    by (simp add: new_value_store_def value_store_inv_def entries_ok_def streams_ok_def)
next
  fix s t assume "value_store_inv s" "value_store_step s t"
  then show "value_store_inv t"
    by (elim value_store_stepE) (auto simp: edge_inv)
qed

text \<open>
  C4: in every state the store can reach, a tag's latest value is the end of its history, the
  history is at most ten values with strictly increasing sequences not above the store's, every
  kept value is well formed and of its data type, and no open stream exceeds its buffer.
\<close>

theorem value_store_reachable_inv:
  assumes "reachable (\<lambda>s. s = new_value_store) value_store_step s"
  shows "value_store_inv s"
  using assms by (rule value_store.reachable_inv)

definition sample_value :: tag_value where
  "sample_value = \<lparr>tv_tag_id = 7, tv_sequence = 0, tv_observed_at = 5, tv_stored_at = 0,
     tv_quality = QualityGood, tv_data_type = DTBool, tv_value = VBool True, tv_error = ''old''\<rparr>"

theorem value_store_reachable_inv_witness:
  "value_store_inv (snd (value_store_put 9 sample_value new_value_store))"
proof -
  have "value_store_step new_value_store (snd (value_store_put 9 sample_value new_value_store))"
    by (rule step_put) (simp_all add: sample_value_def new_value_store_def)
  then show ?thesis
    by (intro value_store_reachable_inv reachable_step [OF reachable_init]) simp_all
qed

lemma value_store_put_facts:
  assumes "value_store_inv s"
  shows "case value_store_put now v s of
      (Inl e, s') \<Rightarrow> s' = s \<and> normalize_tag_value v = Inl e
    | (Inr w, s') \<Rightarrow>
        tv_sequence w = vs_sequence s + 1 \<and> tv_stored_at w = now \<and>
        vs_sequence s' = vs_sequence s + 1 \<and>
        vs_latest s' = (vs_latest s)(tv_tag_id v \<mapsto> w) \<and>
        history_of s' (tv_tag_id v) = keep_last history_limit (history_of s (tv_tag_id v) @ [w]) \<and>
        (\<forall>tag. tag \<noteq> tv_tag_id v \<longrightarrow> history_of s' tag = history_of s tag)"
proof (cases "normalize_tag_value v")
  case (Inr u)
  note f = normalize_tag_value_fields [OF Inr]
  have "push_history w h = keep_last history_limit (h @ [w])" for w h
    by (simp add: push_history_def keep_last_def Let_def)
  then show ?thesis using Inr f
    by (simp add: value_store_put_def store_value_def Let_def history_of_def)
qed (simp add: value_store_put_def)

text \<open>
  What a put does. An accepted value gets the next sequence and the store time, becomes the
  latest of its tag and the newest of its history, of which the oldest beyond ten is dropped;
  other tags are untouched. A refused value changes nothing.
\<close>

theorem value_store_put_effect:
  assumes "value_store_inv s"
  shows "case value_store_put now v s of
      (Inl e, s') \<Rightarrow> s' = s \<and> normalize_tag_value v = Inl e
    | (Inr w, s') \<Rightarrow>
        tv_sequence w = vs_sequence s + 1 \<and> tv_stored_at w = now \<and>
        vs_sequence s' = vs_sequence s + 1 \<and>
        vs_latest s' = (vs_latest s)(tv_tag_id v \<mapsto> w) \<and>
        history_of s' (tv_tag_id v) = keep_last history_limit (history_of s (tv_tag_id v) @ [w]) \<and>
        (\<forall>tag. tag \<noteq> tv_tag_id v \<longrightarrow> history_of s' tag = history_of s tag)"
  using assms by (rule value_store_put_facts)

theorem value_store_put_effect_witness:
  "vs_sequence (snd (value_store_put 9 sample_value new_value_store)) = 1"
proof -
  have "value_store_inv new_value_store" by (simp add: value_store.inv_init)
  from value_store_put_effect [OF this, where now = 9 and v = sample_value] show ?thesis
    by (simp add: sample_value_def normalize_tag_value_def coerce_tag_value_def new_value_store_def
        split: prod.splits sum.splits)
qed

section \<open>Following the store\<close>

lemma set_map_filter: "set (List.map_filter f xs) = {y. \<exists>x \<in> set xs. f x = Some y}"
  by (induction xs) (auto simp: List.map_filter_def split: option.splits)

definition selects :: "uuid list \<Rightarrow> tag_value \<Rightarrow> bool" where
  "selects tags v \<longleftrightarrow> set tags - {uuid_nil} = {} \<or> tv_tag_id v \<in> set tags - {uuid_nil}"

lemma replay_set:
  assumes "value_store_inv s" and "dom (vs_latest s) \<subseteq> set ord"
  shows "set (replay_values ord (new_subscriber tags n d) after s) =
    {v \<in> ran (vs_latest s). after < tv_sequence v \<and> selects tags v}"
proof -
  have id: "tv_tag_id v = tag" if "vs_latest s tag = Some v" for tag v
  proof -
    have "tag_entry_ok (vs_sequence s) tag v (history_of s tag)"
      using assms(1) that by (simp add: value_store_inv_def entries_ok_def)
    then show ?thesis unfolding tag_entry_ok_def by (metis last_in_set)
  qed
  have "(\<exists>tag \<in> set ord. subscriber_matches (new_subscriber tags n d) tag \<and> vs_latest s tag = Some v)
      \<longleftrightarrow> v \<in> ran (vs_latest s) \<and> selects tags v" for v
    using assms(2) id
    by (auto simp: ran_def subscriber_matches_def new_subscriber_def selects_def)
  then show ?thesis by (auto simp: replay_values_def set_map_filter)
qed

text \<open>
  C5: what a \<open>SubscribeValues\<close> client sees. The replay is exactly the selected latest values
  after its cursor, in sequence order; after it, whatever the interleaving of stored values and
  receives, the client gets the selected values in order without a gap, and all of them as long
  as it is not disconnected for lagging.
\<close>

theorem subscribe_values_feed:
  assumes "value_store_inv s" and "dom (vs_latest s) \<subseteq> set ord"
    and "subscribe_values ord tags after s = ((i, replay), s1)"
    and "drive deliver_value (receive_value i) acts s1 = (out, t)"
  shows "set replay = {v \<in> ran (vs_latest s). after < tv_sequence v \<and> selects tags v} \<and>
    sorted (map tv_sequence replay) \<and>
    prefix (out @ stream_queue i t) (filter (selects tags) (published acts)) \<and>
    (stream_live i t \<longrightarrow> out @ stream_queue i t = filter (selects tags) (published acts))"
proof -
  have i: "i = vs_next_subscriber s + 1" and r: "replay = replay_values ord (new_subscriber tags event_buffer True) after s"
    and s1: "s1 = s\<lparr>vs_next_subscriber := i,
       vs_subscribers := (vs_subscribers s)(i \<mapsto> new_subscriber tags event_buffer True)\<rparr>"
    using assms(3) by (auto simp: subscribe_values_def add_subscriber_def Let_def)
  have "stream_strict i s1" "stream_live i s1" "stream_queue i s1 = []"
    by (simp_all add: stream_defs s1 new_subscriber_def make_chan_def)
  moreover have "stream_wants i s1 = selects tags"
    by (simp add: stream_wants_def s1 subscriber_matches_def new_subscriber_def selects_def fun_eq_iff)
  moreover have "sorted (map tv_sequence replay)" by (simp add: r replay_values_def)
  ultimately show ?thesis
    using value_feed.in_order [OF _ _ assms(4)] replay_set [OF assms(1,2), of tags event_buffer True after]
    by (simp add: r)
qed

theorem subscribe_values_feed_witness:
  "\<exists>t. drive deliver_value (receive_value 1) [Publish sample_value, Receive]
         (snd (subscribe_values [] [] 0 new_value_store)) = ([sample_value], t) \<and>
       prefix ([sample_value] @ stream_queue 1 t) [sample_value]"
proof -
  have inv: "value_store_inv new_value_store" by (simp add: value_store.inv_init)
  have dom: "dom (vs_latest new_value_store) \<subseteq> set []" by (simp add: new_value_store_def)
  have sub: "subscribe_values [] [] 0 new_value_store =
      ((1, []), snd (subscribe_values [] [] 0 new_value_store))"
    by (simp add: subscribe_values_def add_subscriber_def new_value_store_def replay_values_def
        List.map_filter_def)
  obtain out t where run: "drive deliver_value (receive_value 1) [Publish sample_value, Receive]
      (snd (subscribe_values [] [] 0 new_value_store)) = (out, t)" by fastforce
  moreover have "out = [sample_value]"
    using run by (auto simp: subscribe_values_def add_subscriber_def new_value_store_def
        new_subscriber_def subscriber_matches_def make_chan_def event_buffer_def deliver_value_def
        offer_subscriber_def chan_offer_def chan_poll_def receive_value_def Let_def)
  moreover note subscribe_values_feed [OF inv dom sub run]
  ultimately show ?thesis by (auto simp: selects_def)
qed

lemma fold_restore_latest:
  "distinct (map tv_tag_id vs) \<Longrightarrow>
   vs_latest (fold restore_value vs s) = vs_latest s ++ map_of (map (\<lambda>v. (tv_tag_id v, v)) vs)"
proof (induction vs arbitrary: s)
  case (Cons v vs)
  have "tv_tag_id v \<notin> dom (map_of (map (\<lambda>v. (tv_tag_id v, v)) vs))"
    using Cons.prems by (auto simp: dom_map_of_conv_image_fst image_image)
  moreover have "vs_latest (restore_value v s) = (vs_latest s)(tv_tag_id v \<mapsto> v)"
    by (simp add: restore_value_def)
  ultimately show ?case using Cons.IH [of "restore_value v s"] Cons.prems
    by (simp add: fun_eq_iff map_add_def dom_def split: option.split)
qed simp

lemma fold_restore_sequence:
  "vs_sequence s \<le> vs_sequence (fold restore_value vs s) \<and>
   (\<forall>v \<in> set vs. tv_sequence v \<le> vs_sequence (fold restore_value vs s))"
proof (induction vs arbitrary: s)
  case (Cons v vs)
  have "vs_sequence s \<le> vs_sequence (restore_value v s)" "tv_sequence v \<le> vs_sequence (restore_value v s)"
    by (auto simp: restore_value_def)
  with Cons.IH [of "restore_value v s"] show ?case by (auto intro: order_trans)
qed simp

lemma restore_entries_all:
  assumes "\<forall>v \<in> set vs. tag_value_ok v \<and> tv_sequence v \<noteq> 0 \<and> tv_stored_at v \<noteq> 0"
    and "distinct (map tv_tag_id (ys @ vs))"
  shows "foldE restore_entry vs (tv_tag_id ` set ys, ys) = Inr (tv_tag_id ` set (ys @ vs), ys @ vs)"
  using assms
proof (induction vs arbitrary: ys)
  case (Cons v vs)
  have "restore_entry v (tv_tag_id ` set ys, ys) = Inr (tv_tag_id ` set (ys @ [v]), ys @ [v])"
    using Cons.prems by (auto simp: restore_entry_def normalize_tag_value_id)
  with Cons.IH [of "ys @ [v]"] Cons.prems show ?case by simp
qed simp

text \<open>
  C6: a restart loses no latest value. Restoring the latest values of a store (in any order)
  into a new one succeeds, gives every tag the same latest value, and continues the sequence
  above all of them.
\<close>

theorem restore_latest_roundtrip:
  assumes "value_store_inv s" and "set vs = ran (vs_latest s)" and "distinct vs"
    and "\<forall>v \<in> set vs. tv_stored_at v \<noteq> 0"
  shows "case restore_latest vs new_value_store of (res, s') \<Rightarrow>
    res = Inr () \<and> vs_latest s' = vs_latest s \<and> (\<forall>v \<in> set vs. tv_sequence v \<le> vs_sequence s')"
proof -
  have entry: "tag_value_ok v \<and> tv_tag_id v = tag \<and> tv_sequence v \<noteq> 0" if "vs_latest s tag = Some v" for tag v
  proof -
    have "tag_entry_ok (vs_sequence s) tag v (history_of s tag)"
      using assms(1) that by (simp add: value_store_inv_def entries_ok_def)
    then show ?thesis unfolding tag_entry_ok_def by (metis last_in_set less_irrefl)
  qed
  have inj: "inj_on tv_tag_id (set vs)"
    using entry unfolding assms(2) inj_on_def ran_def by fastforce
  have dist: "distinct (map tv_tag_id vs)" using assms(3) inj by (simp add: distinct_map)
  have ok: "\<forall>v \<in> set vs. tag_value_ok v \<and> tv_sequence v \<noteq> 0 \<and> tv_stored_at v \<noteq> 0"
    using entry assms(2,4) by (auto simp: ran_def)
  have "map_of (map (\<lambda>v. (tv_tag_id v, v)) vs) tag = vs_latest s tag" for tag
  proof (cases "vs_latest s tag")
    case (Some v)
    then have "(tag, v) \<in> set (map (\<lambda>v. (tv_tag_id v, v)) vs)"
      using entry [OF Some] assms(2) by (auto simp: ran_def image_iff)
    then show ?thesis using dist Some by (simp add: comp_def map_of_is_SomeI)
  next
    case None
    then have "\<forall>v \<in> set vs. tv_tag_id v \<noteq> tag" using entry assms(2) by (fastforce simp: ran_def)
    then show ?thesis using None by (auto simp: map_of_eq_None_iff)
  qed
  then have "vs_latest (fold restore_value vs new_value_store) = vs_latest s"
    using fold_restore_latest [OF dist, of new_value_store]
    by (simp add: new_value_store_def fun_eq_iff map_add_def split: option.split)
  then show ?thesis
    using restore_entries_all [of vs "[]"] ok dist fold_restore_sequence [where vs = vs and s = new_value_store]
    by (simp add: restore_latest_def new_value_store_def)
qed

theorem restore_latest_roundtrip_witness:
  "case restore_latest [sample_value\<lparr>tv_sequence := 1, tv_stored_at := 9, tv_error := []\<rparr>] new_value_store of
     (res, s') \<Rightarrow> res = Inr () \<and>
       vs_latest s' = vs_latest (snd (value_store_put 9 sample_value new_value_store))"
proof -
  let ?s = "snd (value_store_put 9 sample_value new_value_store)"
  let ?w = "sample_value\<lparr>tv_sequence := 1, tv_stored_at := 9, tv_error := []\<rparr>"
  have inv: "value_store_inv ?s"
    by (intro put_inv) (simp_all add: value_store.inv_init sample_value_def new_value_store_def)
  have "vs_latest ?s = [7 \<mapsto> ?w]"
    by (simp add: value_store_put_def store_value_def sample_value_def normalize_tag_value_def
        coerce_tag_value_def new_value_store_def Let_def)
  then have "set [?w] = ran (vs_latest ?s)" by simp
  from restore_latest_roundtrip [OF inv this] show ?thesis by (auto split: prod.splits)
qed

end
