(* ===== verification/Tag_Acquisition.thy ===== *)
theory Tag_Acquisition
  imports Tag_Service Value_Store "HOL-Library.AList" "HOL-Library.Multiset"
begin

text \<open>
  The acquisition runtime, \<open>internal/tag/acquisition.go\<close>: the reconciliation of the datasource
  subscriptions with the enabled tags, the values of reading tags, and the cascade that
  re-evaluates calculated tags when a value they are triggered by was stored.

  \<open>message e\<close> is \<open>err.Error()\<close>; \<open>clock n\<close> is the clock when the \<open>n\<close>-th value is put. A section
  under the mutex and a put are one step each. A send on the channel of events blocks only while
  the cascade is behind, so the channel is a queue here; the channel of errors drops.
\<close>

definition max_calculated_cascade_values :: nat where "max_calculated_cascade_values = 1024"

section \<open>The order of a group of calculated tags\<close>

record runtime_calculated_tag =
  rct_entity :: tag_entity
  rct_dependencies :: "uuid list"

abbreviation rct_id :: "runtime_calculated_tag \<Rightarrow> uuid" where
  "rct_id t \<equiv> te_id (rct_entity t)"

text \<open>The Go map \<open>remaining\<close> is an association list without duplicate keys.\<close>

type_synonym remaining = "(uuid \<times> runtime_calculated_tag) list"

definition order_blocked :: "remaining \<Rightarrow> runtime_calculated_tag \<Rightarrow> bool" where
  "order_blocked remaining cur =
     list_ex (\<lambda>d. map_of remaining d \<noteq> None) (rct_dependencies cur)"

fun order_pass ::
  "runtime_calculated_tag list \<Rightarrow> remaining \<Rightarrow> runtime_calculated_tag list \<Rightarrow> bool \<Rightarrow>
     remaining \<times> runtime_calculated_tag list \<times> bool" where
  "order_pass [] remaining ordered progress = (remaining, ordered, progress)"
| "order_pass (c # cs) remaining ordered progress =
     (case map_of remaining (rct_id c) of
        None \<Rightarrow> order_pass cs remaining ordered progress
      | Some cur \<Rightarrow>
          if order_blocked remaining cur then order_pass cs remaining ordered progress
          else order_pass cs (AList.delete (rct_id c) remaining) (ordered @ [cur]) True)"

fun order_rest ::
  "runtime_calculated_tag list \<Rightarrow> remaining \<Rightarrow> runtime_calculated_tag list \<Rightarrow>
     remaining \<times> runtime_calculated_tag list" where
  "order_rest [] remaining ordered = (remaining, ordered)"
| "order_rest (c # cs) remaining ordered =
     (case map_of remaining (rct_id c) of
        None \<Rightarrow> order_rest cs remaining ordered
      | Some cur \<Rightarrow> order_rest cs (AList.delete (rct_id c) remaining) (ordered @ [cur]))"

partial_function (option) order_loop ::
  "runtime_calculated_tag list \<Rightarrow> remaining \<Rightarrow> runtime_calculated_tag list \<Rightarrow>
     runtime_calculated_tag list option" where
  "order_loop tags remaining ordered =
     (if remaining = [] then Some ordered
      else case order_pass tags remaining ordered False of
        (remaining, ordered, progress) \<Rightarrow>
          if progress then order_loop tags remaining ordered
          else (case order_rest tags remaining ordered of
            (remaining, ordered) \<Rightarrow> order_loop tags remaining ordered))"

definition order_calculated_tags ::
  "runtime_calculated_tag list \<Rightarrow> runtime_calculated_tag list option" where
  "order_calculated_tags tags =
     order_loop tags (fold (\<lambda>t. AList.update (rct_id t) t) tags []) []"

text \<open>
  Between two passes: what is ordered and what remains are the tags of the group, each once; in
  \<open>in_order\<close> the dependencies of a tag that belong to the group come before it.
\<close>

definition group_ids :: "runtime_calculated_tag list \<Rightarrow> uuid set" where
  "group_ids tags = rct_id ` set tags"

fun in_order :: "uuid set \<Rightarrow> uuid set \<Rightarrow> runtime_calculated_tag list \<Rightarrow> bool" where
  "in_order G before [] = True"
| "in_order G before (t # ts) =
     (set (rct_dependencies t) \<inter> G \<subseteq> before \<and> in_order G (insert (rct_id t) before) ts)"

definition split_ok :: "runtime_calculated_tag list \<Rightarrow> remaining \<Rightarrow> runtime_calculated_tag list \<Rightarrow> bool" where
  "split_ok tags remaining ordered \<longleftrightarrow>
     distinct (map fst remaining) \<and> (\<forall>(k, t) \<in> set remaining. rct_id t = k) \<and>
     mset (ordered @ map snd remaining) = mset tags"

lemma split_ok_ids:
  "split_ok tags remaining ordered \<Longrightarrow> group_ids tags = group_ids ordered \<union> fst ` set remaining"
proof -
  assume s: "split_ok tags remaining ordered"
  then have "set tags = set ordered \<union> snd ` set remaining"
    unfolding split_ok_def by (metis set_append set_map set_mset_mset)
  moreover have "rct_id ` snd ` set remaining = fst ` set remaining"
    using s by (force simp: split_ok_def image_iff)
  ultimately show ?thesis by (simp add: group_ids_def image_Un)
qed

lemma delete_split:
  assumes "map_of xs k = Some t" and "distinct (map fst xs)"
  shows "mset (map snd (AList.delete k xs)) + {#t#} = mset (map snd xs)"
    and "length (AList.delete k xs) < length xs"
proof -
  from assms(1) obtain us vs where xs: "xs = us @ (k, t) # vs"
    by (meson map_of_SomeD split_list)
  with assms(2) have "k \<notin> fst ` set us" "k \<notin> fst ` set vs" by auto
  then have "filter (\<lambda>(k', _). k \<noteq> k') us = us" "filter (\<lambda>(k', _). k \<noteq> k') vs = vs"
    by (force intro!: filter_True)+
  then have "AList.delete k xs = us @ vs" by (simp add: xs AList.delete_eq)
  then show "mset (map snd (AList.delete k xs)) + {#t#} = mset (map snd xs)"
    and "length (AList.delete k xs) < length xs" by (simp_all add: xs)
qed

lemma split_ok_take:
  assumes "split_ok tags remaining ordered" and "map_of remaining k = Some t"
  shows "split_ok tags (AList.delete k remaining) (ordered @ [t])"
proof -
  have "distinct (map fst (AList.delete k remaining))"
    using assms(1) by (simp add: split_ok_def distinct_delete)
  moreover have "\<forall>(k, t) \<in> set (AList.delete k remaining). rct_id t = k"
    using assms(1) by (auto simp: split_ok_def AList.delete_eq)
  moreover have "mset ((ordered @ [t]) @ map snd (AList.delete k remaining)) = mset tags"
    using assms delete_split(1) [OF assms(2)] by (simp add: split_ok_def)
  ultimately show ?thesis by (simp add: split_ok_def)
qed

lemma in_order_snoc:
  "in_order G before (ordered @ [t]) \<longleftrightarrow>
     in_order G before ordered \<and> set (rct_dependencies t) \<inter> G \<subseteq> before \<union> group_ids ordered"
  by (induction ordered arbitrary: before) (auto simp: group_ids_def)

text \<open>A pass keeps the split, and what it appends does not wait for anything of the group.\<close>

definition pass_ok :: "bool \<Rightarrow> runtime_calculated_tag list \<Rightarrow> remaining \<Rightarrow> runtime_calculated_tag list \<Rightarrow> bool" where
  "pass_ok b tags remaining ordered \<longleftrightarrow>
     split_ok tags remaining ordered \<and> (b \<longrightarrow> in_order (group_ids tags) {} ordered)"

lemma pass_ok_take:
  assumes "pass_ok b tags remaining ordered" and "map_of remaining k = Some t"
    and "\<not> order_blocked remaining t"
  shows "pass_ok b tags (AList.delete k remaining) (ordered @ [t])"
proof -
  have s: "split_ok tags remaining ordered" using assms(1) by (simp add: pass_ok_def)
  have "set (rct_dependencies t) \<inter> fst ` set remaining = {}"
    using assms(3) by (force simp: order_blocked_def list_ex_iff dom_map_of_conv_image_fst [symmetric])
  then have "set (rct_dependencies t) \<inter> group_ids tags \<subseteq> group_ids ordered"
    using split_ok_ids [OF s] by blast
  then show ?thesis
    using assms(1) split_ok_take [OF s assms(2)] by (simp add: pass_ok_def in_order_snoc)
qed

lemma order_pass_ok:
  "pass_ok b tags remaining ordered \<Longrightarrow> order_pass cs remaining ordered progress = (r, o', p) \<Longrightarrow>
   pass_ok b tags r o' \<and> length r \<le> length remaining \<and>
   (p \<longrightarrow> progress \<or> length r < length remaining) \<and> (progress \<longrightarrow> p) \<and>
   (\<not> p \<longrightarrow> (\<forall>c \<in> set cs. \<forall>t. map_of remaining (rct_id c) = Some t \<longrightarrow> order_blocked remaining t))"
proof (induction cs remaining ordered progress rule: order_pass.induct)
  case (2 c cs remaining ordered progress)
  show ?case
  proof (cases "map_of remaining (rct_id c)")
    case None
    then show ?thesis using 2 by simp
  next
    case (Some t)
    show ?thesis
    proof (cases "order_blocked remaining t")
      case True
      then show ?thesis using 2 Some by simp
    next
      case False
      have "distinct (map fst remaining)" using 2(4) by (simp add: pass_ok_def split_ok_def)
      note shorter = delete_split(2) [OF Some this]
      from 2(5) Some False have "order_pass cs (AList.delete (rct_id c) remaining) (ordered @ [t]) True = (r, o', p)"
        by simp
      from 2(3) [OF Some False pass_ok_take [OF 2(4) Some False] this] shorter show ?thesis by auto
    qed
  qed
qed simp

lemma order_rest_ok:
  "split_ok tags remaining ordered \<Longrightarrow> order_rest cs remaining ordered = (r, o') \<Longrightarrow>
   split_ok tags r o' \<and> fst ` set r = fst ` set remaining - rct_id ` set cs"
proof (induction cs remaining ordered rule: order_rest.induct)
  case (2 c cs remaining ordered)
  show ?case
  proof (cases "map_of remaining (rct_id c)")
    case None
    then have "rct_id c \<notin> fst ` set remaining" by (simp add: map_of_eq_None_iff)
    then show ?thesis using 2(1) [OF None 2(3)] 2(4) None by auto
  next
    case (Some t)
    have "fst ` set (AList.delete (rct_id c) remaining) = fst ` set remaining - {rct_id c}"
      by (auto simp: delete_keys [symmetric] AList.delete_eq image_iff)
    then show ?thesis
      using 2(2) [OF Some split_ok_take [OF 2(3) Some]] 2(4) Some by auto
  qed
qed simp

section \<open>The loop returns\<close>

definition group_edges :: "runtime_calculated_tag list \<Rightarrow> (uuid \<times> uuid) set" where
  "group_edges tags =
     {(d, rct_id t) | d t. t \<in> set tags \<and> d \<in> set (rct_dependencies t) \<inter> group_ids tags}"

lemma group_edges_union:
  "group_edges tags = (\<Union>t \<in> set tags. (\<lambda>d. (d, rct_id t)) ` (set (rct_dependencies t) \<inter> group_ids tags))"
  by (auto simp: group_edges_def)

lemma unblocked_exists:
  assumes s: "split_ok tags remaining ordered" and "acyclic (group_edges tags)" and "remaining \<noteq> []"
  shows "\<exists>c \<in> set tags. \<exists>t. map_of remaining (rct_id c) = Some t \<and> \<not> order_blocked remaining t"
proof -
  have "group_edges tags \<subseteq> group_ids tags \<times> group_ids tags" by (auto simp: group_edges_def group_ids_def)
  then have "finite (group_edges tags)" by (rule finite_subset) (simp add: group_ids_def)
  then have wf: "wf (group_edges tags)" using assms(2) by (rule finite_acyclic_wf)
  have ne: "fst ` set remaining \<noteq> {}" using assms(3) by simp
  obtain k where k: "k \<in> fst ` set remaining"
    and least: "\<And>d. (d, k) \<in> group_edges tags \<Longrightarrow> d \<notin> fst ` set remaining"
    using wfE_min' [OF wf ne] by metis
  then obtain t where t: "map_of remaining k = Some t"
    by (metis dom_map_of_conv_image_fst domIff option.exhaust)
  then have mem: "(k, t) \<in> set remaining" by (rule map_of_SomeD)
  then have idt: "rct_id t = k" using s by (auto simp: split_ok_def)
  have "t \<in> set tags"
  proof -
    have "set (ordered @ map snd remaining) = set tags" using s unfolding split_ok_def by (metis set_mset_mset)
    moreover have "t \<in> set (map snd remaining)" using mem by force
    ultimately show ?thesis by auto
  qed
  moreover have "\<not> order_blocked remaining t"
  proof
    assume "order_blocked remaining t"
    then obtain d where d: "d \<in> set (rct_dependencies t)" "d \<in> fst ` set remaining"
      by (auto simp: order_blocked_def list_ex_iff dom_map_of_conv_image_fst [symmetric])
    moreover have "d \<in> group_ids tags" using split_ok_ids [OF s] d(2) by blast
    ultimately have "(d, k) \<in> group_edges tags" using \<open>t \<in> set tags\<close> idt by (auto simp: group_edges_def)
    with least d(2) show False by blast
  qed
  ultimately show ?thesis using t idt by blast
qed

lemma order_loop_returns:
  "pass_ok b tags remaining ordered \<Longrightarrow> b = acyclic (group_edges tags) \<Longrightarrow>
   \<exists>out. order_loop tags remaining ordered = Some out \<and> pass_ok b tags [] out"
proof (induction "length remaining" arbitrary: remaining ordered rule: less_induct)
  case less
  obtain r o' p where pass: "order_pass tags remaining ordered False = (r, o', p)" by (metis prod_cases3)
  note ok = order_pass_ok [OF less(2) pass]
  obtain r2 o2 where rest: "order_rest tags r o' = (r2, o2)" by fastforce
  show ?case
  proof (cases "remaining = []")
    case True
    then show ?thesis using less(2) by (subst order_loop.simps) simp
  next
    case False
    show ?thesis
    proof (cases p)
      case True
      then have "length r < length remaining" using ok by simp
      from less(1) [OF this _ less(3)] ok True show ?thesis
        by (subst order_loop.simps) (simp add: False pass)
    next
      case p: False
      then have "\<not> b" using ok unblocked_exists [of tags remaining ordered] less(2,3) False
        by (auto simp: pass_ok_def)
      have s: "split_ok tags r o'" using ok by (simp add: pass_ok_def)
      note r = order_rest_ok [OF s rest]
      have "fst ` set r \<subseteq> rct_id ` set tags" using split_ok_ids [OF s] by (auto simp: group_ids_def)
      moreover have "fst ` set r2 = fst ` set r - rct_id ` set tags" using r by (rule conjunct2)
      ultimately have "fst ` set r2 = {}" by (simp only: Diff_eq_empty_iff)
      then have r2: "r2 = []" by simp
      have "order_loop tags [] o2 = Some o2" by (subst order_loop.simps) simp
      then have "order_loop tags remaining ordered = Some o2"
        by (subst order_loop.simps) (simp add: False pass p rest r2)
      then show ?thesis using \<open>\<not> b\<close> r r2 by (simp add: pass_ok_def)
    qed
  qed
qed

lemma update_new_key: "k \<notin> fst ` set xs \<Longrightarrow> AList.update k v xs = xs @ [(k, v)]"
  by (induction xs) auto

lemma remaining_of_group:
  "distinct (map fst xs @ map rct_id ts) \<Longrightarrow>
   fold (\<lambda>t. AList.update (rct_id t) t) ts xs = xs @ map (\<lambda>t. (rct_id t, t)) ts"
proof (induction ts arbitrary: xs)
  case (Cons t ts)
  then have "AList.update (rct_id t) t xs = xs @ [(rct_id t, t)]" by (intro update_new_key) auto
  moreover have "distinct (map fst (xs @ [(rct_id t, t)]) @ map rct_id ts)" using Cons.prems by auto
  ultimately show ?case using Cons.IH [of "xs @ [(rct_id t, t)]"] by (simp del: distinct_append map_append)
qed simp

lemma order_calculated_tags_returns:
  assumes "distinct (map rct_id tags)"
  shows "\<exists>out. order_calculated_tags tags = Some out \<and> mset out = mset tags \<and>
    (acyclic (group_edges tags) \<longrightarrow> in_order (group_ids tags) {} out)"
proof -
  have "pass_ok b tags (map (\<lambda>t. (rct_id t, t)) tags) []" for b
    using assms by (auto simp: pass_ok_def split_ok_def comp_def)
  from order_loop_returns [OF this refl] show ?thesis
    using remaining_of_group [of "[]" tags] assms
    by (auto simp: order_calculated_tags_def pass_ok_def split_ok_def)
qed

text \<open>
  C25: \<open>orderCalculatedTags\<close> returns the tags of a trigger's group, each exactly once; when the
  dependencies inside the group have no cycle (the service refuses one), every tag comes after
  the tags of the group that its expression reads.
\<close>

theorem order_calculated_tags_correct:
  assumes "distinct (map rct_id tags)"
  shows "\<exists>out. order_calculated_tags tags = Some out \<and> mset out = mset tags \<and>
    (acyclic (group_edges tags) \<longrightarrow> in_order (group_ids tags) {} out)"
  using assms by (rule order_calculated_tags_returns)

definition sample_calculated :: "uuid \<Rightarrow> uuid list \<Rightarrow> runtime_calculated_tag" where
  "sample_calculated i deps =
     \<lparr>rct_entity = \<lparr>te_id = i, te_datasource = None, te_name = ''c'', te_type = TypeCalculated,
        te_data_type = DTFloat64, te_description = None, te_enabled = True, te_config = MalformedConfig\<rparr>,
      rct_dependencies = deps\<rparr>"

theorem order_calculated_tags_correct_witness:
  "order_calculated_tags [sample_calculated 1 [2], sample_calculated 2 [9]] =
     Some [sample_calculated 2 [9], sample_calculated 1 [2]]"
proof -
  let ?a = "sample_calculated 1 [2]" and ?b = "sample_calculated 2 [9]"
  have "group_edges [?a, ?b] = {(2, 1)}"
    by (simp add: group_edges_union group_ids_def sample_calculated_def)
  then have "acyclic (group_edges [?a, ?b])" by (simp add: acyclic_insert wf_acyclic)
  then obtain out where out: "order_calculated_tags [?a, ?b] = Some out" "mset out = {#?a, ?b#}"
    and ord: "in_order (group_ids [?a, ?b]) {} out"
    using order_calculated_tags_correct [of "[?a, ?b]"] by (auto simp: sample_calculated_def)
  have "out = [?a, ?b] \<or> out = [?b, ?a]"
    using out(2) by (cases out rule: list.exhaust; cases "tl out"; auto simp: add_eq_conv_ex)
  then show ?thesis using ord out(1) by (auto simp: group_ids_def sample_calculated_def)
qed

section \<open>The runtime\<close>

record calculated_runtime_definition =
  crd_trigger :: uuid
  crd_tag :: runtime_calculated_tag

text \<open>The JSON of another tag type has no key \<open>trigger\<close>; \<open>json.Unmarshal\<close> ignores its keys.\<close>

definition runtime_calculated_definition ::
  "service_env \<Rightarrow> tag_entity \<Rightarrow> service_error + calculated_runtime_definition" where
  "runtime_calculated_definition env e =
     (case te_config e of
        MalformedConfig \<Rightarrow> Inl (Sentinel ErrInvalidTagInput)
      | CalculatedConfig config \<Rightarrow>
          (case cc_trigger config of
             None \<Rightarrow> Inl (Sentinel ErrCalculatedTriggerInvalid)
           | Some trigger \<Rightarrow>
               if ct_tag_id trigger = uuid_nil then Inl (Sentinel ErrCalculatedTriggerInvalid)
               else bindE (wrapE ExpressionError (parse_expression (se_parse_uuid env) (cc_expression config)))
                 (\<lambda>(tree, deps). Inr \<lparr>crd_trigger = ct_tag_id trigger,
                    crd_tag = \<lparr>rct_entity = e, rct_dependencies = deps\<rparr>\<rparr>))
      | _ \<Rightarrow> Inl (Sentinel ErrCalculatedTriggerInvalid))"

record runtime_constant_tag =
  rk_entity :: tag_entity
  rk_value :: gval
  rk_fingerprint :: "data_type \<times> tag_config"

record reading_subscription =
  sb_key :: nat
  sb_tags :: "tag_entity list"

datatype acquisition_error =
    ReadingWithoutDatasource uuid
  | ConstantRefused uuid service_error
  | CalculatedRefused uuid service_error
  | StoringFailed uuid value_error
  | SubscribingFailed uuid string
  | StreamClosed uuid
  | CascadeExceeded
  | AcquisitionRepositoryFailed tag_error
  | ErrAcquisitionAlreadyStarted
  | ErrAcquisitionNotStarted

text \<open>
  A subscription is known by its key, which stands for the pointer; the ones that were stopped
  are in \<open>aq_unsubscribed\<close>. A fingerprint is compared as the type and configuration it renders.
\<close>

record acquisition =
  aq_started :: bool
  aq_stopped :: bool
  aq_subscriptions :: "uuid \<rightharpoonup> reading_subscription"
  aq_calculated :: "uuid \<Rightarrow> runtime_calculated_tag list"
  aq_constants :: "uuid \<rightharpoonup> data_type \<times> tag_config"
  aq_invalid :: "uuid \<rightharpoonup> data_type \<times> tag_config \<times> service_error"
  aq_values :: value_store
  aq_events :: "tag_value list"
  aq_errors :: "acquisition_error chan"
  aq_next_key :: nat
  aq_unsubscribed :: "nat set"

definition new_acquisition :: "value_store \<Rightarrow> acquisition" where
  "new_acquisition store = \<lparr>aq_started = False, aq_stopped = False, aq_subscriptions = Map.empty,
     aq_calculated = (\<lambda>_. []), aq_constants = Map.empty, aq_invalid = Map.empty, aq_values = store,
     aq_events = [], aq_errors = make_chan 32, aq_next_key = 0, aq_unsubscribed = {}\<rparr>"

definition report :: "acquisition_error \<Rightarrow> acquisition \<Rightarrow> acquisition" where
  "report err a = (case chan_offer err (aq_errors a) of None \<Rightarrow> a | Some c \<Rightarrow> a\<lparr>aq_errors := c\<rparr>)"

section \<open>Storing values\<close>

definition acquire_value ::
  "(64 word \<Rightarrow> gotime) \<Rightarrow> tag_value \<Rightarrow> acquisition \<Rightarrow> tag_value option \<times> acquisition" where
  "acquire_value clock entry a =
     (case value_store_put (clock (vs_sequence (aq_values a))) entry (aq_values a) of
        (Inl e, s) \<Rightarrow> (None, report (StoringFailed (tv_tag_id entry) e) (a\<lparr>aq_values := s\<rparr>))
      | (Inr stored, s) \<Rightarrow> (Some stored, a\<lparr>aq_values := s\<rparr>))"

definition store_and_queue ::
  "(64 word \<Rightarrow> gotime) \<Rightarrow> tag_value \<Rightarrow> acquisition \<Rightarrow> acquisition" where
  "store_and_queue clock entry a =
     (case acquire_value clock entry a of
        (None, a') \<Rightarrow> a'
      | (Some stored, a') \<Rightarrow> a'\<lparr>aq_events := aq_events a' @ [stored]\<rparr>)"

text \<open>The literal of a \<open>TagValue\<close> with the fields the runtime sets.\<close>

definition acquired :: "tag_entity \<Rightarrow> gotime \<Rightarrow> string + gval \<Rightarrow> tag_value" where
  "acquired e observed result =
     \<lparr>tv_tag_id = te_id e, tv_sequence = 0, tv_observed_at = observed, tv_stored_at = 0,
      tv_quality = (case result of Inl m \<Rightarrow> QualityBad | Inr v \<Rightarrow> QualityGood), tv_data_type = te_data_type e,
      tv_value = (case result of Inl m \<Rightarrow> VNil | Inr v \<Rightarrow> v),
      tv_error = (case result of Inl m \<Rightarrow> m | Inr v \<Rightarrow> [])\<rparr>"

definition sample_entry ::
  "service_env \<Rightarrow> (service_error \<Rightarrow> string) \<Rightarrow> gotime \<Rightarrow> datasource_sample \<Rightarrow> tag_entity \<Rightarrow> tag_value" where
  "sample_entry env message now sample e =
     acquired e (if smp_observed_at sample = 0 then now else smp_observed_at sample)
       (wrapE message (process_reading_sample env (te_data_type e) (te_config e) sample))"

definition process_sample ::
  "service_env \<Rightarrow> (service_error \<Rightarrow> string) \<Rightarrow> (64 word \<Rightarrow> gotime) \<Rightarrow> gotime \<Rightarrow> tag_entity list \<Rightarrow>
     datasource_sample \<Rightarrow> acquisition \<Rightarrow> acquisition" where
  "process_sample env message clock now tags sample a =
     fold (\<lambda>e. store_and_queue clock (sample_entry env message now sample e)) tags a"

definition publish_unavailable ::
  "(64 word \<Rightarrow> gotime) \<Rightarrow> gotime \<Rightarrow> tag_entity list \<Rightarrow> string \<Rightarrow> acquisition \<Rightarrow> acquisition" where
  "publish_unavailable clock now tags cause a =
     fold (\<lambda>e. store_and_queue clock (acquired e now (Inl cause))) tags a"

section \<open>The cascade of calculated tags\<close>

definition trigger_unavailable :: "(uuid \<Rightarrow> string) \<Rightarrow> tag_value \<Rightarrow> string" where
  "trigger_unavailable render trigger =
     ''trigger tag '' @ render (tv_tag_id trigger) @ '' is unavailable: '' @ tv_error trigger"

text \<open>\<open>render\<close> is \<open>uuid.UUID.String\<close>; \<open>cancelled\<close> tells whether the runtime's context has ended.\<close>

record acquisition_env =
  ae_service :: service_env
  ae_message :: "service_error \<Rightarrow> string"
  ae_render :: "uuid \<Rightarrow> string"
  ae_clock :: "64 word \<Rightarrow> gotime"
  ae_cancelled :: "nat \<Rightarrow> bool"

definition snapshot_resolver :: "(nat \<Rightarrow> bool) \<Rightarrow> (uuid \<rightharpoonup> tag_value) \<Rightarrow> resolver" where
  "snapshot_resolver cancelled snapshot n i =
     (case snapshot_resolve (cancelled n) snapshot i of Inl e \<Rightarrow> None | Inr v \<Rightarrow> Some v)"

definition evaluate_runtime_calculated ::
  "acquisition_env \<Rightarrow> tag_value \<Rightarrow> runtime_calculated_tag \<Rightarrow> acquisition \<Rightarrow> tag_value" where
  "evaluate_runtime_calculated env trigger calculated a =
     (let e = rct_entity calculated
      in acquired e (tv_observed_at trigger)
        (if tv_quality trigger \<noteq> QualityGood then Inl (trigger_unavailable (ae_render env) trigger)
         else wrapE (ae_message env) (evaluate_calculated (ae_service env) (ae_cancelled env)
           (te_data_type e) (te_config e)
           (Some (snapshot_resolver (ae_cancelled env)
             (snapshot_values (rct_dependencies calculated) (aq_values a)))))))"

text \<open>
  The loop over a group: the queue, the number of values stored so far and the runtime. The
  result is \<open>True\<close> when the bound was reached, which empties the queue.
\<close>

fun cascade_group ::
  "acquisition_env \<Rightarrow> tag_value \<Rightarrow> runtime_calculated_tag list \<Rightarrow> tag_value list \<times> nat \<times> acquisition \<Rightarrow>
     tag_value list \<times> nat \<times> acquisition" where
  "cascade_group env trigger [] st = st"
| "cascade_group env trigger (c # cs) (queue, processed, a) =
     (case acquire_value (ae_clock env) (evaluate_runtime_calculated env trigger c a) a of
        (None, a') \<Rightarrow> cascade_group env trigger cs (queue, processed, a')
      | (Some stored, a') \<Rightarrow>
          if processed + 1 \<ge> max_calculated_cascade_values
          then ([], processed + 1, report CascadeExceeded a')
          else cascade_group env trigger cs (queue @ [stored], processed + 1, a'))"

text \<open>
  The loop over the queue. \<open>others k\<close> is what the other goroutines do to the runtime before the
  \<open>k\<close>-th trigger is taken: readings that are stored, a reconciliation that replaces the groups.
\<close>

partial_function (option) cascade_loop ::
  "acquisition_env \<Rightarrow> (nat \<Rightarrow> acquisition \<Rightarrow> acquisition) \<Rightarrow> nat \<Rightarrow> tag_value list \<Rightarrow> nat \<Rightarrow> acquisition \<Rightarrow>
     (nat \<times> acquisition) option" where
  "cascade_loop env others k queue processed a =
     (case queue of
        [] \<Rightarrow> Some (processed, a)
      | trigger # queue \<Rightarrow>
          (let a = others k a
           in case order_calculated_tags (aq_calculated a (tv_tag_id trigger)) of
                None \<Rightarrow> None
              | Some calcs \<Rightarrow>
                  (case cascade_group env trigger calcs (queue, processed, a) of
                     (queue, processed, a) \<Rightarrow> cascade_loop env others (k + 1) queue processed a)))"

definition handle_value_event ::
  "acquisition_env \<Rightarrow> (nat \<Rightarrow> acquisition \<Rightarrow> acquisition) \<Rightarrow> acquisition \<Rightarrow> (nat \<times> acquisition) option" where
  "handle_value_event env others a =
     (case aq_events a of
        [] \<Rightarrow> None
      | first # events \<Rightarrow> cascade_loop env others 0 [first] 0 (a\<lparr>aq_events := events\<rparr>))"

section \<open>Reconciliation\<close>

record reconcile_tables =
  rt_grouped :: "uuid \<rightharpoonup> tag_entity list"
  rt_calculated :: "uuid \<Rightarrow> runtime_calculated_tag list"
  rt_constants :: "runtime_constant_tag list"
  rt_invalid :: "(uuid \<times> data_type \<times> tag_config \<times> service_error) list"

definition empty_tables :: reconcile_tables where
  "empty_tables = \<lparr>rt_grouped = Map.empty, rt_calculated = (\<lambda>_. []), rt_constants = [], rt_invalid = []\<rparr>"

definition list_of_key :: "('k \<rightharpoonup> 'a list) \<Rightarrow> 'k \<Rightarrow> 'a list" where
  "list_of_key m k = (case m k of None \<Rightarrow> [] | Some xs \<Rightarrow> xs)"

definition reconcile_tag ::
  "service_env \<Rightarrow> tag_entity \<Rightarrow> reconcile_tables \<times> acquisition \<Rightarrow> reconcile_tables \<times> acquisition" where
  "reconcile_tag env e st =
     (case st of (rt, a) \<Rightarrow>
      (case te_type e of
        TypeReading \<Rightarrow>
          (if te_datasource e = None \<or> te_datasource e = Some uuid_nil
           then (rt, report (ReadingWithoutDatasource (te_id e)) a)
           else let d = the (te_datasource e)
                in (rt\<lparr>rt_grouped := (rt_grouped rt)(d \<mapsto> list_of_key (rt_grouped rt) d @ [e])\<rparr>, a))
      | TypeConstant \<Rightarrow>
          (case normalize_constant_config (se_marshal env) (te_data_type e) (te_config e) of
             Inl err \<Rightarrow> (rt, report (ConstantRefused (te_id e) err) a)
           | Inr (c, v) \<Rightarrow>
               (rt\<lparr>rt_constants := rt_constants rt @ [\<lparr>rk_entity = e, rk_value = v,
                  rk_fingerprint = (te_data_type e, te_config e)\<rparr>]\<rparr>, a))
      | TypeCalculated \<Rightarrow>
          (case runtime_calculated_definition env e of
             Inl err \<Rightarrow> (rt\<lparr>rt_invalid := rt_invalid rt @ [(te_id e, te_data_type e, te_config e, err)]\<rparr>, a)
           | Inr d \<Rightarrow>
               (rt\<lparr>rt_calculated := (rt_calculated rt)(crd_trigger d := rt_calculated rt (crd_trigger d) @ [crd_tag d])\<rparr>, a))
      | TypeOther t \<Rightarrow> (rt, a)))"

text \<open>The section under the mutex: the runtime after it and the constants whose value changed.\<close>

definition changed_constants :: "reconcile_tables \<Rightarrow> acquisition \<Rightarrow> runtime_constant_tag list" where
  "changed_constants rt a =
     filter (\<lambda>c. aq_constants a (te_id (rk_entity c)) \<noteq> Some (rk_fingerprint c)) (rt_constants rt)"

definition new_invalid :: "reconcile_tables \<Rightarrow> acquisition \<Rightarrow> acquisition_error list" where
  "new_invalid rt a =
     map (\<lambda>(i, d, c, err). CalculatedRefused i err)
       (filter (\<lambda>(i, f). aq_invalid a i \<noteq> Some f) (rt_invalid rt))"

definition kept_subscriptions :: "reconcile_tables \<Rightarrow> acquisition \<Rightarrow> uuid \<rightharpoonup> reading_subscription" where
  "kept_subscriptions rt a d =
     (case (aq_subscriptions a d, rt_grouped rt d) of
        (Some sub, Some tags) \<Rightarrow> Some (sub\<lparr>sb_tags := tags\<rparr>)
      | _ \<Rightarrow> None)"

definition subscription_keys :: "(uuid \<rightharpoonup> reading_subscription) \<Rightarrow> nat set" where
  "subscription_keys subs = sb_key ` ran subs"

definition reconcile_install :: "reconcile_tables \<Rightarrow> acquisition \<Rightarrow> acquisition" where
  "reconcile_install rt a = a\<lparr>aq_calculated := rt_calculated rt,
     aq_invalid := map_of (rt_invalid rt),
     aq_constants := map_of (map (\<lambda>c. (te_id (rk_entity c), rk_fingerprint c)) (rt_constants rt)),
     aq_subscriptions := kept_subscriptions rt a,
     aq_unsubscribed := aq_unsubscribed a \<union>
       subscription_keys (aq_subscriptions a |` (- dom (rt_grouped rt)))\<rparr>"

text \<open>One iteration over the datasources without a subscription; \<open>connect\<close> is the subscriber's answer.\<close>

definition subscribe_datasource ::
  "acquisition_env \<Rightarrow> gotime \<Rightarrow> (uuid \<Rightarrow> string option) \<Rightarrow> uuid \<times> tag_entity list \<Rightarrow> acquisition \<Rightarrow> acquisition" where
  "subscribe_datasource env now connect entry a =
     (case entry of (d, tags) \<Rightarrow>
      (case connect d of
        Some cause \<Rightarrow> report (SubscribingFailed d cause) (publish_unavailable (ae_clock env) now tags cause a)
      | None \<Rightarrow>
          let key = aq_next_key a; a = a\<lparr>aq_next_key := key + 1\<rparr>
          in if aq_stopped a then a\<lparr>aq_unsubscribed := insert key (aq_unsubscribed a)\<rparr>
             else (case aq_subscriptions a d of
               Some existing \<Rightarrow> a\<lparr>aq_unsubscribed := insert key (aq_unsubscribed a),
                  aq_subscriptions := (aq_subscriptions a)(d \<mapsto> existing\<lparr>sb_tags := tags\<rparr>)\<rparr>
             | None \<Rightarrow> a\<lparr>aq_subscriptions := (aq_subscriptions a)(d \<mapsto> \<lparr>sb_key = key, sb_tags = tags\<rparr>)\<rparr>)))"

text \<open>\<open>ord\<close> is the order in which the map of the new datasources is visited.\<close>

definition reconcile_with ::
  "acquisition_env \<Rightarrow> gotime \<Rightarrow> (uuid \<Rightarrow> string option) \<Rightarrow> uuid list \<Rightarrow> tag_entity list \<Rightarrow> acquisition \<Rightarrow> acquisition" where
  "reconcile_with env now connect ord tags a =
     (let (rt, a) = fold (reconcile_tag (ae_service env)) tags (empty_tables, a);
          fresh = List.map_filter (\<lambda>d. if aq_subscriptions a d = None
            then map_option (Pair d) (rt_grouped rt d) else None) ord;
          b = fold report (new_invalid rt a) (reconcile_install rt a);
          c = fold (\<lambda>k. store_and_queue (ae_clock env) (acquired (rk_entity k) now (Inr (rk_value k))))
            (changed_constants rt a) b
      in fold (subscribe_datasource env now connect) fresh c)"

definition reconcile ::
  "acquisition_env \<Rightarrow> gotime \<Rightarrow> (uuid \<Rightarrow> string option) \<Rightarrow> uuid list \<Rightarrow> tag_error + tag_entity list \<Rightarrow> acquisition \<Rightarrow>
     (acquisition_error + unit) \<times> acquisition" where
  "reconcile env now connect ord listed a =
     (if \<not> aq_started a \<or> aq_stopped a then (Inl ErrAcquisitionNotStarted, a)
      else case listed of
        Inl e \<Rightarrow> (Inl (AcquisitionRepositoryFailed e), a)
      | Inr tags \<Rightarrow> (Inr (), reconcile_with env now connect ord tags a))"

section \<open>Starting, stopping and consuming\<close>

definition acquisition_stop :: "acquisition \<Rightarrow> acquisition" where
  "acquisition_stop a =
     (if \<not> aq_started a \<or> aq_stopped a then a
      else a\<lparr>aq_stopped := True, aq_subscriptions := Map.empty,
        aq_unsubscribed := aq_unsubscribed a \<union> subscription_keys (aq_subscriptions a)\<rparr>)"

definition acquisition_start ::
  "acquisition_env \<Rightarrow> gotime \<Rightarrow> (uuid \<Rightarrow> string option) \<Rightarrow> uuid list \<Rightarrow> tag_error + tag_entity list \<Rightarrow> acquisition \<Rightarrow>
     (acquisition_error + unit) \<times> acquisition" where
  "acquisition_start env now connect ord listed a =
     (if aq_started a \<or> aq_stopped a then (Inl ErrAcquisitionAlreadyStarted, a)
      else case reconcile env now connect ord listed (a\<lparr>aq_started := True\<rparr>) of
        (Inl e, b) \<Rightarrow> (Inl e, acquisition_stop b)
      | (Inr u, b) \<Rightarrow> (Inr u, b))"

text \<open>The goroutine of a subscription leaves: it removes the subscription only if it is still its own.\<close>

definition remove_subscription :: "uuid \<Rightarrow> nat \<Rightarrow> acquisition \<Rightarrow> acquisition" where
  "remove_subscription d key a = a\<lparr>
     aq_subscriptions := (case aq_subscriptions a d of
       Some sub \<Rightarrow> if sb_key sub = key then (aq_subscriptions a)(d := None) else aq_subscriptions a
     | None \<Rightarrow> aq_subscriptions a),
     aq_unsubscribed := insert key (aq_unsubscribed a)\<rparr>"

text \<open>What the goroutine receives while its subscription is in place: a sample, or the end of the stream.\<close>

definition consume_step ::
  "acquisition_env \<Rightarrow> gotime \<Rightarrow> (uuid \<Rightarrow> string) \<Rightarrow> uuid \<Rightarrow> datasource_sample option \<Rightarrow> acquisition \<Rightarrow> acquisition" where
  "consume_step env now cause d received a =
     (case aq_subscriptions a d of
        None \<Rightarrow> a
      | Some sub \<Rightarrow>
          (case received of
             Some sample \<Rightarrow> process_sample (ae_service env) (ae_message env) (ae_clock env) now (sb_tags sub) sample a
           | None \<Rightarrow> remove_subscription d (sb_key sub)
               (report (StreamClosed d) (publish_unavailable (ae_clock env) now (sb_tags sub) (cause d) a))))"

section \<open>What storing does\<close>

definition same_reading :: "tag_value \<Rightarrow> tag_value \<Rightarrow> bool" where
  "same_reading v w \<longleftrightarrow> v\<lparr>tv_sequence := 0, tv_stored_at := 0\<rparr> = w\<lparr>tv_sequence := 0, tv_stored_at := 0\<rparr>"

lemma acquire_value_keeps [simp]:
  "aq_events (snd (acquire_value clock v a)) = aq_events a"
  "aq_calculated (snd (acquire_value clock v a)) = aq_calculated a"
  by (auto simp: acquire_value_def report_def split: prod.splits sum.splits option.splits)

lemma acquire_value_sequence:
  "acquire_value clock v a = (None, b) \<Longrightarrow> vs_sequence (aq_values b) = vs_sequence (aq_values a)"
  "acquire_value clock v a = (Some w, b) \<Longrightarrow> vs_sequence (aq_values b) = vs_sequence (aq_values a) + 1"
  by (auto simp: acquire_value_def value_store_put_def store_value_def report_def Let_def
      split: prod.splits sum.splits option.splits)

lemma acquire_value_ok:
  assumes "normalize_tag_value entry = Inr w"
  obtains v b where "acquire_value clock entry a = (Some v, b)" "same_reading v w"
    "vs_latest (aq_values b) = (vs_latest (aq_values a))(tv_tag_id entry \<mapsto> v)"
proof -
  have tag: "tv_tag_id w = tv_tag_id entry" using normalize_tag_value_fields [OF assms] by simp
  let ?v = "w\<lparr>tv_sequence := vs_sequence (aq_values a) + 1, tv_stored_at := clock (vs_sequence (aq_values a))\<rparr>"
  let ?s = "snd (store_value (clock (vs_sequence (aq_values a))) w (aq_values a))"
  have "acquire_value clock entry a = (Some ?v, a\<lparr>aq_values := ?s\<rparr>)"
    using assms by (simp add: acquire_value_def value_store_put_def store_value_def Let_def)
  moreover have "same_reading ?v w" by (simp add: same_reading_def)
  moreover have "vs_latest (aq_values (a\<lparr>aq_values := ?s\<rparr>)) = (vs_latest (aq_values a))(tv_tag_id entry \<mapsto> ?v)"
    using tag by (simp add: store_value_def Let_def)
  ultimately show thesis by (rule that)
qed

lemma store_and_queue_ok:
  assumes "normalize_tag_value entry = Inr w"
  obtains v where "same_reading v w" "aq_events (store_and_queue clock entry a) = aq_events a @ [v]"
    "vs_latest (aq_values (store_and_queue clock entry a)) = (vs_latest (aq_values a))(tv_tag_id entry \<mapsto> v)"
proof (rule acquire_value_ok [OF assms, of clock a])
  fix v b assume b: "acquire_value clock entry a = (Some v, b)" "same_reading v w"
    "vs_latest (aq_values b) = (vs_latest (aq_values a))(tv_tag_id entry \<mapsto> v)"
  moreover have "aq_events b = aq_events a" using b(1) acquire_value_keeps(1) [of clock entry a] by simp
  ultimately show thesis using that by (simp add: store_and_queue_def)
qed

lemma store_all:
  assumes "\<forall>e \<in> set es. normalize_tag_value (f e) = Inr (w e) \<and> tv_tag_id (f e) = te_id e"
    and "distinct (map te_id es)"
  shows "\<exists>vs. aq_events (fold (\<lambda>e. store_and_queue clock (f e)) es a) = aq_events a @ vs \<and>
    list_all2 (\<lambda>e v. same_reading v (w e) \<and>
      vs_latest (aq_values (fold (\<lambda>e. store_and_queue clock (f e)) es a)) (te_id e) = Some v) es vs \<and>
    (\<forall>i. i \<notin> te_id ` set es \<longrightarrow>
      vs_latest (aq_values (fold (\<lambda>e. store_and_queue clock (f e)) es a)) i = vs_latest (aq_values a) i)"
  using assms
proof (induction es arbitrary: a)
  case (Cons e es)
  let ?b = "store_and_queue clock (f e) a"
  obtain v where v: "same_reading v (w e)" "aq_events ?b = aq_events a @ [v]"
    "vs_latest (aq_values ?b) = (vs_latest (aq_values a))(te_id e \<mapsto> v)"
    using Cons.prems(1) store_and_queue_ok [of "f e" "w e" clock a] by (metis list.set_intros(1))
  let ?c = "fold (\<lambda>e. store_and_queue clock (f e)) es ?b"
  obtain vs where vs: "aq_events ?c = aq_events ?b @ vs"
    "list_all2 (\<lambda>e v. same_reading v (w e) \<and> vs_latest (aq_values ?c) (te_id e) = Some v) es vs"
    "\<forall>i. i \<notin> te_id ` set es \<longrightarrow> vs_latest (aq_values ?c) i = vs_latest (aq_values ?b) i"
    using Cons.IH [of ?b] Cons.prems by auto
  have "te_id e \<notin> te_id ` set es" using Cons.prems(2) by simp
  with vs(3) v(3) have "vs_latest (aq_values ?c) (te_id e) = Some v" by simp
  with v vs show ?case by (intro exI [of _ "v # vs"]) simp
qed simp

section \<open>Readings and their tags\<close>

definition reading_ready :: "tag_entity list \<Rightarrow> bool" where
  "reading_ready tags \<longleftrightarrow> distinct (map te_id tags) \<and>
     (\<forall>e \<in> set tags. te_id e \<noteq> uuid_nil \<and> valid_tag_data_type (te_data_type e))"

lemma normalize_acquired:
  assumes "te_id e \<noteq> uuid_nil" and "valid_tag_data_type (te_data_type e)" and "observed \<noteq> 0"
    and "\<And>m. r = Inl m \<Longrightarrow> m \<noteq> []" and "\<And>v. r = Inr v \<Longrightarrow> has_data_type (te_data_type e) v"
  shows "normalize_tag_value (acquired e observed r) = Inr (acquired e observed r)"
  using assms by (cases r) (auto simp: normalize_tag_value_def acquired_def coerce_typed)

lemma process_reading_typed:
  assumes "decoders_ok (se_decoders env)" and "process_reading_sample env d raw sample = Inr v"
  shows "has_data_type d v"
proof -
  obtain config where "(case config of ReadingConfig reading \<Rightarrow> process_normalized_sample env d reading sample
       | _ \<Rightarrow> Inl (Sentinel ErrInvalidTagInput)) = Inr v"
    using assms(2) by (auto simp: process_reading_sample_def bindE_Inr_iff)
  then show ?thesis using process_normalized_typed [OF assms(1)] by (cases config) auto
qed

lemma process_sample_stores:
  assumes "decoders_ok (se_decoders env)" and "\<And>e. message e \<noteq> []" and "reading_ready tags"
    and "smp_observed_at sample \<noteq> 0 \<or> now \<noteq> 0"
  shows "\<exists>vs. aq_events (process_sample env message clock now tags sample a) = aq_events a @ vs \<and>
    list_all2 (\<lambda>e v. same_reading v (sample_entry env message now sample e) \<and>
      vs_latest (aq_values (process_sample env message clock now tags sample a)) (te_id e) = Some v) tags vs"
proof -
  have "normalize_tag_value (sample_entry env message now sample e) = Inr (sample_entry env message now sample e)"
    if "e \<in> set tags" for e
    unfolding sample_entry_def
    by (rule normalize_acquired)
      (use that assms process_reading_typed [OF assms(1)] in \<open>auto simp: reading_ready_def\<close>)
  then show ?thesis
    using store_all [of tags "sample_entry env message now sample" "sample_entry env message now sample" clock a] assms(3)
    by (auto simp: process_sample_def reading_ready_def sample_entry_def acquired_def)
qed

lemma acquired_entries_refused: "r = Inl [] \<Longrightarrow> \<exists>e. normalize_tag_value (acquired t observed r) = Inl e"
  by (simp add: normalize_tag_value_def acquired_def)

text \<open>
  C26: a sample of a datasource reaches every tag of its subscription: one value per tag is
  stored and handed to the cascade, in the order of the tags, with the sample's time (or the
  clock's, when it has none); it is good with the processed value, or bad with the error's text.
\<close>

theorem sample_reaches_every_tag:
  assumes "decoders_ok (se_decoders env)" and "\<And>e. message e \<noteq> []" and "reading_ready tags"
    and "smp_observed_at sample \<noteq> 0 \<or> now \<noteq> 0"
  shows "\<exists>vs. aq_events (process_sample env message clock now tags sample a) = aq_events a @ vs \<and>
    list_all2 (\<lambda>e v. same_reading v (sample_entry env message now sample e) \<and>
      vs_latest (aq_values (process_sample env message clock now tags sample a)) (te_id e) = Some v) tags vs"
  using assms by (rule process_sample_stores)

definition sample_tag :: tag_entity where
  "sample_tag = \<lparr>te_id = 9, te_datasource = Some 3, te_name = ''x'', te_type = TypeReading,
     te_data_type = DTBool, te_description = None, te_enabled = True, te_config = sample_reading\<rparr>"

theorem sample_reaches_every_tag_witness:
  "\<exists>v. aq_events (process_sample sample_env (\<lambda>_. ''error'') (\<lambda>_. 7) 7 [sample_tag] (sample_of_byte 4)
      (new_acquisition new_value_store)) = [v] \<and> tv_tag_id v = 9 \<and> tv_observed_at v = 5"
proof -
  have "decoders_ok (se_decoders sample_env)" by (simp add: sample_env_def)
  from sample_reaches_every_tag [OF this, of "\<lambda>_. ''error''" "[sample_tag]" "sample_of_byte 4" 7 "\<lambda>_. 7"
      "new_acquisition new_value_store"]
  obtain v where v: "aq_events (process_sample sample_env (\<lambda>_. ''error'') (\<lambda>_. 7) 7 [sample_tag] (sample_of_byte 4)
      (new_acquisition new_value_store)) = [v]"
    and w: "same_reading v (sample_entry sample_env (\<lambda>_. ''error'') 7 (sample_of_byte 4) sample_tag)"
    by (auto simp: reading_ready_def sample_tag_def sample_of_byte_def new_acquisition_def list_all2_Cons1)
  from w have "tv_tag_id v = 9 \<and> tv_observed_at v = 5"
    unfolding same_reading_def
    by (cases v) (simp add: sample_entry_def acquired_def sample_tag_def sample_of_byte_def)
  with v show ?thesis by blast
qed

section \<open>The cascade ends\<close>

definition groups_ok :: "acquisition \<Rightarrow> bool" where
  "groups_ok a \<longleftrightarrow> (\<forall>i. distinct (map rct_id (aq_calculated a i)))"

lemma report_keeps [simp]:
  "aq_events (report e a) = aq_events a" "aq_calculated (report e a) = aq_calculated a"
  "aq_values (report e a) = aq_values a"
  by (auto simp: report_def split: option.splits)

lemma cascade_group_ok:
  "cascade_group env trigger cs (q, p, a) = (q', p', a') \<Longrightarrow> p < max_calculated_cascade_values \<Longrightarrow>
   aq_calculated a' = aq_calculated a \<and> aq_events a' = aq_events a \<and> p \<le> p' \<and>
   vs_sequence (aq_values a') + of_nat p = vs_sequence (aq_values a) + of_nat p' \<and>
   (q' = [] \<and> p' = max_calculated_cascade_values \<or>
    p' < max_calculated_cascade_values \<and> length q' + p = length q + p')"
proof (induction cs arbitrary: q p a)
  case (Cons c cs)
  obtain r b where b: "acquire_value (ae_clock env) (evaluate_runtime_calculated env trigger c a) a = (r, b)"
    by fastforce
  have keeps: "aq_events b = aq_events a" "aq_calculated b = aq_calculated a"
    using acquire_value_keeps [of "ae_clock env" "evaluate_runtime_calculated env trigger c a" a] b by simp_all
  show ?case
  proof (cases r)
    case None
    then show ?thesis using Cons b keeps acquire_value_sequence(1) [of _ _ a b] by simp
  next
    case (Some v)
    have s: "vs_sequence (aq_values b) = vs_sequence (aq_values a) + 1"
      using acquire_value_sequence(2) b Some by simp
    show ?thesis
    proof (cases "p + 1 \<ge> max_calculated_cascade_values")
      case True
      then have "p' = p + 1" "q' = []" "a' = report CascadeExceeded b" using Cons.prems(1) b Some by simp_all
      then show ?thesis using True Cons.prems(2) keeps s by simp
    next
      case False
      then have "cascade_group env trigger cs (q @ [v], p + 1, b) = (q', p', a')"
        using Cons.prems(1) b Some by simp
      from Cons.IH [OF this] False keeps s show ?thesis by (auto simp: algebra_simps)
    qed
  qed
qed simp

lemma word_count_chain: "b + p' = a' + q \<Longrightarrow> a' + p = a + p' \<Longrightarrow> b + p = a + (q :: 64 word)"
proof -
  assume "b + p' = a' + q" and "a' + p = a + p'"
  then have "b = a' + q - p'" and "a' = a + p' - p" by (simp_all add: eq_diff_eq)
  then show "b + p = a + q" by simp
qed

lemma cascade_loop_returns:
  assumes "groups_ok a" and "\<And>k b. groups_ok b \<Longrightarrow> groups_ok (others k b)"
    and "q = [] \<and> p \<le> max_calculated_cascade_values \<or> p < max_calculated_cascade_values"
  shows "\<exists>p' b. cascade_loop env others k q p a = Some (p', b) \<and> p' \<le> max_calculated_cascade_values \<and>
    (others = (\<lambda>k a. a) \<longrightarrow> aq_events b = aq_events a \<and>
      vs_sequence (aq_values b) + of_nat p = vs_sequence (aq_values a) + of_nat p')"
  using assms(1,3)
proof (induction "max_calculated_cascade_values - p + length q" arbitrary: k q p a rule: less_induct)
  case less
  show ?case
  proof (cases q)
    case Nil
    then show ?thesis using less(3) by (subst cascade_loop.simps) auto
  next
    case (Cons trigger rest)
    let ?a = "others k a"
    have p: "p < max_calculated_cascade_values" using less(3) Cons by simp
    have ga: "groups_ok ?a" using assms(2) less(2) .
    then obtain calcs where calcs: "order_calculated_tags (aq_calculated ?a (tv_tag_id trigger)) = Some calcs"
      using order_calculated_tags_returns unfolding groups_ok_def by blast
    obtain q' p' a' where g: "cascade_group env trigger calcs (rest, p, ?a) = (q', p', a')"
      by (metis prod_cases3)
    note ok = cascade_group_ok [OF g p]
    have "groups_ok a'" using ok ga by (simp add: groups_ok_def)
    moreover have "max_calculated_cascade_values - p' + length q' < max_calculated_cascade_values - p + length q"
      using ok p Cons by auto
    moreover have "q' = [] \<and> p' \<le> max_calculated_cascade_values \<or> p' < max_calculated_cascade_values"
      using ok by auto
    ultimately obtain p2 b where "cascade_loop env others (k + 1) q' p' a' = Some (p2, b)"
      "p2 \<le> max_calculated_cascade_values"
      "others = (\<lambda>k a. a) \<longrightarrow> aq_events b = aq_events a' \<and>
        vs_sequence (aq_values b) + of_nat p' = vs_sequence (aq_values a') + of_nat p2"
      using less(1) [of p' q' a' "k + 1"] by blast
    moreover have "cascade_loop env others k q p a = cascade_loop env others (k + 1) q' p' a'"
      by (subst cascade_loop.simps) (simp add: Cons Let_def calcs g)
    ultimately show ?thesis using ok word_count_chain [of _ "of_nat p'" _ "of_nat p2" "of_nat p"]
      by auto
  qed
qed

text \<open>
  C27: the cascade that a stored value starts always ends, after at most 1024 stored values,
  whatever the calculated tags trigger in turn (a cycle of triggers included) and whatever
  readings and reconciliations come between two triggers. When nothing comes between, exactly
  the counted values entered the store and no event of another value was taken or added.
\<close>

theorem cascade_ends:
  assumes "groups_ok a" and "\<And>k b. groups_ok b \<Longrightarrow> groups_ok (others k b)" and "aq_events a = first # events"
  shows "\<exists>n b. handle_value_event env others a = Some (n, b) \<and> n \<le> max_calculated_cascade_values \<and>
    (others = (\<lambda>k a. a) \<longrightarrow> aq_events b = events \<and>
      vs_sequence (aq_values b) = vs_sequence (aq_values a) + of_nat n)"
proof -
  have "groups_ok (a\<lparr>aq_events := events\<rparr>)" using assms(1) by (simp add: groups_ok_def)
  from cascade_loop_returns [OF this assms(2), where q = "[first]" and p = 0 and k = 0 and env = env]
  show ?thesis using assms(3) by (auto simp: handle_value_event_def max_calculated_cascade_values_def)
qed

definition sample_acquisition_env :: acquisition_env where
  "sample_acquisition_env = \<lparr>ae_service = sample_env, ae_message = (\<lambda>_. ''error''), ae_render = (\<lambda>_. ''id''),
     ae_clock = (\<lambda>_. 7), ae_cancelled = (\<lambda>_. False)\<rparr>"

text \<open>A calculated tag that its own value triggers, started by a reading that was bad.\<close>

definition sample_event :: tag_value where
  "sample_event = acquired sample_tag 5 (Inl ''error'')"

definition sample_cyclic :: acquisition where
  "sample_cyclic = (new_acquisition new_value_store)\<lparr>aq_started := True,
     aq_calculated := (\<lambda>i. if i = 9 \<or> i = 1 then [sample_calculated 1 [9]] else []), aq_events := [sample_event]\<rparr>"

theorem cascade_ends_witness:
  "\<exists>n b. handle_value_event sample_acquisition_env (\<lambda>k a. a) sample_cyclic = Some (n, b) \<and>
     n \<le> 1024 \<and> aq_events b = []"
proof -
  have "groups_ok sample_cyclic" by (simp add: groups_ok_def sample_cyclic_def)
  moreover have "aq_events sample_cyclic = [sample_event]" by (simp add: sample_cyclic_def)
  ultimately show ?thesis
    using cascade_ends [of sample_cyclic "\<lambda>k a. a" sample_event "[]" sample_acquisition_env]
    by (auto simp: max_calculated_cascade_values_def)
qed

section \<open>What a reconciliation leaves\<close>

text \<open>The enabled reading tags of a datasource, in the order of the table.\<close>

definition readings_of :: "tag_entity list \<Rightarrow> uuid \<Rightarrow> tag_entity list" where
  "readings_of tags d = filter (\<lambda>e. te_type e = TypeReading \<and> te_datasource e = Some d \<and> d \<noteq> uuid_nil) tags"

definition grouped_ok :: "tag_entity list \<Rightarrow> (uuid \<rightharpoonup> tag_entity list) \<Rightarrow> bool" where
  "grouped_ok tags m \<longleftrightarrow> (\<forall>d. m d = (if readings_of tags d = [] then None else Some (readings_of tags d)))"

definition calculated_ok :: "tag_entity list \<Rightarrow> (uuid \<Rightarrow> runtime_calculated_tag list) \<Rightarrow> bool" where
  "calculated_ok tags m \<longleftrightarrow> (\<forall>i. distinct (map rct_id (m i)) \<and> rct_id ` set (m i) \<subseteq> te_id ` set tags)"

lemma readings_of_snoc:
  "readings_of (tags @ [e]) d = readings_of tags d @
     (if te_type e = TypeReading \<and> te_datasource e = Some d \<and> d \<noteq> uuid_nil then [e] else [])"
  by (simp add: readings_of_def)

lemma calculated_ok_mono: "calculated_ok tags m \<Longrightarrow> calculated_ok (tags @ [e]) m"
  by (auto simp: calculated_ok_def)

lemma calculated_ok_add:
  assumes "calculated_ok tags m" and "te_id e \<notin> te_id ` set tags" and "rct_entity t = e"
  shows "calculated_ok (tags @ [e]) (m(i := m i @ [t]))"
  using assms unfolding calculated_ok_def by (auto simp: subset_iff image_iff)

lemma grouped_ok_add:
  assumes "grouped_ok tags m" and "te_type e = TypeReading" and "te_datasource e = Some d" and "d \<noteq> uuid_nil"
  shows "grouped_ok (tags @ [e]) (m(d \<mapsto> list_of_key m d @ [e]))"
  using assms by (auto simp: grouped_ok_def readings_of_snoc list_of_key_def)

lemma grouped_ok_other:
  "grouped_ok tags m \<Longrightarrow> te_type e \<noteq> TypeReading \<or> te_datasource e = None \<or> te_datasource e = Some uuid_nil \<Longrightarrow>
   grouped_ok (tags @ [e]) m"
  by (auto simp: grouped_ok_def readings_of_snoc)

lemma definition_entity:
  "runtime_calculated_definition env e = Inr d \<Longrightarrow> rct_entity (crd_tag d) = e"
  by (auto simp: runtime_calculated_definition_def bindE_Inr_iff split: tag_config.splits option.splits if_splits)

lemma reconcile_tag_tables:
  assumes "grouped_ok tags (rt_grouped rt)" and "calculated_ok tags (rt_calculated rt)"
    and "te_id e \<notin> te_id ` set tags" and st: "reconcile_tag env e (rt, a) = (rt', a')"
  shows "grouped_ok (tags @ [e]) (rt_grouped rt') \<and> calculated_ok (tags @ [e]) (rt_calculated rt')"
proof (cases "te_type e")
  case TypeReading
  show ?thesis
  proof (cases "te_datasource e = None \<or> te_datasource e = Some uuid_nil")
    case True
    then have "rt' = rt" using st TypeReading by (simp add: reconcile_tag_def)
    then show ?thesis using True assms(1,2) grouped_ok_other calculated_ok_mono by simp
  next
    case False
    then obtain d where d: "te_datasource e = Some d" "d \<noteq> uuid_nil" by (cases "te_datasource e") auto
    then have "rt' = rt\<lparr>rt_grouped := (rt_grouped rt)(d \<mapsto> list_of_key (rt_grouped rt) d @ [e])\<rparr>"
      using st TypeReading by (simp add: reconcile_tag_def)
    then show ?thesis using grouped_ok_add [OF assms(1) TypeReading d] calculated_ok_mono [OF assms(2)] by simp
  qed
next
  case TypeConstant
  then have "rt_grouped rt' = rt_grouped rt" "rt_calculated rt' = rt_calculated rt"
    using st by (auto simp: reconcile_tag_def split: sum.splits)
  then show ?thesis using TypeConstant assms(1,2) grouped_ok_other calculated_ok_mono by simp
next
  case TypeCalculated
  show ?thesis
  proof (cases "runtime_calculated_definition env e")
    case Inl
    then have "rt_grouped rt' = rt_grouped rt" "rt_calculated rt' = rt_calculated rt"
      using st TypeCalculated by (auto simp: reconcile_tag_def)
    then show ?thesis using TypeCalculated assms(1,2) grouped_ok_other calculated_ok_mono by simp
  next
    case (Inr d)
    then have "rt' = rt\<lparr>rt_calculated := (rt_calculated rt)(crd_trigger d := rt_calculated rt (crd_trigger d) @ [crd_tag d])\<rparr>"
      using st TypeCalculated by (simp add: reconcile_tag_def)
    then show ?thesis
      using TypeCalculated grouped_ok_other [OF assms(1)] calculated_ok_add [OF assms(2,3) definition_entity [OF Inr]]
      by simp
  qed
next
  case TypeOther
  then show ?thesis using st assms(1,2) grouped_ok_other calculated_ok_mono by (simp add: reconcile_tag_def)
qed

lemma reconcile_tables_ok:
  assumes "distinct (map te_id tags)" and "fold (reconcile_tag env) tags (empty_tables, a) = (rt, b)"
  shows "grouped_ok tags (rt_grouped rt) \<and> calculated_ok tags (rt_calculated rt)"
  using assms
proof (induction tags arbitrary: rt b rule: rev_induct)
  case Nil
  then show ?case by (auto simp: empty_tables_def grouped_ok_def calculated_ok_def readings_of_def)
next
  case (snoc e tags)
  obtain rt0 b0 where f: "fold (reconcile_tag env) tags (empty_tables, a) = (rt0, b0)" by fastforce
  then have "reconcile_tag env e (rt0, b0) = (rt, b)" using snoc.prems(2) by simp
  then show ?case using snoc.IH [OF _ f] snoc.prems(1) reconcile_tag_tables [of tags rt0 e env b0 rt b] by simp
qed

text \<open>The fields the loops of \<open>Reconcile\<close> leave alone.\<close>

definition same_tables :: "acquisition \<Rightarrow> acquisition \<Rightarrow> bool" where
  "same_tables a b \<longleftrightarrow> aq_started b = aq_started a \<and> aq_stopped b = aq_stopped a \<and>
     aq_subscriptions b = aq_subscriptions a \<and> aq_calculated b = aq_calculated a"

lemma same_tables_refl [simp]: "same_tables a a"
  by (simp add: same_tables_def)

lemma same_tables_trans: "same_tables a b \<Longrightarrow> same_tables b c \<Longrightarrow> same_tables a c"
  by (simp add: same_tables_def)

lemma report_same [simp]: "same_tables a (report e a)"
  by (auto simp: same_tables_def report_def split: option.splits)

lemma store_and_queue_same [simp]: "same_tables a (store_and_queue clock v a)"
  by (auto simp: same_tables_def store_and_queue_def acquire_value_def report_def
      split: prod.splits sum.splits option.splits)

lemma fold_same: "(\<And>x a. same_tables a (f x a)) \<Longrightarrow> same_tables a (fold f xs a)"
  by (induction xs arbitrary: a) (auto intro: same_tables_trans)

lemma reconcile_tag_same: "reconcile_tag env e (rt, a) = (rt', a') \<Longrightarrow> same_tables a a'"
  by (auto simp: reconcile_tag_def split: tag_type.splits if_splits sum.splits prod.splits)

lemma reconcile_tags_same: "fold (reconcile_tag env) tags (rt, a) = (rt', a') \<Longrightarrow> same_tables a a'"
proof (induction tags arbitrary: rt a)
  case (Cons e tags)
  obtain rt1 a1 where e: "reconcile_tag env e (rt, a) = (rt1, a1)" by fastforce
  then show ?case using Cons reconcile_tag_same [OF e] by (auto intro: same_tables_trans)
qed simp

lemma publish_unavailable_same [simp]: "same_tables a (publish_unavailable clock now tags cause a)"
  unfolding publish_unavailable_def by (rule fold_same) simp

lemma subscribe_datasource_effect:
  "aq_started (subscribe_datasource env now connect (d, tags) a) = aq_started a"
  "aq_stopped (subscribe_datasource env now connect (d, tags) a) = aq_stopped a"
  "aq_calculated (subscribe_datasource env now connect (d, tags) a) = aq_calculated a"
  "map_option sb_tags (aq_subscriptions (subscribe_datasource env now connect (d, tags) a) i) =
     (if i = d \<and> connect d = None \<and> \<not> aq_stopped a then Some tags
      else map_option sb_tags (aq_subscriptions a i))"
proof -
  note same = same_tables_trans [OF publish_unavailable_same [of a "ae_clock env" now tags "the (connect d)"] report_same [of _ "SubscribingFailed d (the (connect d))"]]
  show "aq_started (subscribe_datasource env now connect (d, tags) a) = aq_started a"
    "aq_stopped (subscribe_datasource env now connect (d, tags) a) = aq_stopped a"
    "aq_calculated (subscribe_datasource env now connect (d, tags) a) = aq_calculated a"
    "map_option sb_tags (aq_subscriptions (subscribe_datasource env now connect (d, tags) a) i) =
     (if i = d \<and> connect d = None \<and> \<not> aq_stopped a then Some tags
      else map_option sb_tags (aq_subscriptions a i))"
    using same by (auto simp: subscribe_datasource_def Let_def same_tables_def split: option.splits)
qed

lemma subscribe_all:
  assumes "\<forall>(d, ts) \<in> set fresh. g d = Some ts" and "\<not> aq_stopped a"
  shows "map_option sb_tags (aq_subscriptions (fold (subscribe_datasource env now connect) fresh a) i) =
     (if connect i = None \<and> i \<in> fst ` set fresh then g i else map_option sb_tags (aq_subscriptions a i)) \<and>
    aq_calculated (fold (subscribe_datasource env now connect) fresh a) = aq_calculated a"
  using assms
proof (induction fresh arbitrary: a)
  case (Cons x fresh)
  obtain d ts where x: "x = (d, ts)" by (cases x)
  note eff = subscribe_datasource_effect [of env now connect d ts a]
  let ?b = "subscribe_datasource env now connect (d, ts) a"
  have "map_option sb_tags (aq_subscriptions (fold (subscribe_datasource env now connect) fresh ?b) i) =
     (if connect i = None \<and> i \<in> fst ` set fresh then g i else map_option sb_tags (aq_subscriptions ?b i)) \<and>
    aq_calculated (fold (subscribe_datasource env now connect) fresh ?b) = aq_calculated ?b"
    by (rule Cons.IH) (use Cons.prems eff(2) in auto)
  then show ?case using eff(3,4) Cons.prems x by auto
qed simp

lemma reconcile_with_tables:
  assumes "distinct (map te_id tags)" and "\<not> aq_stopped a"
    and ord: "\<And>d. readings_of tags d \<noteq> [] \<Longrightarrow> d \<in> set ord"
  shows "map_option sb_tags (aq_subscriptions (reconcile_with env now connect ord tags a) d) =
     (if readings_of tags d \<noteq> [] \<and> (aq_subscriptions a d \<noteq> None \<or> connect d = None)
      then Some (readings_of tags d) else None)"
    and "groups_ok (reconcile_with env now connect ord tags a)"
proof -
  obtain rt a1 where f: "fold (reconcile_tag (ae_service env)) tags (empty_tables, a) = (rt, a1)" by fastforce
  note ok = reconcile_tables_ok [OF assms(1) f] and same1 = reconcile_tags_same [OF f]
  define fresh where "fresh = List.map_filter (\<lambda>d. if aq_subscriptions a1 d = None
            then map_option (Pair d) (rt_grouped rt d) else None) ord"
  define b where "b = reconcile_install rt a1"
  define c where "c = fold (\<lambda>k. store_and_queue (ae_clock env) (acquired (rk_entity k) now (Inr (rk_value k))))
            (changed_constants rt a1) (fold report (new_invalid rt a1) b)"
  have res: "reconcile_with env now connect ord tags a = fold (subscribe_datasource env now connect) fresh c"
    by (simp add: reconcile_with_def f Let_def fresh_def b_def c_def)
  have "same_tables (fold report (new_invalid rt a1) b) c" unfolding c_def by (rule fold_same) simp
  moreover have "same_tables b (fold report (new_invalid rt a1) b)" by (rule fold_same) simp
  ultimately have bc: "same_tables b c" by (rule same_tables_trans [rotated])
  have fresh: "\<forall>(d, ts) \<in> set fresh. rt_grouped rt d = Some ts"
    by (auto simp: fresh_def List.map_filter_def split: if_splits)
  have "\<not> aq_stopped c" using bc same1 assms(2) by (simp add: same_tables_def b_def reconcile_install_def)
  note sub = subscribe_all [OF fresh this, of env now connect]
  have c: "aq_subscriptions c = kept_subscriptions rt a1" "aq_calculated c = rt_calculated rt"
    using bc by (simp_all add: same_tables_def b_def reconcile_install_def)
  have g: "rt_grouped rt d = (if readings_of tags d = [] then None else Some (readings_of tags d))"
    using ok by (simp add: grouped_ok_def)
  have mem: "d \<in> fst ` set fresh \<longleftrightarrow> d \<in> set ord \<and> aq_subscriptions a d = None \<and> rt_grouped rt d \<noteq> None"
    using same1 by (force simp: fresh_def List.map_filter_def same_tables_def image_iff)
  show "map_option sb_tags (aq_subscriptions (reconcile_with env now connect ord tags a) d) =
     (if readings_of tags d \<noteq> [] \<and> (aq_subscriptions a d \<noteq> None \<or> connect d = None)
      then Some (readings_of tags d) else None)"
    using sub [of d] c(1) g mem ord [of d] same1
    by (auto simp: res kept_subscriptions_def same_tables_def split: option.splits)
  show "groups_ok (reconcile_with env now connect ord tags a)"
    using sub c(2) ok by (simp add: res groups_ok_def calculated_ok_def)
qed

text \<open>
  C28: after a reconciliation a datasource has a subscription exactly when an enabled reading tag
  names it and it was subscribed before or could be subscribed now; the subscription serves
  exactly the enabled reading tags of that datasource, in the order of the table.
\<close>

theorem reconcile_subscribes:
  assumes "aq_started a" and "\<not> aq_stopped a" and "distinct (map te_id tags)"
    and "\<And>d. readings_of tags d \<noteq> [] \<Longrightarrow> d \<in> set ord"
    and "reconcile env now connect ord (Inr tags) a = (res, b)"
  shows "res = Inr () \<and> map_option sb_tags (aq_subscriptions b d) =
     (if readings_of tags d \<noteq> [] \<and> (aq_subscriptions a d \<noteq> None \<or> connect d = None)
      then Some (readings_of tags d) else None)"
proof
  have b: "res = Inr ()" "b = reconcile_with env now connect ord tags a"
    using assms(1,2,5) by (simp_all add: reconcile_def)
  show "res = Inr ()" by (rule b(1))
  show "map_option sb_tags (aq_subscriptions b d) =
     (if readings_of tags d \<noteq> [] \<and> (aq_subscriptions a d \<noteq> None \<or> connect d = None)
      then Some (readings_of tags d) else None)"
    unfolding b(2) by (rule reconcile_with_tables(1) [OF assms(3,2,4)])
qed

theorem reconcile_subscribes_witness:
  "map_option sb_tags (aq_subscriptions (snd (reconcile sample_acquisition_env 7 (\<lambda>_. None) [3] (Inr [sample_tag])
      ((new_acquisition new_value_store)\<lparr>aq_started := True\<rparr>))) 3) = Some [sample_tag]"
proof -
  let ?a = "(new_acquisition new_value_store)\<lparr>aq_started := True\<rparr>"
  have "readings_of [sample_tag] d = (if d = 3 then [sample_tag] else [])" for d
    by (simp add: readings_of_def sample_tag_def)
  then show ?thesis
    using reconcile_subscribes [of ?a "[sample_tag]" "[3]" sample_acquisition_env 7 "\<lambda>_. None"
        "fst (reconcile sample_acquisition_env 7 (\<lambda>_. None) [3] (Inr [sample_tag]) ?a)"
        "snd (reconcile sample_acquisition_env 7 (\<lambda>_. None) [3] (Inr [sample_tag]) ?a)" 3]
    by (simp add: new_acquisition_def split: if_splits)
qed

end
