(* ===== verification/Modbus_Tcp.thy ===== *)
theory Modbus_Tcp
  imports Tag_Service
begin

text \<open>
  The Modbus TCP protocol, \<open>internal/protocol/modbus/\<close>: the read request and its limits, the
  client with its connection state (\<open>tcp.go\<close>), the data of a response, the normalization of the
  configurations and the monitor loop (\<open>driver.go\<close>), the classification of a failed request
  (\<open>error.go\<close>).

  The library \<open>go-modbus-client\<close> is a parameter: what it answers to a dial, to a packet it is
  asked to build and to a request it sends. A configuration is the struct its JSON decodes to.
\<close>

section \<open>Requests\<close>

type_synonym function_code = "8 word"

definition function_read_coils :: function_code where "function_read_coils = 1"
definition function_read_discrete_inputs :: function_code where "function_read_discrete_inputs = 2"
definition function_read_holding_registers :: function_code where "function_read_holding_registers = 3"
definition function_read_input_registers :: function_code where "function_read_input_registers = 4"

lemmas function_codes = function_read_coils_def function_read_discrete_inputs_def
  function_read_holding_registers_def function_read_input_registers_def

record read_request =
  rr_unit_id :: byte
  rr_function_code :: function_code
  rr_address :: "16 word"
  rr_quantity :: "16 word"

text \<open>What an exception, a timeout or another failure of the library is for the code that looks at it.\<close>

datatype transport_error =
    ModbusException byte
  | TransportTimeout
  | TransportCancelled
  | TransportFailed

datatype modbus_error =
    ErrInvalidModbusConfig
  | ErrInvalidModbusRequest
  | ErrModbusNotConnected
  | ErrUnexpectedModbusResponse
  | ErrShortResponse
  | TransportError transport_error
  | ErrGatewayClientFactoryRequired
  | ErrInvalidGatewayConfig
  | ErrInvalidGatewayTestOptions
  | ErrInvalidDeviceConfig
  | ErrInvalidDatasourceConfig

definition validate_read_request :: "read_request \<Rightarrow> modbus_error + unit" where
  "validate_read_request r =
     (if rr_quantity r = 0 then Inl ErrInvalidModbusRequest
      else bindE
        (if rr_function_code r = function_read_coils \<or> rr_function_code r = function_read_discrete_inputs
         then Inr 2000
         else if rr_function_code r = function_read_holding_registers \<or>
           rr_function_code r = function_read_input_registers
         then Inr 125
         else Inl ErrInvalidModbusRequest)
        (\<lambda>max_quantity :: 16 word.
          if rr_quantity r > max_quantity then Inl ErrInvalidModbusRequest
          else let last_address = ucast (rr_address r) + ucast (rr_quantity r) - 1 :: 32 word
               in if last_address > 65535 then Inl ErrInvalidModbusRequest else Inr ()))"

text \<open>The packets of the library, by the constructor that built them, and its responses.\<close>

datatype packet_kind = ReadCoilsTCP | ReadDiscreteInputsTCP | ReadHoldingRegistersTCP | ReadInputRegistersTCP

type_synonym packet_builder =
  "packet_kind \<Rightarrow> byte \<Rightarrow> 16 word \<Rightarrow> 16 word \<Rightarrow> transport_error + byte list"

definition build_read_packet :: "packet_builder \<Rightarrow> read_request \<Rightarrow> modbus_error + byte list" where
  "build_read_packet build r =
     (let made = (\<lambda>kind. wrapE TransportError (build kind (rr_unit_id r) (rr_address r) (rr_quantity r)))
      in if rr_function_code r = function_read_coils then made ReadCoilsTCP
         else if rr_function_code r = function_read_discrete_inputs then made ReadDiscreteInputsTCP
         else if rr_function_code r = function_read_holding_registers then made ReadHoldingRegistersTCP
         else if rr_function_code r = function_read_input_registers then made ReadInputRegistersTCP
         else Inl ErrInvalidModbusRequest)"

text \<open>A response is nil, a typed pointer that may be nil, or of another type.\<close>

datatype modbus_response =
    NilResponse
  | ReadResponse packet_kind "byte list option"
  | OtherResponse

definition response_data :: "packet_kind \<Rightarrow> modbus_response \<Rightarrow> modbus_error + byte list" where
  "response_data kind response =
     (case response of
        ReadResponse k (Some data) \<Rightarrow> if k = kind then Inr data else Inl ErrUnexpectedModbusResponse
      | _ \<Rightarrow> Inl ErrUnexpectedModbusResponse)"

definition extract_read_data :: "function_code \<Rightarrow> modbus_response \<Rightarrow> modbus_error + byte list" where
  "extract_read_data code response =
     (if response = NilResponse then Inl ErrUnexpectedModbusResponse
      else if code = function_read_coils then response_data ReadCoilsTCP response
      else if code = function_read_discrete_inputs then response_data ReadDiscreteInputsTCP response
      else if code = function_read_holding_registers then response_data ReadHoldingRegistersTCP response
      else if code = function_read_input_registers then response_data ReadInputRegistersTCP response
      else Inl ErrUnexpectedModbusResponse)"

section \<open>The client\<close>

record modbus_config_input =
  mi_host :: string
  mi_port :: "int option"
  mi_timeout :: "int option"
  mi_retry_count :: "int option"
  mi_retry_delay :: "int option"
  mi_keep_alive :: "bool option"
  mi_reconnect_interval :: "int option"

record modbus_config =
  mo_host :: string
  mo_port :: int
  mo_timeout :: int
  mo_retry_count :: int
  mo_retry_delay :: int
  mo_keep_alive :: bool
  mo_reconnect_interval :: int

definition value_or_default :: "'a option \<Rightarrow> 'a \<Rightarrow> 'a" where
  "value_or_default v d = (case v of None \<Rightarrow> d | Some x \<Rightarrow> x)"

lemma value_or_default_simps [simp]:
  "value_or_default None d = d" "value_or_default (Some x) d = x"
  by (simp_all add: value_or_default_def)

text \<open>\<open>net.JoinHostPort\<close> brackets a host with a colon.\<close>

definition join_host_port :: "string \<Rightarrow> string \<Rightarrow> string" where
  "join_host_port host port =
     (if CHR '':'' \<in> set host then ''['' @ host @ '']:'' @ port else host @ '':'' @ port)"

record modbus_client =
  mc_address :: string
  mc_timeout :: duration
  mc_connected :: bool

definition new_modbus_tcp_client :: "modbus_config \<Rightarrow> modbus_error + modbus_client" where
  "new_modbus_tcp_client config =
     (let host = trim_space (mo_host config)
      in if host = [] then Inl ErrInvalidModbusConfig
         else if mo_port config < 1 \<or> mo_port config > 65535 then Inl ErrInvalidModbusConfig
         else if mo_timeout config < 100 \<or> mo_timeout config > 60000 then Inl ErrInvalidModbusConfig
         else Inr \<lparr>mc_address = join_host_port host (itoa (mo_port config)),
                mc_timeout = mo_timeout config * millisecond, mc_connected = False\<rparr>)"

text \<open>\<open>dial\<close>, \<open>closing\<close> and \<open>send\<close> are the answers of the transport; \<open>None\<close> is a nil error.\<close>

definition client_connect :: "transport_error option \<Rightarrow> modbus_client \<Rightarrow> (modbus_error + unit) \<times> modbus_client" where
  "client_connect dial c =
     (if mc_connected c then (Inr (), c)
      else case dial of
        Some e \<Rightarrow> (Inl (TransportError e), c)
      | None \<Rightarrow> (Inr (), c\<lparr>mc_connected := True\<rparr>))"

definition client_disconnect :: "transport_error option \<Rightarrow> modbus_client \<Rightarrow> (modbus_error + unit) \<times> modbus_client" where
  "client_disconnect closing c =
     (if \<not> mc_connected c then (Inr (), c)
      else (case closing of None \<Rightarrow> Inr () | Some e \<Rightarrow> Inl (TransportError e), c\<lparr>mc_connected := False\<rparr>))"

record modbus_transport =
  mt_build :: packet_builder
  mt_send :: "byte list \<Rightarrow> transport_error + modbus_response"

definition client_read :: "modbus_transport \<Rightarrow> modbus_client \<Rightarrow> read_request \<Rightarrow> modbus_error + byte list" where
  "client_read tr c r =
     bindE (validate_read_request r) (\<lambda>u.
       if \<not> mc_connected c then Inl ErrModbusNotConnected
       else bindE (build_read_packet (mt_build tr) r) (\<lambda>wire_request.
            bindE (wrapE TransportError (mt_send tr wire_request)) (\<lambda>response.
              extract_read_data (rr_function_code r) response)))"

section \<open>The data of a response\<close>

datatype modbus_data =
    ModbusBits "(32 word \<times> bool) list"
  | ModbusRegisters "(32 word \<times> 16 word \<times> string) list"

definition hex_digit :: "nat \<Rightarrow> char" where
  "hex_digit n = (if n < 10 then char_of (48 + n) else char_of (55 + n))"

definition hex4 :: "16 word \<Rightarrow> string" where
  "hex4 w = map (\<lambda>k. hex_digit (unat (drop_bit k w AND 15))) [12, 8, 4, 0]"

definition item_address :: "read_request \<Rightarrow> 16 word \<Rightarrow> 32 word" where
  "item_address r offset = ucast (rr_address r) + ucast offset"

definition bit_item :: "read_request \<Rightarrow> byte list \<Rightarrow> 16 word \<Rightarrow> 32 word \<times> bool" where
  "bit_item r raw offset =
     (item_address r offset,
      (raw ! unat (offset div 8)) AND push_bit (unat (offset mod 8)) 1 \<noteq> 0)"

definition register_item ::
  "read_request \<Rightarrow> byte list \<Rightarrow> 16 word \<Rightarrow> (32 word \<times> 16 word \<times> string) list \<Rightarrow>
     modbus_error + (32 word \<times> 16 word \<times> string) list" where
  "register_item r raw offset acc =
     (let index = unat offset * 2
      in if index + 1 \<ge> length raw then Inl ErrShortResponse
         else let value = push_bit 8 (ucast (raw ! index)) OR ucast (raw ! (index + 1))
              in Inr (acc @ [(item_address r offset, value, hex4 value)]))"

text \<open>The loop counter is a uint16 below the quantity.\<close>

definition offsets :: "16 word \<Rightarrow> 16 word list" where
  "offsets quantity = map of_nat [0 ..< unat quantity]"

definition format_modbus_data :: "read_request \<Rightarrow> byte list \<Rightarrow> modbus_error + modbus_data" where
  "format_modbus_data r raw =
     (if rr_function_code r = function_read_coils \<or> rr_function_code r = function_read_discrete_inputs
      then (if length raw < (unat (rr_quantity r) + 7) div 8 then Inl ErrShortResponse
            else Inr (ModbusBits (map (bit_item r raw) (offsets (rr_quantity r)))))
      else bindE (foldE (register_item r raw) (offsets (rr_quantity r)) [])
        (\<lambda>registers. Inr (ModbusRegisters registers)))"

record modbus_sample = datasource_sample +
  ms_latency :: duration
  ms_data :: "modbus_data option"

text \<open>\<open>started\<close> and \<open>now\<close> are the clock before and after the read.\<close>

definition read_modbus_sample ::
  "modbus_transport \<Rightarrow> gotime \<Rightarrow> gotime \<Rightarrow> modbus_client \<Rightarrow> read_request \<Rightarrow> modbus_error + modbus_sample" where
  "read_modbus_sample tr started now c r =
     bindE (client_read tr c r) (\<lambda>raw.
     bindE (format_modbus_data r raw) (\<lambda>data.
       Inr \<lparr>smp_observed_at = now, smp_quality = ''good'', smp_raw = raw, smp_error = [],
         ms_latency = time_sub now started, ms_data = Some data\<rparr>))"

section \<open>Configurations\<close>

text \<open>\<open>None\<close> is JSON the strict decoder refuses; the canonical JSON is the struct it encodes.\<close>

record modbus_device_input =
  md_unit_id :: "byte option"
  md_timeout_ms :: "int option"

record modbus_device_config =
  mdc_unit_id :: byte
  mdc_timeout_ms :: "int option"

record modbus_datasource_input =
  ms_function_code :: "function_code option"
  ms_start_address :: "16 word option"
  ms_quantity :: "16 word option"
  ms_poll_interval_ms :: "int option"

record modbus_datasource_config =
  msc_function_code :: function_code
  msc_start_address :: "16 word"
  msc_quantity :: "16 word"
  msc_poll_interval_ms :: int

definition normalize_device_config :: "modbus_device_input option \<Rightarrow> modbus_error + modbus_device_config" where
  "normalize_device_config raw =
     (case raw of
        None \<Rightarrow> Inl ErrInvalidDeviceConfig
      | Some input \<Rightarrow>
          (case md_unit_id input of
             None \<Rightarrow> Inl ErrInvalidDeviceConfig
           | Some unit_id \<Rightarrow>
               (case md_timeout_ms input of
                  None \<Rightarrow> Inr \<lparr>mdc_unit_id = unit_id, mdc_timeout_ms = None\<rparr>
                | Some ms \<Rightarrow>
                    if ms < 100 \<or> ms > 60000 then Inl ErrInvalidDeviceConfig
                    else Inr \<lparr>mdc_unit_id = unit_id, mdc_timeout_ms = Some ms\<rparr>)))"

definition normalize_datasource_config ::
  "string \<Rightarrow> modbus_datasource_input option \<Rightarrow> modbus_error + modbus_datasource_config" where
  "normalize_datasource_config kind raw =
     (if kind \<noteq> ''modbus_read'' then Inl ErrInvalidDatasourceConfig
      else case raw of
        None \<Rightarrow> Inl ErrInvalidDatasourceConfig
      | Some input \<Rightarrow>
          (case (ms_function_code input, ms_start_address input, ms_quantity input) of
             (Some code, Some address, Some quantity) \<Rightarrow>
               let config = \<lparr>msc_function_code = code, msc_start_address = address, msc_quantity = quantity,
                     msc_poll_interval_ms = value_or_default (ms_poll_interval_ms input) 60000\<rparr>
               in (case validate_read_request \<lparr>rr_unit_id = 0, rr_function_code = code, rr_address = address,
                         rr_quantity = quantity\<rparr> of
                  Inl e \<Rightarrow> Inl ErrInvalidDatasourceConfig
                | Inr u \<Rightarrow>
                    if msc_poll_interval_ms config < 100 \<or> msc_poll_interval_ms config > 86400000
                    then Inl ErrInvalidDatasourceConfig else Inr config)
           | _ \<Rightarrow> Inl ErrInvalidDatasourceConfig))"

definition validate_modbus_gateway_config :: "modbus_config \<Rightarrow> modbus_error + unit" where
  "validate_modbus_gateway_config c =
     (if mo_host c = [] then Inl ErrInvalidGatewayConfig
      else if mo_port c < 1 \<or> mo_port c > 65535 then Inl ErrInvalidGatewayConfig
      else if mo_timeout c < 100 \<or> mo_timeout c > 60000 then Inl ErrInvalidGatewayConfig
      else if mo_retry_count c < 0 \<or> mo_retry_count c > 10 then Inl ErrInvalidGatewayConfig
      else if mo_retry_delay c < 0 then Inl ErrInvalidGatewayConfig
      else if mo_reconnect_interval c < 0 then Inl ErrInvalidGatewayConfig
      else Inr ())"

definition normalize_gateway_config :: "modbus_config_input option \<Rightarrow> modbus_error + modbus_config" where
  "normalize_gateway_config raw =
     (case raw of
        None \<Rightarrow> Inl ErrInvalidGatewayConfig
      | Some input \<Rightarrow>
          let config = \<lparr>mo_host = trim_space (mi_host input), mo_port = value_or_default (mi_port input) 502,
                mo_timeout = value_or_default (mi_timeout input) 5000,
                mo_retry_count = value_or_default (mi_retry_count input) 3,
                mo_retry_delay = value_or_default (mi_retry_delay input) 1000,
                mo_keep_alive = value_or_default (mi_keep_alive input) True,
                mo_reconnect_interval = value_or_default (mi_reconnect_interval input) 30\<rparr>
          in bindE (validate_modbus_gateway_config config) (\<lambda>u. Inr config))"

definition new_client :: "modbus_config option \<Rightarrow> modbus_error + modbus_client" where
  "new_client raw =
     (case raw of
        None \<Rightarrow> Inl ErrInvalidGatewayConfig
      | Some config \<Rightarrow> bindE (validate_modbus_gateway_config config) (\<lambda>u. new_modbus_tcp_client config))"

text \<open>The JSON that the stored configuration was encoded to, read back as an input.\<close>

definition gateway_input_of :: "modbus_config \<Rightarrow> modbus_config_input" where
  "gateway_input_of c = \<lparr>mi_host = mo_host c, mi_port = Some (mo_port c), mi_timeout = Some (mo_timeout c),
     mi_retry_count = Some (mo_retry_count c), mi_retry_delay = Some (mo_retry_delay c),
     mi_keep_alive = Some (mo_keep_alive c), mi_reconnect_interval = Some (mo_reconnect_interval c)\<rparr>"

definition prepare_datasource_read ::
  "modbus_config \<Rightarrow> modbus_device_config \<Rightarrow> modbus_datasource_config \<Rightarrow> modbus_error + modbus_client \<times> read_request" where
  "prepare_datasource_read gateway device datasource =
     (let gateway = (case mdc_timeout_ms device of None \<Rightarrow> gateway | Some ms \<Rightarrow> gateway\<lparr>mo_timeout := ms\<rparr>)
      in bindE (new_modbus_tcp_client gateway) (\<lambda>client.
           Inr (client, \<lparr>rr_unit_id = mdc_unit_id device, rr_function_code = msc_function_code datasource,
              rr_address = msc_start_address datasource, rr_quantity = msc_quantity datasource\<rparr>)))"

text \<open>The probe of \<open>PrepareConnectionTest\<close>; the client is always a Modbus client here.\<close>

definition connection_probe ::
  "modbus_transport \<Rightarrow> byte option \<Rightarrow> bool \<Rightarrow> modbus_client \<Rightarrow> modbus_error + unit" where
  "connection_probe tr unit_id cancelled c =
     (if cancelled then Inl (TransportError TransportCancelled)
      else case unit_id of
        None \<Rightarrow> Inr ()
      | Some i \<Rightarrow> bindE (client_read tr c \<lparr>rr_unit_id = i, rr_function_code = function_read_holding_registers,
            rr_address = 0, rr_quantity = 1\<rparr>) (\<lambda>raw. Inr ()))"

section \<open>Failed requests\<close>

record request_error =
  rq_cause :: modbus_error
  rq_message :: string
  rq_failure :: string
  rq_exception :: "(byte \<times> string) option"
  rq_request :: read_request

definition hex2 :: "byte \<Rightarrow> string" where
  "hex2 w = map (\<lambda>k. hex_digit (unat (drop_bit k w AND 15))) [4, 0]"

definition pad2 :: "string \<Rightarrow> string" where
  "pad2 s = (if length s < 2 then CHR ''0'' # s else s)"

definition modbus_exception_description :: "byte \<Rightarrow> read_request \<Rightarrow> string \<times> string \<times> string" where
  "modbus_exception_description code r =
     (let last_address = ucast (rr_address r) + ucast (rr_quantity r) - 1 :: 32 word
      in if code = 1 then (''ILLEGAL_FUNCTION'', ''Illegal Function'',
             ''The server does not allow function code FC'' @ pad2 (itoa (uint (rr_function_code r))) @ '' for this request.'')
         else if code = 2 then (''ILLEGAL_DATA_ADDRESS'', ''Illegal Data Address'',
             ''The requested address range '' @ itoa (uint (rr_address r)) @ ''-'' @ itoa (uint last_address) @
             '' is not available on the server.'')
         else if code = 3 then (''ILLEGAL_DATA_VALUE'', ''Illegal Data Value'', ''The server rejected a value or length in the request.'')
         else if code = 4 then (''SERVER_DEVICE_FAILURE'', ''Server Device Failure'', ''The server encountered an unrecoverable error while processing the request.'')
         else if code = 5 then (''ACKNOWLEDGE'', ''Acknowledge'', ''The server accepted the request and is still processing it.'')
         else if code = 6 then (''SERVER_DEVICE_BUSY'', ''Server Device Busy'', ''The server is busy processing another long-running command; retry later.'')
         else if code = 8 then (''MEMORY_PARITY_ERROR'', ''Memory Parity Error'', ''The server detected a memory consistency error while processing the request.'')
         else if code = 10 then (''GATEWAY_PATH_UNAVAILABLE'', ''Gateway Path Unavailable'', ''The gateway could not allocate a path to the target device.'')
         else if code = 11 then (''GATEWAY_TARGET_DEVICE_FAILED_TO_RESPOND'', ''Gateway Target Device Failed to Respond'', ''The gateway did not receive a response from the target device.'')
         else (''UNKNOWN_EXCEPTION'', ''Unknown Exception'', ''The server returned an unrecognized Modbus exception code.''))"

definition new_modbus_exception_error :: "modbus_error \<Rightarrow> read_request \<Rightarrow> byte \<Rightarrow> request_error" where
  "new_modbus_exception_error cause r code =
     (case modbus_exception_description code r of (name, title, explanation) \<Rightarrow>
       \<lparr>rq_cause = cause,
        rq_message = ''Modbus exception 0x'' @ hex2 code @ '': '' @ title @ ''. '' @ explanation,
        rq_failure = ''exception'', rq_exception = Some (code, name), rq_request = r\<rparr>)"

definition classify_request_error :: "modbus_error \<Rightarrow> read_request \<Rightarrow> request_error" where
  "classify_request_error err r =
     (case err of
        TransportError (ModbusException code) \<Rightarrow> new_modbus_exception_error err r code
      | TransportError TransportTimeout \<Rightarrow>
          \<lparr>rq_cause = err,
           rq_message = ''Modbus request timed out. Check server availability and the configured request timeout.'',
           rq_failure = ''timeout'', rq_exception = None, rq_request = r\<rparr>
      | _ \<Rightarrow>
          \<lparr>rq_cause = err,
           rq_message = ''Modbus request failed. Check the server connection, Unit ID, function code, address, and quantity.'',
           rq_failure = ''request_failed'', rq_exception = None, rq_request = r\<rparr>)"

definition is_modbus_exception :: "modbus_error \<Rightarrow> bool" where
  "is_modbus_exception err = (case err of TransportError (ModbusException code) \<Rightarrow> True | _ \<Rightarrow> False)"

section \<open>Previews and monitoring\<close>

text \<open>
  One read of the monitor: what the transport answers to the dial, the request and a close, and
  the clock. The result is the sample handed to \<open>emit\<close>, none when the context was cancelled.
\<close>

record modbus_round =
  mr_dial :: "transport_error option"
  mr_transport :: modbus_transport
  mr_closing :: "transport_error option"
  mr_started :: gotime
  mr_now :: gotime

definition bad_modbus_sample :: "gotime \<Rightarrow> string \<Rightarrow> modbus_sample" where
  "bad_modbus_sample now message = \<lparr>smp_observed_at = now, smp_quality = ''bad'', smp_raw = [], smp_error = message,
     ms_latency = 0, ms_data = None\<rparr>"

definition exclusive_read ::
  "modbus_round \<Rightarrow> read_request \<Rightarrow> modbus_client \<Rightarrow> (modbus_error + modbus_sample) \<times> modbus_client" where
  "exclusive_read rd r c =
     (case (if mc_connected c then (Inr (), c) else client_connect (mr_dial rd) c) of
        (Inl e, c) \<Rightarrow> (Inl e, c)
      | (Inr u, c) \<Rightarrow>
          (case read_modbus_sample (mr_transport rd) (mr_started rd) (mr_now rd) c r of
             Inl e \<Rightarrow> (Inl e, if is_modbus_exception e then c else snd (client_disconnect (mr_closing rd) c))
           | Inr sample \<Rightarrow> (Inr sample, c)))"

definition monitor_read :: "modbus_round \<Rightarrow> read_request \<Rightarrow> modbus_client \<Rightarrow> modbus_sample option \<times> modbus_client" where
  "monitor_read rd r c =
     (case exclusive_read rd r c of
        (Inr sample, c) \<Rightarrow> (Some sample, c)
      | (Inl e, c) \<Rightarrow>
          if e = TransportError TransportCancelled then (None, c)
          else (Some (bad_modbus_sample (mr_now rd) (rq_message (classify_request_error e r))), c))"

fun monitor_rounds :: "read_request \<Rightarrow> modbus_round list \<Rightarrow> modbus_client \<Rightarrow> modbus_sample list \<times> modbus_client" where
  "monitor_rounds r [] c = ([], c)"
| "monitor_rounds r (rd # rds) c =
     (case monitor_read rd r c of (s, c) \<Rightarrow>
       (case monitor_rounds r rds c of (ss, c) \<Rightarrow> ((case s of None \<Rightarrow> ss | Some s \<Rightarrow> s # ss), c)))"

text \<open>\<open>Monitor\<close> until its context ends; the deferred call disconnects.\<close>

definition monitor_datasource ::
  "modbus_config \<Rightarrow> modbus_device_config \<Rightarrow> modbus_datasource_config \<Rightarrow> modbus_round list \<Rightarrow> transport_error option \<Rightarrow>
     modbus_error + modbus_sample list \<times> modbus_client" where
  "monitor_datasource gateway device datasource rds closing =
     bindE (prepare_datasource_read gateway device datasource) (\<lambda>(c, r).
       case monitor_rounds r rds c of (ss, c) \<Rightarrow> Inr (ss, snd (client_disconnect closing c)))"

definition preview_datasource ::
  "modbus_config \<Rightarrow> modbus_device_config \<Rightarrow> modbus_datasource_config \<Rightarrow> modbus_round \<Rightarrow>
     (modbus_error + request_error) + modbus_sample" where
  "preview_datasource gateway device datasource rd =
     bindE (wrapE Inl (prepare_datasource_read gateway device datasource)) (\<lambda>(c, r).
       wrapE (\<lambda>e. Inr (classify_request_error e r))
         (case client_connect (mr_dial rd) c of
            (Inl e, c) \<Rightarrow> Inl e
          | (Inr u, c) \<Rightarrow> read_modbus_sample (mr_transport rd) (mr_started rd) (mr_now rd) c r))"

section \<open>What a valid request reads\<close>

lemma unat_widen: "unat (ucast (w :: 16 word) :: 32 word) = unat w"
proof -
  have "unat w < 2 ^ 16" using unsigned_less [of w] by simp
  then show ?thesis by (simp add: unsigned_ucast_eq take_bit_nat_eq_self)
qed

lemma unat_quantity: "n < unat (q :: 16 word) \<Longrightarrow> unat (of_nat n :: 16 word) = n"
proof -
  assume "n < unat q"
  also have "unat q < 2 ^ 16" using unsigned_less [of q] by simp
  finally show ?thesis by (simp add: unat_of_nat)
qed

lemma validate_read_request_ok:
  "validate_read_request r = Inr () \<longleftrightarrow>
     0 < unat (rr_quantity r) \<and>
     (rr_function_code r \<in> {function_read_coils, function_read_discrete_inputs} \<and> unat (rr_quantity r) \<le> 2000 \<or>
      rr_function_code r \<in> {function_read_holding_registers, function_read_input_registers} \<and>
        unat (rr_quantity r) \<le> 125) \<and>
     unat (rr_address r) + unat (rr_quantity r) \<le> 65536"
proof (cases "rr_quantity r = 0")
  case True
  then show ?thesis by (simp add: validate_read_request_def)
next
  case False
  then have q: "0 < unat (rr_quantity r)" by (simp add: unat_gt_0)
  let ?last = "ucast (rr_address r) + ucast (rr_quantity r) - 1 :: 32 word"
  have b: "unat (rr_address r) < 65536" "unat (rr_quantity r) < 65536"
    using unsigned_less [of "rr_address r"] unsigned_less [of "rr_quantity r"] by simp_all
  then have "unat (ucast (rr_address r) + ucast (rr_quantity r) :: 32 word) = unat (rr_address r) + unat (rr_quantity r)"
    by (simp add: unat_word_ariths unat_widen)
  then have "unat ?last = unat (rr_address r) + unat (rr_quantity r) - 1"
    using q by (subst unat_sub) (simp_all add: word_le_nat_alt)
  then have last: "?last > 65535 \<longleftrightarrow> unat (rr_address r) + unat (rr_quantity r) > 65536"
    using q by (simp add: word_less_nat_alt) linarith
  have lim: "rr_quantity r > 2000 \<longleftrightarrow> unat (rr_quantity r) > 2000" "rr_quantity r > 125 \<longleftrightarrow> unat (rr_quantity r) > 125"
    by (simp_all add: word_less_nat_alt)
  have codes: "function_read_coils \<noteq> function_read_holding_registers" "function_read_coils \<noteq> function_read_input_registers"
    "function_read_discrete_inputs \<noteq> function_read_holding_registers"
    "function_read_discrete_inputs \<noteq> function_read_input_registers"
    by (simp_all add: function_codes)
  show ?thesis
  proof (cases "rr_function_code r = function_read_coils \<or> rr_function_code r = function_read_discrete_inputs")
    case True
    then show ?thesis using False q lim(1) last codes by (auto simp: validate_read_request_def Let_def not_less)
  next
    case other: False
    show ?thesis
    proof (cases "rr_function_code r = function_read_holding_registers \<or> rr_function_code r = function_read_input_registers")
      case True
      then show ?thesis using False other q lim(2) last codes by (auto simp: validate_read_request_def Let_def not_less)
    qed (use False other in \<open>simp add: validate_read_request_def\<close>)
  qed
qed

section \<open>The tables of a device\<close>

text \<open>
  A device is two tables of 65536 bits and registers. Its response to a request packs the bits
  low bit first, and sends a register high byte first.
\<close>

definition register_bytes :: "(nat \<Rightarrow> 16 word) \<Rightarrow> nat \<Rightarrow> nat \<Rightarrow> byte list" where
  "register_bytes regs a n = concat (map (\<lambda>i. be_bytes16 (regs (a + i))) [0 ..< n])"

definition packs_bits :: "(nat \<Rightarrow> bool) \<Rightarrow> nat \<Rightarrow> nat \<Rightarrow> byte list \<Rightarrow> bool" where
  "packs_bits bits a n raw \<longleftrightarrow>
     (n + 7) div 8 \<le> length raw \<and> (\<forall>i < n. bit (raw ! (i div 8)) (i mod 8) = bits (a + i))"

lemma length_register_bytes [simp]: "length (register_bytes regs a n) = 2 * n"
  by (induction n) (simp_all add: register_bytes_def)

lemma register_bytes_Suc: "register_bytes regs a (Suc n) = register_bytes regs a n @ be_bytes16 (regs (a + n))"
  by (simp add: register_bytes_def)

lemma register_bytes_split:
  "i < n \<Longrightarrow> \<exists>post. register_bytes regs a n = register_bytes regs a i @ be_bytes16 (regs (a + i)) @ post"
proof (induction n)
  case (Suc n)
  show ?case
  proof (cases "i = n")
    case False
    with Suc obtain post where "register_bytes regs a n = register_bytes regs a i @ be_bytes16 (regs (a + i)) @ post"
      by fastforce
    then show ?thesis by (simp add: register_bytes_Suc)
  qed (simp add: register_bytes_Suc)
qed simp

lemma nth_register_bytes:
  assumes "i < n"
  shows "push_bit 8 (ucast ((register_bytes regs a n @ xs) ! (2 * i))) OR
     ucast ((register_bytes regs a n @ xs) ! (2 * i + 1)) = regs (a + i)"
proof -
  obtain post where "register_bytes regs a n = register_bytes regs a i @ be_bytes16 (regs (a + i)) @ post"
    using register_bytes_split [OF assms] by blast
  then have "(register_bytes regs a n @ xs) ! (2 * i) = be_bytes16 (regs (a + i)) ! 0"
    "(register_bytes regs a n @ xs) ! (2 * i + 1) = be_bytes16 (regs (a + i)) ! 1"
    by (simp_all add: nth_append be_bytes16_def)
  then show ?thesis
    using be_uint16_bytes [of "regs (a + i)"] by (simp add: be_uint16_def or.commute)
qed

lemma item_address_nat:
  assumes "i < unat (rr_quantity r)"
  shows "item_address r (of_nat i) = of_nat (unat (rr_address r) + i)"
proof (rule word_unat_eq_iff [THEN iffD2])
  have i: "unat (of_nat i :: 16 word) = i" by (rule unat_quantity [OF assms])
  have "unat (rr_address r) < 65536" "unat (rr_quantity r) < 65536"
    using unsigned_less [of "rr_address r"] unsigned_less [of "rr_quantity r"] by simp_all
  moreover from this assms have "i < 65536" by linarith
  ultimately show "unat (item_address r (of_nat i)) = unat (of_nat (unat (rr_address r) + i) :: 32 word)"
    by (simp add: item_address_def unat_word_ariths unat_widen i unat_of_nat)
qed

lemma format_registers:
  assumes "n \<le> unat (rr_quantity r)" and "unat (rr_quantity r) \<le> m"
  shows "foldE (register_item r (register_bytes regs (unat (rr_address r)) m @ xs)) (map of_nat [0 ..< n]) [] =
     Inr (map (\<lambda>i. (of_nat (unat (rr_address r) + i), regs (unat (rr_address r) + i), hex4 (regs (unat (rr_address r) + i)))) [0 ..< n])"
  using assms(1)
proof (induction n)
  case (Suc n)
  then have n: "n < unat (rr_quantity r)" and "n < m" using assms(2) by simp_all
  then show ?case
    using Suc.IH nth_register_bytes [OF \<open>n < m\<close>, of regs "unat (rr_address r)" xs]
    by (simp add: foldE_append register_item_def Let_def unat_quantity [OF n] item_address_nat [OF n] mult.commute)
qed simp

lemma and_one_shift: "(x AND push_bit k 1 \<noteq> 0) = bit (x :: byte) k" if "k < 8"
  using that by (simp add: bit_iff_and_push_bit_not_eq_0)

lemma format_bits:
  assumes "i < unat (rr_quantity r)"
  shows "bit_item r raw (of_nat i) = (of_nat (unat (rr_address r) + i), bit (raw ! (i div 8)) (i mod 8))"
proof -
  have "unat (of_nat i :: 16 word) = i" by (rule unat_quantity [OF assms])
  then have "unat ((of_nat i :: 16 word) div 8) = i div 8" "unat ((of_nat i :: 16 word) mod 8) = i mod 8"
    by (simp_all add: unat_div unat_mod)
  then show ?thesis by (simp add: bit_item_def item_address_nat [OF assms] and_one_shift del: push_bit_of_1)
qed

definition device_data :: "(nat \<Rightarrow> bool) \<Rightarrow> (nat \<Rightarrow> 16 word) \<Rightarrow> read_request \<Rightarrow> modbus_data" where
  "device_data bits regs r =
     (let a = unat (rr_address r); n = unat (rr_quantity r)
      in if rr_function_code r \<in> {function_read_coils, function_read_discrete_inputs}
         then ModbusBits (map (\<lambda>i. (of_nat (a + i), bits (a + i))) [0 ..< n])
         else ModbusRegisters (map (\<lambda>i. (of_nat (a + i), regs (a + i), hex4 (regs (a + i)))) [0 ..< n]))"

definition device_answers :: "(nat \<Rightarrow> bool) \<Rightarrow> (nat \<Rightarrow> 16 word) \<Rightarrow> read_request \<Rightarrow> byte list \<Rightarrow> bool" where
  "device_answers bits regs r raw \<longleftrightarrow>
     (let a = unat (rr_address r); n = unat (rr_quantity r)
      in if rr_function_code r \<in> {function_read_coils, function_read_discrete_inputs} then packs_bits bits a n raw
         else raw = register_bytes regs a n)"

lemma format_device_data:
  assumes "device_answers bits regs r raw"
  shows "format_modbus_data r raw = Inr (device_data bits regs r)"
proof (cases "rr_function_code r \<in> {function_read_coils, function_read_discrete_inputs}")
  case True
  then have "packs_bits bits (unat (rr_address r)) (unat (rr_quantity r)) raw"
    using assms by (simp add: device_answers_def Let_def)
  moreover from this have "map (bit_item r raw) (offsets (rr_quantity r)) =
      map (\<lambda>i. (of_nat (unat (rr_address r) + i), bits (unat (rr_address r) + i))) [0 ..< unat (rr_quantity r)]"
    by (simp add: offsets_def format_bits packs_bits_def)
  ultimately show ?thesis using True
    by (auto simp: format_modbus_data_def device_data_def packs_bits_def Let_def)
next
  case False
  then have "raw = register_bytes regs (unat (rr_address r)) (unat (rr_quantity r))"
    using assms by (simp add: device_answers_def Let_def)
  then show ?thesis
    using False format_registers [of "unat (rr_quantity r)" r "unat (rr_quantity r)" regs "[]"]
    by (auto simp: format_modbus_data_def device_data_def offsets_def Let_def)
qed

definition kind_of_code :: "function_code \<Rightarrow> packet_kind" where
  "kind_of_code code =
     (if code = function_read_coils then ReadCoilsTCP
      else if code = function_read_discrete_inputs then ReadDiscreteInputsTCP
      else if code = function_read_holding_registers then ReadHoldingRegistersTCP
      else ReadInputRegistersTCP)"

text \<open>The transport carries the request to the device and its answer back.\<close>

definition transport_serves :: "(nat \<Rightarrow> bool) \<Rightarrow> (nat \<Rightarrow> 16 word) \<Rightarrow> modbus_transport \<Rightarrow> read_request \<Rightarrow> byte list \<Rightarrow> bool" where
  "transport_serves bits regs tr r raw \<longleftrightarrow>
     (case mt_build tr (kind_of_code (rr_function_code r)) (rr_unit_id r) (rr_address r) (rr_quantity r) of
        Inl e \<Rightarrow> False
      | Inr p \<Rightarrow> mt_send tr p = Inr (ReadResponse (kind_of_code (rr_function_code r)) (Some raw))) \<and>
     device_answers bits regs r raw"

lemma client_read_served:
  assumes "validate_read_request r = Inr ()" and "mc_connected c" and "transport_serves bits regs tr r raw"
  shows "client_read tr c r = Inr raw"
proof -
  have "rr_function_code r \<in> {function_read_coils, function_read_discrete_inputs,
      function_read_holding_registers, function_read_input_registers}"
    using assms(1) unfolding validate_read_request_ok by blast
  then show ?thesis using assms
    by (auto simp: client_read_def transport_serves_def build_read_packet_def extract_read_data_def
        kind_of_code_def response_data_def function_codes split: sum.splits)
qed

lemma register_window:
  assumes "i < n"
  shows "convert_binary (register_bytes regs a n)
     \<lparr>bc_data_type = DTUInt16, bc_byte_order = BOBigEndian, bc_byte_offset = int (2 * i), bc_bit_offset = 0\<rparr> =
     Inr (VUInt16 (regs (a + i)))"
proof -
  obtain post where "register_bytes regs a n = register_bytes regs a i @ be_bytes16 (regs (a + i)) @ post"
    using register_bytes_split [OF assms] by blast
  moreover have "apply_byte_order (be_bytes16 (regs (a + i))) BOBigEndian = Inr (wire_bytes (Wire16 False (regs (a + i))))"
    by (simp add: apply_byte_order_def)
  ultimately show ?thesis
    using convert_binary_window [of "be_bytes16 (regs (a + i))" BOBigEndian "Wire16 False (regs (a + i))"
        "register_bytes regs a i" post] by simp
qed

lemma served_sample:
  assumes "validate_read_request r = Inr ()" and "mc_connected c" and "transport_serves bits regs tr r raw"
  obtains sample where "read_modbus_sample tr started now c r = Inr sample"
    "smp_quality sample = ''good''" "smp_observed_at sample = now" "smp_raw sample = raw"
    "ms_data sample = Some (device_data bits regs r)"
proof -
  have "format_modbus_data r raw = Inr (device_data bits regs r)"
    using assms(3) by (intro format_device_data) (simp add: transport_serves_def)
  then show thesis
    using that client_read_served [OF assms] by (simp add: read_modbus_sample_def)
qed

text \<open>
  C29: what a device holds is what a tag reads. For a valid request that the transport serves, the
  sample is good and its data are the addresses asked for, each with the bit or register the device
  has there; and a big-endian uint16 tag at byte offset \<open>2 i\<close> of a register response decodes to the
  \<open>i\<close>-th register, bit for bit.
\<close>

theorem device_value_reaches_tag:
  assumes "validate_read_request r = Inr ()" and "mc_connected c" and "transport_serves bits regs tr r raw"
  shows "\<exists>sample. read_modbus_sample tr started now c r = Inr sample \<and> smp_quality sample = ''good'' \<and>
    ms_data sample = Some (device_data bits regs r) \<and>
    (rr_function_code r = function_read_holding_registers \<longrightarrow>
      (\<forall>i < unat (rr_quantity r). convert_binary (smp_raw sample)
        \<lparr>bc_data_type = DTUInt16, bc_byte_order = BOBigEndian, bc_byte_offset = int (2 * i), bc_bit_offset = 0\<rparr> =
        Inr (VUInt16 (regs (unat (rr_address r) + i)))))"
proof -
  obtain sample where s: "read_modbus_sample tr started now c r = Inr sample" "smp_quality sample = ''good''"
    "smp_raw sample = raw" "ms_data sample = Some (device_data bits regs r)"
    using served_sample [OF assms] by metis
  moreover have "raw = register_bytes regs (unat (rr_address r)) (unat (rr_quantity r))"
    if "rr_function_code r = function_read_holding_registers"
    using that assms(3) by (simp add: transport_serves_def device_answers_def Let_def function_codes)
  ultimately show ?thesis using register_window by auto
qed

definition echo_transport :: modbus_transport where
  "echo_transport = \<lparr>mt_build = (\<lambda>k u a q. Inr [u]),
     mt_send = (\<lambda>p. Inr (ReadResponse ReadHoldingRegistersTCP (Some [1, 2, 0, 7])))\<rparr>"

theorem device_value_reaches_tag_witness:
  "\<exists>sample. read_modbus_sample echo_transport 5 6 \<lparr>mc_address = ''h:502'', mc_timeout = 5, mc_connected = True\<rparr>
      \<lparr>rr_unit_id = 1, rr_function_code = 3, rr_address = 10, rr_quantity = 2\<rparr> = Inr sample \<and>
     convert_binary (smp_raw sample)
      \<lparr>bc_data_type = DTUInt16, bc_byte_order = BOBigEndian, bc_byte_offset = 0, bc_bit_offset = 0\<rparr> = Inr (VUInt16 258)"
proof -
  let ?r = "\<lparr>rr_unit_id = 1, rr_function_code = 3, rr_address = 10, rr_quantity = 2\<rparr> :: read_request"
  let ?regs = "\<lambda>i. if i = 10 then 258 else 7 :: 16 word"
  have v: "validate_read_request ?r = Inr ()" by (simp add: validate_read_request_ok function_codes)
  have "register_bytes ?regs 10 2 = [1, 2, 0, 7]"
    by (simp add: register_bytes_def be_bytes16_def upt_rec)
  then have "transport_serves (\<lambda>i. False) ?regs echo_transport ?r [1, 2, 0, 7]"
    by (simp add: transport_serves_def echo_transport_def kind_of_code_def device_answers_def function_codes)
  from device_value_reaches_tag [OF v _ this, where started = 5 and now = 6 and
      c = "\<lparr>mc_address = ''h:502'', mc_timeout = 5, mc_connected = True\<rparr>"]
  obtain sample where "read_modbus_sample echo_transport 5 6 \<lparr>mc_address = ''h:502'', mc_timeout = 5, mc_connected = True\<rparr>
      ?r = Inr sample" and all: "\<forall>i < 2. convert_binary (smp_raw sample)
      \<lparr>bc_data_type = DTUInt16, bc_byte_order = BOBigEndian, bc_byte_offset = int (2 * i), bc_bit_offset = 0\<rparr> =
        Inr (VUInt16 (?regs (10 + i)))"
    by (auto simp: function_codes)
  moreover from all have "convert_binary (smp_raw sample)
      \<lparr>bc_data_type = DTUInt16, bc_byte_order = BOBigEndian, bc_byte_offset = 0, bc_bit_offset = 0\<rparr> = Inr (VUInt16 258)"
    by (auto dest: spec [of _ 0])
  ultimately show ?thesis by blast
qed

section \<open>Accepted configurations\<close>

lemma normalize_gateway_config_ok:
  assumes "normalize_gateway_config raw = Inr c"
  shows "validate_modbus_gateway_config c = Inr ()" and "trim_space (mo_host c) = mo_host c"
  using assms by (auto simp: normalize_gateway_config_def bindE_Inr_iff Let_def split: option.splits)

lemma normalize_datasource_config_ok:
  "normalize_datasource_config kind raw = Inr c \<Longrightarrow>
   validate_read_request \<lparr>rr_unit_id = u, rr_function_code = msc_function_code c, rr_address = msc_start_address c,
      rr_quantity = msc_quantity c\<rparr> = Inr () \<and> 100 \<le> msc_poll_interval_ms c"
proof -
  have unit: "validate_read_request \<lparr>rr_unit_id = u, rr_function_code = f, rr_address = a, rr_quantity = q\<rparr> =
      validate_read_request \<lparr>rr_unit_id = 0, rr_function_code = f, rr_address = a, rr_quantity = q\<rparr>" for f a q
    by (simp add: validate_read_request_def)
  show "normalize_datasource_config kind raw = Inr c \<Longrightarrow> ?thesis"
    by (auto simp: normalize_datasource_config_def unit Let_def split: option.splits if_splits sum.splits)
qed

text \<open>
  C30: configurations that the three normalizers accept can always be read with: preparing the
  read succeeds, the request passes the validation of the client, and the timeout is the one of
  the device when it has one, else the gateway's, between 100 ms and a minute. Normalizing the
  canonical gateway configuration again changes nothing, and a client can be made from it.
\<close>

theorem accepted_configs_prepare:
  assumes g: "normalize_gateway_config graw = Inr gateway" and d: "normalize_device_config draw = Inr device"
    and s: "normalize_datasource_config kind sraw = Inr datasource"
  shows "(\<exists>c r. prepare_datasource_read gateway device datasource = Inr (c, r) \<and> validate_read_request r = Inr () \<and>
      mc_timeout c = value_or_default (mdc_timeout_ms device) (mo_timeout gateway) * millisecond \<and>
      100 * millisecond \<le> mc_timeout c \<and> mc_timeout c \<le> minute \<and> \<not> mc_connected c) \<and>
    normalize_gateway_config (Some (gateway_input_of gateway)) = Inr gateway \<and>
    (\<exists>c. new_client (Some gateway) = Inr c)"
proof (intro conjI)
  note ok = normalize_gateway_config_ok [OF g]
  show "normalize_gateway_config (Some (gateway_input_of gateway)) = Inr gateway"
    using ok by (cases gateway) (simp add: normalize_gateway_config_def gateway_input_of_def Let_def)
  show "\<exists>c. new_client (Some gateway) = Inr c"
    using ok by (auto simp: new_client_def new_modbus_tcp_client_def validate_modbus_gateway_config_def Let_def
        split: if_splits)
  have t: "\<forall>ms. mdc_timeout_ms device = Some ms \<longrightarrow> 100 \<le> ms \<and> ms \<le> 60000"
    using d by (auto simp: normalize_device_config_def split: option.splits if_splits)
  show "\<exists>c r. prepare_datasource_read gateway device datasource = Inr (c, r) \<and> validate_read_request r = Inr () \<and>
      mc_timeout c = value_or_default (mdc_timeout_ms device) (mo_timeout gateway) * millisecond \<and>
      100 * millisecond \<le> mc_timeout c \<and> mc_timeout c \<le> minute \<and> \<not> mc_connected c"
    using ok t normalize_datasource_config_ok [OF s, of "mdc_unit_id device"]
    by (cases "mdc_timeout_ms device")
      (auto simp: prepare_datasource_read_def new_modbus_tcp_client_def validate_modbus_gateway_config_def
        millisecond_def minute_def Let_def split: if_splits)
qed

definition local_gateway :: modbus_config_input where
  "local_gateway = \<lparr>mi_host = ''h'', mi_port = None, mi_timeout = None, mi_retry_count = None, mi_retry_delay = None,
     mi_keep_alive = None, mi_reconnect_interval = None\<rparr>"

theorem accepted_configs_prepare_witness:
  "\<exists>gateway c r. normalize_gateway_config (Some local_gateway) = Inr gateway \<and>
     prepare_datasource_read gateway \<lparr>mdc_unit_id = 1, mdc_timeout_ms = Some 200\<rparr>
       \<lparr>msc_function_code = 3, msc_start_address = 10, msc_quantity = 2, msc_poll_interval_ms = 60000\<rparr> = Inr (c, r) \<and>
     mc_timeout c = 200 * millisecond"
proof -
  have "trim_space ''h'' = ''h''" by (rule trim_space_plain; simp add: plain_char_ascii)
  then obtain gateway where g: "normalize_gateway_config (Some local_gateway) = Inr gateway"
    by (simp add: normalize_gateway_config_def local_gateway_def validate_modbus_gateway_config_def Let_def)
  have d: "normalize_device_config (Some \<lparr>md_unit_id = Some 1, md_timeout_ms = Some 200\<rparr>) =
      Inr \<lparr>mdc_unit_id = 1, mdc_timeout_ms = Some 200\<rparr>" by (simp add: normalize_device_config_def)
  have "validate_read_request \<lparr>rr_unit_id = 0, rr_function_code = 3, rr_address = 10, rr_quantity = 2\<rparr> = Inr ()"
    by (simp add: validate_read_request_ok function_codes)
  then have s: "normalize_datasource_config ''modbus_read'' (Some \<lparr>ms_function_code = Some 3, ms_start_address = Some 10,
      ms_quantity = Some 2, ms_poll_interval_ms = None\<rparr>) =
      Inr \<lparr>msc_function_code = 3, msc_start_address = 10, msc_quantity = 2, msc_poll_interval_ms = 60000\<rparr>"
    by (simp add: normalize_datasource_config_def)
  from accepted_configs_prepare [OF g d s] g show ?thesis by auto
qed

section \<open>The monitor\<close>

lemma exclusive_read_connection:
  assumes "exclusive_read rd r c = (res, c')"
  shows "mc_connected c' \<longleftrightarrow> (mc_connected c \<or> mr_dial rd = None) \<and>
    (\<forall>e. res = Inl e \<longrightarrow> is_modbus_exception e)"
proof (cases "mc_connected c \<or> mr_dial rd = None")
  case True
  then obtain c1 where c1: "(if mc_connected c then (Inr (), c) else client_connect (mr_dial rd) c) = (Inr (), c1)"
    "mc_connected c1"
    by (cases "mc_connected c") (auto simp: client_connect_def)
  show ?thesis
  proof (cases "read_modbus_sample (mr_transport rd) (mr_started rd) (mr_now rd) c1 r")
    case (Inl e)
    then show ?thesis using assms True c1
      by (auto simp: exclusive_read_def client_disconnect_def split: if_splits)
  qed (use assms True c1 in \<open>auto simp: exclusive_read_def\<close>)
qed (use assms in \<open>auto simp: exclusive_read_def client_connect_def split: option.splits\<close>)

lemma monitor_read_emits: "fst (monitor_read rd r c) = None \<longleftrightarrow>
    fst (exclusive_read rd r c) = Inl (TransportError TransportCancelled)"
  by (cases "exclusive_read rd r c") (auto simp: monitor_read_def split: sum.splits)

end
