(* ===== verification/Job_Supervisor.thy ===== *)
theory Job_Supervisor
  imports Edge_Interfaces
begin

text \<open>
  What the runtime of the data loggers (\<open>internal/datalogger/runtime.go\<close>) and the manager of the
  plugins (\<open>internal/plugin/manager.go\<close>) share: a map from identifiers to jobs, each a goroutine with
  its own context, and a reconciliation that cancels the jobs whose definition is gone or has another
  fingerprint, waits for them and starts the missing ones. Every job ever started keeps its place in a
  table; the maps of the code are lists of entries with distinct keys.
\<close>

record 'd job =
  jb_key :: uuid
  jb_def :: 'd
  jb_cancelled :: bool
  jb_done :: bool

record 'd supervisor =
  sv_started :: bool
  sv_stopped :: bool
  sv_jobs :: "(uuid \<times> nat) list"
  sv_table :: "'d job list"

definition job_live :: "('d, 'm) supervisor_scheme \<Rightarrow> nat \<Rightarrow> bool" where
  "job_live s j \<longleftrightarrow> j < length (sv_table s) \<and> \<not> jb_done (sv_table s ! j)"

definition jobs_done :: "('d, 'm) supervisor_scheme \<Rightarrow> nat list \<Rightarrow> bool" where
  "jobs_done s js \<longleftrightarrow> list_all (\<lambda>j. \<not> job_live s j) js"

text \<open>The desired definitions: a map built from the listing, so a later entry replaces an earlier one.\<close>

definition put_desired :: "uuid \<Rightarrow> 'd \<Rightarrow> (uuid \<times> 'd) list \<Rightarrow> (uuid \<times> 'd) list" where
  "put_desired k d m = filter (\<lambda>e. fst e \<noteq> k) m @ [(k, d)]"

definition desired_map :: "('d \<Rightarrow> uuid) \<Rightarrow> ('d \<Rightarrow> bool) \<Rightarrow> 'd list \<Rightarrow> (uuid \<times> 'd) list" where
  "desired_map key enabled ds =
     foldl (\<lambda>m d. if key d = uuid_nil \<or> \<not> enabled d then m else put_desired (key d) d m) [] ds"

definition job_kept :: "('d \<Rightarrow> 'f) \<Rightarrow> (uuid \<times> 'd) list \<Rightarrow> ('d, 'm) supervisor_scheme \<Rightarrow> uuid \<times> nat \<Rightarrow> bool" where
  "job_kept fp desired s e =
     (case map_of desired (fst e) of None \<Rightarrow> False | Some d \<Rightarrow> fp (jb_def (sv_table s ! snd e)) = fp d)"

definition stale_jobs :: "('d \<Rightarrow> 'f) \<Rightarrow> (uuid \<times> 'd) list \<Rightarrow> ('d, 'm) supervisor_scheme \<Rightarrow> (uuid \<times> nat) list" where
  "stale_jobs fp desired s = filter (\<lambda>e. \<not> job_kept fp desired s e) (sv_jobs s)"

definition missing_jobs :: "('d \<Rightarrow> 'f) \<Rightarrow> (uuid \<times> 'd) list \<Rightarrow> ('d, 'm) supervisor_scheme \<Rightarrow> (uuid \<times> 'd) list" where
  "missing_jobs fp desired s = filter (\<lambda>e. fst e \<notin> fst ` set (filter (job_kept fp desired s) (sv_jobs s))) desired"

definition cancel_jobs :: "nat list \<Rightarrow> ('d, 'm) supervisor_scheme \<Rightarrow> ('d, 'm) supervisor_scheme" where
  "cancel_jobs js s = s\<lparr>sv_table := map (\<lambda>i. if i \<in> set js then (sv_table s ! i)\<lparr>jb_cancelled := True\<rparr> else sv_table s ! i)
     [0..<length (sv_table s)]\<rparr>"

definition drop_jobs :: "(uuid \<times> nat \<Rightarrow> bool) \<Rightarrow> ('d, 'm) supervisor_scheme \<Rightarrow> ('d, 'm) supervisor_scheme" where
  "drop_jobs keep s =
     cancel_jobs (map snd (filter (\<lambda>e. \<not> keep e) (sv_jobs s))) (s\<lparr>sv_jobs := filter keep (sv_jobs s)\<rparr>)"

definition drop_stale :: "('d \<Rightarrow> 'f) \<Rightarrow> (uuid \<times> 'd) list \<Rightarrow> ('d, 'm) supervisor_scheme \<Rightarrow> ('d, 'm) supervisor_scheme" where
  "drop_stale fp desired s = drop_jobs (job_kept fp desired s) s"

definition new_job :: "uuid \<times> 'd \<Rightarrow> 'd job" where
  "new_job e = \<lparr>jb_key = fst e, jb_def = snd e, jb_cancelled = False, jb_done = False\<rparr>"

definition start_job :: "uuid \<times> 'd \<Rightarrow> ('d, 'm) supervisor_scheme \<Rightarrow> ('d, 'm) supervisor_scheme" where
  "start_job e s = s\<lparr>sv_jobs := (fst e, length (sv_table s)) # filter (\<lambda>x. fst x \<noteq> fst e) (sv_jobs s),
     sv_table := sv_table s @ [new_job e]\<rparr>"

definition start_jobs :: "(uuid \<times> 'd) list \<Rightarrow> ('d, 'm) supervisor_scheme \<Rightarrow> ('d, 'm) supervisor_scheme" where
  "start_jobs es s = fold start_job es s"

text \<open>The goroutine of a job returns.\<close>

definition exit_job :: "nat \<Rightarrow> ('d, 'm) supervisor_scheme \<Rightarrow> ('d, 'm) supervisor_scheme" where
  "exit_job j s = s\<lparr>sv_table := (sv_table s)[j := (sv_table s ! j)\<lparr>jb_done := True\<rparr>]\<rparr>"

section \<open>Desired definitions\<close>

lemma put_desired_keys: "distinct (map fst m) \<Longrightarrow> distinct (map fst (put_desired k d m))"
  by (auto simp: put_desired_def distinct_map_filter)

lemma desired_map_distinct: "distinct (map fst (desired_map key enabled ds))"
proof -
  have "distinct (map fst m) \<Longrightarrow> distinct (map fst (foldl (\<lambda>m d. if key d = uuid_nil \<or> \<not> enabled d then m
      else put_desired (key d) d m) m ds))" for m
    by (induction ds arbitrary: m) (auto simp: put_desired_keys)
  then show ?thesis by (simp add: desired_map_def)
qed

lemma desired_map_entries:
  "e \<in> set (desired_map key enabled ds) \<Longrightarrow> snd e \<in> set ds \<and> key (snd e) = fst e \<and> enabled (snd e) \<and> fst e \<noteq> uuid_nil"
proof -
  have "e \<in> set (foldl (\<lambda>m d. if key d = uuid_nil \<or> \<not> enabled d then m else put_desired (key d) d m) m ds) \<Longrightarrow>
      e \<in> set m \<or> snd e \<in> set ds \<and> key (snd e) = fst e \<and> enabled (snd e) \<and> fst e \<noteq> uuid_nil" for m
  proof (induction ds arbitrary: m)
    case (Cons d ds)
    define m' where "m' = (if key d = uuid_nil \<or> \<not> enabled d then m else put_desired (key d) d m)"
    have "e \<in> set m' \<or> snd e \<in> set ds \<and> key (snd e) = fst e \<and> enabled (snd e) \<and> fst e \<noteq> uuid_nil"
      using Cons.IH [of m'] Cons.prems unfolding m'_def by simp
    moreover have "e \<in> set m' \<Longrightarrow> e \<in> set m \<or> e = (key d, d) \<and> enabled d \<and> key d \<noteq> uuid_nil"
      by (simp add: m'_def put_desired_def split: if_splits) blast
    ultimately show ?case by (elim disjE) auto
  qed simp
  from this [of "[]"] show "e \<in> set (desired_map key enabled ds) \<Longrightarrow> ?thesis" by (simp add: desired_map_def)
qed

lemma desired_map_unique_keys:
  assumes "distinct (map key ds)"
  shows "desired_map key enabled ds = map (\<lambda>d. (key d, d)) (filter (\<lambda>d. key d \<noteq> uuid_nil \<and> enabled d) ds)"
proof -
  have "distinct (map fst m @ map key ds) \<Longrightarrow>
      foldl (\<lambda>m d. if key d = uuid_nil \<or> \<not> enabled d then m else put_desired (key d) d m) m ds =
      m @ map (\<lambda>d. (key d, d)) (filter (\<lambda>d. key d \<noteq> uuid_nil \<and> enabled d) ds)" for m
  proof (induction ds arbitrary: m)
    case (Cons d ds)
    have "filter (\<lambda>e. fst e \<noteq> key d) m = m" using Cons.prems by (force simp: filter_id_conv)
    then show ?case using Cons.IH [of m] Cons.IH [of "m @ [(key d, d)]"] Cons.prems
      by (auto simp: put_desired_def)
  qed simp
  from this [of "[]"] assms show ?thesis by (simp add: desired_map_def)
qed

section \<open>The invariant\<close>

text \<open>
  The jobs of the map and the table agree, and a live job is in the map or among the \<open>waiting\<close> ones a
  reconciliation has dropped and waits for; then it is cancelled, and its key is not in the map.
\<close>

definition jobs_ok :: "nat set \<Rightarrow> ('d, 'm) supervisor_scheme \<Rightarrow> bool" where
  "jobs_ok waiting s \<longleftrightarrow>
     distinct (map fst (sv_jobs s)) \<and>
     (\<forall>(k, j) \<in> set (sv_jobs s). j < length (sv_table s) \<and> jb_key (sv_table s ! j) = k) \<and>
     (\<forall>j. job_live s j \<longrightarrow> (jb_key (sv_table s ! j), j) \<in> set (sv_jobs s) \<or>
        j \<in> waiting \<and> jb_cancelled (sv_table s ! j) \<and> jb_key (sv_table s ! j) \<notin> fst ` set (sv_jobs s) \<and>
        (\<forall>i. job_live s i \<longrightarrow> jb_key (sv_table s ! i) = jb_key (sv_table s ! j) \<longrightarrow> i = j))"

lemma jobs_ok_one_live:
  assumes ok: "jobs_ok waiting s" and live: "job_live s i" "job_live s j"
    and key: "jb_key (sv_table s ! i) = jb_key (sv_table s ! j)"
  shows "i = j"
proof -
  let ?in = "\<lambda>j. (jb_key (sv_table s ! j), j) \<in> set (sv_jobs s)"
  have d: "distinct (map fst (sv_jobs s))" using ok by (simp add: jobs_ok_def)
  have only: "\<forall>i'. job_live s i' \<longrightarrow> jb_key (sv_table s ! i') = jb_key (sv_table s ! j') \<longrightarrow> i' = j'"
    if "job_live s j'" "\<not> ?in j'" for j'
    using ok that unfolding jobs_ok_def by blast
  show ?thesis
  proof (cases "?in i \<and> ?in j")
    case True
    then show ?thesis using d key eq_key_imp_eq_value [of "sv_jobs s" "jb_key (sv_table s ! i)" i j] by simp
  next
    case False
    then show ?thesis using only [of i] only [of j] live key by auto
  qed
qed

lemma cancel_jobs_simps [simp]:
  "sv_jobs (cancel_jobs js s) = sv_jobs s" "length (sv_table (cancel_jobs js s)) = length (sv_table s)"
  "sv_started (cancel_jobs js s) = sv_started s" "sv_stopped (cancel_jobs js s) = sv_stopped s"
  by (simp_all add: cancel_jobs_def)

lemma cancel_jobs_nth:
  "i < length (sv_table s) \<Longrightarrow> sv_table (cancel_jobs js s) ! i =
     (if i \<in> set js then (sv_table s ! i)\<lparr>jb_cancelled := True\<rparr> else sv_table s ! i)"
  by (simp add: cancel_jobs_def)

lemma cancel_jobs_same [simp]:
  "i < length (sv_table s) \<Longrightarrow> jb_key (sv_table (cancel_jobs js s) ! i) = jb_key (sv_table s ! i)"
  "i < length (sv_table s) \<Longrightarrow> jb_def (sv_table (cancel_jobs js s) ! i) = jb_def (sv_table s ! i)"
  "i < length (sv_table s) \<Longrightarrow> jb_done (sv_table (cancel_jobs js s) ! i) = jb_done (sv_table s ! i)"
  by (simp_all add: cancel_jobs_nth)

lemma job_live_cancel [simp]: "job_live (cancel_jobs js s) = job_live s"
  by (auto simp: job_live_def fun_eq_iff)

lemma live_index: "job_live s j \<Longrightarrow> j < length (sv_table s)"
  by (simp add: job_live_def)

lemma jobs_okI:
  assumes "distinct (map fst (sv_jobs s))"
    and "\<And>k j. (k, j) \<in> set (sv_jobs s) \<Longrightarrow> j < length (sv_table s) \<and> jb_key (sv_table s ! j) = k"
    and "\<And>j. job_live s j \<Longrightarrow> (jb_key (sv_table s ! j), j) \<in> set (sv_jobs s) \<or>
        j \<in> w \<and> jb_cancelled (sv_table s ! j) \<and> jb_key (sv_table s ! j) \<notin> fst ` set (sv_jobs s) \<and>
        (\<forall>i. job_live s i \<longrightarrow> jb_key (sv_table s ! i) = jb_key (sv_table s ! j) \<longrightarrow> i = j)"
  shows "jobs_ok w s"
  unfolding jobs_ok_def using assms by blast

lemma jobs_okD:
  assumes "jobs_ok w s"
  shows "distinct (map fst (sv_jobs s))"
    and "(k, j) \<in> set (sv_jobs s) \<Longrightarrow> j < length (sv_table s) \<and> jb_key (sv_table s ! j) = k"
    and "job_live s j \<Longrightarrow> (jb_key (sv_table s ! j), j) \<in> set (sv_jobs s) \<or>
        j \<in> w \<and> jb_cancelled (sv_table s ! j) \<and> jb_key (sv_table s ! j) \<notin> fst ` set (sv_jobs s)"
  using assms unfolding jobs_ok_def by blast+

lemma cancel_jobs_ok:
  assumes ok: "jobs_ok w s"
  shows "jobs_ok w (cancel_jobs js s)"
proof (rule jobs_okI)
  fix j assume live: "job_live (cancel_jobs js s) j"
  then have j: "job_live s j" "j < length (sv_table s)" by (simp_all add: job_live_def)
  show "(jb_key (sv_table (cancel_jobs js s) ! j), j) \<in> set (sv_jobs (cancel_jobs js s)) \<or>
        j \<in> w \<and> jb_cancelled (sv_table (cancel_jobs js s) ! j) \<and>
        jb_key (sv_table (cancel_jobs js s) ! j) \<notin> fst ` set (sv_jobs (cancel_jobs js s)) \<and>
        (\<forall>i. job_live (cancel_jobs js s) i \<longrightarrow>
           jb_key (sv_table (cancel_jobs js s) ! i) = jb_key (sv_table (cancel_jobs js s) ! j) \<longrightarrow> i = j)"
    using jobs_okD(3) [OF ok j(1)] jobs_ok_one_live [OF ok _ j(1)] j(2)
    by (auto simp: cancel_jobs_nth live_index)
qed (use jobs_okD(1,2) [OF ok] in auto)

text \<open>Dropping jobs: they are the ones to wait for.\<close>

lemma drop_jobs_simps [simp]:
  "sv_jobs (drop_jobs keep s) = filter keep (sv_jobs s)"
  "length (sv_table (drop_jobs keep s)) = length (sv_table s)"
  "sv_started (drop_jobs keep s) = sv_started s" "sv_stopped (drop_jobs keep s) = sv_stopped s"
  "i < length (sv_table s) \<Longrightarrow> jb_key (sv_table (drop_jobs keep s) ! i) = jb_key (sv_table s ! i)"
  "i < length (sv_table s) \<Longrightarrow> jb_def (sv_table (drop_jobs keep s) ! i) = jb_def (sv_table s ! i)"
  "job_live (drop_jobs keep s) = job_live s"
  by (auto simp: drop_jobs_def job_live_def)

lemma drop_jobs_cancelled:
  "i < length (sv_table s) \<Longrightarrow> jb_cancelled (sv_table (drop_jobs keep s) ! i) \<longleftrightarrow>
     jb_cancelled (sv_table s ! i) \<or> (\<exists>k. (k, i) \<in> set (sv_jobs s) \<and> \<not> keep (k, i))"
  by (force simp: drop_jobs_def cancel_jobs_nth)

lemma drop_jobs_ok:
  assumes ok: "jobs_ok {} s"
  shows "jobs_ok (snd ` set (filter (\<lambda>e. \<not> keep e) (sv_jobs s))) (drop_jobs keep s)"
proof (rule jobs_okI)
  let ?s = "drop_jobs keep s"
  show "distinct (map fst (sv_jobs ?s))" using jobs_okD(1) [OF ok] by (simp add: distinct_map_filter)
  show "(k, j) \<in> set (sv_jobs ?s) \<Longrightarrow> j < length (sv_table ?s) \<and> jb_key (sv_table ?s ! j) = k" for k j
    using jobs_okD(2) [OF ok, of k j] by auto
  fix j assume "job_live ?s j"
  then have j: "job_live s j" "j < length (sv_table s)" by (simp_all add: live_index)
  let ?k = "jb_key (sv_table s ! j)"
  have inmap: "(?k, j) \<in> set (sv_jobs s)" using jobs_okD(3) [OF ok j(1)] by simp
  show "(jb_key (sv_table ?s ! j), j) \<in> set (sv_jobs ?s) \<or>
        j \<in> snd ` set (filter (\<lambda>e. \<not> keep e) (sv_jobs s)) \<and> jb_cancelled (sv_table ?s ! j) \<and>
        jb_key (sv_table ?s ! j) \<notin> fst ` set (sv_jobs ?s) \<and>
        (\<forall>i. job_live ?s i \<longrightarrow> jb_key (sv_table ?s ! i) = jb_key (sv_table ?s ! j) \<longrightarrow> i = j)"
  proof (cases "keep (?k, j)")
    case True
    then show ?thesis using inmap j by simp
  next
    case False
    then have "(?k, j) \<in> set (filter (\<lambda>e. \<not> keep e) (sv_jobs s))" using inmap by simp
    moreover have "jb_cancelled (sv_table ?s ! j)" using drop_jobs_cancelled [OF j(2)] inmap False by blast
    moreover have "?k \<notin> fst ` set (sv_jobs ?s)"
    proof
      assume "?k \<in> fst ` set (sv_jobs ?s)"
      then obtain i where "(?k, i) \<in> set (sv_jobs s)" "keep (?k, i)" by auto
      with inmap False show False using jobs_okD(1) [OF ok] by (metis eq_key_imp_eq_value)
    qed
    moreover have "\<forall>i. job_live s i \<longrightarrow> jb_key (sv_table s ! i) = ?k \<longrightarrow> i = j"
      using jobs_ok_one_live [OF ok _ j(1)] by blast
    ultimately show ?thesis using j by (auto simp: live_index intro: rev_image_eqI)
  qed
qed

lemma drop_stale_ok:
  "jobs_ok {} s \<Longrightarrow> jobs_ok (snd ` set (stale_jobs fp desired s)) (drop_stale fp desired s)"
  using drop_jobs_ok [of s "job_kept fp desired s"] by (simp add: drop_stale_def stale_jobs_def)

lemma exit_job_simps [simp]:
  "sv_jobs (exit_job j s) = sv_jobs s" "length (sv_table (exit_job j s)) = length (sv_table s)"
  "sv_started (exit_job j s) = sv_started s" "sv_stopped (exit_job j s) = sv_stopped s"
  "i < length (sv_table s) \<Longrightarrow> jb_key (sv_table (exit_job j s) ! i) = jb_key (sv_table s ! i)"
  "i < length (sv_table s) \<Longrightarrow> jb_def (sv_table (exit_job j s) ! i) = jb_def (sv_table s ! i)"
  "i < length (sv_table s) \<Longrightarrow> jb_cancelled (sv_table (exit_job j s) ! i) = jb_cancelled (sv_table s ! i)"
  by (cases "i = j"; auto simp: exit_job_def nth_list_update)+

lemma job_live_exit: "job_live (exit_job j s) i \<longleftrightarrow> job_live s i \<and> i \<noteq> j"
  by (cases "i = j") (auto simp: job_live_def exit_job_def nth_list_update)

lemma exit_job_ok: "jobs_ok w s \<Longrightarrow> jobs_ok w (exit_job j s)"
proof (rule jobs_okI)
  assume ok: "jobs_ok w s"
  show "distinct (map fst (sv_jobs (exit_job j s)))" using jobs_okD(1) [OF ok] by simp
  show "(k, i) \<in> set (sv_jobs (exit_job j s)) \<Longrightarrow>
      i < length (sv_table (exit_job j s)) \<and> jb_key (sv_table (exit_job j s) ! i) = k" for k i
    using jobs_okD(2) [OF ok, of k i] by simp
  fix i assume "job_live (exit_job j s) i"
  then have i: "job_live s i" by (simp add: job_live_exit)
  then show "(jb_key (sv_table (exit_job j s) ! i), i) \<in> set (sv_jobs (exit_job j s)) \<or>
        i \<in> w \<and> jb_cancelled (sv_table (exit_job j s) ! i) \<and>
        jb_key (sv_table (exit_job j s) ! i) \<notin> fst ` set (sv_jobs (exit_job j s)) \<and>
        (\<forall>i'. job_live (exit_job j s) i' \<longrightarrow>
          jb_key (sv_table (exit_job j s) ! i') = jb_key (sv_table (exit_job j s) ! i) \<longrightarrow> i' = i)"
    using jobs_okD(3) [OF ok i] jobs_ok_one_live [OF ok _ i] by (auto simp: job_live_exit live_index)
qed

text \<open>Once nothing dropped is live any more, new jobs are started for keys the map does not have.\<close>

lemma start_job_ok:
  assumes ok: "jobs_ok {} s" and key: "fst e \<notin> fst ` set (sv_jobs s)"
  shows "jobs_ok {} (start_job e s)"
proof (rule jobs_okI)
  let ?n = "length (sv_table s)"
  have jobs: "sv_jobs (start_job e s) = (fst e, ?n) # sv_jobs s"
    using key by (force simp: start_job_def filter_id_conv)
  have tab: "sv_table (start_job e s) =
      sv_table s @ [\<lparr>jb_key = fst e, jb_def = snd e, jb_cancelled = False, jb_done = False\<rparr>]"
    by (simp add: start_job_def new_job_def)
  show "distinct (map fst (sv_jobs (start_job e s)))" using jobs_okD(1) [OF ok] key by (simp add: jobs)
  show "(k, j) \<in> set (sv_jobs (start_job e s)) \<Longrightarrow>
      j < length (sv_table (start_job e s)) \<and> jb_key (sv_table (start_job e s) ! j) = k" for k j
    using jobs_okD(2) [OF ok, of k j] by (auto simp: jobs tab nth_append)
  fix j assume "job_live (start_job e s) j"
  then have "j = ?n \<or> job_live s j" by (auto simp: job_live_def tab nth_append less_Suc_eq split: if_splits)
  then show "(jb_key (sv_table (start_job e s) ! j), j) \<in> set (sv_jobs (start_job e s)) \<or>
      j \<in> {} \<and> jb_cancelled (sv_table (start_job e s) ! j) \<and>
      jb_key (sv_table (start_job e s) ! j) \<notin> fst ` set (sv_jobs (start_job e s)) \<and>
      (\<forall>i. job_live (start_job e s) i \<longrightarrow> jb_key (sv_table (start_job e s) ! i) = jb_key (sv_table (start_job e s) ! j) \<longrightarrow> i = j)"
    using jobs_okD(3) [OF ok, of j] by (auto simp: jobs tab nth_append live_index)
qed

lemma start_jobs_ok:
  assumes "jobs_ok {} s" "distinct (map fst es)" "fst ` set es \<inter> fst ` set (sv_jobs s) = {}"
  shows "jobs_ok {} (start_jobs es s)"
  using assms
proof (induction es arbitrary: s)
  case (Cons e es)
  have e: "fst e \<notin> fst ` set (sv_jobs s)" using Cons.prems(3) by auto
  have keys: "fst ` set (sv_jobs (start_job e s)) = insert (fst e) (fst ` set (sv_jobs s))"
    using e by (force simp: start_job_def)
  have "jobs_ok {} (start_jobs es (start_job e s))"
    by (rule Cons.IH [OF start_job_ok [OF Cons.prems(1) e]]) (use Cons.prems keys in \<open>auto\<close>)
  then show ?case by (simp add: start_jobs_def)
qed (simp add: start_jobs_def)

lemma jobs_ok_settled: "jobs_ok w s \<Longrightarrow> (\<And>j. j \<in> w \<Longrightarrow> \<not> job_live s j) \<Longrightarrow> jobs_ok {} s"
  unfolding jobs_ok_def by blast

lemma missing_jobs_new:
  "fst ` set (missing_jobs fp desired s) \<inter> fst ` set (sv_jobs (drop_stale fp desired s)) = {}"
  by (auto simp: missing_jobs_def drop_stale_def)

lemma missing_jobs_distinct: "distinct (map fst desired) \<Longrightarrow> distinct (map fst (missing_jobs fp desired s))"
  by (simp add: missing_jobs_def distinct_map_filter)

section \<open>What a reconciliation leaves\<close>

lemma start_jobs_effect:
  assumes "distinct (map fst es)" "fst ` set es \<inter> fst ` set (sv_jobs s) = {}"
  shows "sv_table (start_jobs es s) = sv_table s @ map new_job es \<and>
         sv_jobs (start_jobs es s) = rev (zip (map fst es) [length (sv_table s)..<length (sv_table s) + length es]) @ sv_jobs s"
  using assms
proof (induction es arbitrary: s)
  case (Cons e es)
  have e: "fst e \<notin> fst ` set (sv_jobs s)" using Cons.prems(2) by auto
  have jobs: "sv_jobs (start_job e s) = (fst e, length (sv_table s)) # sv_jobs s"
    using e by (force simp: start_job_def filter_id_conv)
  have tab: "sv_table (start_job e s) = sv_table s @ [new_job e]" by (simp add: start_job_def)
  have "fst ` set es \<inter> fst ` set (sv_jobs (start_job e s)) = {}" using Cons.prems jobs by auto
  then show ?case
    using Cons.IH [of "start_job e s"] Cons.prems(1) by (simp add: start_jobs_def tab jobs upt_conv_Cons del: upt_Suc)
qed (simp add: start_jobs_def)

text \<open>
  After it, the map has exactly the desired keys, every job runs a definition with the desired
  fingerprint, and a job that had it before is still the same job.
\<close>

definition runs_desired ::
  "('d \<Rightarrow> 'f) \<Rightarrow> (uuid \<times> 'd) list \<Rightarrow> ('d, 'm) supervisor_scheme \<Rightarrow> ('d, 'm) supervisor_scheme \<Rightarrow> bool" where
  "runs_desired fp desired before after \<longleftrightarrow>
     fst ` set (sv_jobs after) = fst ` set desired \<and>
     (\<forall>(k, j) \<in> set (sv_jobs after). \<exists>d. map_of desired k = Some d \<and> fp (jb_def (sv_table after ! j)) = fp d) \<and>
     (\<forall>(k, j) \<in> set (sv_jobs before). \<forall>d. map_of desired k = Some d \<longrightarrow> fp (jb_def (sv_table before ! j)) = fp d \<longrightarrow>
        (k, j) \<in> set (sv_jobs after))"

lemma reconciled:
  assumes ok: "jobs_ok {} s" and desired: "distinct (map fst desired)"
    and jobs: "sv_jobs s2 = filter (job_kept fp desired s) (sv_jobs s)"
    and len: "length (sv_table s2) = length (sv_table s)"
    and defs: "\<And>i. i < length (sv_table s) \<Longrightarrow> jb_def (sv_table s2 ! i) = jb_def (sv_table s ! i)"
  shows "runs_desired fp desired s (start_jobs (missing_jobs fp desired s) s2)"
proof -
  let ?es = "missing_jobs fp desired s" and ?s3 = "start_jobs (missing_jobs fp desired s) s2"
  have new_keys: "fst ` set ?es \<inter> fst ` set (sv_jobs s2) = {}" by (auto simp: missing_jobs_def jobs)
  let ?n = "length (sv_table s2)"
  have tab: "sv_table ?s3 = sv_table s2 @ map new_job ?es"
    and jobs3: "sv_jobs ?s3 = rev (zip (map fst ?es) [?n..<?n + length ?es]) @ sv_jobs s2"
    using start_jobs_effect [OF missing_jobs_distinct [OF desired] new_keys] by auto
  have kept: "\<exists>d. map_of desired k = Some d \<and> fp (jb_def (sv_table s ! j)) = fp d \<and> j < length (sv_table s)"
    if "(k, j) \<in> set (sv_jobs s2)" for k j
    using that jobs_okD(2) [OF ok, of k j] by (auto simp: jobs job_kept_def split: option.splits)
  have "map fst (zip (map fst ?es) [?n..<?n + length ?es]) = map fst ?es" by simp
  then have "fst ` set (zip (map fst ?es) [?n..<?n + length ?es]) = fst ` set ?es" by (metis list.set_map)
  then have keys: "fst ` set (sv_jobs ?s3) = fst ` set (sv_jobs s2) \<union> fst ` set ?es"
    by (simp add: jobs3 image_Un Un_commute)
  have "fst ` set (sv_jobs ?s3) = fst ` set desired"
  proof -
    have "fst ` set (sv_jobs s2) \<subseteq> fst ` set desired"
      using kept by (force dest: map_of_SomeD)
    moreover have "fst ` set ?es = fst ` set desired - fst ` set (sv_jobs s2)"
      by (auto simp: missing_jobs_def jobs)
    ultimately show ?thesis unfolding keys by auto
  qed
  moreover have "\<exists>d. map_of desired k = Some d \<and> fp (jb_def (sv_table ?s3 ! j)) = fp d" if kj: "(k, j) \<in> set (sv_jobs ?s3)" for k j
  proof (cases "(k, j) \<in> set (sv_jobs s2)")
    case True
    then show ?thesis using kept [OF True] defs len by (auto simp: tab nth_append)
  next
    case False
    then have "(k, j) \<in> set (zip (map fst ?es) [?n..<?n + length ?es])" using kj by (simp add: jobs3)
    then obtain i where i: "i < length ?es" "k = fst (?es ! i)" "j = ?n + i" by (auto simp: in_set_zip)
    have "?es ! i \<in> set desired" using i(1) nth_mem [of i ?es] by (auto simp: missing_jobs_def)
    then have "map_of desired k = Some (snd (?es ! i))" using desired i(2) by (simp add: map_of_is_SomeI)
    then show ?thesis using i by (simp add: tab nth_append new_job_def)
  qed
  moreover have "(k, j) \<in> set (sv_jobs ?s3)"
    if "(k, j) \<in> set (sv_jobs s)" "map_of desired k = Some d" "fp (jb_def (sv_table s ! j)) = fp d" for k j d
    using that by (simp add: jobs3 jobs job_kept_def)
  ultimately show ?thesis unfolding runs_desired_def
    by (intro conjI ballI case_prodI2 allI impI; simp)
qed

end
