(* ===== verification/Runtime_Manager.thy ===== *)
theory Runtime_Manager
  imports Job_Supervisor
begin

text \<open>
  The manager of long-running jobs that \<open>internal/plugin/manager.go\<close> (plugin runtimes) and
  \<open>internal/publisher/manager.go\<close> (data publishers) both are, on the shared supervisor. Every section
  under the mutex is one operation; what holds the reconcile mutex is the phase. Waits take a context
  and may give up: the step relation says whether they do. What the two managers do differently, the
  fingerprint of a job and the record of its status, is a \<open>runtime_kind\<close>; its laws are the locale
  \<open>runtime_statuses\<close>.
\<close>

datatype runtime_state = StateStopped | StateStarting | StateRunning | StateStopping | StateError

text \<open>
  What a definition is refused for before it is built, and the status of a job: a new one in a state,
  the setting of a state and the end of a failed job.
\<close>

record ('d, 'st, 'e, 'f) runtime_kind =
  rk_fingerprint :: "'d \<Rightarrow> 'f"
  rk_refused :: "'d \<Rightarrow> 'e option"
  rk_empty :: 'st
  rk_state :: "'st \<Rightarrow> runtime_state"
  rk_set_state :: "runtime_state \<Rightarrow> 'st \<Rightarrow> 'st"
  rk_new :: "'d \<Rightarrow> runtime_state \<Rightarrow> 'e option \<Rightarrow> 'st"
  rk_exited :: "'e option \<Rightarrow> 'st \<Rightarrow> 'st"

datatype 'd manager_phase =
    ManagerIdle
  | ManagerChecked
  | ManagerRestarting uuid nat
  | ManagerWaiting "(uuid \<times> 'd) list" "(uuid \<times> nat) list"
  | ManagerStarting "(uuid \<times> 'd) list"
  | ManagerBuilding uuid 'd "(uuid \<times> 'd) list"

record ('d, 'st) runtime_manager = "'d supervisor" +
  mg_phase :: "'d manager_phase"
  mg_statuses :: "uuid \<rightharpoonup> 'st"

datatype manager_error = ErrManagerInvalidInput | ErrManagerAlreadyStarted | ErrManagerNotStarted | ErrManagerRepository string

definition new_manager :: "('d, 'st) runtime_manager" where
  "new_manager = \<lparr>sv_started = False, sv_stopped = False, sv_jobs = [], sv_table = [],
     mg_phase = ManagerIdle, mg_statuses = Map.empty\<rparr>"

definition status_of :: "('d, 'st, 'e, 'f) runtime_kind \<Rightarrow> ('d, 'st) runtime_manager \<Rightarrow> uuid \<Rightarrow> 'st" where
  "status_of rk s k = (case mg_statuses s k of None \<Rightarrow> rk_empty rk | Some st \<Rightarrow> st)"

definition put_status :: "uuid \<Rightarrow> 'st \<Rightarrow> ('d, 'st) runtime_manager \<Rightarrow> ('d, 'st) runtime_manager" where
  "put_status k st s = s\<lparr>mg_statuses := (mg_statuses s)(k \<mapsto> st)\<rparr>"

definition set_state ::
  "('d, 'st, 'e, 'f) runtime_kind \<Rightarrow> uuid \<Rightarrow> runtime_state \<Rightarrow> ('d, 'st) runtime_manager \<Rightarrow> ('d, 'st) runtime_manager" where
  "set_state rk k st s = put_status k (rk_set_state rk st (status_of rk s k)) s"

definition manager_start :: "('d, 'st) runtime_manager \<Rightarrow> (manager_error + unit) \<times> ('d, 'st) runtime_manager" where
  "manager_start s =
     (if sv_started s \<or> sv_stopped s then (Inl ErrManagerAlreadyStarted, s) else (Inr (), s\<lparr>sv_started := True\<rparr>))"

definition manager_check :: "('d, 'st) runtime_manager \<Rightarrow> (manager_error + unit) \<times> ('d, 'st) runtime_manager" where
  "manager_check s =
     (if \<not> sv_started s \<or> sv_stopped s then (Inl ErrManagerNotStarted, s\<lparr>mg_phase := ManagerIdle\<rparr>)
      else (Inr (), s\<lparr>mg_phase := ManagerChecked\<rparr>))"

text \<open>The listing with what it desires, as a map; the jobs it does not keep are cancelled.\<close>

definition manager_drop ::
  "('d, 'st, 'e, 'f) runtime_kind \<Rightarrow> string + (uuid \<times> 'd) list \<Rightarrow> ('d, 'st) runtime_manager \<Rightarrow>
     (manager_error + unit) \<times> ('d, 'st) runtime_manager" where
  "manager_drop rk listing s =
     (case listing of
        Inl e \<Rightarrow> (Inl (ErrManagerRepository e), s\<lparr>mg_phase := ManagerIdle\<rparr>)
      | Inr desired \<Rightarrow>
          let fp = rk_fingerprint rk; stale = stale_jobs fp desired s
          in (Inr (), (fold (\<lambda>e. set_state rk (fst e) StateStopping) stale (drop_stale fp desired s))
                \<lparr>mg_phase := ManagerWaiting (missing_jobs fp desired s) stale\<rparr>))"

text \<open>One stopped job has been waited for; after the last the missing ones start in the order of their ids.\<close>

definition manager_waited :: "('d, 'st, 'e, 'f) runtime_kind \<Rightarrow> ('d, 'st) runtime_manager \<Rightarrow> ('d, 'st) runtime_manager" where
  "manager_waited rk s =
     (case mg_phase s of
        ManagerWaiting missing (e # rest) \<Rightarrow> (set_state rk (fst e) StateStopped s)\<lparr>mg_phase := ManagerWaiting missing rest\<rparr>
      | ManagerWaiting missing [] \<Rightarrow> s\<lparr>mg_phase := ManagerStarting (sort_key fst missing)\<rparr>
      | _ \<Rightarrow> s)"

definition begin_start :: "('d, 'st, 'e, 'f) runtime_kind \<Rightarrow> ('d, 'st) runtime_manager \<Rightarrow> ('d, 'st) runtime_manager" where
  "begin_start rk s =
     (case mg_phase s of
        ManagerStarting ((k, d) # rest) \<Rightarrow> (put_status k (rk_new rk d StateStarting None) s)\<lparr>mg_phase := ManagerBuilding k d rest\<rparr>
      | ManagerStarting [] \<Rightarrow> s\<lparr>mg_phase := ManagerIdle\<rparr>
      | _ \<Rightarrow> s)"

text \<open>The rest of \<open>startJob\<close>: the goroutine, or \<open>storeFailedJob\<close> with a job that has already returned.\<close>

definition store_failed_job ::
  "('d, 'st, 'e, 'f) runtime_kind \<Rightarrow> uuid \<Rightarrow> 'd \<Rightarrow> 'e \<Rightarrow> ('d, 'st) runtime_manager \<Rightarrow> ('d, 'st) runtime_manager" where
  "store_failed_job rk k d e s =
     put_status k (rk_new rk d StateError (Some e)) (exit_job (length (sv_table s)) (start_job (k, d) s))"

definition finish_start ::
  "('d, 'st, 'e, 'f) runtime_kind \<Rightarrow> 'e option \<Rightarrow> ('d, 'st) runtime_manager \<Rightarrow> ('d, 'st) runtime_manager" where
  "finish_start rk failure s =
     (case mg_phase s of
        ManagerBuilding k d rest \<Rightarrow>
          (case (if rk_refused rk d = None then failure else rk_refused rk d) of
             None \<Rightarrow> put_status k (rk_new rk d StateRunning None) (start_job (k, d) s)
           | Some e \<Rightarrow> store_failed_job rk k d e s)\<lparr>mg_phase := ManagerStarting rest\<rparr>
      | _ \<Rightarrow> s)"

definition manager_restart ::
  "('d, 'st, 'e, 'f) runtime_kind \<Rightarrow> uuid \<Rightarrow> ('d, 'st) runtime_manager \<Rightarrow> (manager_error + unit) \<times> ('d, 'st) runtime_manager" where
  "manager_restart rk k s =
     (if k = uuid_nil then (Inl ErrManagerInvalidInput, s)
      else if \<not> sv_started s \<or> sv_stopped s then (Inl ErrManagerNotStarted, s)
      else case map_of (sv_jobs s) k of
        None \<Rightarrow> manager_check s
      | Some j \<Rightarrow> (Inr (), (set_state rk k StateStopping (drop_jobs (\<lambda>e. fst e \<noteq> k) s))\<lparr>mg_phase := ManagerRestarting k j\<rparr>))"

definition restart_waited ::
  "('d, 'st, 'e, 'f) runtime_kind \<Rightarrow> ('d, 'st) runtime_manager \<Rightarrow> (manager_error + unit) \<times> ('d, 'st) runtime_manager" where
  "restart_waited rk s =
     (case mg_phase s of ManagerRestarting k j \<Rightarrow> manager_check (set_state rk k StateStopped s) | _ \<Rightarrow> (Inr (), s))"

text \<open>\<open>runJob\<close> returns: the status says stopped where the job was cancelled, else its error.\<close>

definition job_end ::
  "('d, 'st, 'e, 'f) runtime_kind \<Rightarrow> nat \<Rightarrow> 'e option \<Rightarrow> ('d, 'st) runtime_manager \<Rightarrow> ('d, 'st) runtime_manager" where
  "job_end rk j result s =
     (let k = jb_key (sv_table s ! j)
      in exit_job j
           (if jb_cancelled (sv_table s ! j) then set_state rk k StateStopped s
            else put_status k (rk_exited rk result (status_of rk s k)) s))"

definition manager_stop :: "('d, 'st, 'e, 'f) runtime_kind \<Rightarrow> ('d, 'st) runtime_manager \<Rightarrow> ('d, 'st) runtime_manager" where
  "manager_stop rk s =
     (if \<not> sv_started s then s
      else fold (\<lambda>e. set_state rk (fst e) StateStopping) (sv_jobs s)
             (cancel_jobs [0..<length (sv_table s)] (s\<lparr>sv_stopped := True\<rparr>)))"

definition manager_stop_end :: "('d, 'st, 'e, 'f) runtime_kind \<Rightarrow> ('d, 'st) runtime_manager \<Rightarrow> ('d, 'st) runtime_manager" where
  "manager_stop_end rk s = (fold (\<lambda>e. set_state rk (fst e) StateStopped) (sv_jobs s) s)\<lparr>sv_jobs := []\<rparr>"

text \<open>
  The steps; \<open>gives_up\<close> says whether a wait may end because its context did, \<open>listings\<close> are the maps
  a reconciliation may desire, and \<open>updates\<close> what a job does to its status while it runs. What a build
  or a job yields is any outcome.
\<close>

inductive manager_step ::
  "('d, 'st, 'e, 'f) runtime_kind \<Rightarrow> (string + (uuid \<times> 'd) list) set \<Rightarrow> ('st \<Rightarrow> 'st) set \<Rightarrow> bool \<Rightarrow>
     ('d, 'st) runtime_manager \<Rightarrow> ('d, 'st) runtime_manager \<Rightarrow> bool"
  for rk listings updates gives_up where
  ms_start: "manager_step rk listings updates gives_up s (snd (manager_start s))"
| ms_check: "mg_phase s = ManagerIdle \<Longrightarrow> manager_step rk listings updates gives_up s (snd (manager_check s))"
| ms_drop: "mg_phase s = ManagerChecked \<Longrightarrow> listing \<in> listings \<Longrightarrow>
    manager_step rk listings updates gives_up s (snd (manager_drop rk listing s))"
| ms_waited: "mg_phase s = ManagerWaiting missing waits \<Longrightarrow> waits = [] \<or> \<not> job_live s (snd (hd waits)) \<Longrightarrow>
    manager_step rk listings updates gives_up s (manager_waited rk s)"
| ms_begin: "manager_step rk listings updates gives_up s (begin_start rk s)"
| ms_built: "manager_step rk listings updates gives_up s (finish_start rk failure s)"
| ms_restart: "mg_phase s = ManagerIdle \<Longrightarrow> manager_step rk listings updates gives_up s (snd (manager_restart rk k s))"
| ms_restarted: "mg_phase s = ManagerRestarting k j \<Longrightarrow> \<not> job_live s j \<Longrightarrow>
    manager_step rk listings updates gives_up s (snd (restart_waited rk s))"
| ms_give_up: "gives_up \<Longrightarrow> mg_phase s = ManagerWaiting missing waits \<or> mg_phase s = ManagerRestarting k j \<Longrightarrow>
    manager_step rk listings updates gives_up s (s\<lparr>mg_phase := ManagerIdle\<rparr>)"
| ms_update: "job_live s j \<Longrightarrow> f \<in> updates \<Longrightarrow>
    manager_step rk listings updates gives_up s
      (put_status (jb_key (sv_table s ! j)) (f (status_of rk s (jb_key (sv_table s ! j)))) s)"
| ms_exit: "job_live s j \<Longrightarrow> manager_step rk listings updates gives_up s (job_end rk j result s)"
| ms_stop: "mg_phase s = ManagerIdle \<Longrightarrow> manager_step rk listings updates gives_up s (manager_stop rk s)"
| ms_stop_end: "sv_stopped s \<Longrightarrow> jobs_done s (map snd (sv_jobs s)) \<Longrightarrow>
    manager_step rk listings updates gives_up s (manager_stop_end rk s)"

section \<open>One job for a key\<close>

text \<open>The jobs a phase waits for, and what it has still to start.\<close>

definition phase_waits :: "'d manager_phase \<Rightarrow> nat set" where
  "phase_waits p = (case p of ManagerWaiting m w \<Rightarrow> snd ` set w | ManagerRestarting k j \<Rightarrow> {j} | _ \<Rightarrow> {})"

definition phase_missing :: "'d manager_phase \<Rightarrow> (uuid \<times> 'd) list" where
  "phase_missing p = (case p of ManagerWaiting m w \<Rightarrow> m | ManagerStarting m \<Rightarrow> m
     | ManagerBuilding k d m \<Rightarrow> (k, d) # m | _ \<Rightarrow> [])"

definition phase_dropped :: "'d manager_phase \<Rightarrow> uuid set" where
  "phase_dropped p = (case p of ManagerWaiting m w \<Rightarrow> fst ` set w | ManagerRestarting k j \<Rightarrow> {k} | _ \<Rightarrow> {})"

lemmas phase_defs = phase_waits_def phase_missing_def phase_dropped_def

lemma phase_update [simp]:
  "job_live (s\<lparr>mg_phase := p\<rparr>) = job_live s" "jobs_ok w (s\<lparr>mg_phase := p\<rparr>) = jobs_ok w s"
  "status_of rk (s\<lparr>mg_phase := p\<rparr>) = status_of rk s"
  "job_live (s\<lparr>sv_stopped := b\<rparr>) = job_live s" "jobs_ok w (s\<lparr>sv_stopped := b\<rparr>) = jobs_ok w s"
  "job_live (s\<lparr>sv_started := b\<rparr>) = job_live s" "jobs_ok w (s\<lparr>sv_started := b\<rparr>) = jobs_ok w s"
  "status_of rk (s\<lparr>sv_stopped := b\<rparr>) = status_of rk s" "status_of rk (s\<lparr>sv_started := b\<rparr>) = status_of rk s"
  "status_of rk (s\<lparr>sv_jobs := js\<rparr>) = status_of rk s" "status_of rk (s\<lparr>sv_table := t\<rparr>) = status_of rk s"
  by (simp_all add: job_live_def jobs_ok_def status_of_def fun_eq_iff)

lemma put_status_simps [simp]:
  "sv_jobs (put_status k st s) = sv_jobs s" "sv_table (put_status k st s) = sv_table s"
  "sv_started (put_status k st s) = sv_started s" "sv_stopped (put_status k st s) = sv_stopped s"
  "mg_phase (put_status k st s) = mg_phase s" "job_live (put_status k st s) = job_live s"
  "jobs_ok w (put_status k st s) = jobs_ok w s"
  "status_of rk (put_status k st s) k' = (if k' = k then st else status_of rk s k')"
  by (simp_all add: put_status_def job_live_def jobs_ok_def status_of_def fun_eq_iff)

lemma set_state_simps [simp]:
  "sv_jobs (set_state rk k st s) = sv_jobs s" "sv_table (set_state rk k st s) = sv_table s"
  "sv_started (set_state rk k st s) = sv_started s" "sv_stopped (set_state rk k st s) = sv_stopped s"
  "mg_phase (set_state rk k st s) = mg_phase s" "job_live (set_state rk k st s) = job_live s"
  "jobs_ok w (set_state rk k st s) = jobs_ok w s"
  by (simp_all add: set_state_def)

lemma fold_set_state [simp]:
  "sv_jobs (fold (\<lambda>e. set_state rk (fst e) st) es s) = sv_jobs s"
  "sv_table (fold (\<lambda>e. set_state rk (fst e) st) es s) = sv_table s"
  "sv_started (fold (\<lambda>e. set_state rk (fst e) st) es s) = sv_started s"
  "sv_stopped (fold (\<lambda>e. set_state rk (fst e) st) es s) = sv_stopped s"
  "mg_phase (fold (\<lambda>e. set_state rk (fst e) st) es s) = mg_phase s"
  "job_live (fold (\<lambda>e. set_state rk (fst e) st) es s) = job_live s"
  "jobs_ok w (fold (\<lambda>e. set_state rk (fst e) st) es s) = jobs_ok w s"
  by (induction es arbitrary: s) auto

lemma supervisor_statuses [simp]:
  "status_of rk (drop_jobs keep s) = status_of rk s" "mg_phase (drop_jobs keep s) = mg_phase s"
  "status_of rk (cancel_jobs js s) = status_of rk s" "mg_phase (cancel_jobs js s) = mg_phase s"
  "status_of rk (exit_job j s) = status_of rk s" "mg_phase (exit_job j s) = mg_phase s"
  "status_of rk (start_job e s) = status_of rk s" "mg_phase (start_job e s) = mg_phase s"
  by (simp_all add: drop_jobs_def cancel_jobs_def exit_job_def start_job_def status_of_def)

lemma stale_keys_dropped:
  assumes "jobs_ok {} s"
  shows "fst ` set (stale_jobs fp d s) \<inter> fst ` set (sv_jobs (drop_stale fp d s)) = {}"
proof -
  have "distinct (map fst (sv_jobs s))" using jobs_okD(1) [OF assms] .
  then show ?thesis
    by (auto simp: stale_jobs_def drop_stale_def) (metis eq_key_imp_eq_value)
qed

lemma jobs_ok_settle_one: "jobs_ok (insert j w) s \<Longrightarrow> \<not> job_live s j \<Longrightarrow> jobs_ok w s"
  unfolding jobs_ok_def by blast

lemma jobs_ok_mono: "jobs_ok w s \<Longrightarrow> w \<subseteq> w' \<Longrightarrow> jobs_ok w' s"
  unfolding jobs_ok_def by blast

lemma start_job_new:
  assumes ok: "jobs_ok {} s" and key: "fst e \<notin> fst ` set (sv_jobs s)"
  shows "sv_jobs (start_job e s) = (fst e, length (sv_table s)) # sv_jobs s" "sv_table (start_job e s) = sv_table s @ [new_job e]"
    "sv_stopped (start_job e s) = sv_stopped s"
    "(k, j) \<in> set (sv_jobs s) \<Longrightarrow> j < length (sv_table s)"
  using key jobs_okD(2) [OF ok, of k j] by (force simp: start_job_def filter_id_conv)+

text \<open>What the manager relies on of a kind: its statuses have the state they are given.\<close>

locale runtime_statuses =
  fixes rk :: "('d, 'st, 'e, 'f) runtime_kind"
    and listings :: "(string + (uuid \<times> 'd) list) set"
    and updates :: "('st \<Rightarrow> 'st) set"
  assumes set_state_state: "rk_state rk (rk_set_state rk st x) = st"
    and new_state: "rk_state rk (rk_new rk d st e) = st"
    and update_state: "f \<in> updates \<Longrightarrow> rk_state rk (f x) = rk_state rk x"
    and listing_keys: "Inr desired \<in> listings \<Longrightarrow> distinct (map fst desired)"
begin

definition jobs_running :: "('d, 'st) runtime_manager \<Rightarrow> bool" where
  "jobs_running s \<longleftrightarrow>
     (\<forall>(k, j) \<in> set (sv_jobs s). job_live s j \<and> \<not> jb_cancelled (sv_table s ! j) \<longrightarrow> rk_state rk (status_of rk s k) = StateRunning)"

definition manager_inv :: "('d, 'st) runtime_manager \<Rightarrow> bool" where
  "manager_inv s \<longleftrightarrow> jobs_ok (phase_waits (mg_phase s)) s \<and> distinct (map fst (phase_missing (mg_phase s))) \<and>
     fst ` set (phase_missing (mg_phase s)) \<inter> fst ` set (sv_jobs s) = {} \<and>
     phase_dropped (mg_phase s) \<inter> fst ` set (sv_jobs s) = {} \<and>
     (sv_stopped s \<longrightarrow> mg_phase s = ManagerIdle \<and> (\<forall>j. job_live s j \<longrightarrow> jb_cancelled (sv_table s ! j))) \<and>
     jobs_running s"

lemma set_state_status [simp]:
  "rk_state rk (status_of rk (set_state rk k st s) k') = (if k' = k then st else rk_state rk (status_of rk s k'))"
  by (simp add: set_state_def set_state_state)

lemma fold_set_state_status [simp]:
  "rk_state rk (status_of rk (fold (\<lambda>e. set_state rk (fst e) st) es s) k) =
     (if k \<in> fst ` set es then st else rk_state rk (status_of rk s k))"
  by (induction es arbitrary: s) auto

lemma jobs_running_update [simp]:
  "jobs_running (s\<lparr>mg_phase := p\<rparr>) = jobs_running s" "jobs_running (s\<lparr>sv_started := b\<rparr>) = jobs_running s"
  "jobs_running (s\<lparr>sv_stopped := b\<rparr>) = jobs_running s"
  by (simp_all add: jobs_running_def)

lemma jobs_running_set_state: "jobs_running s \<Longrightarrow> k \<notin> fst ` set (sv_jobs s) \<Longrightarrow> jobs_running (set_state rk k st s)"
  by (force simp: jobs_running_def)

lemma jobs_running_fold:
  "jobs_running s \<Longrightarrow> fst ` set es \<inter> fst ` set (sv_jobs s) = {} \<Longrightarrow> jobs_running (fold (\<lambda>e. set_state rk (fst e) st) es s)"
  by (force simp: jobs_running_def)

lemma jobs_running_drop:
  assumes ok: "jobs_ok {} s" and r: "jobs_running s"
  shows "jobs_running (drop_jobs keep s)"
  unfolding jobs_running_def
proof clarify
  fix k j assume kj: "(k, j) \<in> set (sv_jobs (drop_jobs keep s))" "job_live (drop_jobs keep s) j"
    "\<not> jb_cancelled (sv_table (drop_jobs keep s) ! j)"
  then have "(k, j) \<in> set (sv_jobs s)" "j < length (sv_table s)" "job_live s j" by (simp_all add: live_index)
  moreover from this kj(3) have "\<not> jb_cancelled (sv_table s ! j)" using drop_jobs_cancelled by blast
  ultimately show "rk_state rk (status_of rk (drop_jobs keep s) k) = StateRunning" using r by (auto simp: jobs_running_def)
qed

lemma manager_idle_inv: "manager_inv s \<Longrightarrow> phase_waits (mg_phase s) = {} \<Longrightarrow> manager_inv (s\<lparr>mg_phase := ManagerIdle\<rparr>)"
  by (simp add: manager_inv_def phase_defs)

lemma manager_check_inv:
  "manager_inv s \<Longrightarrow> phase_waits (mg_phase s) = {} \<Longrightarrow> manager_inv (snd (manager_check s))"
  by (auto simp: manager_check_def manager_inv_def phase_defs)

lemma manager_drop_inv:
  assumes inv: "manager_inv s" and phase: "mg_phase s = ManagerChecked" and listing: "listing \<in> listings"
  shows "manager_inv (snd (manager_drop rk listing s))"
proof (cases listing)
  case (Inl e)
  then show ?thesis using manager_idle_inv [OF inv] phase by (simp add: manager_drop_def phase_defs)
next
  case (Inr d)
  define fp where "fp = rk_fingerprint rk"
  let ?stale = "stale_jobs fp d s"
  have ok: "jobs_ok {} s" and running: "jobs_running s" and stopped: "\<not> sv_stopped s"
    using inv phase by (auto simp: manager_inv_def phase_defs)
  have dropped: "fst ` set ?stale \<inter> fst ` set (sv_jobs (drop_stale fp d s)) = {}" by (rule stale_keys_dropped [OF ok])
  have "jobs_running (fold (\<lambda>e. set_state rk (fst e) StateStopping) ?stale (drop_stale fp d s))"
    using jobs_running_fold [OF _ dropped] jobs_running_drop [OF ok running] by (simp add: drop_stale_def)
  moreover have "distinct (map fst (missing_jobs fp d s))"
    by (rule missing_jobs_distinct) (use listing_keys listing Inr in blast)
  ultimately show ?thesis
    using drop_stale_ok [OF ok, of fp d] missing_jobs_new [of fp d s] dropped stopped
    by (simp add: manager_drop_def Inr Let_def fp_def [symmetric] manager_inv_def phase_defs del: set_map)
      (simp add: drop_stale_def)
qed

lemma manager_waited_inv:
  assumes inv: "manager_inv s" and phase: "mg_phase s = ManagerWaiting missing waits"
    and ended: "waits = [] \<or> \<not> job_live s (snd (hd waits))"
  shows "manager_inv (manager_waited rk s)"
proof (cases waits)
  case Nil
  have "distinct (map fst (sort_key fst missing))"
    using inv phase by (simp add: manager_inv_def phase_defs distinct_map)
  then show ?thesis using inv phase Nil
    by (auto simp: manager_waited_def manager_inv_def phase_defs)
next
  case (Cons e rest)
  have "jobs_ok (snd ` set rest) s"
    by (rule jobs_ok_settle_one [of "snd e"])
      (use inv phase ended Cons in \<open>simp_all add: manager_inv_def phase_defs\<close>)
  moreover have "jobs_running (set_state rk (fst e) StateStopped s)"
    using inv phase by (intro jobs_running_set_state) (auto simp: manager_inv_def phase_defs Cons)
  ultimately show ?thesis using inv phase Cons
    by (auto simp: manager_waited_def manager_inv_def phase_defs)
qed

lemma jobs_running_status:
  "jobs_running s \<Longrightarrow> k \<notin> fst ` set (sv_jobs s) \<Longrightarrow> jobs_running (put_status k st s)"
  by (force simp: jobs_running_def)

lemma begin_start_inv: "manager_inv s \<Longrightarrow> manager_inv (begin_start rk s)"
proof (cases "mg_phase s")
  case (ManagerStarting m)
  assume inv: "manager_inv s"
  show ?thesis
  proof (cases m)
    case (Cons e rest)
    obtain k d where e: "e = (k, d)" by (cases e)
    have "jobs_running (put_status k (rk_new rk d StateStarting None) s)"
      using inv ManagerStarting Cons e by (intro jobs_running_status) (auto simp: manager_inv_def phase_defs)
    then show ?thesis using inv ManagerStarting Cons e
      by (simp add: begin_start_def manager_inv_def phase_defs)
  qed (use inv ManagerStarting in \<open>simp add: begin_start_def manager_inv_def phase_defs\<close>)
qed (simp_all add: begin_start_def)

lemma finish_start_inv:
  assumes inv: "manager_inv s"
  shows "manager_inv (finish_start rk failure s)"
proof (cases "mg_phase s")
  case (ManagerBuilding k d rest)
  have ok: "jobs_ok {} s" and key: "k \<notin> fst ` set (sv_jobs s)" and running: "jobs_running s"
    and stopped: "\<not> sv_stopped s" and rest: "distinct (k # map fst rest)" "set (map fst rest) \<inter> fst ` set (sv_jobs s) = {}"
    using inv ManagerBuilding by (auto simp: manager_inv_def phase_defs)
  define r where "r = (if rk_refused rk d = None then failure else rk_refused rk d)"
  define t where "t = (case r of None \<Rightarrow> start_job (k, d) s | Some e \<Rightarrow> exit_job (length (sv_table s)) (start_job (k, d) s))"
  define st where "st = (case r of None \<Rightarrow> rk_new rk d StateRunning None | Some e \<Rightarrow> rk_new rk d StateError (Some e))"
  note new = start_job_new [OF ok, of "(k, d)", simplified, OF key]
  have f: "finish_start rk failure s = (put_status k st t)\<lparr>mg_phase := ManagerStarting rest\<rparr>"
    using ManagerBuilding
    by (simp add: finish_start_def store_failed_job_def t_def st_def r_def [symmetric] split: option.split)
  have tok: "jobs_ok {} t"
    using start_job_ok [OF ok, of "(k, d)"] key by (auto simp: t_def exit_job_ok split: option.split)
  have jobs: "sv_jobs t = (k, length (sv_table s)) # sv_jobs s" "sv_stopped t = sv_stopped s"
    by (simp_all add: t_def new split: option.split)
  have status: "status_of rk t = status_of rk s" by (simp add: t_def fun_eq_iff split: option.split)
  have first: "rk_state rk st = StateRunning \<or> \<not> job_live t (length (sv_table s))"
    by (simp add: t_def st_def new_state job_live_exit split: option.split)
  have "rk_state rk (status_of rk s k') = StateRunning"
    if "(k', j) \<in> set (sv_jobs s)" "job_live t j" "\<not> jb_cancelled (sv_table t ! j)" for k' j
  proof -
    have j: "j < length (sv_table s)" using new(4) [OF that(1)] .
    have "job_live (start_job (k, d) s) j" "\<not> jb_cancelled (sv_table (start_job (k, d) s) ! j)"
      using that(2,3) j new(2) by (auto simp: t_def job_live_exit split: option.splits)
    then have "job_live s j" "\<not> jb_cancelled (sv_table s ! j)"
      using j by (simp_all add: new(2) job_live_def nth_append)
    then show ?thesis using running that(1) by (auto simp: jobs_running_def)
  qed
  then have "jobs_running (put_status k st t)"
    using first key by (force simp: jobs_running_def jobs status)
  then show ?thesis using tok rest stopped jobs key
    by (simp add: f manager_inv_def phase_defs jobs_running_def)
qed (simp_all add: finish_start_def inv)

lemma manager_restart_inv:
  assumes inv: "manager_inv s" and phase: "mg_phase s = ManagerIdle"
  shows "manager_inv (snd (manager_restart rk k s))"
proof (cases "k = uuid_nil \<or> \<not> sv_started s \<or> sv_stopped s \<or> map_of (sv_jobs s) k = None")
  case True
  then show ?thesis using inv manager_check_inv [OF inv] phase
    by (auto simp: manager_restart_def phase_defs)
next
  case False
  then obtain j where j: "map_of (sv_jobs s) k = Some j" by blast
  have ok: "jobs_ok {} s" and running: "jobs_running s" using inv phase by (simp_all add: manager_inv_def phase_defs)
  let ?t = "drop_jobs (\<lambda>e. fst e \<noteq> k) s"
  have "snd ` set (filter (\<lambda>e. \<not> fst e \<noteq> k) (sv_jobs s)) \<subseteq> {j}"
    using jobs_okD(1) [OF ok] map_of_SomeD [OF j] by (auto dest: eq_key_imp_eq_value)
  then have "jobs_ok {j} ?t" by (rule jobs_ok_mono [OF drop_jobs_ok [OF ok]])
  moreover have "jobs_running (set_state rk k StateStopping ?t)"
    by (rule jobs_running_set_state [OF jobs_running_drop [OF ok running]]) auto
  ultimately show ?thesis using False j
    by (auto simp: manager_restart_def manager_inv_def phase_defs)
qed

lemma restart_waited_inv:
  assumes inv: "manager_inv s" and phase: "mg_phase s = ManagerRestarting k j" and ended: "\<not> job_live s j"
  shows "manager_inv (snd (restart_waited rk s))"
proof -
  have "jobs_ok {} s" by (rule jobs_ok_settle_one [of j])
      (use inv phase ended in \<open>simp_all add: manager_inv_def phase_defs\<close>)
  moreover have "jobs_running (set_state rk k StateStopped s)"
    using inv phase by (intro jobs_running_set_state) (auto simp: manager_inv_def phase_defs)
  ultimately show ?thesis using inv phase
    by (auto simp: restart_waited_def manager_check_def manager_inv_def phase_defs)
qed

lemma status_keeps_running:
  assumes "jobs_ok w s" and "job_live s j" and "jobs_running s"
    and same: "sv_jobs t = sv_jobs s" "sv_table t = sv_table s" "job_live t = job_live s"
    and other: "\<And>k. k \<noteq> jb_key (sv_table s ! j) \<Longrightarrow> status_of rk t k = status_of rk s k"
  shows "jobs_running (exit_job j t)"
  unfolding jobs_running_def
proof clarify
  fix k i assume ki: "(k, i) \<in> set (sv_jobs (exit_job j t))" "job_live (exit_job j t) i"
    "\<not> jb_cancelled (sv_table (exit_job j t) ! i)"
  then have i: "(k, i) \<in> set (sv_jobs s)" "job_live s i" "i \<noteq> j" by (simp_all add: same job_live_exit)
  then have key: "jb_key (sv_table s ! i) = k" "i < length (sv_table s)" using jobs_okD(2) [OF assms(1)] by blast+
  then have "\<not> jb_cancelled (sv_table s ! i)" using ki(3) same(2) by simp
  moreover have "k \<noteq> jb_key (sv_table s ! j)" using jobs_ok_one_live [OF assms(1) i(2) assms(2)] key(1) i(3) by blast
  ultimately show "rk_state rk (status_of rk (exit_job j t) k) = StateRunning"
    using assms(3) i other by (auto simp: jobs_running_def)
qed

lemma job_end_inv:
  assumes inv: "manager_inv s" and live: "job_live s j"
  shows "manager_inv (job_end rk j result s)"
proof -
  let ?k = "jb_key (sv_table s ! j)"
  have ok: "jobs_ok (phase_waits (mg_phase s)) s" and running: "jobs_running s" using inv by (simp_all add: manager_inv_def)
  define t where "t = (if jb_cancelled (sv_table s ! j) then set_state rk ?k StateStopped s
      else put_status ?k (rk_exited rk result (status_of rk s ?k)) s)"
  have e: "job_end rk j result s = exit_job j t" by (simp add: job_end_def t_def Let_def)
  have t: "sv_jobs t = sv_jobs s" "sv_table t = sv_table s" "sv_stopped t = sv_stopped s" "mg_phase t = mg_phase s"
    "job_live t = job_live s" "jobs_ok w t = jobs_ok w s" "k \<noteq> ?k \<Longrightarrow> status_of rk t k = status_of rk s k" for w k
    by (simp_all add: t_def set_state_def)
  have "jobs_running (exit_job j t)" by (rule status_keeps_running [OF ok live running t(1,2,5,7)])
  moreover have "jobs_ok (phase_waits (mg_phase s)) (exit_job j t)" using exit_job_ok ok t(6) by blast
  moreover have "jb_cancelled (sv_table (exit_job j t) ! i)" if "sv_stopped s" "job_live (exit_job j t) i" for i
    using inv that live_index [of s i] by (auto simp: job_live_exit t manager_inv_def)
  ultimately show ?thesis using inv by (simp add: e manager_inv_def t)
qed

lemma update_inv:
  assumes inv: "manager_inv s" and "job_live s j" and f: "f \<in> updates"
  shows "manager_inv (put_status (jb_key (sv_table s ! j)) (f (status_of rk s (jb_key (sv_table s ! j)))) s)"
proof -
  have "jobs_running (put_status k (f (status_of rk s k)) s)" for k
    using inv by (auto simp: manager_inv_def jobs_running_def update_state [OF f])
  then show ?thesis using inv by (simp add: manager_inv_def)
qed

lemma manager_stop_inv:
  assumes inv: "manager_inv s" and phase: "mg_phase s = ManagerIdle"
  shows "manager_inv (manager_stop rk s)"
proof -
  let ?t = "cancel_jobs [0..<length (sv_table s)] (s\<lparr>sv_stopped := True\<rparr>)"
  have ok: "jobs_ok {} ?t" using inv phase by (intro cancel_jobs_ok) (simp add: manager_inv_def phase_defs)
  have cancelled: "jb_cancelled (sv_table ?t ! j)" if "job_live s j" for j
    using live_index [OF that] by (simp add: cancel_jobs_nth)
  then have "jobs_running (fold (\<lambda>e. set_state rk (fst e) StateStopping) (sv_jobs s) ?t)"
    by (auto simp: jobs_running_def)
  then show ?thesis using inv phase ok cancelled
    by (auto simp: manager_stop_def manager_inv_def phase_defs)
qed

lemma manager_stop_end_inv:
  assumes inv: "manager_inv s" and stopped: "sv_stopped s" and ended: "jobs_done s (map snd (sv_jobs s))"
  shows "manager_inv (manager_stop_end rk s)"
proof -
  have phase: "mg_phase s = ManagerIdle" and ok: "jobs_ok {} s"
    using inv stopped by (auto simp: manager_inv_def phase_defs)
  have "\<not> job_live s j" for j
    using jobs_okD(3) [OF ok, of j] ended by (force simp: jobs_done_def list_all_iff)
  then have none: "\<not> job_live (manager_stop_end rk s) j" for j by (simp add: manager_stop_end_def job_live_def)
  then have "jobs_ok {} (manager_stop_end rk s)" by (simp add: jobs_ok_def manager_stop_end_def)
  moreover have "jobs_running (manager_stop_end rk s)" by (simp add: jobs_running_def manager_stop_end_def)
  ultimately show ?thesis using none phase stopped
    by (simp add: manager_inv_def phase_defs manager_stop_end_def)
qed

lemma manager_step_inv: "manager_step rk listings updates False s t \<Longrightarrow> manager_inv s \<Longrightarrow> manager_inv t"
proof (induction rule: manager_step.induct)
  case (ms_start s)
  then show ?case by (auto simp: manager_start_def manager_inv_def jobs_running_def)
next
  case (ms_check s)
  then show ?case by (intro manager_check_inv) (simp_all add: phase_defs)
qed (auto intro: manager_drop_inv manager_waited_inv begin_start_inv finish_start_inv manager_restart_inv
    restart_waited_inv job_end_inv update_inv manager_stop_inv manager_stop_end_inv)

lemma new_manager_inv: "manager_inv new_manager"
  by (simp add: new_manager_def manager_inv_def phase_defs jobs_ok_def job_live_def jobs_running_def)

text \<open>At most one job of a key is alive, and an uncancelled one is tracked and reported as running.\<close>

lemma one_job_per_key:
  assumes inv: "manager_inv s"
  shows "(\<forall>i j. job_live s i \<and> job_live s j \<and> jb_key (sv_table s ! i) = jb_key (sv_table s ! j) \<longrightarrow> i = j) \<and>
         (\<forall>j. job_live s j \<and> \<not> jb_cancelled (sv_table s ! j) \<longrightarrow>
            (jb_key (sv_table s ! j), j) \<in> set (sv_jobs s) \<and> rk_state rk (status_of rk s (jb_key (sv_table s ! j))) = StateRunning)"
proof -
  have ok: "jobs_ok (phase_waits (mg_phase s)) s" and running: "jobs_running s"
    using inv by (simp_all add: manager_inv_def)
  have tracked: "(jb_key (sv_table s ! j), j) \<in> set (sv_jobs s)" if "job_live s j" "\<not> jb_cancelled (sv_table s ! j)" for j
    using jobs_okD(3) [OF ok that(1)] that(2) by blast
  show ?thesis
    using jobs_ok_one_live [OF ok] tracked running unfolding jobs_running_def by blast
qed

end

end
