(* ===== verification/Event_Broker.thy ===== *)
theory Event_Broker
  imports Edge_Interfaces
begin

text \<open>
  The brokers that hand committed events to subscribers, each interested in the events of one key:
  \<open>CommittedBatchBroker\<close> of \<open>internal/datalogger/committed_batches.go\<close> and \<open>OutputBroker\<close> of
  \<open>internal/plugin/output_store.go\<close> are the same code over different events. A subscription is the
  pointer the client holds, here a number; it stays readable after the broker has dropped it. Every
  method holds the mutex.
\<close>

record 'e subscription =
  es_key :: uuid
  es_events :: "'e chan"
  es_lagged :: bool
  es_closed :: bool

record 'e broker =
  br_buffer :: int
  br_subscribers :: "nat set"
  br_subscriptions :: "nat \<rightharpoonup> 'e subscription"
  br_next :: nat

datatype broker_error = BrokerInvalidInput | BrokerSubscriberLag

definition default_broker_buffer :: int where "default_broker_buffer = 64"

text \<open>The constructor with the buffer sizes its options ask for.\<close>

definition new_broker :: "int list \<Rightarrow> broker_error + 'e broker" where
  "new_broker options =
     foldE (\<lambda>n b. if n < 1 then Inl BrokerInvalidInput else Inr (b\<lparr>br_buffer := n\<rparr>)) options
       \<lparr>br_buffer = default_broker_buffer, br_subscribers = {}, br_subscriptions = Map.empty, br_next = 0\<rparr>"

definition broker_subscribe :: "uuid \<Rightarrow> 'e broker \<Rightarrow> (broker_error + nat) \<times> 'e broker" where
  "broker_subscribe key b =
     (if key = uuid_nil then (Inl BrokerInvalidInput, b)
      else let buffer = (if br_buffer b < 1 then default_broker_buffer else br_buffer b); i = br_next b
           in (Inr i, b\<lparr>br_buffer := buffer, br_next := i + 1, br_subscribers := insert i (br_subscribers b),
                 br_subscriptions := (br_subscriptions b)(i \<mapsto>
                   \<lparr>es_key = key, es_events = make_chan (nat buffer), es_lagged = False, es_closed = False\<rparr>)\<rparr>))"

text \<open>\<open>closeSubscriptionLocked\<close> on the subscription itself; the broker forgets a closed one.\<close>

definition close_subscription :: "'e subscription \<Rightarrow> 'e subscription" where
  "close_subscription s = (if es_closed s then s else s\<lparr>es_closed := True, es_events := chan_close (es_events s)\<rparr>)"

definition offer_event :: "uuid \<Rightarrow> 'e \<Rightarrow> 'e subscription \<Rightarrow> 'e subscription" where
  "offer_event key e s =
     (if es_key s \<noteq> key then s
      else case chan_offer e (es_events s) of
        Some c \<Rightarrow> s\<lparr>es_events := c\<rparr>
      | None \<Rightarrow> close_subscription (s\<lparr>es_lagged := True\<rparr>))"

definition broker_deliver :: "uuid \<Rightarrow> 'e \<Rightarrow> 'e broker \<Rightarrow> 'e broker" where
  "broker_deliver key e b =
     (let subs = (\<lambda>i. if i \<in> br_subscribers b then map_option (offer_event key e) (br_subscriptions b i)
                      else br_subscriptions b i)
      in b\<lparr>br_subscriptions := subs,
           br_subscribers := {i \<in> br_subscribers b. \<exists>s. subs i = Some s \<and> \<not> es_closed s}\<rparr>)"

text \<open>Publishing: \<open>prepare\<close> validates and copies the event.\<close>

definition broker_publish :: "('e \<Rightarrow> uuid) \<Rightarrow> ('e \<Rightarrow> 'e option) \<Rightarrow> 'e \<Rightarrow> 'e broker \<Rightarrow> 'e broker" where
  "broker_publish key_of prepare e b =
     (case prepare e of None \<Rightarrow> b | Some e' \<Rightarrow> broker_deliver (key_of e') e' b)"

definition broker_close :: "nat \<Rightarrow> 'e broker \<Rightarrow> 'e broker" where
  "broker_close i b = b\<lparr>br_subscribers := br_subscribers b - {i},
     br_subscriptions := (br_subscriptions b)(i := map_option close_subscription (br_subscriptions b i))\<rparr>"

definition broker_err :: "nat \<Rightarrow> 'e broker \<Rightarrow> broker_error option" where
  "broker_err i b = (case br_subscriptions b i of None \<Rightarrow> None
     | Some s \<Rightarrow> if es_lagged s then Some BrokerSubscriberLag else None)"

text \<open>The client of subscription \<open>i\<close> receives.\<close>

definition broker_receive :: "nat \<Rightarrow> 'e broker \<Rightarrow> ('e \<times> 'e broker) option" where
  "broker_receive i b =
     (case br_subscriptions b i of
        None \<Rightarrow> None
      | Some s \<Rightarrow> (case chan_poll (es_events s) of
            None \<Rightarrow> None
          | Some (e, c) \<Rightarrow> Some (e, b\<lparr>br_subscriptions := (br_subscriptions b)(i \<mapsto> s\<lparr>es_events := c\<rparr>)\<rparr>)))"

section \<open>The state of a broker\<close>

text \<open>The broker knows exactly the subscriptions that are open; one it dropped for lag says so.\<close>

definition broker_inv :: "'e broker \<Rightarrow> bool" where
  "broker_inv b \<longleftrightarrow>
     (\<forall>i. i \<in> br_subscribers b \<longleftrightarrow> (\<exists>s. br_subscriptions b i = Some s \<and> \<not> es_closed s)) \<and>
     (\<forall>i s. br_subscriptions b i = Some s \<longrightarrow>
        i < br_next b \<and> es_key s \<noteq> uuid_nil \<and> (es_lagged s \<longrightarrow> es_closed s) \<and>
        ch_closed (es_events s) = es_closed s \<and>
        length (ch_queue (es_events s)) \<le> ch_capacity (es_events s) \<and> 0 < ch_capacity (es_events s))"

lemma broker_inv_sub:
  "broker_inv b \<Longrightarrow> br_subscriptions b i = Some s \<Longrightarrow>
     (i \<in> br_subscribers b \<longleftrightarrow> \<not> es_closed s) \<and> i < br_next b \<and> es_key s \<noteq> uuid_nil \<and>
     (es_lagged s \<longrightarrow> es_closed s) \<and> ch_closed (es_events s) = es_closed s \<and>
     length (ch_queue (es_events s)) \<le> ch_capacity (es_events s) \<and> 0 < ch_capacity (es_events s)"
  unfolding broker_inv_def by (metis option.inject)

lemma broker_inv_subscriber: "broker_inv b \<Longrightarrow> i \<in> br_subscribers b \<Longrightarrow> \<exists>s. br_subscriptions b i = Some s \<and> \<not> es_closed s"
  by (simp add: broker_inv_def)

lemma broker_invI:
  assumes "\<And>i. i \<in> br_subscribers b \<Longrightarrow> br_subscriptions b i \<noteq> None"
    and "\<And>i s. br_subscriptions b i = Some s \<Longrightarrow>
       (i \<in> br_subscribers b \<longleftrightarrow> \<not> es_closed s) \<and> i < br_next b \<and> es_key s \<noteq> uuid_nil \<and>
       (es_lagged s \<longrightarrow> es_closed s) \<and> ch_closed (es_events s) = es_closed s \<and>
       length (ch_queue (es_events s)) \<le> ch_capacity (es_events s) \<and> 0 < ch_capacity (es_events s)"
  shows "broker_inv b"
  unfolding broker_inv_def using assms by (metis not_None_eq)

definition subscription_ok :: "'e subscription \<Rightarrow> bool" where
  "subscription_ok s \<longleftrightarrow> es_key s \<noteq> uuid_nil \<and> (es_lagged s \<longrightarrow> es_closed s) \<and>
     ch_closed (es_events s) = es_closed s \<and>
     length (ch_queue (es_events s)) \<le> ch_capacity (es_events s) \<and> 0 < ch_capacity (es_events s)"

lemma offer_event_ok: "subscription_ok s \<Longrightarrow> \<not> es_closed s \<Longrightarrow> subscription_ok (offer_event key e s)"
  by (auto simp: subscription_ok_def offer_event_def close_subscription_def chan_offer_def chan_close_def
      split: if_splits)

lemma close_subscription_ok: "subscription_ok s \<Longrightarrow> subscription_ok (close_subscription s) \<and> es_closed (close_subscription s)"
  by (auto simp: subscription_ok_def close_subscription_def chan_close_def)

lemma broker_inv_ok: "broker_inv b \<Longrightarrow> br_subscriptions b i = Some s \<Longrightarrow> subscription_ok s"
  using broker_inv_sub [of b i s] by (simp add: subscription_ok_def)

lemma new_broker_inv: "new_broker options = Inr b \<Longrightarrow> broker_inv b"
  unfolding new_broker_def
  by (erule foldE_invariant [where P = broker_inv]) (auto simp: broker_inv_def split: if_splits)

lemma broker_subscribe_inv [edge_inv]: "broker_inv (b :: 'e broker) \<Longrightarrow> broker_subscribe key b = (r, b') \<Longrightarrow> broker_inv b'"
proof -
  assume inv: "broker_inv (b :: 'e broker)" and r: "broker_subscribe key b = (r, b')"
  show ?thesis
  proof (cases "key = uuid_nil")
    case False
    define s where "s = (\<lparr>es_key = key, es_events = make_chan (nat (if br_buffer b < 1 then default_broker_buffer else br_buffer b)),
        es_lagged = False, es_closed = False\<rparr> :: 'e subscription)"
    have ok: "subscription_ok s \<and> \<not> es_closed s"
      using False by (simp add: s_def subscription_ok_def make_chan_def default_broker_buffer_def)
    have b': "br_subscribers b' = insert (br_next b) (br_subscribers b)" "br_next b' = Suc (br_next b)"
      "br_subscriptions b' = (br_subscriptions b)(br_next b \<mapsto> s)"
      using r False by (auto simp: broker_subscribe_def s_def Let_def)
    show ?thesis
    proof (rule broker_invI)
      show "br_subscriptions b' i \<noteq> None" if "i \<in> br_subscribers b'" for i
        using that broker_inv_subscriber [OF inv, of i] by (auto simp: b')
      fix i t assume t: "br_subscriptions b' i = Some t"
      show "(i \<in> br_subscribers b' \<longleftrightarrow> \<not> es_closed t) \<and> i < br_next b' \<and> es_key t \<noteq> uuid_nil \<and>
          (es_lagged t \<longrightarrow> es_closed t) \<and> ch_closed (es_events t) = es_closed t \<and>
          length (ch_queue (es_events t)) \<le> ch_capacity (es_events t) \<and> 0 < ch_capacity (es_events t)"
      proof (cases "i = br_next b")
        case True
        then show ?thesis using t ok by (auto simp add: b' subscription_ok_def)
      next
        case False
        then show ?thesis using t broker_inv_sub [OF inv, of i t] by (auto simp: b')
      qed
    qed
  qed (use inv r in \<open>simp add: broker_subscribe_def\<close>)
qed

lemma broker_deliver_inv [edge_inv]: "broker_inv b \<Longrightarrow> broker_inv (broker_deliver key e b)"
proof (rule broker_invI)
  assume inv: "broker_inv b"
  show "i \<in> br_subscribers (broker_deliver key e b) \<Longrightarrow> br_subscriptions (broker_deliver key e b) i \<noteq> None" for i
    by (auto simp: broker_deliver_def Let_def)
  fix i s assume s: "br_subscriptions (broker_deliver key e b) i = Some s"
  then obtain t where t: "br_subscriptions b i = Some t"
    "s = (if i \<in> br_subscribers b then offer_event key e t else t)"
    by (auto simp: broker_deliver_def Let_def split: if_splits)
  have "subscription_ok s"
    using t broker_inv_ok [OF inv t(1)] broker_inv_sub [OF inv t(1)] offer_event_ok [of t] by auto
  moreover have "i \<in> br_subscribers (broker_deliver key e b) \<longleftrightarrow> \<not> es_closed s"
    using s t broker_inv_sub [OF inv t(1)] by (auto simp: broker_deliver_def Let_def)
  ultimately show "(i \<in> br_subscribers (broker_deliver key e b) \<longleftrightarrow> \<not> es_closed s) \<and>
      i < br_next (broker_deliver key e b) \<and> es_key s \<noteq> uuid_nil \<and>
      (es_lagged s \<longrightarrow> es_closed s) \<and> ch_closed (es_events s) = es_closed s \<and>
      length (ch_queue (es_events s)) \<le> ch_capacity (es_events s) \<and> 0 < ch_capacity (es_events s)"
    using broker_inv_sub [OF inv t(1)] by (simp add: subscription_ok_def broker_deliver_def Let_def)
qed

lemma broker_publish_inv [edge_inv]: "broker_inv b \<Longrightarrow> broker_inv (broker_publish key_of prepare e b)"
  by (simp add: broker_publish_def broker_deliver_inv split: option.split)

lemma broker_close_inv [edge_inv]: "broker_inv b \<Longrightarrow> broker_inv (broker_close i b)"
proof (rule broker_invI)
  assume inv: "broker_inv b"
  show "j \<in> br_subscribers (broker_close i b) \<Longrightarrow> br_subscriptions (broker_close i b) j \<noteq> None" for j
    using broker_inv_subscriber [OF inv, of j] by (auto simp: broker_close_def)
  fix j s assume s: "br_subscriptions (broker_close i b) j = Some s"
  then obtain t where t: "br_subscriptions b j = Some t" "s = (if j = i then close_subscription t else t)"
    by (auto simp: broker_close_def split: if_splits)
  show "(j \<in> br_subscribers (broker_close i b) \<longleftrightarrow> \<not> es_closed s) \<and>
      j < br_next (broker_close i b) \<and> es_key s \<noteq> uuid_nil \<and>
      (es_lagged s \<longrightarrow> es_closed s) \<and> ch_closed (es_events s) = es_closed s \<and>
      length (ch_queue (es_events s)) \<le> ch_capacity (es_events s) \<and> 0 < ch_capacity (es_events s)"
    using t broker_inv_sub [OF inv t(1)] close_subscription_ok [OF broker_inv_ok [OF inv t(1)]]
    by (auto simp: broker_close_def subscription_ok_def)
qed

lemma broker_receive_inv [edge_inv]: "broker_inv b \<Longrightarrow> broker_receive i b = Some (e, b') \<Longrightarrow> broker_inv b'"
proof -
  assume inv: "broker_inv b" and r: "broker_receive i b = Some (e, b')"
  obtain s c where s: "br_subscriptions b i = Some s" "chan_poll (es_events s) = Some (e, c)"
    and b': "b' = b\<lparr>br_subscriptions := (br_subscriptions b)(i \<mapsto> s\<lparr>es_events := c\<rparr>)\<rparr>"
    using r by (auto simp: broker_receive_def split: option.splits)
  have c: "ch_closed c = ch_closed (es_events s)" "ch_capacity c = ch_capacity (es_events s)"
    "length (ch_queue c) \<le> length (ch_queue (es_events s))"
    using s(2) by (auto simp: chan_poll_def split: list.splits)
  show ?thesis
  proof (rule broker_invI)
    show "br_subscriptions b' j \<noteq> None" if "j \<in> br_subscribers b'" for j
      using that broker_inv_subscriber [OF inv, of j] by (auto simp: b')
    fix j t assume t: "br_subscriptions b' j = Some t"
    show "(j \<in> br_subscribers b' \<longleftrightarrow> \<not> es_closed t) \<and> j < br_next b' \<and> es_key t \<noteq> uuid_nil \<and>
        (es_lagged t \<longrightarrow> es_closed t) \<and> ch_closed (es_events t) = es_closed t \<and>
        length (ch_queue (es_events t)) \<le> ch_capacity (es_events t) \<and> 0 < ch_capacity (es_events t)"
      using t c broker_inv_sub [OF inv s(1)] broker_inv_sub [OF inv, of j t]
      by (cases "j = i") (auto simp: b')
  qed
qed

section \<open>What a subscriber sees\<close>

definition subscription_queue :: "nat \<Rightarrow> 'e broker \<Rightarrow> 'e list" where
  "subscription_queue i b = (case br_subscriptions b i of None \<Rightarrow> [] | Some s \<Rightarrow> ch_queue (es_events s))"

definition subscription_room :: "nat \<Rightarrow> 'e broker \<Rightarrow> bool" where
  "subscription_room i b = (case br_subscriptions b i of None \<Rightarrow> False
     | Some s \<Rightarrow> length (ch_queue (es_events s)) < ch_capacity (es_events s))"

definition subscription_wants :: "('e \<Rightarrow> uuid) \<Rightarrow> nat \<Rightarrow> 'e broker \<Rightarrow> 'e \<Rightarrow> bool" where
  "subscription_wants key_of i b e = (case br_subscriptions b i of None \<Rightarrow> False | Some s \<Rightarrow> es_key s = key_of e)"

definition subscribed :: "nat \<Rightarrow> 'e broker \<Rightarrow> bool" where
  "subscribed i b \<longleftrightarrow> i \<in> br_subscribers b"

lemmas subscription_view = subscription_queue_def subscription_room_def subscription_wants_def subscribed_def

lemma broker_deliver_at:
  "broker_inv b \<Longrightarrow> br_subscriptions b i = Some s \<Longrightarrow>
   br_subscriptions (broker_deliver key e b) i = Some (if es_closed s then s else offer_event key e s) \<and>
   (i \<in> br_subscribers (broker_deliver key e b) \<longleftrightarrow> \<not> es_closed s \<and> \<not> es_closed (offer_event key e s))"
  using broker_inv_sub [of b i s] by (auto simp: broker_deliver_def Let_def)

interpretation broker_feed: lossy_subscriber "\<lambda>e. broker_deliver (key_of e) e" "broker_receive i"
  "subscription_queue i" "subscribed i" "subscription_room i" "subscription_wants key_of i" broker_inv
  for key_of :: "'e \<Rightarrow> uuid" and i
proof unfold_locales
  fix b :: "'e broker" and e b' assume inv: "broker_inv b"
  show "broker_inv (broker_deliver (key_of e) e b)" using inv by (rule broker_deliver_inv)
  show "broker_receive i b = Some (e, b') \<Longrightarrow> broker_inv b'" using inv by (rule broker_receive_inv)
  show "broker_receive i b = None \<longleftrightarrow> subscription_queue i b = []"
    by (auto simp: broker_receive_def chan_poll_def subscription_view split: option.splits list.splits)
  show "broker_receive i b = Some (e, b') \<Longrightarrow> subscription_queue i b = e # subscription_queue i b' \<and>
      subscribed i b' = subscribed i b \<and>
      (subscribed i b \<longrightarrow> subscription_wants key_of i b' = subscription_wants key_of i b)"
    by (auto simp: broker_receive_def chan_poll_def subscription_view fun_eq_iff split: option.splits list.splits)
  note sub = broker_inv_sub [OF inv, of i] and at = broker_deliver_at [OF inv, of i _ "key_of e" e]
  show "subscribed i b \<Longrightarrow> subscription_wants key_of i b e \<Longrightarrow> subscription_room i b \<Longrightarrow>
      subscribed i (broker_deliver (key_of e) e b) \<and>
      subscription_queue i (broker_deliver (key_of e) e b) = subscription_queue i b @ [e]"
    using sub at by (auto simp: subscription_view offer_event_def chan_offer_def split: option.splits)
  show "subscribed i b \<Longrightarrow> subscription_wants key_of i b e \<Longrightarrow> \<not> subscription_room i b \<Longrightarrow>
      \<not> subscribed i (broker_deliver (key_of e) e b) \<and>
      subscription_queue i (broker_deliver (key_of e) e b) = subscription_queue i b"
    using sub at
    by (auto simp: subscription_view offer_event_def chan_offer_def close_subscription_def chan_close_def
        split: option.splits)
  show "\<not> subscribed i b \<or> \<not> subscription_wants key_of i b e \<Longrightarrow>
      subscribed i (broker_deliver (key_of e) e b) = subscribed i b \<and>
      subscription_queue i (broker_deliver (key_of e) e b) = subscription_queue i b"
    using sub at broker_inv_subscriber [OF inv, of i]
    by (cases "br_subscriptions b i") (auto simp: subscription_view offer_event_def broker_deliver_def Let_def)
  show "subscribed i b \<Longrightarrow> subscribed i (broker_deliver (key_of e) e b) \<Longrightarrow>
      subscription_wants key_of i (broker_deliver (key_of e) e b) = subscription_wants key_of i b"
    using sub at broker_inv_subscriber [OF inv, of i]
    by (auto simp: subscription_view offer_event_def close_subscription_def fun_eq_iff split: option.splits)
qed

end
