(* ===== verification/Logger_Model.thy ===== *)
theory Logger_Model
  imports Tag_Value
begin

text \<open>
  The data logger's model and its validation: \<open>internal/datalogger/model.go\<close>, the input side of
  \<open>service.go\<close> (\<open>normalizeLogger\<close>, \<open>normalizeConfig\<close>, \<open>normalizeTimes\<close>,
  \<open>normalizeWeekdays\<close>) and \<open>query.go\<close>. A configuration is the struct its JSON decodes to. The
  time zone database is an argument: \<open>load_location\<close> yields the offset from UTC in force at
  every instant.
\<close>

datatype logger_mode = ModeInterval | ModeSchedule | ModeOther string
datatype schedule_unit = ScheduleMinute | ScheduleHour | ScheduleDay | ScheduleWeek | ScheduleOther string

definition default_interval_seconds :: int where "default_interval_seconds = 60"
definition max_interval_seconds :: int where "max_interval_seconds = 9223372036"
definition max_schedule_every :: int where "max_schedule_every = 2562047"

lemma max_interval_seconds_is: "max_interval_seconds = (2 ^ 63 - 1) div second"
  by (simp add: max_interval_seconds_def second_def)

lemma max_schedule_every_is: "max_schedule_every = max_interval_seconds div 3600"
  by (simp add: max_schedule_every_def max_interval_seconds_def)

datatype logger_error =
    ErrInvalidInput | ErrLoggerNotFound | ErrInvalidQuery | ErrRawTagNotSelected
  | ErrHistoryRepositoryRequired | ErrInvalidIntervalLogger | ErrIntervalLoggerDisabled
  | ErrInvalidCalendarLogger | ErrCalendarLoggerDisabled | ErrLoggerRepository string

record schedule_config =
  sc_unit :: schedule_unit
  sc_every :: int
  sc_times :: "string list"
  sc_weekdays :: "int list"

text \<open>
  No JSON text at all, text that is not an object of the mode's struct, and the two structs.
  The interval is \<open>None\<close> where the object does not set it.
\<close>

datatype logger_config =
    EmptyConfig
  | MalformedLoggerConfig
  | IntervalConfig "int option"
  | ScheduleConfig schedule_config

record location =
  loc_name :: string
  loc_offset :: "gotime \<Rightarrow> duration"

type_synonym locations = "string \<Rightarrow> location option"

record tag_reference =
  ref_id :: uuid
  ref_data_type :: data_type

record logger =
  lg_id :: uuid
  lg_name :: string
  lg_description :: "string option"
  lg_enabled :: bool
  lg_timezone :: string
  lg_mode :: logger_mode
  lg_start_at :: gotime
  lg_end_at :: "gotime option"
  lg_max_size_bytes :: "int option"
  lg_max_age_seconds :: "int option"
  lg_config :: logger_config
  lg_tags :: "tag_reference list"

definition valid_mode :: "logger_mode \<Rightarrow> bool" where
  "valid_mode m \<longleftrightarrow> m = ModeInterval \<or> m = ModeSchedule"

definition valid_schedule_unit :: "schedule_unit \<Rightarrow> bool" where
  "valid_schedule_unit u \<longleftrightarrow> u = ScheduleMinute \<or> u = ScheduleHour \<or> u = ScheduleDay \<or> u = ScheduleWeek"

section \<open>Times of day and weekdays\<close>

text \<open>
  \<open>time.Parse("15:04", v)\<close> with \<open>Format\<close> giving \<open>v\<close> back: two digits each, hour and minute in
  range.
\<close>

definition digit_value :: "char \<Rightarrow> int" where
  "digit_value c = int (of_char c) - 48"

definition parse_clock :: "string \<Rightarrow> (int \<times> int) option" where
  "parse_clock s =
     (case s of
        [a, b, c, d, e] \<Rightarrow>
          if c = CHR '':'' \<and> is_digit a \<and> is_digit b \<and> is_digit d \<and> is_digit e \<and>
             10 * digit_value a + digit_value b < 24 \<and> 10 * digit_value d + digit_value e < 60
          then Some (10 * digit_value a + digit_value b, 10 * digit_value d + digit_value e)
          else None
      | _ \<Rightarrow> None)"

text \<open>The order of Go strings: bytewise.\<close>

fun string_le :: "string \<Rightarrow> string \<Rightarrow> bool" where
  "string_le [] t = True"
| "string_le (a # s) [] = False"
| "string_le (a # s) (b # t) =
     ((of_char a :: nat) < of_char b \<or> a = b \<and> string_le s t)"

fun insert_string :: "string \<Rightarrow> string list \<Rightarrow> string list" where
  "insert_string x [] = [x]"
| "insert_string x (y # ys) = (if string_le x y then x # y # ys else y # insert_string x ys)"

definition sort_strings :: "string list \<Rightarrow> string list" where
  "sort_strings xs = foldr insert_string xs []"

definition check_time :: "string \<Rightarrow> string list \<Rightarrow> logger_error + string list" where
  "check_time raw normalized =
     (let value = trim_space raw
      in if parse_clock value = None then Inl ErrInvalidInput
         else if value \<in> set normalized then Inl ErrInvalidInput
         else Inr (normalized @ [value]))"

definition normalize_times :: "string list \<Rightarrow> logger_error + string list" where
  "normalize_times vs = bindE (foldE check_time vs []) (\<lambda>normalized. Inr (sort_strings normalized))"

definition check_weekday :: "int \<Rightarrow> int list \<Rightarrow> logger_error + int list" where
  "check_weekday value normalized =
     (if value < 1 \<or> value > 7 then Inl ErrInvalidInput
      else if value \<in> set normalized then Inl ErrInvalidInput
      else Inr (normalized @ [value]))"

definition normalize_weekdays :: "int list \<Rightarrow> logger_error + int list" where
  "normalize_weekdays vs = bindE (foldE check_weekday vs []) (\<lambda>normalized. Inr (sort normalized))"

section \<open>Configurations\<close>

definition normalize_interval_config :: "logger_config \<Rightarrow> logger_error + int" where
  "normalize_interval_config raw =
     bindE (case raw of
         EmptyConfig \<Rightarrow> Inr default_interval_seconds
       | IntervalConfig None \<Rightarrow> Inr default_interval_seconds
       | IntervalConfig (Some n) \<Rightarrow> Inr n
       | _ \<Rightarrow> Inl ErrInvalidInput)
       (\<lambda>n. if n \<le> 0 \<or> n > max_interval_seconds then Inl ErrInvalidInput else Inr n)"

definition schedule_shape_ok :: "schedule_unit \<Rightarrow> string list \<Rightarrow> int list \<Rightarrow> bool" where
  "schedule_shape_ok unit ts ws =
     (case unit of
        ScheduleMinute \<Rightarrow> ts = [] \<and> ws = []
      | ScheduleHour \<Rightarrow> ts = [] \<and> ws = []
      | ScheduleDay \<Rightarrow> ts \<noteq> [] \<and> ws = []
      | ScheduleWeek \<Rightarrow> ts \<noteq> [] \<and> ws \<noteq> []
      | ScheduleOther s \<Rightarrow> True)"

definition normalize_schedule_config :: "logger_config \<Rightarrow> logger_error + schedule_config" where
  "normalize_schedule_config raw =
     (case raw of
        ScheduleConfig c \<Rightarrow>
          let every = (if sc_every c = 0 then 1 else sc_every c)
          in if every < 1 \<or> every > max_schedule_every \<or> \<not> valid_schedule_unit (sc_unit c)
             then Inl ErrInvalidInput
             else bindE (normalize_times (sc_times c)) (\<lambda>times.
                  bindE (normalize_weekdays (sc_weekdays c)) (\<lambda>weekdays.
                    if schedule_shape_ok (sc_unit c) times weekdays
                    then Inr \<lparr>sc_unit = sc_unit c, sc_every = every, sc_times = times, sc_weekdays = weekdays\<rparr>
                    else Inl ErrInvalidInput))
      | _ \<Rightarrow> Inl ErrInvalidInput)"

definition normalize_logger_config :: "logger_mode \<Rightarrow> logger_config \<Rightarrow> logger_error + logger_config" where
  "normalize_logger_config mode raw =
     (case mode of
        ModeInterval \<Rightarrow> bindE (normalize_interval_config raw) (\<lambda>n. Inr (IntervalConfig (Some n)))
      | ModeSchedule \<Rightarrow> bindE (normalize_schedule_config raw) (\<lambda>c. Inr (ScheduleConfig c))
      | ModeOther s \<Rightarrow> Inl ErrInvalidInput)"

section \<open>Loggers\<close>

definition outside :: "int \<Rightarrow> int \<Rightarrow> int option \<Rightarrow> bool" where
  "outside lo hi v = (case v of None \<Rightarrow> False | Some n \<Rightarrow> n < lo \<or> n > hi)"

definition ends_early :: "gotime \<Rightarrow> gotime option \<Rightarrow> bool" where
  "ends_early start end_at = (case end_at of None \<Rightarrow> False | Some e \<Rightarrow> \<not> e > start)"

definition check_selected_tag :: "uuid \<Rightarrow> uuid list \<Rightarrow> logger_error + uuid list" where
  "check_selected_tag t normalized =
     (if t = uuid_nil then Inl ErrInvalidInput
      else if t \<in> set normalized then Inl ErrInvalidInput
      else Inr (normalized @ [t]))"

text \<open>\<open>normalizeLogger\<close>: the entity it leaves behind and the selected tags.\<close>

definition normalize_logger ::
  "locations \<Rightarrow> logger \<Rightarrow> uuid list \<Rightarrow> logger_error + logger \<times> uuid list" where
  "normalize_logger load_location lg tags =
     (let name = trim_space (lg_name lg); timezone = trim_space (lg_timezone lg)
      in if name = [] \<or> length name > 100 \<or> \<not> valid_mode (lg_mode lg) \<or> lg_start_at lg = 0
         then Inl ErrInvalidInput
         else case load_location timezone of
           None \<Rightarrow> Inl ErrInvalidInput
         | Some location \<Rightarrow>
             if timezone = [] then Inl ErrInvalidInput
             else if ends_early (lg_start_at lg) (lg_end_at lg) then Inl ErrInvalidInput
             else if outside (2 ^ 20) (2 ^ 40) (lg_max_size_bytes lg) then Inl ErrInvalidInput
             else if outside 1 (10 * 365 * 24 * 60 * 60) (lg_max_age_seconds lg) then Inl ErrInvalidInput
             else bindE (normalize_logger_config (lg_mode lg) (lg_config lg)) (\<lambda>config.
               if tags = [] then Inl ErrInvalidInput
               else bindE (foldE check_selected_tag tags []) (\<lambda>tags'.
                 Inr (lg\<lparr>lg_name := name, lg_description := normalize_tag_description (lg_description lg),
                        lg_timezone := loc_name location, lg_config := config\<rparr>, tags'))))"

section \<open>Normal forms\<close>

lemma set_insert_string [simp]: "set (insert_string x ys) = insert x (set ys)"
  by (induction ys) auto

lemma string_le_linear: "string_le s t \<or> string_le t s"
proof (induction s t rule: string_le.induct)
  case (3 a s b t)
  then show ?case using linorder_less_linear [of "of_char a :: nat" "of_char b"] by auto
qed auto

lemma string_le_trans: "string_le s t \<Longrightarrow> string_le t u \<Longrightarrow> string_le s u"
proof (induction s t arbitrary: u rule: string_le.induct)
  case (3 a s b t)
  then show ?case by (cases u) auto
qed auto

fun string_sorted :: "string list \<Rightarrow> bool" where
  "string_sorted [] = True"
| "string_sorted (x # xs) = ((\<forall>y \<in> set xs. string_le x y) \<and> string_sorted xs)"

lemma insert_string_sorted: "string_sorted ys \<Longrightarrow> string_sorted (insert_string x ys)"
proof (induction ys)
  case (Cons y ys)
  then show ?case using string_le_linear [of x y] string_le_trans [of x y] by auto
qed simp

lemma sort_strings_sorted: "string_sorted (sort_strings xs)"
  by (induction xs) (simp_all add: sort_strings_def insert_string_sorted)

lemma set_sort_strings [simp]: "set (sort_strings xs) = set xs"
  by (induction xs) (simp_all add: sort_strings_def)

lemma insert_string_head: "\<forall>y \<in> set ys. string_le x y \<Longrightarrow> insert_string x ys = x # ys"
  by (cases ys) simp_all

lemma sort_strings_id: "string_sorted xs \<Longrightarrow> sort_strings xs = xs"
  by (induction xs) (simp_all add: sort_strings_def insert_string_head)

lemma length_insert_string [simp]: "length (insert_string x ys) = Suc (length ys)"
  by (induction ys) simp_all

lemma length_sort_strings [simp]: "length (sort_strings xs) = length xs"
  by (induction xs) (simp_all add: sort_strings_def)

lemma distinct_sort_strings [simp]: "distinct (sort_strings xs) = distinct xs"
  by (metis card_distinct distinct_card length_sort_strings set_sort_strings)

text \<open>A parsed clock time is five visible characters, so trimming leaves it as it is.\<close>

lemma digit_char_range: "is_digit c \<Longrightarrow> (48::nat) \<le> of_char c \<and> (of_char c :: nat) \<le> 57"
  by (simp add: is_digit_def byte_of_def)

lemma digit_value_nonneg: "is_digit c \<Longrightarrow> 0 \<le> digit_value c"
  using digit_char_range [of c] by (simp add: digit_value_def)

lemma parse_clock_trim: "parse_clock s = Some hm \<Longrightarrow> trim_space s = s"
proof -
  assume p: "parse_clock s = Some hm"
  then obtain a b d e where s: "s = [a, b, CHR '':'', d, e]" and d: "is_digit a" "is_digit e"
    by (auto simp: parse_clock_def split: list.splits if_splits)
  then show ?thesis using digit_char_range [OF d(1)] digit_char_range [OF d(2)]
    by (intro trim_space_plain) (simp_all add: plain_char_ascii)
qed

lemma parse_clock_range:
  "parse_clock s = Some (h, m) \<Longrightarrow> 0 \<le> h \<and> h < 24 \<and> 0 \<le> m \<and> m < 60"
  by (auto simp: parse_clock_def digit_value_nonneg split: list.splits if_splits)

definition times_ok :: "string list \<Rightarrow> bool" where
  "times_ok ts \<longleftrightarrow> string_sorted ts \<and> distinct ts \<and> (\<forall>t \<in> set ts. parse_clock t \<noteq> None)"

definition weekdays_ok :: "int list \<Rightarrow> bool" where
  "weekdays_ok ws \<longleftrightarrow> sorted ws \<and> distinct ws \<and> (\<forall>w \<in> set ws. 1 \<le> w \<and> w \<le> 7)"

lemma foldE_check_time:
  "foldE check_time vs acc = Inr ts \<Longrightarrow> distinct acc \<Longrightarrow> \<forall>t \<in> set acc. parse_clock t \<noteq> None \<Longrightarrow>
   distinct ts \<and> (\<forall>t \<in> set ts. parse_clock t \<noteq> None)"
  by (erule foldE_invariant [where P = "\<lambda>ts. distinct ts \<and> (\<forall>t \<in> set ts. parse_clock t \<noteq> None)"])
    (auto simp: check_time_def Let_def split: if_splits)

lemma normalize_times_ok: "normalize_times vs = Inr ts \<Longrightarrow> times_ok ts"
  using foldE_check_time [of vs "[]"]
  by (auto simp: normalize_times_def bindE_Inr_iff times_ok_def sort_strings_sorted)

lemma foldE_check_time_id:
  "distinct (acc @ ts) \<Longrightarrow> \<forall>t \<in> set ts. parse_clock t \<noteq> None \<Longrightarrow> foldE check_time ts acc = Inr (acc @ ts)"
proof (induction ts arbitrary: acc)
  case (Cons t ts)
  then obtain hm where "parse_clock t = Some hm" by auto
  moreover note parse_clock_trim [OF this]
  ultimately have "check_time t acc = Inr (acc @ [t])" using Cons.prems by (simp add: check_time_def)
  then show ?case using Cons.IH [of "acc @ [t]"] Cons.prems by simp
qed simp

lemma normalize_times_id: "times_ok ts \<Longrightarrow> normalize_times ts = Inr ts"
  using foldE_check_time_id [of "[]" ts] by (simp add: normalize_times_def times_ok_def sort_strings_id)

lemma foldE_check_weekday:
  "foldE check_weekday vs [] = Inr ws \<Longrightarrow> distinct ws \<and> (\<forall>w \<in> set ws. 1 \<le> w \<and> w \<le> 7)"
  by (erule foldE_invariant [where P = "\<lambda>ws. distinct ws \<and> (\<forall>w \<in> set ws. 1 \<le> w \<and> w \<le> 7)"])
    (auto simp: check_weekday_def split: if_splits)

lemma normalize_weekdays_ok: "normalize_weekdays vs = Inr ws \<Longrightarrow> weekdays_ok ws"
  using foldE_check_weekday [of vs] by (auto simp: normalize_weekdays_def bindE_Inr_iff weekdays_ok_def)

lemma foldE_check_weekday_id:
  "distinct (acc @ ws) \<Longrightarrow> \<forall>w \<in> set ws. 1 \<le> w \<and> w \<le> 7 \<Longrightarrow> foldE check_weekday ws acc = Inr (acc @ ws)"
  by (induction ws arbitrary: acc) (simp_all add: check_weekday_def not_less)

lemma normalize_weekdays_id: "weekdays_ok ws \<Longrightarrow> normalize_weekdays ws = Inr ws"
  using foldE_check_weekday_id [of "[]" ws]
  by (simp add: normalize_weekdays_def weekdays_ok_def sorted_sort_id)

definition schedule_config_ok :: "schedule_config \<Rightarrow> bool" where
  "schedule_config_ok c \<longleftrightarrow>
     1 \<le> sc_every c \<and> sc_every c \<le> max_schedule_every \<and> valid_schedule_unit (sc_unit c) \<and>
     times_ok (sc_times c) \<and> weekdays_ok (sc_weekdays c) \<and>
     schedule_shape_ok (sc_unit c) (sc_times c) (sc_weekdays c)"

lemma normalize_schedule_config_ok:
  "normalize_schedule_config raw = Inr c \<Longrightarrow> schedule_config_ok c"
  by (auto simp: normalize_schedule_config_def schedule_config_ok_def bindE_Inr_iff Let_def not_less
      dest: normalize_times_ok normalize_weekdays_ok split: logger_config.splits if_splits)

lemma normalize_schedule_config_id:
  "schedule_config_ok c \<Longrightarrow> normalize_schedule_config (ScheduleConfig c) = Inr c"
  by (simp add: normalize_schedule_config_def schedule_config_ok_def normalize_times_id
      normalize_weekdays_id Let_def not_less)

lemma normalize_interval_config_range:
  "normalize_interval_config raw = Inr n \<Longrightarrow> 1 \<le> n \<and> n \<le> max_interval_seconds"
  by (auto simp: normalize_interval_config_def bindE_Inr_iff split: if_splits)

lemma normalize_logger_config_idem:
  "normalize_logger_config mode raw = Inr c \<Longrightarrow> normalize_logger_config mode c = Inr c"
  by (cases mode)
    (auto simp: normalize_logger_config_def bindE_Inr_iff normalize_schedule_config_id
      dest!: normalize_schedule_config_ok normalize_interval_config_range,
     auto simp: normalize_interval_config_def)

lemma normalize_description_idem [simp]:
  "normalize_tag_description (normalize_tag_description d) = normalize_tag_description d"
  by (auto simp: normalize_tag_description_def Let_def split: option.splits)

lemma selected_tags_facts:
  "foldE check_selected_tag tags acc = Inr tags' \<Longrightarrow>
   tags' = acc @ tags \<and> (distinct acc \<longrightarrow> distinct (acc @ tags)) \<and> uuid_nil \<notin> set tags"
proof (induction tags arbitrary: acc)
  case (Cons t tags)
  then obtain mid where "check_selected_tag t acc = Inr mid" "foldE check_selected_tag tags mid = Inr tags'"
    unfolding foldE.simps bindE_Inr_iff by blast
  moreover from this(1) have "t \<noteq> uuid_nil" "t \<notin> set acc" "mid = acc @ [t]"
    unfolding check_selected_tag_def by (auto split: if_splits)
  ultimately show ?case using Cons.IH [of "acc @ [t]"] by auto
qed simp

definition logger_valid :: "logger \<Rightarrow> bool" where
  "logger_valid lg \<longleftrightarrow>
     lg_start_at lg \<noteq> 0 \<and> (\<forall>e. lg_end_at lg = Some e \<longrightarrow> lg_start_at lg < e) \<and>
     (case lg_mode lg of
        ModeInterval \<Rightarrow> \<exists>n. lg_config lg = IntervalConfig (Some n) \<and> 1 \<le> n \<and> n \<le> max_interval_seconds
      | ModeSchedule \<Rightarrow> \<exists>c. lg_config lg = ScheduleConfig c \<and> schedule_config_ok c
      | ModeOther s \<Rightarrow> False)"

definition locations_ok :: "locations \<Rightarrow> bool" where
  "locations_ok load_location \<longleftrightarrow> (\<forall>tz l. load_location tz = Some l \<longrightarrow>
     load_location (loc_name l) = Some l \<and> trim_space (loc_name l) = loc_name l \<and> loc_name l \<noteq> [])"

text \<open>
  A data logger is stored in normal form. What \<open>normalizeLogger\<close> accepts it accepts again
  unchanged (an update that sets nothing writes the same row), the selected tags are the given
  ones, distinct and none of them nil, and the row is valid: it ends after it starts and its
  configuration is a bounded interval or a schedule with sorted distinct times and weekdays. The
  time zone database is required to load a location by the name the location gives itself.
\<close>

theorem normalize_logger_idempotent:
  assumes "locations_ok load_location" and "normalize_logger load_location lg tags = Inr (lg', tags')"
  shows "normalize_logger load_location lg' tags' = Inr (lg', tags') \<and>
    tags' = tags \<and> distinct tags \<and> uuid_nil \<notin> set tags \<and> tags \<noteq> [] \<and> logger_valid lg'"
proof -
  obtain l config where l: "load_location (trim_space (lg_timezone lg)) = Some l"
    and config: "normalize_logger_config (lg_mode lg) (lg_config lg) = Inr config"
    and tags: "foldE check_selected_tag tags [] = Inr tags'" "tags \<noteq> []"
    and lg': "lg' = lg\<lparr>lg_name := trim_space (lg_name lg),
        lg_description := normalize_tag_description (lg_description lg),
        lg_timezone := loc_name l, lg_config := config\<rparr>"
    and ok: "trim_space (lg_name lg) \<noteq> []" "\<not> length (trim_space (lg_name lg)) > 100" "valid_mode (lg_mode lg)"
      "lg_start_at lg \<noteq> 0" "\<not> ends_early (lg_start_at lg) (lg_end_at lg)"
      "\<not> outside (2 ^ 20) (2 ^ 40) (lg_max_size_bytes lg)"
      "\<not> outside 1 (10 * 365 * 24 * 60 * 60) (lg_max_age_seconds lg)"
    using assms(2) by (auto simp: normalize_logger_def bindE_Inr_iff Let_def split: if_splits option.splits)
  note ln = assms(1) [unfolded locations_ok_def, rule_format, OF l]
  have same: "tags' = tags" "distinct tags" "uuid_nil \<notin> set tags"
    using selected_tags_facts [OF tags(1)] by auto
  have "normalize_logger load_location lg' tags' = Inr (lg', tags')"
    using ln ok tags same normalize_logger_config_idem [OF config]
    by (simp add: normalize_logger_def lg' Let_def)
  moreover have "logger_valid lg'"
    using ok config normalize_interval_config_range normalize_schedule_config_ok
    by (auto simp: logger_valid_def lg' valid_mode_def normalize_logger_config_def ends_early_def bindE_Inr_iff
        split: option.splits)
  ultimately show ?thesis using same tags(2) by blast
qed

definition utc_location :: location where
  "utc_location = \<lparr>loc_name = ''UTC'', loc_offset = (\<lambda>t. 0)\<rparr>"

definition utc_only :: locations where
  "utc_only tz = (if tz = ''UTC'' then Some utc_location else None)"

lemma trim_utc [simp]: "trim_space ''UTC'' = ''UTC''"
  by (rule trim_space_plain; simp add: plain_char_ascii)

lemma utc_only_ok: "locations_ok utc_only"
  by (auto simp: locations_ok_def utc_only_def utc_location_def split: if_splits)

definition sample_logger :: logger where
  "sample_logger = \<lparr>lg_id = 1, lg_name = ''x'', lg_description = None, lg_enabled = True, lg_timezone = ''UTC'',
     lg_mode = ModeInterval, lg_start_at = 5, lg_end_at = Some 12000000005, lg_max_size_bytes = None,
     lg_max_age_seconds = None, lg_config = EmptyConfig, lg_tags = [\<lparr>ref_id = 7, ref_data_type = DTBool\<rparr>]\<rparr>"

theorem normalize_logger_idempotent_witness:
  "\<exists>lg'. normalize_logger utc_only sample_logger [7] = Inr (lg', [7]) \<and> logger_valid lg'"
proof -
  have name: "trim_space ''x'' = ''x''" by (rule trim_space_plain; simp add: plain_char_ascii)
  obtain lg' where n: "normalize_logger utc_only sample_logger [7] = Inr (lg', [7])"
    by (simp add: normalize_logger_def sample_logger_def name valid_mode_def utc_only_def outside_def ends_early_def
        normalize_logger_config_def normalize_interval_config_def default_interval_seconds_def
        max_interval_seconds_def check_selected_tag_def Let_def)
  then show ?thesis using normalize_logger_idempotent [OF utc_only_ok n] by blast
qed

end
