(* ===== verification/Logger_Schedule.thy ===== *)
theory Logger_Schedule
  imports Logger_Model "HOL-Library.Sublist"
begin

text \<open>
  When a data logger records: \<open>internal/datalogger/interval_scheduler.go\<close> and
  \<open>calendar_scheduler.go\<close>. The loops of \<open>Run\<close> take what the world does in one iteration from a
  list of ticks: how the wait ended, the clock after it, the snapshot of the tags and the outcome
  of the write. A date is the number of its day (day 0 is the Monday Go's zero time falls on), so
  \<open>AddDate\<close> on a UTC midnight is addition and \<open>time.Date\<close> in a location is Go's two lookups of
  the offset.
\<close>

section \<open>The interval grid\<close>

definition next_interval_run :: "gotime \<Rightarrow> duration \<Rightarrow> gotime \<Rightarrow> gotime" where
  "next_interval_run start_at interval now =
     (if \<not> now > start_at then start_at
      else let elapsed = time_sub now start_at;
               candidate = start_at + (elapsed sdiv interval) * interval
           in if candidate < now then candidate + interval else candidate)"

definition latest_interval_run :: "gotime \<Rightarrow> duration \<Rightarrow> gotime \<Rightarrow> gotime" where
  "latest_interval_run start_at interval now =
     (if \<not> now > start_at then start_at
      else start_at + (time_sub now start_at sdiv interval) * interval)"

section \<open>Samples of a batch\<close>

record snapshot_value =
  sv_observed_at :: gotime
  sv_data_type :: data_type
  sv_value :: gval
  sv_quality :: quality
  sv_error :: string

record raw_sample =
  rs_tag_id :: uuid
  rs_observed_at :: gotime
  rs_data_type :: data_type
  rs_value :: gval
  rs_quality :: quality
  rs_error :: string

record raw_batch =
  rb_logger_id :: uuid
  rb_batch_at :: gotime
  rb_samples :: "raw_sample list"

definition missing_snapshot_error :: string where
  "missing_snapshot_error = ''latest Tag value is unavailable''"
definition type_mismatch_error :: string where
  "type_mismatch_error = ''latest Tag value data type does not match''"
definition invalid_quality_error :: string where
  "invalid_quality_error = ''latest Tag value quality is invalid''"

definition bad_sample :: "tag_reference \<Rightarrow> gotime \<Rightarrow> gotime \<Rightarrow> string \<Rightarrow> raw_sample" where
  "bad_sample r observed batch_at message =
     \<lparr>rs_tag_id = ref_id r, rs_observed_at = (if observed = 0 then batch_at else observed),
      rs_data_type = ref_data_type r, rs_value = VNil, rs_quality = QualityBad, rs_error = message\<rparr>"

definition raw_sample_from_snapshot ::
  "tag_reference \<Rightarrow> snapshot_value option \<Rightarrow> gotime \<Rightarrow> raw_sample" where
  "raw_sample_from_snapshot r found batch_at =
     (case found of
        None \<Rightarrow> bad_sample r 0 batch_at missing_snapshot_error
      | Some v \<Rightarrow>
          if sv_observed_at v = 0 then bad_sample r 0 batch_at missing_snapshot_error
          else if sv_data_type v \<noteq> ref_data_type r
          then bad_sample r (sv_observed_at v) batch_at type_mismatch_error
          else case sv_quality v of
            QualityGood \<Rightarrow>
              \<lparr>rs_tag_id = ref_id r, rs_observed_at = sv_observed_at v, rs_data_type = ref_data_type r,
               rs_value = sv_value v, rs_quality = QualityGood, rs_error = []\<rparr>
          | QualityBad \<Rightarrow> bad_sample r (sv_observed_at v) batch_at
              (if sv_error v = [] then invalid_quality_error else sv_error v)
          | QualityOther s \<Rightarrow> bad_sample r (sv_observed_at v) batch_at invalid_quality_error)"

text \<open>\<open>captureLatestSnapshot\<close>: the batch it writes.\<close>

definition capture_batch :: "logger \<Rightarrow> (uuid \<rightharpoonup> snapshot_value) \<Rightarrow> gotime \<Rightarrow> raw_batch" where
  "capture_batch lg snapshot batch_at =
     \<lparr>rb_logger_id = lg_id lg, rb_batch_at = batch_at,
      rb_samples = map (\<lambda>r. raw_sample_from_snapshot r (snapshot (ref_id r)) batch_at) (lg_tags lg)\<rparr>"

section \<open>Validation before a run\<close>

definition tags_valid :: "logger \<Rightarrow> bool" where
  "tags_valid lg \<longleftrightarrow> (\<forall>r \<in> set (lg_tags lg). ref_id r \<noteq> uuid_nil \<and> valid_tag_data_type (ref_data_type r))"

definition validate_interval_logger :: "logger \<Rightarrow> logger_error + duration" where
  "validate_interval_logger lg =
     (if lg_id lg = uuid_nil \<or> lg_mode lg \<noteq> ModeInterval \<or> lg_start_at lg = 0 \<or> lg_tags lg = []
      then Inl ErrInvalidIntervalLogger
      else if \<not> lg_enabled lg then Inl ErrIntervalLoggerDisabled
      else if ends_early (lg_start_at lg) (lg_end_at lg) then Inl ErrInvalidIntervalLogger
      else case normalize_interval_config (lg_config lg) of
        Inl e \<Rightarrow> Inl ErrInvalidIntervalLogger
      | Inr seconds \<Rightarrow>
          if seconds < 1 \<or> seconds > max_interval_seconds then Inl ErrInvalidIntervalLogger
          else if \<not> tags_valid lg then Inl ErrInvalidIntervalLogger
          else Inr (seconds * second))"

section \<open>The interval loop\<close>

datatype write_outcome = WriteOk | WriteFailed | WriteCancelled

record tick =
  tk_wait :: bool
  tk_now :: gotime
  tk_snapshot :: "uuid \<rightharpoonup> snapshot_value"
  tk_write :: write_outcome

datatype run_outcome = RunEnded | RunCancelled | RunFailed logger_error | RunWaiting

datatype run_event = Captured raw_batch | CaptureFailed gotime

definition event_at :: "run_event \<Rightarrow> gotime" where
  "event_at e = (case e of Captured b \<Rightarrow> rb_batch_at b | CaptureFailed t \<Rightarrow> t)"

definition past_end :: "logger \<Rightarrow> gotime \<Rightarrow> bool" where
  "past_end lg t = (case lg_end_at lg of None \<Rightarrow> False | Some e \<Rightarrow> t > e)"

text \<open>
  \<open>Capture\<close>, with the context alive at its start: what it asks the history to write, after its
  own checks of the logger and the instant.
\<close>

definition capture_request ::
  "logger_error option \<Rightarrow> logger_error \<Rightarrow> logger \<Rightarrow> (uuid \<rightharpoonup> snapshot_value) \<Rightarrow> gotime \<Rightarrow> logger_error + raw_batch"
where
  "capture_request invalid invalid_instant lg snapshot batch_at =
     (case invalid of
        Some e \<Rightarrow> Inl e
      | None \<Rightarrow>
          if batch_at = 0 \<or> batch_at < lg_start_at lg \<or> past_end lg batch_at then Inl invalid_instant
          else Inr (capture_batch lg snapshot batch_at))"

text \<open>The end of one iteration: the event, or \<open>None\<close> when the context was cancelled.\<close>

definition capture_event ::
  "logger_error + raw_batch \<Rightarrow> gotime \<Rightarrow> write_outcome \<Rightarrow> run_event option" where
  "capture_event request batch_at outcome =
     (case request of
        Inl e \<Rightarrow> Some (CaptureFailed batch_at)
      | Inr batch \<Rightarrow>
          (case outcome of WriteOk \<Rightarrow> Some (Captured batch) | WriteFailed \<Rightarrow> Some (CaptureFailed batch_at)
           | WriteCancelled \<Rightarrow> None))"

text \<open>Recording the event and going on, or stopping where the context was cancelled.\<close>

definition after_capture ::
  "run_event option \<Rightarrow> run_event list \<times> run_outcome \<Rightarrow> run_event list \<times> run_outcome" where
  "after_capture captured rest =
     (case captured of None \<Rightarrow> ([], RunCancelled) | Some e \<Rightarrow> (e # fst rest, snd rest))"

definition interval_capture :: "logger \<Rightarrow> tick \<Rightarrow> gotime \<Rightarrow> run_event option" where
  "interval_capture lg k t =
     capture_event
       (capture_request (case validate_interval_logger lg of Inl e \<Rightarrow> Some e | Inr i \<Rightarrow> None)
          ErrInvalidIntervalLogger lg (tk_snapshot k) t) t (tk_write k)"

definition catch_up :: "gotime \<Rightarrow> duration \<Rightarrow> gotime \<Rightarrow> gotime \<Rightarrow> gotime" where
  "catch_up start_at interval now scheduled =
     (if now > scheduled
      then let latest = latest_interval_run start_at interval now
           in if latest > scheduled then latest else scheduled
      else scheduled)"

fun interval_loop ::
  "logger \<Rightarrow> duration \<Rightarrow> gotime \<Rightarrow> tick list \<Rightarrow> run_event list \<times> run_outcome" where
  "interval_loop lg interval scheduled ticks =
     (if past_end lg scheduled then ([], RunEnded)
      else case ticks of
        [] \<Rightarrow> ([], RunWaiting)
      | k # ks \<Rightarrow>
          if \<not> tk_wait k then ([], RunCancelled)
          else let t = catch_up (lg_start_at lg) interval (tk_now k) scheduled
               in if past_end lg t then ([], RunEnded)
                  else after_capture (interval_capture lg k t) (interval_loop lg interval (t + interval) ks))"

declare interval_loop.simps [simp del]

definition interval_run :: "logger \<Rightarrow> gotime \<Rightarrow> tick list \<Rightarrow> run_event list \<times> run_outcome" where
  "interval_run lg now0 ticks =
     (case validate_interval_logger lg of
        Inl e \<Rightarrow> ([], RunFailed e)
      | Inr interval \<Rightarrow>
          interval_loop lg interval (next_interval_run (lg_start_at lg) interval now0) ticks)"

section \<open>Calendar arithmetic\<close>

definition day :: duration where "day = 24 * hour"

definition local_time :: "location \<Rightarrow> gotime \<Rightarrow> int" where
  "local_time l t = t + loc_offset l t"

definition civil_date :: "location \<Rightarrow> gotime \<Rightarrow> int" where
  "civil_date l t = local_time l t div day"

text \<open>\<open>int(to.Sub(from) / (24 * time.Hour))\<close> for two UTC midnights.\<close>

definition civil_days_between :: "int \<Rightarrow> int \<Rightarrow> int" where
  "civil_days_between from_day to_day = time_sub (to_day * day) (from_day * day) sdiv day"

definition next_multiple :: "int \<Rightarrow> int \<Rightarrow> int" where
  "next_multiple value every =
     (let remainder = value smod every in if remainder = 0 then value else value + every - remainder)"

definition iso_weekday :: "int \<Rightarrow> int" where "iso_weekday date = date mod 7 + 1"

text \<open>\<open>time.Date\<close>: the offset is looked up as if the local time were UTC, then at that guess.\<close>

definition go_date :: "location \<Rightarrow> int \<Rightarrow> int \<times> int \<Rightarrow> gotime" where
  "go_date l date clock =
     (let unix = date * day + fst clock * hour + snd clock * minute; guess = loc_offset l unix
      in if guess \<noteq> 0 then unix - loc_offset l (unix - guess) else unix)"

definition same_local_minute :: "location \<Rightarrow> gotime \<Rightarrow> int \<Rightarrow> int \<times> int \<Rightarrow> bool" where
  "same_local_minute l candidate date clock \<longleftrightarrow>
     civil_date l candidate = date \<and>
     local_time l candidate mod day div hour = fst clock \<and>
     local_time l candidate mod hour div minute = snd clock"

text \<open>The loop over the alternatives, minute by minute from three hours before to three after.\<close>

definition alternative_offsets :: "int list" where "alternative_offsets = [-180..180]"

definition earliest_alternative :: "location \<Rightarrow> int \<Rightarrow> int \<times> int \<Rightarrow> gotime \<Rightarrow> int list \<Rightarrow> gotime" where
  "earliest_alternative l date clock candidate offsets =
     foldl (\<lambda>found offset.
         let alternative = candidate + offset * minute
         in if alternative < found \<and> same_local_minute l alternative date clock then alternative else found)
       candidate offsets"

definition resolve_local_occurrence :: "location \<Rightarrow> int \<Rightarrow> int \<times> int \<Rightarrow> gotime option" where
  "resolve_local_occurrence l date clock =
     (let candidate = go_date l date clock
      in if \<not> same_local_minute l candidate date clock then None
         else Some (earliest_alternative l date clock candidate alternative_offsets))"

section \<open>Calendar schedules\<close>

record calendar_definition =
  cd_config :: schedule_config
  cd_location :: location
  cd_times :: "(int \<times> int) list"

definition validate_calendar_logger :: "locations \<Rightarrow> logger \<Rightarrow> logger_error + calendar_definition" where
  "validate_calendar_logger load_location lg =
     (if lg_id lg = uuid_nil \<or> lg_mode lg \<noteq> ModeSchedule \<or> lg_start_at lg = 0 \<or> lg_tags lg = []
      then Inl ErrInvalidCalendarLogger
      else if \<not> lg_enabled lg then Inl ErrCalendarLoggerDisabled
      else if ends_early (lg_start_at lg) (lg_end_at lg) then Inl ErrInvalidCalendarLogger
      else case load_location (lg_timezone lg) of
        None \<Rightarrow> Inl ErrInvalidCalendarLogger
      | Some location \<Rightarrow>
          if lg_timezone lg = [] then Inl ErrInvalidCalendarLogger
          else case normalize_schedule_config (lg_config lg) of
            Inl e \<Rightarrow> Inl ErrInvalidCalendarLogger
          | Inr config \<Rightarrow>
              if sc_every config < 1 \<or> sc_every config > max_schedule_every then Inl ErrInvalidCalendarLogger
              else if \<exists>t \<in> set (sc_times config). parse_clock t = None then Inl ErrInvalidCalendarLogger
              else if \<not> tags_valid lg then Inl ErrInvalidCalendarLogger
              else Inr \<lparr>cd_config = config, cd_location = location,
                     cd_times = List.map_filter parse_clock (sc_times config)\<rparr>)"

text \<open>The first configured time of a date that is not before the start or the threshold.\<close>

definition first_on_date ::
  "location \<Rightarrow> (int \<times> int) list \<Rightarrow> gotime \<Rightarrow> gotime \<Rightarrow> int \<Rightarrow> gotime option" where
  "first_on_date l clocks start_at threshold date =
     List.find (\<lambda>t. \<not> t < start_at \<and> \<not> t < threshold)
       (List.map_filter (resolve_local_occurrence l date) clocks)"

fun first_some :: "('a \<Rightarrow> 'b option) \<Rightarrow> 'a list \<Rightarrow> 'b option" where
  "first_some f [] = None"
| "first_some f (x # xs) = (case f x of None \<Rightarrow> first_some f xs | Some y \<Rightarrow> Some y)"

fun daily_attempts ::
  "nat \<Rightarrow> (int \<Rightarrow> gotime option) \<Rightarrow> int \<Rightarrow> int \<Rightarrow> int \<Rightarrow> gotime option" where
  "daily_attempts 0 on_date start_date cycle every = None"
| "daily_attempts (Suc n) on_date start_date cycle every =
     (case on_date (start_date + cycle) of
        Some t \<Rightarrow> Some t
      | None \<Rightarrow> daily_attempts n on_date start_date (cycle + every) every)"

definition next_daily_run :: "gotime \<Rightarrow> gotime \<Rightarrow> calendar_definition \<Rightarrow> logger_error + gotime" where
  "next_daily_run start_at threshold d =
     (let l = cd_location d; every = sc_every (cd_config d);
          start_date = civil_date l start_at; target_date = civil_date l threshold;
          between = civil_days_between start_date target_date;
          days = (if between < 0 then 0 else between)
      in case daily_attempts 8 (first_on_date l (cd_times d) start_at threshold) start_date
                (next_multiple days every) every of
           None \<Rightarrow> Inl ErrInvalidCalendarLogger | Some t \<Rightarrow> Inr t)"

fun weekly_attempts ::
  "nat \<Rightarrow> (int \<Rightarrow> gotime option) \<Rightarrow> int list \<Rightarrow> int \<Rightarrow> int \<Rightarrow> int \<Rightarrow> gotime option" where
  "weekly_attempts 0 on_date weekdays start_week active every = None"
| "weekly_attempts (Suc n) on_date weekdays start_week active every =
     (case first_some (\<lambda>w. on_date (start_week + active * 7 + (w - 1))) weekdays of
        Some t \<Rightarrow> Some t
      | None \<Rightarrow> weekly_attempts n on_date weekdays start_week (active + every) every)"

definition next_weekly_run :: "gotime \<Rightarrow> gotime \<Rightarrow> calendar_definition \<Rightarrow> logger_error + gotime" where
  "next_weekly_run start_at threshold d =
     (let l = cd_location d; every = sc_every (cd_config d);
          start_date = civil_date l start_at;
          start_week = start_date + (1 - iso_weekday start_date);
          between = civil_days_between start_week (civil_date l threshold) sdiv 7;
          weeks = (if between < 0 then 0 else between)
      in case weekly_attempts 8 (first_on_date l (cd_times d) start_at threshold)
                (sort (sc_weekdays (cd_config d))) start_week (next_multiple weeks every) every of
           None \<Rightarrow> Inl ErrInvalidCalendarLogger | Some t \<Rightarrow> Inr t)"

text \<open>\<open>NextCalendarRun\<close>: \<open>None\<close> where it reports that no run is left.\<close>

definition next_calendar_run :: "locations \<Rightarrow> logger \<Rightarrow> gotime \<Rightarrow> logger_error + gotime option" where
  "next_calendar_run load_location lg threshold0 =
     bindE (validate_calendar_logger load_location lg) (\<lambda>d.
       let threshold = (if threshold0 < lg_start_at lg then lg_start_at lg else threshold0);
           every = sc_every (cd_config d)
       in bindE (case sc_unit (cd_config d) of
            ScheduleMinute \<Rightarrow> Inr (next_interval_run (lg_start_at lg) (every * minute) threshold)
          | ScheduleHour \<Rightarrow> Inr (next_interval_run (lg_start_at lg) (every * hour) threshold)
          | ScheduleDay \<Rightarrow> next_daily_run (lg_start_at lg) threshold d
          | ScheduleWeek \<Rightarrow> next_weekly_run (lg_start_at lg) threshold d
          | ScheduleOther s \<Rightarrow> Inl ErrInvalidCalendarLogger)
          (\<lambda>next. if next = 0 \<or> past_end lg next then Inr None else Inr (Some next)))"

section \<open>The calendar loop\<close>

definition lateness_tolerance :: duration where "lateness_tolerance = second"

definition calendar_capture :: "locations \<Rightarrow> logger \<Rightarrow> tick \<Rightarrow> gotime \<Rightarrow> run_event option" where
  "calendar_capture load_location lg k t =
     capture_event
       (capture_request (case validate_calendar_logger load_location lg of Inl e \<Rightarrow> Some e | Inr i \<Rightarrow> None)
          ErrInvalidCalendarLogger lg (tk_snapshot k) t) t (tk_write k)"

fun calendar_loop ::
  "locations \<Rightarrow> logger \<Rightarrow> gotime \<Rightarrow> tick list \<Rightarrow> run_event list \<times> run_outcome" where
  "calendar_loop load_location lg threshold ticks =
     (case next_calendar_run load_location lg threshold of
        Inl e \<Rightarrow> ([], RunFailed e)
      | Inr None \<Rightarrow> ([], RunEnded)
      | Inr (Some scheduled) \<Rightarrow>
          (case ticks of
             [] \<Rightarrow> ([], RunWaiting)
           | k # ks \<Rightarrow>
               if \<not> tk_wait k then ([], RunCancelled)
               else if time_sub (tk_now k) scheduled > lateness_tolerance
               then case next_calendar_run load_location lg (tk_now k) of
                  Inl e \<Rightarrow> ([], RunFailed e)
                | Inr None \<Rightarrow> ([], RunEnded)
                | Inr (Some current) \<Rightarrow>
                    if current \<noteq> tk_now k then calendar_loop load_location lg (tk_now k) ks
                    else after_capture (calendar_capture load_location lg k current)
                      (calendar_loop load_location lg (current + nanosecond) ks)
               else after_capture (calendar_capture load_location lg k scheduled)
                 (calendar_loop load_location lg (scheduled + nanosecond) ks)))"

declare calendar_loop.simps [simp del]

definition calendar_run :: "locations \<Rightarrow> logger \<Rightarrow> gotime \<Rightarrow> tick list \<Rightarrow> run_event list \<times> run_outcome" where
  "calendar_run load_location lg now0 ticks =
     (case validate_calendar_logger load_location lg of
        Inl e \<Rightarrow> ([], RunFailed e)
      | Inr d \<Rightarrow> calendar_loop load_location lg now0 ticks)"

section \<open>The grid of an interval\<close>

definition on_grid :: "gotime \<Rightarrow> duration \<Rightarrow> gotime \<Rightarrow> bool" where
  "on_grid start_at interval t \<longleftrightarrow> (\<exists>k \<ge> 0. t = start_at + k * interval)"

lemma on_grid_start [simp]: "on_grid s i s"
  by (auto simp: on_grid_def intro: exI [of _ 0])

lemma on_grid_add: "on_grid s i t \<Longrightarrow> on_grid s i (t + i)"
proof -
  assume "on_grid s i t"
  then obtain k where k: "k \<ge> 0" "t = s + k * i" by (auto simp: on_grid_def)
  then have "t + i = s + (k + 1) * i" by (simp add: algebra_simps)
  then show ?thesis using k(1) unfolding on_grid_def by (intro exI [of _ "k + 1"]) simp
qed

lemma on_grid_ge: "0 < i \<Longrightarrow> on_grid s i t \<Longrightarrow> s \<le> t"
  by (auto simp: on_grid_def)

text \<open>The last grid point that the (saturating) difference of the clock and the start reaches.\<close>

lemma time_sub_pos: "s < now \<Longrightarrow> 0 < time_sub now s"
  by (simp add: time_sub_def duration_units)

lemma grid_floor_on_grid: "0 < i \<Longrightarrow> s < now \<Longrightarrow> on_grid s i (s + (time_sub now s sdiv i) * i)"
  using time_sub_pos [of s now]
  by (auto simp: on_grid_def sdiv_nonneg pos_imp_zdiv_nonneg_iff intro!: exI [of _ "time_sub now s div i"])

lemma grid_floor:
  assumes "0 < i" and "s < now" and "now - s \<le> max_duration"
  shows "s + (time_sub now s sdiv i) * i \<le> now \<and> now < s + (time_sub now s sdiv i) * i + i"
proof -
  have "time_sub now s = now - s" using assms(2,3) by (simp add: time_sub_def duration_units)
  moreover have "(now - s) sdiv i = (now - s) div i" using assms by (intro sdiv_nonneg) simp_all
  moreover have "(now - s) div i * i = now - s - (now - s) mod i" by (simp add: minus_mod_eq_div_mult)
  moreover have "0 \<le> (now - s) mod i" "(now - s) mod i < i" using assms(1) by simp_all
  ultimately show ?thesis by simp
qed

lemma grid_gap:
  assumes "0 < i" and "on_grid s i a" and "on_grid s i b" and "a < b"
  shows "a + i \<le> b"
proof -
  obtain j k where jk: "a = s + j * i" "b = s + k * i" using assms(2,3) by (auto simp: on_grid_def)
  then have "j * i < k * i" using assms(4) by simp
  then have "j + 1 \<le> k" using assms(1) by simp
  then have "(j + 1) * i \<le> k * i" using assms(1) by (simp add: mult_right_mono)
  then show ?thesis by (simp add: jk algebra_simps)
qed

lemma next_interval_run_on_grid: "0 < i \<Longrightarrow> on_grid s i (next_interval_run s i now)"
  using grid_floor_on_grid [of i s now] on_grid_add by (simp add: next_interval_run_def Let_def)

lemma latest_interval_run_on_grid: "0 < i \<Longrightarrow> on_grid s i (latest_interval_run s i now)"
  using grid_floor_on_grid [of i s now] by (simp add: latest_interval_run_def)

lemma next_interval_run_ge:
  assumes "0 < i" and "now - s \<le> max_duration"
  shows "now \<le> next_interval_run s i now"
  using grid_floor [of i s now] assms by (auto simp: next_interval_run_def Let_def)

text \<open>
  The next run of an interval schedule is the least instant of the grid from \<open>start_at\<close> that is
  not before the clock, as long as the clock is at most the largest duration (292 years) after the
  start.
\<close>

theorem next_interval_run_least:
  assumes "0 < interval" and "now - start_at \<le> max_duration"
  shows "let r = next_interval_run start_at interval now
    in on_grid start_at interval r \<and> now \<le> r \<and> (\<forall>t. on_grid start_at interval t \<and> now \<le> t \<longrightarrow> r \<le> t)"
proof -
  let ?r = "next_interval_run start_at interval now"
  have "?r \<le> t" if t: "on_grid start_at interval t" "now \<le> t" for t
  proof (rule ccontr)
    assume "\<not> ?r \<le> t"
    then have "t + interval \<le> ?r"
      using grid_gap [OF assms(1) t(1) next_interval_run_on_grid [OF assms(1)]] by simp
    then show False
      using t(2) on_grid_ge [OF assms(1) t(1)] grid_floor [OF assms(1) _ assms(2)] assms(1)
      by (auto simp: next_interval_run_def Let_def split: if_splits)
  qed
  then show ?thesis using next_interval_run_on_grid [OF assms(1)] next_interval_run_ge [OF assms] by (simp add: Let_def)
qed

theorem next_interval_run_least_witness:
  "next_interval_run 5 10 26 = 35 \<and> on_grid 5 10 (35::int)"
proof -
  have r: "next_interval_run 5 10 26 = 35"
    by (simp add: next_interval_run_def time_sub_def duration_units sdiv_nonneg Let_def)
  show ?thesis using next_interval_run_least [of 10 26 5] r by (simp add: duration_units Let_def)
qed

text \<open>
  Beyond that range the difference saturates, and a logger whose \<open>start_at\<close> lies more than 292
  years back (validation accepts any non-zero instant) is given a next run in the past.
\<close>

theorem next_interval_run_saturates:
  "next_interval_run 1 second (2 ^ 64) < 2 ^ 64 - hour"
  by (simp add: next_interval_run_def time_sub_def duration_units sdiv_nonneg Let_def)

section \<open>What an interval run records\<close>

lemma validate_interval_pos: "validate_interval_logger lg = Inr i \<Longrightarrow> 0 < i"
  by (auto simp: validate_interval_logger_def second_def split: if_splits sum.splits)

lemma catch_up_facts:
  assumes "0 < i" and "on_grid s i t"
  shows "on_grid s i (catch_up s i now t) \<and> t \<le> catch_up s i now t"
  using latest_interval_run_on_grid [OF assms(1)] assms(2) by (simp add: catch_up_def Let_def)

lemma catch_up_fresh:
  assumes "0 < i" and "on_grid s i t" and "now - s \<le> max_duration"
  shows "now - catch_up s i now t < i"
proof (cases "now > t")
  case True
  then have "s < now" using on_grid_ge [OF assms(1,2)] by simp
  then have "now < latest_interval_run s i now + i"
    using grid_floor [OF assms(1) _ assms(3)] by (simp add: latest_interval_run_def)
  then show ?thesis using True by (simp add: catch_up_def Let_def)
qed (use assms(1) in \<open>simp add: catch_up_def\<close>)

lemma capture_event_at: "capture_event (capture_request invalid err lg snap t) t w = Some e \<Longrightarrow> event_at e = t"
  by (auto simp: capture_event_def capture_request_def event_at_def capture_batch_def
      split: sum.splits option.splits if_splits write_outcome.splits)

lemma interval_capture_at: "interval_capture lg k t = Some e \<Longrightarrow> event_at e = t"
  by (auto simp: interval_capture_def dest: capture_event_at)

definition run_records :: "logger \<Rightarrow> (gotime \<Rightarrow> bool) \<Rightarrow> gotime \<Rightarrow> run_event list \<Rightarrow> bool" where
  "run_records lg allowed from es \<longleftrightarrow>
     sorted_wrt (<) (map event_at es) \<and>
     (\<forall>e \<in> set es. from \<le> event_at e \<and> allowed (event_at e) \<and> \<not> past_end lg (event_at e))"

lemma run_records_Nil [simp]: "run_records lg allowed from []"
  by (simp add: run_records_def)

lemma run_records_Cons:
  "from \<le> event_at e \<Longrightarrow> allowed (event_at e) \<Longrightarrow> \<not> past_end lg (event_at e) \<Longrightarrow>
   run_records lg allowed from' es \<Longrightarrow> event_at e < from' \<Longrightarrow> run_records lg allowed from (e # es)"
  by (force simp: run_records_def)

lemma run_records_mono: "run_records lg allowed from es \<Longrightarrow> from' \<le> from \<Longrightarrow> run_records lg allowed from' es"
  by (force simp: run_records_def)

text \<open>An iteration either ends the run or records one event and goes on.\<close>

lemma interval_loop_cases:
  obtains (stop) r where "interval_loop lg i t ks = ([], r)" "r = RunWaiting \<Longrightarrow> ks = [] \<and> \<not> past_end lg t"
  | (fires) k ks' u e es r where "ks = k # ks'" "u = catch_up (lg_start_at lg) i (tk_now k) t"
      "\<not> past_end lg u" "event_at e = u" "interval_loop lg i (u + i) ks' = (es, r)"
      "interval_loop lg i t ks = (e # es, r)"
proof (cases ks)
  case Nil
  then show thesis using stop by (cases "past_end lg t") (auto simp: interval_loop.simps [of lg i t])
next
  case (Cons k ks')
  let ?u = "catch_up (lg_start_at lg) i (tk_now k) t"
  show thesis
  proof (cases "past_end lg t \<or> \<not> tk_wait k \<or> past_end lg ?u")
    case True
    then have "interval_loop lg i t ks = ([], if past_end lg t \<or> tk_wait k then RunEnded else RunCancelled)"
      by (auto simp: interval_loop.simps [of lg i t] Cons Let_def)
    then show thesis by (rule stop) (simp split: if_splits)
  next
    case False
    show thesis
    proof (cases "interval_capture lg k ?u")
      case None
      then have "interval_loop lg i t ks = ([], RunCancelled)"
        using False by (simp add: interval_loop.simps [of lg i t] Cons after_capture_def Let_def)
      then show thesis using stop by blast
    next
      case (Some e)
      obtain es r where rest: "interval_loop lg i (?u + i) ks' = (es, r)" by fastforce
      then have "interval_loop lg i t ks = (e # es, r)"
        using False Some by (simp add: interval_loop.simps [of lg i t] Cons after_capture_def Let_def)
      then show thesis using fires Cons False interval_capture_at [OF Some] rest by blast
    qed
  qed
qed

lemma interval_loop_safe:
  assumes "0 < i" and "on_grid (lg_start_at lg) i t" and "interval_loop lg i t ks = (es, r)"
  shows "run_records lg (on_grid (lg_start_at lg) i) t es"
  using assms(2,3)
proof (induction ks arbitrary: t es r rule: length_induct)
  case (1 ks)
  show ?case
  proof (cases rule: interval_loop_cases [of lg i t ks])
    case (fires k ks' u e es' r')
    note u = catch_up_facts [OF assms(1) 1(2), of "tk_now k"]
    have "run_records lg (on_grid (lg_start_at lg) i) (u + i) es'"
      using 1(1) [rule_format, of ks' "u + i" es' r'] fires on_grid_add u by simp
    then have "run_records lg (on_grid (lg_start_at lg) i) t (e # es')"
      by (rule run_records_Cons [rotated 3]) (use fires u assms(1) in auto)
    then show ?thesis using fires 1(3) by simp
  qed (use 1(3) in simp)
qed

lemma interval_loop_fresh:
  assumes "0 < i" and "on_grid (lg_start_at lg) i t" and "interval_loop lg i t ks = (es, r)"
    and "\<forall>k \<in> set ks. tk_now k - lg_start_at lg \<le> max_duration"
  shows "length es \<le> length ks \<and> list_all2 (\<lambda>e k. tk_now k - event_at e < i) es (take (length es) ks)"
  using assms(2,3,4)
proof (induction ks arbitrary: t es r rule: length_induct)
  case (1 ks)
  show ?case
  proof (cases rule: interval_loop_cases [of lg i t ks])
    case (fires k ks' u e es' r')
    have "tk_now k - u < i"
      unfolding fires(2) by (rule catch_up_fresh [OF assms(1) 1(2)]) (use 1(4) fires in simp)
    moreover have "on_grid (lg_start_at lg) i (u + i)"
      using catch_up_facts [OF assms(1) 1(2)] on_grid_add fires(2) by blast
    then have "length es' \<le> length ks' \<and> list_all2 (\<lambda>e k. tk_now k - event_at e < i) es' (take (length es') ks')"
      using 1(1) [rule_format, of ks' "u + i" es' r'] 1(4) fires by simp
    moreover have "es = e # es'" using fires(6) 1(3) by simp
    ultimately show ?thesis using fires(1,4) by simp
  qed (use 1(3) in simp)
qed

text \<open>Every iteration moves the schedule on by an interval, so a bounded logger ends.\<close>

lemma interval_loop_ends:
  assumes "0 < i" and "lg_end_at lg = Some e" and "on_grid (lg_start_at lg) i t"
    and "interval_loop lg i t ks = (es, r)" and "e - t < int (length ks) * i"
  shows "r \<noteq> RunWaiting"
  using assms(3-)
proof (induction ks arbitrary: t es r rule: length_induct)
  case (1 ks)
  show ?case
  proof (cases rule: interval_loop_cases [of lg i t ks])
    case (stop r')
    then show ?thesis using 1(3,4) assms(2) by (auto simp: past_end_def)
  next
    case (fires k ks' u v es' r')
    note u = catch_up_facts [OF assms(1) 1(2), of "tk_now k", folded fires(2)]
    have "e - (u + i) < int (length ks') * i" using 1(4) u fires(1) by (simp add: algebra_simps)
    then show ?thesis using 1(1) [rule_format, of ks' "u + i" es' r'] 1(3) fires on_grid_add u by simp
  qed
qed

text \<open>
  C14: what an interval logger records. However late the timer fires and whatever fails, the
  instants of an interval run are on the grid from \<open>start_at\<close>, strictly increasing and within the
  logger's period, and a wake-up that comes late records the last instant that is due and no
  earlier one: the clock is less than one interval past the instant it records.
\<close>

theorem interval_run_records:
  assumes "interval_run lg now0 ticks = (es, r)" and "validate_interval_logger lg = Inr interval"
    and "\<forall>k \<in> set ticks. tk_now k - lg_start_at lg \<le> max_duration"
  shows "run_records lg (on_grid (lg_start_at lg) interval) (lg_start_at lg) es \<and>
    list_all2 (\<lambda>e k. tk_now k - event_at e < interval) es (take (length es) ticks)"
proof -
  let ?t = "next_interval_run (lg_start_at lg) interval now0"
  note pos = validate_interval_pos [OF assms(2)]
  have loop: "interval_loop lg interval ?t ticks = (es, r)"
    using assms(1,2) by (simp add: interval_run_def)
  note g = next_interval_run_on_grid [OF pos, of "lg_start_at lg" now0]
  show ?thesis
    using run_records_mono [OF interval_loop_safe [OF pos g loop]] on_grid_ge [OF pos g]
      interval_loop_fresh [OF pos g loop assms(3)] by simp
qed

text \<open>
  C15: an interval logger with an end stops. Once it has woken up more often than there are
  instants between the start and the end, its run has returned.
\<close>

theorem interval_run_ends:
  assumes "validate_interval_logger lg = Inr interval" and "lg_end_at lg = Some e"
    and "(e - lg_start_at lg) div interval < int (length ticks)"
  shows "snd (interval_run lg now0 ticks) \<noteq> RunWaiting"
proof -
  let ?t = "next_interval_run (lg_start_at lg) interval now0"
  note pos = validate_interval_pos [OF assms(1)]
  note g = next_interval_run_on_grid [OF pos, of "lg_start_at lg" now0]
  obtain es r where loop: "interval_loop lg interval ?t ticks = (es, r)" by fastforce
  have "e - lg_start_at lg < ((e - lg_start_at lg) div interval + 1) * interval"
    using pos pos_mod_bound [OF pos, of "e - lg_start_at lg"] div_mult_mod_eq [of "e - lg_start_at lg" interval]
    unfolding distrib_right mult_1 by linarith
  also have "\<dots> \<le> int (length ticks) * interval" using assms(3) pos by (simp add: mult_right_mono)
  finally have "e - ?t < int (length ticks) * interval" using on_grid_ge [OF pos g] by simp
  from interval_loop_ends [OF pos assms(2) g loop this] show ?thesis
    using assms(1) loop by (simp add: interval_run_def)
qed

definition sample_tick :: "gotime \<Rightarrow> tick" where
  "sample_tick now = \<lparr>tk_wait = True, tk_now = now, tk_snapshot = Map.empty, tk_write = WriteOk\<rparr>"

definition minute_logger :: logger where
  "minute_logger = sample_logger\<lparr>lg_config := IntervalConfig (Some 6)\<rparr>"

lemma minute_logger_valid: "validate_interval_logger minute_logger = Inr (6 * second)"
  by (simp add: validate_interval_logger_def minute_logger_def sample_logger_def ends_early_def
      normalize_interval_config_def max_interval_seconds_def tags_valid_def)

lemma minute_logger_fields:
  "lg_start_at minute_logger = 5" "lg_end_at minute_logger = Some 12000000005"
  by (simp_all add: minute_logger_def sample_logger_def)

lemma minute_logger_run:
  "\<exists>e f. interval_run minute_logger 5 [sample_tick 5, sample_tick 12000000006, sample_tick 7, sample_tick 8]
     = ([e, f], RunEnded) \<and> event_at e = 5 \<and> event_at f = 12000000005"
  by (simp add: interval_run_def minute_logger_valid minute_logger_fields next_interval_run_def
      interval_loop.simps sample_tick_def past_end_def catch_up_def latest_interval_run_def time_sub_def
      duration_units sdiv_nonneg interval_capture_def capture_request_def capture_event_def event_at_def after_capture_def
      capture_batch_def Let_def)

theorem interval_run_records_witness:
  "\<exists>es. interval_run minute_logger 5 [sample_tick 5, sample_tick 12000000006, sample_tick 7, sample_tick 8]
     = (es, RunEnded) \<and> map event_at es = [5, 12000000005] \<and>
     run_records minute_logger (on_grid 5 (6 * second)) 5 es"
proof -
  obtain e f where r: "interval_run minute_logger 5 [sample_tick 5, sample_tick 12000000006, sample_tick 7, sample_tick 8]
     = ([e, f], RunEnded)" "event_at e = 5" "event_at f = 12000000005"
    using minute_logger_run by blast
  have "run_records minute_logger (on_grid (lg_start_at minute_logger) (6 * second))
      (lg_start_at minute_logger) [e, f]"
    using interval_run_records [OF r(1) minute_logger_valid]
    by (simp add: minute_logger_fields sample_tick_def duration_units)
  then show ?thesis using r by (auto simp: minute_logger_fields)
qed

theorem interval_run_ends_witness:
  "snd (interval_run minute_logger 5 (replicate 3 (sample_tick 5))) \<noteq> RunWaiting"
  by (rule interval_run_ends [OF minute_logger_valid minute_logger_fields(2)])
    (simp add: minute_logger_fields duration_units)

section \<open>What a calendar schedule allows\<close>

definition occurrence :: "calendar_definition \<Rightarrow> gotime \<Rightarrow> gotime \<Rightarrow> bool" where
  "occurrence d start_at t \<longleftrightarrow>
     (let l = cd_location d; every = sc_every (cd_config d); start_date = civil_date l start_at
      in case sc_unit (cd_config d) of
           ScheduleMinute \<Rightarrow> on_grid start_at (every * minute) t
         | ScheduleHour \<Rightarrow> on_grid start_at (every * hour) t
         | ScheduleDay \<Rightarrow> \<exists>k \<ge> 0. \<exists>clock \<in> set (cd_times d). same_local_minute l t (start_date + k * every) clock
         | ScheduleWeek \<Rightarrow> \<exists>k \<ge> 0. \<exists>w \<in> set (sc_weekdays (cd_config d)). \<exists>clock \<in> set (cd_times d).
             same_local_minute l t (start_date + (1 - iso_weekday start_date) + 7 * (k * every) + (w - 1)) clock
         | ScheduleOther s \<Rightarrow> False)"

lemma next_multiple_facts:
  assumes "0 \<le> value" and "1 \<le> every"
  shows "value \<le> next_multiple value every \<and> next_multiple value every < value + every \<and>
    (\<exists>k \<ge> 0. next_multiple value every = k * every)"
proof -
  have m: "value smod every = value mod every" using assms by (intro smod_nonneg) simp_all
  have b: "0 \<le> value mod every" "value mod every < every" using assms by simp_all
  have d: "value = value div every * every + value mod every" by simp
  have k: "0 \<le> value div every" using assms by (simp add: pos_imp_zdiv_nonneg_iff)
  show ?thesis
  proof (cases "value mod every = 0")
    case True
    then show ?thesis using m assms d k by (auto simp: next_multiple_def intro!: exI [of _ "value div every"])
  next
    case False
    then have "next_multiple value every = (value div every + 1) * every"
      using m d by (simp add: next_multiple_def Let_def algebra_simps)
    then show ?thesis using b False d k by (auto simp: next_multiple_def Let_def m intro!: exI [of _ "value div every + 1"])
  qed
qed

lemma foldl_choice: "(\<And>a x. P a \<Longrightarrow> P (f a x)) \<Longrightarrow> P a \<Longrightarrow> P (foldl f a xs)"
  by (induction xs arbitrary: a) auto

lemma earliest_alternative_same:
  "same_local_minute l candidate date clock \<Longrightarrow>
   same_local_minute l (earliest_alternative l date clock candidate offsets) date clock"
  unfolding earliest_alternative_def
  by (rule foldl_choice [where P = "\<lambda>t. same_local_minute l t date clock"]) (auto simp: Let_def)

lemma resolve_same_minute:
  "resolve_local_occurrence l date clock = Some t \<Longrightarrow> same_local_minute l t date clock"
  by (simp add: resolve_local_occurrence_def Let_def split: if_splits)
    (metis earliest_alternative_same)

lemma first_on_date_sound:
  assumes "first_on_date l clocks start_at threshold date = Some t"
  shows "start_at \<le> t \<and> threshold \<le> t \<and> (\<exists>clock \<in> set clocks. same_local_minute l t date clock)"
proof -
  have "t \<in> set (List.map_filter (resolve_local_occurrence l date) clocks)" "\<not> t < start_at" "\<not> t < threshold"
    using assms by (auto simp: first_on_date_def find_Some_iff)
  then show ?thesis using resolve_same_minute by (fastforce simp: List.map_filter_def)
qed

lemma daily_attempts_sound:
  "daily_attempts n on_date start_date cycle every = Some t \<Longrightarrow>
   \<exists>j < n. on_date (start_date + cycle + int j * every) = Some t"
proof (induction n arbitrary: cycle)
  case (Suc n)
  show ?case
  proof (cases "on_date (start_date + cycle)")
    case None
    then obtain j where "j < n" "on_date (start_date + (cycle + every) + int j * every) = Some t"
      using Suc by auto
    then show ?thesis by (intro exI [of _ "Suc j"]) (simp add: algebra_simps)
  qed (use Suc in auto)
qed simp

lemma first_some_Some: "first_some f xs = Some y \<Longrightarrow> \<exists>x \<in> set xs. f x = Some y"
  by (induction xs) (auto split: option.splits)

lemma weekly_attempts_sound:
  "weekly_attempts n on_date weekdays start_week active every = Some t \<Longrightarrow>
   \<exists>j < n. \<exists>w \<in> set weekdays. on_date (start_week + (active + int j * every) * 7 + (w - 1)) = Some t"
proof (induction n arbitrary: active)
  case (Suc n)
  show ?case
  proof (cases "first_some (\<lambda>w. on_date (start_week + active * 7 + (w - 1))) weekdays")
    case None
    then have "weekly_attempts n on_date weekdays start_week (active + every) every = Some t"
      using Suc.prems by simp
    from Suc.IH [OF this] obtain j w where jw: "j < n" "w \<in> set weekdays"
      "on_date (start_week + (active + every + int j * every) * 7 + (w - 1)) = Some t"
      by blast
    have "start_week + (active + int (Suc j) * every) * 7 + (w - 1) =
        start_week + (active + every + int j * every) * 7 + (w - 1)"
      by (simp add: algebra_simps)
    with jw show ?thesis by (metis Suc_less_eq)
  next
    case (Some u)
    then have "u = t" using Suc.prems by simp
    then show ?thesis using first_some_Some [OF Some] by (intro exI [of _ 0]) simp
  qed
qed simp

lemma days_clamped: "0 \<le> (if n < 0 then 0 else n :: int)"
  by simp

lemma next_daily_run_sound:
  assumes "next_daily_run start_at threshold d = Inr t" and "sc_unit (cd_config d) = ScheduleDay"
    and "1 \<le> sc_every (cd_config d)"
  shows "occurrence d start_at t \<and> start_at \<le> t \<and> threshold \<le> t"
proof -
  let ?every = "sc_every (cd_config d)" and ?date = "civil_date (cd_location d) start_at"
  define days where "days = (let b = civil_days_between ?date (civil_date (cd_location d) threshold)
      in if b < 0 then 0 else b)"
  have "daily_attempts 8 (first_on_date (cd_location d) (cd_times d) start_at threshold) ?date
      (next_multiple days ?every) ?every = Some t"
    using assms(1) by (auto simp: next_daily_run_def days_def Let_def split: option.splits)
  from daily_attempts_sound [OF this] obtain j where
    j: "first_on_date (cd_location d) (cd_times d) start_at threshold
        (?date + next_multiple days ?every + int j * ?every) = Some t" by blast
  have "0 \<le> days" by (simp add: days_def Let_def)
  from next_multiple_facts [OF this assms(3)] obtain k where k: "0 \<le> k" "next_multiple days ?every = k * ?every"
    by blast
  obtain clock where c: "clock \<in> set (cd_times d)"
    "same_local_minute (cd_location d) t (?date + (k + int j) * ?every) clock"
    and b: "start_at \<le> t" "threshold \<le> t"
    using first_on_date_sound [OF j] by (auto simp: k(2) algebra_simps)
  have "occurrence d start_at t"
    using assms(2) k(1) c by (auto simp: occurrence_def Let_def intro!: exI [of _ "k + int j"])
  then show ?thesis using b by simp
qed

lemma next_weekly_run_sound:
  assumes "next_weekly_run start_at threshold d = Inr t" and "sc_unit (cd_config d) = ScheduleWeek"
    and "1 \<le> sc_every (cd_config d)"
  shows "occurrence d start_at t \<and> start_at \<le> t \<and> threshold \<le> t"
proof -
  let ?every = "sc_every (cd_config d)" and ?date = "civil_date (cd_location d) start_at"
  define start_week where "start_week = ?date + (1 - iso_weekday ?date)"
  define weeks where "weeks = (let b = civil_days_between start_week (civil_date (cd_location d) threshold) sdiv 7
      in if b < 0 then 0 else b)"
  have "weekly_attempts 8 (first_on_date (cd_location d) (cd_times d) start_at threshold)
      (sort (sc_weekdays (cd_config d))) start_week (next_multiple weeks ?every) ?every = Some t"
    using assms(1) by (auto simp: next_weekly_run_def weeks_def start_week_def Let_def split: option.splits)
  from weekly_attempts_sound [OF this] obtain j w where w: "w \<in> set (sc_weekdays (cd_config d))"
    and j: "first_on_date (cd_location d) (cd_times d) start_at threshold
        (start_week + (next_multiple weeks ?every + int j * ?every) * 7 + (w - 1)) = Some t" by auto
  have "0 \<le> weeks" by (simp add: weeks_def Let_def)
  from next_multiple_facts [OF this assms(3)] obtain k where k: "0 \<le> k" "next_multiple weeks ?every = k * ?every"
    by blast
  have date: "start_week + (next_multiple weeks ?every + int j * ?every) * 7 + (w - 1) =
      start_week + 7 * ((k + int j) * ?every) + (w - 1)" by (simp add: k(2) algebra_simps)
  obtain clock where c: "clock \<in> set (cd_times d)"
    "same_local_minute (cd_location d) t (start_week + 7 * ((k + int j) * ?every) + (w - 1)) clock"
    and b: "start_at \<le> t" "threshold \<le> t"
    using first_on_date_sound [OF j] unfolding date by blast
  have "occurrence d start_at t"
    using assms(2) k(1) c w
    unfolding occurrence_def Let_def start_week_def by (auto intro!: exI [of _ "k + int j"])
  then show ?thesis using b by simp
qed

lemma validate_calendar_facts:
  assumes "validate_calendar_logger load_location lg = Inr d"
  shows "schedule_config_ok (cd_config d) \<and> cd_times d = List.map_filter parse_clock (sc_times (cd_config d)) \<and>
    load_location (lg_timezone lg) = Some (cd_location d) \<and> lg_start_at lg \<noteq> 0"
  using assms normalize_schedule_config_ok
  by (auto simp: validate_calendar_logger_def split: if_splits sum.splits option.splits)

lemma next_calendar_run_sound:
  assumes "next_calendar_run load_location lg threshold = Inr (Some t)"
    and "validate_calendar_logger load_location lg = Inr d"
    and "threshold - lg_start_at lg \<le> max_duration"
  shows "occurrence d (lg_start_at lg) t \<and> lg_start_at lg \<le> t \<and> threshold \<le> t \<and> \<not> past_end lg t"
proof -
  define th where "th = (if threshold < lg_start_at lg then lg_start_at lg else threshold)"
  have th: "th - lg_start_at lg \<le> max_duration" "lg_start_at lg \<le> th" "threshold \<le> th"
    using assms(3) by (auto simp: th_def duration_units)
  have ok: "1 \<le> sc_every (cd_config d)"
    using validate_calendar_facts [OF assms(2)] by (simp add: schedule_config_ok_def)
  have past: "\<not> past_end lg t"
    using assms(1,2) by (auto simp: next_calendar_run_def bindE_Inr_iff Let_def split: if_splits)
  have pos: "0 < sc_every (cd_config d) * minute" "0 < sc_every (cd_config d) * hour"
    using ok by (simp_all add: duration_units)
  note grid = next_interval_run_on_grid [of _ "lg_start_at lg" th] next_interval_run_ge [OF _ th(1)] on_grid_ge
  have "occurrence d (lg_start_at lg) t \<and> lg_start_at lg \<le> t \<and> th \<le> t"
  proof (cases "sc_unit (cd_config d)")
    case ScheduleMinute
    then have "t = next_interval_run (lg_start_at lg) (sc_every (cd_config d) * minute) th"
      using assms(1,2) by (auto simp: next_calendar_run_def bindE_Inr_iff Let_def th_def split: if_splits)
    then show ?thesis using grid [OF pos(1)] ScheduleMinute by (simp add: occurrence_def Let_def)
  next
    case ScheduleHour
    then have "t = next_interval_run (lg_start_at lg) (sc_every (cd_config d) * hour) th"
      using assms(1,2) by (auto simp: next_calendar_run_def bindE_Inr_iff Let_def th_def split: if_splits)
    then show ?thesis using grid [OF pos(2)] ScheduleHour by (simp add: occurrence_def Let_def)
  next
    case ScheduleDay
    then have "next_daily_run (lg_start_at lg) th d = Inr t"
      using assms(1,2) by (auto simp: next_calendar_run_def bindE_Inr_iff Let_def th_def split: if_splits)
    from next_daily_run_sound [OF this ScheduleDay ok] show ?thesis by simp
  next
    case ScheduleWeek
    then have "next_weekly_run (lg_start_at lg) th d = Inr t"
      using assms(1,2) by (auto simp: next_calendar_run_def bindE_Inr_iff Let_def th_def split: if_splits)
    from next_weekly_run_sound [OF this ScheduleWeek ok] show ?thesis by simp
  next
    case (ScheduleOther s)
    then show ?thesis using assms(1,2) by (simp add: next_calendar_run_def)
  qed
  then show ?thesis using past th by simp
qed

lemma time_sub_late: "time_sub a b > lateness_tolerance \<longleftrightarrow> a - b > second"
  by (auto simp: time_sub_def lateness_tolerance_def duration_units)

text \<open>
  Each event is what one of the ticks captured, in the order of the ticks and each tick at most once,
  and the clock of that tick is at most a second past the instant it recorded.
\<close>

definition recorded_in_time :: "locations \<Rightarrow> logger \<Rightarrow> tick list \<Rightarrow> run_event list \<Rightarrow> bool" where
  "recorded_in_time load_location lg ks es \<longleftrightarrow> (\<exists>recorders. subseq recorders ks \<and>
     list_all2 (\<lambda>e k. calendar_capture load_location lg k (event_at e) = Some e \<and> tk_now k - event_at e \<le> second) es recorders)"

lemma recorded_in_time_Nil: "recorded_in_time load_location lg ks []"
  by (auto simp: recorded_in_time_def)

lemma recorded_in_time_mono: "recorded_in_time load_location lg ks es \<Longrightarrow> recorded_in_time load_location lg (k # ks) es"
  unfolding recorded_in_time_def by (blast intro: list_emb_Cons)

lemma recorded_in_time_Cons:
  assumes "recorded_in_time load_location lg ks es" and "calendar_capture load_location lg k (event_at e) = Some e"
    and "tk_now k - event_at e \<le> second"
  shows "recorded_in_time load_location lg (k # ks) (e # es)"
proof -
  obtain recorders where "subseq recorders ks" "list_all2 (\<lambda>e k. calendar_capture load_location lg k (event_at e) = Some e \<and>
      tk_now k - event_at e \<le> second) es recorders"
    using assms(1) by (auto simp: recorded_in_time_def)
  then show ?thesis unfolding recorded_in_time_def using assms(2,3) by (intro exI [of _ "k # recorders"]) simp
qed

lemma calendar_capture_at: "calendar_capture load_location lg k t = Some e \<Longrightarrow> event_at e = t"
  by (auto simp: calendar_capture_def dest: capture_event_at)

text \<open>An iteration ends the run, skips to the clock, or records an instant that is due.\<close>

lemma calendar_loop_cases:
  obtains (stop) r where "calendar_loop load_location lg th ks = ([], r)"
  | (skip) k ks' es r where "ks = k # ks'" "calendar_loop load_location lg (tk_now k) ks' = (es, r)"
      "calendar_loop load_location lg th ks = (es, r)" "th \<le> tk_now k"
  | (fires) k ks' t e es r th' where "ks = k # ks'" "next_calendar_run load_location lg th' = Inr (Some t)"
      "th' = th \<or> th' = tk_now k \<and> th \<le> tk_now k" "calendar_capture load_location lg k t = Some e" "event_at e = t" "tk_now k - t \<le> second"
      "calendar_loop load_location lg (t + nanosecond) ks' = (es, r)"
      "calendar_loop load_location lg th ks = (e # es, r)"
  | (unordered) t k where "k \<in> set ks" "next_calendar_run load_location lg th = Inr (Some t)" "tk_now k - t > second" "tk_now k < th"
proof (cases "\<exists>k ks' t. ks = k # ks' \<and> next_calendar_run load_location lg th = Inr (Some t) \<and> tk_wait k")
  case False
  then have "\<exists>r. calendar_loop load_location lg th ks = ([], r)"
    by (auto simp: calendar_loop.simps [of load_location lg th] split: sum.split option.split list.split)
  then show thesis using stop by blast
next
  case True
  then obtain k ks' t where ks: "ks = k # ks'" and t: "next_calendar_run load_location lg th = Inr (Some t)"
    and wait: "tk_wait k" by blast
  note unfold = calendar_loop.simps [of load_location lg th] t ks wait time_sub_late
  have capture: thesis if n: "next_calendar_run load_location lg th' = Inr (Some u)"
    "th' = th \<or> th' = tk_now k \<and> th \<le> tk_now k" "tk_now k - u \<le> second"
    "calendar_loop load_location lg th ks = after_capture (calendar_capture load_location lg k u)
       (calendar_loop load_location lg (u + nanosecond) ks')" for th' u
  proof (cases "calendar_capture load_location lg k u")
    case None
    then show thesis using stop n(4) by (simp add: after_capture_def)
  next
    case (Some e)
    then show thesis
      using fires [OF ks n(1,2) Some calendar_capture_at [OF Some] n(3) prod.collapse [symmetric]] n(4)
      by (simp add: after_capture_def)
  qed
  consider "tk_now k - t \<le> second" | "tk_now k - t > second" "tk_now k < th"
    | "tk_now k - t > second" "th \<le> tk_now k" "\<nexists>u. next_calendar_run load_location lg (tk_now k) = Inr (Some u)"
    | u where "tk_now k - t > second" "th \<le> tk_now k" "u \<noteq> tk_now k"
        "next_calendar_run load_location lg (tk_now k) = Inr (Some u)"
    | "tk_now k - t > second" "th \<le> tk_now k" "next_calendar_run load_location lg (tk_now k) = Inr (Some (tk_now k))"
    by (metis not_le)
  then show thesis
  proof cases
    case 1
    then show thesis by (intro capture [OF t]) (simp_all add: unfold)
  next
    case 2
    then show thesis using unordered [of k t] t ks by simp
  next
    case 3
    then have "\<exists>r. calendar_loop load_location lg th ks = ([], r)"
      by (auto simp: unfold split: sum.split option.split)
    then show thesis using stop by blast
  next
    case (4 u)
    then show thesis using skip [OF ks prod.collapse [symmetric]] by (simp add: unfold)
  next
    case 5
    then show thesis by (intro capture [OF 5(3)]) (simp_all add: unfold second_def)
  qed
qed

lemma calendar_loop_safe:
  assumes d: "validate_calendar_logger load_location lg = Inr d"
    and "calendar_loop load_location lg th ks = (es, r)"
    and "th - lg_start_at lg \<le> max_duration" and "\<forall>k \<in> set ks. tk_now k - lg_start_at lg \<le> max_duration"
    and "\<forall>e \<in> set es. event_at e - lg_start_at lg < max_duration"
  shows "run_records lg (\<lambda>t. occurrence d (lg_start_at lg) t \<and> lg_start_at lg \<le> t) th es \<and>
    recorded_in_time load_location lg ks es"
  using assms(2-)
proof (induction ks arbitrary: th es r rule: length_induct)
  case (1 ks)
  show ?case
  proof (cases rule: calendar_loop_cases [of load_location lg th ks])
    case (stop r')
    then show ?thesis using 1(2) by (simp add: recorded_in_time_Nil)
  next
    case (skip k ks' es' r')
    then have "es = es'" using 1(2) by simp
    then show ?thesis
      using 1(1) [rule_format, of ks' "tk_now k" es r'] 1(4,5) skip recorded_in_time_mono [of load_location lg ks']
      by (auto intro: run_records_mono)
  next
    case (fires k ks' t e es' r' th')
    have es: "es = e # es'" using fires(8) 1(2) by simp
    have "th' - lg_start_at lg \<le> max_duration" "th \<le> th'" using fires(1,3) 1(3,4) by auto
    then have t: "occurrence d (lg_start_at lg) t" "lg_start_at lg \<le> t" "th \<le> t" "\<not> past_end lg t"
      using next_calendar_run_sound [OF fires(2) d] by auto
    have "run_records lg (\<lambda>t. occurrence d (lg_start_at lg) t \<and> lg_start_at lg \<le> t) (t + nanosecond) es' \<and>
      recorded_in_time load_location lg ks' es'"
      using 1(1) [rule_format, of ks' "t + nanosecond" es' r'] 1(4,5) fires es by (simp add: nanosecond_def)
    then show ?thesis
      using t fires es
      by (auto intro!: run_records_Cons recorded_in_time_Cons simp: nanosecond_def)
  next
    case (unordered t k)
    have "th \<le> t" using next_calendar_run_sound [OF unordered(2) d 1(3)] by simp
    then show ?thesis using unordered(3,4) by (simp add: second_def)
  qed
qed

text \<open>
  C16: what a calendar logger records. Its instants are strictly increasing, within the logger's
  period and each one an occurrence of the schedule: a grid instant for minutes and hours, and for
  days and weeks an instant whose local clock in the logger's time zone shows a configured time on
  a day of the cycle. The events are what some of the ticks captured, one each and in their order, and
  the clock of the tick that recorded an occurrence is at most a second past it: a missed occurrence
  is skipped.
\<close>

theorem calendar_run_records:
  assumes "calendar_run load_location lg now0 ticks = (es, r)"
    and "validate_calendar_logger load_location lg = Inr d"
    and "\<forall>t \<in> {now0} \<union> tk_now ` set ticks. t - lg_start_at lg \<le> max_duration"
    and "\<forall>e \<in> set es. event_at e - lg_start_at lg < max_duration"
  shows "run_records lg (\<lambda>t. occurrence d (lg_start_at lg) t \<and> lg_start_at lg \<le> t) now0 es \<and>
    recorded_in_time load_location lg ticks es"
proof -
  have "calendar_loop load_location lg now0 ticks = (es, r)"
    using assms(1,2) by (simp add: calendar_run_def)
  from calendar_loop_safe [OF assms(2) this _ _ assms(4)] assms(3) show ?thesis by auto
qed

section \<open>Zones with a fixed offset\<close>

definition fixed_offset :: "location \<Rightarrow> duration \<Rightarrow> bool" where
  "fixed_offset l c \<longleftrightarrow> (\<forall>t. loc_offset l t = c)"

definition clock_ok :: "int \<times> int \<Rightarrow> bool" where
  "clock_ok clock \<longleftrightarrow> 0 \<le> fst clock \<and> fst clock < 24 \<and> 0 \<le> snd clock \<and> snd clock < 60"

definition clock_offset :: "int \<times> int \<Rightarrow> duration" where
  "clock_offset clock = fst clock * hour + snd clock * minute"

text \<open>The instant a date's clock time stands for in such a zone.\<close>

definition instant_of :: "duration \<Rightarrow> int \<Rightarrow> int \<times> int \<Rightarrow> gotime" where
  "instant_of c date clock = date * day + clock_offset clock - c"

lemma clock_offset_range: "clock_ok clock \<Longrightarrow> 0 \<le> clock_offset clock \<and> clock_offset clock < day"
  by (auto simp: clock_ok_def clock_offset_def day_def hour_def minute_def)

lemma go_date_fixed: "fixed_offset l c \<Longrightarrow> go_date l date clock = instant_of c date clock"
  by (simp add: go_date_def fixed_offset_def instant_of_def clock_offset_def Let_def)

text \<open>The local minute an instant lies in is one number, so two clock readings differ in it.\<close>

lemma clock_minutes: "date * day + clock_offset clock = minute * (1440 * date + 60 * fst clock + snd clock)"
  by (simp add: clock_offset_def day_def hour_def minute_def)

lemma mod_div_int: "0 < b \<Longrightarrow> 0 < a \<Longrightarrow> x mod (b * a) div b = (x div b) mod (a :: int)"
  by (simp add: zmod_zmult2_eq)

lemma clock_of_minutes:
  "x div day = x div minute div 1440" "x mod day div hour = (x div minute) mod 1440 div 60"
  "x mod hour div minute = (x div minute) mod 60"
proof -
  have m: "(0::int) < minute" and d: "day = minute * 1440" and h: "hour = minute * 60"
    by (simp_all add: minute_def hour_def day_def)
  show "x div day = x div minute div 1440" unfolding d by (simp add: zdiv_zmult2_eq)
  have "x mod day div hour = x mod (minute * 1440) div minute div 60"
    unfolding d h by (simp add: zdiv_zmult2_eq)
  also have "\<dots> = (x div minute) mod 1440 div 60" using mod_div_int [OF m, of 1440 x] by simp
  finally show "x mod day div hour = (x div minute) mod 1440 div 60" .
  show "x mod hour div minute = (x div minute) mod 60" unfolding h using mod_div_int [OF m, of 60 x] by simp
qed

lemma minute_of_day: "0 \<le> h \<Longrightarrow> h < 24 \<Longrightarrow> 0 \<le> m \<Longrightarrow> m < 60 \<Longrightarrow>
  (y div 1440 = d \<and> y mod 1440 div 60 = h \<and> y mod 60 = m) \<longleftrightarrow> y = 1440 * d + 60 * h + (m :: int)"
proof -
  assume r: "0 \<le> h" "h < 24" "0 \<le> m" "m < 60"
  have sub: "y mod 1440 mod 60 = y mod 60" by (simp add: mod_mod_cancel)
  have whole: "y = 1440 * (y div 1440) + 60 * (y mod 1440 div 60) + y mod 60"
    using mult_div_mod_eq [of 1440 y] mult_div_mod_eq [of 60 "y mod 1440"] sub by linarith
  have "y div 1440 = d \<and> y mod 1440 = 60 * h + m" if "y = 1440 * d + 60 * h + m"
    using r that int_div_pos_eq [of y 1440 d "60 * h + m"] int_mod_pos_eq [of y 1440 d "60 * h + m"] by simp
  moreover have "(60 * h + m) div 60 = h \<and> (60 * h + m) mod 60 = m"
    using r int_div_pos_eq [of "60 * h + m" 60 h m] int_mod_pos_eq [of "60 * h + m" 60 h m] by simp
  ultimately show ?thesis using whole sub by metis
qed

lemma same_local_minute_iff:
  assumes "clock_ok clock"
  shows "same_local_minute l t date clock \<longleftrightarrow>
    local_time l t div minute = (date * day + clock_offset clock) div minute"
proof -
  have "(date * day + clock_offset clock) div minute = 1440 * date + 60 * fst clock + snd clock"
    unfolding clock_minutes by (simp add: minute_def)
  then show ?thesis
    using minute_of_day [of "fst clock" "snd clock" "local_time l t div minute" date] assms
    by (simp add: same_local_minute_def civil_date_def clock_ok_def clock_of_minutes)
qed

lemma resolve_fixed:
  assumes "fixed_offset l c" and "clock_ok clock"
  shows "resolve_local_occurrence l date clock = Some (instant_of c date clock)"
proof -
  let ?c = "instant_of c date clock"
  have local: "local_time l ?c = date * day + clock_offset clock"
    using assms(1) by (simp add: local_time_def fixed_offset_def instant_of_def)
  have same: "same_local_minute l ?c date clock"
    by (simp add: same_local_minute_iff [OF assms(2)] local)
  have "\<not> (?c + k * minute < ?c \<and> same_local_minute l (?c + k * minute) date clock)" for k
  proof -
    have "local_time l (?c + k * minute) div minute = local_time l ?c div minute + k"
      using assms(1) by (simp add: local_time_def fixed_offset_def minute_def algebra_simps)
    then show ?thesis by (auto simp: same_local_minute_iff [OF assms(2)] local minute_def)
  qed
  then have "earliest_alternative l date clock ?c ks = ?c" for ks
    unfolding earliest_alternative_def by (induction ks) (auto simp: Let_def)
  then show ?thesis using same by (simp add: resolve_local_occurrence_def go_date_fixed [OF assms(1)] Let_def)
qed

lemma whole_minute_instant:
  assumes "fixed_offset l c" and "clock_ok clock" and "same_local_minute l t date clock"
    and "local_time l t mod minute = 0"
  shows "t = instant_of c date clock"
proof -
  have "local_time l t div minute = (date * day + clock_offset clock) div minute"
    using assms(2,3) same_local_minute_iff by blast
  moreover have "(date * day + clock_offset clock) mod minute = 0"
    unfolding clock_minutes by simp
  ultimately have "local_time l t = date * day + clock_offset clock"
    using assms(4) by (metis div_mult_mod_eq)
  then show ?thesis using assms(1) by (simp add: local_time_def fixed_offset_def instant_of_def)
qed

lemma instant_date:
  assumes "clock_ok clock"
  shows "(instant_of c date clock + c) div day = date"
proof -
  have "(clock_offset clock + date * day) div day = date"
    using clock_offset_range [OF assms] by simp
  then show ?thesis by (simp add: instant_of_def add.commute)
qed

definition clocks_sorted :: "(int \<times> int) list \<Rightarrow> bool" where
  "clocks_sorted clocks \<longleftrightarrow> sorted (map clock_offset clocks) \<and> (\<forall>clock \<in> set clocks. clock_ok clock)"

lemma first_on_date_fixed:
  assumes "fixed_offset l c" and "clocks_sorted clocks"
  shows "case first_on_date l clocks start_at threshold date of
      None \<Rightarrow> \<forall>clock \<in> set clocks. instant_of c date clock < max start_at threshold
    | Some t \<Rightarrow> max start_at threshold \<le> t \<and> (\<exists>clock \<in> set clocks. t = instant_of c date clock) \<and>
        (\<forall>clock \<in> set clocks. max start_at threshold \<le> instant_of c date clock \<longrightarrow> t \<le> instant_of c date clock)"
  using assms(2)
proof (induction clocks)
  case Nil
  then show ?case by (simp add: first_on_date_def List.map_filter_def)
next
  case (Cons a clocks)
  have a: "resolve_local_occurrence l date a = Some (instant_of c date a)"
    and below: "\<forall>b \<in> set clocks. instant_of c date a \<le> instant_of c date b"
    and rest: "clocks_sorted clocks"
    using Cons.prems resolve_fixed [OF assms(1)] by (auto simp: clocks_sorted_def instant_of_def)
  show ?case
  proof (cases "max start_at threshold \<le> instant_of c date a")
    case True
    then show ?thesis using a below by (auto simp: first_on_date_def List.map_filter_def)
  next
    case False
    then have "first_on_date l (a # clocks) start_at threshold date = first_on_date l clocks start_at threshold date"
      using a by (auto simp: first_on_date_def List.map_filter_def)
    then show ?thesis using Cons.IH [OF rest] False by (auto split: option.splits)
  qed
qed

text \<open>The order of clock strings is the order of the times they name.\<close>

lemma parse_clock_mono:
  assumes "parse_clock s = Some a" and "parse_clock t = Some b" and "string_le s t"
  shows "clock_offset a \<le> clock_offset b"
proof -
  obtain s1 s2 s3 s4 s5 where s: "s = [s1, s2, s3, s4, s5]" "s3 = CHR '':''"
      "is_digit s1" "is_digit s2" "is_digit s4" "is_digit s5"
      "a = (10 * digit_value s1 + digit_value s2, 10 * digit_value s4 + digit_value s5)"
    using assms(1) by (auto simp: parse_clock_def split: list.splits if_splits)
  obtain t1 t2 t3 t4 t5 where t: "t = [t1, t2, t3, t4, t5]" "t3 = CHR '':''"
      "is_digit t1" "is_digit t2" "is_digit t4" "is_digit t5"
      "b = (10 * digit_value t1 + digit_value t2, 10 * digit_value t4 + digit_value t5)"
    using assms(2) by (auto simp: parse_clock_def split: list.splits if_splits)
  have r: "clock_ok a" "clock_ok b"
    using parse_clock_range assms(1,2) s(7) t(7) by (auto simp: clock_ok_def)
  have d: "0 \<le> digit_value c \<and> digit_value c \<le> 9" if "is_digit c" for c
    using digit_char_range [OF that] by (simp add: digit_value_def)
  have less: "digit_value x < digit_value y \<longleftrightarrow> (of_char x :: nat) < of_char y" for x y
    by (simp add: digit_value_def)
  have "60 * fst a + snd a \<le> 60 * fst b + snd b"
    using assms(3) d [OF s(3)] d [OF s(4)] d [OF s(5)] d [OF s(6)] d [OF t(3)] d [OF t(4)] d [OF t(5)] d [OF t(6)]
      r s(2,7) t(2,7)
    unfolding s(1) t(1) by (simp add: clock_ok_def flip: less) (elim disjE conjE; simp)
  then show ?thesis by (simp add: clock_offset_def hour_def minute_def)
qed

lemma parse_times_sorted:
  assumes "times_ok ts"
  shows "clocks_sorted (List.map_filter parse_clock ts)"
proof -
  have s: "string_sorted ts" and p: "\<forall>t \<in> set ts. parse_clock t \<noteq> None" using assms by (auto simp: times_ok_def)
  then show ?thesis
  proof (induction ts)
    case (Cons t ts)
    obtain a where a: "parse_clock t = Some a" using Cons.prems(2) by auto
    have "clock_offset a \<le> clock_offset b" if b: "b \<in> set (List.map_filter parse_clock ts)" for b
    proof -
      obtain u where "u \<in> set ts" "parse_clock u = Some b" using b by (auto simp: List.map_filter_def)
      then show ?thesis using parse_clock_mono [OF a] Cons.prems(1) by auto
    qed
    moreover have "clock_ok a" using parse_clock_range a by (cases a) (simp add: clock_ok_def)
    ultimately show ?case using Cons a by (auto simp: clocks_sorted_def List.map_filter_def)
  qed (simp add: clocks_sorted_def List.map_filter_def)
qed

lemma instant_before_next_date:
  "clock_ok a \<Longrightarrow> clock_ok b \<Longrightarrow> d < e \<Longrightarrow> instant_of c d a < instant_of c e b"
proof -
  assume "clock_ok a" "clock_ok b" "d < e"
  then have "d * day + clock_offset a < (d + 1) * day" "(d + 1) * day \<le> e * day" "0 \<le> clock_offset b"
    using clock_offset_range by (auto simp: algebra_simps day_def hour_def)
  then show ?thesis by (simp add: instant_of_def)
qed

lemma instant_before:
  assumes "fixed_offset l c" and "clock_ok a"
  shows "d < civil_date l th \<Longrightarrow> instant_of c d a < th" "civil_date l th < d \<Longrightarrow> th < instant_of c d a"
proof -
  have dp: "0 < day" by (simp add: day_def hour_def)
  have lt: "local_time l th = th + c" using assms(1) by (simp add: local_time_def fixed_offset_def)
  have th: "civil_date l th * day \<le> th + c" "th + c < (civil_date l th + 1) * day"
    unfolding civil_date_def lt
    using dp div_mult_mod_eq [of "th + c" day] pos_mod_bound [OF dp, of "th + c"] pos_mod_sign [OF dp, of "th + c"]
    unfolding distrib_right mult_1 by linarith+
  note r = clock_offset_range [OF assms(2)]
  show "instant_of c d a < th" if "d < civil_date l th"
  proof -
    have "(d + 1) * day \<le> civil_date l th * day" using that dp by (simp add: mult_right_mono)
    then show ?thesis using th(1) r by (simp add: instant_of_def algebra_simps)
  qed
  show "th < instant_of c d a" if "civil_date l th < d"
  proof -
    have "(civil_date l th + 1) * day \<le> d * day" using that dp by (simp add: mult_right_mono)
    then show ?thesis using th(2) r by (simp add: instant_of_def algebra_simps)
  qed
qed

text \<open>
  The search over the cycles, over dates that resolve to fixed instants: it ends within two
  attempts, on the least instant of the schedule that is not before the threshold.
\<close>

lemma daily_attempts_fixed:
  assumes l: "fixed_offset l c" and clocks: "clocks_sorted clocks" "clocks \<noteq> []"
    and every: "1 \<le> every" and start: "start_at \<le> th"
    and cycle: "civil_date l th \<le> start_date + cycle" and n: "2 \<le> n"
  shows "\<exists>t. daily_attempts n (first_on_date l clocks start_at th) start_date cycle every = Some t \<and> th \<le> t \<and>
    (\<forall>j. \<forall>a \<in> set clocks. th \<le> instant_of c (start_date + cycle + int j * every) a \<longrightarrow>
       t \<le> instant_of c (start_date + cycle + int j * every) a)"
proof -
  have ok: "clock_ok a" if "a \<in> set clocks" for a using clocks(1) that by (simp add: clocks_sorted_def)
  have mx: "max start_at th = th" using start by simp
  note first = first_on_date_fixed [OF l clocks(1), where start_at = start_at and threshold = th, unfolded mx]
  obtain m where m: "n = Suc (Suc m)" using n by (metis Suc_diff_Suc le_add_diff_inverse numeral_2_eq_2 plus_nat.simps(2) add_Suc)
  show ?thesis
  proof (cases "first_on_date l clocks start_at th (start_date + cycle)")
    case (Some t)
    then have t: "th \<le> t" "\<exists>a \<in> set clocks. t = instant_of c (start_date + cycle) a"
      "\<forall>a \<in> set clocks. th \<le> instant_of c (start_date + cycle) a \<longrightarrow> t \<le> instant_of c (start_date + cycle) a"
      using first [of "start_date + cycle"] by auto
    have "t \<le> instant_of c (start_date + cycle + int j * every) a"
      if "a \<in> set clocks" "th \<le> instant_of c (start_date + cycle + int j * every) a" for j a
    proof (cases j)
      case (Suc i)
      then have "0 < int j * every" using every by simp
      then show ?thesis using t(2) instant_before_next_date ok that(1) by (metis less_add_same_cancel1 less_imp_le)
    qed (use t(3) that in simp)
    then show ?thesis using Some t(1) m by auto
  next
    case None
    then have before: "\<forall>a \<in> set clocks. instant_of c (start_date + cycle) a < th"
      using first [of "start_date + cycle"] by simp
    have late: "civil_date l th < start_date + (cycle + every)" using cycle every by simp
    obtain a where a: "a \<in> set clocks" using clocks(2) by (cases clocks) auto
    have "th < instant_of c (start_date + (cycle + every)) a" by (rule instant_before(2) [OF l ok [OF a] late])
    then obtain t where t: "first_on_date l clocks start_at th (start_date + (cycle + every)) = Some t"
      using first [of "start_date + (cycle + every)"] a by (cases "first_on_date l clocks start_at th (start_date + (cycle + every))") auto
    then have t': "th \<le> t" "\<exists>a \<in> set clocks. t = instant_of c (start_date + (cycle + every)) a"
      "\<forall>a \<in> set clocks. th \<le> instant_of c (start_date + (cycle + every)) a \<longrightarrow>
         t \<le> instant_of c (start_date + (cycle + every)) a"
      using first [of "start_date + (cycle + every)"] by auto
    have "t \<le> instant_of c (start_date + cycle + int j * every) b"
      if b: "b \<in> set clocks" "th \<le> instant_of c (start_date + cycle + int j * every) b" for j b
    proof -
      consider "j = 0" | "j = 1" | "2 \<le> j" by linarith
      then show ?thesis
      proof cases
        case 3
        then have "every < int j * every" using every by (simp add: mult_less_cancel_right2)
        then have "start_date + (cycle + every) < start_date + cycle + int j * every" by simp
        then show ?thesis using t'(2) instant_before_next_date ok b(1) by (metis less_imp_le)
      qed (use before b t'(3) in \<open>auto simp: add.assoc\<close>)
    qed
    then show ?thesis using None t t'(1) m by auto
  qed
qed

text \<open>
  A daily schedule always has a next run. In a zone with a fixed offset the search succeeds, and
  what it returns is the least whole-minute occurrence of the schedule that is not before the
  threshold; so the run of an enabled daily logger without an end never stops by itself there. The
  range is the one in which the distance of two days is not saturated.
\<close>

theorem next_daily_run_least:
  assumes "fixed_offset (cd_location d) c" and "schedule_config_ok (cd_config d)"
    and "cd_times d = List.map_filter parse_clock (sc_times (cd_config d))"
    and "sc_unit (cd_config d) = ScheduleDay"
    and "start_at \<le> threshold" and "threshold - start_at + 2 * day \<le> max_duration"
  shows "\<exists>t. next_daily_run start_at threshold d = Inr t \<and> threshold \<le> t \<and>
    (\<forall>u \<ge> threshold. occurrence d start_at u \<and> local_time (cd_location d) u mod minute = 0 \<longrightarrow> t \<le> u)"
proof -
  let ?l = "cd_location d" and ?every = "sc_every (cd_config d)"
  let ?start = "civil_date ?l start_at" and ?target = "civil_date ?l threshold"
  have every: "1 \<le> ?every" and times: "times_ok (sc_times (cd_config d))" "sc_times (cd_config d) \<noteq> []"
    using assms(2,4) by (auto simp: schedule_config_ok_def schedule_shape_ok_def)
  have clocks: "clocks_sorted (cd_times d)" using parse_times_sorted [OF times(1)] assms(3) by simp
  have nonempty: "cd_times d \<noteq> []"
    using times assms(3) by (cases "sc_times (cd_config d)") (auto simp: times_ok_def List.map_filter_def)
  have dp: "0 < day" by (simp add: day_def hour_def)
  have lt: "local_time ?l t = t + c" for t using assms(1) by (simp add: local_time_def fixed_offset_def)
  have le: "?start \<le> ?target" using assms(5) dp by (simp add: civil_date_def lt zdiv_mono1)
  have "(?target - ?start) * day \<le> threshold - start_at + day"
    using div_mult_mod_eq [of "threshold + c" day] div_mult_mod_eq [of "start_at + c" day]
      pos_mod_bound [OF dp, of "start_at + c"] pos_mod_sign [OF dp, of "threshold + c"]
    unfolding civil_date_def lt left_diff_distrib by linarith
  then have upper: "?target * day - ?start * day \<le> max_duration"
    using assms(6) dp by (simp add: left_diff_distrib)
  have "0 \<le> (?target - ?start) * day" using le dp by simp
  then have "min_duration \<le> ?target * day - ?start * day"
    by (simp add: left_diff_distrib min_duration_def)
  then have "time_sub (?target * day) (?start * day) = (?target - ?start) * day"
    using upper by (simp add: time_sub_exact left_diff_distrib)
  then have between: "civil_days_between ?start ?target = ?target - ?start"
    using le dp by (simp add: civil_days_between_def sdiv_nonneg flip: left_diff_distrib)
  define cycle where "cycle = next_multiple (?target - ?start) ?every"
  have cf: "?target - ?start \<le> cycle" "cycle < ?target - ?start + ?every" "\<exists>k \<ge> 0. cycle = k * ?every"
    using next_multiple_facts [OF _ every, of "?target - ?start"] le unfolding cycle_def by auto
  obtain t where t: "daily_attempts 8 (first_on_date ?l (cd_times d) start_at threshold) ?start cycle ?every = Some t"
    "threshold \<le> t" and least: "\<forall>j. \<forall>a \<in> set (cd_times d).
       threshold \<le> instant_of c (?start + cycle + int j * ?every) a \<longrightarrow> t \<le> instant_of c (?start + cycle + int j * ?every) a"
    using daily_attempts_fixed [OF assms(1) clocks nonempty every assms(5), of ?start cycle 8] cf(1) by auto
  have run: "next_daily_run start_at threshold d = Inr t"
    using t(1) le by (simp add: next_daily_run_def between cycle_def Let_def)
  have "t \<le> u" if u: "threshold \<le> u" "occurrence d start_at u" "local_time ?l u mod minute = 0" for u
  proof -
    obtain k a where k: "0 \<le> k" and a: "a \<in> set (cd_times d)"
      and s: "same_local_minute ?l u (?start + k * ?every) a"
      using u(2) assms(4) by (auto simp: occurrence_def Let_def)
    have ok: "clock_ok a" using clocks a by (simp add: clocks_sorted_def)
    have eq: "u = instant_of c (?start + k * ?every) a" by (rule whole_minute_instant [OF assms(1) ok s u(3)])
    then have "\<not> ?start + k * ?every < ?target" using instant_before(1) [OF assms(1) ok] u(1) by fastforce
    obtain k0 where k0: "cycle = k0 * ?every" using cf(3) by blast
    have "k0 * ?every < (k + 1) * ?every"
      using \<open>\<not> ?start + k * ?every < ?target\<close> cf(2) k0 by (simp add: algebra_simps)
    then have "k0 \<le> k" using every by simp
    then have "?start + k * ?every = ?start + cycle + int (nat (k - k0)) * ?every"
      by (simp add: k0 algebra_simps)
    then show ?thesis using least a u(1) eq by metis
  qed
  then show ?thesis using run t(2) by (intro exI [of _ t]) simp
qed

definition noon_daily :: calendar_definition where
  "noon_daily = \<lparr>cd_config = \<lparr>sc_unit = ScheduleDay, sc_every = 2, sc_times = [''12:00''], sc_weekdays = []\<rparr>,
     cd_location = utc_location, cd_times = [(12, 0)]\<rparr>"

lemma noon_daily_ok:
  "schedule_config_ok (cd_config noon_daily)" "parse_clock ''12:00'' = Some (12, 0)"
  "fixed_offset (cd_location noon_daily) 0"
proof -
  show p: "parse_clock ''12:00'' = Some (12, 0)"
    by code_simp
  then show "schedule_config_ok (cd_config noon_daily)"
    by (simp add: schedule_config_ok_def noon_daily_def max_schedule_every_def valid_schedule_unit_def
        times_ok_def weekdays_ok_def schedule_shape_ok_def)
  show "fixed_offset (cd_location noon_daily) 0"
    by (simp add: fixed_offset_def noon_daily_def utc_location_def)
qed

text \<open>Started at 13:00 of day 0, every second day at noon: the next run is on day 2.\<close>

theorem next_daily_run_least_witness:
  "\<exists>t. next_daily_run (13 * hour) (14 * hour) noon_daily = Inr t \<and> 14 * hour \<le> t \<and> t \<le> 2 * day + 12 * hour"
proof -
  have "same_local_minute utc_location (2 * day + 12 * hour) 2 (12, 0)"
    by (simp add: same_local_minute_def civil_date_def local_time_def utc_location_def day_def hour_def minute_def)
  moreover have "civil_date utc_location (13 * hour) = 0"
    by (simp add: civil_date_def local_time_def utc_location_def day_def hour_def)
  ultimately have "occurrence noon_daily (13 * hour) (2 * day + 12 * hour)"
    by (auto simp: occurrence_def noon_daily_def Let_def intro!: exI [of _ 1])
  moreover have "local_time (cd_location noon_daily) (2 * day + 12 * hour) mod minute = 0"
    by (simp add: local_time_def noon_daily_def utc_location_def day_def hour_def minute_def)
  moreover have "\<exists>t. next_daily_run (13 * hour) (14 * hour) noon_daily = Inr t \<and> 14 * hour \<le> t \<and>
    (\<forall>u \<ge> 14 * hour. occurrence noon_daily (13 * hour) u \<and>
       local_time (cd_location noon_daily) u mod minute = 0 \<longrightarrow> t \<le> u)"
    by (rule next_daily_run_least [OF noon_daily_ok(3,1)])
      (simp_all add: noon_daily_def noon_daily_ok(2) List.map_filter_def hour_def day_def max_duration_def)
  ultimately show ?thesis by (auto simp: day_def hour_def)
qed

definition hourly_logger :: logger where
  "hourly_logger = sample_logger\<lparr>lg_mode := ModeSchedule, lg_end_at := None, lg_config :=
     ScheduleConfig \<lparr>sc_unit = ScheduleHour, sc_every = 1, sc_times = [], sc_weekdays = []\<rparr>\<rparr>"

lemma hourly_logger_valid:
  "validate_calendar_logger utc_only hourly_logger =
     Inr \<lparr>cd_config = \<lparr>sc_unit = ScheduleHour, sc_every = 1, sc_times = [], sc_weekdays = []\<rparr>,
          cd_location = utc_location, cd_times = []\<rparr>"
  by (simp add: validate_calendar_logger_def hourly_logger_def sample_logger_def ends_early_def utc_only_def
      normalize_schedule_config_def normalize_times_def normalize_weekdays_def sort_strings_def
      schedule_shape_ok_def valid_schedule_unit_def max_schedule_every_def tags_valid_def
      List.map_filter_def Let_def)

lemma hourly_next:
  "next_calendar_run utc_only hourly_logger th =
     (let t = next_interval_run 5 hour (if th < 5 then 5 else th) in Inr (if t = 0 then None else Some t))"
  by (simp add: next_calendar_run_def hourly_logger_valid past_end_def Let_def)
    (simp add: hourly_logger_def sample_logger_def)

theorem calendar_run_records_witness:
  "\<exists>e. calendar_run utc_only hourly_logger 6 [sample_tick (hour + 5)] = ([e], RunWaiting) \<and> event_at e = hour + 5 \<and>
     recorded_in_time utc_only hourly_logger [sample_tick (hour + 5)] [e]"
proof -
  have n: "next_calendar_run utc_only hourly_logger 6 = Inr (Some (hour + 5))"
    "next_calendar_run utc_only hourly_logger (hour + 5 + nanosecond) = Inr (Some (2 * hour + 5))"
    by (simp_all add: hourly_next next_interval_run_def time_sub_def duration_units sdiv_nonneg Let_def)
  obtain e where e: "calendar_capture utc_only hourly_logger (sample_tick (hour + 5)) (hour + 5) = Some e"
    by (simp add: calendar_capture_def hourly_logger_valid capture_request_def capture_event_def sample_tick_def
        past_end_def) (simp add: hourly_logger_def sample_logger_def hour_def)
  note at = calendar_capture_at [OF e]
  have run: "calendar_run utc_only hourly_logger 6 [sample_tick (hour + 5)] = ([e], RunWaiting)"
    by (simp add: calendar_run_def hourly_logger_valid calendar_loop.simps n e after_capture_def time_sub_late
        sample_tick_def [of "hour + 5"] second_def) (use e in \<open>simp add: sample_tick_def\<close>)
  have "recorded_in_time utc_only hourly_logger [sample_tick (hour + 5)] [e]"
    using calendar_run_records [OF run hourly_logger_valid] at
    by (simp add: sample_tick_def hourly_logger_def sample_logger_def duration_units)
  then show ?thesis using run at by blast
qed

end
