(* ===== verification/Batch_Broker.thy ===== *)
theory Batch_Broker
  imports Event_Broker Logger_Schedule
begin

text \<open>
  The committed batches of the data loggers and their feed: \<open>internal/datalogger/committed_batches.go\<close>
  over the generic broker. A batch is checked, copied and handed to the subscribers of its logger.
\<close>

section \<open>Publishing prepared events\<close>

text \<open>A publication whose event is not valid is no event; the others deliver the prepared event.\<close>

fun prepared_actions :: "('e \<Rightarrow> 'e option) \<Rightarrow> 'e feed_action list \<Rightarrow> 'e feed_action list" where
  "prepared_actions prepare [] = []"
| "prepared_actions prepare (Publish e # acts) =
     (case prepare e of None \<Rightarrow> prepared_actions prepare acts
      | Some e' \<Rightarrow> Publish e' # prepared_actions prepare acts)"
| "prepared_actions prepare (Receive # acts) = Receive # prepared_actions prepare acts"

lemma published_prepared: "published (prepared_actions prepare acts) = List.map_filter prepare (published acts)"
  by (induction prepare acts rule: prepared_actions.induct) (simp_all add: List.map_filter_simps split: option.split)

lemma drive_publish:
  "drive (broker_publish key_of prepare) (broker_receive i) acts b =
   drive (\<lambda>e. broker_deliver (key_of e) e) (broker_receive i) (prepared_actions prepare acts) b"
  by (induction prepare acts arbitrary: b rule: prepared_actions.induct)
    (simp_all add: broker_publish_def split: option.split)

lemma subscribe_fresh:
  "broker_subscribe key b = (Inr i, b') \<Longrightarrow>
   subscribed i b' \<and> subscription_queue i b' = [] \<and> subscription_wants key_of i b' = (\<lambda>e. key_of e = key)"
  by (auto simp: broker_subscribe_def subscription_view make_chan_def Let_def fun_eq_iff split: if_splits)

text \<open>What a subscription receives from the moment it is opened.\<close>

lemma broker_subscription_in_order:
  assumes "broker_inv b" and "broker_subscribe key b = (Inr i, b1)"
    and "drive (broker_publish key_of prepare) (broker_receive i) acts b1 = (received, b2)"
  shows "prefix (received @ subscription_queue i b2)
           (filter (\<lambda>e. key_of e = key) (List.map_filter prepare (published acts))) \<and>
         (subscribed i b2 \<longrightarrow> received @ subscription_queue i b2 =
           filter (\<lambda>e. key_of e = key) (List.map_filter prepare (published acts)))"
proof -
  have inv: "broker_inv b1" using assms(1,2) by (rule broker_subscribe_inv)
  note fresh = subscribe_fresh [OF assms(2), of key_of]
  have "drive (\<lambda>e. broker_deliver (key_of e) e) (broker_receive i) (prepared_actions prepare acts) b1 = (received, b2)"
    using assms(3) by (simp add: drive_publish)
  from broker_feed.in_order [OF inv _ this] fresh show ?thesis
    by (simp add: published_prepared)
qed

section \<open>Valid batches\<close>

definition valid_committed_value :: "data_type \<Rightarrow> gval \<Rightarrow> bool" where
  "valid_committed_value d v =
     (case d of
        DTBool \<Rightarrow> (case v of VBool b \<Rightarrow> True | _ \<Rightarrow> False)
      | DTInt16 \<Rightarrow> (case v of VInt16 w \<Rightarrow> True | _ \<Rightarrow> False)
      | DTUInt16 \<Rightarrow> (case v of VUInt16 w \<Rightarrow> True | _ \<Rightarrow> False)
      | DTInt32 \<Rightarrow> (case v of VInt32 w \<Rightarrow> True | _ \<Rightarrow> False)
      | DTUInt32 \<Rightarrow> (case v of VUInt32 w \<Rightarrow> True | _ \<Rightarrow> False)
      | DTFloat32 \<Rightarrow> (case v of VFloat32 x \<Rightarrow> True | _ \<Rightarrow> False)
      | DTFloat64 \<Rightarrow> (case v of VFloat64 x \<Rightarrow> True | _ \<Rightarrow> False)
      | DTOther s \<Rightarrow> False)"

lemma has_data_type_committed: "has_data_type d v \<Longrightarrow> valid_committed_value d v"
  by (cases d) (auto simp: valid_committed_value_def)

text \<open>The part of the loop's body after the duplicate check, and the loop.\<close>

definition valid_committed_payload :: "raw_sample \<Rightarrow> bool" where
  "valid_committed_payload s =
     (case rs_quality s of
        QualityGood \<Rightarrow> rs_error s = [] \<and> valid_committed_value (rs_data_type s) (rs_value s)
      | QualityBad \<Rightarrow> rs_value s = VNil \<and> trim_space (rs_error s) \<noteq> []
      | QualityOther q \<Rightarrow> False)"

fun valid_committed_samples :: "uuid set \<Rightarrow> raw_sample list \<Rightarrow> bool" where
  "valid_committed_samples seen [] = True"
| "valid_committed_samples seen (s # ss) =
     (if rs_tag_id s = uuid_nil \<or> rs_observed_at s = 0 \<or> \<not> valid_tag_data_type (rs_data_type s) then False
      else if rs_tag_id s \<in> seen then False
      else valid_committed_payload s \<and> valid_committed_samples (insert (rs_tag_id s) seen) ss)"

definition valid_committed_batch :: "raw_batch \<Rightarrow> bool" where
  "valid_committed_batch b \<longleftrightarrow>
     \<not> (rb_logger_id b = uuid_nil \<or> rb_batch_at b = 0 \<or> rb_samples b = []) \<and>
     valid_committed_samples {} (rb_samples b)"

definition clone_raw_sample :: "raw_sample \<Rightarrow> raw_sample" where
  "clone_raw_sample s = (if rs_quality s = QualityBad then s\<lparr>rs_error := trim_space (rs_error s)\<rparr> else s)"

definition clone_raw_batch :: "raw_batch \<Rightarrow> raw_batch" where
  "clone_raw_batch b = b\<lparr>rb_samples := map clone_raw_sample (rb_samples b)\<rparr>"

lemma clone_raw_batch_idem [simp]: "clone_raw_batch (clone_raw_batch b) = clone_raw_batch b"
  by (simp add: clone_raw_batch_def clone_raw_sample_def)

lemma clone_raw_batch_key [simp]:
  "rb_logger_id (clone_raw_batch b) = rb_logger_id b" "rb_batch_at (clone_raw_batch b) = rb_batch_at b"
  by (simp_all add: clone_raw_batch_def)

lemma valid_committed_samples_iff:
  "valid_committed_samples seen ss \<longleftrightarrow>
     distinct (map rs_tag_id ss) \<and> seen \<inter> rs_tag_id ` set ss = {} \<and>
     (\<forall>s \<in> set ss. rs_tag_id s \<noteq> uuid_nil \<and> rs_observed_at s \<noteq> 0 \<and> valid_tag_data_type (rs_data_type s) \<and>
        valid_committed_payload s)"
  by (induction seen ss rule: valid_committed_samples.induct) auto

lemma clone_raw_sample_keeps [simp]:
  "rs_tag_id (clone_raw_sample s) = rs_tag_id s" "rs_observed_at (clone_raw_sample s) = rs_observed_at s"
  "rs_data_type (clone_raw_sample s) = rs_data_type s"
  "valid_committed_payload (clone_raw_sample s) = valid_committed_payload s"
  by (simp_all add: clone_raw_sample_def valid_committed_payload_def)

lemma clone_valid: "valid_committed_batch (clone_raw_batch b) = valid_committed_batch b"
  by (simp add: valid_committed_batch_def valid_committed_samples_iff clone_raw_batch_def o_def image_image)

section \<open>The broker and the feed\<close>

text \<open>\<open>PublishCommittedBatch\<close> copies the batch once, and again for every subscriber.\<close>

definition prepare_committed_batch :: "raw_batch \<Rightarrow> raw_batch option" where
  "prepare_committed_batch b =
     (if \<not> valid_committed_batch b then None else Some (clone_raw_batch (clone_raw_batch b)))"

definition publish_committed_batch :: "raw_batch \<Rightarrow> raw_batch broker \<Rightarrow> raw_batch broker" where
  "publish_committed_batch = broker_publish rb_logger_id prepare_committed_batch"

text \<open>The feed's \<open>Latest\<close>: \<open>reader\<close> is the history's \<open>LatestBatch\<close>.\<close>

datatype feed_error = FeedInvalidInput | FeedBatchNotFound | FeedReader string

definition feed_latest :: "(uuid \<Rightarrow> string + raw_batch option) \<Rightarrow> uuid \<Rightarrow> feed_error + raw_batch" where
  "feed_latest reader logger_id =
     (if logger_id = uuid_nil then Inl FeedInvalidInput
      else case reader logger_id of
        Inl e \<Rightarrow> Inl (FeedReader e)
      | Inr None \<Rightarrow> Inl FeedBatchNotFound
      | Inr (Some b) \<Rightarrow> Inr (clone_raw_batch b))"

section \<open>Captured batches\<close>

text \<open>
  A snapshot as the value store yields it: typed good values, and errors with something in them.
\<close>

definition snapshot_ok :: "(uuid \<rightharpoonup> snapshot_value) \<Rightarrow> bool" where
  "snapshot_ok snapshot \<longleftrightarrow> (\<forall>t v. snapshot t = Some v \<longrightarrow>
     (sv_quality v = QualityGood \<longrightarrow> has_data_type (sv_data_type v) (sv_value v)) \<and>
     (sv_quality v = QualityBad \<longrightarrow> sv_error v = [] \<or> trim_space (sv_error v) \<noteq> []))"

lemma fixed_errors:
  "trim_space missing_snapshot_error \<noteq> []" "trim_space type_mismatch_error \<noteq> []"
  "trim_space invalid_quality_error \<noteq> []"
proof -
  have t: "trim_space missing_snapshot_error = missing_snapshot_error"
    "trim_space type_mismatch_error = type_mismatch_error"
    "trim_space invalid_quality_error = invalid_quality_error"
    unfolding missing_snapshot_error_def type_mismatch_error_def invalid_quality_error_def
    by (rule trim_space_plain; simp add: plain_char_ascii)+
  show "trim_space missing_snapshot_error \<noteq> []" "trim_space type_mismatch_error \<noteq> []"
    "trim_space invalid_quality_error \<noteq> []"
    unfolding t by (simp_all add: missing_snapshot_error_def type_mismatch_error_def invalid_quality_error_def)
qed

lemma bad_sample_committed:
  "batch_at \<noteq> 0 \<Longrightarrow> trim_space message \<noteq> [] \<Longrightarrow>
   rs_observed_at (bad_sample r t batch_at message) \<noteq> 0 \<and> valid_committed_payload (bad_sample r t batch_at message)"
  by (simp add: bad_sample_def valid_committed_payload_def)

lemma captured_sample_fields:
  "rs_tag_id (raw_sample_from_snapshot r found batch_at) = ref_id r \<and>
   rs_data_type (raw_sample_from_snapshot r found batch_at) = ref_data_type r"
  by (simp add: raw_sample_from_snapshot_def bad_sample_def split: option.split quality.split)

lemma captured_sample_committed:
  assumes "snapshot_ok snapshot" and "batch_at \<noteq> 0"
  shows "rs_observed_at (raw_sample_from_snapshot r (snapshot t) batch_at) \<noteq> 0 \<and>
         valid_committed_payload (raw_sample_from_snapshot r (snapshot t) batch_at)"
proof (cases "snapshot t")
  case (Some v)
  note ok = assms(1) [unfolded snapshot_ok_def, rule_format, OF Some]
  show ?thesis
    using ok assms(2) fixed_errors
    by (auto simp: Some raw_sample_from_snapshot_def bad_sample_def valid_committed_payload_def
        has_data_type_committed split: quality.split)
qed (use assms(2) fixed_errors in \<open>simp add: raw_sample_from_snapshot_def bad_sample_committed\<close>)

lemma captured_batch_committed:
  assumes "lg_id lg \<noteq> uuid_nil" "lg_tags lg \<noteq> []" "tags_valid lg" "distinct (map ref_id (lg_tags lg))"
    and "snapshot_ok snapshot" and "batch_at \<noteq> 0"
  shows "valid_committed_batch (capture_batch lg snapshot batch_at)"
  using assms captured_sample_committed [OF assms(5,6)]
  by (auto simp: valid_committed_batch_def valid_committed_samples_iff capture_batch_def o_def tags_valid_def
      captured_sample_fields)

section \<open>Properties\<close>

text \<open>
  C17: A subscription to a logger receives the valid batches committed for that logger from then
  on, each once, in the order of their commits and in its normal form: what it has received and
  what waits in its channel is always a prefix of them, and all of them as long as it has not been
  disconnected.
\<close>

theorem committed_batches_in_order:
  assumes "broker_inv b" and "broker_subscribe logger_id b = (Inr i, b1)"
    and "drive publish_committed_batch (broker_receive i) acts b1 = (received, b2)"
  shows "prefix (received @ subscription_queue i b2)
           [clone_raw_batch e. e \<leftarrow> published acts, valid_committed_batch e \<and> rb_logger_id e = logger_id] \<and>
         (i \<in> br_subscribers b2 \<longrightarrow> received @ subscription_queue i b2 =
           [clone_raw_batch e. e \<leftarrow> published acts, valid_committed_batch e \<and> rb_logger_id e = logger_id])"
proof -
  have eq: "filter (\<lambda>e. rb_logger_id e = logger_id) (List.map_filter prepare_committed_batch es) =
      [clone_raw_batch e. e \<leftarrow> es, valid_committed_batch e \<and> rb_logger_id e = logger_id]" for es
    by (induction es) (auto simp: List.map_filter_simps prepare_committed_batch_def)
  from broker_subscription_in_order [OF assms(1,2) assms(3) [unfolded publish_committed_batch_def]]
  show ?thesis unfolding eq subscribed_def .
qed

definition example_batch :: "int \<Rightarrow> raw_batch" where
  "example_batch t = \<lparr>rb_logger_id = 7, rb_batch_at = t,
     rb_samples = [\<lparr>rs_tag_id = 1, rs_observed_at = t, rs_data_type = DTInt16, rs_value = VInt16 5,
       rs_quality = QualityGood, rs_error = []\<rparr>]\<rparr>"

definition example_broker :: "raw_batch broker" where
  "example_broker = \<lparr>br_buffer = 1, br_subscribers = {}, br_subscriptions = Map.empty, br_next = 0\<rparr>"

theorem committed_batches_in_order_witness:
  "prefix [example_batch 10] [example_batch 10, example_batch 20]"
proof -
  have inv: "broker_inv example_broker" by (simp add: broker_inv_def example_broker_def)
  let ?acts = "[Publish (example_batch 10), Receive, Publish ((example_batch 15)\<lparr>rb_samples := []\<rparr>),
    Publish ((example_batch 15)\<lparr>rb_logger_id := 8\<rparr>), Publish (example_batch 20)]"
  obtain r b2 where run: "drive publish_committed_batch (broker_receive 0) ?acts (snd (broker_subscribe 7 example_broker)) = (r, b2)"
    by (cases "drive publish_committed_batch (broker_receive 0) ?acts (snd (broker_subscribe 7 example_broker))")
  have sub: "broker_subscribe 7 example_broker = (Inr 0, snd (broker_subscribe 7 example_broker))"
    by (simp add: broker_subscribe_def example_broker_def)
  have "r = [example_batch 10]"
    using run
    by (simp add: broker_subscribe_def example_broker_def make_chan_def publish_committed_batch_def
        broker_publish_def prepare_committed_batch_def broker_deliver_def offer_event_def chan_offer_def
        broker_receive_def chan_poll_def valid_committed_batch_def valid_committed_payload_def
        valid_committed_value_def clone_raw_batch_def clone_raw_sample_def example_batch_def Let_def split: if_splits)
  then show ?thesis
    using committed_batches_in_order [OF inv sub run]
    by (auto simp: valid_committed_batch_def valid_committed_payload_def valid_committed_value_def
      clone_raw_batch_def clone_raw_sample_def example_batch_def prefix_def)
qed

end
