(* ===== verification/Plugin_Output.thy ===== *)
theory Plugin_Output
  imports Batch_Broker
begin

text \<open>
  The outputs of plugin instances: \<open>internal/plugin/output.go\<close> (descriptors, values and their
  normalisation) and \<open>output_store.go\<close> (the scoped sink a plugin publishes to, the reader of the
  latest batch, and the broker's own normalisation). \<open>OutputBroker\<close> is the generic broker over
  output batches. A Go map of attributes is the list of its entries.
\<close>

section \<open>Data\<close>

datatype output_data_type =
    OutBool | OutInt16 | OutUInt16 | OutInt32 | OutUInt32 | OutFloat32 | OutFloat64 | OutString | OutOther string

datatype output_period_kind = PeriodInstantaneous | PeriodWindowed | PeriodOther string
datatype output_quality = OutputGood | OutputPartial | OutputBad | OutputQualityOther string

datatype output_error = ErrInvalidOutputDescriptor | ErrInvalidOutputBatch | ErrOutputBatchNotFound
  | ErrOutputBatchNotNewer | ErrOutputInvalidInput | ErrOutputRepository string

record output_descriptor =
  od_key :: string
  od_name :: string
  od_description :: string
  od_schema_version :: "64 word"
  od_data_type :: output_data_type
  od_unit :: string
  od_dynamic_unit :: bool
  od_period_kind :: output_period_kind

record output_issue =
  oi_code :: string
  oi_message :: string
  oi_source :: string
  oi_period_start :: "gotime option"
  oi_period_end :: "gotime option"

record output_value =
  ov_key :: string
  ov_schema_version :: "64 word"
  ov_data_type :: output_data_type
  ov_unit :: string
  ov_value :: gval
  ov_quality :: output_quality
  ov_error :: string
  ov_observed_at :: gotime
  ov_period_start :: gotime
  ov_period_end :: gotime
  ov_coverage :: "fl option"
  ov_issues :: "output_issue list"
  ov_attributes :: "(string \<times> string) list option"

record output_batch =
  ob_instance_id :: uuid
  ob_sequence :: "64 word"
  ob_published_at :: gotime
  ob_values :: "output_value list"

definition max_plugin_outputs :: nat where "max_plugin_outputs = 128"

section \<open>Descriptors\<close>

text \<open>The two regular expressions are the same: a letter and at most 63 of \<open>[a-z0-9_.-]\<close>.\<close>

definition lower_letter :: "char \<Rightarrow> bool" where
  "lower_letter c \<longleftrightarrow> 97 \<le> byte_of c \<and> byte_of c \<le> 122"

definition output_key_char :: "char \<Rightarrow> bool" where
  "output_key_char c \<longleftrightarrow> lower_letter c \<or> is_digit c \<or> c = CHR ''_'' \<or> c = CHR ''.'' \<or> c = CHR ''-''"

definition output_key_pattern :: "string \<Rightarrow> bool" where
  "output_key_pattern s \<longleftrightarrow> s \<noteq> [] \<and> lower_letter (hd s) \<and> list_all output_key_char (tl s) \<and> length s \<le> 64"

definition valid_output_data_type :: "output_data_type \<Rightarrow> bool" where
  "valid_output_data_type d \<longleftrightarrow> (case d of OutOther s \<Rightarrow> False | _ \<Rightarrow> True)"

definition descriptor_ok :: "output_descriptor \<Rightarrow> bool" where
  "descriptor_ok d \<longleftrightarrow>
     \<not> (od_name d = [] \<or> od_name d \<noteq> trim_space (od_name d) \<or> length (od_name d) > 100) \<and>
     \<not> (od_description d \<noteq> trim_space (od_description d) \<or> length (od_description d) > 500) \<and>
     od_schema_version d \<noteq> 0 \<and> valid_output_data_type (od_data_type d) \<and>
     \<not> (od_unit d \<noteq> trim_space (od_unit d) \<or> length (od_unit d) > 32) \<and>
     \<not> (od_dynamic_unit d \<and> od_unit d \<noteq> []) \<and>
     (od_period_kind d = PeriodInstantaneous \<or> od_period_kind d = PeriodWindowed)"

definition check_descriptor :: "output_descriptor \<Rightarrow> string set \<Rightarrow> output_error + string set" where
  "check_descriptor d seen =
     (if \<not> output_key_pattern (od_key d) then Inl ErrInvalidOutputDescriptor
      else if od_key d \<in> seen then Inl ErrInvalidOutputDescriptor
      else if \<not> descriptor_ok d then Inl ErrInvalidOutputDescriptor
      else Inr (insert (od_key d) seen))"

definition validate_output_descriptors :: "output_descriptor list \<Rightarrow> output_error + unit" where
  "validate_output_descriptors ds =
     (if length ds > max_plugin_outputs then Inl ErrInvalidOutputDescriptor
      else bindE (foldE check_descriptor ds {}) (\<lambda>seen. Inr ()))"

section \<open>Values\<close>

definition output_schema_ok :: "output_value \<Rightarrow> output_descriptor \<Rightarrow> bool" where
  "output_schema_ok v d \<longleftrightarrow>
     \<not> (ov_schema_version v \<noteq> od_schema_version d \<or> ov_data_type v \<noteq> od_data_type d) \<and>
     \<not> (ov_unit v \<noteq> trim_space (ov_unit v) \<or> length (ov_unit v) > 32) \<and>
     (if od_dynamic_unit d then ov_unit v \<noteq> [] else ov_unit v = od_unit d)"

definition output_times_ok :: "output_value \<Rightarrow> output_period_kind \<Rightarrow> gotime \<Rightarrow> bool" where
  "output_times_ok v kind published_at \<longleftrightarrow>
     \<not> (ov_observed_at v = 0 \<or> ov_period_start v = 0 \<or> ov_period_end v = 0 \<or> ov_period_start v > ov_period_end v) \<and>
     \<not> (ov_observed_at v < ov_period_end v \<or> published_at < ov_observed_at v) \<and>
     (if kind = PeriodInstantaneous
      then \<not> (ov_period_start v \<noteq> ov_period_end v \<or> ov_period_start v \<noteq> ov_observed_at v)
      else ov_period_start v < ov_period_end v)"

definition normalize_coverage :: "fl option \<Rightarrow> output_error + fl option" where
  "normalize_coverage c =
     (case c of
        None \<Rightarrow> Inr None
      | Some x \<Rightarrow>
          if \<not> fl_finite x \<or> fl_less x (FZero False) \<or> fl_less (FNum 100) x then Inl ErrInvalidOutputBatch
          else Inr (Some x))"

definition issue_period_ok :: "gotime \<Rightarrow> gotime \<Rightarrow> output_issue \<Rightarrow> bool" where
  "issue_period_ok period_start period_end i =
     (case (oi_period_start i, oi_period_end i) of
        (None, None) \<Rightarrow> True
      | (Some s, Some e) \<Rightarrow> \<not> (s > e \<or> s < period_start \<or> e > period_end)
      | _ \<Rightarrow> False)"

definition normalize_output_issue :: "gotime \<Rightarrow> gotime \<Rightarrow> output_issue \<Rightarrow> output_issue list \<Rightarrow> output_error + output_issue list" where
  "normalize_output_issue period_start period_end i0 acc =
     (let i = i0\<lparr>oi_message := trim_space (oi_message i0), oi_source := trim_space (oi_source i0)\<rparr>
      in if \<not> output_key_pattern (oi_code i) \<or> oi_message i = [] \<or> length (oi_message i) > 1000 \<or> length (oi_source i) > 200
         then Inl ErrInvalidOutputBatch
         else if \<not> issue_period_ok period_start period_end i then Inl ErrInvalidOutputBatch
         else Inr (acc @ [i]))"

definition normalize_output_issues :: "output_issue list \<Rightarrow> gotime \<Rightarrow> gotime \<Rightarrow> output_error + output_issue list" where
  "normalize_output_issues is period_start period_end =
     (if length is > 64 then Inl ErrInvalidOutputBatch
      else foldE (normalize_output_issue period_start period_end) is [])"

definition attribute_ok :: "string \<times> string \<Rightarrow> bool" where
  "attribute_ok a \<longleftrightarrow> output_key_pattern (fst a) \<and> snd a = trim_space (snd a) \<and> length (snd a) \<le> 500"

definition normalize_output_attributes :: "(string \<times> string) list option \<Rightarrow> output_error + (string \<times> string) list option" where
  "normalize_output_attributes as =
     (case as of
        None \<Rightarrow> Inr None
      | Some kvs \<Rightarrow> if length kvs > 32 then Inl ErrInvalidOutputBatch
          else if \<not> list_all attribute_ok kvs then Inl ErrInvalidOutputBatch else Inr (Some kvs))"

text \<open>A value of the exact dynamic type of its data type, finite or not too long.\<close>

definition normalize_output_typed_value :: "output_data_type \<Rightarrow> gval \<Rightarrow> gval option" where
  "normalize_output_typed_value d v =
     (case d of
        OutBool \<Rightarrow> (case v of VBool b \<Rightarrow> Some v | _ \<Rightarrow> None)
      | OutInt16 \<Rightarrow> (case v of VInt16 w \<Rightarrow> Some v | _ \<Rightarrow> None)
      | OutUInt16 \<Rightarrow> (case v of VUInt16 w \<Rightarrow> Some v | _ \<Rightarrow> None)
      | OutInt32 \<Rightarrow> (case v of VInt32 w \<Rightarrow> Some v | _ \<Rightarrow> None)
      | OutUInt32 \<Rightarrow> (case v of VUInt32 w \<Rightarrow> Some v | _ \<Rightarrow> None)
      | OutFloat32 \<Rightarrow> (case v of VFloat32 x \<Rightarrow> if fl_finite x then Some v else None | _ \<Rightarrow> None)
      | OutFloat64 \<Rightarrow> (case v of VFloat64 x \<Rightarrow> if fl_finite x then Some v else None | _ \<Rightarrow> None)
      | OutString \<Rightarrow> (case v of VString s \<Rightarrow> if length s \<le> 4096 then Some v else None | _ \<Rightarrow> None)
      | OutOther s \<Rightarrow> None)"

lemma normalize_output_typed_value_id: "normalize_output_typed_value d v = Some w \<Longrightarrow> w = v"
  by (auto simp: normalize_output_typed_value_def split: output_data_type.splits gval.splits if_splits)

definition output_quality_ok :: "output_quality \<Rightarrow> gval \<Rightarrow> string \<Rightarrow> output_issue list \<Rightarrow> fl option \<Rightarrow> bool" where
  "output_quality_ok q value err issues coverage =
     (case q of
        OutputGood \<Rightarrow> \<not> (err \<noteq> [] \<or> issues \<noteq> [] \<or> (\<exists>c. coverage = Some c \<and> \<not> fl_eq c (FNum 100)))
      | OutputPartial \<Rightarrow> \<not> (err \<noteq> [] \<or> issues = [] \<and> (case coverage of None \<Rightarrow> True | Some c \<Rightarrow> fl_le (FNum 100) c))
      | OutputBad \<Rightarrow> \<not> (value \<noteq> VNil \<or> err = [])
      | OutputQualityOther s \<Rightarrow> False)"

definition typed_output_value :: "output_value \<Rightarrow> output_error + gval" where
  "typed_output_value v =
     (if ov_quality v = OutputBad then Inr (ov_value v)
      else case normalize_output_typed_value (ov_data_type v) (ov_value v) of
        None \<Rightarrow> Inl ErrInvalidOutputBatch | Some t \<Rightarrow> Inr t)"

definition normalize_output_value :: "output_value \<Rightarrow> output_descriptor \<Rightarrow> gotime \<Rightarrow> output_error + output_value" where
  "normalize_output_value v d published_at =
     (if \<not> output_schema_ok v d \<or> \<not> output_times_ok v (od_period_kind d) published_at then Inl ErrInvalidOutputBatch
      else bindE (normalize_coverage (ov_coverage v)) (\<lambda>coverage.
        if od_period_kind d = PeriodInstantaneous \<and> coverage \<noteq> None then Inl ErrInvalidOutputBatch
        else bindE (normalize_output_issues (ov_issues v) (ov_period_start v) (ov_period_end v)) (\<lambda>issues.
          bindE (normalize_output_attributes (ov_attributes v)) (\<lambda>attributes.
            let err = trim_space (ov_error v)
            in if length err > 1000 then Inl ErrInvalidOutputBatch
               else if \<not> output_quality_ok (ov_quality v) (ov_value v) err issues coverage then Inl ErrInvalidOutputBatch
               else bindE (typed_output_value v) (\<lambda>value.
                 Inr (v\<lparr>ov_error := err, ov_value := value, ov_coverage := coverage, ov_issues := issues,
                        ov_attributes := attributes\<rparr>))))))"

section \<open>Batches\<close>

definition find_descriptor :: "output_descriptor list \<Rightarrow> string \<Rightarrow> output_descriptor option" where
  "find_descriptor ds k = map_of (rev (map (\<lambda>d. (od_key d, d)) ds)) k"

text \<open>The keys seen are the keys of the values normalised so far.\<close>

definition add_output_value ::
  "output_descriptor list \<Rightarrow> gotime \<Rightarrow> output_value \<Rightarrow> output_value list \<Rightarrow> output_error + output_value list" where
  "add_output_value ds published_at v acc =
     (case find_descriptor ds (ov_key v) of
        None \<Rightarrow> Inl ErrInvalidOutputBatch
      | Some d \<Rightarrow>
          if ov_key v \<in> ov_key ` set acc then Inl ErrInvalidOutputBatch
          else bindE (normalize_output_value v d published_at) (\<lambda>e. Inr (acc @ [e])))"

definition normalize_output_batch :: "output_batch \<Rightarrow> output_descriptor list \<Rightarrow> output_error + output_batch" where
  "normalize_output_batch b ds =
     (case validate_output_descriptors ds of
        Inl e \<Rightarrow> Inl ErrInvalidOutputBatch
      | Inr u \<Rightarrow>
          if ob_instance_id b = uuid_nil \<or> ob_sequence b = 0 \<or> ob_published_at b = 0 \<or> ob_values b = []
             \<or> length (ob_values b) > max_plugin_outputs
          then Inl ErrInvalidOutputBatch
          else bindE (foldE (add_output_value ds (ob_published_at b)) (ob_values b) [])
                 (\<lambda>vs. Inr (b\<lparr>ob_values := vs\<rparr>)))"

definition output_batch_source_at :: "output_batch \<Rightarrow> gotime" where
  "output_batch_source_at b = foldl (\<lambda>t v. if ov_observed_at v > t then ov_observed_at v else t) 0 (ob_values b)"

definition normalize_complete_output_batch :: "output_batch \<Rightarrow> output_descriptor list \<Rightarrow> output_error + output_batch" where
  "normalize_complete_output_batch b ds =
     bindE (normalize_output_batch b ds) (\<lambda>n.
       if ds = [] \<or> length (ob_values n) \<noteq> length ds then Inl ErrInvalidOutputBatch
       else if \<exists>v \<in> set (tl (ob_values n)). ov_observed_at v \<noteq> ov_observed_at (hd (ob_values n))
       then Inl ErrInvalidOutputBatch
       else Inr n)"

definition published_descriptor :: "output_value \<Rightarrow> output_descriptor" where
  "published_descriptor v =
     \<lparr>od_key = ov_key v, od_name = ov_key v, od_description = [], od_schema_version = ov_schema_version v,
      od_data_type = ov_data_type v, od_unit = ov_unit v, od_dynamic_unit = False,
      od_period_kind = (if ov_period_start v = ov_period_end v \<and> ov_period_start v = ov_observed_at v
                        then PeriodInstantaneous else PeriodWindowed)\<rparr>"

definition normalize_published_output_batch :: "output_batch \<Rightarrow> output_batch option" where
  "normalize_published_output_batch b =
     (case normalize_output_batch b (map published_descriptor (ob_values b)) of Inl e \<Rightarrow> None | Inr n \<Rightarrow> Some n)"

text \<open>The broker of output batches is the generic one.\<close>

definition new_output_broker :: "int list \<Rightarrow> broker_error + output_batch broker" where
  "new_output_broker = new_broker"

definition output_subscribe :: "uuid \<Rightarrow> output_batch broker \<Rightarrow> (broker_error + nat) \<times> output_batch broker" where
  "output_subscribe = broker_subscribe"

definition close_output_subscription :: "nat \<Rightarrow> output_batch broker \<Rightarrow> output_batch broker" where
  "close_output_subscription = broker_close"

definition output_subscription_err :: "nat \<Rightarrow> output_batch broker \<Rightarrow> broker_error option" where
  "output_subscription_err = broker_err"

definition publish_output_batch :: "output_batch \<Rightarrow> output_batch broker \<Rightarrow> output_batch broker" where
  "publish_output_batch = broker_publish ob_instance_id normalize_published_output_batch"

section \<open>The store\<close>

text \<open>
  The sink's \<open>Publish\<close>; \<open>store_latest\<close> is the repository's \<open>StoreLatest\<close>, which gives the batch it
  stored and whether it accepted it.
\<close>

definition sink_publish ::
  "(output_batch \<Rightarrow> string + output_batch option \<times> bool) \<Rightarrow> uuid \<Rightarrow> output_descriptor list \<Rightarrow> gotime \<Rightarrow>
   output_value list \<Rightarrow> output_batch broker \<Rightarrow> (output_error + output_batch) \<times> output_batch broker" where
  "sink_publish store_latest instance_id ds now vs b =
     (case normalize_complete_output_batch
             \<lparr>ob_instance_id = instance_id, ob_sequence = 1, ob_published_at = now, ob_values = vs\<rparr> ds of
        Inl e \<Rightarrow> (Inl e, b)
      | Inr normalized \<Rightarrow>
          (case store_latest normalized of
             Inl e \<Rightarrow> (Inl (ErrOutputRepository e), b)
           | Inr (None, accepted) \<Rightarrow> (Inl ErrOutputBatchNotNewer, b)
           | Inr (Some stored, accepted) \<Rightarrow>
               if \<not> accepted then (Inl ErrOutputBatchNotNewer, b)
               else case normalize_complete_output_batch stored ds of
                 Inl e \<Rightarrow> (Inl e, b)
               | Inr batch \<Rightarrow> (Inr batch, publish_output_batch batch b)))"

text \<open>
  \<open>StoreLatest\<close> and \<open>Latest\<close> of \<open>postgres/output_repository.go\<close>: one row per instance, replaced only
  by a batch whose newest observation is newer, with the next sequence number. The two columns of
  type \<open>TIMESTAMPTZ\<close> keep microseconds; the values are JSON and keep their instants. The batch that
  \<open>StoreLatest\<close> answers is the one it was given, the one \<open>Latest\<close> reads is that of the row.
\<close>

definition column_time :: "gotime \<Rightarrow> gotime" where
  "column_time t = t - t mod 1000"

record output_row =
  or_sequence :: "64 word"
  or_source_at :: gotime
  or_batch :: output_batch

type_synonym output_table = "uuid \<rightharpoonup> output_row"

definition upsert_output :: "output_batch \<Rightarrow> output_table \<Rightarrow> (64 word \<times> output_table) option" where
  "upsert_output b db =
     (let row = (\<lambda>n. \<lparr>or_sequence = n, or_source_at = column_time (output_batch_source_at b),
                   or_batch = b\<lparr>ob_sequence := n, ob_published_at := column_time (ob_published_at b)\<rparr>\<rparr>)
      in case db (ob_instance_id b) of
           None \<Rightarrow> Some (1, db(ob_instance_id b \<mapsto> row 1))
         | Some r \<Rightarrow>
             if or_source_at r < column_time (output_batch_source_at b)
             then Some (or_sequence r + 1, db(ob_instance_id b \<mapsto> row (or_sequence r + 1))) else None)"

definition store_latest_output :: "output_batch \<Rightarrow> output_table \<Rightarrow> (string + output_batch option \<times> bool) \<times> output_table" where
  "store_latest_output b db =
     (if ob_instance_id b = uuid_nil \<or> ob_sequence b = 0 \<or> ob_published_at b = 0 \<or> ob_values b = [] \<or>
         output_batch_source_at b = 0
      then (Inl ''invalid Plugin output batch'', db)
      else case upsert_output b db of
        None \<Rightarrow> (Inr (None, False), db)
      | Some (n, db') \<Rightarrow> (Inr (Some (b\<lparr>ob_sequence := n\<rparr>), True), db'))"

definition latest_output_row :: "output_table \<Rightarrow> uuid \<Rightarrow> string + output_batch option" where
  "latest_output_row db i = Inr (map_option (\<lambda>r. (or_batch r)\<lparr>ob_sequence := or_sequence r\<rparr>) (db i))"

text \<open>The sink over that repository.\<close>

definition sink_publish_stored ::
  "uuid \<Rightarrow> output_descriptor list \<Rightarrow> gotime \<Rightarrow> output_value list \<Rightarrow> output_table \<times> output_batch broker \<Rightarrow>
   (output_error + output_batch) \<times> output_table \<times> output_batch broker" where
  "sink_publish_stored instance_id ds now vs s =
     (let candidate = \<lparr>ob_instance_id = instance_id, ob_sequence = 1, ob_published_at = now, ob_values = vs\<rparr>;
          (r, b) = sink_publish (\<lambda>n. fst (store_latest_output n (fst s))) instance_id ds now vs (snd s);
          db = (case normalize_complete_output_batch candidate ds of
                  Inl e \<Rightarrow> fst s | Inr n \<Rightarrow> snd (store_latest_output n (fst s)))
      in (r, db, b))"

definition output_latest ::
  "(uuid \<Rightarrow> string + output_batch option) \<Rightarrow> (uuid \<Rightarrow> string + output_descriptor list) \<Rightarrow> uuid \<Rightarrow> output_error + output_batch" where
  "output_latest latest resolver instance_id =
     (if instance_id = uuid_nil then Inl ErrOutputInvalidInput
      else case latest instance_id of
        Inl e \<Rightarrow> Inl (ErrOutputRepository e)
      | Inr None \<Rightarrow> Inl ErrOutputBatchNotFound
      | Inr (Some batch) \<Rightarrow>
          (case resolver instance_id of
             Inl e \<Rightarrow> Inl (ErrOutputRepository e)
           | Inr ds \<Rightarrow> normalize_complete_output_batch batch ds))"

section \<open>Normal forms\<close>

lemma normalize_coverage_id: "normalize_coverage c = Inr c' \<Longrightarrow> c' = c"
  by (auto simp: normalize_coverage_def split: option.splits if_splits)

lemma normalize_output_attributes_id: "normalize_output_attributes a = Inr a' \<Longrightarrow> a' = a"
  by (auto simp: normalize_output_attributes_def split: option.splits if_splits)

definition issue_normal :: "gotime \<Rightarrow> gotime \<Rightarrow> output_issue \<Rightarrow> bool" where
  "issue_normal ps pe i \<longleftrightarrow> (\<forall>acc. normalize_output_issue ps pe i acc = Inr (acc @ [i]))"

lemma normalize_output_issue_normal:
  "normalize_output_issue ps pe i acc = Inr acc' \<Longrightarrow> \<exists>j. acc' = acc @ [j] \<and> issue_normal ps pe j"
  by (auto simp: normalize_output_issue_def issue_normal_def issue_period_ok_def Let_def split: if_splits option.splits)

lemma foldE_issue_normal:
  "foldE (normalize_output_issue ps pe) is acc = Inr js \<Longrightarrow> list_all (issue_normal ps pe) acc \<Longrightarrow>
   list_all (issue_normal ps pe) js \<and> length js = length acc + length is"
proof (induction "is" arbitrary: acc)
  case (Cons i "is")
  then obtain acc' where a: "normalize_output_issue ps pe i acc = Inr acc'"
    "foldE (normalize_output_issue ps pe) is acc' = Inr js" by (auto simp: bindE_Inr_iff)
  with normalize_output_issue_normal [OF a(1)] Cons show ?case by auto
qed simp

lemma foldE_issue_id:
  "list_all (issue_normal ps pe) is \<Longrightarrow> foldE (normalize_output_issue ps pe) is acc = Inr (acc @ is)"
  by (induction "is" arbitrary: acc) (simp_all add: issue_normal_def)

lemma normalize_output_issues_idem:
  "normalize_output_issues is ps pe = Inr js \<Longrightarrow> normalize_output_issues js ps pe = Inr js"
  using foldE_issue_normal [of ps pe "is" "[]" js] foldE_issue_id [of ps pe js "[]"]
  by (auto simp: normalize_output_issues_def split: if_splits)

lemma typed_output_value_id: "typed_output_value v = Inr w \<Longrightarrow> w = ov_value v"
  by (auto simp: typed_output_value_def normalize_output_typed_value_id split: if_splits option.splits)

text \<open>What an accepted value is, and that accepting it again changes nothing.\<close>

lemma normalize_output_value_Inr:
  "normalize_output_value v d t = Inr w \<longleftrightarrow>
     output_schema_ok v d \<and> output_times_ok v (od_period_kind d) t \<and>
     normalize_coverage (ov_coverage v) = Inr (ov_coverage v) \<and>
     (od_period_kind d = PeriodInstantaneous \<longrightarrow> ov_coverage v = None) \<and>
     (\<exists>issues. normalize_output_issues (ov_issues v) (ov_period_start v) (ov_period_end v) = Inr issues \<and>
        normalize_output_attributes (ov_attributes v) = Inr (ov_attributes v) \<and>
        length (trim_space (ov_error v)) \<le> 1000 \<and>
        output_quality_ok (ov_quality v) (ov_value v) (trim_space (ov_error v)) issues (ov_coverage v) \<and>
        typed_output_value v = Inr (ov_value v) \<and>
        w = v\<lparr>ov_error := trim_space (ov_error v), ov_issues := issues\<rparr>)"
proof
  assume n: "normalize_output_value v d t = Inr w"
  then obtain c issues a x where parts: "normalize_coverage (ov_coverage v) = Inr c"
    "normalize_output_issues (ov_issues v) (ov_period_start v) (ov_period_end v) = Inr issues"
    "normalize_output_attributes (ov_attributes v) = Inr a" "typed_output_value v = Inr x"
    "w = v\<lparr>ov_error := trim_space (ov_error v), ov_value := x, ov_coverage := c, ov_issues := issues, ov_attributes := a\<rparr>"
    "output_quality_ok (ov_quality v) (ov_value v) (trim_space (ov_error v)) issues c"
    "od_period_kind d = PeriodInstantaneous \<longrightarrow> c = None"
    by (auto simp: normalize_output_value_def bindE_Inr_iff Let_def split: if_splits)
  note same = normalize_coverage_id [OF parts(1)] normalize_output_attributes_id [OF parts(3)]
    typed_output_value_id [OF parts(4)]
  show "output_schema_ok v d \<and> output_times_ok v (od_period_kind d) t \<and>
     normalize_coverage (ov_coverage v) = Inr (ov_coverage v) \<and>
     (od_period_kind d = PeriodInstantaneous \<longrightarrow> ov_coverage v = None) \<and>
     (\<exists>issues. normalize_output_issues (ov_issues v) (ov_period_start v) (ov_period_end v) = Inr issues \<and>
        normalize_output_attributes (ov_attributes v) = Inr (ov_attributes v) \<and>
        length (trim_space (ov_error v)) \<le> 1000 \<and>
        output_quality_ok (ov_quality v) (ov_value v) (trim_space (ov_error v)) issues (ov_coverage v) \<and>
        typed_output_value v = Inr (ov_value v) \<and>
        w = v\<lparr>ov_error := trim_space (ov_error v), ov_issues := issues\<rparr>)"
    using n parts same
    by (intro conjI exI [of _ issues]) (auto simp: normalize_output_value_def Let_def split: if_splits)
qed (auto simp: normalize_output_value_def Let_def)

lemma output_checks_cong:
  "output_schema_ok (v\<lparr>ov_error := x, ov_issues := is\<rparr>) d = output_schema_ok v d"
  "output_times_ok (v\<lparr>ov_error := x, ov_issues := is\<rparr>) k t = output_times_ok v k t"
  "typed_output_value (v\<lparr>ov_error := x, ov_issues := is\<rparr>) = typed_output_value v"
  by (simp_all add: output_schema_ok_def output_times_ok_def typed_output_value_def)

lemma normalize_output_value_idem:
  "normalize_output_value v d t = Inr w \<Longrightarrow> normalize_output_value w d t = Inr w"
  by (auto simp: normalize_output_value_Inr output_checks_cong normalize_output_issues_idem)

lemma normalize_output_value_key: "normalize_output_value v d t = Inr w \<Longrightarrow> ov_key w = ov_key v"
  by (auto simp: normalize_output_value_Inr)

definition output_normal :: "output_descriptor list \<Rightarrow> gotime \<Rightarrow> output_value \<Rightarrow> bool" where
  "output_normal ds t v \<longleftrightarrow> (\<exists>d. find_descriptor ds (ov_key v) = Some d \<and> normalize_output_value v d t = Inr v)"

lemma foldE_output_normal:
  "foldE (add_output_value ds t) vs acc = Inr ws \<Longrightarrow> list_all (output_normal ds t) acc \<Longrightarrow> distinct (map ov_key acc) \<Longrightarrow>
   list_all (output_normal ds t) ws \<and> distinct (map ov_key ws) \<and> length ws = length acc + length vs"
proof (induction vs arbitrary: acc)
  case (Cons v vs)
  then obtain acc' where step: "add_output_value ds t v acc = Inr acc'" "foldE (add_output_value ds t) vs acc' = Inr ws"
    by (auto simp: bindE_Inr_iff)
  then obtain d e where a: "find_descriptor ds (ov_key v) = Some d" "ov_key v \<notin> ov_key ` set acc"
    "normalize_output_value v d t = Inr e" "acc' = acc @ [e]"
    by (auto simp: bindE_Inr_iff add_output_value_def split: option.splits if_splits)
  have "output_normal ds t e"
    using a normalize_output_value_idem [OF a(3)] normalize_output_value_key [OF a(3)] by (auto simp: output_normal_def)
  with Cons.IH [OF step(2)] Cons.prems(2,3) a(2,4) normalize_output_value_key [OF a(3)] show ?case by auto
qed simp

lemma foldE_output_id:
  "list_all (output_normal ds t) vs \<Longrightarrow> distinct (map ov_key (acc @ vs)) \<Longrightarrow>
   foldE (add_output_value ds t) vs acc = Inr (acc @ vs)"
proof (induction vs arbitrary: acc)
  case (Cons v vs)
  then have "add_output_value ds t v acc = Inr (acc @ [v])" by (auto simp: output_normal_def add_output_value_def)
  with Cons.IH [of "acc @ [v]"] Cons.prems show ?case by simp
qed simp

definition output_batch_ok :: "output_descriptor list \<Rightarrow> output_batch \<Rightarrow> bool" where
  "output_batch_ok ds b \<longleftrightarrow>
     validate_output_descriptors ds = Inr () \<and> ob_instance_id b \<noteq> uuid_nil \<and> ob_sequence b \<noteq> 0 \<and>
     ob_published_at b \<noteq> 0 \<and> ob_values b \<noteq> [] \<and> length (ob_values b) \<le> max_plugin_outputs \<and>
     list_all (output_normal ds (ob_published_at b)) (ob_values b) \<and> distinct (map ov_key (ob_values b))"

lemma normalize_output_batch_ok: "normalize_output_batch b ds = Inr n \<Longrightarrow> output_batch_ok ds n"
  using foldE_output_normal [of ds "ob_published_at b" "ob_values b" "[]"]
  by (auto simp: normalize_output_batch_def output_batch_ok_def bindE_Inr_iff split: sum.splits if_splits)

lemma normalize_output_batch_id: "output_batch_ok ds b \<Longrightarrow> normalize_output_batch b ds = Inr b"
  using foldE_output_id [of ds "ob_published_at b" "ob_values b" "[]"]
  by (simp add: normalize_output_batch_def output_batch_ok_def)

lemma normalize_complete_id:
  "normalize_complete_output_batch b ds = Inr n \<Longrightarrow>
   output_batch_ok ds n \<and> normalize_complete_output_batch n ds = Inr n"
  by (auto simp: normalize_complete_output_batch_def bindE_Inr_iff normalize_output_batch_ok
      normalize_output_batch_id split: if_splits)

section \<open>The broker accepts what the sink stored\<close>

lemma foldE_check_descriptor:
  "foldE check_descriptor ds seen = Inr t \<longleftrightarrow>
     t = seen \<union> od_key ` set ds \<and> distinct (map od_key ds) \<and> seen \<inter> od_key ` set ds = {} \<and>
     (\<forall>d \<in> set ds. output_key_pattern (od_key d) \<and> descriptor_ok d)"
  by (induction ds arbitrary: seen) (auto simp: check_descriptor_def bindE_Inr_iff split: if_splits)

lemma validate_output_descriptors_ok:
  "validate_output_descriptors ds = Inr u \<longleftrightarrow>
     length ds \<le> max_plugin_outputs \<and> distinct (map od_key ds) \<and>
     (\<forall>d \<in> set ds. output_key_pattern (od_key d) \<and> descriptor_ok d)"
  by (auto simp: validate_output_descriptors_def bindE_Inr_iff foldE_check_descriptor split: if_splits)

lemma find_descriptor_Some: "find_descriptor ds k = Some d \<Longrightarrow> d \<in> set ds \<and> od_key d = k"
  unfolding find_descriptor_def by (drule map_of_SomeD) auto

lemma find_descriptor_distinct: "distinct (map od_key ds) \<Longrightarrow> d \<in> set ds \<Longrightarrow> find_descriptor ds (od_key d) = Some d"
  unfolding find_descriptor_def by (rule map_of_is_SomeI) (auto simp: rev_map [symmetric] o_def)

lemma output_key_char_plain: "output_key_char c \<Longrightarrow> plain_char c"
  by (rule plain_char_ascii) (auto simp: output_key_char_def lower_letter_def is_digit_def byte_of_def)

lemma output_key_trim: "output_key_pattern k \<Longrightarrow> trim_space k = k"
proof -
  assume k: "output_key_pattern k"
  then obtain c cs where cs: "k = c # cs" by (cases k) (auto simp: output_key_pattern_def)
  have "list_all output_key_char k" using k by (simp add: cs output_key_pattern_def output_key_char_def)
  then have "output_key_char (hd k)" "output_key_char (last k)"
    using cs by (simp_all add: list_all_iff)
  then show ?thesis by (intro trim_space_plain output_key_char_plain) (simp_all add: cs)
qed

text \<open>The descriptor the broker makes up fits a value accepted with the declared one.\<close>

lemma normalize_output_value_checks:
  "normalize_output_value v d t = Inr w \<Longrightarrow> output_schema_ok v d \<and> output_times_ok v (od_period_kind d) t"
  by (simp add: normalize_output_value_def split: if_splits)

lemma normalize_output_value_same:
  "normalize_output_value v d t = Inr w \<Longrightarrow> output_schema_ok v d' \<Longrightarrow> od_period_kind d' = od_period_kind d \<Longrightarrow>
   normalize_output_value v d' t = Inr w"
  by (simp add: normalize_output_value_def split: if_splits)

lemma published_descriptor_ok:
  assumes "output_key_pattern (ov_key v)" and "descriptor_ok d" and "normalize_output_value v d t = Inr v"
  shows "descriptor_ok (published_descriptor v) \<and> normalize_output_value v (published_descriptor v) t = Inr v"
proof -
  note checks = normalize_output_value_checks [OF assms(3)]
  have kind: "od_period_kind (published_descriptor v) = od_period_kind d"
    using assms(2) checks by (auto simp: output_times_ok_def published_descriptor_def descriptor_ok_def)
  have schema: "output_schema_ok v (published_descriptor v)"
    using checks by (simp add: output_schema_ok_def published_descriptor_def)
  have "descriptor_ok (published_descriptor v)"
    using assms(1,2) checks output_key_trim [OF assms(1)]
    by (simp add: published_descriptor_def descriptor_ok_def output_key_pattern_def output_schema_ok_def)
  with normalize_output_value_same [OF assms(3) schema kind] show ?thesis by simp
qed

lemma output_batch_normal:
  "output_batch_ok ds b \<Longrightarrow> v \<in> set (ob_values b) \<Longrightarrow> output_normal ds (ob_published_at b) v"
  by (simp add: output_batch_ok_def list_all_iff)

lemma published_batch_ok:
  assumes "output_batch_ok ds b"
  shows "output_batch_ok (map published_descriptor (ob_values b)) b"
proof -
  let ?ds = "map published_descriptor (ob_values b)"
  have v: "output_key_pattern (ov_key v) \<and> descriptor_ok (published_descriptor v) \<and>
      normalize_output_value v (published_descriptor v) (ob_published_at b) = Inr v" if v: "v \<in> set (ob_values b)" for v
  proof -
    obtain d where d: "find_descriptor ds (ov_key v) = Some d" "normalize_output_value v d (ob_published_at b) = Inr v"
      using output_batch_normal [OF assms v] unfolding output_normal_def by (elim exE conjE)
    from find_descriptor_Some [OF d(1)] assms have "output_key_pattern (ov_key v)" "descriptor_ok d"
      by (auto simp: output_batch_ok_def validate_output_descriptors_ok)
    with published_descriptor_ok [OF this d(2)] show ?thesis by blast
  qed
  have keys: "map od_key ?ds = map ov_key (ob_values b)" by (simp add: published_descriptor_def)
  have "output_normal ?ds (ob_published_at b) w" if "w \<in> set (ob_values b)" for w
  proof -
    have "find_descriptor ?ds (od_key (published_descriptor w)) = Some (published_descriptor w)"
      by (rule find_descriptor_distinct, unfold keys) (use assms that in \<open>auto simp: output_batch_ok_def\<close>)
    then show ?thesis using v [OF that] by (simp add: output_normal_def published_descriptor_def)
  qed
  moreover have "validate_output_descriptors ?ds = Inr ()"
    unfolding validate_output_descriptors_ok keys
    using assms v by (auto simp: output_batch_ok_def published_descriptor_def)
  ultimately show ?thesis using assms by (simp add: output_batch_ok_def list_all_iff)
qed

text \<open>
  The sink takes a batch that was observed in the microsecond it is published in; the row's
  \<open>published_at\<close> then lies before the observation, and reading the batch back refuses it.
\<close>

lemma foldE_issue_error:
  "foldE (normalize_output_issue ps pe) is acc = Inl e \<Longrightarrow> e = ErrInvalidOutputBatch"
  by (induction "is" arbitrary: acc)
    (auto simp: bindE_def normalize_output_issue_def Let_def split: sum.splits if_splits)

lemma add_output_value_error:
  "add_output_value ds t v acc = Inl e \<Longrightarrow> e = ErrInvalidOutputBatch"
  by (auto simp: add_output_value_def normalize_output_value_def normalize_coverage_def normalize_output_attributes_def
      typed_output_value_def normalize_output_issues_def bindE_def Let_def
      split: option.splits if_splits sum.splits dest: foldE_issue_error)

lemma normalize_output_batch_error: "normalize_output_batch b ds = Inl e \<Longrightarrow> e = ErrInvalidOutputBatch"
proof -
  have "foldE (add_output_value ds t) vs acc = Inl e \<Longrightarrow> e = ErrInvalidOutputBatch" for t vs acc
    by (induction vs arbitrary: acc) (auto simp: bindE_def split: sum.splits dest: add_output_value_error)
  then show "normalize_output_batch b ds = Inl e \<Longrightarrow> ?thesis"
    by (auto simp: normalize_output_batch_def bindE_def split: sum.splits if_splits)
qed

lemma foldE_observed_before:
  "foldE (add_output_value ds t) vs acc = Inr ws \<Longrightarrow> v \<in> set vs \<Longrightarrow> ov_observed_at v \<le> t"
proof (induction vs arbitrary: acc)
  case (Cons w vs)
  then obtain acc' where step: "add_output_value ds t w acc = Inr acc'" "foldE (add_output_value ds t) vs acc' = Inr ws"
    by (auto simp: bindE_Inr_iff)
  from step(1) have "ov_observed_at w \<le> t"
    by (auto simp: add_output_value_def bindE_Inr_iff normalize_output_value_Inr output_times_ok_def
        split: option.splits if_splits)
  then show ?case using Cons.IH [OF step(2)] Cons.prems(2) by auto
qed simp

lemma same_microsecond_unreadable:
  assumes "upsert_output b db = Some (n, db')" and "v \<in> set (ob_values b)" "column_time (ob_published_at b) < ov_observed_at v"
    and "ob_instance_id b \<noteq> uuid_nil" and "resolver (ob_instance_id b) = Inr ds"
  shows "output_latest (latest_output_row db') resolver (ob_instance_id b) = Inl ErrInvalidOutputBatch"
proof -
  let ?row = "b\<lparr>ob_sequence := n, ob_published_at := column_time (ob_published_at b)\<rparr>"
  have row: "latest_output_row db' (ob_instance_id b) = Inr (Some ?row)"
    using assms(1) by (auto simp: upsert_output_def latest_output_row_def Let_def split: option.splits if_splits)
  have "foldE (add_output_value ds (ob_published_at ?row)) (ob_values ?row) [] \<noteq> Inr ws" for ws
    using foldE_observed_before [of ds "column_time (ob_published_at b)" "ob_values b" "[]" ws v] assms(2,3) by auto
  then have "normalize_output_batch ?row ds \<noteq> Inr m" for m
    by (simp add: normalize_output_batch_def bindE_Inr_iff split: sum.splits)
  moreover have "normalize_output_batch ?row ds = Inl e \<Longrightarrow> e = ErrInvalidOutputBatch" for e
    by (rule normalize_output_batch_error)
  ultimately have "normalize_output_batch ?row ds = Inl ErrInvalidOutputBatch"
    by (cases "normalize_output_batch ?row ds") blast+
  then have "normalize_complete_output_batch ?row ds = Inl ErrInvalidOutputBatch"
    by (simp add: normalize_complete_output_batch_def)
  then show ?thesis using row assms(4,5) by (simp add: output_latest_def)
qed

text \<open>
  C18: Whatever batch the sink answers a plugin with (the one the repository stored, checked again)
  is in normal form, and the broker, which knows no descriptors and makes them up from the values,
  accepts it as it is and hands exactly it to the instance's subscribers: no stored batch is
  silently dropped or changed on its way to them.
\<close>

theorem published_output_is_delivered:
  assumes "sink_publish store_latest instance_id ds now vs b = (Inr batch, b')"
  shows "normalize_complete_output_batch batch ds = Inr batch \<and>
         b' = broker_deliver (ob_instance_id batch) batch b"
proof -
  obtain stored where stored: "normalize_complete_output_batch stored ds = Inr batch" "b' = publish_output_batch batch b"
    using assms unfolding sink_publish_def
    by (auto simp del: normalize_complete_output_batch_def split: sum.splits option.splits if_splits prod.splits)
  from normalize_complete_id [OF stored(1)] published_batch_ok
  have "normalize_published_output_batch batch = Some batch" "normalize_complete_output_batch batch ds = Inr batch"
    by (auto simp: normalize_published_output_batch_def normalize_output_batch_id)
  then show ?thesis using stored(2) by (simp add: publish_output_batch_def broker_publish_def)
qed

definition example_descriptor :: output_descriptor where
  "example_descriptor = \<lparr>od_key = ''energy'', od_name = ''Energy'', od_description = [], od_schema_version = 1,
     od_data_type = OutInt32, od_unit = [], od_dynamic_unit = False, od_period_kind = PeriodWindowed\<rparr>"

definition example_output :: output_value where
  "example_output = \<lparr>ov_key = ''energy'', ov_schema_version = 1, ov_data_type = OutInt32, ov_unit = [],
     ov_value = VInt32 42, ov_quality = OutputGood, ov_error = [], ov_observed_at = 20, ov_period_start = 10,
     ov_period_end = 20, ov_coverage = Some (FNum 100), ov_issues = [], ov_attributes = None\<rparr>"

definition empty_output_broker :: "output_batch broker" where
  "empty_output_broker = \<lparr>br_buffer = 1, br_subscribers = {}, br_subscriptions = Map.empty, br_next = 0\<rparr>"

theorem published_output_is_delivered_witness:
  "normalize_published_output_batch
     \<lparr>ob_instance_id = 3, ob_sequence = 9, ob_published_at = 21, ob_values = [example_output]\<rparr> \<noteq> None \<and>
   snd (sink_publish (\<lambda>b. Inr (Some (b\<lparr>ob_sequence := 9\<rparr>), True)) 3 [example_descriptor] 21 [example_output]
          empty_output_broker) = empty_output_broker"
proof -
  let ?batch = "\<lparr>ob_instance_id = 3, ob_sequence = 9, ob_published_at = 21, ob_values = [example_output]\<rparr> :: output_batch"
  have name: "trim_space ''Energy'' = ''Energy''" by (rule trim_space_plain; simp add: plain_char_ascii)
  have key: "output_key_pattern ''energy''"
    by (simp add: output_key_pattern_def output_key_char_def lower_letter_def byte_of_def)
  have ok: "output_batch_ok [example_descriptor] (?batch\<lparr>ob_sequence := s\<rparr>)" if "s \<noteq> 0" for s
    using that name key
    by (simp add: output_batch_ok_def validate_output_descriptors_ok example_descriptor_def example_output_def
        descriptor_ok_def valid_output_data_type_def max_plugin_outputs_def output_normal_def find_descriptor_def
        normalize_output_value_def output_schema_ok_def output_times_ok_def normalize_coverage_def
        normalize_output_issues_def normalize_output_attributes_def output_quality_ok_def typed_output_value_def
        normalize_output_typed_value_def fl_less_def fl_eq_def)
  have n: "normalize_complete_output_batch (?batch\<lparr>ob_sequence := s\<rparr>) [example_descriptor] =
      Inr (?batch\<lparr>ob_sequence := s\<rparr>)" if "s \<noteq> 0" for s
    using normalize_output_batch_id [OF ok [OF that]]
    by (simp add: normalize_complete_output_batch_def example_descriptor_def)
  have "sink_publish (\<lambda>b. Inr (Some (b\<lparr>ob_sequence := 9\<rparr>), True)) 3 [example_descriptor] 21 [example_output]
          empty_output_broker = (Inr ?batch, publish_output_batch ?batch empty_output_broker)"
    using n [of 1] n [of 9] by (simp add: sink_publish_def)
  from published_output_is_delivered [OF this] ok [of 9] published_batch_ok [OF ok [of 9]] show ?thesis
    by (simp add: sink_publish_def n [of 1, simplified] n [of 9, simplified] normalize_published_output_batch_def
      normalize_output_batch_id broker_deliver_def empty_output_broker_def)
qed

end
