(* ===== verification/Plugin_Registry.thy ===== *)
theory Plugin_Registry
  imports Plugin_Output
begin

text \<open>
  Plugin types and instances: \<open>internal/plugin/registry.go\<close>, \<open>host.go\<close>, \<open>definition.go\<close>, \<open>model.go\<close>
  and the service of \<open>service.go\<close>. A definition is what a plugin supplies: its manifest and two
  functions. Capabilities are values of a type \<open>'c\<close>, runtimes of a type \<open>'r\<close>; a configuration is its
  JSON text.
\<close>

datatype plugin_error =
    ErrInvalidManifest | ErrPluginAlreadyRegistered | ErrPluginNotRegistered | ErrInvalidPluginConfig string
  | ErrConfigValidationUnavailable | ErrInvalidRuntimeSpec | ErrPluginRuntimeRequired | ErrPluginRuntime string
  | ErrInvalidPluginInput | ErrMultipleInstancesNotAllowed | ErrConfigVersionMismatch | ErrInvalidCapabilityHost
  | ErrCapabilityUnavailable | ErrInstanceNotFound | ErrInstanceNameExists | ErrPluginRepository string

type_synonym capability = string
type_synonym plugin_config = string

record manifest =
  mf_type :: string
  mf_name :: string
  mf_description :: string
  mf_version :: string
  mf_config_version :: "64 word"
  mf_multiple_instances :: bool
  mf_capabilities :: "capability list"
  mf_outputs :: "output_descriptor list"

record instance_data =
  in_id :: uuid
  in_type :: string
  in_name :: string
  in_enabled :: bool
  in_config :: plugin_config
  in_config_version :: "64 word"

text \<open>The three patterns, each a first character and a bounded rest.\<close>

definition plugin_type_pattern :: "string \<Rightarrow> bool" where
  "plugin_type_pattern s \<longleftrightarrow> s \<noteq> [] \<and> lower_letter (hd s) \<and>
     list_all (\<lambda>c. lower_letter c \<or> is_digit c \<or> c = CHR ''_'') (tl s) \<and> length s \<le> 64"

definition plugin_version_pattern :: "string \<Rightarrow> bool" where
  "plugin_version_pattern s \<longleftrightarrow> s \<noteq> [] \<and> (is_digit (hd s) \<or> is_alpha (hd s)) \<and>
     list_all (\<lambda>c. is_digit c \<or> is_alpha c \<or> c = CHR ''.'' \<or> c = CHR ''+'' \<or> c = CHR ''-'') (tl s) \<and> length s \<le> 32"

definition plugin_capability_pattern :: "string \<Rightarrow> bool" where
  "plugin_capability_pattern s \<longleftrightarrow> output_key_pattern s"

definition capability_outputs_publish :: capability where
  "capability_outputs_publish = ''plugin.outputs.publish''"

definition check_capability :: "capability \<Rightarrow> capability set \<Rightarrow> plugin_error + capability set" where
  "check_capability c seen =
     (if \<not> plugin_capability_pattern c then Inl ErrInvalidManifest
      else if c \<in> seen then Inl ErrInvalidManifest else Inr (insert c seen))"

definition validate_manifest :: "manifest \<Rightarrow> plugin_error + unit" where
  "validate_manifest m =
     (if \<not> plugin_type_pattern (mf_type m) then Inl ErrInvalidManifest
      else if mf_name m = [] \<or> mf_name m \<noteq> trim_space (mf_name m) \<or> length (mf_name m) > 100 then Inl ErrInvalidManifest
      else if mf_description m \<noteq> trim_space (mf_description m) \<or> length (mf_description m) > 500 then Inl ErrInvalidManifest
      else if \<not> plugin_version_pattern (mf_version m) then Inl ErrInvalidManifest
      else if mf_config_version m = 0 then Inl ErrInvalidManifest
      else if length (mf_capabilities m) > 32 then Inl ErrInvalidManifest
      else bindE (foldE check_capability (mf_capabilities m) {}) (\<lambda>seen.
        case validate_output_descriptors (mf_outputs m) of
          Inl e \<Rightarrow> Inl ErrInvalidManifest
        | Inr u \<Rightarrow> if (capability_outputs_publish \<in> seen) \<noteq> (length (mf_outputs m) > 0)
                   then Inl ErrInvalidManifest else Inr ()))"

section \<open>The registry\<close>

text \<open>What a definition says against a configuration.\<close>

datatype config_rejection = ValidationUnavailable | ConfigRejected string

record ('c, 'r) definition_data =
  df_manifest :: manifest
  df_validate_config :: "plugin_config \<Rightarrow> config_rejection option"
  df_new_runtime :: "uuid \<Rightarrow> plugin_config \<Rightarrow> (capability \<rightharpoonup> 'c) \<Rightarrow> plugin_error + 'r option"

type_synonym ('c, 'r) registry = "(string \<times> ('c, 'r) definition_data) list"

definition register_definition :: "('c, 'r) definition_data \<Rightarrow> ('c, 'r) registry \<Rightarrow> plugin_error + ('c, 'r) registry" where
  "register_definition d reg =
     bindE (validate_manifest (df_manifest d)) (\<lambda>u.
       if map_of reg (mf_type (df_manifest d)) \<noteq> None then Inl ErrPluginAlreadyRegistered
       else Inr ((mf_type (df_manifest d), d) # reg))"

definition new_registry :: "('c, 'r) definition_data list \<Rightarrow> plugin_error + ('c, 'r) registry" where
  "new_registry ds = foldE register_definition ds []"

definition find_definition :: "('c, 'r) registry \<Rightarrow> string \<Rightarrow> plugin_error + ('c, 'r) definition_data" where
  "find_definition reg t = (case map_of reg t of None \<Rightarrow> Inl ErrPluginNotRegistered | Some d \<Rightarrow> Inr d)"

definition registry_manifest :: "('c, 'r) registry \<Rightarrow> string \<Rightarrow> plugin_error + manifest" where
  "registry_manifest reg t = bindE (find_definition reg t) (\<lambda>d. Inr (df_manifest d))"

fun insert_manifest :: "manifest \<Rightarrow> manifest list \<Rightarrow> manifest list" where
  "insert_manifest m [] = [m]"
| "insert_manifest m (n # ns) = (if string_le (mf_type m) (mf_type n) then m # n # ns else n # insert_manifest m ns)"

definition list_manifests :: "('c, 'r) registry \<Rightarrow> manifest list" where
  "list_manifests reg = foldr insert_manifest (map (\<lambda>e. df_manifest (snd e)) reg) []"

definition config_verdict :: "config_rejection option \<Rightarrow> plugin_error + unit" where
  "config_verdict v =
     (case v of
        None \<Rightarrow> Inr ()
      | Some ValidationUnavailable \<Rightarrow> Inl ErrConfigValidationUnavailable
      | Some (ConfigRejected s) \<Rightarrow> Inl (ErrInvalidPluginConfig s))"

definition registry_validate_config :: "('c, 'r) registry \<Rightarrow> string \<Rightarrow> plugin_config \<Rightarrow> plugin_error + unit" where
  "registry_validate_config reg t config =
     bindE (find_definition reg t) (\<lambda>d. config_verdict (df_validate_config d config))"

definition registry_new_runtime ::
  "('c, 'r) registry \<Rightarrow> string \<Rightarrow> uuid \<Rightarrow> plugin_config \<Rightarrow> (capability \<rightharpoonup> 'c) \<Rightarrow> plugin_error + 'r" where
  "registry_new_runtime reg t instance_id config host =
     (if instance_id = uuid_nil then Inl ErrInvalidRuntimeSpec
      else bindE (find_definition reg t) (\<lambda>d.
        bindE (config_verdict (df_validate_config d config)) (\<lambda>u.
          bindE (df_new_runtime d instance_id config host) (\<lambda>r.
            case r of None \<Rightarrow> Inl ErrPluginRuntimeRequired | Some runtime \<Rightarrow> Inr runtime))))"

text \<open>
  The host a runtime sees: only the capabilities its manifest names, scoped to the instance where
  the capability can be (\<open>scope\<close> gives \<open>None\<close> for one that is not a scoper).
\<close>

definition add_scoped ::
  "(capability \<rightharpoonup> 'c) \<Rightarrow> ('c \<Rightarrow> (uuid \<Rightarrow> manifest \<Rightarrow> string + 'c option) option) \<Rightarrow> uuid \<Rightarrow> manifest \<Rightarrow>
   capability \<Rightarrow> (capability \<rightharpoonup> 'c) \<Rightarrow> plugin_error + (capability \<rightharpoonup> 'c)" where
  "add_scoped source scope instance_id m c caps =
     (case source c of
        None \<Rightarrow> Inl ErrCapabilityUnavailable
      | Some v \<Rightarrow>
          (case scope v of
             None \<Rightarrow> Inr (caps(c \<mapsto> v))
           | Some f \<Rightarrow> (case f instance_id m of
                 Inl e \<Rightarrow> Inl ErrCapabilityUnavailable
               | Inr None \<Rightarrow> Inl ErrCapabilityUnavailable
               | Inr (Some v') \<Rightarrow> Inr (caps(c \<mapsto> v')))))"

definition new_scoped_host ::
  "(capability \<rightharpoonup> 'c) \<Rightarrow> ('c \<Rightarrow> (uuid \<Rightarrow> manifest \<Rightarrow> string + 'c option) option) \<Rightarrow> uuid \<Rightarrow> manifest \<Rightarrow>
   plugin_error + (capability \<rightharpoonup> 'c)" where
  "new_scoped_host source scope instance_id m =
     foldE (add_scoped source scope instance_id m) (mf_capabilities m) Map.empty"

text \<open>\<open>buildRuntime\<close> of the manager.\<close>

definition build_runtime ::
  "('c, 'r) registry \<Rightarrow> (capability \<rightharpoonup> 'c) \<Rightarrow> ('c \<Rightarrow> (uuid \<Rightarrow> manifest \<Rightarrow> string + 'c option) option) \<Rightarrow>
   instance_data \<Rightarrow> plugin_error + 'r" where
  "build_runtime reg source scope i =
     bindE (registry_manifest reg (in_type i)) (\<lambda>m.
       if in_config_version i \<noteq> mf_config_version m then Inl ErrConfigVersionMismatch
       else bindE (new_scoped_host source scope (in_id i) m) (\<lambda>host.
         registry_new_runtime reg (in_type i) (in_id i) (in_config i) host))"

section \<open>Facts about the registry\<close>

definition registry_ok :: "('c, 'r) registry \<Rightarrow> bool" where
  "registry_ok reg \<longleftrightarrow> distinct (map fst reg) \<and>
     (\<forall>(t, d) \<in> set reg. mf_type (df_manifest d) = t \<and> validate_manifest (df_manifest d) = Inr ())"

lemma register_definition_ok:
  "registry_ok reg \<Longrightarrow> register_definition d reg = Inr reg' \<Longrightarrow> registry_ok reg'"
  by (auto simp: registry_ok_def register_definition_def bindE_Inr_iff map_of_eq_None_iff split: if_splits)

lemma new_registry_ok: "new_registry ds = Inr reg \<Longrightarrow> registry_ok reg"
  unfolding new_registry_def
  by (erule foldE_invariant [where P = registry_ok]) (auto simp: registry_ok_def [of "[]"] intro: register_definition_ok)

lemma set_insert_manifest [simp]: "set (insert_manifest m ns) = insert m (set ns)"
  by (induction ns) auto

lemma insert_manifest_sorted:
  "sorted_wrt (\<lambda>a b. string_le (mf_type a) (mf_type b)) ns \<Longrightarrow>
   sorted_wrt (\<lambda>a b. string_le (mf_type a) (mf_type b)) (insert_manifest m ns)"
proof (induction ns)
  case (Cons n ns)
  then show ?case
    using string_le_linear [of "mf_type m" "mf_type n"] string_le_trans [of "mf_type m" "mf_type n"] by auto
qed simp

lemma list_manifests_sorted: "sorted_wrt (\<lambda>a b. string_le (mf_type a) (mf_type b)) (list_manifests reg)"
  unfolding list_manifests_def by (induction reg) (simp_all add: insert_manifest_sorted)

text \<open>A scoped host offers what the manifest names and nothing else.\<close>

lemma new_scoped_host_dom: "new_scoped_host source scope i m = Inr caps \<Longrightarrow> dom caps \<subseteq> set (mf_capabilities m) \<and> dom caps \<subseteq> dom source"
proof -
  have "foldE (add_scoped source scope i m) cs caps0 = Inr caps \<Longrightarrow>
      dom caps \<subseteq> dom caps0 \<union> set cs \<and> dom caps \<subseteq> dom caps0 \<union> dom source" for cs caps0
  proof (induction cs arbitrary: caps0)
    case (Cons c cs)
    then obtain caps1 where step: "add_scoped source scope i m c caps0 = Inr caps1"
      "foldE (add_scoped source scope i m) cs caps1 = Inr caps" by (auto simp: bindE_Inr_iff)
    have "dom caps1 \<subseteq> insert c (dom caps0) \<and> c \<in> dom source"
      using step(1) by (auto simp: add_scoped_def split: option.splits sum.splits)
    with Cons.IH [OF step(2)] show ?case by (simp add: subset_iff) blast
  qed simp
  from this [of "mf_capabilities m" Map.empty] show "new_scoped_host source scope i m = Inr caps \<Longrightarrow> ?thesis"
    by (simp add: new_scoped_host_def)
qed

section \<open>The service\<close>

text \<open>
  The repository (\<open>postgres/repository.go\<close>) is a table of instances whose names differ in lower case,
  which is the database's \<open>lower\<close>; \<open>new_id\<close> is the identifier it generates. The JSON canonicalisation of
  a configuration object is an argument, \<open>None\<close> where the text is no object.
\<close>

definition normalize_instance_name :: "string \<Rightarrow> plugin_error + string" where
  "normalize_instance_name name =
     (let n = trim_space name in if n = [] \<or> length n > 100 then Inl ErrInvalidPluginInput else Inr n)"

definition normalize_plugin_config ::
  "(string \<Rightarrow> string option) \<Rightarrow> ('c, 'r) registry \<Rightarrow> string \<Rightarrow> plugin_config \<Rightarrow> plugin_error + plugin_config" where
  "normalize_plugin_config canonical reg t config0 =
     (let config = (if trim_space config0 = [] then ''{}'' else config0)
      in case canonical config of
           None \<Rightarrow> Inl (ErrInvalidPluginConfig [])
         | Some c \<Rightarrow> bindE (registry_validate_config reg t c) (\<lambda>u. Inr c))"

type_synonym instance_table = "instance_data list"

definition find_instance :: "instance_table \<Rightarrow> uuid \<Rightarrow> plugin_error + instance_data" where
  "find_instance db i = (case List.find (\<lambda>x. in_id x = i) db of None \<Rightarrow> Inl ErrInstanceNotFound | Some x \<Rightarrow> Inr x)"

definition name_taken :: "(string \<Rightarrow> string) \<Rightarrow> uuid \<Rightarrow> string \<Rightarrow> instance_table \<Rightarrow> bool" where
  "name_taken lower i name db \<longleftrightarrow> (\<exists>x \<in> set db. in_id x \<noteq> i \<and> lower (in_name x) = lower name)"

definition create_instance ::
  "(string \<Rightarrow> string) \<Rightarrow> (string \<Rightarrow> string option) \<Rightarrow> ('c, 'r) registry \<Rightarrow> uuid \<Rightarrow> string \<Rightarrow> string \<Rightarrow> bool option \<Rightarrow> plugin_config \<Rightarrow>
   instance_table \<Rightarrow> (plugin_error + instance_data) \<times> instance_table" where
  "create_instance lower canonical reg new_id t name enabled config db =
     (case bindE (registry_manifest reg t) (\<lambda>m.
             bindE (normalize_instance_name name) (\<lambda>n.
               bindE (normalize_plugin_config canonical reg t config) (\<lambda>c. Inr (m, n, c)))) of
        Inl e \<Rightarrow> (Inl e, db)
      | Inr (m, n, c) \<Rightarrow>
          if \<not> mf_multiple_instances m \<and> (\<exists>x \<in> set db. in_type x = t) then (Inl ErrMultipleInstancesNotAllowed, db)
          else if name_taken lower new_id n db then (Inl ErrInstanceNameExists, db)
          else let i = \<lparr>in_id = new_id, in_type = t, in_name = n, in_enabled = (case enabled of None \<Rightarrow> False | Some b \<Rightarrow> b),
                        in_config = c, in_config_version = mf_config_version m\<rparr>;
                   db' = db @ [i]
               in (find_instance db' new_id, db'))"

definition updated_config ::
  "(string \<Rightarrow> string option) \<Rightarrow> ('c, 'r) registry \<Rightarrow> manifest \<Rightarrow> plugin_config option \<Rightarrow> instance_data \<Rightarrow>
   plugin_error + instance_data" where
  "updated_config canonical reg m config i =
     (case config of
        None \<Rightarrow> Inr i
      | Some c \<Rightarrow> bindE (normalize_plugin_config canonical reg (in_type i) c) (\<lambda>c'.
          Inr (i\<lparr>in_config := c', in_config_version := mf_config_version m\<rparr>)))"

definition updated_enabled ::
  "('c, 'r) registry \<Rightarrow> manifest \<Rightarrow> bool option \<Rightarrow> instance_data \<Rightarrow> plugin_error + instance_data" where
  "updated_enabled reg m enabled i =
     (case enabled of
        None \<Rightarrow> Inr i
      | Some b \<Rightarrow>
          if b \<and> in_config_version i \<noteq> mf_config_version m then Inl ErrConfigVersionMismatch
          else bindE (if b then registry_validate_config reg (in_type i) (in_config i) else Inr ()) (\<lambda>u.
            Inr (i\<lparr>in_enabled := b\<rparr>)))"

definition update_instance ::
  "(string \<Rightarrow> string) \<Rightarrow> (string \<Rightarrow> string option) \<Rightarrow> ('c, 'r) registry \<Rightarrow> uuid \<Rightarrow> string option \<Rightarrow> bool option \<Rightarrow> plugin_config option \<Rightarrow>
   instance_table \<Rightarrow> (plugin_error + instance_data) \<times> instance_table" where
  "update_instance lower canonical reg i name enabled config db =
     (if i = uuid_nil then (Inl ErrInvalidPluginInput, db)
      else case bindE (find_instance db i) (\<lambda>x0.
             bindE (registry_manifest reg (in_type x0)) (\<lambda>m.
               bindE (case name of None \<Rightarrow> Inr x0
                      | Some n \<Rightarrow> bindE (normalize_instance_name n) (\<lambda>n'. Inr (x0\<lparr>in_name := n'\<rparr>))) (\<lambda>x1.
                 bindE (updated_config canonical reg m config x1) (updated_enabled reg m enabled)))) of
        Inl e \<Rightarrow> (Inl e, db)
      | Inr x \<Rightarrow>
          if name_taken lower i (in_name x) db then (Inl ErrInstanceNameExists, db)
          else let db' = map (\<lambda>y. if in_id y = i then x else y) db in (find_instance db' i, db'))"

definition delete_instance :: "uuid \<Rightarrow> instance_table \<Rightarrow> (plugin_error + unit) \<times> instance_table" where
  "delete_instance i db =
     (if i = uuid_nil then (Inl ErrInvalidPluginInput, db)
      else if \<exists>x \<in> set db. in_id x = i then (Inr (), filter (\<lambda>x. in_id x \<noteq> i) db)
      else (Inl ErrInstanceNotFound, db))"

definition instance_output_descriptors :: "('c, 'r) registry \<Rightarrow> instance_table \<Rightarrow> uuid \<Rightarrow> plugin_error + output_descriptor list" where
  "instance_output_descriptors reg db i =
     (if i = uuid_nil then Inl ErrInvalidPluginInput
      else bindE (find_instance db i) (\<lambda>x. bindE (registry_manifest reg (in_type x)) (\<lambda>m. Inr (mf_outputs m))))"

end
