(* ===== verification/Publisher_Source.thy ===== *)
theory Publisher_Source
  imports Tag_Service Value_Store Plugin_Registry
begin

text \<open>
  The sources of a data publisher: \<open>internal/publisher/source.go\<close> (references, selections,
  descriptors and samples) and \<open>source_feed.go\<close> (the catalog, the latest sample of a source, the
  snapshot of a selection and a subscription to its changes).

  The catalogs and feeds the publisher reads from are the fields of \<open>source_world\<close>: the answers of
  the tag service, the value store, the plugin service and the output reader at one moment.
  \<open>sw_render\<close> is \<open>uuid.UUID.String\<close>, \<open>sw_lower\<close> is \<open>strings.ToLower\<close>.
\<close>

section \<open>References and selections\<close>

datatype source_error =
    ErrInvalidSourceReference | ErrInvalidSourceSelection | ErrDuplicateSourceAlias | ErrDuplicateSource
  | ErrSourceNotFound | ErrSourceSubscriberLag | ErrSourceUpstreamClosed
  | ErrInvalidCatalogInput | ErrSourceCatalogTooLarge | SourceUpstream string

datatype source_kind = KindTag | KindPluginOutput | KindOther string

record source_reference =
  sr_kind :: source_kind
  sr_tag_id :: uuid
  sr_instance_id :: uuid
  sr_output_key :: string

definition tag_source :: "uuid \<Rightarrow> source_reference" where
  "tag_source i = \<lparr>sr_kind = KindTag, sr_tag_id = i, sr_instance_id = uuid_nil, sr_output_key = []\<rparr>"

definition plugin_output_source :: "uuid \<Rightarrow> string \<Rightarrow> source_reference" where
  "plugin_output_source i key = \<lparr>sr_kind = KindPluginOutput, sr_tag_id = uuid_nil, sr_instance_id = i, sr_output_key = key\<rparr>"

text \<open>The pattern of an alias; the one of an output key is \<open>output_key_pattern\<close>.\<close>

definition alias_char :: "char \<Rightarrow> bool" where
  "alias_char c \<longleftrightarrow> is_alpha c \<or> is_digit c \<or> c = CHR ''_'' \<or> c = CHR ''.'' \<or> c = CHR ''-''"

definition source_alias_pattern :: "string \<Rightarrow> bool" where
  "source_alias_pattern s \<longleftrightarrow>
     s \<noteq> [] \<and> (is_alpha (hd s) \<or> hd s = CHR ''_'') \<and> list_all alias_char (tl s) \<and> length s \<le> 64"

definition validate_reference :: "source_reference \<Rightarrow> source_error + unit" where
  "validate_reference r =
     (case sr_kind r of
        KindTag \<Rightarrow>
          if sr_tag_id r = uuid_nil \<or> sr_instance_id r \<noteq> uuid_nil \<or> sr_output_key r \<noteq> []
          then Inl ErrInvalidSourceReference else Inr ()
      | KindPluginOutput \<Rightarrow>
          if sr_tag_id r \<noteq> uuid_nil \<or> sr_instance_id r = uuid_nil \<or> \<not> output_key_pattern (sr_output_key r)
          then Inl ErrInvalidSourceReference else Inr ()
      | KindOther s \<Rightarrow> Inl ErrInvalidSourceReference)"

text \<open>The fields a JSON reference has; the decoder refuses others before this.\<close>

record reference_json =
  rj_kind :: source_kind
  rj_tag_id :: "uuid option"
  rj_instance_id :: "uuid option"
  rj_output_key :: "string option"

definition marshal_reference :: "source_reference \<Rightarrow> source_error + reference_json" where
  "marshal_reference r =
     bindE (validate_reference r) (\<lambda>u.
       case sr_kind r of
         KindTag \<Rightarrow> Inr \<lparr>rj_kind = KindTag, rj_tag_id = Some (sr_tag_id r), rj_instance_id = None, rj_output_key = None\<rparr>
       | KindPluginOutput \<Rightarrow> Inr \<lparr>rj_kind = KindPluginOutput, rj_tag_id = None,
           rj_instance_id = Some (sr_instance_id r), rj_output_key = Some (sr_output_key r)\<rparr>
       | KindOther s \<Rightarrow> Inl ErrInvalidSourceReference)"

definition unmarshal_reference :: "reference_json option \<Rightarrow> source_error + source_reference" where
  "unmarshal_reference raw =
     (case raw of
        None \<Rightarrow> Inl ErrInvalidSourceReference
      | Some j \<Rightarrow>
          bindE
            (case (rj_kind j, rj_tag_id j, rj_instance_id j, rj_output_key j) of
               (KindTag, Some i, None, None) \<Rightarrow> Inr (tag_source i)
             | (KindPluginOutput, None, Some i, Some key) \<Rightarrow> Inr (plugin_output_source i key)
             | _ \<Rightarrow> Inl ErrInvalidSourceReference)
            (\<lambda>candidate. bindE (validate_reference candidate) (\<lambda>u. Inr candidate)))"

definition reference_string :: "(uuid \<Rightarrow> string) \<Rightarrow> source_reference \<Rightarrow> string" where
  "reference_string render r =
     (case sr_kind r of
        KindTag \<Rightarrow> ''tag:'' @ render (sr_tag_id r)
      | KindPluginOutput \<Rightarrow> ''plugin_output:'' @ render (sr_instance_id r) @ '':'' @ sr_output_key r
      | KindOther s \<Rightarrow> ''invalid'')"

record source_selection =
  sl_alias :: string
  sl_reference :: source_reference

definition max_source_selections :: nat where "max_source_selections = 256"

definition add_selection :: "source_selection \<Rightarrow> source_selection list \<Rightarrow> source_error + source_selection list" where
  "add_selection s acc =
     (if sl_alias s \<noteq> trim_space (sl_alias s) \<or> \<not> source_alias_pattern (sl_alias s) then Inl ErrInvalidSourceSelection
      else case validate_reference (sl_reference s) of
        Inl e \<Rightarrow> Inl ErrInvalidSourceSelection
      | Inr u \<Rightarrow>
          if sl_alias s \<in> sl_alias ` set acc then Inl ErrDuplicateSourceAlias
          else if sl_reference s \<in> sl_reference ` set acc then Inl ErrDuplicateSource
          else Inr (acc @ [s]))"

definition normalize_source_selections :: "source_selection list \<Rightarrow> source_error + source_selection list" where
  "normalize_source_selections ss =
     (if ss = [] \<or> length ss > max_source_selections then Inl ErrInvalidSourceSelection
      else foldE add_selection ss [])"

section \<open>Descriptors and samples\<close>

record source_descriptor =
  sd_reference :: source_reference
  sd_name :: string
  sd_owner_name :: string
  sd_description :: string
  sd_schema_version :: "64 word"
  sd_data_type :: output_data_type
  sd_unit :: string
  sd_dynamic_unit :: bool
  sd_period_kind :: output_period_kind
  sd_enabled :: bool

datatype source_quality = SourceGood | SourcePartial | SourceBad | SourceUnavailable | SourceQualityOther string

record resolved_source =
  rs_alias :: string
  rs_descriptor :: source_descriptor

record batch_identity =
  bi_id :: string
  bi_sequence :: "64 word"

record source_sample =
  sm_alias :: string
  sm_reference :: source_reference
  sm_available :: bool
  sm_sequence :: "64 word"
  sm_schema_version :: "64 word"
  sm_data_type :: output_data_type
  sm_unit :: string
  sm_value :: gval
  sm_quality :: source_quality
  sm_error :: string
  sm_observed_at :: "gotime option"
  sm_emitted_at :: "gotime option"
  sm_period_start :: "gotime option"
  sm_period_end :: "gotime option"
  sm_coverage :: "fl option"
  sm_issues :: "output_issue list"
  sm_attributes :: "(string \<times> string) list option"
  sm_batch :: "batch_identity option"

record source_snapshot =
  sn_captured_at :: gotime
  sn_samples :: "source_sample list"

record source_current =
  sc_quality :: source_quality
  sc_sequence :: "64 word"
  sc_observed_at :: "gotime option"
  sc_period_start :: "gotime option"
  sc_period_end :: "gotime option"
  sc_coverage :: "fl option"

text \<open>The conversions between the string types; \<open>''string''\<close> is a type of outputs only.\<close>

definition source_type_of_tag :: "data_type \<Rightarrow> output_data_type" where
  "source_type_of_tag d =
     (case d of DTBool \<Rightarrow> OutBool | DTInt16 \<Rightarrow> OutInt16 | DTUInt16 \<Rightarrow> OutUInt16 | DTInt32 \<Rightarrow> OutInt32
      | DTUInt32 \<Rightarrow> OutUInt32 | DTFloat32 \<Rightarrow> OutFloat32 | DTFloat64 \<Rightarrow> OutFloat64
      | DTOther s \<Rightarrow> if s = ''string'' then OutString else OutOther s)"

definition source_quality_of_tag :: "quality \<Rightarrow> source_quality" where
  "source_quality_of_tag q =
     (case q of QualityGood \<Rightarrow> SourceGood | QualityBad \<Rightarrow> SourceBad | QualityOther s \<Rightarrow> SourceQualityOther s)"

definition source_quality_of_output :: "output_quality \<Rightarrow> source_quality" where
  "source_quality_of_output q =
     (case q of OutputGood \<Rightarrow> SourceGood | OutputPartial \<Rightarrow> SourcePartial | OutputBad \<Rightarrow> SourceBad
      | OutputQualityOther s \<Rightarrow> SourceQualityOther s)"

definition unavailable_sample :: "source_descriptor \<Rightarrow> string \<Rightarrow> source_sample" where
  "unavailable_sample d alias =
     \<lparr>sm_alias = alias, sm_reference = sd_reference d, sm_available = False, sm_sequence = 0,
      sm_schema_version = sd_schema_version d, sm_data_type = sd_data_type d, sm_unit = sd_unit d, sm_value = VNil,
      sm_quality = SourceUnavailable, sm_error = ''source value is not available'', sm_observed_at = None,
      sm_emitted_at = None, sm_period_start = None, sm_period_end = None, sm_coverage = None, sm_issues = [],
      sm_attributes = None, sm_batch = None\<rparr>"

definition spoiled_sample :: "string \<Rightarrow> source_sample \<Rightarrow> source_sample" where
  "spoiled_sample message s = s\<lparr>sm_value := VNil, sm_quality := SourceBad, sm_error := message\<rparr>"

definition sample_for_tag :: "source_descriptor \<Rightarrow> string \<Rightarrow> tag_value option \<Rightarrow> source_sample" where
  "sample_for_tag d alias value =
     (case value of
        None \<Rightarrow> unavailable_sample d alias
      | Some v \<Rightarrow>
          let sample = \<lparr>sm_alias = alias, sm_reference = sd_reference d, sm_available = True,
                sm_sequence = tv_sequence v, sm_schema_version = sd_schema_version d, sm_data_type = sd_data_type d,
                sm_unit = [], sm_value = tv_value v, sm_quality = source_quality_of_tag (tv_quality v),
                sm_error = tv_error v, sm_observed_at = Some (tv_observed_at v), sm_emitted_at = Some (tv_stored_at v),
                sm_period_start = Some (tv_observed_at v), sm_period_end = Some (tv_observed_at v), sm_coverage = None,
                sm_issues = [], sm_attributes = None, sm_batch = None\<rparr>
          in if source_type_of_tag (tv_data_type v) \<noteq> sd_data_type d
             then spoiled_sample ''Tag value data type does not match the current Tag definition'' sample
             else sample)"

definition find_output :: "string \<Rightarrow> output_batch \<Rightarrow> output_value option" where
  "find_output key b = List.find (\<lambda>v. ov_key v = key) (ob_values b)"

definition sample_for_plugin_output ::
  "(uuid \<Rightarrow> string) \<Rightarrow> source_descriptor \<Rightarrow> string \<Rightarrow> output_batch option \<Rightarrow> source_sample" where
  "sample_for_plugin_output render d alias batch =
     (case batch of
        None \<Rightarrow> unavailable_sample d alias
      | Some b \<Rightarrow>
          (case find_output (sr_output_key (sd_reference d)) b of
             None \<Rightarrow> unavailable_sample d alias
           | Some v \<Rightarrow>
               let sample = \<lparr>sm_alias = alias, sm_reference = sd_reference d, sm_available = True,
                     sm_sequence = ob_sequence b, sm_schema_version = ov_schema_version v, sm_data_type = ov_data_type v,
                     sm_unit = ov_unit v, sm_value = ov_value v, sm_quality = source_quality_of_output (ov_quality v),
                     sm_error = ov_error v, sm_observed_at = Some (ov_observed_at v), sm_emitted_at = Some (ob_published_at b),
                     sm_period_start = Some (ov_period_start v), sm_period_end = Some (ov_period_end v),
                     sm_coverage = ov_coverage v, sm_issues = ov_issues v, sm_attributes = ov_attributes v,
                     sm_batch = Some \<lparr>bi_id = render (ob_instance_id b) @ '':'' @ itoa (uint (ob_sequence b)),
                       bi_sequence = ob_sequence b\<rparr>\<rparr>
               in if sm_schema_version sample \<noteq> sd_schema_version d \<or> sm_data_type sample \<noteq> sd_data_type d
                  then spoiled_sample ''Plugin output schema does not match the current descriptor'' sample
                  else sample))"

definition current_from_sample :: "source_sample \<Rightarrow> source_current" where
  "current_from_sample s = \<lparr>sc_quality = sm_quality s, sc_sequence = sm_sequence s, sc_observed_at = sm_observed_at s,
     sc_period_start = sm_period_start s, sc_period_end = sm_period_end s, sc_coverage = sm_coverage s\<rparr>"

definition valid_source_period_kind :: "output_period_kind \<Rightarrow> bool" where
  "valid_source_period_kind k \<longleftrightarrow> k = PeriodInstantaneous \<or> k = PeriodWindowed"

definition descriptor_from_tag :: "tag_entity \<Rightarrow> source_error + source_descriptor" where
  "descriptor_from_tag e =
     (let d = source_type_of_tag (te_data_type e)
      in if \<not> valid_output_data_type d \<or> te_id e = uuid_nil then Inl ErrInvalidSourceReference
         else Inr \<lparr>sd_reference = tag_source (te_id e), sd_name = te_name e, sd_owner_name = [],
           sd_description = (case te_description e of None \<Rightarrow> [] | Some t \<Rightarrow> t), sd_schema_version = 1, sd_data_type = d,
           sd_unit = [], sd_dynamic_unit = False, sd_period_kind = PeriodInstantaneous, sd_enabled = te_enabled e\<rparr>)"

definition descriptor_from_plugin_output :: "instance_data \<Rightarrow> output_descriptor \<Rightarrow> source_error + source_descriptor" where
  "descriptor_from_plugin_output i d =
     (let reference = plugin_output_source (in_id i) (od_key d)
      in if validate_reference reference \<noteq> Inr () \<or> \<not> valid_output_data_type (od_data_type d) \<or>
            \<not> valid_source_period_kind (od_period_kind d)
         then Inl ErrInvalidSourceReference
         else Inr \<lparr>sd_reference = reference, sd_name = od_name d, sd_owner_name = in_name i,
           sd_description = od_description d, sd_schema_version = od_schema_version d, sd_data_type = od_data_type d,
           sd_unit = od_unit d, sd_dynamic_unit = od_dynamic_unit d, sd_period_kind = od_period_kind d,
           sd_enabled = in_enabled i\<rparr>)"

section \<open>Resolving and reading\<close>

datatype lookup_error = LookupNotFound | LookupFailed string

record source_world =
  sw_tag :: "uuid \<Rightarrow> lookup_error + tag_entity"
  sw_tag_page :: "nat \<Rightarrow> string + tag_entity list \<times> int"
  sw_latest :: "uuid \<Rightarrow> tag_value option"
  sw_instance :: "uuid \<Rightarrow> lookup_error + instance_data"
  sw_instance_page :: "nat \<Rightarrow> string + instance_data list \<times> int"
  sw_descriptors :: "uuid \<Rightarrow> string + output_descriptor list"
  sw_latest_batch :: "uuid \<Rightarrow> lookup_error + output_batch option"
  sw_now :: gotime
  sw_render :: "uuid \<Rightarrow> string"
  sw_lower :: "string \<Rightarrow> string"

definition source_lookup_error :: "lookup_error \<Rightarrow> source_error" where
  "source_lookup_error e = (case e of LookupNotFound \<Rightarrow> ErrSourceNotFound | LookupFailed m \<Rightarrow> SourceUpstream m)"

definition latest_plugin_batch :: "source_world \<Rightarrow> uuid \<Rightarrow> source_error + output_batch option" where
  "latest_plugin_batch w i =
     (case sw_latest_batch w i of
        Inl LookupNotFound \<Rightarrow> Inr None
      | Inl (LookupFailed m) \<Rightarrow> Inl (SourceUpstream m)
      | Inr b \<Rightarrow> Inr b)"

text \<open>
  One iteration of \<open>resolve\<close>: the instances looked up so far with their outputs by key (the last
  of a key wins), and the sources resolved so far.
\<close>

type_synonym resolve_cache = "uuid \<rightharpoonup> instance_data \<times> (string \<rightharpoonup> output_descriptor)"

definition load_instance :: "source_world \<Rightarrow> uuid \<Rightarrow> source_error + instance_data \<times> (string \<rightharpoonup> output_descriptor)" where
  "load_instance w i =
     bindE (wrapE source_lookup_error (sw_instance w i)) (\<lambda>inst.
     bindE (wrapE SourceUpstream (sw_descriptors w i)) (\<lambda>outputs.
       Inr (inst, find_descriptor outputs)))"

definition resolve_selection ::
  "source_world \<Rightarrow> source_selection \<Rightarrow> resolve_cache \<times> resolved_source list \<Rightarrow>
     source_error + resolve_cache \<times> resolved_source list" where
  "resolve_selection w s st =
     (case st of (cache, resolved) \<Rightarrow>
      (case sr_kind (sl_reference s) of
        KindTag \<Rightarrow>
          bindE (wrapE source_lookup_error (sw_tag w (sr_tag_id (sl_reference s)))) (\<lambda>e.
          bindE (descriptor_from_tag e) (\<lambda>d.
            Inr (cache, resolved @ [\<lparr>rs_alias = sl_alias s, rs_descriptor = d\<rparr>])))
      | KindPluginOutput \<Rightarrow>
          (let i = sr_instance_id (sl_reference s)
           in bindE (case cache i of Some loaded \<Rightarrow> Inr loaded | None \<Rightarrow> load_instance w i) (\<lambda>(inst, outputs).
                case outputs (sr_output_key (sl_reference s)) of
                  None \<Rightarrow> Inl ErrSourceNotFound
                | Some output \<Rightarrow>
                    bindE (descriptor_from_plugin_output inst output) (\<lambda>d.
                      Inr (cache(i \<mapsto> (inst, outputs)), resolved @ [\<lparr>rs_alias = sl_alias s, rs_descriptor = d\<rparr>]))))
      | KindOther k \<Rightarrow> Inl ErrInvalidSourceReference))"

definition resolve_sources :: "source_world \<Rightarrow> source_selection list \<Rightarrow> source_error + resolved_source list" where
  "resolve_sources w ss =
     bindE (normalize_source_selections ss) (\<lambda>normalized.
     bindE (foldE (resolve_selection w) normalized (Map.empty, [])) (\<lambda>(cache, resolved). Inr resolved))"

definition load_batch ::
  "source_world \<Rightarrow> uuid \<Rightarrow> (uuid \<rightharpoonup> output_batch option) \<Rightarrow> source_error + (uuid \<rightharpoonup> output_batch option)" where
  "load_batch w i batches =
     (if batches i \<noteq> None then Inr batches
      else bindE (latest_plugin_batch w i) (\<lambda>b. Inr (batches(i \<mapsto> b))))"

definition plugin_instances_of :: "resolved_source list \<Rightarrow> uuid list" where
  "plugin_instances_of rs =
     map (\<lambda>r. sr_instance_id (sd_reference (rs_descriptor r)))
       (filter (\<lambda>r. sr_kind (sd_reference (rs_descriptor r)) = KindPluginOutput) rs)"

definition source_sample_of ::
  "source_world \<Rightarrow> (uuid \<Rightarrow> tag_value option) \<Rightarrow> (uuid \<rightharpoonup> output_batch option) \<Rightarrow> resolved_source \<Rightarrow> source_sample" where
  "source_sample_of w latest batches r =
     (let d = rs_descriptor r; reference = sd_reference d
      in if sr_kind reference = KindTag then sample_for_tag d (rs_alias r) (latest (sr_tag_id reference))
         else sample_for_plugin_output (sw_render w) d (rs_alias r)
           (case batches (sr_instance_id reference) of None \<Rightarrow> None | Some b \<Rightarrow> b))"

definition load_samples :: "source_world \<Rightarrow> resolved_source list \<Rightarrow> source_error + source_sample list" where
  "load_samples w rs =
     bindE (foldE (load_batch w) (plugin_instances_of rs) Map.empty) (\<lambda>batches.
       Inr (map (source_sample_of w (sw_latest w) batches) rs))"

definition latest_source :: "source_world \<Rightarrow> source_selection \<Rightarrow> source_error + source_sample" where
  "latest_source w s =
     bindE (resolve_sources w [s]) (\<lambda>rs. bindE (load_samples w rs) (\<lambda>samples. Inr (samples ! 0)))"

definition snapshot_sources :: "source_world \<Rightarrow> source_selection list \<Rightarrow> source_error + source_snapshot" where
  "snapshot_sources w ss =
     bindE (resolve_sources w ss) (\<lambda>rs.
     bindE (load_samples w rs) (\<lambda>samples. Inr \<lparr>sn_captured_at = sw_now w, sn_samples = samples\<rparr>))"

section \<open>The catalog\<close>

definition max_catalog_entities :: nat where "max_catalog_entities = 10000"
definition max_catalog_search_length :: nat where "max_catalog_search_length = 200"

text \<open>\<open>listTags\<close> and \<open>listPluginInstances\<close>: the pages until the last or an empty one.\<close>

function list_pages :: "(nat \<Rightarrow> string + 'a list \<times> int) \<Rightarrow> nat \<Rightarrow> 'a list \<Rightarrow> source_error + 'a list" where
  "list_pages fetch page entities =
     (case fetch page of
        Inl m \<Rightarrow> Inl (SourceUpstream m)
      | Inr (data, total_pages) \<Rightarrow>
          let entities' = entities @ data
          in if length entities' > max_catalog_entities then Inl ErrSourceCatalogTooLarge
             else if int page \<ge> total_pages \<or> data = [] then Inr entities'
             else list_pages fetch (page + 1) entities')"
  by pat_completeness auto
termination
  by (relation "measure (\<lambda>(fetch, page, entities). Suc max_catalog_entities - length entities)")
    (auto simp: neq_Nil_conv)

declare list_pages.simps [simp del]

definition contains :: "string \<Rightarrow> string \<Rightarrow> bool" where
  "contains haystack needle =
     list_ex (\<lambda>k. take (length needle) (drop k haystack) = needle) [0 ..< Suc (length haystack)]"

definition matches_catalog_search :: "source_world \<Rightarrow> source_descriptor \<Rightarrow> string \<Rightarrow> bool" where
  "matches_catalog_search w d search =
     (search = [] \<or>
      contains (sw_lower w (sd_name d @ '' '' @ sd_owner_name d @ '' '' @ sd_description d @ '' '' @
        reference_string (sw_render w) (sd_reference d) @ '' '' @ sr_output_key (sd_reference d))) search)"

record catalog_input =
  cti_kind :: "source_kind option"
  cti_enabled :: "bool option"
  cti_search :: string

type_synonym catalog_entry = "source_descriptor \<times> source_current"

definition catalog_tag ::
  "source_world \<Rightarrow> catalog_input \<Rightarrow> string \<Rightarrow> tag_entity \<Rightarrow> catalog_entry list \<Rightarrow> source_error + catalog_entry list" where
  "catalog_tag w input search e entries =
     (if \<exists>b \<in> set_option (cti_enabled input). te_enabled e \<noteq> b then Inr entries
      else bindE (descriptor_from_tag e) (\<lambda>d.
        if \<not> matches_catalog_search w d search then Inr entries
        else Inr (entries @ [(d, current_from_sample (sample_for_tag d [] (sw_latest w (te_id e))))])))"

definition catalog_output ::
  "source_world \<Rightarrow> string \<Rightarrow> instance_data \<Rightarrow> output_batch option \<Rightarrow> output_descriptor \<Rightarrow> catalog_entry list \<Rightarrow>
     source_error + catalog_entry list" where
  "catalog_output w search i batch output entries =
     bindE (descriptor_from_plugin_output i output) (\<lambda>d.
       if \<not> matches_catalog_search w d search then Inr entries
       else Inr (entries @ [(d, current_from_sample (sample_for_plugin_output (sw_render w) d [] batch))]))"

definition catalog_instance ::
  "source_world \<Rightarrow> catalog_input \<Rightarrow> string \<Rightarrow> instance_data \<Rightarrow> catalog_entry list \<Rightarrow> source_error + catalog_entry list" where
  "catalog_instance w input search i entries =
     (if \<exists>b \<in> set_option (cti_enabled input). in_enabled i \<noteq> b then Inr entries
      else bindE (wrapE SourceUpstream (sw_descriptors w (in_id i))) (\<lambda>outputs.
        bindE (latest_plugin_batch w (in_id i)) (\<lambda>batch.
          foldE (catalog_output w search i batch) outputs entries)))"

text \<open>The order of \<open>sortCatalog\<close>: tags first, then by owner, name and reference.\<close>

definition catalog_le :: "(uuid \<Rightarrow> string) \<Rightarrow> source_descriptor \<Rightarrow> source_descriptor \<Rightarrow> bool" where
  "catalog_le render a b =
     (if sr_kind (sd_reference a) \<noteq> sr_kind (sd_reference b) then sr_kind (sd_reference a) = KindTag
      else if sd_owner_name a \<noteq> sd_owner_name b then string_le (sd_owner_name a) (sd_owner_name b)
      else if sd_name a \<noteq> sd_name b then string_le (sd_name a) (sd_name b)
      else string_le (reference_string render (sd_reference a)) (reference_string render (sd_reference b)))"

fun insert_catalog :: "(uuid \<Rightarrow> string) \<Rightarrow> catalog_entry \<Rightarrow> catalog_entry list \<Rightarrow> catalog_entry list" where
  "insert_catalog render e [] = [e]"
| "insert_catalog render e (x # xs) =
     (if catalog_le render (fst e) (fst x) then e # x # xs else x # insert_catalog render e xs)"

definition sort_catalog :: "(uuid \<Rightarrow> string) \<Rightarrow> catalog_entry list \<Rightarrow> catalog_entry list" where
  "sort_catalog render es = foldr (insert_catalog render) es []"

definition source_catalog :: "source_world \<Rightarrow> catalog_input \<Rightarrow> source_error + catalog_entry list" where
  "source_catalog w input =
     (if cti_kind input \<noteq> None \<and> cti_kind input \<noteq> Some KindTag \<and> cti_kind input \<noteq> Some KindPluginOutput
      then Inl ErrInvalidCatalogInput
      else let search = sw_lower w (trim_space (cti_search input))
           in if length search > max_catalog_search_length then Inl ErrInvalidCatalogInput
              else bindE (if cti_kind input = None \<or> cti_kind input = Some KindTag
                          then bindE (list_pages (sw_tag_page w) 1 []) (\<lambda>tags. foldE (catalog_tag w input search) tags [])
                          else Inr [])
                (\<lambda>entries.
                bindE (if cti_kind input = None \<or> cti_kind input = Some KindPluginOutput
                       then bindE (list_pages (sw_instance_page w) 1 [])
                         (\<lambda>instances. foldE (catalog_instance w input search) instances entries)
                       else Inr entries)
                (\<lambda>entries. if length entries > max_catalog_entities then Inl ErrSourceCatalogTooLarge
                  else Inr (sort_catalog (sw_render w) entries))))"

section \<open>Subscriptions\<close>

text \<open>
  The state of a subscription under its mutex: the cursor of each reference, the first error and
  whether the upstreams are still open. A send never blocks.
\<close>

record source_subscription =
  su_events :: "source_sample chan"
  su_seen :: "source_reference \<rightharpoonup> bool \<times> 64 word"
  su_err :: "source_error option"
  su_open :: bool

definition close_upstreams :: "source_subscription \<Rightarrow> source_subscription" where
  "close_upstreams s = s\<lparr>su_open := False\<rparr>"

definition set_first_error :: "source_error \<Rightarrow> source_subscription \<Rightarrow> source_subscription" where
  "set_first_error e s = (if su_err s = None then s\<lparr>su_err := Some e\<rparr> else s)"

definition subscription_fail :: "source_error \<Rightarrow> source_subscription \<Rightarrow> source_subscription" where
  "subscription_fail e s = close_upstreams (set_first_error e s)"

definition already_seen :: "source_sample \<Rightarrow> (source_reference \<rightharpoonup> bool \<times> 64 word) \<Rightarrow> bool" where
  "already_seen x seen =
     (case seen (sm_reference x) of
        None \<Rightarrow> False
      | Some (available, sequence) \<Rightarrow>
          \<not> sm_available x \<and> \<not> available \<or> sm_available x \<and> available \<and> sm_sequence x \<le> sequence)"

definition subscription_publish :: "source_sample \<Rightarrow> source_subscription \<Rightarrow> source_subscription" where
  "subscription_publish x s =
     (if already_seen x (su_seen s) then s
      else case chan_offer x (su_events s) of
        Some c \<Rightarrow> s\<lparr>su_events := c, su_seen := (su_seen s)(sm_reference x \<mapsto> (sm_available x, sm_sequence x))\<rparr>
      | None \<Rightarrow> close_upstreams (set_first_error ErrSourceSubscriberLag s))"

text \<open>What the two stream goroutines do with what they receive; \<open>None\<close> is a closed stream.\<close>

definition tag_source_of :: "resolved_source list \<Rightarrow> uuid \<Rightarrow> resolved_source option" where
  "tag_source_of rs i =
     List.find (\<lambda>r. sr_kind (sd_reference (rs_descriptor r)) = KindTag \<and> sr_tag_id (sd_reference (rs_descriptor r)) = i) rs"

definition run_tag_stream ::
  "resolved_source list \<Rightarrow> tag_value option \<Rightarrow> source_subscription \<Rightarrow> source_subscription" where
  "run_tag_stream rs received s =
     (case received of
        None \<Rightarrow> if su_open s then subscription_fail ErrSourceUpstreamClosed s else s
      | Some v \<Rightarrow>
          (case tag_source_of rs (tv_tag_id v) of
             None \<Rightarrow> s
           | Some r \<Rightarrow> subscription_publish (sample_for_tag (rs_descriptor r) (rs_alias r) (Some v)) s))"

definition run_plugin_stream ::
  "source_world \<Rightarrow> resolved_source list \<Rightarrow> source_error option \<Rightarrow> output_batch option \<Rightarrow> source_subscription \<Rightarrow>
     source_subscription" where
  "run_plugin_stream w rs upstream_err received s =
     (case received of
        None \<Rightarrow>
          if su_open s
          then subscription_fail (case upstream_err of None \<Rightarrow> ErrSourceUpstreamClosed | Some e \<Rightarrow> e) s else s
      | Some b \<Rightarrow>
          fold (\<lambda>r s. let x = sample_for_plugin_output (sw_render w) (rs_descriptor r) (rs_alias r) (Some b)
             in if sm_available x then subscription_publish x s else s) rs s)"

text \<open>\<open>Subscribe\<close>, once the upstreams are subscribed: \<open>replay\<close> is what the value store replays.\<close>

definition initial_samples ::
  "source_world \<Rightarrow> tag_value list \<Rightarrow> resolved_source list \<Rightarrow> source_error + source_sample list" where
  "initial_samples w replay rs =
     bindE (foldE (load_batch w) (sort (plugin_instances_of rs)) Map.empty) (\<lambda>batches.
       Inr (map (source_sample_of w (map_of (rev (map (\<lambda>v. (tv_tag_id v, v)) replay))) batches) rs))"

definition new_subscription :: "nat \<Rightarrow> source_subscription" where
  "new_subscription buffer = \<lparr>su_events = make_chan buffer, su_seen = Map.empty, su_err = None, su_open = True\<rparr>"

definition subscribe_sources ::
  "source_world \<Rightarrow> nat \<Rightarrow> tag_value list \<Rightarrow> source_selection list \<Rightarrow>
     source_error + resolved_source list \<times> source_subscription" where
  "subscribe_sources w buffer replay ss =
     bindE (resolve_sources w ss) (\<lambda>rs.
     bindE (initial_samples w replay rs) (\<lambda>initial.
       Inr (rs, fold subscription_publish initial (new_subscription (buffer + length rs)))))"

section \<open>The providers of sources\<close>

text \<open>
  What the feed relies on: a lookup answers with the entity asked for, a latest value is one the
  value store accepted, and a batch holds values of their declared types.
\<close>

definition typed_source_value :: "output_data_type \<Rightarrow> gval \<Rightarrow> bool" where
  "typed_source_value d v \<longleftrightarrow> normalize_output_typed_value d v = Some v"

locale source_providers =
  fixes ok :: "'s \<Rightarrow> bool"
    and world :: "'s \<Rightarrow> source_world"
  assumes tag_id: "sw_tag (world s) i = Inr e \<Longrightarrow> te_id e = i"
    and instance_id: "sw_instance (world s) i = Inr x \<Longrightarrow> in_id x = i"
    and latest_ok: "ok s \<Longrightarrow> sw_latest (world s) i = Some v \<Longrightarrow> tag_value_ok v"
    and batch_ok: "sw_latest_batch (world s) i = Inr (Some b) \<Longrightarrow> u \<in> set (ob_values b) \<Longrightarrow>
      typed_output_value u = Inr (ov_value u)"
begin

lemma tag_sample_typed:
  assumes "ok s" and "sm_quality (sample_for_tag d alias (sw_latest (world s) i)) = SourceGood"
  shows "typed_source_value (sm_data_type (sample_for_tag d alias (sw_latest (world s) i)))
    (sm_value (sample_for_tag d alias (sw_latest (world s) i)))"
proof (cases "sw_latest (world s) i")
  case None
  then show ?thesis using assms(2) by (simp add: sample_for_tag_def unavailable_sample_def)
next
  case (Some v)
  then have "tag_value_ok v" using latest_ok assms(1) by blast
  then show ?thesis using assms(2) Some
    by (cases "tv_data_type v")
      (auto simp: sample_for_tag_def spoiled_sample_def Let_def source_quality_of_tag_def tag_value_ok_def
        source_type_of_tag_def typed_source_value_def normalize_output_typed_value_def
        split: if_splits quality.splits)
qed

lemma output_sample_typed:
  assumes b: "latest_plugin_batch (world s) i = Inr b"
    and q: "sm_quality (sample_for_plugin_output render d alias b) = SourceGood"
  shows "typed_source_value (sm_data_type (sample_for_plugin_output render d alias b))
    (sm_value (sample_for_plugin_output render d alias b))"
proof -
  obtain batch v where batch: "b = Some batch" "find_output (sr_output_key (sd_reference d)) batch = Some v"
    and v: "ov_schema_version v = sd_schema_version d" "ov_data_type v = sd_data_type d" "ov_quality v = OutputGood"
    using q by (auto simp: sample_for_plugin_output_def unavailable_sample_def spoiled_sample_def
        source_quality_of_output_def Let_def split: option.splits if_splits output_quality.splits)
  have "sw_latest_batch (world s) i = Inr (Some batch)"
    using b batch(1) by (auto simp: latest_plugin_batch_def split: sum.splits lookup_error.splits)
  moreover have "v \<in> set (ob_values batch)"
    using batch(2) by (auto simp: find_output_def find_Some_iff)
  ultimately have "typed_output_value v = Inr (ov_value v)" by (rule batch_ok)
  then show ?thesis using v batch
    by (auto simp: typed_output_value_def typed_source_value_def sample_for_plugin_output_def Let_def
        dest: normalize_output_typed_value_id split: option.splits)
qed

lemma foldE_load_batch:
  assumes "foldE (load_batch (world s)) is m = Inr m'"
    and "\<And>i b. m i = Some b \<Longrightarrow> latest_plugin_batch (world s) i = Inr b"
  shows "m' i = Some b \<Longrightarrow> latest_plugin_batch (world s) i = Inr b"
proof -
  have "\<forall>i b. m' i = Some b \<longrightarrow> latest_plugin_batch (world s) i = Inr b"
    by (rule foldE_invariant [OF assms(1)])
      (use assms(2) in \<open>auto simp: load_batch_def bindE_Inr_iff split: if_splits\<close>)
  then show "m' i = Some b \<Longrightarrow> latest_plugin_batch (world s) i = Inr b" by blast
qed

definition resolves :: "source_selection \<Rightarrow> resolved_source \<Rightarrow> bool" where
  "resolves l r \<longleftrightarrow> rs_alias r = sl_alias l \<and> sd_reference (rs_descriptor r) = sl_reference l"

lemma load_instance_ok:
  "load_instance (world s) i = Inr (x, outputs) \<Longrightarrow>
   in_id x = i \<and> (\<forall>k d. outputs k = Some d \<longrightarrow> od_key d = k)"
  using instance_id find_descriptor_Some by (fastforce simp: load_instance_def bindE_Inr_iff)

lemma resolve_selection_ok:
  assumes "validate_reference (sl_reference l) = Inr ()"
    and "resolve_selection (world s) l (cache, acc) = Inr (cache', acc')"
    and "\<forall>i x outputs. cache i = Some (x, outputs) \<longrightarrow> in_id x = i \<and> (\<forall>k d. outputs k = Some d \<longrightarrow> od_key d = k)"
  shows "(\<exists>r. acc' = acc @ [r] \<and> resolves l r) \<and>
    (\<forall>i x outputs. cache' i = Some (x, outputs) \<longrightarrow> in_id x = i \<and> (\<forall>k d. outputs k = Some d \<longrightarrow> od_key d = k))"
proof (cases "sr_kind (sl_reference l)")
  case KindTag
  then obtain e d where e: "sw_tag (world s) (sr_tag_id (sl_reference l)) = Inr e" "descriptor_from_tag e = Inr d"
    and acc': "acc' = acc @ [\<lparr>rs_alias = sl_alias l, rs_descriptor = d\<rparr>]" "cache' = cache"
    using assms(2) by (auto simp: resolve_selection_def bindE_Inr_iff)
  have "sd_reference d = tag_source (sr_tag_id (sl_reference l))"
    using e tag_id [OF e(1)] by (auto simp: descriptor_from_tag_def Let_def split: if_splits)
  also have "\<dots> = sl_reference l"
    using assms(1) KindTag by (auto simp: validate_reference_def tag_source_def split: if_splits)
  finally show ?thesis using acc' assms(3) by (simp add: resolves_def)
next
  case KindPluginOutput
  define i where "i = sr_instance_id (sl_reference l)"
  obtain x outputs od d where o: "(case cache i of Some loaded \<Rightarrow> Inr loaded | None \<Rightarrow> load_instance (world s) i) = Inr (x, outputs)"
    "outputs (sr_output_key (sl_reference l)) = Some od" "descriptor_from_plugin_output x od = Inr d"
    and acc': "acc' = acc @ [\<lparr>rs_alias = sl_alias l, rs_descriptor = d\<rparr>]" "cache' = cache(i \<mapsto> (x, outputs))"
    using assms(2) KindPluginOutput
    by (auto simp: resolve_selection_def bindE_Inr_iff Let_def i_def [symmetric] split: option.splits prod.splits)
  have ok: "in_id x = i \<and> (\<forall>k d. outputs k = Some d \<longrightarrow> od_key d = k)"
    using o(1) assms(3) load_instance_ok by (auto split: option.splits)
  have "sd_reference d = plugin_output_source i (sr_output_key (sl_reference l))"
    using o(2,3) ok by (auto simp: descriptor_from_plugin_output_def Let_def split: if_splits)
  also have "\<dots> = sl_reference l"
    using assms(1) KindPluginOutput by (auto simp: validate_reference_def plugin_output_source_def i_def split: if_splits)
  finally show ?thesis using acc' assms(3) ok by (simp add: resolves_def)
qed (use assms(1) in \<open>simp add: validate_reference_def\<close>)

lemma resolve_all:
  assumes "foldE (resolve_selection (world s)) ls (cache, acc) = Inr (cache', acc')"
    and "\<forall>l \<in> set ls. validate_reference (sl_reference l) = Inr ()"
    and "\<forall>i x outputs. cache i = Some (x, outputs) \<longrightarrow> in_id x = i \<and> (\<forall>k d. outputs k = Some d \<longrightarrow> od_key d = k)"
  shows "\<exists>rs. acc' = acc @ rs \<and> list_all2 resolves ls rs"
  using assms
proof (induction ls arbitrary: cache acc)
  case (Cons l ls)
  obtain cache1 acc1 where step: "resolve_selection (world s) l (cache, acc) = Inr (cache1, acc1)"
    and rest: "foldE (resolve_selection (world s)) ls (cache1, acc1) = Inr (cache', acc')"
    using Cons.prems(1) by (auto simp: bindE_Inr_iff)
  have "validate_reference (sl_reference l) = Inr ()" using Cons.prems(2) by simp
  note one = resolve_selection_ok [OF this step Cons.prems(3)]
  then obtain r where r: "acc1 = acc @ [r]" "resolves l r" by blast
  have "\<forall>l \<in> set ls. validate_reference (sl_reference l) = Inr ()" using Cons.prems(2) by simp
  from Cons.IH [OF rest this conjunct2 [OF one]] obtain rs where "acc' = acc1 @ rs" "list_all2 resolves ls rs"
    by blast
  with r show ?case by (intro exI [of _ "r # rs"]) simp
qed simp

end

lemma foldE_add_selection:
  "foldE add_selection ss acc = Inr n \<Longrightarrow> distinct (map sl_alias acc) \<Longrightarrow> distinct (map sl_reference acc) \<Longrightarrow>
   n = acc @ ss \<and> distinct (map sl_alias n) \<and> distinct (map sl_reference n) \<and>
   (\<forall>s \<in> set ss. validate_reference (sl_reference s) = Inr ())"
proof (induction ss arbitrary: acc)
  case (Cons s ss)
  then obtain acc' where a: "add_selection s acc = Inr acc'" "foldE add_selection ss acc' = Inr n"
    by (auto simp: bindE_Inr_iff)
  then have "acc' = acc @ [s] \<and> sl_alias s \<notin> sl_alias ` set acc \<and> sl_reference s \<notin> sl_reference ` set acc \<and>
      validate_reference (sl_reference s) = Inr ()"
    by (auto simp: add_selection_def split: if_splits sum.splits)
  then have acc': "acc' = acc @ [s]" "distinct (map sl_alias acc')" "distinct (map sl_reference acc')"
    "validate_reference (sl_reference s) = Inr ()"
    using Cons.prems(2,3) by simp_all
  have ih: "n = acc' @ ss" "distinct (map sl_alias n)" "distinct (map sl_reference n)"
    "\<forall>s \<in> set ss. validate_reference (sl_reference s) = Inr ()"
    using Cons.IH [OF a(2) acc'(2,3)] by blast+
  have "n = acc @ s # ss" using ih(1) acc'(1) by simp
  with ih(2-4) acc'(4) show ?case by (simp del: distinct_append map_append)
qed simp

lemma normalize_source_selections_ok:
  "normalize_source_selections ss = Inr n \<Longrightarrow>
   n = ss \<and> distinct (map sl_alias ss) \<and> distinct (map sl_reference ss) \<and> ss \<noteq> [] \<and>
   (\<forall>s \<in> set ss. validate_reference (sl_reference s) = Inr ())"
  using foldE_add_selection [of ss "[]" n]
  by (auto simp: normalize_source_selections_def split: if_splits)

context source_providers
begin

lemma resolve_sources_ok:
  assumes "resolve_sources (world s) ss = Inr rs"
  shows "list_all2 resolves ss rs" and "distinct (map sl_reference ss)"
proof -
  obtain n where n: "normalize_source_selections ss = Inr n"
    and f: "bindE (foldE (resolve_selection (world s)) n (Map.empty, [])) (\<lambda>(cache, resolved). Inr resolved) = Inr rs"
    using assms by (auto simp: resolve_sources_def bindE_Inr_iff)
  note ok = normalize_source_selections_ok [OF n]
  obtain cache where "foldE (resolve_selection (world s)) ss (Map.empty, []) = Inr (cache, rs)"
    using f ok by (auto simp: bindE_Inr_iff)
  from resolve_all [OF this] ok show "list_all2 resolves ss rs" by auto
  show "distinct (map sl_reference ss)" using ok by blast
qed

text \<open>The sample of a resolved source, read from what was latest.\<close>

lemma source_sample_ok:
  assumes "ok s" and "\<And>i b. batches i = Some b \<Longrightarrow> latest_plugin_batch (world s) i = Inr b"
  shows "sm_alias (source_sample_of (world s) (sw_latest (world s)) batches r) = rs_alias r \<and>
    sm_reference (source_sample_of (world s) (sw_latest (world s)) batches r) = sd_reference (rs_descriptor r) \<and>
    (sm_quality (source_sample_of (world s) (sw_latest (world s)) batches r) = SourceGood \<longrightarrow>
      typed_source_value (sm_data_type (source_sample_of (world s) (sw_latest (world s)) batches r))
        (sm_value (source_sample_of (world s) (sw_latest (world s)) batches r)))"
proof (cases "sr_kind (sd_reference (rs_descriptor r)) = KindTag")
  case True
  then show ?thesis using tag_sample_typed [OF assms(1)]
    by (auto simp: source_sample_of_def Let_def sample_for_tag_def unavailable_sample_def spoiled_sample_def
        split: option.splits)
next
  case False
  show ?thesis
  proof (cases "batches (sr_instance_id (sd_reference (rs_descriptor r)))")
    case None
    then show ?thesis using False
      by (simp add: source_sample_of_def Let_def sample_for_plugin_output_def unavailable_sample_def)
  next
    case (Some b)
    then show ?thesis using False output_sample_typed [OF assms(2) [OF Some]]
      by (auto simp: source_sample_of_def Let_def sample_for_plugin_output_def unavailable_sample_def
          spoiled_sample_def split: option.splits)
  qed
qed

lemma snapshot_ok:
  assumes "ok s" and "snapshot_sources (world s) ss = Inr sn"
  shows "sn_captured_at sn = sw_now (world s) \<and>
    list_all2 (\<lambda>l x. sm_alias x = sl_alias l \<and> sm_reference x = sl_reference l \<and>
      (sm_quality x = SourceGood \<longrightarrow> typed_source_value (sm_data_type x) (sm_value x))) ss (sn_samples sn)"
proof -
  obtain rs batches where rs: "resolve_sources (world s) ss = Inr rs"
    and m: "foldE (load_batch (world s)) (plugin_instances_of rs) Map.empty = Inr batches"
    and sn: "sn = \<lparr>sn_captured_at = sw_now (world s),
       sn_samples = map (source_sample_of (world s) (sw_latest (world s)) batches) rs\<rparr>"
    using assms(2) by (auto simp: snapshot_sources_def load_samples_def bindE_Inr_iff)
  have b: "batches i = Some b \<Longrightarrow> latest_plugin_batch (world s) i = Inr b" for i b
    by (rule foldE_load_batch [OF m]) simp_all
  have "list_all2 (\<lambda>l r. let x = source_sample_of (world s) (sw_latest (world s)) batches r
      in sm_alias x = sl_alias l \<and> sm_reference x = sl_reference l \<and>
      (sm_quality x = SourceGood \<longrightarrow> typed_source_value (sm_data_type x) (sm_value x))) ss rs"
    by (rule list_all2_mono [OF resolve_sources_ok(1) [OF rs]])
      (simp add: resolves_def Let_def source_sample_ok [OF assms(1) b])
  then show ?thesis by (simp add: sn list_all2_map2 Let_def)
qed

end

section \<open>The feed over the stores of the server\<close>

record publisher_stores =
  ps_tags :: tag_repository
  ps_values :: value_store
  ps_instances :: instance_table
  ps_outputs :: output_table

definition world_latest_batch :: "('c, 'r) registry \<Rightarrow> publisher_stores \<Rightarrow> uuid \<Rightarrow> lookup_error + output_batch option" where
  "world_latest_batch reg s i =
     (case output_latest (latest_output_row (ps_outputs s))
             (\<lambda>i. case instance_output_descriptors reg (ps_instances s) i of Inl e \<Rightarrow> Inl ''descriptors'' | Inr ds \<Rightarrow> Inr ds) i of
        Inl ErrOutputBatchNotFound \<Rightarrow> Inl LookupNotFound
      | Inl e \<Rightarrow> Inl (LookupFailed ''outputs'')
      | Inr b \<Rightarrow> Inr (Some b))"

text \<open>The pages are of one hundred rows; the texts of the errors stand for the ones of the services.\<close>

definition page_of :: "'a list \<Rightarrow> nat \<Rightarrow> string + 'a list \<times> int" where
  "page_of xs page = Inr (take 100 (drop (100 * (page - 1)) xs), (int (length xs) + 99) div 100)"

definition store_world ::
  "('c, 'r) registry \<Rightarrow> (uuid \<Rightarrow> string) \<Rightarrow> (string \<Rightarrow> string) \<Rightarrow> gotime \<Rightarrow> publisher_stores \<Rightarrow> source_world" where
  "store_world reg render lower now s =
     \<lparr>sw_tag = (\<lambda>i. case repository_find i (ps_tags s) of Inl ErrTagNotFound \<Rightarrow> Inl LookupNotFound
        | Inl e \<Rightarrow> Inl (LookupFailed ''tags'') | Inr e \<Rightarrow> Inr e),
      sw_tag_page = page_of (tr_tags (ps_tags s)),
      sw_latest = (\<lambda>i. latest_value i (ps_values s)),
      sw_instance = (\<lambda>i. case find_instance (ps_instances s) i of Inl e \<Rightarrow> Inl LookupNotFound | Inr x \<Rightarrow> Inr x),
      sw_instance_page = page_of (ps_instances s),
      sw_descriptors = (\<lambda>i. case instance_output_descriptors reg (ps_instances s) i of
        Inl e \<Rightarrow> Inl ''descriptors'' | Inr ds \<Rightarrow> Inr ds),
      sw_latest_batch = world_latest_batch reg s, sw_now = now, sw_render = render, sw_lower = lower\<rparr>"

lemma output_latest_typed:
  assumes "output_latest latest resolver i = Inr b" and "v \<in> set (ob_values b)"
  shows "typed_output_value v = Inr (ov_value v)"
proof -
  obtain ds raw where "normalize_complete_output_batch raw ds = Inr b"
    using assms(1) by (auto simp: output_latest_def split: if_splits sum.splits option.splits)
  then have "output_normal ds (ob_published_at b) v"
    using normalize_complete_id output_batch_normal assms(2) by blast
  then obtain d where "normalize_output_value v d (ob_published_at b) = Inr v"
    by (auto simp: output_normal_def)
  then show ?thesis unfolding normalize_output_value_Inr by blast
qed

interpretation server_sources: source_providers "\<lambda>s. value_store_inv (ps_values s)" "store_world reg render lower now"
  for reg render lower now
proof unfold_locales
  show "sw_tag (store_world reg render lower now s) i = Inr e \<Longrightarrow> te_id e = i" for s i e
    using repository_find_id by (fastforce simp: store_world_def split: sum.splits tag_error.splits)
  show "sw_instance (store_world reg render lower now s) i = Inr x \<Longrightarrow> in_id x = i" for s i x
    by (auto simp: store_world_def find_instance_def find_Some_iff split: sum.splits option.splits)
  show "value_store_inv (ps_values s) \<Longrightarrow> sw_latest (store_world reg render lower now s) i = Some v \<Longrightarrow> tag_value_ok v"
    for s i v
    by (simp add: store_world_def latest_value_def value_store_inv_def entries_ok_def tag_entry_ok_def)
      (metis last_in_set)
  show "sw_latest_batch (store_world reg render lower now s) i = Inr (Some b) \<Longrightarrow> u \<in> set (ob_values b) \<Longrightarrow>
      typed_output_value u = Inr (ov_value u)" for s i b u
    by (auto simp: store_world_def world_latest_batch_def split: sum.splits output_error.splits
        intro: output_latest_typed)
qed

text \<open>
  C31: what a publisher's snapshot holds. Over the stores of the server it has one sample for each
  selected source, in the order of the selection, with its alias and reference; and a sample of good
  quality holds a value of exactly the data type the sample declares.
\<close>

theorem snapshot_is_typed:
  assumes "value_store_inv (ps_values s)" and "snapshot_sources (store_world reg render lower now s) ss = Inr sn"
  shows "sn_captured_at sn = now \<and>
    list_all2 (\<lambda>l x. sm_alias x = sl_alias l \<and> sm_reference x = sl_reference l \<and>
      (sm_quality x = SourceGood \<longrightarrow> typed_source_value (sm_data_type x) (sm_value x))) ss (sn_samples sn)"
  using server_sources.snapshot_ok [OF assms] by (simp add: store_world_def)

lemma list_all2_map_eq: "list_all2 P xs ys \<Longrightarrow> (\<And>x y. P x y \<Longrightarrow> g y = f x) \<Longrightarrow> map g ys = map f xs"
  by (induction rule: list_all2_induct) simp_all

definition sample_stores :: publisher_stores where
  "sample_stores = \<lparr>ps_tags = \<lparr>tr_tags = [\<lparr>te_id = 9, te_datasource = Some 3, te_name = ''x'', te_type = TypeReading,
       te_data_type = DTBool, te_description = None, te_enabled = True, te_config = MalformedConfig\<rparr>], tr_rows = [],
       tr_datasources = [3]\<rparr>, ps_values = new_value_store, ps_instances = [], ps_outputs = Map.empty\<rparr>"

theorem snapshot_is_typed_witness:
  "\<exists>sn. snapshot_sources (store_world ([] :: (unit, unit) registry) (\<lambda>_. ''id'') (\<lambda>x. x) 7 sample_stores)
      [\<lparr>sl_alias = ''a'', sl_reference = tag_source 9\<rparr>] = Inr sn \<and> map sm_alias (sn_samples sn) = [''a'']"
proof -
  let ?w = "store_world ([] :: (unit, unit) registry) (\<lambda>_. ''id'') (\<lambda>x. x) 7 sample_stores"
  let ?l = "\<lparr>sl_alias = ''a'', sl_reference = tag_source 9\<rparr>"
  have inv: "value_store_inv (ps_values sample_stores)"
    by (simp add: sample_stores_def value_store.inv_init)
  have t: "trim_space ''a'' = ''a''" by (rule trim_space_plain; simp add: plain_char_ascii)
  have p: "source_alias_pattern ''a''" by (simp add: source_alias_pattern_def is_alpha_def byte_of_def)
  have "normalize_source_selections [?l] = Inr [?l]"
    by (simp add: normalize_source_selections_def add_selection_def t p validate_reference_def tag_source_def
        max_source_selections_def)
  then obtain sn where sn: "snapshot_sources ?w [?l] = Inr sn"
    by (simp add: snapshot_sources_def resolve_sources_def resolve_selection_def load_samples_def tag_source_def
        store_world_def sample_stores_def repository_find_def descriptor_from_tag_def source_type_of_tag_def
        valid_output_data_type_def plugin_instances_of_def)
  have "map sm_alias (sn_samples sn) = map sl_alias [?l]"
    by (rule list_all2_map_eq [OF conjunct2 [OF snapshot_is_typed [OF inv sn]]]) (erule conjunct1)
  then have "map sm_alias (sn_samples sn) = [''a'']" by simp
  show ?thesis by (rule exI, rule conjI, rule sn, fact)
qed

section \<open>What a subscriber receives\<close>

definition source_receive :: "source_subscription \<Rightarrow> (source_sample \<times> source_subscription) option" where
  "source_receive s =
     (case chan_poll (su_events s) of None \<Rightarrow> None | Some (x, c) \<Rightarrow> Some (x, s\<lparr>su_events := c\<rparr>))"

text \<open>The samples that are news to a subscriber, in order.\<close>

fun fresh_samples :: "(source_reference \<rightharpoonup> bool \<times> 64 word) \<Rightarrow> source_sample list \<Rightarrow> source_sample list" where
  "fresh_samples seen [] = []"
| "fresh_samples seen (x # xs) =
     (if already_seen x seen then fresh_samples seen xs
      else x # fresh_samples (seen(sm_reference x \<mapsto> (sm_available x, sm_sequence x))) xs)"

definition sequences_of :: "source_reference \<Rightarrow> source_sample list \<Rightarrow> 64 word list" where
  "sequences_of r xs = map sm_sequence (filter (\<lambda>x. sm_available x \<and> sm_reference x = r) xs)"

lemma sequences_of_append [simp]: "sequences_of r (xs @ ys) = sequences_of r xs @ sequences_of r ys"
  by (simp add: sequences_of_def)

definition cursor_ok :: "source_sample list \<Rightarrow> source_subscription \<Rightarrow> bool" where
  "cursor_ok emitted s \<longleftrightarrow> (\<forall>r. sorted_wrt (<) (sequences_of r emitted) \<and>
     (\<forall>q \<in> set (sequences_of r emitted). \<exists>c. su_seen s r = Some (True, c) \<and> q \<le> c))"

lemma subscription_publish_cases:
  obtains (stale) "already_seen x (su_seen s)" "subscription_publish x s = s"
  | (sent) c where "\<not> already_seen x (su_seen s)"
      "subscription_publish x s = s\<lparr>su_events := c, su_seen := (su_seen s)(sm_reference x \<mapsto> (sm_available x, sm_sequence x))\<rparr>"
      "ch_queue c = ch_queue (su_events s) @ [x]" "ch_capacity c = ch_capacity (su_events s)"
  | (lag) "\<not> already_seen x (su_seen s)" "subscription_publish x s = close_upstreams (set_first_error ErrSourceSubscriberLag s)"
      "ch_capacity (su_events s) \<le> length (ch_queue (su_events s))"
proof (cases "already_seen x (su_seen s)")
  case True
  then show thesis by (rule stale) (simp add: subscription_publish_def True)
next
  case False
  show thesis
  proof (cases "chan_offer x (su_events s)")
    case None
    then show thesis using False
      by (intro lag) (auto simp: subscription_publish_def chan_offer_def split: if_splits)
  next
    case (Some c)
    then show thesis using False
      by (intro sent [of c]) (auto simp: subscription_publish_def chan_offer_def split: if_splits)
  qed
qed

lemma cursor_ok_emit:
  assumes "cursor_ok h s" and "\<not> already_seen x (su_seen s)"
    and "sm_available x \<or> su_seen s (sm_reference x) = None"
    and t: "su_seen t = (su_seen s)(sm_reference x \<mapsto> (sm_available x, sm_sequence x))"
  shows "cursor_ok (h @ [x]) t"
  unfolding cursor_ok_def
proof
  fix r
  have r: "sorted_wrt (<) (sequences_of r h)" "\<forall>q \<in> set (sequences_of r h). \<exists>c. su_seen s r = Some (True, c) \<and> q \<le> c"
    using assms(1) by (simp_all add: cursor_ok_def)
  show "sorted_wrt (<) (sequences_of r (h @ [x])) \<and>
     (\<forall>q \<in> set (sequences_of r (h @ [x])). \<exists>c. su_seen t r = Some (True, c) \<and> q \<le> c)"
  proof (cases "sm_reference x = r")
    case False
    then show ?thesis using r t by (simp add: sequences_of_def)
  next
    case True
    show ?thesis
    proof (cases "sm_available x")
      case False
      then have "sequences_of r h = []" using assms(3) r(2) True by (cases "sequences_of r h") auto
      then show ?thesis using False by (simp add: sequences_of_def)
    next
      case av: True
      have below: "q < sm_sequence x" if q: "q \<in> set (sequences_of r h)" for q
      proof -
        obtain c where c: "su_seen s r = Some (True, c)" "q \<le> c" using r(2) q by blast
        then have "\<not> sm_sequence x \<le> c" using assms(2) av True by (simp add: already_seen_def)
        with c(2) show ?thesis by simp
      qed
      have "sequences_of r [x] = [sm_sequence x]" using av True by (simp add: sequences_of_def)
      then have seqs: "sequences_of r (h @ [x]) = sequences_of r h @ [sm_sequence x]" by simp
      have "su_seen t r = Some (True, sm_sequence x)" using t True av by simp
      then show ?thesis unfolding seqs using below r(1) by (auto simp: sorted_wrt_append less_imp_le)
    qed
  qed
qed

lemma cursor_ok_same: "cursor_ok h s \<Longrightarrow> su_seen t = su_seen s \<Longrightarrow> cursor_ok h t"
  by (simp add: cursor_ok_def)

lemma close_lag_keeps [simp]:
  "su_seen (close_upstreams (set_first_error e s)) = su_seen s"
  "su_events (close_upstreams (set_first_error e s)) = su_events s"
  "su_err (close_upstreams (set_first_error e s)) \<noteq> None"
  by (simp_all add: close_upstreams_def set_first_error_def)

text \<open>The first samples of a subscription: one for each reference, and room for all of them.\<close>

lemma publish_initial:
  assumes "distinct (map sm_reference xs)" and "\<forall>x \<in> set xs. su_seen s (sm_reference x) = None"
    and "length (ch_queue (su_events s)) + length xs \<le> ch_capacity (su_events s)"
    and "cursor_ok (ch_queue (su_events s)) s"
  shows "ch_queue (su_events (fold subscription_publish xs s)) = ch_queue (su_events s) @ xs \<and>
    su_err (fold subscription_publish xs s) = su_err s \<and>
    cursor_ok (ch_queue (su_events (fold subscription_publish xs s))) (fold subscription_publish xs s)"
  using assms
proof (induction xs arbitrary: s)
  case (Cons x xs)
  have new: "su_seen s (sm_reference x) = None" using Cons.prems(2) by simp
  then have fresh: "\<not> already_seen x (su_seen s)" by (simp add: already_seen_def)
  obtain c where t: "subscription_publish x s =
      s\<lparr>su_events := c, su_seen := (su_seen s)(sm_reference x \<mapsto> (sm_available x, sm_sequence x))\<rparr>"
    and c: "ch_queue c = ch_queue (su_events s) @ [x]" "ch_capacity c = ch_capacity (su_events s)"
  proof (cases rule: subscription_publish_cases [of x s])
    case stale
    with fresh show ?thesis by simp
  next
    case (sent c)
    then show ?thesis by (intro that [of c])
  next
    case lag
    with Cons.prems(3) show ?thesis by simp
  qed
  let ?t = "subscription_publish x s"
  have "cursor_ok (ch_queue (su_events s) @ [x]) ?t"
    by (rule cursor_ok_emit [OF Cons.prems(4) fresh]) (simp_all add: new t)
  then have "cursor_ok (ch_queue (su_events ?t)) ?t" by (simp add: t c)
  moreover have "distinct (map sm_reference xs)" "\<forall>y \<in> set xs. su_seen ?t (sm_reference y) = None"
    using Cons.prems(1,2) by (auto simp: t image_iff)
  moreover have "length (ch_queue (su_events ?t)) + length xs \<le> ch_capacity (su_events ?t)"
    using Cons.prems(3) by (simp add: t c)
  ultimately have ih: "ch_queue (su_events (fold subscription_publish xs ?t)) = ch_queue (su_events ?t) @ xs \<and>
      su_err (fold subscription_publish xs ?t) = su_err ?t \<and>
      cursor_ok (ch_queue (su_events (fold subscription_publish xs ?t))) (fold subscription_publish xs ?t)"
    by (intro Cons.IH)
  have "ch_queue (su_events ?t) = ch_queue (su_events s) @ [x]" "su_err ?t = su_err s"
    by (simp_all add: t c)
  with ih have "ch_queue (su_events (fold subscription_publish xs ?t)) = ch_queue (su_events s) @ x # xs"
    "su_err (fold subscription_publish xs ?t) = su_err s" by simp_all
  moreover from ih have "cursor_ok (ch_queue (su_events (fold subscription_publish xs ?t))) (fold subscription_publish xs ?t)"
    by blast
  ultimately have "ch_queue (su_events (fold subscription_publish xs ?t)) = ch_queue (su_events s) @ x # xs"
    "su_err (fold subscription_publish xs ?t) = su_err s"
    "cursor_ok (ch_queue (su_events s) @ x # xs) (fold subscription_publish xs ?t)" by metis+
  then show ?case by simp
qed simp

text \<open>From then on only samples with a value are published, and the client receives.\<close>

lemma drive_source:
  assumes "drive subscription_publish source_receive acts s = (out, t)"
    and "\<forall>x \<in> set (published acts). sm_available x" and "cursor_ok (h @ ch_queue (su_events s)) s"
  shows "cursor_ok (h @ out @ ch_queue (su_events t)) t \<and> (su_err t = None \<longrightarrow> su_err s = None \<and>
    out @ ch_queue (su_events t) = ch_queue (su_events s) @ fresh_samples (su_seen s) (published acts))"
  using assms
proof (induction acts arbitrary: s out h)
  case (Cons a acts)
  show ?case
  proof (cases a)
    case (Publish x)
    let ?s = "subscription_publish x s"
    have run: "drive subscription_publish source_receive acts ?s = (out, t)"
      and av: "\<forall>x \<in> set (published acts). sm_available x" "sm_available x"
      using Cons.prems(1,2) Publish by simp_all
    show ?thesis
    proof (cases rule: subscription_publish_cases [of x s])
      case stale
      then show ?thesis using Cons.IH [OF run av(1)] Cons.prems(3) Publish by simp
    next
      case (sent c)
      have "cursor_ok (h @ ch_queue (su_events s) @ [x]) ?s"
        using cursor_ok_emit [OF Cons.prems(3) sent(1), of ?s] av(2) sent(2) by simp
      then have "cursor_ok (h @ ch_queue (su_events ?s)) ?s" using sent(2,3) by simp
      note ih = Cons.IH [OF run av(1) this]
      have "su_seen ?s = (su_seen s)(sm_reference x \<mapsto> (sm_available x, sm_sequence x))"
        "su_err ?s = su_err s" "ch_queue (su_events ?s) = ch_queue (su_events s) @ [x]"
        using sent(2,3) by simp_all
      with ih sent(1) Publish show ?thesis by (simp del: fun_upd_apply)
    next
      case lag
      then have "cursor_ok (h @ ch_queue (su_events ?s)) ?s"
        using cursor_ok_same [OF Cons.prems(3)] by simp
      note ih = Cons.IH [OF run av(1) this]
      have "su_err ?s \<noteq> None" using lag(2) close_lag_keeps(3) [of ErrSourceSubscriberLag s] by simp
      with ih have "su_err t \<noteq> None" "cursor_ok (h @ out @ ch_queue (su_events t)) t" by blast+
      then show ?thesis by blast
    qed
  next
    case Receive
    show ?thesis
    proof (cases "source_receive s")
      case None
      then show ?thesis using Cons Receive by simp
    next
      case (Some xs)
      obtain x s' where xs: "xs = (x, s')" by (cases xs)
      obtain out' where run: "drive subscription_publish source_receive acts s' = (out', t)" and out: "out = x # out'"
        using Cons.prems(1) Receive Some xs by (auto split: prod.splits)
      have s': "ch_queue (su_events s) = x # ch_queue (su_events s')" "su_seen s' = su_seen s" "su_err s' = su_err s"
        using Some xs by (auto simp: source_receive_def chan_poll_def split: option.splits list.splits)
      have "cursor_ok ((h @ [x]) @ ch_queue (su_events s')) s'"
        using cursor_ok_same [OF Cons.prems(3) s'(2)] s'(1) by simp
      from Cons.IH [OF run _ this] Cons.prems(2) Receive s' out show ?thesis by simp
    qed
  qed
qed simp

lemma source_sample_reference [simp]:
  "sm_reference (source_sample_of w latest batches r) = sd_reference (rs_descriptor r)"
  by (auto simp: source_sample_of_def Let_def sample_for_tag_def sample_for_plugin_output_def unavailable_sample_def
      spoiled_sample_def split: option.splits)

context source_providers
begin

lemma subscribe_ok:
  assumes "subscribe_sources (world s) buffer replay ss = Inr (rs, s0)"
  shows "map sm_reference (ch_queue (su_events s0)) = map sl_reference ss" and "su_err s0 = None"
    and "cursor_ok (ch_queue (su_events s0)) s0"
proof -
  obtain batches where rs: "resolve_sources (world s) ss = Inr rs"
    and s0: "s0 = fold subscription_publish (map (source_sample_of (world s)
        (map_of (rev (map (\<lambda>v. (tv_tag_id v, v)) replay))) batches) rs) (new_subscription (buffer + length rs))"
    using assms by (auto simp: subscribe_sources_def initial_samples_def bindE_Inr_iff)
  let ?xs = "map (source_sample_of (world s) (map_of (rev (map (\<lambda>v. (tv_tag_id v, v)) replay))) batches) rs"
  have refs: "map sm_reference ?xs = map sl_reference ss"
    using resolve_sources_ok(1) [OF rs] by (induction rule: list_all2_induct) (simp_all add: resolves_def)
  have new: "ch_queue (su_events (new_subscription n)) = []" "ch_capacity (su_events (new_subscription n)) = n"
    "su_seen (new_subscription n) = Map.empty" "su_err (new_subscription n) = None" for n
    by (simp_all add: new_subscription_def make_chan_def)
  have c: "cursor_ok [] (new_subscription n)" for n by (simp add: cursor_ok_def sequences_of_def)
  have "distinct (map sm_reference ?xs)" using resolve_sources_ok(2) [OF rs] unfolding refs .
  then have "ch_queue (su_events s0) = [] @ ?xs \<and> su_err s0 = None \<and> cursor_ok (ch_queue (su_events s0)) s0"
    using publish_initial [of ?xs "new_subscription (buffer + length rs)"] c
    unfolding s0 [symmetric] new by auto
  then have "ch_queue (su_events s0) = ?xs" "su_err s0 = None" "cursor_ok (ch_queue (su_events s0)) s0"
    unfolding append_Nil by blast+
  then show "map sm_reference (ch_queue (su_events s0)) = map sl_reference ss" and "su_err s0 = None"
    and "cursor_ok (ch_queue (su_events s0)) s0"
    using refs by (simp only:)+
qed

lemma events_in_order:
  assumes "subscribe_sources (world s) buffer replay ss = Inr (rs, s0)"
    and "drive subscription_publish source_receive acts s0 = (out, t)" and "\<forall>x \<in> set (published acts). sm_available x"
  shows "map sm_reference (ch_queue (su_events s0)) = map sl_reference ss \<and> su_err s0 = None \<and>
    (\<forall>r. sorted_wrt (<) (sequences_of r out)) \<and>
    (su_err t = None \<longrightarrow>
      out @ ch_queue (su_events t) = ch_queue (su_events s0) @ fresh_samples (su_seen s0) (published acts))"
proof -
  note s0 = subscribe_ok [OF assms(1)]
  have "cursor_ok ([] @ ch_queue (su_events s0)) s0" using s0(3) by simp
  note run = drive_source [OF assms(2,3) this]
  then have "\<forall>r. sorted_wrt (<) (sequences_of r out)"
    by (simp add: cursor_ok_def sorted_wrt_append)
  with run s0 show ?thesis by blast
qed

end

text \<open>
  C32: what a publisher receives of a subscription. It starts with one sample for each selected
  source, in the order of the selection, and the channel always has room for them; after that the
  sequences of the available samples of each source strictly increase, whatever is published and
  whenever the client receives. While the subscription has no error, the client gets every sample that was
  news when it was published, in that order, and nothing else.
\<close>

theorem source_events_in_order:
  assumes "subscribe_sources (store_world reg render lower now s) buffer replay ss = Inr (rs, s0)"
    and "drive subscription_publish source_receive acts s0 = (out, t)" and "\<forall>x \<in> set (published acts). sm_available x"
  shows "map sm_reference (ch_queue (su_events s0)) = map sl_reference ss \<and> su_err s0 = None \<and>
    (\<forall>r. sorted_wrt (<) (sequences_of r out)) \<and>
    (su_err t = None \<longrightarrow>
      out @ ch_queue (su_events t) = ch_queue (su_events s0) @ fresh_samples (su_seen s0) (published acts))"
  by (rule server_sources.events_in_order [OF assms])

theorem source_events_in_order_witness:
  "\<exists>rs s0 out t. subscribe_sources (store_world ([] :: (unit, unit) registry) (\<lambda>_. ''id'') (\<lambda>x. x) 7 sample_stores) 4 []
      [\<lparr>sl_alias = ''a'', sl_reference = tag_source 9\<rparr>] = Inr (rs, s0) \<and>
    drive subscription_publish source_receive [Receive] s0 = (out, t) \<and> (\<forall>r. sorted_wrt (<) (sequences_of r out))"
proof -
  let ?w = "store_world ([] :: (unit, unit) registry) (\<lambda>_. ''id'') (\<lambda>x. x) 7 sample_stores"
  let ?l = "\<lparr>sl_alias = ''a'', sl_reference = tag_source 9\<rparr>"
  have t: "trim_space ''a'' = ''a''" by (rule trim_space_plain; simp add: plain_char_ascii)
  have p: "source_alias_pattern ''a''" by (simp add: source_alias_pattern_def is_alpha_def byte_of_def)
  have "normalize_source_selections [?l] = Inr [?l]"
    by (simp add: normalize_source_selections_def add_selection_def t p validate_reference_def tag_source_def
        max_source_selections_def)
  then obtain rs s0 where sub: "subscribe_sources ?w 4 [] [?l] = Inr (rs, s0)"
    by (simp add: subscribe_sources_def initial_samples_def resolve_sources_def resolve_selection_def tag_source_def
        store_world_def sample_stores_def repository_find_def descriptor_from_tag_def source_type_of_tag_def
        valid_output_data_type_def plugin_instances_of_def)
  obtain out t where run: "drive subscription_publish source_receive [Receive] s0 = (out, t)"
    by (cases "drive subscription_publish source_receive [Receive] s0")
  note ok = source_events_in_order [OF sub run]
  have "\<forall>r. sorted_wrt (<) (sequences_of r out)" using ok by simp
  then show ?thesis by (intro exI conjI) (rule sub, rule run, assumption)
qed

end
