(* ===== verification/Publisher_Transport.thy ===== *)
theory Publisher_Transport
  imports Publisher_Source Go_Text
begin

text \<open>
  What a data publisher is made of: its trigger (\<open>internal/publisher/trigger.go\<close>), the registries
  of definitions and transports (\<open>definition.go\<close>, \<open>transport.go\<close>) and the claims a transport makes
  on listening addresses. The JSON text of a configuration is decoded before these definitions.
\<close>

section \<open>Errors and types\<close>

datatype publisher_error =
    ErrPublisherNotFound | ErrPublisherNameExists | ErrInvalidPublisher | ErrInvalidPublisherInput
  | ErrConfigVersionMismatch | ErrInvalidPublisherConfig | ErrUnsupportedPublisherType | ErrIncompatibleSource
  | ErrCredentialNotFound | ErrCredentialIncompatible
  | ErrPublisherDefinitionRequired | ErrPublisherDefinitionExists
  | ErrTransportRequired | ErrTransportFactoryExists | ErrTransportUnavailable
  | ErrInvalidListenerClaim | ErrListenerConflict uuid
  | PublisherSource source_error | PublisherUpstream string

datatype publisher_type = TypeHTTPServer | TypeMQTT | TypeHTTPClient | TypeOther string

definition publisher_type_name :: "publisher_type \<Rightarrow> string" where
  "publisher_type_name t =
     (case t of TypeHTTPServer \<Rightarrow> ''http_server'' | TypeMQTT \<Rightarrow> ''mqtt'' | TypeHTTPClient \<Rightarrow> ''http_client'' | TypeOther s \<Rightarrow> s)"

definition valid_publisher_type :: "publisher_type \<Rightarrow> bool" where
  "valid_publisher_type t \<longleftrightarrow> (case t of TypeOther s \<Rightarrow> False | _ \<Rightarrow> True)"

section \<open>The trigger\<close>

datatype trigger_mode = TriggerInterval | TriggerOnChange | TriggerOther string

record trigger_config =
  tg_mode :: trigger_mode
  tg_source_alias :: string
  tg_interval_ms :: "64 word"
  tg_coalesce_ms :: "64 word"

definition default_publisher_interval :: duration where "default_publisher_interval = minute"
definition default_publisher_coalesce :: duration where "default_publisher_coalesce = 100 * millisecond"
definition min_publisher_interval :: duration where "min_publisher_interval = 100 * millisecond"
definition max_publisher_interval :: duration where "max_publisher_interval = 24 * hour"
definition min_publisher_coalesce :: duration where "min_publisher_coalesce = millisecond"
definition max_publisher_coalesce :: duration where "max_publisher_coalesce = minute"

lemmas trigger_bounds =
  default_publisher_interval_def default_publisher_coalesce_def min_publisher_interval_def
  max_publisher_interval_def min_publisher_coalesce_def max_publisher_coalesce_def duration_units

text \<open>\<open>time.Duration(ms) * time.Millisecond\<close>: an \<open>int64\<close> product, which wraps.\<close>

definition trigger_interval :: "trigger_config \<Rightarrow> duration" where
  "trigger_interval t = sint (tg_interval_ms t * 1000000)"

definition trigger_coalesce :: "trigger_config \<Rightarrow> duration" where
  "trigger_coalesce t = sint (tg_coalesce_ms t * 1000000)"

definition default_interval_trigger :: trigger_config where
  "default_interval_trigger = \<lparr>tg_mode = TriggerInterval, tg_source_alias = [],
     tg_interval_ms = of_int (default_publisher_interval div millisecond), tg_coalesce_ms = 0\<rparr>"

definition normalize_interval_trigger :: "trigger_config \<Rightarrow> publisher_error + trigger_config" where
  "normalize_interval_trigger t =
     (if tg_source_alias t \<noteq> [] \<or> tg_coalesce_ms t \<noteq> 0 then Inl ErrInvalidPublisherConfig
      else let t' = (if tg_interval_ms t = 0
                     then t\<lparr>tg_interval_ms := of_int (default_publisher_interval div millisecond)\<rparr> else t)
           in if trigger_interval t' < min_publisher_interval \<or> trigger_interval t' > max_publisher_interval
              then Inl ErrInvalidPublisherConfig else Inr t')"

definition normalize_on_change_trigger :: "trigger_config \<Rightarrow> publisher_error + trigger_config" where
  "normalize_on_change_trigger t =
     (if \<not> source_alias_pattern (tg_source_alias t) \<or> tg_interval_ms t \<noteq> 0 then Inl ErrInvalidPublisherConfig
      else let t' = (if tg_coalesce_ms t = 0
                     then t\<lparr>tg_coalesce_ms := of_int (default_publisher_coalesce div millisecond)\<rparr> else t)
           in if trigger_coalesce t' < min_publisher_coalesce \<or> trigger_coalesce t' > max_publisher_coalesce
              then Inl ErrInvalidPublisherConfig else Inr t')"

definition normalize_trigger :: "trigger_config \<Rightarrow> publisher_error + trigger_config" where
  "normalize_trigger t =
     (if tg_mode t = TriggerOther [] then Inr default_interval_trigger
      else case tg_mode t of
        TriggerInterval \<Rightarrow> normalize_interval_trigger t
      | TriggerOnChange \<Rightarrow> normalize_on_change_trigger t
      | TriggerOther s \<Rightarrow> Inl ErrInvalidPublisherConfig)"

text \<open>What the JSON decoder finds of the trigger in a configuration.\<close>

datatype trigger_document = EmptyConfig | NotAnObject | NoTriggerKey | NullTrigger | UndecodableTrigger | DecodedTrigger trigger_config

definition parse_trigger_config :: "trigger_document \<Rightarrow> publisher_error + trigger_config" where
  "parse_trigger_config d =
     (case d of
        EmptyConfig \<Rightarrow> Inr default_interval_trigger
      | NotAnObject \<Rightarrow> Inl ErrInvalidPublisherConfig
      | NoTriggerKey \<Rightarrow> Inr default_interval_trigger
      | NullTrigger \<Rightarrow> Inl ErrInvalidPublisherConfig
      | UndecodableTrigger \<Rightarrow> Inl ErrInvalidPublisherConfig
      | DecodedTrigger t \<Rightarrow> normalize_trigger t)"

text \<open>\<open>validateTriggerSources\<close>: a trigger on change names a selected source.\<close>

definition validate_trigger_sources :: "trigger_document \<Rightarrow> source_selection list \<Rightarrow> publisher_error + unit" where
  "validate_trigger_sources d ss =
     bindE (parse_trigger_config d) (\<lambda>t.
       if tg_mode t \<noteq> TriggerOnChange then Inr ()
       else if tg_source_alias t \<in> sl_alias ` set ss then Inr ()
       else Inl ErrInvalidPublisherConfig)"

text \<open>The facts about triggers that the manager relies on.\<close>

definition trigger_ok :: "trigger_config \<Rightarrow> bool" where
  "trigger_ok t \<longleftrightarrow>
     tg_mode t = TriggerInterval \<and> tg_source_alias t = [] \<and> tg_coalesce_ms t = 0 \<and>
       min_publisher_interval \<le> trigger_interval t \<and> trigger_interval t \<le> max_publisher_interval \<or>
     tg_mode t = TriggerOnChange \<and> source_alias_pattern (tg_source_alias t) \<and> tg_interval_ms t = 0 \<and>
       min_publisher_coalesce \<le> trigger_coalesce t \<and> trigger_coalesce t \<le> max_publisher_coalesce"

lemma default_interval_trigger_ok: "trigger_ok default_interval_trigger"
  by (simp add: trigger_ok_def default_interval_trigger_def trigger_interval_def trigger_bounds)

lemma normalize_trigger_ok: "normalize_trigger t = Inr t' \<Longrightarrow> trigger_ok t'"
  using default_interval_trigger_ok
  by (auto simp: normalize_trigger_def normalize_interval_trigger_def normalize_on_change_trigger_def trigger_ok_def Let_def
      split: if_splits trigger_mode.splits)

lemma trigger_zero: "tg_interval_ms t = 0 \<Longrightarrow> trigger_interval t = 0" "tg_coalesce_ms t = 0 \<Longrightarrow> trigger_coalesce t = 0"
  by (simp_all add: trigger_interval_def trigger_coalesce_def)

lemma trigger_minima: "\<not> min_publisher_interval \<le> 0" "\<not> min_publisher_coalesce \<le> 0"
  by (simp_all add: trigger_bounds)

lemma trigger_ok_units: "trigger_ok t \<Longrightarrow> tg_mode t = TriggerInterval \<Longrightarrow> tg_interval_ms t \<noteq> 0"
  "trigger_ok t \<Longrightarrow> tg_mode t = TriggerOnChange \<Longrightarrow> tg_coalesce_ms t \<noteq> 0"
  using trigger_zero [of t] trigger_minima by (auto simp: trigger_ok_def)

lemma trigger_ok_normal:
  assumes "trigger_ok t"
  shows "normalize_trigger t = Inr t"
proof (cases "tg_mode t")
  case TriggerInterval
  with assms have "tg_source_alias t = []" "tg_coalesce_ms t = 0" "\<not> trigger_interval t < min_publisher_interval"
    "\<not> trigger_interval t > max_publisher_interval"
    by (auto simp only: trigger_ok_def not_less trigger_mode.distinct)
  then show ?thesis using trigger_ok_units(1) [OF assms TriggerInterval] TriggerInterval
    by (simp add: normalize_trigger_def normalize_interval_trigger_def)
next
  case TriggerOnChange
  with assms have "source_alias_pattern (tg_source_alias t)" "tg_interval_ms t = 0" "\<not> trigger_coalesce t < min_publisher_coalesce"
    "\<not> trigger_coalesce t > max_publisher_coalesce"
    by (auto simp only: trigger_ok_def not_less trigger_mode.distinct)
  then show ?thesis using trigger_ok_units(2) [OF assms TriggerOnChange] TriggerOnChange
    by (simp add: normalize_trigger_def normalize_on_change_trigger_def)
qed (use assms in \<open>simp add: trigger_ok_def\<close>)

text \<open>
  C33: whatever a configuration says of its trigger, what the parser accepts has an interval from
  100 milliseconds to a day, or a source alias and a coalescing time from one millisecond to a
  minute, as the timers will see them; and the canonical trigger is accepted as it is.
\<close>

theorem parsed_trigger_in_bounds:
  assumes "parse_trigger_config d = Inr t"
  shows "trigger_ok t \<and> parse_trigger_config (DecodedTrigger t) = Inr t"
proof -
  have "trigger_ok t"
    using assms default_interval_trigger_ok normalize_trigger_ok
    by (auto simp: parse_trigger_config_def split: trigger_document.splits)
  then show ?thesis by (simp add: parse_trigger_config_def trigger_ok_normal)
qed

theorem parsed_trigger_in_bounds_witness:
  "trigger_ok default_interval_trigger \<and>
   parse_trigger_config (DecodedTrigger default_interval_trigger) = Inr default_interval_trigger"
  by (rule parsed_trigger_in_bounds [of EmptyConfig]) (simp add: parse_trigger_config_def)

text \<open>
  The bounds are those of the wrapped product: a number of milliseconds far above a day is accepted
  when the \<open>int64\<close> product falls back into them.
\<close>

definition wrapped_trigger :: trigger_config where
  "wrapped_trigger = \<lparr>tg_mode = TriggerInterval, tg_source_alias = [],
     tg_interval_ms = 2 ^ 58 + 60000, tg_coalesce_ms = 0\<rparr>"

lemma wrapped_interval_accepted:
  "uint (tg_interval_ms wrapped_trigger) * millisecond > max_publisher_interval \<and>
   normalize_trigger wrapped_trigger = Inr wrapped_trigger \<and> trigger_interval wrapped_trigger = minute"
  by (simp add: wrapped_trigger_def normalize_trigger_def normalize_interval_trigger_def trigger_interval_def
      trigger_bounds)

section \<open>Definitions\<close>

text \<open>A definition as the registry sees it; \<open>'c\<close> is a configuration.\<close>

record 'c publisher_definition =
  pd_type :: publisher_type
  pd_config_version :: "64 word"
  pd_normalize :: "'c \<Rightarrow> publisher_error + 'c"
  pd_supports :: "source_descriptor \<Rightarrow> bool"
  pd_validate_sources :: "('c \<Rightarrow> resolved_source list \<Rightarrow> publisher_error + unit) option"

type_synonym 'c definition_registry = "'c publisher_definition list"

definition register_publisher_definition ::
  "'c publisher_definition \<Rightarrow> 'c definition_registry \<Rightarrow> publisher_error + 'c definition_registry" where
  "register_publisher_definition d reg =
     (if \<not> valid_publisher_type (pd_type d) \<or> pd_config_version d = 0 then Inl ErrPublisherDefinitionRequired
      else if pd_type d \<in> pd_type ` set reg then Inl ErrPublisherDefinitionExists
      else Inr (d # reg))"

definition new_definition_registry :: "'c publisher_definition list \<Rightarrow> publisher_error + 'c definition_registry" where
  "new_definition_registry ds = foldE register_publisher_definition ds []"

definition find_publisher_definition ::
  "'c definition_registry \<Rightarrow> publisher_type \<Rightarrow> publisher_error + 'c publisher_definition" where
  "find_publisher_definition reg t =
     (case List.find (\<lambda>d. pd_type d = t) reg of None \<Rightarrow> Inl ErrUnsupportedPublisherType | Some d \<Rightarrow> Inr d)"

fun insert_descriptor :: "publisher_type \<times> 64 word \<Rightarrow> (publisher_type \<times> 64 word) list \<Rightarrow> (publisher_type \<times> 64 word) list" where
  "insert_descriptor d [] = [d]"
| "insert_descriptor d (e # es) =
     (if string_le (publisher_type_name (fst d)) (publisher_type_name (fst e)) then d # e # es
      else e # insert_descriptor d es)"

definition list_publisher_definitions :: "'c definition_registry \<Rightarrow> (publisher_type \<times> 64 word) list" where
  "list_publisher_definitions reg = foldr insert_descriptor (map (\<lambda>d. (pd_type d, pd_config_version d)) reg) []"

text \<open>The definitions of the server; \<open>norm_config\<close> and \<open>validate\<close> are those of the type's configuration.\<close>

definition builtin_config_version :: "publisher_type \<Rightarrow> 64 word" where
  "builtin_config_version t = (if t = TypeHTTPServer then 4 else if t = TypeMQTT then 3 else 2)"

definition builtin_definition ::
  "(publisher_type \<Rightarrow> 'c \<Rightarrow> publisher_error + 'c) \<Rightarrow>
     (publisher_type \<Rightarrow> 'c \<Rightarrow> resolved_source list \<Rightarrow> publisher_error + unit) \<Rightarrow> publisher_type \<Rightarrow> 'c publisher_definition" where
  "builtin_definition norm_config validate t =
     \<lparr>pd_type = t, pd_config_version = builtin_config_version t, pd_normalize = norm_config t,
      pd_supports = (\<lambda>d. valid_output_data_type (sd_data_type d)),
      pd_validate_sources = Some (\<lambda>c rs. if t = TypeHTTPServer \<or> t = TypeMQTT then validate t c rs else Inr ())\<rparr>"

definition default_definition_registry ::
  "(publisher_type \<Rightarrow> 'c \<Rightarrow> publisher_error + 'c) \<Rightarrow>
     (publisher_type \<Rightarrow> 'c \<Rightarrow> resolved_source list \<Rightarrow> publisher_error + unit) \<Rightarrow> publisher_error + 'c definition_registry" where
  "default_definition_registry norm_config validate =
     new_definition_registry (map (builtin_definition norm_config validate) [TypeHTTPServer, TypeMQTT])"

definition publisher_registry_ok :: "'c definition_registry \<Rightarrow> bool" where
  "publisher_registry_ok reg \<longleftrightarrow> distinct (map pd_type reg) \<and>
     (\<forall>d \<in> set reg. valid_publisher_type (pd_type d) \<and> pd_config_version d \<noteq> 0)"

lemma new_definition_registry_ok: "new_definition_registry ds = Inr reg \<Longrightarrow> publisher_registry_ok reg"
  unfolding new_definition_registry_def
  by (rule foldE_invariant [where P = publisher_registry_ok])
    (auto simp: register_publisher_definition_def publisher_registry_ok_def split: if_splits)

lemma find_registered:
  "publisher_registry_ok reg \<Longrightarrow> find_publisher_definition reg t = Inr d \<longleftrightarrow> d \<in> set reg \<and> pd_type d = t"
proof (induction reg)
  case (Cons e reg)
  then show ?case
    by (auto simp: find_publisher_definition_def publisher_registry_ok_def image_iff split: option.splits)
qed (simp add: find_publisher_definition_def)

section \<open>Transports\<close>

text \<open>The factory of a type; what it makes and what it claims are values of \<open>'f\<close>.\<close>

type_synonym 'f transport_registry = "publisher_type \<rightharpoonup> 'f"

definition register_transport :: "publisher_type \<Rightarrow> 'f \<Rightarrow> 'f transport_registry \<Rightarrow> publisher_error + 'f transport_registry" where
  "register_transport t f reg =
     (if \<not> valid_publisher_type t then Inl ErrTransportRequired
      else if reg t \<noteq> None then Inl ErrTransportFactoryExists
      else Inr (reg(t \<mapsto> f)))"

definition find_transport :: "'f transport_registry \<Rightarrow> publisher_type \<Rightarrow> publisher_error + 'f" where
  "find_transport reg t = (case reg t of None \<Rightarrow> Inl ErrTransportUnavailable | Some f \<Rightarrow> Inr f)"

section \<open>Listening addresses\<close>

text \<open>\<open>net.SplitHostPort\<close> and \<open>net.JoinHostPort\<close>.\<close>

definition split_last_colon :: "string \<Rightarrow> (string \<times> string) option" where
  "split_last_colon s =
     (if CHR '':'' \<notin> set s then None
      else Some (rev (tl (dropWhile (\<lambda>c. c \<noteq> CHR '':'') (rev s))), rev (takeWhile (\<lambda>c. c \<noteq> CHR '':'') (rev s))))"

definition split_host_port :: "string \<Rightarrow> (string \<times> string) option" where
  "split_host_port s =
     (case split_last_colon s of
        None \<Rightarrow> None
      | Some (before, port) \<Rightarrow>
          if hd s = CHR ''[''
          then let host = takeWhile (\<lambda>c. c \<noteq> CHR '']'') (tl s)
               in if CHR '']'' \<notin> set s \<or> length host + 2 \<noteq> length before
                  then None
                  else if CHR ''['' \<in> set (tl s) \<or> CHR '']'' \<in> set (drop (length host + 2) s) then None
                  else Some (host, port)
          else if CHR '':'' \<in> set before \<or> CHR ''['' \<in> set s \<or> CHR '']'' \<in> set s then None
          else Some (before, port))"

definition join_host_port :: "string \<Rightarrow> string \<Rightarrow> string" where
  "join_host_port host port =
     (if CHR '':'' \<in> set host then ''['' @ host @ '']:'' @ port else host @ '':'' @ port)"

record listener_claim =
  lc_network :: string
  lc_address :: string

definition listener_networks_overlap :: "string \<Rightarrow> string \<Rightarrow> bool" where
  "listener_networks_overlap a b \<longleftrightarrow> a = b \<or> a = ''tcp'' \<or> b = ''tcp''"

definition listener_claims_conflict :: "listener_claim \<Rightarrow> listener_claim \<Rightarrow> bool" where
  "listener_claims_conflict a b =
     (listener_networks_overlap (lc_network a) (lc_network b) \<and>
      (case (split_host_port (lc_address a), split_host_port (lc_address b)) of
         (Some (h, p), Some (h', p')) \<Rightarrow> p = p' \<and> (h = ''*'' \<or> h' = ''*'' \<or> h = h')
       | _ \<Rightarrow> False))"

text \<open>One claim: \<open>lower\<close> is \<open>strings.ToLower\<close>.\<close>

definition wildcard_host :: "string \<Rightarrow> bool" where
  "wildcard_host h \<longleftrightarrow> h = [] \<or> h = ''0.0.0.0'' \<or> h = ''::''"

definition normalize_claim :: "(string \<Rightarrow> string) \<Rightarrow> listener_claim \<Rightarrow> publisher_error + listener_claim" where
  "normalize_claim lower c =
     (let network = lower (trim_space (lc_network c))
      in if network \<noteq> ''tcp'' \<and> network \<noteq> ''tcp4'' \<and> network \<noteq> ''tcp6'' then Inl ErrInvalidListenerClaim
         else case split_host_port (trim_space (lc_address c)) of
           None \<Rightarrow> Inl ErrInvalidListenerClaim
         | Some (host, port_text) \<Rightarrow>
             (case parse_int 64 port_text of
                None \<Rightarrow> Inl ErrInvalidListenerClaim
              | Some port \<Rightarrow>
                  if port < 1 \<or> port > 65535 then Inl ErrInvalidListenerClaim
                  else let host = lower (trim_space host); host = (if wildcard_host host then ''*'' else host)
                       in Inr \<lparr>lc_network = network, lc_address = join_host_port host (itoa port)\<rparr>))"

definition add_claim ::
  "(string \<Rightarrow> string) \<Rightarrow> listener_claim \<Rightarrow> listener_claim list \<Rightarrow> publisher_error + listener_claim list" where
  "add_claim lower c acc =
     bindE (normalize_claim lower c) (\<lambda>candidate.
       if \<exists>existing \<in> set acc. listener_claims_conflict existing candidate then Inl ErrInvalidListenerClaim
       else Inr (acc @ [candidate]))"

definition normalize_listener_claims ::
  "(string \<Rightarrow> string) \<Rightarrow> publisher_type \<Rightarrow> listener_claim list \<Rightarrow> publisher_error + listener_claim list" where
  "normalize_listener_claims lower t claims =
     (if claims = [] then Inr []
      else if t \<noteq> TypeHTTPServer then Inl ErrInvalidListenerClaim
      else foldE (add_claim lower) claims [])"

section \<open>Claims as sets of endpoints\<close>

text \<open>The endpoints a claim stands for: an address family, a host and a port; \<open>*\<close> is every host.\<close>

definition claim_families :: "string \<Rightarrow> nat set" where
  "claim_families n = (if n = ''tcp'' then {4, 6} else if n = ''tcp4'' then {4} else if n = ''tcp6'' then {6} else {})"

definition claim_covers :: "listener_claim \<Rightarrow> (nat \<times> string \<times> string) set" where
  "claim_covers c =
     (case split_host_port (lc_address c) of
        None \<Rightarrow> {}
      | Some (h, p) \<Rightarrow> {(f, x, q). f \<in> claim_families (lc_network c) \<and> (h = ''*'' \<or> x = h) \<and> q = p})"

definition known_network :: "string \<Rightarrow> bool" where
  "known_network n \<longleftrightarrow> n = ''tcp'' \<or> n = ''tcp4'' \<or> n = ''tcp6''"

lemma families_meet:
  "known_network a \<Longrightarrow> known_network b \<Longrightarrow>
   claim_families a \<inter> claim_families b \<noteq> {} \<longleftrightarrow> listener_networks_overlap a b"
  by (auto simp: known_network_def claim_families_def listener_networks_overlap_def)

lemma endpoints_meet:
  "{(f, x, q). f \<in> A \<and> P x \<and> q = p} \<inter> {(f, x, q). f \<in> B \<and> Q x \<and> q = p'} \<noteq> {} \<longleftrightarrow>
   A \<inter> B \<noteq> {} \<and> p = p' \<and> (\<exists>x. P x \<and> Q x)"
  by (auto simp: disjoint_iff)

lemma hosts_meet: "(\<exists>x. (h = w \<or> x = h) \<and> (h' = w \<or> x = h')) \<longleftrightarrow> h = w \<or> h' = w \<or> h = h'"
  by auto

lemma claims_conflict_iff:
  assumes "known_network (lc_network a)" and "known_network (lc_network b)"
  shows "listener_claims_conflict a b \<longleftrightarrow> claim_covers a \<inter> claim_covers b \<noteq> {}"
proof (cases "split_host_port (lc_address a) = None \<or> split_host_port (lc_address b) = None")
  case True
  then have "\<not> listener_claims_conflict a b"
    unfolding listener_claims_conflict_def by (elim disjE) (simp_all split: option.split)
  moreover have "claim_covers a \<inter> claim_covers b = {}"
    using True unfolding claim_covers_def by (elim disjE) simp_all
  ultimately show ?thesis by simp
next
  case False
  then obtain h p h' p' where "split_host_port (lc_address a) = Some (h, p)" "split_host_port (lc_address b) = Some (h', p')"
    by auto
  note split = this
  have "claim_covers a \<inter> claim_covers b \<noteq> {} \<longleftrightarrow>
      claim_families (lc_network a) \<inter> claim_families (lc_network b) \<noteq> {} \<and> p = p' \<and>
      (\<exists>x. (h = ''*'' \<or> x = h) \<and> (h' = ''*'' \<or> x = h'))"
    unfolding claim_covers_def split option.case prod.case by (rule endpoints_meet)
  also note hosts_meet
  also note families_meet [OF assms]
  finally show ?thesis by (simp only: listener_claims_conflict_def split option.case prod.case)
qed

lemma split_last_colon_app: "CHR '':'' \<notin> set p \<Longrightarrow> split_last_colon (a @ CHR '':'' # p) = Some (a, p)"
  by (simp add: split_last_colon_def dropWhile_append takeWhile_append)

lemma split_join_host_port:
  assumes "CHR ''['' \<notin> set h" and "CHR '']'' \<notin> set h" and "set p \<inter> {CHR '':'', CHR ''['', CHR '']''} = {}"
  shows "split_host_port (join_host_port h p) = Some (h, p)"
proof (cases "CHR '':'' \<in> set h")
  case True
  have "split_last_colon ((''['' @ h @ '']'') @ CHR '':'' # p) = Some (''['' @ h @ '']'', p)"
    by (rule split_last_colon_app) (use assms in auto)
  moreover have "takeWhile (\<lambda>c. c \<noteq> CHR '']'') (h @ CHR '']'' # CHR '':'' # p) = h"
    using assms(2) by (simp add: takeWhile_append)
  ultimately show ?thesis using True assms
    by (simp add: join_host_port_def split_host_port_def Let_def)
next
  case False
  have "split_last_colon (h @ CHR '':'' # p) = Some (h, p)"
    by (rule split_last_colon_app) (use assms in auto)
  moreover have "hd (h @ CHR '':'' # p) \<noteq> CHR ''[''" using assms(1) by (cases h) auto
  ultimately show ?thesis using False assms
    by (simp add: join_host_port_def split_host_port_def)
qed

lemma split_host_port_host:
  "split_host_port s = Some (h, p) \<Longrightarrow> CHR ''['' \<notin> set h \<and> CHR '']'' \<notin> set h"
proof -
  assume s: "split_host_port s = Some (h, p)"
  then obtain a where a: "split_last_colon s = Some (a, p)"
    by (auto simp: split_host_port_def Let_def split: option.splits if_splits)
  show ?thesis
  proof (cases "hd s = CHR ''[''")
    case True
    then have "h = takeWhile (\<lambda>c. c \<noteq> CHR '']'') (tl s)" "CHR ''['' \<notin> set (tl s)"
      using s a by (auto simp: split_host_port_def Let_def split: if_splits)
    then show ?thesis by (auto dest: set_takeWhileD)
  next
    case False
    then have "h = a" "CHR ''['' \<notin> set s" "CHR '']'' \<notin> set s"
      using s a by (auto simp: split_host_port_def split: if_splits)
    moreover have "set a \<subseteq> set s"
    proof -
      have "set (tl ys) \<subseteq> set ys" for ys :: string by (cases ys) auto
      then have "set (tl (dropWhile f xs)) \<subseteq> set xs" for f and xs :: string
        using set_dropWhileD by fastforce
      then show ?thesis using a by (force simp: split_last_colon_def split: if_splits)
    qed
    ultimately show ?thesis by blast
  qed
qed

lemma decimal_digits_digits: "c \<in> set (decimal_digits fuel n) \<Longrightarrow> is_digit c"
proof (induction fuel n rule: decimal_digits.induct)
  case (2 fuel n)
  have "is_digit (char_of (48 + m))" if "m < 10" for m :: nat
    using that by (simp add: is_digit_def byte_of_def)
  then show ?case using 2 by (auto split: if_splits)
qed simp

lemma itoa_port: "1 \<le> n \<Longrightarrow> set (itoa n) \<inter> {CHR '':'', CHR ''['', CHR '']''} = {}"
  using decimal_digits_digits [of "CHR '':''" 20 "nat n"] decimal_digits_digits [of "CHR ''[''" 20 "nat n"]
    decimal_digits_digits [of "CHR '']''" 20 "nat n"]
  by (auto simp: itoa_def is_digit_def byte_of_def)

lemma set_trim_space: "set (trim_space s) \<subseteq> set s"
proof -
  obtain a b where "s = a @ trim_left space_encodings s"
    "rev (trim_left space_encodings s) = b @ trim_left (map rev space_encodings) (rev (trim_left space_encodings s))"
    using trim_left_suffix by blast
  then have "set (trim_left space_encodings s) \<subseteq> set s" "set (trim_space s) \<subseteq> set (trim_left space_encodings s)"
    by (metis set_append Un_upper2, metis set_append set_rev trim_space_def Un_upper2)
  then show ?thesis by blast
qed

text \<open>What \<open>strings.ToLower\<close> does to the characters of a host: it makes no brackets.\<close>

definition keeps_brackets :: "(string \<Rightarrow> string) \<Rightarrow> bool" where
  "keeps_brackets lower \<longleftrightarrow> (\<forall>s c. c \<in> {CHR ''['', CHR '']''} \<longrightarrow> c \<in> set (lower s) \<longrightarrow> c \<in> set s)"

lemma normalize_claim_ok:
  assumes low: "keeps_brackets lower" and n: "normalize_claim lower c = Inr d"
  shows "known_network (lc_network d) \<and>
    (\<exists>h p. split_host_port (lc_address d) = Some (h, itoa p) \<and> 1 \<le> p \<and> p \<le> 65535)"
proof -
  have net: "known_network (lc_network d)"
    using n by (auto simp: normalize_claim_def known_network_def Let_def split: if_splits option.splits)
  obtain h pt where h: "split_host_port (trim_space (lc_address c)) = Some (h, pt)"
    using n by (auto simp: normalize_claim_def Let_def split: if_splits option.splits)
  obtain p where pt: "parse_int 64 pt = Some p" "1 \<le> p" "p \<le> 65535"
    using n h by (auto simp: normalize_claim_def Let_def not_less split: if_splits option.splits)
  note p = pt(2,3)
  have d: "lc_address d = join_host_port (if wildcard_host (lower (trim_space h)) then ''*'' else lower (trim_space h)) (itoa p)"
    using n h pt by (auto simp: normalize_claim_def Let_def split: if_splits)
  define g where "g = (if wildcard_host (lower (trim_space h)) then ''*'' else lower (trim_space h))"
  have "CHR ''['' \<notin> set (lower (trim_space h))" "CHR '']'' \<notin> set (lower (trim_space h))"
    using split_host_port_host [OF h] low set_trim_space [of h] unfolding keeps_brackets_def by blast+
  then have "CHR ''['' \<notin> set g" "CHR '']'' \<notin> set g" by (simp_all add: g_def)
  then have "split_host_port (lc_address d) = Some (g, itoa p)"
    unfolding d g_def [symmetric] using itoa_port [OF p(1)] by (rule split_join_host_port)
  with p net show ?thesis by blast
qed

definition claim_ok :: "listener_claim \<Rightarrow> bool" where
  "claim_ok c \<longleftrightarrow> known_network (lc_network c) \<and>
     (\<exists>h p. split_host_port (lc_address c) = Some (h, itoa p) \<and> 1 \<le> p \<and> p \<le> 65535)"

lemma claim_ok_covers: "claim_ok c \<Longrightarrow> claim_covers c \<noteq> {}"
  by (auto simp: claim_ok_def claim_covers_def known_network_def claim_families_def)

definition claims_apart :: "listener_claim list \<Rightarrow> bool" where
  "claims_apart cs \<longleftrightarrow> sorted_wrt (\<lambda>a b. claim_covers a \<inter> claim_covers b = {}) cs"

lemma foldE_add_claim:
  assumes "keeps_brackets lower" and "foldE (add_claim lower) cs acc = Inr n"
    and "list_all claim_ok acc" and "claims_apart acc"
  shows "list_all claim_ok n \<and> claims_apart n \<and> length n = length acc + length cs"
  using assms(2-)
proof (induction cs arbitrary: acc)
  case (Cons c cs)
  obtain acc' where a: "add_claim lower c acc = Inr acc'" "foldE (add_claim lower) cs acc' = Inr n"
    using Cons.prems(1) by (auto simp: bindE_Inr_iff)
  then obtain d where d: "normalize_claim lower c = Inr d" "\<forall>e \<in> set acc. \<not> listener_claims_conflict e d"
    and acc': "acc' = acc @ [d]"
    by (auto simp: bindE_Inr_iff add_claim_def split: if_splits)
  have n: "foldE (add_claim lower) cs (acc @ [d]) = Inr n" using a(2) acc' by simp
  have ok: "claim_ok d" using normalize_claim_ok [OF assms(1) d(1)] by (simp add: claim_ok_def)
  moreover have "\<forall>e \<in> set acc. claim_covers e \<inter> claim_covers d = {}"
    using d(2) ok Cons.prems(2) claims_conflict_iff by (auto simp: claim_ok_def list_all_iff)
  ultimately show ?case
    using Cons.IH [OF n] Cons.prems(2,3) by (simp add: claims_apart_def sorted_wrt_append)
qed simp

lemma normalize_listener_claims_ok:
  assumes "keeps_brackets lower" and "normalize_listener_claims lower t cs = Inr n"
  shows "list_all claim_ok n \<and> claims_apart n \<and> length n = length cs \<and> (n \<noteq> [] \<longrightarrow> t = TypeHTTPServer)"
  using assms foldE_add_claim [OF assms(1), of cs "[]" n]
  by (auto simp: normalize_listener_claims_def claims_apart_def split: if_splits)

end
