(* ===== verification/Publisher_Redaction.thy ===== *)
theory Publisher_Redaction
  imports Go_Text
begin

text \<open>
  What an operator is shown of an error of a publisher: \<open>sanitizeRuntimeError\<close> of
  \<open>internal/publisher/manager.go\<close>. Control characters become blanks, user information of URLs and
  the values of parameters that look like secrets are replaced, white space is collapsed and the
  text is cut to 500 runes. The regular expressions are matched by hand, leftmost first.
\<close>

section \<open>Runes\<close>

definition rune_error :: string where
  "rune_error = map char_of [0xEF, 0xBF, 0xBD :: nat]"

text \<open>\<open>unicode.IsControl\<close>: C0, DEL and C1.\<close>

definition control_rune :: "string \<Rightarrow> bool" where
  "control_rune r \<longleftrightarrow>
     length r = 1 \<and> (byte_of (r ! 0) < 32 \<or> byte_of (r ! 0) = 127) \<or>
     length r = 2 \<and> byte_of (r ! 0) = 0xC2 \<and> byte_of (r ! 1) < 0xA0"

definition invalid_rune :: "string \<Rightarrow> bool" where
  "invalid_rune r \<longleftrightarrow> length r = 1 \<and> 128 \<le> byte_of (r ! 0)"

text \<open>\<open>strings.Map\<close> with a blank for each control character; invalid bytes become U+FFFD.\<close>

function blank_controls :: "string \<Rightarrow> string" where
  "blank_controls s =
     (if s = [] then []
      else let r = take (rune_width s) s
           in (if control_rune r then '' '' else if invalid_rune r then rune_error else r) @
              blank_controls (drop (rune_width s) s))"
  by pat_completeness auto
termination
  by (relation "measure length") (use rune_width_pos in auto)

declare blank_controls.simps [simp del]

function take_runes :: "nat \<Rightarrow> string \<Rightarrow> string" where
  "take_runes n s =
     (if n = 0 \<or> s = [] then [] else take (rune_width s) s @ take_runes (n - 1) (drop (rune_width s) s))"
  by pat_completeness auto
termination
  by (relation "measure fst") auto

declare take_runes.simps [simp del]

text \<open>\<open>strings.Fields\<close>: the non-empty pieces between white space.\<close>

function fields_from :: "string \<Rightarrow> string \<Rightarrow> string list" where
  "fields_from field s =
     (case strip_prefix space_encodings s of
        Some t \<Rightarrow> (if field = [] then [] else [field]) @ fields_from [] t
      | None \<Rightarrow> (case s of [] \<Rightarrow> (if field = [] then [] else [field]) | c # t \<Rightarrow> fields_from (field @ [c]) t))"
  by pat_completeness auto
termination
  by (relation "measure (length \<circ> snd)") (auto dest: strip_prefix_shorter)

declare fields_from.simps [simp del]

definition join_with :: "string \<Rightarrow> string list \<Rightarrow> string" where
  "join_with sep xs = (case xs of [] \<Rightarrow> [] | y # ys \<Rightarrow> y @ concat (map (\<lambda>z. sep @ z) ys))"

definition collapse_space :: "string \<Rightarrow> string" where
  "collapse_space s = join_with '' '' (fields_from [] s)"

section \<open>The patterns\<close>

text \<open>The class \<open>\s\<close> of the regular expressions.\<close>

definition re_space :: "char \<Rightarrow> bool" where
  "re_space c \<longleftrightarrow> byte_of c \<in> {9, 10, 12, 13, 32}"

definition starts_with :: "string \<Rightarrow> string \<Rightarrow> bool" where
  "starts_with p s \<longleftrightarrow> take (length p) s = p"

definition redacted :: string where "redacted = ''[redacted]''"

text \<open>\<open>(://)([^/@\s]+)@\<close> at the start of a text: what follows the match.\<close>

definition user_char :: "char \<Rightarrow> bool" where
  "user_char c \<longleftrightarrow> c \<noteq> CHR ''/'' \<and> c \<noteq> CHR ''@'' \<and> \<not> re_space c"

definition match_user_info :: "string \<Rightarrow> string option" where
  "match_user_info s =
     (if starts_with ''://'' s
      then let t = drop 3 s; rest = dropWhile user_char t
           in if takeWhile user_char t \<noteq> [] \<and> rest \<noteq> [] \<and> hd rest = CHR ''@'' then Some (tl rest) else None
      else None)"

function redact_user_info :: "string \<Rightarrow> string" where
  "redact_user_info s =
     (if s = [] then []
      else case match_user_info s of
        Some rest \<Rightarrow> ''://'' @ redacted @ ''@'' @ redact_user_info rest
      | None \<Rightarrow> hd s # redact_user_info (tl s))"
  by pat_completeness auto
termination
proof (relation "measure length", simp)
  fix s rest assume "s \<noteq> []" "match_user_info s = Some rest"
  then have "rest = tl (dropWhile user_char (drop 3 s))"
    by (auto simp: match_user_info_def Let_def split: if_splits)
  then have "length rest \<le> length (drop 3 s) - 1"
    using length_dropWhile_le [of user_char "drop 3 s"] by (simp add: diff_le_mono)
  moreover have "length (drop 3 s) \<le> length s" "0 < length s" using \<open>s \<noteq> []\<close> by simp_all
  ultimately have "length rest < length s" by linarith
  then show "(rest, s) \<in> measure length" by simp
qed simp

declare redact_user_info.simps [simp del]

text \<open>
  A literal of a case-insensitive pattern: the encodings each letter matches. Unicode folding adds
  the long s and the Kelvin sign.
\<close>

definition folded :: "char \<Rightarrow> string list" where
  "folded c =
     (if is_alpha c
      then [[c], [char_of (byte_of c - 32)]] @
           (if c = CHR ''s'' then [map char_of [0xC5, 0xBF :: nat]]
            else if c = CHR ''k'' then [map char_of [0xE2, 0x84, 0xAA :: nat]] else [])
      else [[c]])"

text \<open>The text after a literal, or \<open>None\<close>.\<close>

fun match_folded :: "string \<Rightarrow> string \<Rightarrow> string option" where
  "match_folded [] s = Some s"
| "match_folded (c # p) s =
     (case List.find (\<lambda>e. starts_with e s) (folded c) of
        None \<Rightarrow> None
      | Some e \<Rightarrow> match_folded p (drop (length e) s))"

text \<open>The names in the order of the alternation; \<open>api[_-]?key\<close> prefers the separator.\<close>

definition secret_names :: "string list" where
  "secret_names = [''password'', ''passwd'', ''token'', ''secret'', ''api_key'', ''api-key'', ''apikey'']"

definition secret_char :: "char \<Rightarrow> bool" where
  "secret_char c \<longleftrightarrow> \<not> re_space c \<and> c \<noteq> CHR ''&''"

definition match_secret_name :: "string \<Rightarrow> string \<Rightarrow> string option" where
  "match_secret_name name s =
     (case match_folded name s of
        None \<Rightarrow> None
      | Some t \<Rightarrow> if t \<noteq> [] \<and> hd t = CHR ''='' \<and> takeWhile secret_char (tl t) \<noteq> [] then Some (tl t) else None)"

text \<open>A match at the start: the value with the rest, and what stood before the equality sign.\<close>

fun match_secret :: "string list \<Rightarrow> string \<Rightarrow> string option" where
  "match_secret [] s = None"
| "match_secret (n # ns) s = (case match_secret_name n s of Some t \<Rightarrow> Some t | None \<Rightarrow> match_secret ns s)"

lemma match_folded_length: "match_folded p s = Some t \<Longrightarrow> length t \<le> length s"
proof (induction p s rule: match_folded.induct)
  case (2 c p s)
  then show ?case by (fastforce split: option.splits)
qed simp

lemma match_secret_length: "match_secret ns s = Some t \<Longrightarrow> t \<noteq> [] \<and> length t < length s"
proof (induction ns s rule: match_secret.induct)
  case (2 n ns s)
  have "t \<noteq> [] \<and> length t < length s" if m: "match_secret_name n s = Some t"
  proof -
    obtain u where u: "match_folded n s = Some u"
      using m by (cases "match_folded n s") (simp_all add: match_secret_name_def)
    then have "u \<noteq> []" "takeWhile secret_char (tl u) \<noteq> []" "t = tl u"
      using m by (simp_all add: match_secret_name_def split: if_splits)
    then show ?thesis using match_folded_length [OF u] by (cases u) auto
  qed
  with 2 show ?case by (auto split: option.splits)
qed simp

function redact_secrets :: "string \<Rightarrow> string" where
  "redact_secrets s =
     (if s = [] then []
      else case match_secret secret_names s of
        Some t \<Rightarrow> take (length s - length t) s @ redacted @ redact_secrets (dropWhile secret_char t)
      | None \<Rightarrow> hd s # redact_secrets (tl s))"
  by pat_completeness auto
termination
proof (relation "measure length", simp)
  fix s t assume "match_secret secret_names s = Some t"
  then have "length t < length s" by (simp add: match_secret_length)
  moreover have "length (dropWhile secret_char t) \<le> length t" by (rule length_dropWhile_le)
  ultimately show "(dropWhile secret_char t, s) \<in> measure length" by simp
qed simp

declare redact_secrets.simps [simp del]

section \<open>The sanitized message\<close>

definition max_runtime_error_length :: nat where "max_runtime_error_length = 500"

definition sanitize_runtime_error :: "string \<Rightarrow> string" where
  "sanitize_runtime_error err =
     (let message = collapse_space (redact_secrets (redact_user_info (blank_controls err)));
          message = (if message = [] then ''Data Publisher runtime error'' else message)
      in if rune_count message > max_runtime_error_length then take_runes max_runtime_error_length message else message)"

definition sanitize_runtime_error_text :: "string \<Rightarrow> string" where
  "sanitize_runtime_error_text message = (if message = [] then [] else sanitize_runtime_error message)"

section \<open>No secret value survives\<close>

text \<open>A name is matched by what stands before the first equality sign, and by nothing else.\<close>

abbreviation before_eq :: "string \<Rightarrow> string" where "before_eq s \<equiv> takeWhile (\<lambda>c. c \<noteq> CHR ''='') s"
abbreviation from_eq :: "string \<Rightarrow> string" where "from_eq s \<equiv> dropWhile (\<lambda>c. c \<noteq> CHR ''='') s"

definition name_chars :: "char set" where
  "name_chars = {c. is_alpha c \<or> c = CHR ''_'' \<or> c = CHR ''-'' \<or> 128 \<le> byte_of c}"

definition plain_name :: "string \<Rightarrow> bool" where
  "plain_name n \<longleftrightarrow> list_all (\<lambda>c. c = CHR ''_'' \<or> c = CHR ''-'' \<or> 97 \<le> byte_of c \<and> byte_of c \<le> 122) n"

lemma secret_names_plain: "n \<in> set secret_names \<Longrightarrow> plain_name n"
  by (auto simp: secret_names_def plain_name_def byte_of_def)

lemma folded_chars:
  assumes "c = CHR ''_'' \<or> c = CHR ''-'' \<or> 97 \<le> byte_of c \<and> byte_of c \<le> 122" and "e \<in> set (folded c)"
  shows "set e \<subseteq> name_chars"
proof -
  have upper: "is_alpha (char_of (byte_of c - 32))" if "97 \<le> byte_of c" "byte_of c \<le> 122"
  proof -
    have "byte_of (char_of (byte_of c - 32)) = byte_of c - 32" using that(2) by (simp add: byte_of_def)
    moreover have "65 \<le> byte_of c - 32" "byte_of c - 32 \<le> 90" using that by arith+
    ultimately show ?thesis by (simp add: is_alpha_def)
  qed
  have high: "set (map char_of [0xC5, 0xBF :: nat]) \<subseteq> name_chars" "set (map char_of [0xE2, 0x84, 0xAA :: nat]) \<subseteq> name_chars"
    by (simp_all add: name_chars_def byte_of_def)
  show ?thesis
  proof (cases "is_alpha c")
    case False
    then have "e = [c]" "c = CHR ''_'' \<or> c = CHR ''-''" using assms by (auto simp: folded_def is_alpha_def)
    then show ?thesis by (auto simp: name_chars_def)
  next
    case True
    then have "97 \<le> byte_of c" "byte_of c \<le> 122" using assms(1) by (auto simp: is_alpha_def byte_of_def)
    then have both: "char_of (byte_of c - 32) \<in> name_chars" "c \<in> name_chars"
      using upper True by (simp_all add: name_chars_def)
    consider "e = [c]" | "e = [char_of (byte_of c - 32)]" | "e = map char_of [0xC5, 0xBF :: nat]"
      | "e = map char_of [0xE2, 0x84, 0xAA :: nat]"
      using assms(2) True by (auto simp: folded_def split: if_splits)
    then show ?thesis using both high by cases simp_all
  qed
qed

lemma name_chars_excluded: "CHR ''='' \<notin> name_chars" "CHR '']'' \<notin> name_chars" "CHR ''['' \<notin> name_chars"
  by (simp_all add: name_chars_def is_alpha_def byte_of_def)

lemma starts_before_eq:
  assumes "CHR ''='' \<notin> set e"
  shows "starts_with e (before_eq s) = starts_with e s"
    and "starts_with e s \<Longrightarrow> before_eq (drop (length e) s) = drop (length e) (before_eq s) \<and> from_eq (drop (length e) s) = from_eq s"
proof -
  have app: "before_eq (e @ t) = e @ before_eq t" "from_eq (e @ t) = from_eq t" for t
    using assms by (induction e) auto
  have split: "s = e @ drop (length e) s" if "starts_with e s"
    using that by (metis append_take_drop_id starts_with_def)
  show "starts_with e (before_eq s) = starts_with e s"
  proof
    assume "starts_with e s"
    then show "starts_with e (before_eq s)" using app(1) [of "drop (length e) s"] split by (simp add: starts_with_def)
  next
    assume "starts_with e (before_eq s)"
    then have "take (length e) (before_eq s) = e" "length e \<le> length (before_eq s)"
      by (auto simp: starts_with_def) (metis length_take min.absorb_iff2)
    moreover have "s = before_eq s @ from_eq s" by simp
    ultimately have "take (length e) s = e" by (metis append_take_drop_id take_append append_self_conv diff_is_0_eq' take_0)
    then show "starts_with e s" by (simp add: starts_with_def)
  qed
  show "before_eq (drop (length e) s) = drop (length e) (before_eq s) \<and> from_eq (drop (length e) s) = from_eq s"
    if "starts_with e s"
    using app [of "drop (length e) s"] split [OF that] by (metis append_eq_conv_conj)
qed

lemma match_folded_before_eq:
  "plain_name p \<Longrightarrow> match_folded p s = Some (CHR ''='' # t) \<longleftrightarrow>
     match_folded p (before_eq s) = Some [] \<and> from_eq s = CHR ''='' # t"
proof (induction p arbitrary: s)
  case Nil
  show ?case by (cases s) auto
next
  case (Cons c p)
  have e: "CHR ''='' \<notin> set e" if "e \<in> set (folded c)" for e
    using folded_chars [OF _ that] Cons.prems name_chars_excluded(1) by (auto simp: plain_name_def)
  have same: "List.find (\<lambda>e. starts_with e (before_eq s)) (folded c) = List.find (\<lambda>e. starts_with e s) (folded c)"
    by (rule find_cong) (use starts_before_eq(1) e in auto)
  show ?case
  proof (cases "List.find (\<lambda>e. starts_with e s) (folded c)")
    case (Some x)
    then have x: "x \<in> set (folded c)" "starts_with x s" by (auto simp: find_Some_iff)
    have "plain_name p" using Cons.prems by (simp add: plain_name_def)
    from Cons.IH [OF this, of "drop (length x) s"] show ?thesis
      using starts_before_eq(2) [OF e [OF x(1)] x(2)] Some same by simp
  qed (simp add: same)
qed

lemma match_folded_chars: "plain_name p \<Longrightarrow> match_folded p s = Some [] \<Longrightarrow> set s \<subseteq> name_chars"
proof (induction p s rule: match_folded.induct)
  case (2 c p s)
  then obtain e where f: "List.find (\<lambda>e. starts_with e s) (folded c) = Some e"
    by (cases "List.find (\<lambda>e. starts_with e s) (folded c)") simp_all
  then have e: "e \<in> set (folded c)" "starts_with e s" by (auto simp: find_Some_iff)
  have m: "match_folded p (drop (length e) s) = Some []" using "2.prems"(2) f by simp
  have "set (drop (length e) s) \<subseteq> name_chars" using "2.IH" [OF f] "2.prems"(1) m by (simp add: plain_name_def)
  moreover have "set e \<subseteq> name_chars" using folded_chars [OF _ e(1)] "2.prems"(1) by (auto simp: plain_name_def)
  moreover have "s = e @ drop (length e) s" using e(2) by (metis append_take_drop_id starts_with_def)
  ultimately show ?case by (metis set_append Un_least)
qed simp

definition names_match :: "string \<Rightarrow> bool" where
  "names_match k \<longleftrightarrow> (\<exists>n \<in> set secret_names. match_folded n k = Some [])"

lemma match_secret_name_iff:
  "plain_name n \<Longrightarrow> match_secret_name n s = Some t \<longleftrightarrow>
     match_folded n (before_eq s) = Some [] \<and> from_eq s = CHR ''='' # t \<and> takeWhile secret_char t \<noteq> []"
proof -
  assume n: "plain_name n"
  have "match_secret_name n s = Some t \<longleftrightarrow> match_folded n s = Some (CHR ''='' # t) \<and> takeWhile secret_char t \<noteq> []"
    by (auto simp: match_secret_name_def neq_Nil_conv split: option.splits)
  then show ?thesis using match_folded_before_eq [OF n] by auto
qed

lemma match_secret_iff:
  "match_secret secret_names s = Some t \<longleftrightarrow>
     names_match (before_eq s) \<and> from_eq s = CHR ''='' # t \<and> takeWhile secret_char t \<noteq> []"
proof -
  have "match_secret ns s = Some t \<longleftrightarrow>
      (\<exists>n \<in> set ns. match_folded n (before_eq s) = Some []) \<and> from_eq s = CHR ''='' # t \<and> takeWhile secret_char t \<noteq> []"
    if "\<forall>n \<in> set ns. plain_name n" for ns
    using that
  proof (induction ns)
    case (Cons n ns)
    show ?case
    proof (cases "match_secret_name n s")
      case None
      then have "\<not> (match_folded n (before_eq s) = Some [] \<and> from_eq s = CHR ''='' # t \<and> takeWhile secret_char t \<noteq> [])"
        using match_secret_name_iff [of n s t] Cons.prems by auto
      then show ?thesis using Cons None by auto
    next
      case (Some u)
      then have "match_folded n (before_eq s) = Some [] \<and> from_eq s = CHR ''='' # u \<and> takeWhile secret_char u \<noteq> []"
        using match_secret_name_iff [of n s u] Cons.prems by simp
      then show ?thesis using Some by auto
    qed
  qed simp
  then show ?thesis using secret_names_plain unfolding names_match_def by blast
qed

text \<open>What redaction leaves as it was: the text up to the first equality sign, and whether a value follows.\<close>

lemma match_secret_split:
  assumes "match_secret secret_names s = Some t"
  shows "s = before_eq s @ CHR ''='' # t" and "take (length s - length t) s = before_eq s @ [CHR ''='']"
    and "takeWhile secret_char t \<noteq> []" and "names_match (before_eq s)"
proof -
  have m: "names_match (before_eq s)" "from_eq s = CHR ''='' # t" "takeWhile secret_char t \<noteq> []"
    using assms by (simp_all add: match_secret_iff)
  show s: "s = before_eq s @ CHR ''='' # t" using m(2) by (metis takeWhile_dropWhile_id)
  have "length s = length (before_eq s) + 1 + length t" using arg_cong [OF s, of length] by simp
  then have n: "length s - length t = length (before_eq s @ [CHR ''=''])" by simp
  have "s = (before_eq s @ [CHR ''='']) @ t" using s by simp
  then show "take (length s - length t) s = before_eq s @ [CHR ''='']" unfolding n by (metis append_eq_conv_conj)
  show "takeWhile secret_char t \<noteq> []" "names_match (before_eq s)" by fact+
qed

lemma redact_secrets_Nil [simp]: "redact_secrets [] = []"
  by (simp add: redact_secrets.simps)

lemma redact_secrets_step:
  "match_secret secret_names s = Some t \<Longrightarrow>
     redact_secrets s = before_eq s @ CHR ''='' # redacted @ redact_secrets (dropWhile secret_char t)"
  "match_secret secret_names (c # s) = None \<Longrightarrow> redact_secrets (c # s) = c # redact_secrets s"
proof -
  assume m: "match_secret secret_names s = Some t"
  then have "s \<noteq> []" using match_secret_length by fastforce
  then have "redact_secrets s = take (length s - length t) s @ redacted @ redact_secrets (dropWhile secret_char t)"
    by (subst redact_secrets.simps) (simp add: m)
  then show "redact_secrets s = before_eq s @ CHR ''='' # redacted @ redact_secrets (dropWhile secret_char t)"
    by (simp add: match_secret_split(2) [OF m])
qed (subst redact_secrets.simps, simp)

definition has_value :: "string \<Rightarrow> bool" where
  "has_value s \<longleftrightarrow> s \<noteq> [] \<and> secret_char (hd s)"

lemma has_value_iff: "has_value s \<longleftrightarrow> takeWhile secret_char s \<noteq> []"
  by (cases s) (auto simp: has_value_def)

lemma has_value_redact: "has_value (redact_secrets s) = has_value s"
proof (cases "match_secret secret_names s")
  case None
  then show ?thesis by (cases s) (simp_all add: redact_secrets_step has_value_def)
next
  case (Some t)
  note split = match_secret_split [OF Some]
  have "before_eq s \<noteq> []"
  proof
    assume "before_eq s = []"
    then obtain n where "n \<in> set secret_names" "match_folded n [] = Some []" using split(4) by (auto simp: names_match_def)
    then show False by (auto simp: secret_names_def folded_def is_alpha_def byte_of_def starts_with_def)
  qed
  then obtain c w where "before_eq s = c # w" by (cases "before_eq s") auto
  with split(1) redact_secrets_step(1) [OF Some] show ?thesis by (metis append_Cons has_value_def list.discI list.sel(1))
qed

lemma redact_secrets_eq:
  "before_eq (redact_secrets s) = before_eq s \<and>
   (from_eq (redact_secrets s) = [] \<longleftrightarrow> from_eq s = []) \<and>
   has_value (tl (from_eq (redact_secrets s))) = has_value (tl (from_eq s))"
proof (induction s rule: redact_secrets.induct)
  case (1 s)
  show ?case
  proof (cases "match_secret secret_names s")
    case (Some t)
    note split = match_secret_split [OF Some]
    have no: "CHR ''='' \<notin> set (before_eq s)" by (auto dest: set_takeWhileD)
    have app: "before_eq (before_eq s @ CHR ''='' # u) = before_eq s" "from_eq (before_eq s @ CHR ''='' # u) = CHR ''='' # u" for u
      using no by (simp_all add: takeWhile_append2 dropWhile_append2 takeWhile_append dropWhile_append)
    have "from_eq s = CHR ''='' # t" using split(1) app(2) [of t] by metis
    moreover have "has_value t" using split(3) by (simp add: has_value_iff)
    moreover have "has_value (redacted @ u)" for u
      by (simp add: has_value_def redacted_def secret_char_def re_space_def byte_of_def)
    ultimately show ?thesis unfolding redact_secrets_step(1) [OF Some] app by simp
  next
    case None
    show ?thesis
    proof (cases s)
      case (Cons c u)
      have "before_eq (redact_secrets u) = before_eq u \<and> (from_eq (redact_secrets u) = [] \<longleftrightarrow> from_eq u = []) \<and>
          has_value (tl (from_eq (redact_secrets u))) = has_value (tl (from_eq u))"
        using "1.IH" None Cons by (simp del: dropWhile_eq_Nil_conv)
      then show ?thesis using None Cons by (simp add: redact_secrets_step has_value_redact del: dropWhile_eq_Nil_conv)
    qed simp
  qed
qed

lemma before_eq_append:
  "CHR ''='' \<notin> set p \<Longrightarrow> before_eq (p @ m) = p @ before_eq m" "CHR ''='' \<notin> set p \<Longrightarrow> from_eq (p @ m) = from_eq m"
  by (induction p) auto

lemma no_new_secret: "match_secret secret_names s = None \<Longrightarrow> match_secret secret_names (redact_secrets s) = None"
proof (rule ccontr)
  assume none: "match_secret secret_names s = None" and "match_secret secret_names (redact_secrets s) \<noteq> None"
  then obtain t where "match_secret secret_names (redact_secrets s) = Some t" by blast
  then have t: "names_match (before_eq (redact_secrets s))" "from_eq (redact_secrets s) = CHR ''='' # t" "has_value t"
    by (simp_all add: match_secret_iff has_value_iff)
  have "from_eq s \<noteq> []" "has_value (tl (from_eq s))" "before_eq (redact_secrets s) = before_eq s"
    using redact_secrets_eq [of s] t(2,3) by auto
  moreover from this(1) have "hd (from_eq s) = CHR ''=''" using hd_dropWhile [of "\<lambda>c. c \<noteq> CHR ''=''" s] by simp
  ultimately have "from_eq s = CHR ''='' # tl (from_eq s)" "names_match (before_eq s)" "has_value (tl (from_eq s))"
    using t(1) by (metis list.collapse, simp_all)
  then have "match_secret secret_names s = Some (tl (from_eq s))"
    unfolding match_secret_iff has_value_iff by blast
  with none show False by simp
qed

definition all_redacted :: "string \<Rightarrow> bool" where
  "all_redacted m \<longleftrightarrow>
     (\<forall>i t. match_secret secret_names (drop i m) = Some t \<longrightarrow> takeWhile secret_char t = redacted)"

lemma all_redacted_Cons:
  "all_redacted (c # m) \<longleftrightarrow> (\<forall>t. match_secret secret_names (c # m) = Some t \<longrightarrow> takeWhile secret_char t = redacted) \<and> all_redacted m"
proof -
  have "(\<forall>i. Q i) \<longleftrightarrow> Q 0 \<and> (\<forall>i. Q (Suc i))" for Q :: "nat \<Rightarrow> bool" by (metis not0_implies_Suc)
  from this [of "\<lambda>i. \<forall>t. match_secret secret_names (drop i (c # m)) = Some t \<longrightarrow> takeWhile secret_char t = redacted"]
  show ?thesis unfolding all_redacted_def drop_0 drop_Suc_Cons .
qed

lemma all_redacted_prefix:
  "all_redacted m \<Longrightarrow> (\<And>i t. i < length p \<Longrightarrow> match_secret secret_names (drop i (p @ m)) = Some t \<Longrightarrow> takeWhile secret_char t = redacted) \<Longrightarrow>
   all_redacted (p @ m)"
proof (induction p)
  case (Cons c p)
  have "all_redacted (p @ m)"
    using Cons.IH [OF Cons.prems(1)] Cons.prems(2) [of "Suc _"] by simp
  moreover have "takeWhile secret_char t = redacted" if "match_secret secret_names (c # p @ m) = Some t" for t
    using Cons.prems(2) [of 0 t] that by simp
  ultimately show ?case by (simp add: all_redacted_Cons)
qed simp

text \<open>The inserted marker holds no match of its own.\<close>

lemma marker_no_match:
  assumes "i < length redacted"
  shows "match_secret secret_names (drop i redacted @ m) = None"
proof (rule ccontr)
  assume "match_secret secret_names (drop i redacted @ m) \<noteq> None"
  then have "names_match (before_eq (drop i redacted @ m))" by (auto simp: match_secret_iff)
  then have "set (before_eq (drop i redacted @ m)) \<subseteq> name_chars"
    using match_folded_chars secret_names_plain unfolding names_match_def by blast
  moreover have "before_eq (drop i redacted @ m) = drop i redacted @ before_eq m"
  proof (rule before_eq_append(1))
    show "CHR ''='' \<notin> set (drop i redacted)" using set_drop_subset [of i redacted] by (auto simp: redacted_def)
  qed
  moreover have "CHR '']'' \<in> set (drop i redacted)"
  proof -
    have "last (drop i redacted) = CHR '']''" "drop i redacted \<noteq> []"
      using assms by (simp_all add: last_drop) (simp add: redacted_def)
    then show ?thesis by (metis last_in_set)
  qed
  ultimately show False using name_chars_excluded(2) by auto
qed

lemma redact_secrets_all: "all_redacted (redact_secrets s)"
proof (induction s rule: redact_secrets.induct)
  case (1 s)
  show ?case
  proof (cases "match_secret secret_names s")
    case (Some t)
    let ?rest = "redact_secrets (dropWhile secret_char t)"
    have "s \<noteq> []" using match_secret_length [OF Some] by auto
    then have rest: "all_redacted ?rest" using "1.IH" Some by blast
    have stop: "takeWhile secret_char (redacted @ ?rest) = redacted"
    proof -
      have "\<not> has_value (dropWhile secret_char t)"
        unfolding has_value_def using hd_dropWhile [of secret_char t] by blast
      then have "takeWhile secret_char ?rest = []" using has_value_redact has_value_iff by blast
      moreover have "\<forall>c \<in> set redacted. secret_char c" by (simp add: redacted_def secret_char_def re_space_def byte_of_def)
      ultimately show ?thesis by (simp add: takeWhile_append2)
    qed
    have marked: "all_redacted (redacted @ ?rest)"
      by (rule all_redacted_prefix [OF rest]) (use marker_no_match in fastforce)
    have "all_redacted ((before_eq s @ [CHR ''='']) @ redacted @ ?rest)"
    proof (rule all_redacted_prefix [OF marked])
      fix i u assume i: "i < length (before_eq s @ [CHR ''=''])"
        and u: "match_secret secret_names (drop i ((before_eq s @ [CHR ''='']) @ redacted @ ?rest)) = Some u"
      have "CHR ''='' \<notin> set (drop i (before_eq s))" using set_drop_subset [of i "before_eq s"] by (auto dest: set_takeWhileD)
      then have "from_eq (drop i (before_eq s) @ CHR ''='' # redacted @ ?rest) = CHR ''='' # redacted @ ?rest"
        by (simp add: before_eq_append(2))
      then have "u = redacted @ ?rest" using u i by (simp add: match_secret_iff)
      then show "takeWhile secret_char u = redacted" using stop by simp
    qed
    then show ?thesis by (simp add: redact_secrets_step(1) [OF Some])
  next
    case None
    show ?thesis
    proof (cases s)
      case (Cons c u)
      have "all_redacted (redact_secrets u)" using "1.IH" None Cons by simp
      moreover have "match_secret secret_names (redact_secrets s) = None" by (rule no_new_secret [OF None])
      ultimately show ?thesis using None Cons by (simp add: redact_secrets_step all_redacted_Cons)
    qed (simp add: all_redacted_def match_secret_iff)
  qed
qed

text \<open>
  C36: Wherever the redacted text of an error reads like a secret parameter (a name of the pattern in
  any case, an equality sign and a value), the value is the marker: redaction leaves no secret value
  and makes no new one out of the pieces it joins.
\<close>

theorem secrets_are_redacted:
  "match_secret secret_names (drop i (redact_secrets (redact_user_info (blank_controls err)))) = Some t \<Longrightarrow>
   takeWhile secret_char t = redacted"
  using redact_secrets_all unfolding all_redacted_def by blast

theorem secrets_are_redacted_witness:
  "takeWhile secret_char (drop 6 (redact_secrets (redact_user_info (blank_controls ''tokEn=x'')))) = redacted"
proof -
  have "match_secret secret_names (drop 0 (redact_secrets (redact_user_info (blank_controls ''tokEn=x'')))) =
      Some (drop 6 (redact_secrets (redact_user_info (blank_controls ''tokEn=x''))))"
    by code_simp
  then show ?thesis by (rule secrets_are_redacted)
qed

end
