(* ===== verification/Publisher_Manager.thy ===== *)
theory Publisher_Manager
  imports Runtime_Manager Publisher_Transport Publisher_Redaction
begin

text \<open>
  The manager of the data publishers, \<open>internal/publisher/manager.go\<close>: what it prepares from a stored
  publisher, which publisher owns a listening address, and what a running publisher does: one snapshot
  per tick, or one per burst of changes. Starting, stopping and reconciling are the operations of
  \<open>Runtime_Manager\<close> on the kind of job defined here. Clocks and the channel of errors are left out.
\<close>

section \<open>Publishers\<close>

record 'c publisher =
  pe_id :: uuid
  pe_type :: publisher_type
  pe_name :: string
  pe_description :: "string option"
  pe_enabled :: bool
  pe_config :: 'c
  pe_config_version :: "64 word"
  pe_credential :: "uuid option"
  pe_secret_revision :: "64 word"
  pe_source_count :: nat
  pe_sources :: "source_selection list"

text \<open>
  What the manager reads from: the definitions, the transports, the source feed, the trigger a
  configuration holds, its length in bytes and the listeners a transport claims for it.
\<close>

record ('c, 'f) publisher_world =
  pw_definitions :: "'c definition_registry"
  pw_transports :: "'f transport_registry"
  pw_resolve :: "source_selection list \<Rightarrow> source_error + resolved_source list"
  pw_trigger :: "'c \<Rightarrow> trigger_document"
  pw_config_bytes :: "'c \<Rightarrow> nat"
  pw_claims :: "'f \<Rightarrow> 'c publisher \<Rightarrow> publisher_error + listener_claim list"
  pw_lower :: "string \<Rightarrow> string"

definition max_publisher_config_bytes :: nat where "max_publisher_config_bytes = 65536"

definition normalize_definition_config ::
  "('c \<Rightarrow> nat) \<Rightarrow> 'c publisher_definition \<Rightarrow> 'c \<Rightarrow> publisher_error + 'c" where
  "normalize_definition_config bytes d c =
     (if bytes c > max_publisher_config_bytes then Inl ErrInvalidPublisherConfig
      else bindE (pd_normalize d c) (\<lambda>n.
        if bytes n = 0 \<or> bytes n > max_publisher_config_bytes then Inl ErrInvalidPublisherConfig else Inr n))"

definition validate_definition_sources ::
  "'c publisher_definition \<Rightarrow> 'c \<Rightarrow> resolved_source list \<Rightarrow> publisher_error + unit" where
  "validate_definition_sources d c rs = (case pd_validate_sources d of None \<Rightarrow> Inr () | Some v \<Rightarrow> v c rs)"

text \<open>What was resolved is what was selected, and the definition supports it.\<close>

definition check_resolved_source ::
  "'c publisher_definition \<Rightarrow> source_selection \<times> resolved_source \<Rightarrow> unit \<Rightarrow> publisher_error + unit" where
  "check_resolved_source d p u =
     (case p of (l, r) \<Rightarrow>
        if rs_alias r \<noteq> sl_alias l \<or> sd_reference (rs_descriptor r) \<noteq> sl_reference l
        then Inl (PublisherSource ErrSourceNotFound)
        else if \<not> pd_supports d (rs_descriptor r) then Inl ErrIncompatibleSource
        else Inr ())"

definition resolve_publisher_sources ::
  "(source_selection list \<Rightarrow> source_error + resolved_source list) \<Rightarrow> 'c publisher_definition \<Rightarrow> source_selection list \<Rightarrow>
     publisher_error + source_selection list \<times> resolved_source list" where
  "resolve_publisher_sources resolve d ss =
     bindE (wrapE PublisherSource (normalize_source_selections ss)) (\<lambda>sels.
     bindE (wrapE PublisherSource (resolve sels)) (\<lambda>rs.
       if length rs \<noteq> length sels then Inl (PublisherSource ErrSourceNotFound)
       else bindE (foldE (check_resolved_source d) (zip sels rs) ()) (\<lambda>u. Inr (sels, rs))))"

section \<open>Preparing a publisher\<close>

text \<open>
  The fingerprint is a SHA-256 sum of these fields, which stand for it; sources that cannot be
  written as JSON leave nothing in the sum. A refused listener adds its owner.
\<close>

record 'c publisher_fingerprint =
  fp_type :: publisher_type
  fp_config_version :: "64 word"
  fp_config :: 'c
  fp_secret_revision :: "64 word"
  fp_sources :: "source_selection list option"
  fp_conflict :: "uuid option"

definition publisher_fingerprint_of :: "'c publisher \<Rightarrow> 'c publisher_fingerprint" where
  "publisher_fingerprint_of e = \<lparr>fp_type = pe_type e, fp_config_version = pe_config_version e, fp_config = pe_config e,
     fp_secret_revision = pe_secret_revision e,
     fp_sources = (if list_all (\<lambda>l. validate_reference (sl_reference l) = Inr ()) (pe_sources e) then Some (pe_sources e) else None),
     fp_conflict = None\<rparr>"

text \<open>\<open>desiredPublisher\<close>: a failed one has an error, and nothing but its publisher and fingerprint is used.\<close>

record ('c, 'f) publisher_spec =
  sp_entity :: "'c publisher"
  sp_resolved :: "resolved_source list"
  sp_trigger :: trigger_config
  sp_factory :: "'f option"
  sp_claims :: "listener_claim list"
  sp_fingerprint :: "'c publisher_fingerprint"
  sp_err :: "publisher_error option"

definition failed_spec :: "'c publisher \<Rightarrow> publisher_error \<Rightarrow> ('c, 'f) publisher_spec" where
  "failed_spec e err = \<lparr>sp_entity = e, sp_resolved = [], sp_trigger = default_interval_trigger, sp_factory = None,
     sp_claims = [], sp_fingerprint = publisher_fingerprint_of e, sp_err = Some err\<rparr>"

definition publisher_definition_of ::
  "'c definition_registry \<Rightarrow> 'c publisher \<Rightarrow> publisher_error + 'c publisher_definition" where
  "publisher_definition_of reg e =
     bindE (find_publisher_definition reg (pe_type e)) (\<lambda>d.
       if pe_config_version e \<noteq> pd_config_version d then Inl ErrConfigVersionMismatch else Inr d)"

definition specify_publisher ::
  "('c, 'f) publisher_world \<Rightarrow> 'c publisher \<Rightarrow> publisher_error + ('c, 'f) publisher_spec" where
  "specify_publisher w e0 =
     bindE (publisher_definition_of (pw_definitions w) e0) (\<lambda>d.
     bindE (normalize_definition_config (pw_config_bytes w) d (pe_config e0)) (\<lambda>c.
     bindE (resolve_publisher_sources (pw_resolve w) d (pe_sources e0)) (\<lambda>(ss, rs).
     let e = e0\<lparr>pe_config := c, pe_sources := ss\<rparr> in
     bindE (validate_definition_sources d c rs) (\<lambda>u.
     bindE (parse_trigger_config (pw_trigger w c)) (\<lambda>t.
     bindE (validate_trigger_sources (pw_trigger w c) ss) (\<lambda>u.
     bindE (find_transport (pw_transports w) (pe_type e)) (\<lambda>f.
     bindE (pw_claims w f e) (\<lambda>raw.
     bindE (normalize_listener_claims (pw_lower w) (pe_type e) raw) (\<lambda>claims.
       Inr \<lparr>sp_entity = e, sp_resolved = rs, sp_trigger = t, sp_factory = Some f, sp_claims = claims,
            sp_fingerprint = publisher_fingerprint_of e, sp_err = None\<rparr>)))))))))"

definition prepare_publisher :: "('c, 'f) publisher_world \<Rightarrow> 'c publisher \<Rightarrow> ('c, 'f) publisher_spec" where
  "prepare_publisher w e = (case specify_publisher w e of Inl err \<Rightarrow> failed_spec e err | Inr sp \<Rightarrow> sp)"

section \<open>Owners of listening addresses\<close>

definition conflicting_owner :: "(uuid \<times> listener_claim) list \<Rightarrow> listener_claim list \<Rightarrow> uuid option" where
  "conflicting_owner owners claims =
     (case List.find (\<lambda>c. \<exists>p \<in> set owners. listener_claims_conflict (snd p) c) claims of
        None \<Rightarrow> None
      | Some c \<Rightarrow> map_option fst (List.find (\<lambda>p. listener_claims_conflict (snd p) c) owners))"

text \<open>The publishers in the order of their ids, each with its specification.\<close>

fun assign_listener_claims ::
  "(uuid \<times> listener_claim) list \<Rightarrow> (uuid \<times> ('c, 'f) publisher_spec) list \<Rightarrow> (uuid \<times> ('c, 'f) publisher_spec) list" where
  "assign_listener_claims owners [] = []"
| "assign_listener_claims owners ((k, sp) # rest) =
     (if sp_err sp \<noteq> None then (k, sp) # assign_listener_claims owners rest
      else case conflicting_owner owners (sp_claims sp) of
        Some own \<Rightarrow>
          (k, sp\<lparr>sp_err := Some (ErrListenerConflict own), sp_fingerprint := (sp_fingerprint sp)\<lparr>fp_conflict := Some own\<rparr>\<rparr>) #
          assign_listener_claims owners rest
      | None \<Rightarrow> (k, sp) # assign_listener_claims (owners @ map (Pair k) (sp_claims sp)) rest)"

text \<open>The first part of \<open>reconcileLocked\<close>: what is desired of the enabled publishers.\<close>

definition desired_publishers ::
  "('c, 'f) publisher_world \<Rightarrow> 'c publisher list \<Rightarrow> (uuid \<times> ('c, 'f) publisher_spec) list" where
  "desired_publishers w es =
     assign_listener_claims []
       (map (\<lambda>(k, e). (k, prepare_publisher w e)) (sort_key fst (desired_map pe_id pe_enabled es)))"

section \<open>The status of a publisher\<close>

record transport_metrics =
  tm_reconnect_count :: "64 word"
  tm_connected :: bool
  tm_connection_count :: "64 word"
  tm_delivery_count :: "64 word"
  tm_delivery_failure_count :: "64 word"
  tm_queue_depth :: "64 word"
  tm_drop_count :: "64 word"
  tm_diagnostic_count :: "64 word"
  tm_diagnostic_drop_count :: "64 word"
  tm_external_request_count :: "64 word"
  tm_rejected_request_count :: "64 word"
  tm_active_connections :: "64 word"
  tm_last_external_request_at :: "gotime option"
  tm_last_connected_at :: "gotime option"
  tm_last_delivered_at :: "gotime option"
  tm_last_diagnostic_at :: "gotime option"
  tm_error :: string

definition no_metrics :: transport_metrics where
  "no_metrics = \<lparr>tm_reconnect_count = 0, tm_connected = False, tm_connection_count = 0, tm_delivery_count = 0,
     tm_delivery_failure_count = 0, tm_queue_depth = 0, tm_drop_count = 0, tm_diagnostic_count = 0,
     tm_diagnostic_drop_count = 0, tm_external_request_count = 0, tm_rejected_request_count = 0, tm_active_connections = 0,
     tm_last_external_request_at = None, tm_last_connected_at = None, tm_last_delivered_at = None,
     tm_last_diagnostic_at = None, tm_error = []\<rparr>"

record source_status =
  ss_alias :: string
  ss_reference :: source_reference
  ss_available :: bool
  ss_quality :: source_quality
  ss_sequence :: "64 word"
  ss_observed_at :: "gotime option"
  ss_period_start :: "gotime option"
  ss_period_end :: "gotime option"
  ss_coverage :: "fl option"

record publisher_status =
  ru_type :: publisher_type
  ru_state :: runtime_state
  ru_config_version :: "64 word"
  ru_request_count :: "64 word"
  ru_publish_count :: "64 word"
  ru_failure_count :: "64 word"
  ru_queue_depth :: "64 word"
  ru_drop_count :: "64 word"
  ru_transport :: transport_metrics
  ru_sources :: "source_status list"
  ru_last_error :: string

definition new_publisher_status :: "publisher_type \<Rightarrow> 64 word \<Rightarrow> runtime_state \<Rightarrow> string \<Rightarrow> publisher_status" where
  "new_publisher_status t v st err = \<lparr>ru_type = t, ru_state = st, ru_config_version = v, ru_request_count = 0,
     ru_publish_count = 0, ru_failure_count = 0, ru_queue_depth = 0, ru_drop_count = 0, ru_transport = no_metrics,
     ru_sources = [], ru_last_error = err\<rparr>"

definition normalize_inactive_status :: "publisher_status \<Rightarrow> publisher_status" where
  "normalize_inactive_status st =
     (if ru_state st \<noteq> StateStopped \<and> ru_state st \<noteq> StateError then st
      else st\<lparr>ru_queue_depth := 0,
        ru_transport := (ru_transport st)\<lparr>tm_connected := False, tm_active_connections := 0, tm_queue_depth := 0\<rparr>\<rparr>)"

definition set_publisher_state :: "runtime_state \<Rightarrow> publisher_status \<Rightarrow> publisher_status" where
  "set_publisher_state s st = normalize_inactive_status (st\<lparr>ru_state := s\<rparr>)"

definition store_transport_metrics :: "transport_metrics \<Rightarrow> publisher_status \<Rightarrow> publisher_status" where
  "store_transport_metrics m st =
     st\<lparr>ru_transport := m\<lparr>tm_error := sanitize_runtime_error_text (tm_error m)\<rparr>\<rparr>"

text \<open>What \<open>Status\<close> shows: the stored status with what the transport of the job says now.\<close>

definition apply_transport_status :: "transport_metrics option \<Rightarrow> publisher_status \<Rightarrow> publisher_status" where
  "apply_transport_status provider st =
     (case provider of None \<Rightarrow> st | Some m \<Rightarrow> normalize_inactive_status (store_transport_metrics m st))"

definition source_status_of :: "source_sample \<Rightarrow> source_status" where
  "source_status_of x = \<lparr>ss_alias = sm_alias x, ss_reference = sm_reference x, ss_available = sm_available x,
     ss_quality = sm_quality x, ss_sequence = sm_sequence x, ss_observed_at = sm_observed_at x,
     ss_period_start = sm_period_start x, ss_period_end = sm_period_end x, ss_coverage = sm_coverage x\<rparr>"

definition record_failure :: "string \<Rightarrow> publisher_status \<Rightarrow> publisher_status" where
  "record_failure err st =
     st\<lparr>ru_failure_count := ru_failure_count st + 1, ru_last_error := sanitize_runtime_error err\<rparr>"

definition record_drop :: "publisher_status \<Rightarrow> publisher_status" where
  "record_drop st = st\<lparr>ru_drop_count := ru_drop_count st + 1\<rparr>"

definition set_queue_depth :: "64 word \<Rightarrow> publisher_status \<Rightarrow> publisher_status" where
  "set_queue_depth n st = st\<lparr>ru_queue_depth := n\<rparr>"

text \<open>
  One call of \<open>publishSnapshot\<close>: \<open>taken\<close> is the snapshot or its error, \<open>sent\<close> the error of the
  transport, if any, and \<open>metrics\<close> what a transport with metrics then says.
\<close>

definition publish_snapshot ::
  "string + source_snapshot \<Rightarrow> string option \<Rightarrow> transport_metrics option \<Rightarrow> publisher_status \<Rightarrow> publisher_status" where
  "publish_snapshot taken sent metrics st =
     (let st = st\<lparr>ru_request_count := ru_request_count st + 1\<rparr>;
          (failure, st) =
            (case taken of
               Inl e \<Rightarrow> (Some e, st)
             | Inr sn \<Rightarrow> (sent, st\<lparr>ru_sources := map source_status_of (sn_samples sn)\<rparr>));
          st = (case metrics of None \<Rightarrow> st | Some m \<Rightarrow> store_transport_metrics m st)
      in case failure of
           Some e \<Rightarrow> record_failure e st
         | None \<Rightarrow> st\<lparr>ru_publish_count := ru_publish_count st + 1, ru_last_error := []\<rparr>)"

section \<open>What a running publisher does\<close>

datatype job_failure = JobContextDone | JobRuntimeExited | JobError string

text \<open>What the loops of a publisher wait for.\<close>

datatype job_event =
    JobDone
  | JobTick "string + source_snapshot" "string option" "transport_metrics option"
  | JobSample source_sample
  | JobSourcesClosed "string option"
  | JobTransportFailed "string option"

text \<open>\<open>runIntervalPublisher\<close>: an event ends the job, or leaves its status.\<close>

definition interval_event :: "job_event \<Rightarrow> publisher_status \<Rightarrow> job_failure option \<times> publisher_status" where
  "interval_event ev st =
     (case ev of
        JobDone \<Rightarrow> (Some JobContextDone, st)
      | JobTick taken sent metrics \<Rightarrow> (None, publish_snapshot taken sent metrics st)
      | JobTransportFailed None \<Rightarrow> (Some JobRuntimeExited, st)
      | JobTransportFailed (Some e) \<Rightarrow> (Some (JobError e), st)
      | JobSample x \<Rightarrow> (None, st)
      | JobSourcesClosed e \<Rightarrow> (None, st))"

text \<open>\<open>runOnChangePublisher\<close>: whether a timer runs, and the status. A timer that does not run cannot fire.\<close>

definition on_change_event ::
  "string \<Rightarrow> job_event \<Rightarrow> bool \<times> publisher_status \<Rightarrow> job_failure option \<times> bool \<times> publisher_status" where
  "on_change_event alias ev job =
     (case job of (pending, st) \<Rightarrow>
      (case ev of
        JobDone \<Rightarrow> (Some JobContextDone, pending, st)
      | JobTick taken sent metrics \<Rightarrow>
          if pending then (None, False, publish_snapshot taken sent metrics (set_queue_depth 0 st)) else (None, pending, st)
      | JobSourcesClosed (Some e) \<Rightarrow> (Some (JobError e), pending, st)
      | JobSourcesClosed None \<Rightarrow> (Some JobRuntimeExited, pending, st)
      | JobSample x \<Rightarrow>
          if sm_alias x \<noteq> alias then (None, pending, st)
          else if pending then (None, pending, record_drop st)
          else (None, True, set_queue_depth 1 st)
      | JobTransportFailed None \<Rightarrow> (Some JobRuntimeExited, pending, st)
      | JobTransportFailed (Some e) \<Rightarrow> (Some (JobError e), pending, st)))"

fun on_change_events ::
  "string \<Rightarrow> job_event list \<Rightarrow> bool \<times> publisher_status \<Rightarrow> job_failure option \<times> bool \<times> publisher_status" where
  "on_change_events alias [] job = (None, job)"
| "on_change_events alias (ev # evs) job =
     (case on_change_event alias ev job of
        (Some f, job') \<Rightarrow> (Some f, job')
      | (None, job') \<Rightarrow> on_change_events alias evs job')"

text \<open>The whole loop: a first snapshot, the events, and the deferred reset of the queue depth.\<close>

definition run_on_change ::
  "string \<Rightarrow> string + source_snapshot \<Rightarrow> string option \<Rightarrow> transport_metrics option \<Rightarrow> job_event list \<Rightarrow> publisher_status \<Rightarrow>
     job_failure option \<times> publisher_status" where
  "run_on_change alias taken sent metrics evs st =
     (case on_change_events alias evs (False, publish_snapshot taken sent metrics st) of
        (None, pending, st') \<Rightarrow> (None, st')
      | (Some f, pending, st') \<Rightarrow> (Some f, set_queue_depth 0 st'))"

fun interval_events :: "job_event list \<Rightarrow> publisher_status \<Rightarrow> job_failure option \<times> publisher_status" where
  "interval_events [] st = (None, st)"
| "interval_events (ev # evs) st =
     (case interval_event ev st of (Some f, st') \<Rightarrow> (Some f, st') | (None, st') \<Rightarrow> interval_events evs st')"

definition run_interval ::
  "string + source_snapshot \<Rightarrow> string option \<Rightarrow> transport_metrics option \<Rightarrow> job_event list \<Rightarrow> publisher_status \<Rightarrow>
     job_failure option \<times> publisher_status" where
  "run_interval taken sent metrics evs st = interval_events evs (publish_snapshot taken sent metrics st)"

text \<open>\<open>runPublisher\<close>: the loop of the trigger, then the transport is closed.\<close>

definition run_publisher ::
  "trigger_config \<Rightarrow> string option \<Rightarrow> string + source_snapshot \<Rightarrow> string option \<Rightarrow> transport_metrics option \<Rightarrow>
     job_event list \<Rightarrow> string option \<Rightarrow> publisher_status \<Rightarrow> job_failure option \<times> publisher_status" where
  "run_publisher t subscribing taken sent metrics evs closing st =
     (let (failure, st') =
        (case tg_mode t of
           TriggerInterval \<Rightarrow> run_interval taken sent metrics evs st
         | TriggerOnChange \<Rightarrow>
             (case subscribing of
                Some e \<Rightarrow> (Some (JobError e), st)
              | None \<Rightarrow> run_on_change (tg_source_alias t) taken sent metrics evs st)
         | TriggerOther m \<Rightarrow> (Some (JobError ''invalid Data Publisher config''), st))
      in (case failure of Some f \<Rightarrow> Some f | None \<Rightarrow> map_option JobError closing, st'))"

section \<open>Publishers as jobs of the manager\<close>

text \<open>The texts of the errors are parameters: \<open>render\<close> is the message of an error value.\<close>

definition publisher_exited ::
  "(publisher_error \<Rightarrow> string) \<Rightarrow> publisher_error option \<Rightarrow> publisher_status \<Rightarrow> publisher_status" where
  "publisher_exited render result st = st\<lparr>ru_state := StateError,
     ru_last_error := sanitize_runtime_error
       (case result of None \<Rightarrow> ''Data Publisher runtime exited unexpectedly'' | Some e \<Rightarrow> render e)\<rparr>"

definition publisher_kind ::
  "(publisher_error \<Rightarrow> string) \<Rightarrow>
     (('c, 'f) publisher_spec, publisher_status, publisher_error, 'c publisher_fingerprint) runtime_kind" where
  "publisher_kind render = \<lparr>rk_fingerprint = sp_fingerprint, rk_refused = sp_err,
     rk_empty = new_publisher_status (TypeOther []) 0 StateStopped [], rk_state = ru_state,
     rk_set_state = set_publisher_state,
     rk_new = (\<lambda>sp st e. new_publisher_status (pe_type (sp_entity sp)) (pe_config_version (sp_entity sp)) st
       (case e of None \<Rightarrow> [] | Some err \<Rightarrow> sanitize_runtime_error (render err))),
     rk_exited = publisher_exited render\<rparr>"

definition publisher_listings ::
  "('c, 'f) publisher_world set \<Rightarrow> (string + (uuid \<times> ('c, 'f) publisher_spec) list) set" where
  "publisher_listings ws = range Inl \<union> {Inr (desired_publishers w es) | w es. w \<in> ws}"

text \<open>The sections of the manager's operations, on publishers.\<close>

type_synonym ('c, 'f) publisher_manager = "(('c, 'f) publisher_spec, publisher_status) runtime_manager"

definition publisher_start :: "('c, 'f) publisher_manager \<Rightarrow> (manager_error + unit) \<times> ('c, 'f) publisher_manager" where
  "publisher_start s = manager_start s"

definition publisher_check :: "('c, 'f) publisher_manager \<Rightarrow> (manager_error + unit) \<times> ('c, 'f) publisher_manager" where
  "publisher_check s = manager_check s"

definition publisher_drop ::
  "(publisher_error \<Rightarrow> string) \<Rightarrow> ('c, 'f) publisher_world \<Rightarrow> string + 'c publisher list \<Rightarrow> ('c, 'f) publisher_manager \<Rightarrow>
     (manager_error + unit) \<times> ('c, 'f) publisher_manager" where
  "publisher_drop render w listing s =
     manager_drop (publisher_kind render) (bindE listing (\<lambda>es. Inr (desired_publishers w es))) s"

definition publisher_waited :: "(publisher_error \<Rightarrow> string) \<Rightarrow> ('c, 'f) publisher_manager \<Rightarrow> ('c, 'f) publisher_manager" where
  "publisher_waited render s = manager_waited (publisher_kind render) s"

definition publisher_begin_start :: "(publisher_error \<Rightarrow> string) \<Rightarrow> ('c, 'f) publisher_manager \<Rightarrow> ('c, 'f) publisher_manager" where
  "publisher_begin_start render s = begin_start (publisher_kind render) s"

definition publisher_finish_start ::
  "(publisher_error \<Rightarrow> string) \<Rightarrow> publisher_error option \<Rightarrow> ('c, 'f) publisher_manager \<Rightarrow> ('c, 'f) publisher_manager" where
  "publisher_finish_start render failure s = finish_start (publisher_kind render) failure s"

definition publisher_store_failed ::
  "(publisher_error \<Rightarrow> string) \<Rightarrow> uuid \<Rightarrow> ('c, 'f) publisher_spec \<Rightarrow> publisher_error \<Rightarrow> ('c, 'f) publisher_manager \<Rightarrow>
     ('c, 'f) publisher_manager" where
  "publisher_store_failed render k sp e s = store_failed_job (publisher_kind render) k sp e s"

definition publisher_restart ::
  "(publisher_error \<Rightarrow> string) \<Rightarrow> uuid \<Rightarrow> ('c, 'f) publisher_manager \<Rightarrow> (manager_error + unit) \<times> ('c, 'f) publisher_manager" where
  "publisher_restart render k s = manager_restart (publisher_kind render) k s"

definition publisher_restart_waited ::
  "(publisher_error \<Rightarrow> string) \<Rightarrow> ('c, 'f) publisher_manager \<Rightarrow> (manager_error + unit) \<times> ('c, 'f) publisher_manager" where
  "publisher_restart_waited render s = restart_waited (publisher_kind render) s"

definition publisher_job_end ::
  "(publisher_error \<Rightarrow> string) \<Rightarrow> nat \<Rightarrow> publisher_error option \<Rightarrow> ('c, 'f) publisher_manager \<Rightarrow> ('c, 'f) publisher_manager" where
  "publisher_job_end render j result s = job_end (publisher_kind render) j result s"

definition publisher_stop :: "(publisher_error \<Rightarrow> string) \<Rightarrow> ('c, 'f) publisher_manager \<Rightarrow> ('c, 'f) publisher_manager" where
  "publisher_stop render s = manager_stop (publisher_kind render) s"

definition publisher_stop_end :: "(publisher_error \<Rightarrow> string) \<Rightarrow> ('c, 'f) publisher_manager \<Rightarrow> ('c, 'f) publisher_manager" where
  "publisher_stop_end render s = manager_stop_end (publisher_kind render) s"

text \<open>What a running job does to its status.\<close>

definition publisher_updates :: "(publisher_status \<Rightarrow> publisher_status) set" where
  "publisher_updates = {publish_snapshot taken sent metrics | taken sent metrics. True} \<union>
     {record_drop} \<union> {set_queue_depth n | n. True}"

abbreviation publisher_step ::
  "(publisher_error \<Rightarrow> string) \<Rightarrow> ('c, 'f) publisher_world set \<Rightarrow> bool \<Rightarrow> (('c, 'f) publisher_spec, publisher_status) runtime_manager \<Rightarrow>
     (('c, 'f) publisher_spec, publisher_status) runtime_manager \<Rightarrow> bool" where
  "publisher_step render ws \<equiv> manager_step (publisher_kind render) (publisher_listings ws) publisher_updates"

lemma desired_keys [simp]: "map fst (assign_listener_claims owners ds) = map fst ds"
  by (induction owners ds rule: assign_listener_claims.induct) (auto split: option.splits)

lemma desired_publishers_keys: "sorted (map fst (desired_publishers w es)) \<and> distinct (map fst (desired_publishers w es))"
proof -
  have "fst \<circ> (\<lambda>(k :: uuid, e). (k, prepare_publisher w e)) = fst" by auto
  moreover have "distinct (map fst (sort_key fst (desired_map pe_id pe_enabled es)))"
    using desired_map_distinct [of pe_id pe_enabled es] by (simp add: distinct_map)
  ultimately show ?thesis by (simp add: desired_publishers_def)
qed

interpretation publisher_statuses: runtime_statuses "publisher_kind render" "publisher_listings ws" publisher_updates
proof unfold_locales
  fix st x show "rk_state (publisher_kind render) (rk_set_state (publisher_kind render) st x) = st"
    by (simp add: publisher_kind_def set_publisher_state_def normalize_inactive_status_def)
next
  fix d st e show "rk_state (publisher_kind render) (rk_new (publisher_kind render) d st e) = st"
    by (simp add: publisher_kind_def new_publisher_status_def)
next
  fix f x assume "f \<in> publisher_updates"
  then show "rk_state (publisher_kind render) (f x) = rk_state (publisher_kind render) x"
    by (auto simp: publisher_updates_def publisher_kind_def publish_snapshot_def record_drop_def set_queue_depth_def
        record_failure_def store_transport_metrics_def Let_def split: sum.splits option.splits)
next
  fix ds assume "Inr ds \<in> publisher_listings ws"
  then show "distinct (map fst ds)" using desired_publishers_keys by (auto simp: publisher_listings_def)
qed

interpretation publisher_jobs: invariant_system "\<lambda>s. s = new_manager" "publisher_step render ws False"
  "publisher_statuses.manager_inv render"
  by unfold_locales (auto simp: publisher_statuses.new_manager_inv intro: publisher_statuses.manager_step_inv)

section \<open>Properties\<close>

text \<open>Counting the events of a publisher on change.\<close>

definition relevant :: "string \<Rightarrow> job_event \<Rightarrow> bool" where
  "relevant alias ev \<longleftrightarrow> (case ev of JobSample x \<Rightarrow> sm_alias x = alias | _ \<Rightarrow> False)"

definition is_tick :: "job_event \<Rightarrow> bool" where
  "is_tick ev \<longleftrightarrow> (case ev of JobTick a b c \<Rightarrow> True | _ \<Rightarrow> False)"

lemma publish_snapshot_counts [simp]:
  "ru_request_count (publish_snapshot taken sent metrics st) = ru_request_count st + 1"
  "ru_publish_count (publish_snapshot taken sent metrics st) + ru_failure_count (publish_snapshot taken sent metrics st) =
     ru_publish_count st + ru_failure_count st + 1"
  "ru_failure_count (publish_snapshot taken sent metrics st) + ru_publish_count (publish_snapshot taken sent metrics st) =
     1 + (ru_failure_count st + ru_publish_count st)"
  "ru_drop_count (publish_snapshot taken sent metrics st) = ru_drop_count st"
  "ru_queue_depth (publish_snapshot taken sent metrics st) = ru_queue_depth st"
  by (simp_all add: publish_snapshot_def Let_def record_failure_def store_transport_metrics_def split: sum.split option.split)

lemma on_change_counts:
  assumes "on_change_events alias evs (p, st) = (None, p', st')" and "ru_queue_depth st = of_bool p"
  shows "ru_queue_depth st' = of_bool p' \<and>
    of_bool p + of_nat (length (filter (relevant alias) evs)) + ru_drop_count st + ru_request_count st =
      of_bool p' + ru_drop_count st' + ru_request_count st' \<and>
    ru_publish_count st' + ru_failure_count st' + ru_request_count st =
      ru_publish_count st + ru_failure_count st + ru_request_count st'"
  using assms
proof (induction evs arbitrary: p st)
  case (Cons ev evs)
  obtain p1 st1 where one: "on_change_event alias ev (p, st) = (None, p1, st1)"
    and rest: "on_change_events alias evs (p1, st1) = (None, p', st')"
    using Cons.prems(1) by (auto split: prod.splits option.splits)
  have st1: "ru_queue_depth st1 = of_bool p1 \<and>
      of_bool p + of_bool (relevant alias ev) + ru_drop_count st + ru_request_count st =
        of_bool p1 + ru_drop_count st1 + ru_request_count st1 \<and>
      ru_publish_count st1 + ru_failure_count st1 + ru_request_count st =
        ru_publish_count st + ru_failure_count st + ru_request_count st1"
    using one Cons.prems(2)
    by (cases ev) (auto simp: on_change_event_def relevant_def record_drop_def set_queue_depth_def algebra_simps
        split: if_splits option.splits)
  have ih: "ru_queue_depth st' = of_bool p'"
    "of_bool p1 + of_nat (length (filter (relevant alias) evs)) + ru_drop_count st1 + ru_request_count st1 =
      of_bool p' + ru_drop_count st' + ru_request_count st'"
    "ru_publish_count st' + ru_failure_count st' + ru_request_count st1 =
      ru_publish_count st1 + ru_failure_count st1 + ru_request_count st'"
    using Cons.IH [OF rest conjunct1 [OF st1]] by blast+
  have split: "of_nat (length (filter (relevant alias) (ev # evs))) =
      (of_bool (relevant alias ev) + of_nat (length (filter (relevant alias) evs)) :: 64 word)" by simp
  show ?case
  proof (intro conjI)
    show "ru_queue_depth st' = of_bool p'" by (rule ih(1))
    show "of_bool p + of_nat (length (filter (relevant alias) (ev # evs))) + ru_drop_count st + ru_request_count st =
      of_bool p' + ru_drop_count st' + ru_request_count st'"
      using ih(2) st1 unfolding split by (metis (no_types, opaque_lifting) add.assoc add.commute)
    show "ru_publish_count st' + ru_failure_count st' + ru_request_count st =
      ru_publish_count st + ru_failure_count st + ru_request_count st'"
      using ih(3) st1 by (smt (verit) add.commute add.left_commute add_left_imp_eq)
  qed
qed simp

lemma on_change_events_append:
  "on_change_events alias (as @ bs) job =
     (case on_change_events alias as job of (Some f, job') \<Rightarrow> (Some f, job') | (None, job') \<Rightarrow> on_change_events alias bs job')"
  by (induction as arbitrary: job) (auto split: prod.splits option.splits)

lemma pending_stays:
  "on_change_events alias evs (True, st) = (None, p, st') \<Longrightarrow> list_all (\<lambda>ev. \<not> is_tick ev) evs \<Longrightarrow> p"
proof (induction evs arbitrary: st)
  case (Cons ev evs)
  obtain p1 st1 where one: "on_change_event alias ev (True, st) = (None, p1, st1)"
    and rest: "on_change_events alias evs (p1, st1) = (None, p, st')"
    using Cons.prems(1) by (auto split: prod.splits option.splits)
  have "p1" using one Cons.prems(2)
    by (cases ev) (auto simp: on_change_event_def is_tick_def split: if_splits option.splits)
  then show ?case using Cons.IH rest Cons.prems(2) by simp
qed simp

text \<open>
  C35: What a publisher with a trigger on change does with a burst of samples. As long as it runs,
  the first snapshot and every relevant sample is accounted for: it is a snapshot taken, a counted drop
  or the pending timer, and the queue depth says whether the timer is pending; every snapshot taken is
  counted as published or failed; and no change is left behind: after a relevant sample the timer
  is pending until the next snapshot, which is taken after the sample.
\<close>

theorem changes_are_accounted:
  assumes "run_on_change alias taken sent metrics evs st = (None, st')"
    and "ru_queue_depth st = 0"
  shows "(ru_queue_depth st' = 0 \<or> ru_queue_depth st' = 1) \<and>
    ru_request_count st + 1 + of_nat (length (filter (relevant alias) evs)) + ru_drop_count st =
      ru_request_count st' + ru_drop_count st' + ru_queue_depth st' \<and>
    ru_publish_count st' + ru_failure_count st' + ru_request_count st =
      ru_publish_count st + ru_failure_count st + ru_request_count st' \<and>
    (\<forall>as ev bs. evs = as @ ev # bs \<and> relevant alias ev \<and> list_all (\<lambda>ev. \<not> is_tick ev) bs \<longrightarrow> ru_queue_depth st' = 1)"
proof -
  let ?st0 = "publish_snapshot taken sent metrics st"
  obtain p where run: "on_change_events alias evs (False, ?st0) = (None, p, st')"
    using assms(1) by (auto simp: run_on_change_def split: prod.splits option.splits)
  have q: "ru_queue_depth ?st0 = of_bool False" using assms(2) by simp
  note counts = on_change_counts [OF run q]
  have last: "p" if evs: "evs = as @ ev # bs" "relevant alias ev" "list_all (\<lambda>ev. \<not> is_tick ev) bs" for as ev bs
  proof -
    have "on_change_events alias (as @ ev # bs) (False, ?st0) = (None, p, st')" using run evs(1) by simp
    then obtain p1 st1 where "on_change_events alias as (False, ?st0) = (None, p1, st1)"
      and two: "on_change_events alias (ev # bs) (p1, st1) = (None, p, st')"
      unfolding on_change_events_append by (auto split: prod.splits option.splits simp del: on_change_events.simps)
    obtain st2 where "on_change_events alias bs (True, st2) = (None, p, st')"
      using two evs(2) by (cases ev; cases p1) (auto simp: relevant_def on_change_event_def split: if_splits)
    then show ?thesis using pending_stays evs(3) by blast
  qed
  have sums: "ru_publish_count ?st0 + ru_failure_count ?st0 = ru_publish_count st + ru_failure_count st + 1"
    "ru_request_count ?st0 = ru_request_count st + 1" "ru_drop_count ?st0 = ru_drop_count st" by simp_all
  have "ru_queue_depth st' = 0 \<or> ru_queue_depth st' = 1" using counts by (cases p) simp_all
  moreover have "ru_request_count st + 1 + of_nat (length (filter (relevant alias) evs)) + ru_drop_count st =
      ru_request_count st' + ru_drop_count st' + ru_queue_depth st'"
    using counts sums by (simp add: algebra_simps)
  moreover have "ru_publish_count st' + ru_failure_count st' + ru_request_count st =
      ru_publish_count st + ru_failure_count st + ru_request_count st'"
    using conjunct2 [OF conjunct2 [OF counts]] unfolding sums by (simp add: algebra_simps)
  moreover have "ru_queue_depth st' = 1"
    if "evs = as @ ev # bs \<and> relevant alias ev \<and> list_all (\<lambda>ev. \<not> is_tick ev) bs" for as ev bs
    using last [of as ev bs] that counts by simp
  ultimately show ?thesis by blast
qed

theorem changes_are_accounted_witness:
  "\<exists>st'. run_on_change ''a'' (Inl ''x'') None None [] (new_publisher_status TypeMQTT 3 StateRunning []) = (None, st') \<and>
     ru_publish_count st' + ru_failure_count st' = ru_request_count st'"
proof -
  let ?st = "new_publisher_status TypeMQTT 3 StateRunning []"
  obtain st' where run: "run_on_change ''a'' (Inl ''x'') None None [] ?st = (None, st')"
    by (simp add: run_on_change_def)
  have "ru_queue_depth ?st = 0" by (simp add: new_publisher_status_def)
  note counts = changes_are_accounted [OF run this]
  have "ru_publish_count st' + ru_failure_count st' + ru_request_count ?st =
      ru_publish_count ?st + ru_failure_count ?st + ru_request_count st'"
    using counts by blast
  then have "ru_publish_count st' + ru_failure_count st' = ru_request_count st'"
    by (simp add: new_publisher_status_def)
  with run show ?thesis by blast
qed

section \<open>Who owns a listening address\<close>

definition claims_clash :: "listener_claim list \<Rightarrow> listener_claim list \<Rightarrow> bool" where
  "claims_clash cs ds \<longleftrightarrow> (\<exists>c \<in> set cs. \<exists>d \<in> set ds. claim_covers c \<inter> claim_covers d \<noteq> {})"

lemma conflicting_owner_None:
  "conflicting_owner owners claims = None \<Longrightarrow> \<forall>c \<in> set claims. \<forall>p \<in> set owners. \<not> listener_claims_conflict (snd p) c"
  by (auto simp: conflicting_owner_def find_None_iff find_Some_iff split: option.splits)

lemma conflicting_owner_Some:
  assumes "conflicting_owner owners claims = Some own"
  shows "\<exists>c \<in> set claims. \<exists>p \<in> set owners. fst p = own \<and> listener_claims_conflict (snd p) c"
proof -
  obtain c where c: "List.find (\<lambda>c. \<exists>p \<in> set owners. listener_claims_conflict (snd p) c) claims = Some c"
    and "map_option fst (List.find (\<lambda>p. listener_claims_conflict (snd p) c) owners) = Some own"
    using assms by (auto simp: conflicting_owner_def split: option.splits)
  then obtain p where "List.find (\<lambda>p. listener_claims_conflict (snd p) c) owners = Some p" "fst p = own" by auto
  then have "p \<in> set owners" "listener_claims_conflict (snd p) c" "fst p = own" by (auto simp: find_Some_iff)
  moreover have "c \<in> set claims" using c by (auto simp: find_Some_iff)
  ultimately show ?thesis by blast
qed

text \<open>What a specification may hold before the claims are assigned.\<close>

definition specs_ok :: "(uuid \<times> ('c, 'f) publisher_spec) list \<Rightarrow> bool" where
  "specs_ok ds \<longleftrightarrow> (\<forall>(k, sp) \<in> set ds. fp_conflict (sp_fingerprint sp) = None \<and> list_all claim_ok (sp_claims sp))"

lemma prepare_publisher_ok:
  assumes "keeps_brackets (pw_lower w)"
  shows "fp_conflict (sp_fingerprint (prepare_publisher w e)) = None \<and> list_all claim_ok (sp_claims (prepare_publisher w e))"
proof (cases "specify_publisher w e")
  case (Inl err)
  then show ?thesis by (simp add: prepare_publisher_def failed_spec_def publisher_fingerprint_of_def)
next
  case (Inr sp)
  then obtain t raw where "normalize_listener_claims (pw_lower w) t raw = Inr (sp_claims sp)"
    "fp_conflict (sp_fingerprint sp) = None"
    by (auto simp: specify_publisher_def bindE_Inr_iff Let_def publisher_fingerprint_of_def)
  then show ?thesis using normalize_listener_claims_ok [OF assms] Inr by (auto simp: prepare_publisher_def)
qed

lemma claims_clash_iff:
  "list_all claim_ok cs \<Longrightarrow> list_all claim_ok ds \<Longrightarrow>
   claims_clash cs ds \<longleftrightarrow> (\<exists>c \<in> set cs. \<exists>d \<in> set ds. listener_claims_conflict c d)"
  by (auto simp: claims_clash_def list_all_iff claim_ok_def claims_conflict_iff)

definition accepted :: "(uuid \<times> ('c, 'f) publisher_spec) list \<Rightarrow> (uuid \<times> ('c, 'f) publisher_spec) list" where
  "accepted ds = filter (\<lambda>p. sp_err (snd p) = None) ds"

lemma assign_apart:
  assumes "specs_ok ds" and "list_all claim_ok (map snd owners)"
  shows "sorted_wrt (\<lambda>p q. \<not> claims_clash (sp_claims (snd p)) (sp_claims (snd q))) (accepted (assign_listener_claims owners ds)) \<and>
    (\<forall>p \<in> set (accepted (assign_listener_claims owners ds)). \<not> claims_clash (map snd owners) (sp_claims (snd p)))"
  using assms
proof (induction owners ds rule: assign_listener_claims.induct)
  case (2 owners k sp rest)
  have ok: "specs_ok rest" "list_all claim_ok (sp_claims sp)" using "2.prems"(1) by (auto simp: specs_ok_def)
  consider (err) "sp_err sp \<noteq> None" | (own) own where "sp_err sp = None" "conflicting_owner owners (sp_claims sp) = Some own"
    | (free) "sp_err sp = None" "conflicting_owner owners (sp_claims sp) = None" by fastforce
  then show ?case
  proof cases
    case free
    have free': "\<not> claims_clash (map snd owners) (sp_claims sp)"
      using conflicting_owner_None [OF free(2)] claims_clash_iff [OF "2.prems"(2) ok(2)] by auto
    have owners: "list_all claim_ok (map snd (owners @ map (Pair k) (sp_claims sp)))"
      using "2.prems"(2) ok(2) by (simp add: comp_def)
    note ih = "2.IH"(2) [OF _ free(2) ok(1) owners]
    have "claims_clash (map snd (owners @ map (Pair k) (sp_claims sp))) ds \<longleftrightarrow>
        claims_clash (map snd owners) ds \<or> claims_clash (sp_claims sp) ds" for ds
      by (auto simp: claims_clash_def)
    with ih free free' show ?thesis by (simp add: accepted_def) blast
  qed (use "2.IH" "2.prems" ok in \<open>auto simp: accepted_def\<close>)
qed (simp add: accepted_def)

lemma assign_refused:
  assumes "specs_ok ds" and "list_all claim_ok (map snd owners)" and "(k, sp) \<in> set (assign_listener_claims owners ds)"
    and "fp_conflict (sp_fingerprint sp) = Some own"
  shows "(\<exists>c. (own, c) \<in> set owners \<and> claims_clash [c] (sp_claims sp)) \<or>
    (\<exists>sp'. (own, sp') \<in> set (accepted (assign_listener_claims owners ds)) \<and> claims_clash (sp_claims sp') (sp_claims sp))"
  using assms
proof (induction owners ds rule: assign_listener_claims.induct)
  case (2 owners l sq rest)
  have ok: "specs_ok rest" "list_all claim_ok (sp_claims sq)" "fp_conflict (sp_fingerprint sq) = None"
    using "2.prems"(1) by (auto simp: specs_ok_def)
  consider (err) "sp_err sq \<noteq> None" | (own) o' where "sp_err sq = None" "conflicting_owner owners (sp_claims sq) = Some o'"
    | (free) "sp_err sq = None" "conflicting_owner owners (sp_claims sq) = None" by fastforce
  then show ?case
  proof cases
    case err
    then show ?thesis using "2.IH"(1) "2.prems" ok by (auto simp: accepted_def)
  next
    case (own o')
    show ?thesis
    proof (cases "(k, sp) \<in> set (assign_listener_claims owners rest)")
      case True
      then show ?thesis using "2.IH"(3) own "2.prems" ok by (auto simp: accepted_def)
    next
      case False
      then have "sp_claims sp = sp_claims sq" "own = o'" using "2.prems"(3,4) own by auto
      moreover obtain c p where "c \<in> set (sp_claims sq)" "p \<in> set owners" "fst p = o'" "listener_claims_conflict (snd p) c"
        using conflicting_owner_Some [OF own(2)] by blast
      moreover from this have "claims_clash [snd p] (sp_claims sq)"
        using claims_clash_iff [of "[snd p]" "sp_claims sq"] "2.prems"(2) ok(2) by (auto simp: list_all_iff)
      ultimately show ?thesis by (metis prod.collapse)
    qed
  next
    case free
    have owners: "list_all claim_ok (map snd (owners @ map (Pair l) (sp_claims sq)))"
      using "2.prems"(2) ok(2) by (simp add: comp_def)
    have "(k, sp) \<in> set (assign_listener_claims (owners @ map (Pair l) (sp_claims sq)) rest)"
      using "2.prems"(3,4) free ok(3) by auto
    from "2.IH"(2) [OF _ free(2) ok(1) owners this "2.prems"(4)] free
    consider c where "(own, c) \<in> set (owners @ map (Pair l) (sp_claims sq))" "claims_clash [c] (sp_claims sp)"
      | sp' where "(own, sp') \<in> set (accepted (assign_listener_claims (owners @ map (Pair l) (sp_claims sq)) rest))"
        "claims_clash (sp_claims sp') (sp_claims sp)" by auto
    then show ?thesis
    proof cases
      case 1
      then consider "(own, c) \<in> set owners" | "own = l" "c \<in> set (sp_claims sq)" by auto
      then show ?thesis using 1(2) free by cases (auto simp: accepted_def claims_clash_def)
    qed (use free in \<open>auto simp: accepted_def\<close>)
  qed
qed simp

lemma assign_conflict_err:
  "(k, sp) \<in> set (assign_listener_claims owners ds) \<Longrightarrow> specs_ok ds \<Longrightarrow> fp_conflict (sp_fingerprint sp) = Some own \<Longrightarrow>
   sp_err sp = Some (ErrListenerConflict own)"
  by (induction owners ds rule: assign_listener_claims.induct) (auto simp: specs_ok_def split: if_splits option.splits)

text \<open>
  C34: which publisher owns a listening address. Among the desired publishers, in the order of their
  ids, the accepted ones claim disjoint sets of endpoints; and a publisher that is refused names an
  accepted one that claims an endpoint of its own.
\<close>

theorem listener_owners:
  assumes "keeps_brackets (pw_lower w)"
  shows "sorted (map fst (desired_publishers w es)) \<and> distinct (map fst (desired_publishers w es)) \<and>
    sorted_wrt (\<lambda>p q. \<not> claims_clash (sp_claims (snd p)) (sp_claims (snd q))) (accepted (desired_publishers w es)) \<and>
    (\<forall>k sp own. (k, sp) \<in> set (desired_publishers w es) \<and> fp_conflict (sp_fingerprint sp) = Some own \<longrightarrow>
      sp_err sp = Some (ErrListenerConflict own) \<and>
      (\<exists>sp'. (own, sp') \<in> set (accepted (desired_publishers w es)) \<and> claims_clash (sp_claims sp') (sp_claims sp)))"
proof -
  have ok: "specs_ok (map (\<lambda>(k, e). (k, prepare_publisher w e)) xs)" for xs
    using prepare_publisher_ok [OF assms] by (auto simp: specs_ok_def)
  define ds where "ds = map (\<lambda>(k, e). (k, prepare_publisher w e)) (sort_key fst (desired_map pe_id pe_enabled es))"
  have specs: "specs_ok ds" unfolding ds_def by (rule ok)
  have d: "desired_publishers w es = assign_listener_claims [] ds" by (simp add: desired_publishers_def ds_def)
  have "sp_err sp = Some (ErrListenerConflict own) \<and>
      (\<exists>sp'. (own, sp') \<in> set (accepted (assign_listener_claims [] ds)) \<and> claims_clash (sp_claims sp') (sp_claims sp))"
    if "(k, sp) \<in> set (assign_listener_claims [] ds)" "fp_conflict (sp_fingerprint sp) = Some own" for k sp own
    using assign_conflict_err [OF that(1) specs that(2)] assign_refused [OF specs _ that] by simp
  moreover have "sorted_wrt (\<lambda>p q. \<not> claims_clash (sp_claims (snd p)) (sp_claims (snd q))) (accepted (assign_listener_claims [] ds))"
    using assign_apart [OF specs, of "[]"] by simp
  ultimately show ?thesis using desired_publishers_keys [of w es] unfolding d by blast
qed

text \<open>Two publishers on one address, and a world where the source of the first may be gone.\<close>

definition demo_world :: "bool \<Rightarrow> (string, unit) publisher_world" where
  "demo_world gone = \<lparr>pw_definitions = [\<lparr>pd_type = TypeHTTPServer, pd_config_version = 4, pd_normalize = Inr,
       pd_supports = (\<lambda>d. True), pd_validate_sources = None\<rparr>],
     pw_transports = [TypeHTTPServer \<mapsto> ()],
     pw_resolve = (\<lambda>ss. if gone \<and> list_ex (\<lambda>l. sr_tag_id (sl_reference l) = 9) ss then Inl ErrSourceNotFound
       else Inr (map (\<lambda>l. \<lparr>rs_alias = sl_alias l, rs_descriptor = \<lparr>sd_reference = sl_reference l, sd_name = [],
         sd_owner_name = [], sd_description = [], sd_schema_version = 1, sd_data_type = OutBool, sd_unit = [],
         sd_dynamic_unit = False, sd_period_kind = PeriodInstantaneous, sd_enabled = True\<rparr>\<rparr>) ss)),
     pw_trigger = (\<lambda>c. trigger_document.EmptyConfig), pw_config_bytes = length,
     pw_claims = (\<lambda>f e. Inr [\<lparr>lc_network = ''tcp'', lc_address = pe_config e\<rparr>]), pw_lower = (\<lambda>s. s)\<rparr>"

definition demo_publisher :: "uuid \<Rightarrow> uuid \<Rightarrow> string \<Rightarrow> string publisher" where
  "demo_publisher i tag address = \<lparr>pe_id = i, pe_type = TypeHTTPServer, pe_name = ''p'', pe_description = None,
     pe_enabled = True, pe_config = address, pe_config_version = 4, pe_credential = None, pe_secret_revision = 0,
     pe_source_count = 1, pe_sources = [\<lparr>sl_alias = ''a'', sl_reference = tag_source tag\<rparr>]\<rparr>"

lemma demo_trims:
  "trim_space '':9'' = '':9''" "trim_space ''b:9'' = ''b:9''" "trim_space ''tcp'' = ''tcp''" "trim_space ''b'' = ''b''"
  "trim_space ''a'' = ''a''"
  by (rule trim_space_plain; simp add: plain_char_ascii)+

lemma demo_texts:
  "split_host_port '':9'' = Some ([], ''9'')" "split_host_port ''b:9'' = Some (''b'', ''9'')"
  "split_host_port ''*:9'' = Some (''*'', ''9'')" "parse_int 64 ''9'' = Some 9"
  "join_host_port ''*'' ''9'' = ''*:9''" "join_host_port ''b'' ''9'' = ''b:9''" "wildcard_host []" "\<not> wildcard_host ''b''"
  by (simp_all add: split_host_port_def split_last_colon_def parse_int_def is_digit_def byte_of_def digits_value_def
      join_host_port_def wildcard_host_def)

lemma demo_port: "itoa 9 = ''9''"
  by code_simp

lemma demo_selection:
  "i \<noteq> 0 \<Longrightarrow> normalize_source_selections [\<lparr>sl_alias = ''a'', sl_reference = tag_source i\<rparr>] =
     Inr [\<lparr>sl_alias = ''a'', sl_reference = tag_source i\<rparr>]"
  by (simp add: normalize_source_selections_def add_selection_def demo_trims validate_reference_def tag_source_def
      max_source_selections_def source_alias_pattern_def is_alpha_def byte_of_def)

lemma demo_claims:
  "normalize_listener_claims (\<lambda>s. s) TypeHTTPServer [\<lparr>lc_network = ''tcp'', lc_address = '':9''\<rparr>] =
     Inr [\<lparr>lc_network = ''tcp'', lc_address = ''*:9''\<rparr>]"
  "normalize_listener_claims (\<lambda>s. s) TypeHTTPServer [\<lparr>lc_network = ''tcp'', lc_address = ''b:9''\<rparr>] =
     Inr [\<lparr>lc_network = ''tcp'', lc_address = ''b:9''\<rparr>]"
  by (simp_all add: normalize_listener_claims_def add_claim_def normalize_claim_def demo_trims demo_texts demo_port)

lemmas demo_prepare_defs = demo_world_def demo_publisher_def prepare_publisher_def specify_publisher_def
  publisher_definition_of_def find_publisher_definition_def normalize_definition_config_def max_publisher_config_bytes_def
  resolve_publisher_sources_def demo_selection check_resolved_source_def validate_definition_sources_def
  parse_trigger_config_def validate_trigger_sources_def default_interval_trigger_def find_transport_def demo_claims
  failed_spec_def publisher_fingerprint_of_def

lemma demo_tag [simp]: "sr_tag_id (tag_source i) = i" "validate_reference (tag_source i) = (if i = 0 then Inl ErrInvalidSourceReference else Inr ())"
  by (simp_all add: tag_source_def validate_reference_def)

lemma demo_prepared:
  "sp_err (prepare_publisher (demo_world g) (demo_publisher 2 8 '':9'')) = None"
  "sp_claims (prepare_publisher (demo_world g) (demo_publisher 2 8 '':9'')) = [\<lparr>lc_network = ''tcp'', lc_address = ''*:9''\<rparr>]"
  "sp_err (prepare_publisher (demo_world False) (demo_publisher 1 9 ''b:9'')) = None"
  "sp_claims (prepare_publisher (demo_world False) (demo_publisher 1 9 ''b:9'')) = [\<lparr>lc_network = ''tcp'', lc_address = ''b:9''\<rparr>]"
  "sp_err (prepare_publisher (demo_world True) (demo_publisher 1 9 ''b:9'')) = Some (PublisherSource ErrSourceNotFound)"
  "sp_fingerprint (prepare_publisher (demo_world False) (demo_publisher 1 9 ''b:9'')) = publisher_fingerprint_of (demo_publisher 1 9 ''b:9'')"
  "sp_fingerprint (prepare_publisher (demo_world True) (demo_publisher 1 9 ''b:9'')) = publisher_fingerprint_of (demo_publisher 1 9 ''b:9'')"
  by (simp_all add: demo_prepare_defs)

lemma demo_clash:
  "listener_claims_conflict \<lparr>lc_network = ''tcp'', lc_address = ''b:9''\<rparr> \<lparr>lc_network = ''tcp'', lc_address = ''*:9''\<rparr>"
  "claims_clash [\<lparr>lc_network = ''tcp'', lc_address = ''b:9''\<rparr>] [\<lparr>lc_network = ''tcp'', lc_address = ''*:9''\<rparr>]"
proof -
  show c: "listener_claims_conflict \<lparr>lc_network = ''tcp'', lc_address = ''b:9''\<rparr> \<lparr>lc_network = ''tcp'', lc_address = ''*:9''\<rparr>"
    by (simp add: listener_claims_conflict_def listener_networks_overlap_def demo_texts)
  then show "claims_clash [\<lparr>lc_network = ''tcp'', lc_address = ''b:9''\<rparr>] [\<lparr>lc_network = ''tcp'', lc_address = ''*:9''\<rparr>]"
    unfolding claims_clash_def by (subst (asm) claims_conflict_iff) (simp_all add: known_network_def)
qed

lemma demo_desired:
  "desired_publishers (demo_world g) [demo_publisher 2 8 '':9'', demo_publisher 1 9 ''b:9''] =
     assign_listener_claims [] [(1, prepare_publisher (demo_world g) (demo_publisher 1 9 ''b:9'')),
       (2, prepare_publisher (demo_world g) (demo_publisher 2 8 '':9''))]"
proof -
  have "pe_id (demo_publisher i t a) = i" "pe_enabled (demo_publisher i t a)" for i t a by (simp_all add: demo_publisher_def)
  then have "sort_key fst (desired_map pe_id pe_enabled [demo_publisher 2 8 '':9'', demo_publisher 1 9 ''b:9'']) =
      [(1, demo_publisher 1 9 ''b:9''), (2, demo_publisher 2 8 '':9'')]"
    by (simp add: desired_map_def put_desired_def word_le_nat_alt)
  then show ?thesis by (simp add: desired_publishers_def del: assign_listener_claims.simps)
qed

theorem listener_owners_witness:
  "\<exists>sp'. (1, sp') \<in> set (accepted (desired_publishers (demo_world False) [demo_publisher 2 8 '':9'', demo_publisher 1 9 ''b:9'']))"
proof -
  have low: "keeps_brackets (pw_lower (demo_world False))" by (simp add: keeps_brackets_def demo_world_def)
  have "\<exists>sp. (2, sp) \<in> set (desired_publishers (demo_world False) [demo_publisher 2 8 '':9'', demo_publisher 1 9 ''b:9'']) \<and>
      fp_conflict (sp_fingerprint sp) = Some 1"
    by (simp add: demo_desired demo_prepared conflicting_owner_def demo_clash)
  then show ?thesis using listener_owners [OF low] by blast
qed

text \<open>
  What ownership does not cover: a publisher that runs, but can no longer be prepared because a source
  is gone, keeps its fingerprint, so its job and its listener stay; its claims count for nothing any
  more, and another publisher is accepted on the same address.
\<close>

lemma unprepared_publisher_loses_its_listener:
  "\<exists>a a' b. (1, a) \<in> set (accepted (desired_publishers (demo_world False) [demo_publisher 2 8 '':9'', demo_publisher 1 9 ''b:9''])) \<and>
     desired_publishers (demo_world True) [demo_publisher 2 8 '':9'', demo_publisher 1 9 ''b:9''] = [(1, a'), (2, b)] \<and>
     sp_fingerprint a' = sp_fingerprint a \<and> sp_err a' \<noteq> None \<and> sp_err b = None \<and> claims_clash (sp_claims a) (sp_claims b)"
  by (simp add: demo_desired demo_prepared conflicting_owner_def demo_clash accepted_def)
text \<open>The jobs of the manager: one for a publisher, and a live one is reported as running.\<close>

lemma one_job_per_publisher:
  assumes "reachable (\<lambda>s. s = new_manager) (publisher_step render ws False) s"
  shows "(\<forall>i j. job_live s i \<and> job_live s j \<and> jb_key (sv_table s ! i) = jb_key (sv_table s ! j) \<longrightarrow> i = j) \<and>
    (\<forall>j. job_live s j \<and> \<not> jb_cancelled (sv_table s ! j) \<longrightarrow>
      ru_state (status_of (publisher_kind render) s (jb_key (sv_table s ! j))) = StateRunning)"
  using publisher_statuses.one_job_per_key [OF publisher_jobs.reachable_inv [OF assms]]
  by (simp add: publisher_kind_def)

end
