(* ===== verification/Persistent_Store.thy ===== *)
theory Persistent_Store
  imports Value_Store
begin

text \<open>
  Write-behind persistence of the latest values: \<open>internal/tag/persistent_value_store.go\<close> over
  the in-memory store, with the table of \<open>internal/tag/postgres/latest_value_repository.go\<close>,
  which lists a row at the start only if the tag still has the data type of the row, and whose
  rows go with their tag (\<open>ON DELETE CASCADE\<close>).
  A put stores in memory and marks the value pending; a background goroutine takes the pending
  values, writes them in sequence order and puts back those whose write failed. The database
  answers each write with success or failure; that answer is an argument of the step. The
  values the goroutine has taken and not yet written are in \<open>ps_flight\<close>.
\<close>

datatype persist_error =
    PersistNotReady | PersistStopped | PersistStarted | PersistList | PersistRestore value_error
  | PersistPut value_error

record persistent_store =
  ps_memory :: value_store
  ps_repository :: "uuid \<rightharpoonup> tag_value"
  ps_started :: bool
  ps_stopped :: bool
  ps_pending :: "uuid \<rightharpoonup> tag_value"
  ps_wake :: "unit chan"
  ps_errors :: "(uuid \<times> 64 word) chan"
  ps_flight :: "tag_value list"
  ps_tags :: "uuid \<rightharpoonup> data_type"

definition new_persistent_store :: "(uuid \<rightharpoonup> data_type) \<Rightarrow> (uuid \<rightharpoonup> tag_value) \<Rightarrow> persistent_store" where
  "new_persistent_store tags repo = \<lparr>ps_memory = new_value_store, ps_repository = repo,
     ps_started = False, ps_stopped = False, ps_pending = Map.empty, ps_wake = make_chan 1,
     ps_errors = make_chan 32, ps_flight = [], ps_tags = tags\<rparr>"

text \<open>\<open>INSERT ... ON CONFLICT DO UPDATE ... WHERE sequence < EXCLUDED.sequence\<close>\<close>

definition repository_upsert :: "tag_value \<Rightarrow> (uuid \<rightharpoonup> tag_value) \<Rightarrow> (uuid \<rightharpoonup> tag_value)" where
  "repository_upsert v repo =
     (case repo (tv_tag_id v) of
        None \<Rightarrow> repo(tv_tag_id v \<mapsto> v)
      | Some w \<Rightarrow> if tv_sequence w < tv_sequence v then repo(tv_tag_id v \<mapsto> v) else repo)"

text \<open>
  The join of \<open>ListLatest\<close>: a row whose tag has another data type now is not listed.
\<close>

definition stale_row :: "(uuid \<rightharpoonup> data_type) \<Rightarrow> tag_value \<Rightarrow> bool" where
  "stale_row tags w \<longleftrightarrow> tags (tv_tag_id w) \<noteq> Some (tv_data_type w)"

definition list_latest :: "persistent_store \<Rightarrow> tag_value list \<Rightarrow> bool" where
  "list_latest p values \<longleftrightarrow>
     distinct values \<and> set values = {w \<in> ran (ps_repository p). \<not> stale_row (ps_tags p) w}"

text \<open>\<open>Start\<close>: \<open>rows\<close> is what \<open>ListLatest\<close> returned, \<open>None\<close> when it failed.\<close>

definition persistent_start ::
  "tag_value list option \<Rightarrow> persistent_store \<Rightarrow> (persist_error + unit) \<times> persistent_store" where
  "persistent_start rows p =
     (if ps_started p \<or> ps_stopped p then (Inl PersistStarted, p)
      else case rows of
        None \<Rightarrow> (Inl PersistList, p)
      | Some values \<Rightarrow>
          (case restore_latest values (ps_memory p) of
             (Inl e, m) \<Rightarrow> (Inl (PersistRestore e), p\<lparr>ps_memory := m\<rparr>)
           | (Inr u, m) \<Rightarrow> (Inr (), p\<lparr>ps_memory := m, ps_started := True\<rparr>)))"

definition persistent_stop :: "persistent_store \<Rightarrow> persistent_store" where
  "persistent_stop p = (if \<not> ps_started p then p else p\<lparr>ps_stopped := True\<rparr>)"

definition persistent_put ::
  "gotime \<Rightarrow> tag_value \<Rightarrow> persistent_store \<Rightarrow> (persist_error + tag_value) \<times> persistent_store" where
  "persistent_put now value p =
     (if \<not> ps_started p then (Inl PersistNotReady, p)
      else if ps_stopped p then (Inl PersistStopped, p)
      else case value_store_put now value (ps_memory p) of
        (Inl e, m) \<Rightarrow> (Inl (PersistPut e), p\<lparr>ps_memory := m\<rparr>)
      | (Inr stored, m) \<Rightarrow>
          (Inr stored, p\<lparr>ps_memory := m, ps_pending := (ps_pending p)(tv_tag_id stored \<mapsto> stored),
             ps_wake := (case chan_offer () (ps_wake p) of Some c \<Rightarrow> c | None \<Rightarrow> ps_wake p)\<rparr>))"

text \<open>\<open>takePending\<close> (the map is visited in the order \<open>ord\<close>) and the sort of \<open>flush\<close>.\<close>

definition take_pending :: "uuid list \<Rightarrow> persistent_store \<Rightarrow> persistent_store" where
  "take_pending ord p = p\<lparr>
     ps_flight := sort_key tv_sequence (List.map_filter (ps_pending p) ord),
     ps_pending := ps_pending p |` (- set ord)\<rparr>"

definition requeue :: "tag_value \<Rightarrow> persistent_store \<Rightarrow> persistent_store" where
  "requeue value p =
     (case ps_pending p (tv_tag_id value) of
        None \<Rightarrow> p\<lparr>ps_pending := (ps_pending p)(tv_tag_id value \<mapsto> value)\<rparr>
      | Some current \<Rightarrow>
          if tv_sequence current < tv_sequence value
          then p\<lparr>ps_pending := (ps_pending p)(tv_tag_id value \<mapsto> value)\<rparr> else p)"

definition report_error :: "uuid \<times> 64 word \<Rightarrow> persistent_store \<Rightarrow> persistent_store" where
  "report_error e p = p\<lparr>ps_errors := (case chan_offer e (ps_errors p) of Some c \<Rightarrow> c | None \<Rightarrow> ps_errors p)\<rparr>"

text \<open>
  One iteration of the loop of \<open>flush\<close>; \<open>ok\<close> is the answer of the database, which refuses the
  value of a tag it does not know (the foreign key).
\<close>

definition flush_one :: "bool \<Rightarrow> persistent_store \<Rightarrow> persistent_store" where
  "flush_one ok p =
     (case ps_flight p of
        [] \<Rightarrow> p
      | value # values \<Rightarrow>
          let p = p\<lparr>ps_flight := values\<rparr>
          in if ok \<and> ps_tags p (tv_tag_id value) \<noteq> None then p\<lparr>ps_repository := repository_upsert value (ps_repository p)\<rparr>
             else report_error (tv_tag_id value, tv_sequence value) (requeue value p))"

definition pending_count :: "persistent_store \<Rightarrow> nat" where
  "pending_count p = card (dom (ps_pending p))"

section \<open>Invariant: the latest value is never lost\<close>

text \<open>The copies of a tag's values outside the memory.\<close>

definition known_copy :: "persistent_store \<Rightarrow> tag_value \<Rightarrow> bool" where
  "known_copy p w \<longleftrightarrow>
     ps_repository p (tv_tag_id w) = Some w \<or> ps_pending p (tv_tag_id w) = Some w \<or> w \<in> set (ps_flight p)"

definition rows_ok :: "(uuid \<rightharpoonup> tag_value) \<Rightarrow> bool" where
  "rows_ok repo \<longleftrightarrow> (\<forall>tag w. repo tag = Some w \<longrightarrow>
     tv_tag_id w = tag \<and> tag_value_ok w \<and> 0 < tv_sequence w \<and> tv_stored_at w \<noteq> 0)"

text \<open>\<open>tags0\<close> and \<open>repo0\<close> are the tags and the rows the process found when it started.\<close>

definition newest_or_same :: "persistent_store \<Rightarrow> tag_value \<Rightarrow> bool" where
  "newest_or_same p w \<longleftrightarrow> (\<exists>v. vs_latest (ps_memory p) (tv_tag_id w) = Some v \<and> (tv_sequence w < tv_sequence v \<or> w = v))"

definition stale_at_start :: "(uuid \<rightharpoonup> data_type) \<Rightarrow> (uuid \<rightharpoonup> tag_value) \<Rightarrow> tag_value \<Rightarrow> bool" where
  "stale_at_start tags0 repo0 w \<longleftrightarrow> repo0 (tv_tag_id w) = Some w \<and> stale_row tags0 w"

text \<open>A stale row that is still there keeps a value with no higher sequence out of the table.\<close>

definition shadowed :: "(uuid \<rightharpoonup> data_type) \<Rightarrow> (uuid \<rightharpoonup> tag_value) \<Rightarrow> persistent_store \<Rightarrow> tag_value \<Rightarrow> bool" where
  "shadowed tags0 repo0 p v \<longleftrightarrow>
     (\<exists>w. stale_at_start tags0 repo0 w \<and> ps_repository p (tv_tag_id v) = Some w \<and> tv_sequence v \<le> tv_sequence w)"

definition live_copy :: "persistent_store \<Rightarrow> tag_value \<Rightarrow> bool" where
  "live_copy p w \<longleftrightarrow> ps_pending p (tv_tag_id w) = Some w \<or> w \<in> set (ps_flight p)"

lemma known_copy_live: "known_copy p w \<longleftrightarrow> ps_repository p (tv_tag_id w) = Some w \<or> live_copy p w"
  by (simp add: known_copy_def live_copy_def)

definition persistent_inv :: "(uuid \<rightharpoonup> data_type) \<Rightarrow> (uuid \<rightharpoonup> tag_value) \<Rightarrow> persistent_store \<Rightarrow> bool" where
  "persistent_inv tags0 repo0 p \<longleftrightarrow>
     value_store_inv (ps_memory p) \<and>
     (\<forall>tag w. ps_repository p tag = Some w \<longrightarrow> tv_tag_id w = tag) \<and>
     (\<forall>tag w. ps_pending p tag = Some w \<longrightarrow> tv_tag_id w = tag) \<and>
     (if ps_started p
      then (\<forall>tag v. vs_latest (ps_memory p) tag = Some v \<longrightarrow>
             known_copy p v \<or> ps_tags p tag = None \<or> shadowed tags0 repo0 p v) \<and>
           (\<forall>w. live_copy p w \<longrightarrow> newest_or_same p w) \<and>
           (\<forall>tag w. ps_repository p tag = Some w \<longrightarrow> newest_or_same p w \<or> stale_at_start tags0 repo0 w)
      else ps_memory p = new_value_store \<and> ps_repository p = repo0 \<and> ps_tags p = tags0 \<and> rows_ok repo0 \<and>
           ps_pending p = Map.empty \<and> ps_flight p = [])"

lemma persistent_invI:
  assumes "value_store_inv (ps_memory p)" and "ps_started p"
    and "\<And>tag w. ps_repository p tag = Some w \<Longrightarrow> tv_tag_id w = tag"
    and "\<And>tag w. ps_pending p tag = Some w \<Longrightarrow> tv_tag_id w = tag"
    and "\<And>tag v. vs_latest (ps_memory p) tag = Some v \<Longrightarrow>
       known_copy p v \<or> ps_tags p tag = None \<or> shadowed tags0 repo0 p v"
    and "\<And>w. live_copy p w \<Longrightarrow> newest_or_same p w"
    and "\<And>tag w. ps_repository p tag = Some w \<Longrightarrow> newest_or_same p w \<or> stale_at_start tags0 repo0 w"
  shows "persistent_inv tags0 repo0 p"
  unfolding persistent_inv_def using assms by simp

lemma persistent_inv_started:
  assumes "persistent_inv tags0 repo0 p" and "ps_started p"
  shows "vs_latest (ps_memory p) tag = Some v \<Longrightarrow>
       known_copy p v \<or> ps_tags p tag = None \<or> shadowed tags0 repo0 p v"
    and "live_copy p w \<Longrightarrow> newest_or_same p w"
    and "ps_repository p tag = Some w \<Longrightarrow> newest_or_same p w \<or> stale_at_start tags0 repo0 w"
  using assms by (simp_all add: persistent_inv_def)

text \<open>
  What happens to a running store: calls, the steps of the background goroutine, and the tags that
  are saved and deleted meanwhile; the process starts the store before it serves requests, and the
  identifier of a new tag was never used.
\<close>

definition unused_tag :: "uuid \<Rightarrow> persistent_store \<Rightarrow> bool" where
  "unused_tag tag p \<longleftrightarrow> vs_latest (ps_memory p) tag = None"

definition save_tag :: "uuid \<Rightarrow> data_type \<Rightarrow> persistent_store \<Rightarrow> persistent_store" where
  "save_tag tag d p = p\<lparr>ps_tags := (ps_tags p)(tag \<mapsto> d)\<rparr>"

definition delete_tag_rows :: "uuid \<Rightarrow> persistent_store \<Rightarrow> persistent_store" where
  "delete_tag_rows tag p = p\<lparr>ps_tags := (ps_tags p)(tag := None), ps_repository := (ps_repository p)(tag := None)\<rparr>"

inductive persistent_step :: "persistent_store \<Rightarrow> persistent_store \<Rightarrow> bool" where
  ps_start: "list_latest p values \<Longrightarrow> persistent_step p (snd (persistent_start (Some values) p))"
| ps_start_failed: "persistent_step p (snd (persistent_start None p))"
| ps_stop: "persistent_step p (persistent_stop p)"
| ps_put: "gval_ok (tv_value v) \<Longrightarrow> vs_sequence (ps_memory p) \<noteq> - 1 \<Longrightarrow>
     persistent_step p (snd (persistent_put now v p))"
| ps_take: "ps_started p \<Longrightarrow> ps_flight p = [] \<Longrightarrow> dom (ps_pending p) \<subseteq> set ord \<Longrightarrow> distinct ord \<Longrightarrow>
     persistent_step p (take_pending ord p)"
| ps_flush: "persistent_step p (flush_one ok p)"
| ps_save_tag: "ps_started p \<Longrightarrow> ps_tags p tag \<noteq> None \<or> unused_tag tag p \<Longrightarrow> persistent_step p (save_tag tag d p)"
| ps_delete_tag: "ps_started p \<Longrightarrow> persistent_step p (delete_tag_rows tag p)"

inductive_cases persistent_stepE: "persistent_step p q"

lemma tag_value_ok_gval: "tag_value_ok v \<Longrightarrow> gval_ok (tv_value v)"
proof -
  have "has_data_type d x \<Longrightarrow> gval_ok x" for d x by (cases d) auto
  then show "tag_value_ok v \<Longrightarrow> gval_ok (tv_value v)" by (auto simp: tag_value_ok_def)
qed

lemma latest_tag: "value_store_inv s \<Longrightarrow> vs_latest s tag = Some v \<Longrightarrow> tv_tag_id v = tag \<and> tv_sequence v \<le> vs_sequence s"
proof -
  assume "value_store_inv s" "vs_latest s tag = Some v"
  then have "tag_entry_ok (vs_sequence s) tag v (history_of s tag)"
    by (simp add: value_store_inv_def entries_ok_def)
  then show ?thesis unfolding tag_entry_ok_def by (metis last_in_set)
qed

lemma persistent_start_inv [edge_inv]:
  assumes "persistent_inv tags0 repo0 p" and "list_latest p values"
  shows "persistent_inv tags0 repo0 (snd (persistent_start (Some values) p))"
proof (cases "ps_started p \<or> ps_stopped p")
  case True
  then show ?thesis using assms(1) by (simp add: persistent_start_def)
next
  case False
  with assms(1) have mem: "ps_memory p = new_value_store" and start: "ps_repository p = repo0" "ps_tags p = tags0"
    and rows: "rows_ok repo0" and empty: "ps_pending p = Map.empty" "ps_flight p = []"
    by (simp_all add: persistent_inv_def)
  have listing: "distinct values" "set values = {w \<in> ran repo0. \<not> stale_row tags0 w}"
    using assms(2) by (simp_all add: list_latest_def start)
  have row: "tag_value_ok w \<and> tv_sequence w \<noteq> 0 \<and> tv_stored_at w \<noteq> 0 \<and> repo0 (tv_tag_id w) = Some w \<and> \<not> stale_row tags0 w"
    if "w \<in> set values" for w
    using that rows unfolding listing(2) by (auto simp: ran_def rows_ok_def word_gt_0)
  have dist: "distinct (map tv_tag_id values)"
    using listing(1) row by (auto simp: distinct_map inj_on_def) (metis option.inject)
  obtain m where m: "restore_latest values new_value_store = (Inr (), m)"
    and latest: "vs_latest m = map_of (map (\<lambda>v. (tv_tag_id v, v)) values)"
    using restore_entries_all [of "values" "[]"] row dist fold_restore_latest [OF dist, of new_value_store]
    by (auto simp: restore_latest_def new_value_store_def)
  have listed: "vs_latest m tag = Some w \<longleftrightarrow> repo0 tag = Some w \<and> \<not> stale_row tags0 w" for tag w
  proof
    assume "vs_latest m tag = Some w"
    then have "w \<in> set values" and "tv_tag_id w = tag"
      by (auto simp: latest dest!: map_of_SomeD)
    then show "repo0 tag = Some w \<and> \<not> stale_row tags0 w" using row by auto
  next
    assume w: "repo0 tag = Some w \<and> \<not> stale_row tags0 w"
    then have "w \<in> set values" and "tv_tag_id w = tag"
      using rows by (auto simp: listing(2) ran_def rows_ok_def)
    then have "(tag, w) \<in> set (map (\<lambda>v. (tv_tag_id v, v)) values)" by (auto simp: image_iff)
    then show "vs_latest m tag = Some w" using dist by (simp add: latest comp_def map_of_is_SomeI)
  qed
  have "\<forall>w \<in> set values. gval_ok (tv_value w)" using row tag_value_ok_gval by blast
  then have "value_store_inv (snd (restore_latest values new_value_store))"
    by (intro restore_inv value_store.inv_init refl)
  then have "value_store_inv m" by (simp only: m snd_conv)
  moreover have "snd (persistent_start (Some values) p) = p\<lparr>ps_memory := m, ps_started := True\<rparr>"
    using False mem m by (simp add: persistent_start_def)
  moreover have id: "repo0 tag = Some w \<Longrightarrow> tv_tag_id w = tag" for tag w using rows by (simp add: rows_ok_def)
  moreover have "newest_or_same (p\<lparr>ps_memory := m, ps_started := True\<rparr>) w \<or> stale_at_start tags0 repo0 w"
    if "repo0 tag = Some w" for tag w
    using that id [OF that] listed [of tag w] by (auto simp: newest_or_same_def stale_at_start_def)
  ultimately show ?thesis
    using empty id unfolding persistent_inv_def by (auto simp add: start listed known_copy_def live_copy_def)
qed

lemma persistent_start_failed_inv [edge_inv]:
  "persistent_inv tags0 repo0 p \<Longrightarrow> persistent_inv tags0 repo0 (snd (persistent_start None p))"
  by (simp add: persistent_start_def)

lemma persistent_inv_other [simp]:
  "persistent_inv tags0 repo0 (p\<lparr>ps_stopped := b\<rparr>) = persistent_inv tags0 repo0 p"
  "persistent_inv tags0 repo0 (p\<lparr>ps_errors := c\<rparr>) = persistent_inv tags0 repo0 p"
  "persistent_inv tags0 repo0 (p\<lparr>ps_wake := d\<rparr>) = persistent_inv tags0 repo0 p"
  by (simp_all add: persistent_inv_def known_copy_def live_copy_def shadowed_def newest_or_same_def)

lemma persistent_stop_inv [edge_inv]: "persistent_inv tags0 repo0 p \<Longrightarrow> persistent_inv tags0 repo0 (persistent_stop p)"
  by (simp add: persistent_stop_def)

lemma save_tag_inv [edge_inv]:
  assumes inv: "persistent_inv tags0 repo0 p" and "ps_started p" and "ps_tags p tag \<noteq> None \<or> unused_tag tag p"
  shows "persistent_inv tags0 repo0 (save_tag tag d p)"
proof -
  have same: "known_copy (save_tag tag d p) = known_copy p" "live_copy (save_tag tag d p) = live_copy p"
    "shadowed tags0 repo0 (save_tag tag d p) = shadowed tags0 repo0 p" "newest_or_same (save_tag tag d p) = newest_or_same p"
    by (simp_all add: save_tag_def known_copy_def live_copy_def shadowed_def newest_or_same_def fun_eq_iff)
  have "known_copy p v \<or> ps_tags (save_tag tag d p) t = None \<or> shadowed tags0 repo0 p v"
    if l: "vs_latest (ps_memory p) t = Some v" for t v
  proof (cases "t = tag")
    case True
    then have "ps_tags p t \<noteq> None" using assms(3) l by (auto simp: unused_tag_def)
    then show ?thesis using persistent_inv_started(1) [OF inv assms(2) l] by (auto simp: save_tag_def)
  next
    case False
    then have "ps_tags (save_tag tag d p) t = ps_tags p t" by (simp add: save_tag_def)
    then show ?thesis using persistent_inv_started(1) [OF inv assms(2) l] by simp
  qed
  moreover have "ps_memory (save_tag tag d p) = ps_memory p" "ps_repository (save_tag tag d p) = ps_repository p"
    "ps_pending (save_tag tag d p) = ps_pending p" "ps_started (save_tag tag d p) = ps_started p"
    by (simp_all add: save_tag_def)
  ultimately show ?thesis using inv assms(2) unfolding persistent_inv_def same by simp
qed

lemma delete_rows_inv [edge_inv]:
  assumes inv: "persistent_inv tags0 repo0 p" and "ps_started p"
  shows "persistent_inv tags0 repo0 (delete_tag_rows tag p)"
proof -
  have same: "live_copy (delete_tag_rows tag p) = live_copy p" "newest_or_same (delete_tag_rows tag p) = newest_or_same p"
    by (simp_all add: delete_tag_rows_def live_copy_def newest_or_same_def fun_eq_iff)
  have other: "known_copy p v \<Longrightarrow> tv_tag_id v \<noteq> tag \<Longrightarrow> known_copy (delete_tag_rows tag p) v"
    "shadowed tags0 repo0 p v \<Longrightarrow> tv_tag_id v \<noteq> tag \<Longrightarrow> shadowed tags0 repo0 (delete_tag_rows tag p) v" for v
    by (auto simp: delete_tag_rows_def known_copy_def shadowed_def)
  have "vs_latest (ps_memory p) t = Some v \<Longrightarrow> tv_tag_id v = t" for t v
    using inv latest_tag by (auto simp: persistent_inv_def)
  then show ?thesis using assms unfolding persistent_inv_def same
    by (simp add: delete_tag_rows_def del: fun_upd_apply) (metis other fun_upd_apply option.distinct(1) delete_tag_rows_def)
qed

lemma persistent_put_inv [edge_inv]:
  assumes "persistent_inv tags0 repo0 p" and "gval_ok (tv_value v)" and "vs_sequence (ps_memory p) \<noteq> - 1"
  shows "persistent_inv tags0 repo0 (snd (persistent_put now v p))"
proof (cases "ps_started p \<and> \<not> ps_stopped p")
  case False
  then show ?thesis using assms(1) by (auto simp: persistent_put_def)
next
  case True
  note inv = assms(1) [unfolded persistent_inv_def]
  obtain res m where put: "value_store_put now v (ps_memory p) = (res, m)" by fastforce
  have m_inv: "value_store_inv m"
    using put_inv [of "ps_memory p" v now] inv assms(2,3) put by simp
  note eff = value_store_put_facts [where s = "ps_memory p" and now = now and v = v, unfolded put]
  show ?thesis
  proof (cases res)
    case (Inl e)
    then show ?thesis using True eff assms(1) inv put by (simp add: persistent_put_def)
  next
    case (Inr w)
    have w: "vs_latest m = (vs_latest (ps_memory p))(tv_tag_id v \<mapsto> w)"
      "tv_sequence w = vs_sequence (ps_memory p) + 1"
      using eff inv Inr by simp_all
    have wid: "tv_tag_id w = tv_tag_id v"
      using latest_tag [OF m_inv, of "tv_tag_id v" w] w(1) by simp
    define q where "q = snd (persistent_put now v p)"
    have q: "q = p\<lparr>ps_memory := m, ps_pending := (ps_pending p)(tv_tag_id w \<mapsto> w),
       ps_wake := (case chan_offer () (ps_wake p) of Some c \<Rightarrow> c | None \<Rightarrow> ps_wake p)\<rparr>"
      using True put Inr by (simp add: q_def persistent_put_def)
    have newer: "newest_or_same q u" if k: "newest_or_same p u" for u
    proof -
      obtain x where x: "vs_latest (ps_memory p) (tv_tag_id u) = Some x" "tv_sequence u < tv_sequence x \<or> u = x"
        using k by (auto simp: newest_or_same_def)
      then have "tv_sequence u \<le> vs_sequence (ps_memory p)"
        using latest_tag [of "ps_memory p" "tv_tag_id u" x] inv by auto
      then have "tv_sequence u < tv_sequence w" unfolding w(2) by (rule word_le_less_succ [OF _ assms(3)])
      then show ?thesis using x by (cases "tv_tag_id u = tv_tag_id v") (auto simp: newest_or_same_def q w(1))
    qed
    have cover: "known_copy q u \<or> ps_tags q tag = None \<or> shadowed tags0 repo0 q u" if "vs_latest m tag = Some u" for tag u
    proof (cases "tag = tv_tag_id v")
      case False
      with that w(1) have l: "vs_latest (ps_memory p) tag = Some u" by simp
      then have "known_copy p u \<or> ps_tags p tag = None \<or> shadowed tags0 repo0 p u" and "tv_tag_id u = tag"
        using inv True latest_tag by auto
      then show ?thesis using False wid by (auto simp: known_copy_def shadowed_def q)
    qed (use that w(1) wid in \<open>simp add: known_copy_def q\<close>)
    have live: "newest_or_same q u" if "live_copy q u" for u
    proof (cases "u = w")
      case False
      with that have "live_copy p u" by (auto simp: live_copy_def q split: if_splits)
      then show ?thesis using newer inv True by auto
    qed (use w(1) wid in \<open>simp add: newest_or_same_def q\<close>)
    have repo: "newest_or_same q u \<or> stale_at_start tags0 repo0 u" if "ps_repository q tag = Some u" for tag u
    proof -
      have "ps_repository p tag = Some u" using that by (simp add: q)
      then have "newest_or_same p u \<or> stale_at_start tags0 repo0 u" using persistent_inv_started(3) [OF assms(1)] True by blast
      then show ?thesis using newer by blast
    qed
    have fields: "value_store_inv (ps_memory q)" "ps_started q" "ps_memory q = m"
      using m_inv True by (simp_all add: q)
    have "tv_tag_id u = tag" if "ps_repository q tag = Some u" for tag u using inv that by (auto simp: q)
    moreover have "tv_tag_id u = tag" if "ps_pending q tag = Some u" for tag u
      using inv that by (auto simp: q split: if_splits)
    ultimately show ?thesis unfolding q_def [symmetric]
      by (intro persistent_invI fields) (use cover live repo in \<open>simp_all add: fields\<close>)
  qed
qed

lemma take_pending_inv [edge_inv]:
  assumes "persistent_inv tags0 repo0 p" and "ps_started p" and "ps_flight p = []"
    and "dom (ps_pending p) \<subseteq> set ord"
  shows "persistent_inv tags0 repo0 (take_pending ord p)"
proof -
  note inv = assms(1) [unfolded persistent_inv_def]
  have ids: "tv_tag_id w = tag" if "ps_pending p tag = Some w" for tag w using inv that by blast
  have "set (ps_flight (take_pending ord p)) = {w. ps_pending p (tv_tag_id w) = Some w}"
    using assms(4) ids by (auto simp: take_pending_def set_map_filter)
  moreover have none: "ps_pending (take_pending ord p) = Map.empty"
    using assms(4) by (auto simp: take_pending_def restrict_map_def fun_eq_iff dom_def)
  ultimately have copies: "known_copy (take_pending ord p) = known_copy p" "live_copy (take_pending ord p) = live_copy p"
    using assms(3) by (auto simp: known_copy_def live_copy_def fun_eq_iff take_pending_def)
  have same: "ps_memory (take_pending ord p) = ps_memory p" "ps_tags (take_pending ord p) = ps_tags p"
    "ps_repository (take_pending ord p) = ps_repository p" "ps_started (take_pending ord p) = ps_started p"
    by (simp_all add: take_pending_def)
  have views: "newest_or_same (take_pending ord p) = newest_or_same p"
    "shadowed tags0 repo0 (take_pending ord p) = shadowed tags0 repo0 p"
    by (simp_all add: newest_or_same_def shadowed_def same fun_eq_iff)
  show ?thesis using inv assms(2) none unfolding persistent_inv_def copies same views by simp
qed

text \<open>
  One write of the flush. The value leaves the flight; it is in the table when the write
  succeeded, unless the table has a newer one, and pending again when it failed, unless a
  newer one is pending.
\<close>

lemma flush_one_parts:
  assumes "ps_flight p = w # ws"
  shows "ps_memory (flush_one ok p) = ps_memory p" "ps_started (flush_one ok p) = ps_started p"
    "ps_tags (flush_one ok p) = ps_tags p" "ps_flight (flush_one ok p) = ws"
    "ps_repository (flush_one ok p) =
       (if ok \<and> ps_tags p (tv_tag_id w) \<noteq> None then repository_upsert w (ps_repository p) else ps_repository p)"
    "ps_pending (flush_one ok p) =
       (if ok \<and> ps_tags p (tv_tag_id w) \<noteq> None then ps_pending p
        else case ps_pending p (tv_tag_id w) of
          None \<Rightarrow> (ps_pending p)(tv_tag_id w \<mapsto> w)
        | Some c \<Rightarrow> if tv_sequence c < tv_sequence w then (ps_pending p)(tv_tag_id w \<mapsto> w) else ps_pending p)"
  using assms by (auto simp: flush_one_def report_error_def requeue_def Let_def split: option.splits)

lemma flush_one_copies:
  assumes "ps_flight p = w # ws"
  shows "live_copy (flush_one ok p) u \<Longrightarrow> live_copy p u"
    and "ps_repository (flush_one ok p) tag = Some u \<Longrightarrow> ps_repository p tag = Some u \<or> u = w \<and> tag = tv_tag_id w"
  using assms unfolding live_copy_def flush_one_parts [OF assms]
  by (auto simp: repository_upsert_def split: if_splits option.splits)

lemma flush_one_keeps:
  assumes flight: "ps_flight p = w # ws" and v: "known_copy p v \<or> shadowed tags0 repo0 p v"
    and newest: "\<And>u. live_copy p u \<Longrightarrow> tv_tag_id u = tv_tag_id v \<Longrightarrow> tv_sequence u < tv_sequence v \<or> u = v"
    and repo: "\<And>u. ps_repository p (tv_tag_id v) = Some u \<Longrightarrow>
      tv_sequence u < tv_sequence v \<or> u = v \<or> stale_at_start tags0 repo0 u"
    and pend: "\<And>tag u. ps_pending p tag = Some u \<Longrightarrow> tv_tag_id u = tag"
  shows "known_copy (flush_one ok p) v \<or> shadowed tags0 repo0 (flush_one ok p) v"
proof -
  note parts = flush_one_parts [OF flight, of ok]
  have w: "tv_tag_id w = tv_tag_id v \<Longrightarrow> tv_sequence w < tv_sequence v \<or> w = v"
    by (rule newest) (simp_all add: live_copy_def flight)
  have q: "ps_pending p (tv_tag_id v) = Some u \<Longrightarrow> tv_sequence u < tv_sequence v \<or> u = v" for u
    using newest [of u] pend [of "tv_tag_id v" u] by (simp add: live_copy_def)
  show ?thesis
  proof (cases "ok \<and> ps_tags p (tv_tag_id w) \<noteq> None")
    case True
    have r: "ps_repository (flush_one ok p) = repository_upsert w (ps_repository p)"
      "ps_pending (flush_one ok p) = ps_pending p"
      unfolding parts if_P [OF True] by (rule refl)+
    consider "shadowed tags0 repo0 p v" | "ps_repository p (tv_tag_id v) = Some v" | "ps_pending p (tv_tag_id v) = Some v"
      | "v \<in> set ws" | "v = w"
      using v flight by (auto simp: known_copy_def)
    then show ?thesis
    proof cases
      case 1
      then obtain u where u: "stale_at_start tags0 repo0 u" "ps_repository p (tv_tag_id v) = Some u" "tv_sequence v \<le> tv_sequence u"
        by (auto simp: shadowed_def)
      then have "ps_repository (flush_one ok p) (tv_tag_id v) = Some u"
        using w by (auto simp: r repository_upsert_def split: option.splits)
      then show ?thesis using u by (auto simp: shadowed_def)
    next
      case 2
      then have "ps_repository (flush_one ok p) (tv_tag_id v) = Some v"
        using w by (auto simp: r repository_upsert_def split: option.splits)
      then show ?thesis by (simp add: known_copy_def)
    next
      case 5
      show ?thesis
      proof (cases "ps_repository p (tv_tag_id v)")
        case (Some u)
        then show ?thesis using repo [OF Some] 5
          by (auto simp: r repository_upsert_def known_copy_def shadowed_def split: if_splits)
      qed (simp add: r repository_upsert_def known_copy_def 5)
    qed (simp_all add: known_copy_def parts(4) r)
  next
    case False
    then have r: "ps_repository (flush_one ok p) = ps_repository p" by (simp only: parts if_False)
    have pd: "ps_pending (flush_one ok p) = (case ps_pending p (tv_tag_id w) of
          None \<Rightarrow> (ps_pending p)(tv_tag_id w \<mapsto> w)
        | Some c \<Rightarrow> if tv_sequence c < tv_sequence w then (ps_pending p)(tv_tag_id w \<mapsto> w) else ps_pending p)"
      using False by (simp only: parts if_False)
    have "ps_pending (flush_one ok p) (tv_tag_id v) = Some v" if "ps_pending p (tv_tag_id v) = Some v \<or> v = w"
      using that w q by (auto simp: pd split: option.splits)
    then show ?thesis using v flight by (auto simp: known_copy_def shadowed_def parts(4) r)
  qed
qed

lemma flush_one_inv [edge_inv]:
  assumes "persistent_inv tags0 repo0 p"
  shows "persistent_inv tags0 repo0 (flush_one ok p)"
proof (cases "ps_flight p")
  case Nil
  then show ?thesis using assms by (simp add: flush_one_def)
next
  case (Cons w ws)
  note inv = assms [unfolded persistent_inv_def] and parts = flush_one_parts [OF Cons, of ok]
  have started: "ps_started p" using inv Cons by (auto split: if_splits)
  then have live: "live_copy p u \<Longrightarrow> newest_or_same p u"
    and rows: "ps_repository p tag = Some u \<Longrightarrow> newest_or_same p u \<or> stale_at_start tags0 repo0 u"
    and cov: "vs_latest (ps_memory p) tag = Some u \<Longrightarrow> known_copy p u \<or> ps_tags p tag = None \<or> shadowed tags0 repo0 p u"
    for u tag using inv by simp_all
  have repo: "ps_repository p tag = Some u \<Longrightarrow> tv_tag_id u = tag"
    and pend: "ps_pending p tag = Some u \<Longrightarrow> tv_tag_id u = tag" for tag u using inv by blast+
  have w: "live_copy p w" using Cons by (simp add: live_copy_def)
  have same: "newest_or_same (flush_one ok p) = newest_or_same p" by (simp add: newest_or_same_def parts fun_eq_iff)
  have repo': "tv_tag_id u = tag \<and> (newest_or_same p u \<or> stale_at_start tags0 repo0 u)"
    if "ps_repository (flush_one ok p) tag = Some u" for tag u
    using flush_one_copies(2) [OF Cons that] repo rows live [OF w] by blast
  have pend': "ps_pending (flush_one ok p) tag = Some u \<Longrightarrow> tv_tag_id u = tag" for tag u
    using pend unfolding parts by (auto split: if_splits option.splits)
  have cover: "known_copy (flush_one ok p) v \<or> ps_tags p tag = None \<or> shadowed tags0 repo0 (flush_one ok p) v"
    if l: "vs_latest (ps_memory p) tag = Some v" for tag v
  proof (cases "ps_tags p tag = None")
    case False
    have id: "tv_tag_id v = tag" using latest_tag inv l by blast
    have above: "tv_sequence u < tv_sequence v \<or> u = v" if "newest_or_same p u" "tv_tag_id u = tag" for u
      using that l by (auto simp: newest_or_same_def)
    have "known_copy (flush_one ok p) v \<or> shadowed tags0 repo0 (flush_one ok p) v"
    proof (rule flush_one_keeps [OF Cons])
      show "known_copy p v \<or> shadowed tags0 repo0 p v" using cov [OF l] False by blast
      show "live_copy p u \<Longrightarrow> tv_tag_id u = tv_tag_id v \<Longrightarrow> tv_sequence u < tv_sequence v \<or> u = v" for u
        using live above id by simp
      show "ps_repository p (tv_tag_id v) = Some u \<Longrightarrow> tv_sequence u < tv_sequence v \<or> u = v \<or> stale_at_start tags0 repo0 u" for u
        using rows repo above id by blast
    qed (use pend in auto)
    then show ?thesis by blast
  qed simp
  have live': "live_copy (flush_one ok p) u \<Longrightarrow> newest_or_same p u" for u
    using flush_one_copies(1) [OF Cons] live by blast
  show ?thesis unfolding persistent_inv_def same parts(1-3)
    using inv started cover live' repo' pend' by simp
qed

interpretation persistent: invariant_system
  "\<lambda>p. rows_ok repo0 \<and> p = new_persistent_store tags0 repo0" persistent_step "persistent_inv tags0 repo0"
  for tags0 repo0
proof unfold_locales
  fix p assume "rows_ok repo0 \<and> p = new_persistent_store tags0 repo0"
  then show "persistent_inv tags0 repo0 p"
    by (auto simp: new_persistent_store_def persistent_inv_def value_store.inv_init rows_ok_def)
next
  fix p q assume "persistent_inv tags0 repo0 p" "persistent_step p q"
  then show "persistent_inv tags0 repo0 q"
    by (elim persistent_stepE) (auto simp: edge_inv)
qed

text \<open>
  C7: write-behind loses the latest value of a tag in one case only. In every reachable state of a
  started store the latest value of each existing tag is in the table, pending, or being written,
  whatever writes fail, however puts, flushes and a stop interleave and whatever tags are saved or
  deleted meanwhile, unless the table still has the row that the start did not list because the
  tag's data type had changed, and that row's sequence is not below the value's. Once nothing is
  pending or in flight the table agrees with the memory on every existing tag without such a row.
\<close>

theorem persistent_store_no_loss:
  assumes "reachable (\<lambda>p. rows_ok repo0 \<and> p = new_persistent_store tags0 repo0) persistent_step p"
    and "ps_started p"
  shows "(\<forall>tag v. vs_latest (ps_memory p) tag = Some v \<and> ps_tags p tag \<noteq> None \<longrightarrow>
      known_copy p v \<or>
      (\<exists>w. repo0 tag = Some w \<and> stale_row tags0 w \<and> ps_repository p tag = Some w \<and> tv_sequence v \<le> tv_sequence w)) \<and>
    (pending_count p = 0 \<and> finite (dom (ps_pending p)) \<and> ps_flight p = [] \<longrightarrow>
       (\<forall>tag. ps_tags p tag \<noteq> None \<longrightarrow> ps_repository p tag = vs_latest (ps_memory p) tag \<or>
          (\<exists>w. repo0 tag = Some w \<and> stale_row tags0 w \<and> ps_repository p tag = Some w)))"
proof -
  note inv = persistent.reachable_inv [OF assms(1), unfolded persistent_inv_def]
  have id: "tv_tag_id v = tag" if "vs_latest (ps_memory p) tag = Some v" for tag v
    using inv latest_tag that by blast
  have cover: "known_copy p v \<or>
      (\<exists>w. repo0 tag = Some w \<and> stale_row tags0 w \<and> ps_repository p tag = Some w \<and> tv_sequence v \<le> tv_sequence w)"
    if "vs_latest (ps_memory p) tag = Some v" "ps_tags p tag \<noteq> None" for tag v
  proof (cases "known_copy p v")
    case False
    then have "shadowed tags0 repo0 p v"
      using persistent_inv_started(1) [OF persistent.reachable_inv [OF assms(1)] assms(2) that(1)] that(2) by blast
    moreover have "tv_tag_id v = tag" by (rule id [OF that(1)])
    ultimately obtain w where "stale_at_start tags0 repo0 w" "ps_repository p tag = Some w" "tv_sequence v \<le> tv_sequence w"
      by (auto simp: shadowed_def)
    moreover have "tv_tag_id w = tag" using inv \<open>ps_repository p tag = Some w\<close> by blast
    ultimately show ?thesis by (auto simp: stale_at_start_def)
  qed simp
  have "ps_repository p tag = vs_latest (ps_memory p) tag \<or>
      (\<exists>w. repo0 tag = Some w \<and> stale_row tags0 w \<and> ps_repository p tag = Some w)"
    if none: "ps_pending p = Map.empty" "ps_flight p = []" and tag: "ps_tags p tag \<noteq> None" for tag
  proof (cases "vs_latest (ps_memory p) tag")
    case (Some v)
    then show ?thesis using cover [OF Some tag] none id [OF Some] by (auto simp: known_copy_def)
  next
    case None
    have "\<not> newest_or_same p w" if "tv_tag_id w = tag" for w using None that by (simp add: newest_or_same_def)
    moreover have "tv_tag_id w = tag \<and> (newest_or_same p w \<or> stale_at_start tags0 repo0 w)"
      if "ps_repository p tag = Some w" for w
      using inv that persistent_inv_started(3) [OF persistent.reachable_inv [OF assms(1)] assms(2) that] by blast
    ultimately show ?thesis using None by (cases "ps_repository p tag") (auto simp: stale_at_start_def)
  qed
  then show ?thesis using cover by (auto simp: pending_count_def)
qed

theorem persistent_store_no_loss_witness:
  "known_copy (snd (persistent_put 9 sample_value (snd (persistent_start (Some []) (new_persistent_store [7 \<mapsto> DTBool] Map.empty)))))
     (sample_value\<lparr>tv_sequence := 1, tv_stored_at := 9, tv_error := []\<rparr>)"
proof -
  let ?w = "sample_value\<lparr>tv_sequence := 1, tv_stored_at := 9, tv_error := []\<rparr>"
  define p0 where "p0 = new_persistent_store [7 \<mapsto> DTBool] Map.empty"
  define p1 where "p1 = snd (persistent_start (Some []) p0)"
  define p2 where "p2 = snd (persistent_put 9 sample_value p1)"
  have r0: "reachable (\<lambda>p. rows_ok Map.empty \<and> p = new_persistent_store [7 \<mapsto> DTBool] Map.empty) persistent_step p0"
    by (rule reachable_init) (auto simp: p0_def rows_ok_def)
  have "persistent_step p0 p1"
    unfolding p1_def by (rule ps_start) (simp add: p0_def new_persistent_store_def list_latest_def)
  note r1 = reachable_step [OF r0 this]
  have p1: "p1 = p0\<lparr>ps_started := True\<rparr>"
    by (simp add: p1_def p0_def new_persistent_store_def persistent_start_def restore_latest_def
        new_value_store_def)
  have "persistent_step p1 p2"
    unfolding p2_def by (rule ps_put)
      (simp_all add: p1 p0_def new_persistent_store_def new_value_store_def sample_value_def)
  note r2 = reachable_step [OF r1 this]
  have "vs_latest (ps_memory p2) 7 = Some ?w \<and> ps_started p2 \<and> ps_tags p2 7 \<noteq> None"
    by (simp add: p2_def p1 p0_def persistent_put_def new_persistent_store_def value_store_put_def
        store_value_def sample_value_def normalize_tag_value_def coerce_tag_value_def
        new_value_store_def Let_def)
  with persistent_store_no_loss [OF r2] show ?thesis
    unfolding p2_def p1_def p0_def by auto
qed

text \<open>
  The case does arise: the row of a tag whose type was changed is not restored, so the sequence
  starts below it, and the write of the new value succeeds without an effect.
\<close>

lemma changed_type_loses_value:
  fixes p3 :: persistent_store
  defines "old \<equiv> sample_value\<lparr>tv_sequence := 5, tv_stored_at := 3, tv_data_type := DTInt16, tv_value := VInt16 1, tv_error := []\<rparr>"
    and "new \<equiv> sample_value\<lparr>tv_sequence := 1, tv_stored_at := 9, tv_error := []\<rparr>"
  assumes "p1 = snd (persistent_start (Some []) (new_persistent_store [7 \<mapsto> DTBool] [7 \<mapsto> old]))"
    and "p2 = take_pending [7] (snd (persistent_put 9 sample_value p1))" and "p3 = flush_one True p2"
  shows "list_latest (new_persistent_store [7 \<mapsto> DTBool] [7 \<mapsto> old]) []"
    and "vs_latest (ps_memory p3) 7 = Some new \<and> \<not> known_copy p3 new"
proof -
  show "list_latest (new_persistent_store [7 \<mapsto> DTBool] [7 \<mapsto> old]) []"
    by (auto simp: list_latest_def new_persistent_store_def stale_row_def old_def sample_value_def)
  show "vs_latest (ps_memory p3) 7 = Some new \<and> \<not> known_copy p3 new"
    by (simp add: assms(1-5) persistent_start_def restore_latest_def take_pending_def flush_one_def repository_upsert_def
        persistent_put_def new_persistent_store_def value_store_put_def store_value_def sample_value_def
        normalize_tag_value_def coerce_tag_value_def new_value_store_def Let_def List.map_filter_simps known_copy_def)
qed

end
