(* ===== verification/Logger_Retention.thy ===== *)
theory Logger_Retention
  imports Batch_Broker
begin

text \<open>
  Which batches of a data logger's history are kept: \<open>selectRetention\<close> and \<open>retentionMetrics\<close> of
  \<open>internal/datalogger/postgres/history_repository.go\<close> over the data of \<open>retention.go\<close>. The code
  works on the indices of the accounting rows, newest first; the lemmas show what it keeps, and
  that removing the oldest candidates leaves the rest of the plan as it is. Byte counts are integers:
  the database bounds a history far below 2 to the 63 bytes.
\<close>

section \<open>Retention\<close>

record storage_policy =
  sp_max_size_bytes :: "int option"
  sp_max_age_seconds :: "int option"

record batch_storage =
  bs_batch_at :: gotime
  bs_row_count :: int
  bs_size_bytes :: int

record retention_metrics =
  rm_row_count :: int
  rm_batch_count :: int
  rm_size_bytes :: int
  rm_oldest :: "gotime option"
  rm_newest :: "gotime option"

record retention_plan =
  rp_evaluated_at :: gotime
  rp_cutoff_at :: "gotime option"
  rp_policy :: storage_policy
  rp_current :: retention_metrics
  rp_remove :: retention_metrics
  rp_retained :: retention_metrics

record retention_selection =
  sel_plan :: retention_plan
  sel_candidates :: "batch_storage list"

datatype history_error = HistInvalidRawBatch | HistInvalidInput | HistLoggerNotFound
  | HistTagNotSelected | HistStorageLimitTooSmall | HistBatchNotFound

definition max_retention_batch_limit :: nat where "max_retention_batch_limit = 10000"
definition default_retention_batch_limit :: nat where "default_retention_batch_limit = 1000"

definition add_batch_metrics :: "retention_metrics \<Rightarrow> batch_storage \<Rightarrow> retention_metrics" where
  "add_batch_metrics m b =
     \<lparr>rm_row_count = rm_row_count m + bs_row_count b, rm_batch_count = rm_batch_count m + 1,
      rm_size_bytes = rm_size_bytes m + bs_size_bytes b,
      rm_oldest = (case rm_oldest m of None \<Rightarrow> Some (bs_batch_at b)
                   | Some t \<Rightarrow> if bs_batch_at b < t then Some (bs_batch_at b) else Some t),
      rm_newest = (case rm_newest m of None \<Rightarrow> Some (bs_batch_at b)
                   | Some t \<Rightarrow> if bs_batch_at b > t then Some (bs_batch_at b) else Some t)\<rparr>"

definition retention_metrics_of :: "batch_storage list \<Rightarrow> retention_metrics" where
  "retention_metrics_of batches = foldl add_batch_metrics
     \<lparr>rm_row_count = 0, rm_batch_count = 0, rm_size_bytes = 0, rm_oldest = None, rm_newest = None\<rparr> batches"

text \<open>The three loops over the indices of the batches, newest first.\<close>

definition retention_cutoff :: "storage_policy \<Rightarrow> gotime \<Rightarrow> gotime option" where
  "retention_cutoff policy evaluated_at = map_option (\<lambda>age. evaluated_at - age * second) (sp_max_age_seconds policy)"

definition batch_expired :: "gotime option \<Rightarrow> batch_storage \<Rightarrow> bool" where
  "batch_expired cutoff b \<longleftrightarrow> (case cutoff of None \<Rightarrow> False | Some c \<Rightarrow> bs_batch_at b < c)"

definition expired_indices :: "gotime option \<Rightarrow> batch_storage list \<Rightarrow> nat list" where
  "expired_indices cutoff batches = filter (\<lambda>i. batch_expired cutoff (batches ! i)) [0..<length batches]"

definition retained_bytes :: "nat list \<Rightarrow> batch_storage list \<Rightarrow> int" where
  "retained_bytes expired batches =
     foldl (\<lambda>bytes i. if i \<in> set expired then bytes else bytes + bs_size_bytes (batches ! i)) 0 [0..<length batches]"

definition newest_retained :: "nat list \<Rightarrow> batch_storage list \<Rightarrow> nat option" where
  "newest_retained expired batches = List.find (\<lambda>i. i \<notin> set expired) [0..<length batches]"

fun shed_oldest :: "int \<Rightarrow> batch_storage list \<Rightarrow> nat list \<Rightarrow> int \<Rightarrow> nat list \<Rightarrow> nat list" where
  "shed_oldest limit batches [] bytes remove = remove"
| "shed_oldest limit batches (i # is) bytes remove =
     (if \<not> bytes > limit then remove
      else if i \<in> set remove then shed_oldest limit batches is bytes remove
      else shed_oldest limit batches is (bytes - bs_size_bytes (batches ! i)) (i # remove))"

definition retention_indices :: "storage_policy \<Rightarrow> batch_storage list \<Rightarrow> gotime \<Rightarrow> history_error + nat list" where
  "retention_indices policy batches evaluated_at =
     (let expired = expired_indices (retention_cutoff policy evaluated_at) batches
      in case sp_max_size_bytes policy of
           None \<Rightarrow> Inr expired
         | Some limit \<Rightarrow>
             if (case newest_retained expired batches of None \<Rightarrow> False
                 | Some i \<Rightarrow> bs_size_bytes (batches ! i) > limit)
             then Inl HistStorageLimitTooSmall
             else Inr (shed_oldest limit batches (rev [0..<length batches]) (retained_bytes expired batches) expired))"

definition retained_of :: "nat list \<Rightarrow> batch_storage list \<Rightarrow> batch_storage list" where
  "retained_of remove batches = map ((!) batches) (filter (\<lambda>i. i \<notin> set remove) [0..<length batches])"

definition candidates_of :: "nat list \<Rightarrow> batch_storage list \<Rightarrow> batch_storage list" where
  "candidates_of remove batches = map ((!) batches) (filter (\<lambda>i. i \<in> set remove) (rev [0..<length batches]))"

definition select_retention :: "storage_policy \<Rightarrow> batch_storage list \<Rightarrow> gotime \<Rightarrow> history_error + retention_selection" where
  "select_retention policy batches evaluated_at =
     bindE (retention_indices policy batches evaluated_at) (\<lambda>remove.
       Inr \<lparr>sel_plan =
              \<lparr>rp_evaluated_at = evaluated_at, rp_cutoff_at = retention_cutoff policy evaluated_at,
               rp_policy = policy, rp_current = retention_metrics_of batches,
               rp_remove = retention_metrics_of (candidates_of remove batches),
               rp_retained = retention_metrics_of (retained_of remove batches)\<rparr>,
            sel_candidates = candidates_of remove batches\<rparr>)"

section \<open>What is retained\<close>

text \<open>
  The batches not expired and at least as new as a given one, and the rule that keeps a batch: it is
  not expired and they fit the limit together.
\<close>

definition fresh_bytes :: "gotime option \<Rightarrow> batch_storage list \<Rightarrow> gotime \<Rightarrow> int" where
  "fresh_bytes cutoff batches t =
     sum_list (map bs_size_bytes (filter (\<lambda>b. \<not> batch_expired cutoff b \<and> bs_batch_at b \<ge> t) batches))"

definition keeps_batch :: "storage_policy \<Rightarrow> gotime \<Rightarrow> batch_storage list \<Rightarrow> batch_storage \<Rightarrow> bool" where
  "keeps_batch policy evaluated_at batches b \<longleftrightarrow>
     \<not> batch_expired (retention_cutoff policy evaluated_at) b \<and>
     (case sp_max_size_bytes policy of None \<Rightarrow> True
      | Some limit \<Rightarrow> fresh_bytes (retention_cutoff policy evaluated_at) batches (bs_batch_at b) \<le> limit)"

text \<open>The accounting rows as the listing yields them: newest first, one per instant, none negative.\<close>

definition storage_listing :: "batch_storage list \<Rightarrow> bool" where
  "storage_listing batches \<longleftrightarrow> sorted_wrt (\<lambda>a b. bs_batch_at b < bs_batch_at a) batches \<and>
     (\<forall>b \<in> set batches. 0 \<le> bs_size_bytes b)"

definition fresh_prefix :: "nat list \<Rightarrow> batch_storage list \<Rightarrow> nat \<Rightarrow> int" where
  "fresh_prefix expired batches n =
     sum_list (map (\<lambda>i. if i \<in> set expired then 0 else bs_size_bytes (batches ! i)) [0..<n])"

lemma fresh_prefix_Suc [simp]:
  "fresh_prefix expired batches 0 = 0"
  "fresh_prefix expired batches (Suc n) =
     fresh_prefix expired batches n + (if n \<in> set expired then 0 else bs_size_bytes (batches ! n))"
  by (simp_all add: fresh_prefix_def)

lemma retained_bytes_prefix: "retained_bytes expired batches = fresh_prefix expired batches (length batches)"
proof -
  have "foldl (\<lambda>bytes i. if i \<in> set expired then bytes else bytes + bs_size_bytes (batches ! i)) 0 [0..<n] =
      fresh_prefix expired batches n" for n
    by (induction n) simp_all
  then show ?thesis by (simp add: retained_bytes_def)
qed

lemma fresh_prefix_mono:
  assumes "storage_listing batches" "m \<le> n" "n \<le> length batches"
  shows "fresh_prefix expired batches m \<le> fresh_prefix expired batches n"
  using assms(2,3)
proof (induction n rule: dec_induct)
  case (step n)
  have "0 \<le> bs_size_bytes (batches ! n)" using assms(1) step by (simp add: storage_listing_def)
  then show ?case using step by simp
qed simp

text \<open>Shedding stops at the longest prefix that fits.\<close>

lemma shed_oldest_spec:
  assumes listing: "storage_listing batches"
    and "k \<le> length batches" and "bytes = fresh_prefix expired batches k" and "0 \<le> limit"
    and "set remove \<supseteq> set expired" and "\<forall>i < k. i \<in> set remove \<longleftrightarrow> i \<in> set expired"
  shows "\<exists>m \<le> k. set (shed_oldest limit batches (rev [0..<k]) bytes remove) \<inter> {..<length batches} =
           (set remove \<union> {m..<k}) \<inter> {..<length batches} \<and>
         fresh_prefix expired batches m \<le> limit \<and>
         (\<forall>j. m < j \<and> j \<le> k \<longrightarrow> fresh_prefix expired batches j > limit)"
  using assms(2-)
proof (induction k arbitrary: bytes remove)
  case 0
  then show ?case by auto
next
  case (Suc k)
  show ?case
  proof (cases "bytes > limit")
    case False
    then show ?thesis using Suc.prems(2) by (intro exI [of _ "Suc k"]) auto
  next
    case True
    let ?rem = "if k \<in> set remove then remove else k # remove"
    let ?bytes = "if k \<in> set remove then bytes else bytes - bs_size_bytes (batches ! k)"
    have k: "k \<in> set remove \<longleftrightarrow> k \<in> set expired" using Suc.prems(5) by blast
    have b: "?bytes = fresh_prefix expired batches k" using Suc.prems(2) k by auto
    have r: "set ?rem \<supseteq> set expired" "\<forall>i < k. i \<in> set ?rem \<longleftrightarrow> i \<in> set expired"
      using Suc.prems(4,5) by auto
    have "\<exists>m \<le> k. set (shed_oldest limit batches (rev [0..<k]) ?bytes ?rem) \<inter> {..<length batches} =
           (set ?rem \<union> {m..<k}) \<inter> {..<length batches} \<and> fresh_prefix expired batches m \<le> limit \<and>
         (\<forall>j. m < j \<and> j \<le> k \<longrightarrow> fresh_prefix expired batches j > limit)"
      by (rule Suc.IH [OF _ b Suc.prems(3) r]) (use Suc.prems(1) in simp)
    then obtain m where m: "m \<le> k"
      "set (shed_oldest limit batches (rev [0..<k]) ?bytes ?rem) \<inter> {..<length batches} =
         (set ?rem \<union> {m..<k}) \<inter> {..<length batches}"
      "fresh_prefix expired batches m \<le> limit"
      "\<forall>j. m < j \<and> j \<le> k \<longrightarrow> fresh_prefix expired batches j > limit" by blast
    have "shed_oldest limit batches (rev [0..<Suc k]) bytes remove = shed_oldest limit batches (rev [0..<k]) ?bytes ?rem"
      using True by simp
    moreover have "set ?rem \<union> {m..<k} = set remove \<union> {m..<Suc k}"
      using m(1) by (auto simp: atLeastLessThanSuc)
    moreover have "\<forall>j. m < j \<and> j \<le> Suc k \<longrightarrow> fresh_prefix expired batches j > limit"
      using m(4) True Suc.prems(2) by (auto simp: le_Suc_eq simp del: fresh_prefix_Suc)
    ultimately show ?thesis using m by (intro exI [of _ m]) simp
  qed
qed

lemma expired_index: "i < length batches \<Longrightarrow> i \<in> set (expired_indices cutoff batches) \<longleftrightarrow> batch_expired cutoff (batches ! i)"
  by (simp add: expired_indices_def)

text \<open>The bytes of the fresh batches up to an index are those of the batches at least as new.\<close>

lemma fresh_prefix_bytes:
  assumes "storage_listing batches" and "i < length batches"
  shows "fresh_prefix (expired_indices cutoff batches) batches (Suc i) = fresh_bytes cutoff batches (bs_batch_at (batches ! i))"
proof -
  have after: "bs_batch_at (batches ! k) < bs_batch_at (batches ! j)" if "j < k" "k < length batches" for j k
    using assms(1) that by (simp add: storage_listing_def sorted_wrt_iff_nth_less)
  have before: "bs_batch_at (batches ! j) \<ge> bs_batch_at (batches ! i)" if "j \<le> i" for j
    using after [of j i] assms(2) that by (cases "j = i") auto
  have prefix: "fresh_prefix (expired_indices cutoff batches) batches n =
      sum_list (map bs_size_bytes (filter (\<lambda>b. \<not> batch_expired cutoff b) (take n batches)))" if "n \<le> length batches" for n
    using that by (induction n) (auto simp: take_Suc_conv_app_nth expired_index)
  have t: "filter (\<lambda>b. \<not> batch_expired cutoff b \<and> bs_batch_at b \<ge> bs_batch_at (batches ! i)) (take (Suc i) batches) =
      filter (\<lambda>b. \<not> batch_expired cutoff b) (take (Suc i) batches)"
    by (rule filter_cong) (use before in \<open>auto simp: in_set_conv_nth less_Suc_eq_le\<close>)
  have d: "filter (\<lambda>b. \<not> batch_expired cutoff b \<and> bs_batch_at b \<ge> bs_batch_at (batches ! i)) (drop (Suc i) batches) = []"
  proof (rule filter_False, rule ballI)
    fix b assume "b \<in> set (drop (Suc i) batches)"
    then obtain k where "k < length batches - Suc i" "b = batches ! (Suc i + k)" by (auto simp: in_set_conv_nth)
    moreover from this have "Suc i + k < length batches" by simp
    ultimately show "\<not> (\<not> batch_expired cutoff b \<and> bs_batch_at b \<ge> bs_batch_at (batches ! i))"
      using after [of i "Suc i + k"] by simp
  qed
  have "fresh_bytes cutoff batches (bs_batch_at (batches ! i)) = sum_list (map bs_size_bytes
      (filter (\<lambda>b. \<not> batch_expired cutoff b \<and> bs_batch_at b \<ge> bs_batch_at (batches ! i)) (take (Suc i) batches @ drop (Suc i) batches)))"
    unfolding append_take_drop_id by (simp add: fresh_bytes_def)
  also have "\<dots> = fresh_prefix (expired_indices cutoff batches) batches (Suc i)"
    using t d prefix [of "Suc i"] assms(2) by (simp del: fresh_prefix_Suc append_take_drop_id)
  finally show ?thesis by simp
qed


lemma shed_extends: "set remove \<subseteq> set (shed_oldest limit batches is bytes remove)"
  by (induction limit batches "is" bytes remove rule: shed_oldest.induct) auto

text \<open>The indices removed are those of the batches the rule does not keep.\<close>

lemma retention_indices_keeps:
  assumes listing: "storage_listing batches" and limit: "\<And>l. sp_max_size_bytes policy = Some l \<Longrightarrow> 0 \<le> l"
    and r: "retention_indices policy batches evaluated_at = Inr remove" and i: "i < length batches"
  shows "i \<notin> set remove \<longleftrightarrow> keeps_batch policy evaluated_at batches (batches ! i)"
proof (cases "sp_max_size_bytes policy")
  case None
  then show ?thesis using r i by (auto simp: retention_indices_def keeps_batch_def expired_index Let_def)
next
  case (Some l)
  let ?c = "retention_cutoff policy evaluated_at" and ?n = "length batches"
  let ?e = "expired_indices ?c batches"
  have remove: "remove = shed_oldest l batches (rev [0..<?n]) (retained_bytes ?e batches) ?e"
    using r Some by (auto simp: retention_indices_def Let_def split: if_splits option.splits)
  obtain m where m: "m \<le> ?n" "set remove \<inter> {..<?n} = (set ?e \<union> {m..<?n}) \<inter> {..<?n}"
    "fresh_prefix ?e batches m \<le> l" "\<forall>j. m < j \<and> j \<le> ?n \<longrightarrow> fresh_prefix ?e batches j > l"
  proof -
    have "\<exists>m \<le> ?n. set remove \<inter> {..<?n} = (set ?e \<union> {m..<?n}) \<inter> {..<?n} \<and>
         fresh_prefix ?e batches m \<le> l \<and> (\<forall>j. m < j \<and> j \<le> ?n \<longrightarrow> fresh_prefix ?e batches j > l)"
      unfolding remove
      by (rule shed_oldest_spec [OF listing order.refl retained_bytes_prefix limit [OF Some]]) simp_all
    then show ?thesis using that by blast
  qed
  have kept: "i \<notin> set remove \<longleftrightarrow> \<not> batch_expired ?c (batches ! i) \<and> i < m"
  proof -
    have "i \<in> set remove \<inter> {..<?n} \<longleftrightarrow> i \<in> (set ?e \<union> {m..<?n}) \<inter> {..<?n}" by (simp only: m(2))
    then show ?thesis using i expired_index [OF i, of ?c] by auto
  qed
  have "i < m \<longleftrightarrow> fresh_prefix ?e batches (Suc i) \<le> l"
  proof
    assume "i < m"
    then have "fresh_prefix ?e batches (Suc i) \<le> fresh_prefix ?e batches m"
      by (intro fresh_prefix_mono [OF listing]) (use m(1) in auto)
    then show "fresh_prefix ?e batches (Suc i) \<le> l" using m(3) by simp
  next
    assume "fresh_prefix ?e batches (Suc i) \<le> l"
    then show "i < m" using m(4) [rule_format, of "Suc i"] i by (cases "i < m") (auto simp del: fresh_prefix_Suc)
  qed
  then show ?thesis
    using kept by (simp add: keeps_batch_def Some fresh_prefix_bytes [OF listing i] del: fresh_prefix_Suc)
qed

lemma map_nth_filter_cong:
  "(\<And>i. i < length xs \<Longrightarrow> P i = Q (xs ! i)) \<Longrightarrow> map ((!) xs) (filter P [0..<length xs]) = filter Q xs"
proof -
  assume "\<And>i. i < length xs \<Longrightarrow> P i = Q (xs ! i)"
  then have "filter P [0..<length xs] = filter (\<lambda>i. Q (xs ! i)) [0..<length xs]" by (auto intro: filter_cong)
  moreover have "map ((!) xs) (filter (\<lambda>i. Q (xs ! i)) [0..<length xs]) = filter Q (map ((!) xs) [0..<length xs])"
    by (simp add: filter_map o_def)
  ultimately show ?thesis by (simp add: map_nth)
qed

lemma retained_candidates:
  assumes "storage_listing batches" and "\<And>l. sp_max_size_bytes policy = Some l \<Longrightarrow> 0 \<le> l"
    and "retention_indices policy batches evaluated_at = Inr remove"
  shows "retained_of remove batches = filter (keeps_batch policy evaluated_at batches) batches \<and>
         candidates_of remove batches = rev (filter (\<lambda>b. \<not> keeps_batch policy evaluated_at batches b) batches)"
proof -
  note keeps = retention_indices_keeps [OF assms]
  have "retained_of remove batches = filter (keeps_batch policy evaluated_at batches) batches"
    unfolding retained_of_def by (rule map_nth_filter_cong) (rule keeps)
  moreover have "map ((!) batches) (filter (\<lambda>i. i \<in> set remove) [0..<length batches]) =
      filter (\<lambda>b. \<not> keeps_batch policy evaluated_at batches b) batches"
    by (rule map_nth_filter_cong) (use keeps in blast)
  ultimately show ?thesis by (simp add: candidates_of_def flip: rev_filter rev_map)
qed


text \<open>When the limit can hold the newest batch that has not expired.\<close>

definition newest_fits :: "storage_policy \<Rightarrow> gotime \<Rightarrow> batch_storage list \<Rightarrow> bool" where
  "newest_fits policy evaluated_at batches \<longleftrightarrow>
     (case sp_max_size_bytes policy of None \<Rightarrow> True
      | Some l \<Rightarrow> (case filter (\<lambda>b. \<not> batch_expired (retention_cutoff policy evaluated_at) b) batches of
           [] \<Rightarrow> True | b # bs \<Rightarrow> bs_size_bytes b \<le> l))"

lemma find_filter: "List.find P xs = (case filter P xs of [] \<Rightarrow> None | x # ys \<Rightarrow> Some x)"
  by (induction xs) auto

lemma newest_retained_hd:
  "map_option ((!) batches) (newest_retained (expired_indices c batches) batches) =
   (case filter (\<lambda>b. \<not> batch_expired c b) batches of [] \<Rightarrow> None | b # bs \<Rightarrow> Some b)"
proof -
  have eq: "map ((!) batches) (filter (\<lambda>i. i \<notin> set (expired_indices c batches)) [0..<length batches]) =
      filter (\<lambda>b. \<not> batch_expired c b) batches"
    by (rule map_nth_filter_cong) (simp add: expired_index)
  show ?thesis
    by (simp add: newest_retained_def find_filter flip: eq split: list.split)
qed

lemma retention_indices_error:
  "retention_indices policy batches evaluated_at =
     (if newest_fits policy evaluated_at batches
      then Inr (case sp_max_size_bytes policy of None \<Rightarrow> expired_indices (retention_cutoff policy evaluated_at) batches
        | Some l \<Rightarrow> shed_oldest l batches (rev [0..<length batches])
            (retained_bytes (expired_indices (retention_cutoff policy evaluated_at) batches) batches)
            (expired_indices (retention_cutoff policy evaluated_at) batches))
      else Inl HistStorageLimitTooSmall)"
  using newest_retained_hd [of batches "retention_cutoff policy evaluated_at"]
  by (auto simp: retention_indices_def newest_fits_def Let_def split: option.splits list.splits)

lemma select_retention_eq:
  assumes "storage_listing batches" and "\<And>l. sp_max_size_bytes policy = Some l \<Longrightarrow> 0 \<le> l"
  shows "select_retention policy batches t =
     (if newest_fits policy t batches
      then let remove = rev (filter (\<lambda>b. \<not> keeps_batch policy t batches b) batches)
           in Inr \<lparr>sel_plan = \<lparr>rp_evaluated_at = t, rp_cutoff_at = retention_cutoff policy t, rp_policy = policy,
                rp_current = retention_metrics_of batches, rp_remove = retention_metrics_of remove,
                rp_retained = retention_metrics_of (filter (keeps_batch policy t batches) batches)\<rparr>,
              sel_candidates = remove\<rparr>
      else Inl HistStorageLimitTooSmall)"
proof (cases "newest_fits policy t batches")
  case True
  then obtain remove where r: "retention_indices policy batches t = Inr remove"
    by (simp add: retention_indices_error)
  from retained_candidates [OF assms r] True show ?thesis
    by (simp add: select_retention_def r Let_def)
qed (simp add: select_retention_def retention_indices_error)

section \<open>Removing the oldest candidates first\<close>

definition without_batches :: "batch_storage list \<Rightarrow> batch_storage list \<Rightarrow> batch_storage list" where
  "without_batches remove batches = filter (\<lambda>b. bs_batch_at b \<notin> bs_batch_at ` set remove) batches"

lemma storage_listing_filter: "storage_listing batches \<Longrightarrow> storage_listing (filter P batches)"
  by (simp add: storage_listing_def sorted_wrt_filter)

lemma storage_listing_same:
  assumes "storage_listing batches" "a \<in> set batches" "b \<in> set batches" "bs_batch_at a = bs_batch_at b"
  shows "a = b"
proof -
  obtain i j where ij: "i < length batches" "j < length batches" "a = batches ! i" "b = batches ! j"
    using assms(2,3) by (metis in_set_conv_nth)
  have "bs_batch_at (batches ! l) < bs_batch_at (batches ! k)" if "k < l" "l < length batches" for k l
    using assms(1) that by (simp add: storage_listing_def sorted_wrt_iff_nth_less)
  from this [of i j] this [of j i] ij assms(4) show ?thesis by (cases i j rule: linorder_cases) auto
qed

lemma fresh_bytes_antimono:
  assumes "storage_listing batches" "t \<le> u"
  shows "fresh_bytes c batches u \<le> fresh_bytes c batches t"
proof -
  have "\<forall>b \<in> set batches. 0 \<le> bs_size_bytes b" using assms(1) by (simp add: storage_listing_def)
  then show ?thesis unfolding fresh_bytes_def
    by (induction batches) (use assms(2) in auto)
qed

lemma without_oldest:
  assumes listing: "storage_listing batches" and cands: "cands = rev (filter (\<lambda>b. \<not> keeps_batch p t batches b) batches)"
    and rest: "rest = without_batches (take k cands) batches"
  shows "storage_listing rest" and "b \<in> set rest \<Longrightarrow> keeps_batch p t rest b = keeps_batch p t batches b"
    and "filter (keeps_batch p t batches) rest = filter (keeps_batch p t batches) batches"
    and "rev (filter (\<lambda>b. \<not> keeps_batch p t batches b) rest) = drop k cands"
proof -
  let ?keep = "keeps_batch p t batches" and ?c = "retention_cutoff p t"
  show "storage_listing rest" unfolding rest without_batches_def using listing by (rule storage_listing_filter)
  have sub: "set cands \<subseteq> set batches" by (auto simp: cands)
  have mem: "bs_batch_at a \<in> bs_batch_at ` set (take k cands) \<longleftrightarrow> a \<in> set (take k cands)" if "a \<in> set batches" for a
  proof
    assume "bs_batch_at a \<in> bs_batch_at ` set (take k cands)"
    then obtain d where d: "d \<in> set (take k cands)" "bs_batch_at a = bs_batch_at d" by blast
    then have "d \<in> set batches" using sub in_set_takeD [OF d(1)] by blast
    from storage_listing_same [OF listing that this d(2)] d(1) show "a \<in> set (take k cands)" by simp
  qed simp
  have rest_mem: "a \<in> set rest \<longleftrightarrow> a \<in> set batches \<and> a \<notin> set (take k cands)" for a
    using mem by (auto simp: rest without_batches_def)
  have asc: "sorted_wrt (\<lambda>a b. bs_batch_at a < bs_batch_at b) cands"
    unfolding cands sorted_wrt_rev using storage_listing_filter [OF listing] by (simp add: storage_listing_def)
  then have dist: "distinct cands" by (induction cands) auto
  have older: "bs_batch_at d < bs_batch_at a" if "d \<in> set (take k cands)" "a \<in> set (drop k cands)" for d a
    using asc that by (metis append_take_drop_id sorted_wrt_append)
  have same: "fresh_bytes ?c rest (bs_batch_at a) = fresh_bytes ?c batches (bs_batch_at a)"
    if a: "a \<in> set rest" and fresh: "\<not> batch_expired ?c a"
      and fits: "\<And>d. d \<in> set (take k cands) \<Longrightarrow> \<not> batch_expired ?c d \<Longrightarrow> bs_batch_at d < bs_batch_at a" for a
  proof -
    have "filter (\<lambda>b. \<not> batch_expired ?c b \<and> bs_batch_at b \<ge> bs_batch_at a) rest =
        filter (\<lambda>b. \<not> batch_expired ?c b \<and> bs_batch_at b \<ge> bs_batch_at a) batches"
      unfolding rest without_batches_def filter_filter
      by (rule filter_cong) (use fits mem in \<open>auto simp: not_le [symmetric]\<close>)
    then show ?thesis by (simp add: fresh_bytes_def)
  qed
  have before: "bs_batch_at d < bs_batch_at a"
    if a: "a \<in> set rest" and d: "d \<in> set (take k cands)" "\<not> batch_expired ?c d" for a d
  proof (cases "?keep a")
    case False
    then have "a \<in> set cands" using a rest_mem by (simp add: cands)
    then have "a \<in> set (drop k cands)" using a rest_mem by (metis Un_iff append_take_drop_id set_append)
    then show ?thesis using older d by blast
  next
    case True
    have "d \<in> set cands" using d(1) by (rule in_set_takeD)
    then have "\<not> ?keep d" by (simp add: cands)
    then obtain l where l: "sp_max_size_bytes p = Some l" "fresh_bytes ?c batches (bs_batch_at d) > l"
      using d(2) by (auto simp: keeps_batch_def split: option.splits)
    moreover have "fresh_bytes ?c batches (bs_batch_at a) \<le> l" using True l(1) by (simp add: keeps_batch_def)
    ultimately show ?thesis using fresh_bytes_antimono [OF listing, of "bs_batch_at a" "bs_batch_at d" ?c] by linarith
  qed
  show "b \<in> set rest \<Longrightarrow> keeps_batch p t rest b = ?keep b"
    using same [of b] before [of b] by (auto simp: keeps_batch_def split: option.splits)
  have removed: "\<not> ?keep a" if "a \<in> set (take k cands)" for a
    using in_set_takeD [OF that] by (simp add: cands)
  show "filter ?keep rest = filter ?keep batches"
    unfolding rest without_batches_def filter_filter by (rule filter_cong) (use mem removed in blast)+
  have "filter (\<lambda>b. \<not> ?keep b) rest = filter (\<lambda>b. b \<notin> set (take k cands)) (rev cands)"
    unfolding rest without_batches_def filter_filter cands rev_rev_ident
    by (rule filter_cong) (use mem in \<open>simp_all add: cands conj_commute\<close>)
  then have "rev (filter (\<lambda>b. \<not> ?keep b) rest) = filter (\<lambda>b. b \<notin> set (take k cands)) (take k cands @ drop k cands)"
    unfolding append_take_drop_id by (simp flip: rev_filter)
  also have "\<dots> = drop k cands"
    using set_take_disj_set_drop_if_distinct [OF dist, of k k]
    by (simp only: filter_append) (auto simp: filter_empty_conv filter_id_conv disjoint_iff)
  finally show "rev (filter (\<lambda>b. \<not> ?keep b) rest) = drop k cands" .
qed

text \<open>The plan after removing the oldest \<open>k\<close> candidates is the rest of the plan.\<close>

lemma select_retention_rest:
  assumes listing: "storage_listing batches" and limit: "\<And>l. sp_max_size_bytes p = Some l \<Longrightarrow> 0 \<le> l"
    and sel: "select_retention p batches t = Inr s"
  shows "\<exists>s'. select_retention p (without_batches (take k (sel_candidates s)) batches) t = Inr s' \<and>
              sel_candidates s' = drop k (sel_candidates s) \<and>
              rp_retained (sel_plan s') = rp_retained (sel_plan s)"
proof -
  define cands where "cands = rev (filter (\<lambda>b. \<not> keeps_batch p t batches b) batches)"
  define rest where "rest = without_batches (take k cands) batches"
  have fits: "newest_fits p t batches" and s: "sel_candidates s = cands"
    "rp_retained (sel_plan s) = retention_metrics_of (filter (keeps_batch p t batches) batches)"
    using sel by (auto simp: select_retention_eq [OF listing limit] cands_def Let_def split: if_splits)
  note wo = without_oldest [OF listing cands_def rest_def]
  have keep: "filter (keeps_batch p t rest) rest = filter (keeps_batch p t batches) batches"
    using wo(2,3) by (metis filter_cong)
  have drop: "rev (filter (\<lambda>b. \<not> keeps_batch p t rest b) rest) = drop k cands"
    using wo(2,4) by (metis (mono_tags, lifting) filter_cong)
  have "newest_fits p t rest"
  proof (cases "sp_max_size_bytes p")
    case (Some l)
    let ?fresh = "\<lambda>b. \<not> batch_expired (retention_cutoff p t) b"
    show ?thesis
    proof (cases "filter ?fresh batches")
      case Nil
      then have "filter ?fresh rest = []"
        by (auto simp: rest_def without_batches_def filter_empty_conv)
      then show ?thesis by (simp add: newest_fits_def Some)
    next
      case (Cons b bs)
      then have b: "b \<in> set batches" "?fresh b" "bs_size_bytes b \<le> l"
        using fits by (auto simp: newest_fits_def Some filter_eq_Cons_iff)
      have asc: "sorted_wrt (\<lambda>a b. bs_batch_at b < bs_batch_at a) (b # bs)"
        using storage_listing_filter [OF listing, of ?fresh] Cons by (simp add: storage_listing_def)
      have "filter (\<lambda>x. bs_batch_at x \<ge> bs_batch_at b) (filter ?fresh batches) = [b]"
        unfolding Cons using asc by (auto simp: filter_empty_conv)
      then have "fresh_bytes (retention_cutoff p t) batches (bs_batch_at b) = bs_size_bytes b"
        by (simp add: fresh_bytes_def conj_commute)
      then have "keeps_batch p t batches b" using b by (simp add: keeps_batch_def Some)
      then have "b \<notin> set cands" by (simp add: cands_def)
      have sub: "set (take k cands) \<subseteq> set batches" using set_take_subset [of k cands] by (auto simp: cands_def)
      have "bs_batch_at b \<notin> bs_batch_at ` set (take k cands)"
        using storage_listing_same [OF listing b(1)] sub \<open>b \<notin> set cands\<close> in_set_takeD [of _ k cands] by blast
      moreover have "filter ?fresh rest =
          filter (\<lambda>b. bs_batch_at b \<notin> bs_batch_at ` set (take k cands)) (filter ?fresh batches)"
        by (simp add: rest_def without_batches_def conj_commute)
      ultimately have "filter ?fresh rest = b # filter (\<lambda>b. bs_batch_at b \<notin> bs_batch_at ` set (take k cands)) bs"
        unfolding Cons by simp
      then show ?thesis using b(3) by (simp add: newest_fits_def Some)
    qed
  qed (simp add: newest_fits_def)
  then show ?thesis
    unfolding s rest_def [symmetric]
    by (simp add: select_retention_eq [OF wo(1) limit] Let_def keep drop)
qed

section \<open>Properties\<close>

text \<open>
  C19: \<open>selectRetention\<close> fails only where the newest batch that has not expired is larger than the
  limit. Otherwise it retains exactly the batches that have not expired and, taken with all the
  batches at least as new, fit the limit; the others are the candidates, oldest first; and the plan
  counts them.
\<close>

theorem select_retention_keeps:
  assumes "storage_listing batches" and "\<And>l. sp_max_size_bytes policy = Some l \<Longrightarrow> 0 \<le> l"
  shows "(\<not> newest_fits policy t batches \<longrightarrow> select_retention policy batches t = Inl HistStorageLimitTooSmall) \<and>
         (newest_fits policy t batches \<longrightarrow>
           (\<exists>s. select_retention policy batches t = Inr s \<and>
              sel_candidates s = rev (filter (\<lambda>b. \<not> keeps_batch policy t batches b) batches) \<and>
              rp_retained (sel_plan s) = retention_metrics_of (filter (keeps_batch policy t batches) batches) \<and>
              rp_remove (sel_plan s) = retention_metrics_of (sel_candidates s)))"
  using select_retention_eq [OF assms, where t = t] by (auto simp: Let_def)

definition example_storage :: "batch_storage list" where
  "example_storage = map (\<lambda>(t, n). \<lparr>bs_batch_at = t, bs_row_count = 1, bs_size_bytes = n\<rparr>)
     [(50 * second, 400), (40 * second, 300), (30 * second, 500), (20 * second, 100), (10 * second, 900)]"

definition example_policy :: storage_policy where
  "example_policy = \<lparr>sp_max_size_bytes = Some 1000, sp_max_age_seconds = Some 45\<rparr>"

theorem select_retention_keeps_witness:
  "\<exists>s. select_retention example_policy example_storage (60 * second) = Inr s \<and>
       map bs_batch_at (sel_candidates s) = [10 * second, 20 * second, 30 * second]"
proof -
  have l: "storage_listing example_storage" by (simp add: storage_listing_def example_storage_def second_def)
  have f: "newest_fits example_policy (60 * second) example_storage"
    by (simp add: newest_fits_def example_policy_def example_storage_def batch_expired_def retention_cutoff_def second_def)
  show ?thesis
    using select_retention_keeps [OF l, where policy = example_policy and t = "60 * second"] f
    by (auto simp: example_policy_def example_storage_def keeps_batch_def batch_expired_def retention_cutoff_def
        fresh_bytes_def second_def)
qed

end
