(* ===== verification/History_Store.thy ===== *)
theory History_Store
  imports Logger_Retention
begin

text \<open>
  The history repository of the data loggers: the transactions of
  \<open>internal/datalogger/postgres/history_repository.go\<close> over the tables their statements touch. A
  transaction is a function from the tables to new tables or an error, which rolls back. What the
  database and the JSON codec do with a value is an argument (\<open>db_codec\<close>): the stored precision of
  an instant, the JSON text of a value, its reading back, and the bytes of a row.
  \<open>hd_deleted\<close> holds the tags deleted so far: no statement reads it, it says which rows a cascade of
  migration 000007 has taken. A tag's id is never given again, so no selection names a deleted tag.
\<close>

record raw_row =
  rr_tag_id :: uuid
  rr_observed_at :: gotime
  rr_data_type :: data_type
  rr_payload :: "string option"
  rr_quality :: quality
  rr_error :: "string option"

record db_codec =
  cx_time :: "gotime \<Rightarrow> gotime"
  cx_marshal :: "gval \<Rightarrow> string option"
  cx_unmarshal :: "data_type \<Rightarrow> string \<Rightarrow> gval option"
  cx_row_size :: "raw_row \<Rightarrow> int"

record cleanup_result =
  cr_deleted :: retention_metrics
  cr_retained :: retention_metrics
  cr_remaining :: retention_metrics
  cr_complete :: bool

datatype retention_status = CleanupDone cleanup_result | CleanupFailed history_error

record history_db =
  hd_policies :: "uuid \<rightharpoonup> storage_policy"
  hd_selected :: "uuid \<Rightarrow> uuid \<rightharpoonup> data_type"
  hd_rows :: "uuid \<Rightarrow> gotime \<Rightarrow> raw_row list"
  hd_storage :: "uuid \<Rightarrow> batch_storage list"
  hd_status :: "uuid \<rightharpoonup> retention_status"
  hd_deleted :: "uuid set"

definition index_bytes_per_row :: int where "index_bytes_per_row = 192"

section \<open>Samples\<close>

definition normalize_raw_sample :: "db_codec \<Rightarrow> raw_sample \<Rightarrow> history_error + raw_row" where
  "normalize_raw_sample cx s =
     (if rs_tag_id s = uuid_nil \<or> rs_observed_at s = 0 \<or> \<not> valid_tag_data_type (rs_data_type s)
      then Inl HistInvalidRawBatch
      else let row = (\<lambda>payload err. \<lparr>rr_tag_id = rs_tag_id s, rr_observed_at = cx_time cx (rs_observed_at s),
                 rr_data_type = rs_data_type s, rr_payload = payload, rr_quality = rs_quality s, rr_error = err\<rparr>)
        in case rs_quality s of
             QualityGood \<Rightarrow>
               if rs_error s \<noteq> [] then Inl HistInvalidRawBatch
               else (case cx_marshal cx (rs_value s) of
                       None \<Rightarrow> Inl HistInvalidRawBatch
                     | Some payload \<Rightarrow> if payload = ''null'' then Inl HistInvalidRawBatch else Inr (row (Some payload) None))
           | QualityBad \<Rightarrow>
               if rs_value s \<noteq> VNil \<or> trim_space (rs_error s) = [] then Inl HistInvalidRawBatch
               else Inr (row None (Some (trim_space (rs_error s))))
           | QualityOther q \<Rightarrow> Inl HistInvalidRawBatch)"

definition add_raw_sample :: "db_codec \<Rightarrow> raw_sample \<Rightarrow> raw_row list \<Rightarrow> history_error + raw_row list" where
  "add_raw_sample cx s rows =
     (if rs_tag_id s \<in> rr_tag_id ` set rows then Inl HistInvalidRawBatch
      else bindE (normalize_raw_sample cx s) (\<lambda>r. Inr (rows @ [r])))"

definition decode_raw_value :: "db_codec \<Rightarrow> raw_row \<Rightarrow> history_error + raw_sample" where
  "decode_raw_value cx r =
     (let sample = (\<lambda>v e. \<lparr>rs_tag_id = rr_tag_id r, rs_observed_at = rr_observed_at r, rs_data_type = rr_data_type r,
                           rs_value = v, rs_quality = rr_quality r, rs_error = e\<rparr>)
      in if rr_quality r = QualityBad
         then Inr (sample VNil (case rr_error r of None \<Rightarrow> [] | Some e \<Rightarrow> e))
         else if \<not> valid_tag_data_type (rr_data_type r) then Inl HistInvalidRawBatch
         else case cx_unmarshal cx (rr_data_type r) (case rr_payload r of None \<Rightarrow> [] | Some p \<Rightarrow> p) of
           None \<Rightarrow> Inl HistInvalidRawBatch
         | Some v \<Rightarrow> Inr (sample v []))"

section \<open>Statements\<close>

definition lock_policy :: "history_db \<Rightarrow> uuid \<Rightarrow> history_error + storage_policy" where
  "lock_policy db l = (case hd_policies db l of None \<Rightarrow> Inl HistLoggerNotFound | Some p \<Rightarrow> Inr p)"

definition validate_selected :: "history_db \<Rightarrow> uuid \<Rightarrow> raw_row list \<Rightarrow> history_error + unit" where
  "validate_selected db l rows =
     (if hd_policies db l = None then Inl HistLoggerNotFound
      else let selected = filter (\<lambda>r. hd_selected db l (rr_tag_id r) \<noteq> None) rows
        in if length selected \<noteq> length rows then Inl HistTagNotSelected
           else if \<exists>r \<in> set rows. hd_selected db l (rr_tag_id r) \<noteq> Some (rr_data_type r) then Inl HistInvalidRawBatch
           else Inr ())"

text \<open>\<open>INSERT ... ON CONFLICT (logger_id, tag_id, batch_at) DO NOTHING\<close>\<close>

definition new_rows :: "raw_row list \<Rightarrow> raw_row list \<Rightarrow> raw_row list" where
  "new_rows present rows = filter (\<lambda>r. rr_tag_id r \<notin> rr_tag_id ` set present) rows"

definition insert_raw_batch :: "uuid \<Rightarrow> gotime \<Rightarrow> raw_row list \<Rightarrow> history_db \<Rightarrow> bool \<times> history_db" where
  "insert_raw_batch l ba rows db =
     (let inserted = new_rows (hd_rows db l ba) rows
      in (inserted \<noteq> [], db\<lparr>hd_rows := (hd_rows db)(l := (hd_rows db l)(ba := hd_rows db l ba @ inserted))\<rparr>))"

definition batch_accounting :: "db_codec \<Rightarrow> gotime \<Rightarrow> raw_row list \<Rightarrow> batch_storage" where
  "batch_accounting cx ba rows =
     \<lparr>bs_batch_at = ba, bs_row_count = int (length rows),
      bs_size_bytes = sum_list (map (\<lambda>r. cx_row_size cx r + index_bytes_per_row) rows)\<rparr>"

definition refresh_batch_storage :: "db_codec \<Rightarrow> uuid \<Rightarrow> gotime \<Rightarrow> history_db \<Rightarrow> history_db" where
  "refresh_batch_storage cx l ba db =
     (if hd_rows db l ba = [] then db
      else db\<lparr>hd_storage := (hd_storage db)(l :=
             batch_accounting cx ba (hd_rows db l ba) # filter (\<lambda>b. bs_batch_at b \<noteq> ba) (hd_storage db l))\<rparr>)"

definition list_batch_storage :: "history_db \<Rightarrow> uuid \<Rightarrow> batch_storage list" where
  "list_batch_storage db l = sort_key (\<lambda>b. - bs_batch_at b) (hd_storage db l)"

definition delete_retention_batches :: "uuid \<Rightarrow> batch_storage list \<Rightarrow> history_db \<Rightarrow> history_db" where
  "delete_retention_batches l remove db =
     db\<lparr>hd_rows := (hd_rows db)(l := (\<lambda>t. if t \<in> bs_batch_at ` set remove then [] else hd_rows db l t)),
        hd_storage := (hd_storage db)(l := without_batches remove (hd_storage db l))\<rparr>"

definition enforce_policy :: "uuid \<Rightarrow> storage_policy \<Rightarrow> gotime \<Rightarrow> history_db \<Rightarrow> history_error + history_db" where
  "enforce_policy l policy now db =
     bindE (select_retention policy (list_batch_storage db l) now) (\<lambda>s.
       Inr (delete_retention_batches l (take max_retention_batch_limit (sel_candidates s)) db))"

definition read_raw_batch :: "db_codec \<Rightarrow> history_db \<Rightarrow> uuid \<Rightarrow> gotime \<Rightarrow> history_error + raw_batch" where
  "read_raw_batch cx db l ba =
     (let rows = sort_key rr_tag_id (hd_rows db l (cx_time cx ba))
      in if rows = [] then Inl HistBatchNotFound
         else bindE (foldE (\<lambda>r acc. bindE (decode_raw_value cx r) (\<lambda>s. Inr (acc @ [s]))) rows [])
                (\<lambda>samples. Inr \<lparr>rb_logger_id = l, rb_batch_at = ba, rb_samples = samples\<rparr>))"

section \<open>Transactions\<close>

text \<open>The transaction of \<open>WriteBatch\<close>: the batch it commits to publish, if any, and the tables.\<close>

definition committed_batch :: "db_codec \<Rightarrow> history_db \<Rightarrow> uuid \<Rightarrow> gotime \<Rightarrow> bool \<Rightarrow> history_error + raw_batch option" where
  "committed_batch cx db l ba inserted =
     (if \<not> inserted then Inr None
      else case read_raw_batch cx db l ba of
        Inl e \<Rightarrow> if e = HistBatchNotFound then Inr None else Inl e
      | Inr b \<Rightarrow> Inr (Some b))"

definition write_rows ::
  "db_codec \<Rightarrow> uuid \<Rightarrow> gotime \<Rightarrow> raw_row list \<Rightarrow> gotime \<Rightarrow> history_db \<Rightarrow> history_error + raw_batch option \<times> history_db" where
  "write_rows cx l ba rows now db =
     bindE (lock_policy db l) (\<lambda>policy.
       bindE (validate_selected db l rows) (\<lambda>u.
         let (inserted, db1) = insert_raw_batch l (cx_time cx ba) rows db;
             db2 = refresh_batch_storage cx l (cx_time cx ba) db1
         in bindE (enforce_policy l policy now db2) (\<lambda>db3.
              bindE (committed_batch cx db3 l ba inserted) (\<lambda>c. Inr (c, db3)))))"

definition write_batch ::
  "db_codec \<Rightarrow> raw_batch \<Rightarrow> gotime \<Rightarrow> history_db \<Rightarrow> (history_error + raw_batch option) \<times> history_db" where
  "write_batch cx b now db =
     (if rb_logger_id b = uuid_nil \<or> rb_batch_at b = 0 \<or> rb_samples b = [] then (Inl HistInvalidRawBatch, db)
      else case bindE (foldE (add_raw_sample cx) (rb_samples b) [])
                  (\<lambda>rows. write_rows cx (rb_logger_id b) (rb_batch_at b) rows now db) of
        Inl e \<Rightarrow> (Inl e, db)
      | Inr (c, db') \<Rightarrow> (Inr c, db'))"

text \<open>\<open>WriteBatch\<close> with the broker it publishes the committed batch to.\<close>

definition write_and_publish ::
  "db_codec \<Rightarrow> raw_batch \<Rightarrow> gotime \<Rightarrow> history_db \<Rightarrow> raw_batch broker \<Rightarrow>
   (history_error + unit) \<times> history_db \<times> raw_batch broker" where
  "write_and_publish cx b now db br =
     (case write_batch cx b now db of
        (Inl e, db') \<Rightarrow> (Inl e, db', br)
      | (Inr None, db') \<Rightarrow> (Inr (), db', br)
      | (Inr (Some c), db') \<Rightarrow> (Inr (), db', publish_committed_batch c br))"

definition latest_batch :: "db_codec \<Rightarrow> history_db \<Rightarrow> uuid \<Rightarrow> history_error + raw_batch" where
  "latest_batch cx db l =
     (if l = uuid_nil then Inl HistInvalidInput
      else case list_batch_storage db l of
        [] \<Rightarrow> Inl HistBatchNotFound
      | b # bs \<Rightarrow> read_raw_batch cx db l (bs_batch_at b))"

definition cleanup_transaction ::
  "uuid \<Rightarrow> gotime \<Rightarrow> nat \<Rightarrow> history_db \<Rightarrow> history_error + cleanup_result \<times> history_db" where
  "cleanup_transaction l evaluated_at batch_limit db =
     bindE (lock_policy db l) (\<lambda>policy.
       bindE (select_retention policy (list_batch_storage db l) evaluated_at) (\<lambda>s.
         let remove = take batch_limit (sel_candidates s);
             db1 = delete_retention_batches l remove db
         in bindE (select_retention policy (list_batch_storage db1 l) evaluated_at) (\<lambda>remaining.
              let result = \<lparr>cr_deleted = retention_metrics_of remove,
                    cr_retained = retention_metrics_of (list_batch_storage db1 l),
                    cr_remaining = rp_remove (sel_plan remaining),
                    cr_complete = (rm_batch_count (rp_remove (sel_plan remaining)) = 0)\<rparr>
              in Inr (result, db1\<lparr>hd_status := (hd_status db1)(l \<mapsto> CleanupDone result)\<rparr>))))"

definition cleanup_retention ::
  "uuid \<Rightarrow> gotime \<Rightarrow> int \<Rightarrow> history_db \<Rightarrow> (history_error + cleanup_result) \<times> history_db" where
  "cleanup_retention l evaluated_at batch_limit db =
     (if l = uuid_nil \<or> evaluated_at = 0 \<or> batch_limit < 1 \<or> batch_limit > int max_retention_batch_limit
      then (Inl HistInvalidInput, db)
      else case cleanup_transaction l evaluated_at (nat batch_limit) db of
        Inr (result, db') \<Rightarrow> (Inr result, db')
      | Inl e \<Rightarrow> (Inl e, if e = HistLoggerNotFound then db
                     else db\<lparr>hd_status := (hd_status db)(l \<mapsto> CleanupFailed e)\<rparr>))"

definition enforce_retention :: "uuid \<Rightarrow> storage_policy \<Rightarrow> gotime \<Rightarrow> history_db \<Rightarrow> (history_error + unit) \<times> history_db" where
  "enforce_retention l expected now db =
     (if l = uuid_nil then (Inl HistInvalidInput, db)
      else case bindE (lock_policy db l) (\<lambda>policy.
                  if sp_max_size_bytes policy \<noteq> sp_max_size_bytes expected \<or>
                     sp_max_age_seconds policy \<noteq> sp_max_age_seconds expected
                  then Inl HistInvalidInput else enforce_policy l policy now db) of
        Inl e \<Rightarrow> (Inl e, db)
      | Inr db' \<Rightarrow> (Inr (), db'))"

definition validate_storage_limit :: "history_db \<Rightarrow> uuid \<Rightarrow> int option \<Rightarrow> history_error + unit" where
  "validate_storage_limit db l max_size =
     (if l = uuid_nil then Inl HistInvalidInput
      else case max_size of
        None \<Rightarrow> Inr ()
      | Some m \<Rightarrow> (case list_batch_storage db l of
          [] \<Rightarrow> Inr () | b # bs \<Rightarrow> if bs_size_bytes b > m then Inl HistStorageLimitTooSmall else Inr ()))"

definition retention_status_of :: "history_db \<Rightarrow> uuid \<Rightarrow> gotime \<Rightarrow> history_error + retention_plan \<times> retention_status option" where
  "retention_status_of db l evaluated_at =
     (if l = uuid_nil \<or> evaluated_at = 0 then Inl HistInvalidInput
      else bindE (lock_policy db l) (\<lambda>policy.
        bindE (select_retention policy (list_batch_storage db l) evaluated_at) (\<lambda>s.
          Inr (sel_plan s, hd_status db l))))"

section \<open>The accounting of the history\<close>

text \<open>
  Deleting a tag takes its values and its selections along (\<open>ON DELETE CASCADE\<close> of \<open>tag_values_raw\<close>
  and \<open>data_logger_tags\<close>), and no statement looks at the accounting of the batches they were in.
  Deleting a logger takes everything of it.
\<close>

definition delete_tag_values :: "uuid \<Rightarrow> history_db \<Rightarrow> history_db" where
  "delete_tag_values tag db =
     db\<lparr>hd_rows := (\<lambda>l t. filter (\<lambda>r. rr_tag_id r \<noteq> tag) (hd_rows db l t)),
        hd_selected := (\<lambda>l. (hd_selected db l)(tag := None)), hd_deleted := insert tag (hd_deleted db)\<rparr>"

definition delete_logger_history :: "uuid \<Rightarrow> history_db \<Rightarrow> history_db" where
  "delete_logger_history l db =
     db\<lparr>hd_policies := (hd_policies db)(l := None), hd_selected := (hd_selected db)(l := Map.empty),
        hd_rows := (hd_rows db)(l := (\<lambda>t. [])), hd_storage := (hd_storage db)(l := []),
        hd_status := (hd_status db)(l := None)\<rparr>"

definition accounts_for :: "db_codec \<Rightarrow> uuid set \<Rightarrow> raw_row list \<Rightarrow> batch_storage \<Rightarrow> bool" where
  "accounts_for cx deleted rows b \<longleftrightarrow>
     (\<exists>written. written \<noteq> [] \<and> distinct (map rr_tag_id written) \<and> b = batch_accounting cx (bs_batch_at b) written \<and>
        rows = filter (\<lambda>r. rr_tag_id r \<notin> deleted) written)"

definition logger_accounts :: "db_codec \<Rightarrow> history_db \<Rightarrow> uuid \<Rightarrow> bool" where
  "logger_accounts cx db l \<longleftrightarrow>
     distinct (map bs_batch_at (hd_storage db l)) \<and>
     (\<forall>b \<in> set (hd_storage db l). accounts_for cx (hd_deleted db) (hd_rows db l (bs_batch_at b)) b) \<and>
     (\<forall>t. hd_rows db l t \<noteq> [] \<longrightarrow> t \<in> bs_batch_at ` set (hd_storage db l)) \<and>
     (\<forall>tag. hd_selected db l tag \<noteq> None \<longrightarrow> tag \<notin> hd_deleted db)"

definition history_inv :: "db_codec \<Rightarrow> history_db \<Rightarrow> bool" where
  "history_inv cx db \<longleftrightarrow> (\<forall>l. logger_accounts cx db l)"

definition rows_bytes :: "db_codec \<Rightarrow> raw_row list \<Rightarrow> int" where
  "rows_bytes cx rows = sum_list (map (\<lambda>r. cx_row_size cx r + index_bytes_per_row) rows)"

definition logger_bytes :: "db_codec \<Rightarrow> history_db \<Rightarrow> uuid \<Rightarrow> int" where
  "logger_bytes cx db l = sum_list (map (\<lambda>b. rows_bytes cx (hd_rows db l (bs_batch_at b))) (hd_storage db l))"

lemma rows_of_batch:
  assumes acc: "logger_accounts cx db l"
  shows "distinct (map rr_tag_id (hd_rows db l t)) \<and> (\<forall>r \<in> set (hd_rows db l t). rr_tag_id r \<notin> hd_deleted db)"
proof (cases "hd_rows db l t = []")
  case False
  then obtain b where "b \<in> set (hd_storage db l)" "t = bs_batch_at b" using acc by (auto simp: logger_accounts_def)
  then have "accounts_for cx (hd_deleted db) (hd_rows db l t) b" using acc by (simp add: logger_accounts_def)
  then show ?thesis by (auto simp: accounts_for_def distinct_map_filter)
qed simp

lemma delete_accounts: "logger_accounts cx db k \<Longrightarrow> logger_accounts cx (delete_retention_batches l remove db) k"
  by (cases "k = l")
    (auto simp: logger_accounts_def delete_retention_batches_def without_batches_def distinct_map_filter)

lemma accounts_for_delete:
  "accounts_for cx deleted rows b \<Longrightarrow> accounts_for cx (insert tag deleted) (filter (\<lambda>r. rr_tag_id r \<noteq> tag) rows) b"
  unfolding accounts_for_def
  by (elim exE conjE, intro exI conjI, assumption+) (simp add: conj_commute cong: filter_cong)

lemma delete_tag_accounts: "logger_accounts cx db k \<Longrightarrow> logger_accounts cx (delete_tag_values tag db) k"
proof -
  assume acc: "logger_accounts cx db k"
  have "accounts_for cx (insert tag (hd_deleted db)) (filter (\<lambda>r. rr_tag_id r \<noteq> tag) (hd_rows db k (bs_batch_at b))) b"
    if "b \<in> set (hd_storage db k)" for b
    using acc that by (intro accounts_for_delete) (simp add: logger_accounts_def)
  moreover have "t \<in> bs_batch_at ` set (hd_storage db k)" if "filter (\<lambda>r. rr_tag_id r \<noteq> tag) (hd_rows db k t) \<noteq> []" for t
    using acc that by (cases "hd_rows db k t = []") (simp_all add: logger_accounts_def)
  ultimately show "logger_accounts cx (delete_tag_values tag db) k"
    using acc by (simp add: logger_accounts_def delete_tag_values_def)
qed

lemma delete_logger_accounts: "logger_accounts cx db k \<Longrightarrow> logger_accounts cx (delete_logger_history l db) k"
  by (cases "k = l") (auto simp: logger_accounts_def delete_logger_history_def)

lemma enforce_policy_inv:
  "history_inv cx db \<Longrightarrow> enforce_policy l policy now db = Inr db' \<Longrightarrow> history_inv cx db'"
  by (auto simp: enforce_policy_def bindE_Inr_iff history_inv_def delete_accounts)

lemma insert_refresh_accounts:
  assumes acc: "logger_accounts cx db k" and rows: "distinct (map rr_tag_id rows)"
    and selected: "\<And>r. r \<in> set rows \<Longrightarrow> hd_selected db l (rr_tag_id r) \<noteq> None"
  shows "logger_accounts cx (refresh_batch_storage cx l ba (snd (insert_raw_batch l ba rows db))) k"
proof (cases "k = l")
  case False
  then show ?thesis using acc
    by (simp add: insert_raw_batch_def refresh_batch_storage_def logger_accounts_def Let_def)
next
  case True
  define all where "all = hd_rows db l ba @ new_rows (hd_rows db l ba) rows"
  note old = rows_of_batch [OF acc [unfolded True], of ba]
  have d: "distinct (map rr_tag_id all)"
  proof -
    have "distinct (map rr_tag_id (new_rows (hd_rows db l ba) rows))"
      using rows by (simp add: new_rows_def distinct_map_filter)
    moreover have "rr_tag_id ` set (hd_rows db l ba) \<inter> rr_tag_id ` set (new_rows (hd_rows db l ba) rows) = {}"
      by (auto simp: new_rows_def) (metis image_eqI)
    ultimately show ?thesis using old by (simp add: all_def)
  qed
  have "rr_tag_id r \<notin> hd_deleted db" if "r \<in> set rows" for r
    using acc True selected [OF that] by (simp add: logger_accounts_def)
  then have live: "filter (\<lambda>r. rr_tag_id r \<notin> hd_deleted db) all = all"
    using old by (auto simp: all_def new_rows_def filter_id_conv intro: filter_cong)
  have db': "hd_rows (snd (insert_raw_batch l ba rows db)) l = (hd_rows db l)(ba := all)"
    "hd_storage (snd (insert_raw_batch l ba rows db)) = hd_storage db"
    "hd_deleted (snd (insert_raw_batch l ba rows db)) = hd_deleted db"
    "hd_selected (snd (insert_raw_batch l ba rows db)) = hd_selected db"
    by (simp_all add: insert_raw_batch_def all_def Let_def)
  show ?thesis
  proof (cases "all = []")
    case empty: True
    then have "hd_rows db l ba = []" by (simp add: all_def)
    then show ?thesis using acc True empty
      by (simp add: refresh_batch_storage_def logger_accounts_def db' fun_upd_idem)
  next
    case False
    then have "accounts_for cx (hd_deleted db) all (batch_accounting cx ba all)"
      unfolding accounts_for_def using d live by (intro exI [of _ all]) (simp add: batch_accounting_def)
    then show ?thesis using acc True False
      by (auto simp: refresh_batch_storage_def logger_accounts_def db' distinct_map_filter)
        (simp_all add: batch_accounting_def)
  qed
qed

lemma add_raw_samples_distinct:
  "foldE (add_raw_sample cx) ss [] = Inr rows \<Longrightarrow> distinct (map rr_tag_id rows)"
  by (erule foldE_invariant [where P = "\<lambda>rows. distinct (map rr_tag_id rows)"])
    (auto simp: add_raw_sample_def bindE_Inr_iff normalize_raw_sample_def Let_def
      split: if_splits quality.splits option.splits)

lemma validate_selected_rows:
  "validate_selected db l rows = Inr u \<Longrightarrow> r \<in> set rows \<Longrightarrow> hd_selected db l (rr_tag_id r) \<noteq> None"
  by (auto simp: validate_selected_def Let_def split: if_splits)

lemma write_rows_effect:
  assumes "write_rows cx l ba rows now db = Inr (c, db')"
  shows "\<exists>policy db2. hd_policies db l = Some policy \<and>
           (\<forall>r \<in> set rows. hd_selected db l (rr_tag_id r) \<noteq> None) \<and>
           db2 = refresh_batch_storage cx l (cx_time cx ba) (snd (insert_raw_batch l (cx_time cx ba) rows db)) \<and>
           enforce_policy l policy now db2 = Inr db' \<and>
           committed_batch cx db' l ba (fst (insert_raw_batch l (cx_time cx ba) rows db)) = Inr c"
  using assms validate_selected_rows [of db l rows]
  by (auto simp: write_rows_def bindE_Inr_iff lock_policy_def split: option.splits prod.splits)

lemma write_batch_effect:
  assumes "write_batch cx b now db = (r, db')"
  shows "db' = db \<or> (\<exists>rows c. r = Inr c \<and> distinct (map rr_tag_id rows) \<and>
           write_rows cx (rb_logger_id b) (rb_batch_at b) rows now db = Inr (c, db'))"
  using assms add_raw_samples_distinct [of cx "rb_samples b"]
  by (auto simp: write_batch_def bindE_def split: if_splits sum.splits prod.splits)

lemma write_batch_inv [edge_inv]:
  assumes inv: "history_inv cx db" and w: "write_batch cx b now db = (r, db')"
  shows "history_inv cx db'"
  using write_batch_effect [OF w]
proof (elim disjE exE conjE)
  fix rows c assume rows: "distinct (map rr_tag_id rows)"
    "write_rows cx (rb_logger_id b) (rb_batch_at b) rows now db = Inr (c, db')"
  obtain policy db2 where "db2 = refresh_batch_storage cx (rb_logger_id b) (cx_time cx (rb_batch_at b))
      (snd (insert_raw_batch (rb_logger_id b) (cx_time cx (rb_batch_at b)) rows db))"
    and sel: "\<forall>r \<in> set rows. hd_selected db (rb_logger_id b) (rr_tag_id r) \<noteq> None"
    and db': "enforce_policy (rb_logger_id b) policy now db2 = Inr db'"
    using write_rows_effect [OF rows(2)] by blast
  then have "history_inv cx db2" using insert_refresh_accounts [OF _ rows(1)] inv by (simp add: history_inv_def)
  then show ?thesis using db' by (rule enforce_policy_inv)
qed (use inv in simp)

lemma status_accounts: "logger_accounts cx (db\<lparr>hd_status := x\<rparr>) k = logger_accounts cx db k"
  by (simp add: logger_accounts_def)

lemma cleanup_retention_inv [edge_inv]:
  "history_inv cx db \<Longrightarrow> cleanup_retention l t n db = (r, db') \<Longrightarrow> history_inv cx db'"
  by (auto simp: cleanup_retention_def cleanup_transaction_def bindE_Inr_iff history_inv_def Let_def delete_accounts
      status_accounts split: if_splits sum.splits prod.splits)

lemma enforce_retention_inv [edge_inv]:
  "history_inv cx db \<Longrightarrow> enforce_retention l p now db = (r, db') \<Longrightarrow> history_inv cx db'"
  by (auto simp: enforce_retention_def bindE_Inr_iff enforce_policy_inv split: if_splits sum.splits)

section \<open>The history as a system\<close>

text \<open>
  The transactions of the repository, the other writers of the logger and selection tables (which can
  only select tags that exist), and the deletion of tags and loggers.
\<close>

inductive history_step :: "db_codec \<Rightarrow> history_db \<Rightarrow> history_db \<Rightarrow> bool" for cx where
  step_write: "write_batch cx b now db = (r, db') \<Longrightarrow> history_step cx db db'"
| step_cleanup: "cleanup_retention l t n db = (r', db') \<Longrightarrow> history_step cx db db'"
| step_enforce: "enforce_retention l p now db = (r'', db') \<Longrightarrow> history_step cx db db'"
| step_loggers: "(\<And>l tag. sel l tag \<noteq> None \<Longrightarrow> tag \<notin> hd_deleted db) \<Longrightarrow>
     history_step cx db (db\<lparr>hd_policies := ps, hd_selected := sel\<rparr>)"
| step_delete_tag: "history_step cx db (delete_tag_values tag db)"
| step_delete_logger: "history_step cx db (delete_logger_history l db)"

definition empty_history :: "history_db \<Rightarrow> bool" where
  "empty_history db \<longleftrightarrow> hd_rows db = (\<lambda>l t. []) \<and> hd_storage db = (\<lambda>l. []) \<and> hd_deleted db = {}"

lemma history_inv_loggers:
  "history_inv cx db \<Longrightarrow> (\<And>l tag. sel l tag \<noteq> None \<Longrightarrow> tag \<notin> hd_deleted db) \<Longrightarrow>
   history_inv cx (db\<lparr>hd_policies := ps, hd_selected := sel\<rparr>)"
  by (simp add: history_inv_def logger_accounts_def)

lemma history_step_inv:
  assumes "history_step cx db db'" and inv: "history_inv cx db"
  shows "history_inv cx db'"
  using assms(1)
proof cases
  case step_loggers
  then show ?thesis using history_inv_loggers [OF inv] by blast
next
  case step_delete_tag
  then show ?thesis using inv delete_tag_accounts by (simp add: history_inv_def)
next
  case step_delete_logger
  then show ?thesis using inv delete_logger_accounts by (simp add: history_inv_def)
qed (use inv write_batch_inv cleanup_retention_inv enforce_retention_inv in blast)+

interpretation history: invariant_system empty_history "history_step cx" "history_inv cx" for cx
proof unfold_locales
  fix db db' :: history_db
  show "empty_history db \<Longrightarrow> history_inv cx db"
    by (simp add: empty_history_def history_inv_def logger_accounts_def)
  show "history_inv cx db \<Longrightarrow> history_step cx db db' \<Longrightarrow> history_inv cx db'" by (rule history_step_inv)
qed

section \<open>Staying within the limits\<close>

definition row_sizes_ok :: "db_codec \<Rightarrow> bool" where
  "row_sizes_ok cx \<longleftrightarrow> (\<forall>r. 0 \<le> cx_row_size cx r)"

lemma rows_bytes_filter: "row_sizes_ok cx \<Longrightarrow> rows_bytes cx (filter P rows) \<le> rows_bytes cx rows"
  by (induction rows) (auto simp: rows_bytes_def row_sizes_ok_def index_bytes_per_row_def intro: add_increasing)

lemma rows_bytes_nonneg: "row_sizes_ok cx \<Longrightarrow> 0 \<le> rows_bytes cx rows"
  by (auto simp: rows_bytes_def row_sizes_ok_def index_bytes_per_row_def intro!: sum_list_nonneg)

lemma accounts_for_bytes:
  assumes "accounts_for cx deleted rows b" "row_sizes_ok cx"
  shows "rows_bytes cx rows \<le> bs_size_bytes b"
proof -
  have "bs_size_bytes (batch_accounting cx t written) = rows_bytes cx written" for t written
    by (simp add: batch_accounting_def rows_bytes_def)
  then show ?thesis using assms(1) rows_bytes_filter [OF assms(2)] unfolding accounts_for_def by metis
qed

lemma sort_desc_listing:
  assumes "distinct (map bs_batch_at bs)"
  shows "sorted_wrt (\<lambda>a b. bs_batch_at b < bs_batch_at a) (sort_key (\<lambda>b. - bs_batch_at b) bs)"
proof -
  let ?ys = "sort_key (\<lambda>b. - bs_batch_at b) bs"
  have dist: "distinct (map (\<lambda>b. - bs_batch_at b) ?ys)" using assms by (simp add: distinct_map inj_on_def)
  then have "sorted_wrt (<) (map (\<lambda>b. - bs_batch_at b) ?ys)"
    by (simp add: strict_sorted_iff)
  then show ?thesis by (simp add: sorted_wrt_map)
qed

lemma list_batch_storage_listing:
  assumes "history_inv cx db" and "row_sizes_ok cx"
  shows "storage_listing (list_batch_storage db l)"
proof -
  have acc: "logger_accounts cx db l" using assms(1) by (simp add: history_inv_def)
  have "0 \<le> bs_size_bytes b" if "b \<in> set (hd_storage db l)" for b
    using acc that accounts_for_bytes [OF _ assms(2)] rows_bytes_nonneg [OF assms(2)]
    unfolding logger_accounts_def by (meson order_trans)
  then show ?thesis
    using acc sort_desc_listing [of "hd_storage db l"]
    by (simp add: storage_listing_def list_batch_storage_def logger_accounts_def)
qed

lemma list_after_delete:
  "list_batch_storage (delete_retention_batches l remove db) l = without_batches remove (list_batch_storage db l)"
  by (simp add: list_batch_storage_def delete_retention_batches_def without_batches_def filter_sort)

lemma sum_filter_mono:
  fixes f :: "'a \<Rightarrow> int"
  assumes "\<And>x. x \<in> set xs \<Longrightarrow> 0 \<le> f x" and "\<And>x. x \<in> set xs \<Longrightarrow> P x \<Longrightarrow> Q x"
  shows "sum_list (map f (filter P xs)) \<le> sum_list (map f (filter Q xs))"
  using assms
proof (induction xs)
  case (Cons x xs)
  then have "sum_list (map f (filter P xs)) \<le> sum_list (map f (filter Q xs))" and "0 \<le> f x" and "P x \<Longrightarrow> Q x"
    by auto
  then show ?case by auto
qed simp

lemma kept_bytes_fit:
  assumes listing: "storage_listing bs" and limit: "sp_max_size_bytes p = Some m" "0 \<le> m"
  shows "sum_list (map bs_size_bytes (filter (keeps_batch p t bs) bs)) \<le> m"
proof (cases "filter (keeps_batch p t bs) bs" rule: rev_cases)
  case (snoc ks b)
  let ?c = "retention_cutoff p t"
  have "b \<in> set (filter (keeps_batch p t bs) bs)" unfolding snoc by simp
  then have b: "keeps_batch p t bs b" by simp
  have asc: "sorted_wrt (\<lambda>a b. bs_batch_at b < bs_batch_at a) (ks @ [b])"
    using storage_listing_filter [OF listing, of "keeps_batch p t bs"] snoc by (simp add: storage_listing_def)
  have "sum_list (map bs_size_bytes (filter (keeps_batch p t bs) bs)) \<le> fresh_bytes ?c bs (bs_batch_at b)"
    unfolding fresh_bytes_def
  proof (rule sum_filter_mono)
    show "0 \<le> bs_size_bytes x" if "x \<in> set bs" for x using listing that by (simp add: storage_listing_def)
    fix x assume x: "x \<in> set bs" "keeps_batch p t bs x"
    then have "x \<in> set (filter (keeps_batch p t bs) bs)" by simp
    then have "x \<in> set (ks @ [b])" unfolding snoc .
    then have "bs_batch_at b \<le> bs_batch_at x" using asc by (auto simp: sorted_wrt_append)
    then show "\<not> batch_expired ?c x \<and> bs_batch_at b \<le> bs_batch_at x" using x(2) by (simp add: keeps_batch_def)
  qed
  then show ?thesis using b limit(1) by (simp add: keeps_batch_def)
qed (use limit in simp)

lemma storage_bytes_listing:
  assumes "history_inv cx db"
  shows "sum_list (map bs_size_bytes (list_batch_storage db l)) = sum_list (map bs_size_bytes (hd_storage db l))"
proof -
  have d: "distinct (hd_storage db l)" using assms by (simp add: history_inv_def logger_accounts_def distinct_map)
  then show ?thesis by (simp add: sum_list_distinct_conv_sum_set list_batch_storage_def)
qed

lemma enforce_policy_fits:
  assumes inv: "history_inv cx db" "row_sizes_ok cx" and e: "enforce_policy l p now db = Inr db'"
    and limit: "sp_max_size_bytes p = Some m" "0 \<le> m" and few: "length (hd_storage db l) \<le> max_retention_batch_limit"
  shows "sum_list (map bs_size_bytes (hd_storage db' l)) \<le> m"
proof -
  let ?bs = "list_batch_storage db l"
  note listing = list_batch_storage_listing [OF inv, of l]
  obtain s where s: "select_retention p ?bs now = Inr s"
    "db' = delete_retention_batches l (take max_retention_batch_limit (sel_candidates s)) db"
    using e by (auto simp: enforce_policy_def bindE_Inr_iff)
  have nonneg: "0 \<le> l" if "sp_max_size_bytes p = Some l" for l using limit that by simp
  define cands where "cands = rev (filter (\<lambda>b. \<not> keeps_batch p now ?bs b) ?bs)"
  have c: "sel_candidates s = cands"
    using s(1) by (auto simp: select_retention_eq [OF listing nonneg] cands_def Let_def split: if_splits)
  have "length cands \<le> length (hd_storage db l)"
    using length_filter_le [of "\<lambda>b. \<not> keeps_batch p now ?bs b" ?bs] by (simp add: cands_def list_batch_storage_def)
  then have "db' = delete_retention_batches l (take (length cands) cands) db" using s(2) c few by simp
  then have "list_batch_storage db' l = without_batches (take (length cands) cands) ?bs"
    by (simp only: list_after_delete)
  note rest = without_oldest [OF listing cands_def this]
  have "filter (\<lambda>b. \<not> keeps_batch p now ?bs b) (list_batch_storage db' l) = []" using rest(4) by simp
  then have "list_batch_storage db' l = filter (keeps_batch p now ?bs) ?bs"
    using rest(3) by (simp add: filter_empty_conv filter_id_conv)
  then show ?thesis
    using kept_bytes_fit [OF listing limit, of now] storage_bytes_listing [OF enforce_policy_inv [OF inv(1) e], of l] by simp
qed

lemma accounting_covers_rows:
  assumes "history_inv cx db" "row_sizes_ok cx"
  shows "logger_bytes cx db l \<le> sum_list (map bs_size_bytes (hd_storage db l))"
  unfolding logger_bytes_def using assms accounts_for_bytes [of cx "hd_deleted db"]
  by (intro sum_list_mono) (simp add: history_inv_def logger_accounts_def)

lemma write_batch_fits:
  assumes inv: "history_inv cx db" "row_sizes_ok cx" and w: "write_batch cx b now db = (Inr c, db')"
    and p: "hd_policies db (rb_logger_id b) = Some p" "sp_max_size_bytes p = Some m" "0 \<le> m"
    and few: "length (hd_storage db (rb_logger_id b)) < max_retention_batch_limit"
  shows "sum_list (map bs_size_bytes (hd_storage db' (rb_logger_id b))) \<le> m"
proof -
  let ?l = "rb_logger_id b" and ?t = "cx_time cx (rb_batch_at b)"
  obtain rows where rows: "distinct (map rr_tag_id rows)" "write_rows cx ?l (rb_batch_at b) rows now db = Inr (c, db')"
    using w add_raw_samples_distinct [of cx "rb_samples b"]
    by (auto simp: write_batch_def bindE_def split: if_splits sum.splits prod.splits)
  define db2 where "db2 = refresh_batch_storage cx ?l ?t (snd (insert_raw_batch ?l ?t rows db))"
  have e: "enforce_policy ?l p now db2 = Inr db'"
    using write_rows_effect [OF rows(2)] p(1) by (simp add: db2_def)
  have "history_inv cx db2"
    using insert_refresh_accounts [OF _ rows(1)] write_rows_effect [OF rows(2)] inv(1) by (auto simp: history_inv_def db2_def)
  moreover have "length (hd_storage db2 ?l) \<le> max_retention_batch_limit"
    using few le_less_trans [OF length_filter_le few]
    by (simp add: db2_def refresh_batch_storage_def insert_raw_batch_def Let_def Suc_leI)
  ultimately show ?thesis using enforce_policy_fits [OF _ inv(2) e p(2,3)] by blast
qed

section \<open>Cleaning up\<close>

lemma batch_count [simp]: "rm_batch_count (retention_metrics_of bs) = int (length bs)"
proof -
  have "rm_batch_count (foldl add_batch_metrics m bs) = rm_batch_count m + int (length bs)" for m
    by (induction bs arbitrary: m) (simp_all add: add_batch_metrics_def)
  then show ?thesis by (simp add: retention_metrics_of_def)
qed

definition kept_count :: "storage_policy \<Rightarrow> gotime \<Rightarrow> batch_storage list \<Rightarrow> nat" where
  "kept_count p t bs = length (filter (keeps_batch p t bs) bs)"

text \<open>What a plan retains is a beginning of the listing, newest first; a later plan retains no more.\<close>

lemma kept_count_le: "kept_count p t bs \<le> length bs"
  by (simp add: kept_count_def)

lemma filter_downward:
  assumes "sorted_wrt R xs" "\<And>a b. R a b \<Longrightarrow> a \<in> set xs \<Longrightarrow> b \<in> set xs \<Longrightarrow> P b \<Longrightarrow> P a"
  shows "filter P xs = take (length (filter P xs)) xs"
  using assms
proof (induction xs)
  case (Cons x xs)
  have ih: "filter P xs = take (length (filter P xs)) xs" using Cons.IH Cons.prems by auto
  show ?case
  proof (cases "P x")
    case False
    then have "filter P xs = []" using Cons.prems by (auto simp: filter_empty_conv)
    then show ?thesis using False by simp
  qed (use ih in simp)
qed simp

lemma keeps_newer:
  assumes listing: "storage_listing bs" and newer: "bs_batch_at b < bs_batch_at a" "keeps_batch p t bs b"
  shows "keeps_batch p t bs a"
proof -
  have "fresh_bytes c bs (bs_batch_at a) \<le> fresh_bytes c bs (bs_batch_at b)" for c
    using fresh_bytes_antimono [OF listing] newer(1) by simp
  then show ?thesis using newer
    by (auto simp: keeps_batch_def batch_expired_def split: option.splits intro: order_trans)
qed

lemma kept_prefix: "storage_listing bs \<Longrightarrow> filter (keeps_batch p t bs) bs = take (kept_count p t bs) bs"
  unfolding kept_count_def
  by (rule filter_downward [where R = "\<lambda>a b. bs_batch_at b < bs_batch_at a"])
    (auto simp: storage_listing_def intro: keeps_newer)

lemma filter_not_prefix:
  assumes "distinct xs" "filter P xs = take k xs"
  shows "filter (\<lambda>x. \<not> P x) xs = drop k xs"
proof -
  have xs: "xs = take k xs @ drop k xs" by simp
  have dis: "set (take k xs) \<inter> set (drop k xs) = {}" using assms(1) by (simp add: set_take_disj_set_drop_if_distinct)
  have p: "P x \<longleftrightarrow> x \<in> set (take k xs)" if "x \<in> set xs" for x using assms(2) that by (metis (mono_tags, lifting) filter_set mem_Collect_eq set_filter)
  have "filter (\<lambda>x. \<not> P x) (take k xs) = []" using p by (auto simp: filter_empty_conv dest: in_set_takeD)
  moreover have "filter (\<lambda>x. \<not> P x) (drop k xs) = drop k xs"
    using p dis by (auto simp: filter_id_conv dest: in_set_dropD)
  ultimately show ?thesis by (subst xs) (simp only: filter_append append_Nil)
qed

lemma listing_distinct: "storage_listing bs \<Longrightarrow> distinct (map bs_batch_at bs)"
  unfolding storage_listing_def by (elim conjE) (induction bs, auto)

lemma dropped_suffix:
  "storage_listing bs \<Longrightarrow> filter (\<lambda>b. \<not> keeps_batch p t bs b) bs = drop (kept_count p t bs) bs"
  using filter_not_prefix [OF _ kept_prefix] listing_distinct by (auto simp: distinct_map)

lemma without_newest_suffix:
  assumes listing: "storage_listing bs" and k: "k \<le> length bs"
  shows "without_batches (take n (rev (drop k bs))) bs = take (max k (length bs - n)) bs"
proof -
  let ?j = "max k (length bs - n)"
  have "take n (rev (drop k bs)) = rev (drop (length (drop k bs) - n) (drop k bs))" by (rule take_rev)
  also have "\<dots> = rev (drop ?j bs)" using k by (simp add: max_def) (auto intro: arg_cong [where f = "\<lambda>i. drop i bs"])
  finally have cut: "set (take n (rev (drop k bs))) = set (drop ?j bs)" by simp
  have "distinct (map bs_batch_at bs)" using listing by (rule listing_distinct)
  then have "bs_batch_at b \<in> bs_batch_at ` set (drop ?j bs) \<longleftrightarrow> b \<in> set (drop ?j bs)" if "b \<in> set bs" for b
    using that by (auto simp: distinct_map inj_on_def dest: in_set_dropD)
  then have "without_batches (take n (rev (drop k bs))) bs = filter (\<lambda>b. b \<notin> set (drop ?j bs)) bs"
    unfolding without_batches_def cut by (auto intro: filter_cong)
  also have "\<dots> = filter (\<lambda>b. b \<notin> set (drop ?j bs)) (take ?j bs @ drop ?j bs)" by simp
  also have "\<dots> = take ?j bs"
    using listing_distinct [OF listing] set_take_disj_set_drop_if_distinct [of bs ?j ?j]
    by (simp only: filter_append) (auto simp: filter_id_conv filter_empty_conv distinct_map)
  finally show ?thesis .
qed

lemma storage_listing_take: "storage_listing bs \<Longrightarrow> storage_listing (take m bs)"
  by (auto simp: storage_listing_def sorted_wrt_take dest: in_set_takeD)

lemma keeps_take:
  assumes listing: "storage_listing bs" and b: "b \<in> set (take m bs)"
  shows "keeps_batch p t (take m bs) b = keeps_batch p t bs b"
proof -
  have "sorted_wrt (\<lambda>a b. bs_batch_at b < bs_batch_at a) (take m bs @ drop m bs)"
    using listing by (simp add: storage_listing_def)
  then have "\<forall>x \<in> set (drop m bs). bs_batch_at x < bs_batch_at b" using b by (simp only: sorted_wrt_append) blast
  then have "filter (\<lambda>x. \<not> batch_expired c x \<and> bs_batch_at b \<le> bs_batch_at x) (drop m bs) = []" for c
    by (auto simp: filter_empty_conv)
  then have "filter (\<lambda>x. \<not> batch_expired c x \<and> bs_batch_at b \<le> bs_batch_at x) (take m bs @ drop m bs) =
      filter (\<lambda>x. \<not> batch_expired c x \<and> bs_batch_at b \<le> bs_batch_at x) (take m bs)" for c
    by (simp only: filter_append append_Nil2)
  then have "fresh_bytes c (take m bs) (bs_batch_at b) = fresh_bytes c bs (bs_batch_at b)" for c
    by (simp add: fresh_bytes_def)
  then show ?thesis by (simp add: keeps_batch_def split: option.splits)
qed

lemma kept_count_take:
  assumes listing: "storage_listing bs" and k: "kept_count p t bs \<le> m"
  shows "kept_count p t (take m bs) = kept_count p t bs"
proof -
  let ?P = "keeps_batch p t bs"
  have "filter (keeps_batch p t (take m bs)) (take m bs) = filter ?P (take m bs)"
    using keeps_take [OF listing] by (auto intro: filter_cong)
  moreover have "filter ?P (drop m bs) = []"
  proof -
    have "set (drop m bs) \<subseteq> set (filter (\<lambda>b. \<not> ?P b) bs)"
      unfolding dropped_suffix [OF listing] using k by (rule set_drop_subset_set_drop)
    then show ?thesis by (auto simp: filter_empty_conv)
  qed
  moreover have "length (filter ?P bs) = length (filter ?P (take m bs)) + length (filter ?P (drop m bs))"
    by (metis append_take_drop_id filter_append length_append)
  ultimately show ?thesis by (simp add: kept_count_def)
qed

lemma newest_fits_take: "newest_fits p t bs \<Longrightarrow> newest_fits p t (take m bs)"
proof -
  let ?f = "filter (\<lambda>b. \<not> batch_expired (retention_cutoff p t) b)"
  have "?f bs = ?f (take m bs) @ ?f (drop m bs)" by (metis append_take_drop_id filter_append)
  then show "newest_fits p t bs \<Longrightarrow> ?thesis" by (auto simp: newest_fits_def split: option.splits list.splits)
qed

lemma expired_later: "t \<le> u \<Longrightarrow> batch_expired (retention_cutoff p t) b \<Longrightarrow> batch_expired (retention_cutoff p u) b"
  by (auto simp: batch_expired_def retention_cutoff_def split: option.splits)

lemma fresh_bytes_live:
  assumes "\<not> batch_expired (retention_cutoff p t) b"
  shows "fresh_bytes (retention_cutoff p t) bs (bs_batch_at b) =
    sum_list (map bs_size_bytes (filter (\<lambda>x. bs_batch_at b \<le> bs_batch_at x) bs))"
proof -
  have "(\<not> batch_expired (retention_cutoff p t) x \<and> bs_batch_at b \<le> bs_batch_at x) = (bs_batch_at b \<le> bs_batch_at x)" for x
    using assms by (auto simp: batch_expired_def split: option.splits)
  then show ?thesis by (simp add: fresh_bytes_def)
qed

lemma keeps_earlier: "t \<le> u \<Longrightarrow> keeps_batch p u bs b \<Longrightarrow> keeps_batch p t bs b"
proof -
  assume tu: "t \<le> u" and k: "keeps_batch p u bs b"
  then have "\<not> batch_expired (retention_cutoff p u) b" by (simp add: keeps_batch_def)
  moreover then have "\<not> batch_expired (retention_cutoff p t) b" using expired_later [OF tu] by blast
  ultimately show "keeps_batch p t bs b" using k by (simp add: keeps_batch_def fresh_bytes_live split: option.splits)
qed

lemma kept_count_antimono:
  assumes "t \<le> u" shows "kept_count p u bs \<le> kept_count p t bs"
proof -
  have "filter (keeps_batch p u bs) bs = filter (keeps_batch p u bs) (filter (keeps_batch p t bs) bs)"
    using keeps_earlier [OF assms] by (auto intro: filter_cong)
  then show ?thesis unfolding kept_count_def by (metis length_filter_le)
qed

lemma newest_fits_later:
  assumes listing: "storage_listing bs" and tu: "t \<le> u" and fits: "newest_fits p t bs"
  shows "newest_fits p u bs"
proof (cases "filter (\<lambda>b. \<not> batch_expired (retention_cutoff p u) b) bs")
  case (Cons b xs)
  obtain pre post where bs: "bs = pre @ b # post" "\<forall>x \<in> set pre. batch_expired (retention_cutoff p u) x"
      "\<not> batch_expired (retention_cutoff p u) b"
    using Cons by (auto simp: filter_eq_Cons_iff)
  have "pre = []"
  proof (rule ccontr)
    assume "pre \<noteq> []"
    then obtain x where x: "x \<in> set pre" by (cases pre) auto
    then have "bs_batch_at b < bs_batch_at x" using listing by (auto simp: storage_listing_def bs(1) sorted_wrt_append)
    then show False using bs(2,3) x by (auto simp: batch_expired_def split: option.splits)
  qed
  moreover have "\<not> batch_expired (retention_cutoff p t) b" using expired_later [OF tu] bs(3) by blast
  ultimately show ?thesis using fits bs(1,3) by (auto simp: newest_fits_def split: option.splits)
qed (simp add: newest_fits_def split: option.splits)

lemma take_eq_lengths: "m \<le> length xs \<Longrightarrow> k \<le> length xs \<Longrightarrow> (take m xs = take k xs) = (m = k)"
  by (metis length_take min.absorb2)

lemma runs_suffice:
  fixes m :: nat
  assumes "m \<le> max k1 (len - gone)" "len - k \<le> min (len - k1) gone + n" "k1 \<le> len" "k \<le> k1"
  shows "m - n \<le> k"
  using assms by (auto simp: max_def min_def split: if_splits)

lemma cleanup_run:
  assumes inv: "history_inv cx db" "row_sizes_ok cx" and args: "l \<noteq> uuid_nil" "t \<noteq> 0" "1 \<le> n" "n \<le> int max_retention_batch_limit"
    and p: "hd_policies db l = Some p" and limit: "\<And>m. sp_max_size_bytes p = Some m \<Longrightarrow> 0 \<le> m"
    and fits: "newest_fits p t (list_batch_storage db l)"
  shows "\<exists>res db'. cleanup_retention l t n db = (Inr res, db') \<and> hd_policies db' l = Some p \<and>
           list_batch_storage db' l = take (max (kept_count p t (list_batch_storage db l))
             (length (list_batch_storage db l) - nat n)) (list_batch_storage db l) \<and>
           cr_complete res = (length (list_batch_storage db l) - nat n \<le> kept_count p t (list_batch_storage db l))"
proof -
  let ?bs = "list_batch_storage db l"
  let ?K = "kept_count p t ?bs"
  note listing = list_batch_storage_listing [OF inv, of l]
  obtain s where s: "select_retention p ?bs t = Inr s" "sel_candidates s = rev (drop ?K ?bs)"
    using fits dropped_suffix [OF listing] by (auto simp: select_retention_eq [OF listing limit] Let_def)
  define remove where "remove = take (nat n) (sel_candidates s)"
  define db1 where "db1 = delete_retention_batches l remove db"
  have list1: "list_batch_storage db1 l = take (max ?K (length ?bs - nat n)) ?bs"
    using without_newest_suffix [OF listing kept_count_le] by (simp add: db1_def list_after_delete remove_def s(2))
  obtain s' where s': "select_retention p (list_batch_storage db1 l) t = Inr s'" "sel_candidates s' = drop (nat n) (sel_candidates s)"
    using select_retention_rest [OF listing limit s(1)] by (auto simp: db1_def remove_def list_after_delete)
  have remaining: "rp_remove (sel_plan s') = retention_metrics_of (sel_candidates s')"
    using s'(1) by (auto simp: select_retention_def bindE_Inr_iff)
  define res where "res = \<lparr>cr_deleted = retention_metrics_of remove,
      cr_retained = retention_metrics_of (list_batch_storage db1 l),
      cr_remaining = rp_remove (sel_plan s'), cr_complete = (rm_batch_count (rp_remove (sel_plan s')) = 0)\<rparr>"
  define db' where "db' = db1\<lparr>hd_status := (hd_status db1)(l \<mapsto> CleanupDone res)\<rparr>"
  have "cleanup_retention l t n db = (Inr res, db')"
    using args p s(1) s'(1)
    by (simp add: cleanup_retention_def cleanup_transaction_def lock_policy_def Let_def db'_def res_def
        remove_def [symmetric] db1_def [symmetric])
  moreover have "list_batch_storage db' l = list_batch_storage db1 l" "hd_policies db' l = Some p"
    using p by (simp_all add: db'_def db1_def list_batch_storage_def delete_retention_batches_def)
  moreover have "cr_complete res = (length ?bs - nat n \<le> ?K)"
    by (auto simp: res_def remaining s'(2) s(2))
  ultimately show ?thesis using list1 by metis
qed

text \<open>
  Cleanup runs one after another, each at the instant it takes from the clock: those of the retention
  runtime (one for each of its rounds) and those the handler starts, with no write in between.
\<close>

fun cleanup_runs :: "uuid \<Rightarrow> gotime list \<Rightarrow> int \<Rightarrow> history_db \<Rightarrow> history_db" where
  "cleanup_runs l [] n db = db"
| "cleanup_runs l (t # ts) n db = cleanup_runs l ts n (snd (cleanup_retention l t n db))"

lemma cleanup_runs_take:
  assumes "history_inv cx db" "row_sizes_ok cx" and "l \<noteq> uuid_nil" "0 \<notin> set ts" "1 \<le> n" "n \<le> int max_retention_batch_limit"
    and "hd_policies db l = Some p" and "\<And>m. sp_max_size_bytes p = Some m \<Longrightarrow> 0 \<le> m"
    and listing: "storage_listing bs" and "list_batch_storage db l = take m bs" "m \<le> length bs"
    and "\<And>u. u \<in> set ts \<Longrightarrow> newest_fits p u bs" and "sorted ts"
    and "\<And>u. u \<in> set ts \<Longrightarrow> kept_count p u bs \<le> m"
  shows "\<exists>m'. history_inv cx (cleanup_runs l ts n db) \<and> hd_policies (cleanup_runs l ts n db) l = Some p \<and>
           list_batch_storage (cleanup_runs l ts n db) l = take m' bs \<and> m' \<le> length bs \<and>
           (\<forall>u. (\<forall>v \<in> set ts. v \<le> u) \<and> kept_count p u bs \<le> m \<longrightarrow> kept_count p u bs \<le> m') \<and>
           (ts \<noteq> [] \<longrightarrow> m' \<le> max (kept_count p (hd ts) bs) (m - length ts * nat n))"
  using assms(1,4,7,10-14)
proof (induction ts arbitrary: db m)
  case (Cons t ts)
  let ?K = "kept_count p t bs"
  have bs: "storage_listing (take m bs)" "kept_count p t (take m bs) = ?K" "newest_fits p t (take m bs)"
    using storage_listing_take [OF listing] kept_count_take [OF listing] Cons.prems newest_fits_take by auto
  obtain res db' where run: "cleanup_retention l t n db = (Inr res, db')" "hd_policies db' l = Some p"
    "list_batch_storage db' l = take (max ?K (m - nat n)) (take m bs)"
    using cleanup_run [OF Cons.prems(1) assms(2,3) _ assms(5,6) Cons.prems(3) assms(8), of t] Cons.prems bs by auto
  have km: "?K \<le> m" using Cons.prems(8) by simp
  have list': "list_batch_storage db' l = take (max ?K (m - nat n)) bs" "max ?K (m - nat n) \<le> length bs"
    using run(3) km Cons.prems(5) by (auto simp: min_absorb1 min_def)
  have later: "kept_count p u bs \<le> ?K" if "t \<le> u" for u using kept_count_antimono [OF that] .
  have "\<exists>m'. history_inv cx (cleanup_runs l ts n db') \<and> hd_policies (cleanup_runs l ts n db') l = Some p \<and>
           list_batch_storage (cleanup_runs l ts n db') l = take m' bs \<and> m' \<le> length bs \<and>
           (\<forall>u. (\<forall>v \<in> set ts. v \<le> u) \<and> kept_count p u bs \<le> max ?K (m - nat n) \<longrightarrow> kept_count p u bs \<le> m') \<and>
           (ts \<noteq> [] \<longrightarrow> m' \<le> max (kept_count p (hd ts) bs) (max ?K (m - nat n) - length ts * nat n))"
  proof (rule Cons.IH [OF cleanup_retention_inv [OF Cons.prems(1) run(1)] _ run(2) list'])
    show "kept_count p u bs \<le> max ?K (m - nat n)" if "u \<in> set ts" for u
      using later [of u] Cons.prems(7) that by (simp add: le_max_iff_disj)
  qed (use Cons.prems in auto)
  then obtain m' where m': "history_inv cx (cleanup_runs l ts n db')" "hd_policies (cleanup_runs l ts n db') l = Some p"
    "list_batch_storage (cleanup_runs l ts n db') l = take m' bs" "m' \<le> length bs"
    "\<And>u. (\<forall>v \<in> set ts. v \<le> u) \<Longrightarrow> kept_count p u bs \<le> max ?K (m - nat n) \<Longrightarrow> kept_count p u bs \<le> m'"
    "ts \<noteq> [] \<Longrightarrow> m' \<le> max (kept_count p (hd ts) bs) (max ?K (m - nat n) - length ts * nat n)"
    by blast
  have "m' \<le> max ?K (m - length (t # ts) * nat n)"
  proof (cases ts)
    case Nil
    then have "take m' bs = take (max ?K (m - nat n)) bs" using m'(3) list'(1) by simp
    then have "length (take m' bs) = length (take (max ?K (m - nat n)) bs)" by simp
    then show ?thesis using m'(4) list'(2) Nil by simp
  next
    case (Cons u us)
    then have "kept_count p u bs \<le> ?K" using later \<open>sorted (t # ts)\<close> by simp
    moreover have "max ?K (m - nat n) - i \<le> max ?K (m - (nat n + i))" for i by (simp add: max_def)
    note this [of "length ts * nat n"]
    moreover have "m' \<le> max (kept_count p u bs) (max ?K (m - nat n) - length ts * nat n)" using m'(6) Cons by simp
    ultimately show ?thesis by (simp add: max_def split: if_splits)
  qed
  moreover have "kept_count p u bs \<le> m'" if "\<forall>v \<in> set (t # ts). v \<le> u" for u
    using m'(5) [of u] later [of u] that by (simp add: le_max_iff_disj)
  ultimately show ?case using m'(1-4) run(1) by auto
qed auto

section \<open>Properties\<close>

text \<open>
  C20: In every reachable state of the history (writes, cleanups, changes of loggers, selections and
  policies, and the deletion of tags and loggers, in any order) a logger has one accounting row for
  each instant it has rows for. The accounting row is exact for the rows the transactions wrote for
  the instant: it counts all of them and their bytes, and the rows present are those of them whose tag
  has not been deleted, at most one for a tag; so the bytes accounted never fall below the bytes of
  the rows. A write that succeeds on a logger with a size limit and fewer than ten thousand batches
  leaves the accounting, and so the rows, within the limit.
\<close>

theorem raw_history_accounting:
  assumes "reachable empty_history (history_step cx) db" and "row_sizes_ok cx"
    and "write_batch cx b now db = (Inr c, db')"
    and "hd_policies db (rb_logger_id b) = Some p" "sp_max_size_bytes p = Some m" "0 \<le> m"
    and "length (hd_storage db (rb_logger_id b)) < max_retention_batch_limit"
  shows "(\<forall>l. logger_accounts cx db l \<and> logger_accounts cx db' l) \<and>
         (\<forall>l t. distinct (map rr_tag_id (hd_rows db' l t)) \<and>
            (\<forall>r \<in> set (hd_rows db' l t). rr_tag_id r \<notin> hd_deleted db')) \<and>
         sum_list (map bs_size_bytes (hd_storage db' (rb_logger_id b))) \<le> m \<and>
         logger_bytes cx db' (rb_logger_id b) \<le> sum_list (map bs_size_bytes (hd_storage db' (rb_logger_id b)))"
proof -
  have inv: "history_inv cx db" using assms(1) by (rule history.reachable_inv)
  then have inv': "history_inv cx db'" using assms(3) by (rule write_batch_inv)
  show ?thesis
    using inv inv' write_batch_fits [OF inv assms(2-7)] accounting_covers_rows [OF inv' assms(2)]
      rows_of_batch [of cx db'] by (simp add: history_inv_def)
qed

definition example_codec :: db_codec where
  "example_codec = \<lparr>cx_time = (\<lambda>t. t), cx_marshal = (\<lambda>v. if v = VNil then Some ''null'' else Some ''5''),
     cx_unmarshal = (\<lambda>d s. Some (VInt16 5)), cx_row_size = (\<lambda>r. 8)\<rparr>"

definition example_history :: history_db where
  "example_history = \<lparr>hd_policies = [7 \<mapsto> \<lparr>sp_max_size_bytes = Some 300, sp_max_age_seconds = None\<rparr>],
     hd_selected = (\<lambda>l. [1 \<mapsto> DTInt16]), hd_rows = (\<lambda>l t. []), hd_storage = (\<lambda>l. []), hd_status = Map.empty, hd_deleted = {}\<rparr>"

lemma first_batch_written:
  "fst (write_batch example_codec (example_batch 10) 10 example_history) = Inr (Some (example_batch 10))"
  by code_simp

theorem raw_history_accounting_witness:
  "logger_accounts example_codec (snd (write_batch example_codec (example_batch 10) 10 example_history)) 7"
proof -
  have r: "reachable empty_history (history_step example_codec) example_history"
    by (rule reachable_init) (simp add: empty_history_def example_history_def)
  have ok: "row_sizes_ok example_codec" by (simp add: row_sizes_ok_def example_codec_def)
  have few: "length (hd_storage example_history (rb_logger_id (example_batch 10))) < max_retention_batch_limit"
    by (simp add: example_history_def max_retention_batch_limit_def)
  have w: "write_batch example_codec (example_batch 10) 10 example_history =
      (Inr (Some (example_batch 10)), snd (write_batch example_codec (example_batch 10) 10 example_history))"
    using first_batch_written by (metis prod.collapse)
  have p: "hd_policies example_history (rb_logger_id (example_batch 10)) =
      Some \<lparr>sp_max_size_bytes = Some 300, sp_max_age_seconds = None\<rparr>"
    by (simp add: example_batch_def example_history_def)
  show ?thesis using raw_history_accounting [OF r ok w p _ _ few, of 300] by simp
qed

text \<open>
  C21: Cleaning up in steps ends. Cleanup runs of \<open>n\<close> batches each, one after another at instants
  that do not go back, with no write and no change of the policy in between: every run succeeds; no
  batch that the plan of the last instant retains is ever removed; with enough runs for the plan of
  the first instant every batch of that plan is gone; and a run reports completion exactly when what
  is left is the batches the plan of its own instant retains of the first listing, which it does as
  soon as the earlier runs have left it at most \<open>n\<close> batches.
\<close>

theorem cleanup_runs_complete:
  assumes "history_inv cx db" "row_sizes_ok cx" and "l \<noteq> uuid_nil" "0 \<notin> set (ts @ [t])" "1 \<le> n" "n \<le> int max_retention_batch_limit"
    and "hd_policies db l = Some p" and "\<And>m. sp_max_size_bytes p = Some m \<Longrightarrow> 0 \<le> m"
    and "sorted (ts @ [t])" and "bs = list_batch_storage db l"
    and "select_retention p bs (hd (ts @ [t])) = Inr plan" and "select_retention p bs t = Inr last_plan"
  shows "\<exists>res db'. cleanup_retention l t n (cleanup_runs l ts n db) = (Inr res, db') \<and>
           set (filter (keeps_batch p t bs) bs) \<subseteq> set (list_batch_storage db' l) \<and>
           (length (sel_candidates plan) \<le> Suc (length ts) * nat n \<longrightarrow>
              set (list_batch_storage db' l) \<subseteq> set (filter (keeps_batch p (hd (ts @ [t])) bs) bs)) \<and>
           cr_complete res = (list_batch_storage db' l = filter (keeps_batch p t bs) bs) \<and>
           (length (sel_candidates last_plan) \<le> min (length (sel_candidates plan)) (length ts * nat n) + nat n \<longrightarrow> cr_complete res)"
proof -
  let ?K = "\<lambda>u. kept_count p u bs" and ?t1 = "hd (ts @ [t])"
  have listing: "storage_listing bs" using list_batch_storage_listing [OF assms(1,2)] assms(10) by simp
  have begins: "newest_fits p ?t1 bs" "length (sel_candidates plan) = length bs - ?K ?t1"
    and ends: "length (sel_candidates last_plan) = length bs - ?K t"
    using assms(11,12) dropped_suffix [OF listing]
    by (auto simp: select_retention_eq [OF listing assms(8)] Let_def split: if_splits)
  have later: "?t1 \<le> u" if "u \<in> set (ts @ [t])" for u using assms(9) that by (cases ts) auto
  have fits: "newest_fits p u bs" if "u \<in> set (ts @ [t])" for u using newest_fits_later [OF listing later [OF that] begins(1)] .
  have "\<exists>m. history_inv cx (cleanup_runs l ts n db) \<and> hd_policies (cleanup_runs l ts n db) l = Some p \<and>
      list_batch_storage (cleanup_runs l ts n db) l = take m bs \<and> m \<le> length bs \<and>
      (\<forall>u. (\<forall>v \<in> set ts. v \<le> u) \<and> ?K u \<le> length bs \<longrightarrow> ?K u \<le> m) \<and>
      (ts \<noteq> [] \<longrightarrow> m \<le> max (?K (hd ts)) (length bs - length ts * nat n))"
    by (rule cleanup_runs_take [OF assms(1-3) _ assms(5-8) listing])
      (use assms(4,9,10) fits kept_count_le in \<open>simp_all add: sorted_append\<close>)
  then obtain m where m: "history_inv cx (cleanup_runs l ts n db)" "hd_policies (cleanup_runs l ts n db) l = Some p"
    "list_batch_storage (cleanup_runs l ts n db) l = take m bs" "m \<le> length bs"
    "(\<forall>v \<in> set ts. v \<le> t) \<and> ?K t \<le> length bs \<longrightarrow> ?K t \<le> m"
    "ts \<noteq> [] \<Longrightarrow> m \<le> max (?K (hd ts)) (length bs - length ts * nat n)"
    by blast
  have km: "?K t \<le> m" using m(5) assms(9) kept_count_le by (simp add: sorted_append)
  have cut: "kept_count p t (take m bs) = ?K t" "newest_fits p t (take m bs)"
    using kept_count_take [OF listing km] newest_fits_take fits [of t] by auto
  have cur: "length (take m bs) = m" "take (max (?K t) (m - nat n)) (take m bs) = take (max (?K t) (m - nat n)) bs"
    using m(4) km by (simp_all add: min_absorb1 min_absorb2)
  obtain res db' where run: "cleanup_retention l t n (cleanup_runs l ts n db) = (Inr res, db')"
    "list_batch_storage db' l = take (max (?K t) (m - nat n)) bs" "cr_complete res = (m - nat n \<le> ?K t)"
    using cleanup_run [OF m(1) assms(2,3) _ assms(5,6) m(2) assms(8), of t] assms(4) cut cur unfolding m(3) by auto
  have kept: "filter (keeps_batch p u bs) bs = take (?K u) bs" for u using kept_prefix [OF listing] .
  have mono: "?K t \<le> ?K ?t1" using kept_count_antimono [OF later] by simp
  have bound: "m \<le> max (?K ?t1) (length bs - length ts * nat n)" using m(4,6) by (cases ts) auto
  have "set (filter (keeps_batch p t bs) bs) \<subseteq> set (list_batch_storage db' l)"
    unfolding kept run(2) by (rule set_take_subset_set_take) simp
  moreover have "set (list_batch_storage db' l) \<subseteq> set (filter (keeps_batch p ?t1 bs) bs)"
    if "length (sel_candidates plan) \<le> Suc (length ts) * nat n"
  proof -
    have "max (?K t) (m - nat n) \<le> ?K ?t1" using that bound mono begins(2) by auto
    then show ?thesis unfolding kept run(2) by (rule set_take_subset_set_take)
  qed
  moreover have "cr_complete res = (list_batch_storage db' l = filter (keeps_batch p t bs) bs)"
  proof -
    have "?K t \<le> length bs" "max (?K t) (m - nat n) \<le> length bs" using kept_count_le m(4) by auto
    then show ?thesis unfolding kept run(2,3) by (auto simp: take_eq_lengths max_def)
  qed
  moreover have "cr_complete res"
    if "length (sel_candidates last_plan) \<le> min (length (sel_candidates plan)) (length ts * nat n) + nat n"
    unfolding run(3) using that unfolding begins(2) ends by (rule runs_suffice [OF bound _ kept_count_le mono])
  ultimately show ?thesis using run(1) by blast
qed

definition crowded_history :: history_db where
  "crowded_history = example_history\<lparr>hd_rows := (\<lambda>l t. if l = 7 \<and> t \<in> {10, 20, 30}
       then [\<lparr>rr_tag_id = 1, rr_observed_at = t, rr_data_type = DTInt16, rr_payload = Some ''5'', rr_quality = QualityGood,
              rr_error = None\<rparr>] else []),
     hd_storage := (\<lambda>l. if l = 7 then map (\<lambda>t. \<lparr>bs_batch_at = t, bs_row_count = 1, bs_size_bytes = 200\<rparr>) [20, 10, 30] else [])\<rparr>"

lemma crowded_inv: "history_inv example_codec crowded_history"
proof -
  have "accounts_for example_codec {} (hd_rows crowded_history 7 (bs_batch_at b)) b"
    if "b \<in> set (hd_storage crowded_history 7)" for b
    unfolding accounts_for_def using that
    by (intro exI [of _ "hd_rows crowded_history 7 (bs_batch_at b)"])
      (auto simp: crowded_history_def batch_accounting_def example_codec_def index_bytes_per_row_def)
  then have "logger_accounts example_codec crowded_history 7"
    by (auto simp: logger_accounts_def crowded_history_def example_history_def)
  moreover have "l \<noteq> 7 \<Longrightarrow> logger_accounts example_codec crowded_history l" for l
    by (simp add: logger_accounts_def crowded_history_def example_history_def)
  ultimately show ?thesis unfolding history_inv_def by metis
qed

theorem cleanup_runs_complete_witness:
  "\<exists>res db'. cleanup_retention 7 50 1 (cleanup_runs 7 [40] 1 crowded_history) = (Inr res, db') \<and>
     map bs_batch_at (list_batch_storage db' 7) = [30] \<and> cr_complete res"
proof -
  let ?p = "\<lparr>sp_max_size_bytes = Some 300, sp_max_age_seconds = None\<rparr>" and ?bs = "list_batch_storage crowded_history 7"
  have ok: "row_sizes_ok example_codec" by (simp add: row_sizes_ok_def example_codec_def)
  have p: "hd_policies crowded_history 7 = Some ?p" by (simp add: crowded_history_def example_history_def)
  have bs: "?bs = map (\<lambda>t. \<lparr>bs_batch_at = t, bs_row_count = 1, bs_size_bytes = 200\<rparr>) [30, 20, 10]"
    by (simp add: list_batch_storage_def crowded_history_def)
  have keep: "filter (keeps_batch ?p t ?bs) ?bs = [\<lparr>bs_batch_at = 30, bs_row_count = 1, bs_size_bytes = 200\<rparr>]" for t
    unfolding bs by (simp add: keeps_batch_def batch_expired_def retention_cutoff_def fresh_bytes_def)
  have listing: "storage_listing ?bs" unfolding bs by (simp add: storage_listing_def)
  have s: "\<exists>s. select_retention ?p ?bs t = Inr s \<and> length (sel_candidates s) = 2" for t
  proof -
    have "newest_fits ?p t ?bs" unfolding bs by (simp add: newest_fits_def batch_expired_def retention_cutoff_def)
    moreover have "length (filter (\<lambda>b. \<not> keeps_batch ?p t ?bs b) ?bs) = 2"
      unfolding bs by (simp add: keeps_batch_def batch_expired_def retention_cutoff_def fresh_bytes_def)
    ultimately show ?thesis using select_retention_eq [OF listing, where policy = ?p and t = t] by (auto simp: Let_def)
  qed
  obtain s1 s2 where s12: "select_retention ?p ?bs (hd ([40] @ [50])) = Inr s1" "select_retention ?p ?bs 50 = Inr s2"
    "length (sel_candidates s1) = 2" "length (sel_candidates s2) = 2"
    using s [of 40] s [of 50] by auto
  show ?thesis
    using cleanup_runs_complete [OF crowded_inv ok _ _ _ _ p _ _ refl s12(1,2), of 1] keep [of 50] s12(3,4)
    by (auto simp: max_retention_batch_limit_def)
qed

end
