(* ===== verification/Logger_Runtime.thy ===== *)
theory Logger_Runtime
  imports Job_Supervisor Logger_Schedule
begin

text \<open>
  The runtime of the data loggers, \<open>internal/datalogger/runtime.go\<close>: one goroutine per enabled logger,
  a reconciliation every few seconds, and a stop that waits for all of them. Every section under the
  mutex is one operation; a reconciliation, which holds its own mutex, is in a phase between them.
  The waits are guards: a wait ends when the jobs it waits for have returned.
\<close>

record logger_fingerprint =
  lf_mode :: logger_mode
  lf_timezone :: string
  lf_start_at :: gotime
  lf_end_at :: "gotime option"
  lf_config :: logger_config
  lf_tags :: "(uuid \<times> data_type) list"

text \<open>The JSON text of the fingerprint determines its fields, so they stand for it.\<close>

definition logger_runtime_fingerprint :: "logger \<Rightarrow> logger_fingerprint" where
  "logger_runtime_fingerprint lg =
     \<lparr>lf_mode = lg_mode lg, lf_timezone = lg_timezone lg, lf_start_at = lg_start_at lg, lf_end_at = lg_end_at lg,
      lf_config = lg_config lg, lf_tags = map (\<lambda>r. (ref_id r, ref_data_type r)) (lg_tags lg)\<rparr>"

datatype reconcile_phase =
    ReconcileIdle
  | ReconcileChecked
  | ReconcileWaiting "(uuid \<times> logger) list" "nat list"

record logger_runtime = "logger supervisor" +
  lr_phase :: reconcile_phase
  lr_errors :: "uuid chan"

datatype runtime_error = ErrRuntimeAlreadyStarted | ErrRuntimeNotStarted | ErrRuntimeRepository string

definition new_logger_runtime :: logger_runtime where
  "new_logger_runtime = \<lparr>sv_started = False, sv_stopped = False, sv_jobs = [], sv_table = [],
     lr_phase = ReconcileIdle, lr_errors = make_chan 32\<rparr>"

definition runtime_start :: "logger_runtime \<Rightarrow> (runtime_error + unit) \<times> logger_runtime" where
  "runtime_start s =
     (if sv_started s \<or> sv_stopped s then (Inl ErrRuntimeAlreadyStarted, s) else (Inr (), s\<lparr>sv_started := True\<rparr>))"

text \<open>The sections of \<open>Reconcile\<close>: the check, the listing and the jobs it stops, the jobs it starts.\<close>

definition reconcile_check :: "logger_runtime \<Rightarrow> (runtime_error + unit) \<times> logger_runtime" where
  "reconcile_check s =
     (if \<not> sv_started s \<or> sv_stopped s then (Inl ErrRuntimeNotStarted, s)
      else (Inr (), s\<lparr>lr_phase := ReconcileChecked\<rparr>))"

definition enabled_loggers :: "logger list \<Rightarrow> (uuid \<times> logger) list" where
  "enabled_loggers loggers = desired_map lg_id lg_enabled loggers"

definition reconcile_drop :: "string + logger list \<Rightarrow> logger_runtime \<Rightarrow> (runtime_error + unit) \<times> logger_runtime" where
  "reconcile_drop listing s =
     (case listing of
        Inl e \<Rightarrow> (Inl (ErrRuntimeRepository e), s\<lparr>lr_phase := ReconcileIdle\<rparr>)
      | Inr loggers \<Rightarrow>
          let desired = enabled_loggers loggers; fp = logger_runtime_fingerprint
          in (Inr (), (drop_stale fp desired s)\<lparr>lr_phase :=
                ReconcileWaiting (missing_jobs fp desired s) (map snd (stale_jobs fp desired s))\<rparr>))"

definition reconcile_start :: "(uuid \<times> logger) list \<Rightarrow> logger_runtime \<Rightarrow> (runtime_error + unit) \<times> logger_runtime" where
  "reconcile_start missing s =
     (if sv_stopped s then (Inl ErrRuntimeNotStarted, s\<lparr>lr_phase := ReconcileIdle\<rparr>)
      else (Inr (), (start_jobs missing s)\<lparr>lr_phase := ReconcileIdle\<rparr>))"

text \<open>
  \<open>runJob\<close> ends, by itself or cancelled; an error is reported unless the job was cancelled, and
  lost when nobody reads them.
\<close>

definition runtime_report :: "uuid \<Rightarrow> logger_runtime \<Rightarrow> logger_runtime" where
  "runtime_report l s = (case chan_offer l (lr_errors s) of None \<Rightarrow> s | Some c \<Rightarrow> s\<lparr>lr_errors := c\<rparr>)"

definition run_job_end :: "nat \<Rightarrow> bool \<Rightarrow> logger_runtime \<Rightarrow> logger_runtime" where
  "run_job_end j failed s =
     exit_job j (if failed \<and> \<not> jb_cancelled (sv_table s ! j) then runtime_report (jb_key (sv_table s ! j)) s else s)"

text \<open>The two sections of \<open>Stop\<close>: cancelling the context of all jobs, and forgetting them.\<close>

definition runtime_stop :: "logger_runtime \<Rightarrow> logger_runtime" where
  "runtime_stop s =
     (if \<not> sv_started s \<or> sv_stopped s then s
      else cancel_jobs [0..<length (sv_table s)] (s\<lparr>sv_stopped := True\<rparr>))"

definition runtime_stop_end :: "logger_runtime \<Rightarrow> logger_runtime" where
  "runtime_stop_end s = s\<lparr>sv_jobs := []\<rparr>"

inductive runtime_step :: "logger_runtime \<Rightarrow> logger_runtime \<Rightarrow> bool" where
  rt_start: "runtime_step s (snd (runtime_start s))"
| rt_check: "lr_phase s = ReconcileIdle \<Longrightarrow> runtime_step s (snd (reconcile_check s))"
| rt_drop: "lr_phase s = ReconcileChecked \<Longrightarrow> runtime_step s (snd (reconcile_drop listing s))"
| rt_begin: "lr_phase s = ReconcileWaiting missing stopped \<Longrightarrow> jobs_done s stopped \<Longrightarrow>
    runtime_step s (snd (reconcile_start missing s))"
| rt_exit: "job_live s j \<Longrightarrow> runtime_step s (run_job_end j failed s)"
| rt_stop: "runtime_step s (runtime_stop s)"
| rt_stop_end: "sv_stopped s \<Longrightarrow> jobs_done s [0..<length (sv_table s)] \<Longrightarrow> runtime_step s (runtime_stop_end s)"

section \<open>The invariant\<close>

definition runtime_inv :: "logger_runtime \<Rightarrow> bool" where
  "runtime_inv s \<longleftrightarrow>
     (case lr_phase s of
        ReconcileWaiting missing stopped \<Rightarrow>
          jobs_ok (set stopped) s \<and> distinct (map fst missing) \<and> fst ` set missing \<inter> fst ` set (sv_jobs s) = {}
      | _ \<Rightarrow> jobs_ok {} s) \<and>
     (sv_stopped s \<longrightarrow> (\<forall>j. job_live s j \<longrightarrow> jb_cancelled (sv_table s ! j)))"

lemma jobs_ok_update:
  "sv_jobs t = sv_jobs s \<Longrightarrow> sv_table t = sv_table s \<Longrightarrow> jobs_ok w t = jobs_ok w s"
  by (simp add: jobs_ok_def job_live_def)

lemma job_live_update: "sv_table t = sv_table s \<Longrightarrow> job_live t = job_live s"
  by (simp add: job_live_def fun_eq_iff)

lemma job_live_phase [simp]: "job_live (s\<lparr>lr_phase := x\<rparr>) = job_live s"
  by (rule job_live_update) simp

lemma runtime_inv_ok: "runtime_inv s \<Longrightarrow> \<exists>w. jobs_ok w s"
  by (auto simp: runtime_inv_def split: reconcile_phase.splits)

lemma runtime_report_same [simp]:
  "sv_jobs (runtime_report l s) = sv_jobs s" "sv_table (runtime_report l s) = sv_table s"
  "sv_stopped (runtime_report l s) = sv_stopped s" "sv_started (runtime_report l s) = sv_started s"
  "lr_phase (runtime_report l s) = lr_phase s"
  by (simp_all add: runtime_report_def split: option.split)

lemma run_job_end_exit:
  "\<exists>s'. run_job_end j failed s = exit_job j s' \<and> sv_jobs s' = sv_jobs s \<and> sv_table s' = sv_table s \<and>
        sv_stopped s' = sv_stopped s \<and> lr_phase s' = lr_phase s"
  by (auto simp: run_job_end_def)

lemma runtime_stopped_cancelled:
  "runtime_inv s \<Longrightarrow> sv_stopped s \<Longrightarrow> job_live s j \<Longrightarrow> jb_cancelled (sv_table s ! j)"
  by (simp add: runtime_inv_def)

lemma run_job_end_inv: "runtime_inv s \<Longrightarrow> runtime_inv (run_job_end j failed s)"
proof -
  assume inv: "runtime_inv s"
  obtain s' where s': "run_job_end j failed s = exit_job j s'" "sv_jobs s' = sv_jobs s" "sv_table s' = sv_table s"
    "sv_stopped s' = sv_stopped s" "lr_phase s' = lr_phase s"
    using run_job_end_exit by blast
  have ok: "jobs_ok w s \<Longrightarrow> jobs_ok w (exit_job j s')" for w
    using jobs_ok_update [OF s'(2,3)] exit_job_ok by blast
  have "jb_cancelled (sv_table (exit_job j s') ! i)" if "sv_stopped s" "job_live (exit_job j s') i" for i
    using runtime_stopped_cancelled [OF inv that(1), of i] that(2) job_live_update [OF s'(3)]
    by (simp add: job_live_exit live_index s'(3))
  moreover have "lr_phase (exit_job j s') = lr_phase s" using s'(5) by (simp add: exit_job_def)
  ultimately show ?thesis
    using inv ok s'(1,2,4) by (auto simp: runtime_inv_def split: reconcile_phase.splits)
qed

lemma reconcile_drop_inv:
  assumes inv: "runtime_inv s" and phase: "lr_phase s = ReconcileChecked"
  shows "runtime_inv (snd (reconcile_drop listing s))"
proof (cases listing)
  case (Inl e)
  then show ?thesis using inv phase
    by (simp add: reconcile_drop_def runtime_inv_def job_live_def jobs_ok_update [of "s\<lparr>lr_phase := ReconcileIdle\<rparr>" s])
next
  case (Inr loggers)
  let ?d = "enabled_loggers loggers" and ?fp = logger_runtime_fingerprint
  let ?t = "drop_stale ?fp ?d s"
  let ?u = "?t\<lparr>lr_phase := ReconcileWaiting (missing_jobs ?fp ?d s) (map snd (stale_jobs ?fp ?d s))\<rparr>"
  have ok: "jobs_ok {} s" using inv phase by (simp add: runtime_inv_def)
  have "jobs_ok (set (map snd (stale_jobs ?fp ?d s))) ?u"
    using drop_stale_ok [OF ok, of ?fp ?d] by (simp add: jobs_ok_update [of ?u ?t])
  moreover have "jb_cancelled (sv_table ?t ! j)" if "sv_stopped s" "job_live ?t j" for j
    using runtime_stopped_cancelled [OF inv that(1), of j] that(2)
    using live_index [OF that(2)]
    by (auto simp: drop_stale_def drop_jobs_cancelled)
  ultimately show ?thesis
    using missing_jobs_new [of ?fp ?d s]
      missing_jobs_distinct [OF desired_map_distinct, of ?fp lg_id lg_enabled loggers s]
    by (auto simp: reconcile_drop_def Inr Let_def runtime_inv_def enabled_loggers_def drop_stale_def)
qed

lemma reconcile_start_inv:
  assumes inv: "runtime_inv s" and phase: "lr_phase s = ReconcileWaiting missing stopped" and ended: "jobs_done s stopped"
  shows "runtime_inv (snd (reconcile_start missing s))"
proof -
  have w: "jobs_ok (set stopped) s" "distinct (map fst missing)" "fst ` set missing \<inter> fst ` set (sv_jobs s) = {}"
    using inv phase by (simp_all add: runtime_inv_def)
  have ok: "jobs_ok {} s" using jobs_ok_settled [OF w(1)] ended by (auto simp: jobs_done_def list_all_iff)
  show ?thesis
  proof (cases "sv_stopped s")
    case True
    then show ?thesis using ok runtime_stopped_cancelled [OF inv True]
      by (simp add: reconcile_start_def runtime_inv_def job_live_def jobs_ok_update [of "s\<lparr>lr_phase := ReconcileIdle\<rparr>" s])
  next
    case False
    let ?t = "start_jobs missing s"
    have "sv_stopped ?t = sv_stopped s"
      unfolding start_jobs_def by (induction missing arbitrary: s) (simp_all add: start_job_def)
    with False start_jobs_ok [OF ok w(2,3)] show ?thesis
      by (simp add: reconcile_start_def runtime_inv_def jobs_ok_update [of "?t\<lparr>lr_phase := ReconcileIdle\<rparr>" ?t])
  qed
qed

lemma runtime_stop_inv: "runtime_inv s \<Longrightarrow> runtime_inv (runtime_stop s)"
proof -
  assume inv: "runtime_inv s"
  let ?t = "s\<lparr>sv_stopped := True\<rparr>"
  let ?u = "cancel_jobs [0..<length (sv_table s)] ?t"
  have ok: "jobs_ok w s \<Longrightarrow> jobs_ok w ?u" for w
    using cancel_jobs_ok [of w ?t "[0..<length (sv_table s)]"] jobs_ok_update [of ?t s w] by simp
  have "jb_cancelled (sv_table ?u ! j)" if "job_live ?u j" for j
    using live_index [OF that] by (simp add: cancel_jobs_nth)
  moreover have "lr_phase ?u = lr_phase s" by (simp add: cancel_jobs_def)
  ultimately have "runtime_inv ?u"
    using inv ok unfolding runtime_inv_def by (auto split: reconcile_phase.splits)
  then show ?thesis using inv by (simp add: runtime_stop_def)
qed

lemma runtime_stop_end_inv:
  assumes inv: "runtime_inv s" and ended: "jobs_done s [0..<length (sv_table s)]"
  shows "runtime_inv (runtime_stop_end s)"
proof -
  have none: "\<not> job_live (s\<lparr>sv_jobs := []\<rparr>) j" for j
    using ended by (auto simp: jobs_done_def list_all_iff job_live_def)
  then show ?thesis using inv
    by (auto simp: runtime_stop_end_def runtime_inv_def jobs_ok_def split: reconcile_phase.splits)
qed

lemma runtime_idle_inv:
  "runtime_inv s \<Longrightarrow> runtime_inv (s\<lparr>sv_started := True\<rparr>)"
  "runtime_inv s \<Longrightarrow> lr_phase s = ReconcileIdle \<Longrightarrow> runtime_inv (s\<lparr>lr_phase := ReconcileChecked\<rparr>)"
  by (auto simp: runtime_inv_def jobs_ok_def job_live_def split: reconcile_phase.splits)

lemma runtime_step_inv: "runtime_step s t \<Longrightarrow> runtime_inv s \<Longrightarrow> runtime_inv t"
proof (induction rule: runtime_step.induct)
  case (rt_start s)
  then show ?case by (simp add: runtime_start_def runtime_idle_inv)
next
  case (rt_check s)
  then show ?case by (simp add: reconcile_check_def runtime_idle_inv)
qed (auto intro: reconcile_drop_inv reconcile_start_inv run_job_end_inv runtime_stop_inv runtime_stop_end_inv)

interpretation logger_runtime: invariant_system "\<lambda>s. s = new_logger_runtime" runtime_step runtime_inv
proof unfold_locales
  fix s t
  show "s = new_logger_runtime \<Longrightarrow> runtime_inv s"
    by (simp add: new_logger_runtime_def runtime_inv_def jobs_ok_def job_live_def)
  show "runtime_inv s \<Longrightarrow> runtime_step s t \<Longrightarrow> runtime_inv t" by (rule runtime_step_inv)
qed

section \<open>Reconciliations\<close>

text \<open>While a reconciliation waits, jobs may return.\<close>

inductive jobs_return :: "logger_runtime \<Rightarrow> logger_runtime \<Rightarrow> bool" where
  none_returns: "jobs_return s s"
| one_returns: "jobs_return s t \<Longrightarrow> jobs_return s (run_job_end j failed t)"

lemma jobs_return_same:
  "jobs_return s t \<Longrightarrow> lr_phase t = lr_phase s \<and> sv_jobs t = sv_jobs s \<and> length (sv_table t) = length (sv_table s) \<and>
     (\<forall>i < length (sv_table s). jb_def (sv_table t ! i) = jb_def (sv_table s ! i))"
proof (induction rule: jobs_return.induct)
  case (one_returns s t j failed)
  obtain t' where "run_job_end j failed t = exit_job j t'" "sv_jobs t' = sv_jobs t" "sv_table t' = sv_table t"
    "lr_phase t' = lr_phase t" using run_job_end_exit by blast
  moreover have "lr_phase (exit_job j t') = lr_phase t'" by (simp add: exit_job_def)
  ultimately show ?case using one_returns by simp
qed simp

lemma enabled_loggers_keys:
  assumes "distinct (map lg_id loggers)"
  shows "fst ` set (enabled_loggers loggers) = lg_id ` {l \<in> set loggers. lg_enabled l \<and> lg_id l \<noteq> uuid_nil}"
  using desired_map_unique_keys [OF assms, of lg_enabled] by (force simp: enabled_loggers_def)

lemma enabled_loggers_of:
  "map_of (enabled_loggers loggers) k = Some l \<Longrightarrow> l \<in> set loggers \<and> lg_id l = k \<and> lg_enabled l"
  unfolding enabled_loggers_def by (drule map_of_SomeD, drule desired_map_entries) simp

lemma reconcile_runs_desired:
  assumes inv: "runtime_inv s" and phase: "lr_phase s = ReconcileChecked"
    and "reconcile_drop (Inr loggers) s = (Inr (), t)" and ret: "jobs_return t u"
    and "lr_phase u = ReconcileWaiting missing stopped" and "reconcile_start missing u = (Inr (), v)"
  shows "runs_desired logger_runtime_fingerprint (enabled_loggers loggers) s v"
proof -
  let ?d = "enabled_loggers loggers" and ?fp = logger_runtime_fingerprint
  have ok: "jobs_ok {} s" using inv phase by (simp add: runtime_inv_def)
  have t: "sv_jobs t = filter (job_kept ?fp ?d s) (sv_jobs s)" "length (sv_table t) = length (sv_table s)"
    "i < length (sv_table s) \<Longrightarrow> jb_def (sv_table t ! i) = jb_def (sv_table s ! i)"
    "lr_phase t = ReconcileWaiting (missing_jobs ?fp ?d s) (map snd (stale_jobs ?fp ?d s))" for i
    using assms(3) by (auto simp: reconcile_drop_def Let_def drop_stale_def)
  have missing: "missing = missing_jobs ?fp ?d s" using t(4) assms(5) jobs_return_same [OF ret] by simp
  have v: "sv_jobs v = sv_jobs (start_jobs missing u)" "sv_table v = sv_table (start_jobs missing u)"
    using assms(6) by (auto simp: reconcile_start_def split: if_splits)
  have "runs_desired ?fp ?d s (start_jobs (missing_jobs ?fp ?d s) u)"
    by (rule reconciled [OF ok]) (use jobs_return_same [OF ret] t in \<open>auto simp: enabled_loggers_def desired_map_distinct\<close>)
  then show ?thesis using v unfolding missing runs_desired_def by simp
qed

section \<open>Properties\<close>

text \<open>
  C22: However its operations interleave, the runtime never has two live schedulers for one data
  logger, so none is recorded twice; a scheduler that is no longer its logger's current one is
  cancelled; and after a stop every scheduler still alive is cancelled.
\<close>

theorem one_scheduler_per_logger:
  assumes "reachable (\<lambda>s. s = new_logger_runtime) runtime_step s"
  shows "(\<forall>i j. job_live s i \<and> job_live s j \<and> jb_key (sv_table s ! i) = jb_key (sv_table s ! j) \<longrightarrow> i = j) \<and>
         (\<forall>j. job_live s j \<longrightarrow> (jb_key (sv_table s ! j), j) \<in> set (sv_jobs s) \<or> jb_cancelled (sv_table s ! j)) \<and>
         (sv_stopped s \<longrightarrow> (\<forall>j. job_live s j \<longrightarrow> jb_cancelled (sv_table s ! j)))"
proof -
  have inv: "runtime_inv s" using assms by (rule logger_runtime.reachable_inv)
  then obtain w where ok: "jobs_ok w s" using runtime_inv_ok by blast
  have "(\<forall>i j. job_live s i \<and> job_live s j \<and> jb_key (sv_table s ! i) = jb_key (sv_table s ! j) \<longrightarrow> i = j)"
    using jobs_ok_one_live [OF ok] by blast
  moreover have "(\<forall>j. job_live s j \<longrightarrow> (jb_key (sv_table s ! j), j) \<in> set (sv_jobs s) \<or> jb_cancelled (sv_table s ! j))"
    using jobs_okD(3) [OF ok] by blast
  ultimately show ?thesis using runtime_stopped_cancelled [OF inv] by blast
qed

definition changed_logger :: logger where "changed_logger = minute_logger\<lparr>lg_start_at := 5 * second\<rparr>"

text \<open>A runtime that runs a logger, and the same while it waits for the job of the logger's old schedule.\<close>

definition running_runtime :: logger_runtime where
  "running_runtime = snd (reconcile_start [(lg_id minute_logger, minute_logger)]
     (snd (reconcile_drop (Inr [minute_logger]) (snd (reconcile_check (snd (runtime_start new_logger_runtime)))))))"

definition replacing_runtime :: logger_runtime where
  "replacing_runtime = snd (reconcile_drop (Inr [changed_logger]) (snd (reconcile_check running_runtime)))"

lemmas runtime_defs = drop_jobs_def running_runtime_def replacing_runtime_def reconcile_start_def reconcile_drop_def
  reconcile_check_def runtime_start_def new_logger_runtime_def enabled_loggers_def desired_map_def put_desired_def
  drop_stale_def stale_jobs_def missing_jobs_def job_kept_def cancel_jobs_def start_jobs_def start_job_def new_job_def
  changed_logger_def minute_logger_def sample_logger_def logger_runtime_fingerprint_def second_def

lemma running_runtime_state:
  "sv_jobs running_runtime = [(lg_id minute_logger, 0)] \<and> lr_phase running_runtime = ReconcileIdle \<and>
   sv_table running_runtime = [new_job (lg_id minute_logger, minute_logger)] \<and>
   sv_started running_runtime \<and> \<not> sv_stopped running_runtime"
  by (simp add: runtime_defs Let_def)

lemma running_runtime_reachable: "reachable (\<lambda>s. s = new_logger_runtime) runtime_step running_runtime"
proof -
  define a where "a = snd (runtime_start new_logger_runtime)"
  define b where "b = snd (reconcile_check a)"
  define c where "c = snd (reconcile_drop (Inr [minute_logger]) b)"
  have "reachable (\<lambda>s. s = new_logger_runtime) runtime_step a"
    unfolding a_def
  proof (rule reachable_step)
    show "reachable (\<lambda>s. s = new_logger_runtime) runtime_step new_logger_runtime" by (rule reachable_init) simp
  qed (rule rt_start)
  then have "reachable (\<lambda>s. s = new_logger_runtime) runtime_step b"
    unfolding b_def by (rule reachable_step) (rule rt_check, simp add: a_def runtime_defs)
  then have "reachable (\<lambda>s. s = new_logger_runtime) runtime_step c"
    unfolding c_def by (rule reachable_step) (rule rt_drop, simp add: a_def b_def runtime_defs)
  then have "reachable (\<lambda>s. s = new_logger_runtime) runtime_step
      (snd (reconcile_start [(lg_id minute_logger, minute_logger)] c))"
    by (rule reachable_step)
      (rule rt_begin [where stopped = "[]"], simp_all add: a_def b_def c_def runtime_defs jobs_done_def Let_def)
  then show ?thesis by (simp only: running_runtime_def a_def b_def c_def)
qed

lemma replacing_runtime_state:
  "lr_phase replacing_runtime = ReconcileWaiting [(lg_id minute_logger, changed_logger)] [0] \<and>
   sv_jobs replacing_runtime = [] \<and> job_live replacing_runtime 0 \<and> jb_cancelled (sv_table replacing_runtime ! 0)"
  by (simp add: runtime_defs Let_def job_live_def)

lemma replacing_runtime_reachable: "reachable (\<lambda>s. s = new_logger_runtime) runtime_step replacing_runtime"
proof -
  have "reachable (\<lambda>s. s = new_logger_runtime) runtime_step (snd (reconcile_check running_runtime))"
    by (rule reachable_step [OF running_runtime_reachable rt_check]) (simp add: running_runtime_state)
  then show ?thesis unfolding replacing_runtime_def
    by (rule reachable_step) (rule rt_drop, simp add: reconcile_check_def running_runtime_state)
qed

theorem one_scheduler_per_logger_witness:
  "{j. job_live replacing_runtime j \<and>
      jb_key (sv_table replacing_runtime ! j) = jb_key (sv_table replacing_runtime ! 0)} = {0}"
  using one_scheduler_per_logger [OF replacing_runtime_reachable] replacing_runtime_state by blast

text \<open>
  C23: A reconciliation that succeeds, whatever returns while it waits, leaves exactly one job for
  each enabled logger of the listing, running a definition with the listed fingerprint; and a logger
  whose fingerprint has not changed keeps its job.
\<close>

theorem reconcile_runs_enabled_loggers:
  assumes "reachable (\<lambda>s. s = new_logger_runtime) runtime_step s" and "lr_phase s = ReconcileChecked"
    and "reconcile_drop (Inr loggers) s = (Inr (), t)" and "jobs_return t u"
    and "lr_phase u = ReconcileWaiting missing stopped" and "reconcile_start missing u = (Inr (), v)"
    and "distinct (map lg_id loggers)"
  shows "fst ` set (sv_jobs v) = lg_id ` {l \<in> set loggers. lg_enabled l \<and> lg_id l \<noteq> uuid_nil} \<and>
         (\<forall>(k, j) \<in> set (sv_jobs v). \<exists>l \<in> set loggers. lg_id l = k \<and>
            logger_runtime_fingerprint (jb_def (sv_table v ! j)) = logger_runtime_fingerprint l) \<and>
         (\<forall>(k, j) \<in> set (sv_jobs s). \<forall>l \<in> set loggers. lg_id l = k \<and> lg_enabled l \<and> k \<noteq> uuid_nil \<and>
            logger_runtime_fingerprint (jb_def (sv_table s ! j)) = logger_runtime_fingerprint l \<longrightarrow> (k, j) \<in> set (sv_jobs v))"
proof -
  have r: "runs_desired logger_runtime_fingerprint (enabled_loggers loggers) s v"
    using reconcile_runs_desired [OF logger_runtime.reachable_inv [OF assms(1)] assms(2-6)] .
  have of: "map_of (enabled_loggers loggers) (lg_id l) = Some l"
    if "l \<in> set loggers" "lg_enabled l" "lg_id l \<noteq> uuid_nil" for l
    using that assms(7) desired_map_distinct [of lg_id lg_enabled loggers] desired_map_unique_keys [OF assms(7), of lg_enabled]
    by (intro map_of_is_SomeI) (auto simp: enabled_loggers_def)
  show ?thesis
  proof (intro conjI)
    show "fst ` set (sv_jobs v) = lg_id ` {l \<in> set loggers. lg_enabled l \<and> lg_id l \<noteq> uuid_nil}"
      using r enabled_loggers_keys [OF assms(7)] by (simp add: runs_desired_def)
    show "\<forall>(k, j) \<in> set (sv_jobs v). \<exists>l \<in> set loggers. lg_id l = k \<and>
        logger_runtime_fingerprint (jb_def (sv_table v ! j)) = logger_runtime_fingerprint l"
      using r enabled_loggers_of unfolding runs_desired_def by blast
    show "\<forall>(k, j) \<in> set (sv_jobs s). \<forall>l \<in> set loggers. lg_id l = k \<and> lg_enabled l \<and> k \<noteq> uuid_nil \<and>
        logger_runtime_fingerprint (jb_def (sv_table s ! j)) = logger_runtime_fingerprint l \<longrightarrow> (k, j) \<in> set (sv_jobs v)"
      using r of unfolding runs_desired_def by blast
  qed
qed

theorem reconcile_runs_enabled_loggers_witness:
  "fst ` set (sv_jobs (snd (reconcile_start [(lg_id minute_logger, changed_logger)] (run_job_end 0 False replacing_runtime)))) =
     {lg_id minute_logger}"
proof -
  let ?s = "snd (reconcile_check running_runtime)"
  have s: "reachable (\<lambda>s. s = new_logger_runtime) runtime_step ?s" "lr_phase ?s = ReconcileChecked"
    by (rule reachable_step [OF running_runtime_reachable rt_check])
      (simp_all add: running_runtime_state reconcile_check_def)
  have t: "reconcile_drop (Inr [changed_logger]) ?s = (Inr (), replacing_runtime)"
    by (simp add: replacing_runtime_def reconcile_drop_def Let_def)
  have ret: "jobs_return replacing_runtime (run_job_end 0 False replacing_runtime)"
    by (rule one_returns [OF none_returns])
  have u: "lr_phase (run_job_end 0 False replacing_runtime) = ReconcileWaiting [(lg_id minute_logger, changed_logger)] [0]"
    using replacing_runtime_state by (simp add: run_job_end_def exit_job_def)
  have "\<not> sv_stopped replacing_runtime" by (simp add: runtime_defs Let_def)
  then have v: "reconcile_start [(lg_id minute_logger, changed_logger)] (run_job_end 0 False replacing_runtime) =
      (Inr (), snd (reconcile_start [(lg_id minute_logger, changed_logger)] (run_job_end 0 False replacing_runtime)))"
    by (simp add: reconcile_start_def run_job_end_def exit_job_def)
  have "lg_enabled changed_logger" "lg_id changed_logger = lg_id minute_logger" "lg_id minute_logger \<noteq> uuid_nil"
    by (simp_all add: changed_logger_def minute_logger_def sample_logger_def)
  then show ?thesis using reconcile_runs_enabled_loggers [OF s t ret u v] by auto
qed

end
