(* ===== verification/Plugin_Manager.thy ===== *)
theory Plugin_Manager
  imports Runtime_Manager Plugin_Registry
begin

text \<open>
  The manager of the plugin runtimes, \<open>internal/plugin/manager.go\<close>: the kind of its jobs and their
  statuses, the listings a reconciliation reads and what follows for the runtimes of instances. The
  operations are those of \<open>Runtime_Manager\<close>.
\<close>

record runtime_status =
  st_state :: runtime_state
  st_type :: string
  st_config_version :: "64 word"
  st_error :: "plugin_error option"

type_synonym plugin_manager = "(instance_data, runtime_status) runtime_manager"

text \<open>The fingerprint is a SHA-256 sum of the type, the version and the configuration, which stand for it.\<close>

definition instance_fingerprint :: "instance_data \<Rightarrow> string \<times> 64 word \<times> plugin_config" where
  "instance_fingerprint i = (in_type i, in_config_version i, in_config i)"

definition empty_status :: runtime_status where
  "empty_status = \<lparr>st_state = StateStopped, st_type = [], st_config_version = 0, st_error = None\<rparr>"

definition starting_status :: "instance_data \<Rightarrow> runtime_state \<Rightarrow> plugin_error option \<Rightarrow> runtime_status" where
  "starting_status i st e = \<lparr>st_state = st, st_type = in_type i, st_config_version = in_config_version i, st_error = e\<rparr>"

definition plugin_exited :: "plugin_error option \<Rightarrow> runtime_status \<Rightarrow> runtime_status" where
  "plugin_exited result st = st\<lparr>st_state := StateError,
     st_error := Some (case result of None \<Rightarrow> ErrPluginRuntime ''plugin runtime exited unexpectedly'' | Some e \<Rightarrow> e)\<rparr>"

definition plugin_kind :: "(instance_data, runtime_status, plugin_error, string \<times> 64 word \<times> plugin_config) runtime_kind" where
  "plugin_kind = \<lparr>rk_fingerprint = instance_fingerprint, rk_refused = (\<lambda>i. None), rk_empty = empty_status, rk_state = st_state,
     rk_set_state = (\<lambda>st x. x\<lparr>st_state := st\<rparr>), rk_new = starting_status, rk_exited = plugin_exited\<rparr>"

definition enabled_instances :: "instance_data list \<Rightarrow> (uuid \<times> instance_data) list" where
  "enabled_instances is = desired_map in_id in_enabled is"

definition plugin_listings :: "(string + (uuid \<times> instance_data) list) set" where
  "plugin_listings = range Inl \<union> range (\<lambda>is. Inr (enabled_instances is))"

abbreviation plugin_step :: "bool \<Rightarrow> plugin_manager \<Rightarrow> plugin_manager \<Rightarrow> bool" where
  "plugin_step \<equiv> manager_step plugin_kind plugin_listings {}"

lemma enabled_listing [simp]: "Inr (enabled_instances is) \<in> plugin_listings"
  by (simp add: plugin_listings_def)

lemma plugin_kind_simps [simp]:
  "rk_fingerprint plugin_kind = instance_fingerprint" "rk_refused plugin_kind i = None" "rk_empty plugin_kind = empty_status"
  "rk_state plugin_kind = st_state" "rk_set_state plugin_kind st x = x\<lparr>st_state := st\<rparr>"
  "rk_new plugin_kind = starting_status" "rk_exited plugin_kind = plugin_exited"
  by (simp_all add: plugin_kind_def)

interpretation plugin_statuses: runtime_statuses plugin_kind plugin_listings "{}"
  by unfold_locales (auto simp: starting_status_def plugin_listings_def enabled_instances_def desired_map_distinct)

interpretation plugin_runtimes: invariant_system "\<lambda>s. s = new_manager" "plugin_step False" plugin_statuses.manager_inv
  by unfold_locales
    (auto simp: plugin_statuses.new_manager_inv intro: plugin_statuses.manager_step_inv)

section \<open>Giving up a wait\<close>

definition example_instance :: instance_data where
  "example_instance = \<lparr>in_id = 4, in_type = ''energy'', in_name = ''Line'', in_enabled = True, in_config = ''{}'',
     in_config_version = 1\<rparr>"

text \<open>The instance runs; then it is restarted and its runtime has not returned yet.\<close>

definition checked_manager :: plugin_manager where
  "checked_manager = snd (manager_check (snd (manager_start new_manager)))"

definition with_instance :: "plugin_manager \<Rightarrow> plugin_manager" where
  "with_instance s = finish_start plugin_kind None (begin_start plugin_kind (manager_waited plugin_kind (snd (manager_drop plugin_kind (Inr (enabled_instances [example_instance])) s))))"

definition running_manager :: plugin_manager where
  "running_manager = begin_start plugin_kind (with_instance checked_manager)"

definition restarting_manager :: plugin_manager where
  "restarting_manager = snd (manager_restart plugin_kind 4 running_manager)"

lemmas manager_defs = checked_manager_def with_instance_def running_manager_def restarting_manager_def
  manager_check_def manager_start_def new_manager_def manager_drop_def enabled_instances_def desired_map_def
  put_desired_def stale_jobs_def missing_jobs_def drop_stale_def drop_jobs_def cancel_jobs_def manager_waited_def
  begin_start_def finish_start_def start_job_def new_job_def manager_restart_def job_kept_def example_instance_def
  instance_fingerprint_def set_state_def

lemma checked_manager_phase: "mg_phase checked_manager = ManagerChecked \<and> sv_jobs checked_manager = []"
  by (simp add: manager_defs)

lemma with_instance_reachable:
  assumes r: "reachable (\<lambda>s. s = new_manager) (plugin_step g) s" and s: "mg_phase s = ManagerChecked" "sv_jobs s = []"
  shows "reachable (\<lambda>s. s = new_manager) (plugin_step g) (with_instance s)"
proof -
  define d where "d = snd (manager_drop plugin_kind (Inr (enabled_instances [example_instance])) s)"
  have d: "\<exists>m. mg_phase d = ManagerWaiting m []"
    using s by (simp add: d_def manager_drop_def stale_jobs_def Let_def)
  have "reachable (\<lambda>s. s = new_manager) (plugin_step g) d"
    unfolding d_def using r s(1) by (blast intro: reachable_step ms_drop enabled_listing)
  then have "reachable (\<lambda>s. s = new_manager) (plugin_step g) (manager_waited plugin_kind d)"
    using d by (blast intro: reachable_step ms_waited)
  then show ?thesis unfolding with_instance_def d_def [symmetric]
    by (blast intro: reachable_step ms_begin ms_built)
qed

lemma running_manager_reachable: "reachable (\<lambda>s. s = new_manager) (plugin_step g) running_manager"
proof -
  have "reachable (\<lambda>s. s = new_manager) (plugin_step g) new_manager" by (rule reachable_init) simp
  then have "reachable (\<lambda>s. s = new_manager) (plugin_step g) (snd (manager_start new_manager))"
    by (rule reachable_step) (rule ms_start)
  then have "reachable (\<lambda>s. s = new_manager) (plugin_step g) checked_manager"
    unfolding checked_manager_def
    by (rule reachable_step) (rule ms_check, simp add: manager_start_def new_manager_def)
  then have "reachable (\<lambda>s. s = new_manager) (plugin_step g) (with_instance checked_manager)"
    using checked_manager_phase by (intro with_instance_reachable) auto
  then show ?thesis unfolding running_manager_def by (rule reachable_step) (rule ms_begin)
qed

lemma running_manager_state:
  "sv_jobs running_manager = [(4, 0)] \<and> mg_phase running_manager = ManagerIdle \<and> job_live running_manager 0 \<and>
   \<not> jb_cancelled (sv_table running_manager ! 0)"
  by (simp add: manager_defs Let_def job_live_def)

lemma restarting_manager_reachable: "reachable (\<lambda>s. s = new_manager) (plugin_step g) restarting_manager"
  unfolding restarting_manager_def
  by (rule reachable_step [OF running_manager_reachable]) (rule ms_restart, simp add: running_manager_state)

text \<open>
  If the wait of a restart gives up, the job is out of the map but alive, and the next reconciliation
  starts a second runtime of the instance beside it.
\<close>

lemma abandoned_wait_runs_two:
  "\<exists>s. reachable (\<lambda>s. s = new_manager) (plugin_step True) s \<and> job_live s 0 \<and> job_live s 1 \<and>
       jb_key (sv_table s ! 0) = jb_key (sv_table s ! 1)"
proof -
  let ?a = "restarting_manager\<lparr>mg_phase := ManagerIdle\<rparr>"
  have phase: "\<exists>k j. mg_phase restarting_manager = ManagerRestarting k j" by (simp add: manager_defs Let_def)
  have "reachable (\<lambda>s. s = new_manager) (plugin_step True) ?a"
    by (rule reachable_step [OF restarting_manager_reachable]) (use phase in \<open>blast intro: ms_give_up\<close>)
  then have "reachable (\<lambda>s. s = new_manager) (plugin_step True) (snd (manager_check ?a))"
    by (rule reachable_step) (rule ms_check, simp)
  then have "reachable (\<lambda>s. s = new_manager) (plugin_step True) (with_instance (snd (manager_check ?a)))"
    by (rule with_instance_reachable) (simp_all add: manager_defs Let_def)
  then show ?thesis by (rule_tac exI, intro conjI, assumption) (simp_all add: manager_defs Let_def job_live_def)
qed

section \<open>Properties\<close>

text \<open>
  C24: As long as no wait gives up, whatever is reconciled, restarted or stopped in between, at most
  one runtime of an instance is alive, a runtime the manager no longer tracks is cancelled, and an
  instance whose runtime is alive and not cancelled is reported as running.
\<close>

theorem one_runtime_per_instance:
  assumes "reachable (\<lambda>s. s = new_manager) (plugin_step False) s"
  shows "(\<forall>i j. job_live s i \<and> job_live s j \<and> jb_key (sv_table s ! i) = jb_key (sv_table s ! j) \<longrightarrow> i = j) \<and>
         (\<forall>j. job_live s j \<and> \<not> jb_cancelled (sv_table s ! j) \<longrightarrow>
            (jb_key (sv_table s ! j), j) \<in> set (sv_jobs s) \<and> st_state (status_of plugin_kind s (jb_key (sv_table s ! j))) = StateRunning)"
  using plugin_statuses.one_job_per_key [OF plugin_runtimes.reachable_inv [OF assms]] by simp

theorem one_runtime_per_instance_witness:
  "{j. job_live restarting_manager j \<and> jb_key (sv_table restarting_manager ! j) = 4} = {0} \<and>
   st_state (status_of plugin_kind running_manager 4) = StateRunning"
proof -
  have s: "job_live restarting_manager 0" "jb_key (sv_table restarting_manager ! 0) = 4"
    "jb_key (sv_table running_manager ! 0) = 4"
    by (simp_all add: manager_defs Let_def job_live_def)
  have "j = 0" if "job_live restarting_manager j" "jb_key (sv_table restarting_manager ! j) = 4" for j
    using conjunct1 [OF one_runtime_per_instance [OF restarting_manager_reachable], rule_format, of j 0] s that by simp
  moreover have "st_state (status_of plugin_kind running_manager 4) = StateRunning"
    using conjunct2 [OF one_runtime_per_instance [OF running_manager_reachable], rule_format, of 0]
      running_manager_state s(3) by simp
  ultimately show ?thesis using s(1,2) by blast
qed

end
