(* ===== verification/Asset_Semantic.thy ===== *)
theory Asset_Semantic
  imports Go_Float Tag_Value
begin

text \<open>
  What a measurement of an asset means: \<open>internal/asset/semantic.go\<close>, the registry of units with
  their dimension and canonical unit, the reference conditions of volumes and pressures, the
  validation of a semantic and the conversion between two of them. Names that are string types in
  the code (resource, quantity, unit, bases) are strings here; a floating constant of the source is
  rounded once to \<open>float64\<close>.
\<close>

section \<open>Semantics\<close>

datatype semantic_error =
  ErrInvalidSemantic | ErrUnknownUnit | ErrIncompatibleUnit | ErrAmbiguousReference | ErrInvalidPrecision

datatype dimension =
  DimensionPower | DimensionEnergy | DimensionFlowRate | DimensionVolume | DimensionPressure | DimensionTemperature |
  DimensionRatio | DimensionState | DimensionCurrency | DimensionEmissions | DimensionCustom

record reference_condition =
  rf_volume_basis :: string
  rf_pressure_basis :: string
  rf_temperature_kelvin :: "fl option"
  rf_pressure_pascal :: "fl option"

record semantic =
  sm_resource :: string
  sm_quantity :: string
  sm_unit :: string
  sm_precision :: "8 word"
  sm_reference :: reference_condition

record unit_definition =
  ud_unit :: string
  ud_dimension :: dimension
  ud_canonical :: string
  ud_scale :: fl
  ud_offset :: fl
  ud_volume :: string
  ud_exact_only :: bool
  ud_dynamic :: bool

definition no_reference :: reference_condition where
  "no_reference = \<lparr>rf_volume_basis = [], rf_pressure_basis = [], rf_temperature_kelvin = None, rf_pressure_pascal = None\<rparr>"

text \<open>An untyped constant of the source as a \<open>float64\<close>.\<close>

definition fl_const :: "rat \<Rightarrow> fl" where
  "fl_const q = fl_round binary64 False q"

definition unit_row :: "string \<Rightarrow> dimension \<Rightarrow> string \<Rightarrow> rat \<Rightarrow> rat \<Rightarrow> string \<Rightarrow> bool \<Rightarrow> string \<times> unit_definition" where
  "unit_row u d c scale offset vol exact =
     (u, \<lparr>ud_unit = u, ud_dimension = d, ud_canonical = c, ud_scale = fl_const scale, ud_offset = fl_const offset,
          ud_volume = vol, ud_exact_only = exact, ud_dynamic = False\<rparr>)"

definition unit_definitions :: "(string \<times> unit_definition) list" where
  "unit_definitions =
    [unit_row ''W'' DimensionPower ''W'' 1 0 [] False,
     unit_row ''kW'' DimensionPower ''W'' 1000 0 [] False,
     unit_row ''MW'' DimensionPower ''W'' 1000000 0 [] False,
     unit_row ''Wh'' DimensionEnergy ''Wh'' 1 0 [] False,
     unit_row ''kWh'' DimensionEnergy ''Wh'' 1000 0 [] False,
     unit_row ''MWh'' DimensionEnergy ''Wh'' 1000000 0 [] False,
     unit_row ''m3'' DimensionVolume ''m3'' 1 0 ''actual'' False,
     unit_row ''Nm3'' DimensionVolume ''Nm3'' 1 0 ''normalized'' False,
     unit_row ''m3/s'' DimensionFlowRate ''m3/s'' 1 0 ''actual'' False,
     unit_row ''m3/h'' DimensionFlowRate ''m3/s'' (1 / 3600) 0 ''actual'' False,
     unit_row ''Nm3/s'' DimensionFlowRate ''Nm3/s'' 1 0 ''normalized'' False,
     unit_row ''Nm3/h'' DimensionFlowRate ''Nm3/s'' (1 / 3600) 0 ''normalized'' False,
     unit_row ''Pa'' DimensionPressure ''Pa'' 1 0 [] False,
     unit_row ''kPa'' DimensionPressure ''Pa'' 1000 0 [] False,
     unit_row ''bar'' DimensionPressure ''Pa'' 100000 0 [] False,
     unit_row ''K'' DimensionTemperature ''K'' 1 0 [] False,
     unit_row ''degC'' DimensionTemperature ''K'' 1 (27315 / 100) [] False,
     unit_row ''degF'' DimensionTemperature ''K'' (5 / 9) (2553722222222222 / 10000000000000) [] False,
     unit_row ''1'' DimensionRatio ''1'' 1 0 [] False,
     unit_row ''%'' DimensionRatio ''1'' (1 / 100) 0 [] False,
     unit_row ''bool'' DimensionState ''bool'' 1 0 [] True,
     unit_row ''gCO2e'' DimensionEmissions ''kgCO2e'' (1 / 1000) 0 [] False,
     unit_row ''kgCO2e'' DimensionEmissions ''kgCO2e'' 1 0 [] False,
     unit_row ''tCO2e'' DimensionEmissions ''kgCO2e'' 1000 0 [] False]"

definition quantity_dimensions :: "(string \<times> dimension) list" where
  "quantity_dimensions =
    [(''power'', DimensionPower), (''energy'', DimensionEnergy), (''flow_rate'', DimensionFlowRate),
     (''volume'', DimensionVolume), (''pressure'', DimensionPressure), (''temperature'', DimensionTemperature),
     (''ratio'', DimensionRatio), (''state'', DimensionState), (''cost'', DimensionCurrency),
     (''emissions'', DimensionEmissions), (''custom'', DimensionCustom)]"

definition valid_resource :: "string \<Rightarrow> bool" where
  "valid_resource r \<longleftrightarrow> r \<in> {''electricity'', ''thermal'', ''compressed_air'', ''steam'', ''gas'', ''water'', ''solar'', ''custom''}"

section \<open>Units with a pattern\<close>

text \<open>\<open>^[A-Z]{3}$\<close> and \<open>^custom:[a-z][a-z0-9_.-]{0,23}$\<close>.\<close>

definition in_range :: "nat \<Rightarrow> nat \<Rightarrow> char \<Rightarrow> bool" where
  "in_range a b c \<longleftrightarrow> a \<le> (of_char c :: nat) \<and> (of_char c :: nat) \<le> b"

definition currency_unit :: "string \<Rightarrow> bool" where
  "currency_unit u \<longleftrightarrow> length u = 3 \<and> list_all (in_range 65 90) u"

definition custom_unit_char :: "char \<Rightarrow> bool" where
  "custom_unit_char c \<longleftrightarrow> in_range 97 122 c \<or> in_range 48 57 c \<or> c \<in> set ''_.-''"

definition custom_unit :: "string \<Rightarrow> bool" where
  "custom_unit u \<longleftrightarrow>
     take 7 u = ''custom:'' \<and>
     (case drop 7 u of [] \<Rightarrow> False
      | c # cs \<Rightarrow> in_range 97 122 c \<and> length cs \<le> 23 \<and> list_all custom_unit_char cs)"

definition dynamic_unit :: "string \<Rightarrow> dimension \<Rightarrow> unit_definition" where
  "dynamic_unit u d = \<lparr>ud_unit = u, ud_dimension = d, ud_canonical = u, ud_scale = fl_const 1, ud_offset = FZero False,
     ud_volume = [], ud_exact_only = True, ud_dynamic = True\<rparr>"

definition resolve_unit_definition :: "string \<Rightarrow> string \<Rightarrow> unit_definition option" where
  "resolve_unit_definition quantity u =
     (case map_of unit_definitions u of
        Some d \<Rightarrow> Some d
      | None \<Rightarrow>
          if quantity = ''cost'' \<and> currency_unit u then Some (dynamic_unit u DimensionCurrency)
          else if quantity = ''custom'' \<and> custom_unit u then Some (dynamic_unit u DimensionCustom)
          else None)"

section \<open>Validation\<close>

definition positive_option :: "fl option \<Rightarrow> bool" where
  "positive_option x = (case x of None \<Rightarrow> False | Some v \<Rightarrow> \<not> fl_le v (FZero False))"

definition validate_reference :: "unit_definition \<Rightarrow> reference_condition \<Rightarrow> semantic_error + unit" where
  "validate_reference d r =
     bindE
       (if ud_volume d = ''normalized'' then
          (if rf_volume_basis r \<noteq> ''normalized'' \<or> \<not> positive_option (rf_temperature_kelvin r)
              \<or> \<not> positive_option (rf_pressure_pascal r)
           then Inl ErrAmbiguousReference else Inr ())
        else if ud_volume d = ''actual'' \<and> rf_volume_basis r \<noteq> ''actual'' then Inl ErrAmbiguousReference
        else if ud_volume d = [] \<and> rf_volume_basis r \<noteq> [] then Inl ErrInvalidSemantic
        else Inr ())
       (\<lambda>_. if ud_dimension d = DimensionPressure then
          (if rf_pressure_basis r \<noteq> ''absolute'' \<and> rf_pressure_basis r \<noteq> ''gauge'' then Inl ErrAmbiguousReference
           else Inr ())
        else if rf_pressure_basis r \<noteq> [] then Inl ErrInvalidSemantic
        else Inr ())"

definition validate_semantic :: "semantic \<Rightarrow> semantic_error + unit" where
  "validate_semantic s =
     (if \<not> valid_resource (sm_resource s) \<or> sm_precision s > 12 then
        (if sm_precision s > 12 then Inl ErrInvalidPrecision else Inl ErrInvalidSemantic)
      else case map_of quantity_dimensions (sm_quantity s) of
        None \<Rightarrow> Inl ErrInvalidSemantic
      | Some d \<Rightarrow>
          (case resolve_unit_definition (sm_quantity s) (sm_unit s) of
             None \<Rightarrow> Inl ErrUnknownUnit
           | Some u \<Rightarrow> if ud_dimension u \<noteq> d then Inl ErrIncompatibleUnit else validate_reference u (sm_reference s)))"

definition canonical_unit :: "semantic \<Rightarrow> semantic_error + string" where
  "canonical_unit s =
     bindE (validate_semantic s) (\<lambda>_.
       case resolve_unit_definition (sm_quantity s) (sm_unit s) of
         Some u \<Rightarrow> Inr (ud_canonical u) | None \<Rightarrow> Inr [])"

text \<open>\<open>LookupUnit\<close>.\<close>

definition lookup_unit :: "string \<Rightarrow> string \<Rightarrow> semantic_error + unit_definition" where
  "lookup_unit quantity u =
     (case map_of quantity_dimensions quantity of
        None \<Rightarrow> Inl ErrInvalidSemantic
      | Some d \<Rightarrow>
          (case resolve_unit_definition quantity u of
             None \<Rightarrow> Inl ErrUnknownUnit
           | Some def \<Rightarrow> if ud_dimension def \<noteq> d then Inl ErrIncompatibleUnit else Inr def))"

section \<open>Conversion\<close>

text \<open>\<open>math.Round\<close>: to the nearest integer, halves away from zero, keeping the sign of a zero.\<close>

definition fl_round_int :: "fl \<Rightarrow> fl" where
  "fl_round_int x =
     (case x of
        FNum q \<Rightarrow> let n = \<lfloor>\<bar>q\<bar> + 1 / 2\<rfloor> in if n = 0 then FZero (q < 0) else FNum (sgn q * of_int n)
      | _ \<Rightarrow> x)"

definition pow10 :: "8 word \<Rightarrow> fl" where
  "pow10 p = fl_const (10 ^ unat p)"

definition round_precision :: "fl \<Rightarrow> 8 word \<Rightarrow> fl" where
  "round_precision v p = fl_div binary64 (fl_round_int (fl_mul binary64 v (pow10 p))) (pow10 p)"

definition canonical_value :: "semantic \<Rightarrow> fl \<Rightarrow> semantic_error + fl" where
  "canonical_value s v =
     bindE (validate_semantic s) (\<lambda>_.
       if \<not> fl_finite v then Inl ErrInvalidSemantic
       else case resolve_unit_definition (sm_quantity s) (sm_unit s) of
         Some u \<Rightarrow> Inr (round_precision (fl_add binary64 (fl_mul binary64 v (ud_scale u)) (ud_offset u)) (sm_precision s))
       | None \<Rightarrow> Inl ErrInvalidSemantic)"

definition equal_optional_float :: "fl option \<Rightarrow> fl option \<Rightarrow> bool" where
  "equal_optional_float l r =
     (case (l, r) of (None, None) \<Rightarrow> True | (Some a, Some b) \<Rightarrow> fl_eq a b | _ \<Rightarrow> False)"

definition equal_reference :: "reference_condition \<Rightarrow> reference_condition \<Rightarrow> bool" where
  "equal_reference l r \<longleftrightarrow>
     rf_volume_basis l = rf_volume_basis r \<and> rf_pressure_basis l = rf_pressure_basis r \<and>
     equal_optional_float (rf_temperature_kelvin l) (rf_temperature_kelvin r) \<and>
     equal_optional_float (rf_pressure_pascal l) (rf_pressure_pascal r)"

definition convert_measurement :: "fl \<Rightarrow> semantic \<Rightarrow> semantic \<Rightarrow> semantic_error + fl" where
  "convert_measurement v from_s to_s =
     bindE (validate_semantic from_s) (\<lambda>_. bindE (validate_semantic to_s) (\<lambda>_.
       case (resolve_unit_definition (sm_quantity from_s) (sm_unit from_s),
             resolve_unit_definition (sm_quantity to_s) (sm_unit to_s)) of
         (Some fd, Some td) \<Rightarrow>
           if sm_resource from_s \<noteq> sm_resource to_s \<or> sm_quantity from_s \<noteq> sm_quantity to_s
              \<or> ud_dimension fd \<noteq> ud_dimension td then Inl ErrIncompatibleUnit
           else if (ud_exact_only fd \<or> ud_exact_only td) \<and> sm_unit from_s \<noteq> sm_unit to_s then Inl ErrIncompatibleUnit
           else if \<not> equal_reference (sm_reference from_s) (sm_reference to_s) \<or> ud_volume fd \<noteq> ud_volume td
           then Inl ErrAmbiguousReference
           else if \<not> fl_finite v then Inl ErrInvalidSemantic
           else Inr (round_precision
             (fl_div binary64 (fl_sub binary64 (fl_add binary64 (fl_mul binary64 v (ud_scale fd)) (ud_offset fd))
                (ud_offset td)) (ud_scale td)) (sm_precision to_s))
       | _ \<Rightarrow> Inl ErrUnknownUnit))"

section \<open>What validation gives\<close>

lemma validate_semantic_resolves:
  assumes "validate_semantic s = Inr ()"
  obtains d u where "map_of quantity_dimensions (sm_quantity s) = Some d"
    and "resolve_unit_definition (sm_quantity s) (sm_unit s) = Some u" and "ud_dimension u = d"
    and "validate_reference u (sm_reference s) = Inr ()"
  using assms by (auto simp: validate_semantic_def split: if_splits option.splits)

lemma canonical_unit_defined: "validate_semantic s = Inr () \<Longrightarrow> \<exists>c. canonical_unit s = Inr c"
  by (auto simp: canonical_unit_def split: option.splits)

lemma convert_measurement_conditions:
  assumes "convert_measurement v s t = Inr w"
    and "resolve_unit_definition (sm_quantity s) (sm_unit s) = Some fd"
    and "resolve_unit_definition (sm_quantity t) (sm_unit t) = Some td"
  shows "sm_resource s = sm_resource t \<and> sm_quantity s = sm_quantity t"
    "ud_exact_only fd \<Longrightarrow> sm_unit s = sm_unit t"
    "equal_reference (sm_reference s) (sm_reference t) \<and> ud_volume fd = ud_volume td"
  using assms by (simp_all add: convert_measurement_def bindE_Inr_iff split: if_splits)

lemma exact_only_units:
  assumes "map_of unit_definitions x = Some d"
    and "ud_dimension d \<in> {DimensionCurrency, DimensionCustom, DimensionState}"
  shows "ud_exact_only d"
proof -
  have "\<forall>(x, d) \<in> set unit_definitions.
      ud_dimension d \<in> {DimensionCurrency, DimensionCustom, DimensionState} \<longrightarrow> ud_exact_only d"
    by (simp add: unit_definitions_def unit_row_def)
  then show ?thesis using map_of_SomeD [OF assms(1)] assms(2) by blast
qed

text \<open>
  A conversion relates only measurements of one resource and quantity under the same conditions;
  in particular never a normalised with an actual volume, and never two currencies.
\<close>

lemma converted_measurements_agree:
  assumes "convert_measurement v s t = Inr w"
  shows "sm_resource s = sm_resource t" "sm_quantity s = sm_quantity t"
    "rf_volume_basis (sm_reference s) = rf_volume_basis (sm_reference t)"
    "sm_quantity s = ''cost'' \<or> sm_quantity s = ''custom'' \<or> sm_quantity s = ''state'' \<Longrightarrow> sm_unit s = sm_unit t"
proof -
  from assms have v: "validate_semantic s = Inr ()" "validate_semantic t = Inr ()"
    by (simp_all add: convert_measurement_def bindE_Inr_iff)
  obtain fd where fd: "resolve_unit_definition (sm_quantity s) (sm_unit s) = Some fd"
      "map_of quantity_dimensions (sm_quantity s) = Some (ud_dimension fd)"
    using v(1) by (metis validate_semantic_resolves)
  obtain td where td: "resolve_unit_definition (sm_quantity t) (sm_unit t) = Some td"
    using v(2) by (metis validate_semantic_resolves)
  note c = convert_measurement_conditions [OF assms fd(1) td]
  show "sm_resource s = sm_resource t" "sm_quantity s = sm_quantity t"
    "rf_volume_basis (sm_reference s) = rf_volume_basis (sm_reference t)"
    using c(1,3) by (simp_all add: equal_reference_def)
  assume "sm_quantity s = ''cost'' \<or> sm_quantity s = ''custom'' \<or> sm_quantity s = ''state''"
  then have "ud_dimension fd \<in> {DimensionCurrency, DimensionCustom, DimensionState}"
    using fd(2) by (elim disjE) (simp_all add: quantity_dimensions_def)
  then have "ud_exact_only fd"
    using fd(1) exact_only_units
    by (auto simp: resolve_unit_definition_def dynamic_unit_def split: option.splits if_splits)
  then show "sm_unit s = sm_unit t" by (rule c(2))
qed

end
