(* ===== verification/Asset_Rollup.thy ===== *)
theory Asset_Rollup
  imports Asset_Semantic Tag_Graph "HOL-Library.Multiset"
begin

text \<open>
  The measurements of assets and the plan that adds them up: \<open>internal/asset/aggregation.go\<close>. A
  binding says which source measures what for which asset, and \<open>BuildRollupPlan\<close> decides which of
  the bindings inside a boundary count towards its total. The plan loops over Go maps, whose order
  the language leaves open: \<open>shuffle k\<close> is the order of the \<open>k\<close>-th loop, any permutation.
\<close>

section \<open>Bindings\<close>

datatype asset_error =
  ErrInvalidAsset | ErrInvalidAssetKind | ErrInvalidAssetPlacement | ErrHierarchyCycle | ErrHierarchyDepth |
  ErrAssetNotFound | ErrAssetNameExists | ErrAssetHasDependents | ErrInvalidAssetList | ErrInvalidBinding |
  ErrBindingSourceExists | ErrBindingSourceMissing | ErrInvalidAggregation | ErrDuplicateMeasurement |
  ErrConflictingMeters | ErrVirtualMeterCycle | ErrInvalidAssetInput | ErrInvalidMoveInput | ErrIncompatibleSource |
  ErrAssetStore string

record asset_source =
  as_kind :: string
  as_tag_id :: uuid
  as_instance_id :: uuid
  as_output_key :: string

record measurement_binding =
  mb_id :: uuid
  mb_owner :: uuid
  mb_boundary :: uuid
  mb_source_key :: string
  mb_source :: asset_source
  mb_semantic :: semantic
  mb_role :: string
  mb_policy :: string
  mb_inputs :: "uuid list"

record rollup_candidate =
  rc_binding :: measurement_binding
  rc_owner_ancestors :: "uuid list"
  rc_owner_is_leaf :: bool

record rollup_plan =
  rp_included :: "uuid list"
  rp_excluded :: "uuid list"

definition asset_tag_source :: "uuid \<Rightarrow> asset_source" where
  "asset_tag_source t = \<lparr>as_kind = ''tag'', as_tag_id = t, as_instance_id = uuid_nil, as_output_key = []\<rparr>"

definition asset_output_source :: "uuid \<Rightarrow> string \<Rightarrow> asset_source" where
  "asset_output_source i k = \<lparr>as_kind = ''plugin_output'', as_tag_id = uuid_nil, as_instance_id = i, as_output_key = k\<rparr>"

definition validate_asset_source :: "asset_source \<Rightarrow> asset_error + unit" where
  "validate_asset_source s =
     (if as_kind s = ''tag'' then
        (if as_tag_id s = uuid_nil \<or> as_instance_id s \<noteq> uuid_nil \<or> as_output_key s \<noteq> [] then Inl ErrInvalidBinding else Inr ())
      else if as_kind s = ''plugin_output'' then
        (if as_tag_id s \<noteq> uuid_nil \<or> as_instance_id s = uuid_nil \<or> as_output_key s = [] then Inl ErrInvalidBinding else Inr ())
      else Inl ErrInvalidBinding)"

text \<open>\<open>uuid.UUID.String\<close>: hexadecimal digits in groups of 8, 4, 4, 4 and 12.\<close>

definition uuid_digit :: "uuid \<Rightarrow> nat \<Rightarrow> char" where
  "uuid_digit u k = (let n = unat (take_bit 4 (drop_bit (4 * (31 - k)) u)) in if n < 10 then char_of (48 + n) else char_of (87 + n))"

definition uuid_string :: "uuid \<Rightarrow> string" where
  "uuid_string u =
     map (uuid_digit u) [0..<8] @ ''-'' @ map (uuid_digit u) [8..<12] @ ''-'' @ map (uuid_digit u) [12..<16] @ ''-'' @
     map (uuid_digit u) [16..<20] @ ''-'' @ map (uuid_digit u) [20..<32]"

definition asset_source_key :: "asset_source \<Rightarrow> string" where
  "asset_source_key s =
     (if as_kind s = ''tag'' then ''tag:'' @ uuid_string (as_tag_id s)
      else if as_kind s = ''plugin_output'' then ''plugin_output:'' @ uuid_string (as_instance_id s) @ '':'' @ as_output_key s
      else [])"

definition binding_source_key :: "measurement_binding \<Rightarrow> string" where
  "binding_source_key b =
     (if validate_asset_source (mb_source b) = Inr () then asset_source_key (mb_source b) else mb_source_key b)"

section \<open>Candidates\<close>

text \<open>The checks on the role and the policy, which the repository makes again.\<close>

definition role_matches_inputs :: "measurement_binding \<Rightarrow> bool" where
  "role_matches_inputs b =
     (if mb_role b \<in> {''direct'', ''main'', ''submeter''} then mb_inputs b = []
      else if mb_role b = ''virtual'' then mb_inputs b \<noteq> [] else False)"

definition valid_policy :: "measurement_binding \<Rightarrow> bool" where
  "valid_policy b \<longleftrightarrow> mb_policy b = ''include'' \<or> mb_policy b = ''exclude''"

definition validate_candidate :: "rollup_candidate \<Rightarrow> asset_error + unit" where
  "validate_candidate c =
     (let b = rc_binding c
      in if mb_id b = uuid_nil \<or> mb_owner b = uuid_nil \<or> mb_boundary b = uuid_nil \<or> binding_source_key b = []
            \<or> \<not> rc_owner_is_leaf c \<or> validate_semantic (mb_semantic b) \<noteq> Inr () then Inl ErrInvalidAggregation
         else if mb_boundary b \<notin> set (rc_owner_ancestors c) \<and> mb_owner b \<noteq> mb_boundary b then Inl ErrInvalidAggregation
         else if \<not> role_matches_inputs b then Inl ErrInvalidAggregation
         else if \<not> valid_policy b then Inl ErrInvalidAggregation
         else Inr ())"

text \<open>
  The key under which meters add up. The code joins the parts with NUL bytes and the shortest
  decimal that denotes each float; none of the parts of a validated binding has a NUL and distinct
  floats have distinct shortest decimals, so equality of the keys is equality of the parts.
\<close>

type_synonym aggregation_key = "uuid \<times> string \<times> string \<times> string \<times> string \<times> string \<times> fl \<times> fl"

definition reference_key :: "reference_condition \<Rightarrow> string \<times> string \<times> fl \<times> fl" where
  "reference_key r =
     (rf_volume_basis r, rf_pressure_basis r,
      case rf_temperature_kelvin r of None \<Rightarrow> FZero False | Some t \<Rightarrow> t,
      case rf_pressure_pascal r of None \<Rightarrow> FZero False | Some p \<Rightarrow> p)"

definition aggregation_group :: "measurement_binding \<Rightarrow> aggregation_key" where
  "aggregation_group b =
     (mb_boundary b, sm_resource (mb_semantic b), sm_quantity (mb_semantic b),
      case canonical_unit (mb_semantic b) of Inr c \<Rightarrow> c | Inl e \<Rightarrow> [],
      reference_key (sm_reference (mb_semantic b)))"

section \<open>Cycles of virtual meters\<close>

text \<open>
  \<open>virtualDependencyCycle\<close>: the depth-first search with the marks 1 (on the path) and 2
  (finished). The recursion visits an unmarked meter each time it goes deeper, so the number of
  meters bounds its depth; that bound is the fuel of the search.
\<close>

fun visit_meter :: "nat \<Rightarrow> tag_graph \<Rightarrow> uuid \<Rightarrow> visit_state \<Rightarrow> bool \<times> visit_state"
  and visit_inputs :: "nat \<Rightarrow> tag_graph \<Rightarrow> uuid list \<Rightarrow> visit_state \<Rightarrow> bool \<times> visit_state"
where
  "visit_meter n g i state =
     (if state i = 1 then (True, state)
      else if state i = 2 then (False, state)
      else case n of
        0 \<Rightarrow> (True, state)
      | Suc m \<Rightarrow>
          (case visit_inputs m g (g i) (state(i := 1)) of
             (found, state') \<Rightarrow> if found then (True, state') else (False, state'(i := 2))))"
| "visit_inputs n g [] state = (False, state)"
| "visit_inputs n g (d # ds) state =
     (case visit_meter n g d state of
        (found, state') \<Rightarrow> if found then (True, state') else visit_inputs n g ds state')"

declare visit_meter.simps [simp del]

type_synonym candidate_index = "(uuid \<times> rollup_candidate) list"

definition meter_graph :: "candidate_index \<Rightarrow> tag_graph" where
  "meter_graph by_id i =
     (case map_of by_id i of None \<Rightarrow> []
      | Some c \<Rightarrow> filter (\<lambda>d. d \<in> fst ` set by_id) (mb_inputs (rc_binding c)))"

definition virtual_dependency_cycle :: "uuid list \<Rightarrow> candidate_index \<Rightarrow> bool" where
  "virtual_dependency_cycle ids by_id = fst (visit_inputs (length by_id) (meter_graph by_id) ids (\<lambda>_. 0))"

section \<open>The plan\<close>

definition index_candidate ::
  "uuid \<Rightarrow> rollup_candidate \<Rightarrow> candidate_index \<times> string list \<Rightarrow> asset_error + candidate_index \<times> string list" where
  "index_candidate target c = (\<lambda>(by_id, by_source).
     bindE (validate_candidate c) (\<lambda>_.
       let b = rc_binding c
       in if mb_owner b \<noteq> target \<and> target \<notin> set (rc_owner_ancestors c) then Inl ErrInvalidAggregation
          else if mb_id b \<in> fst ` set by_id then Inl ErrDuplicateMeasurement
          else if binding_source_key b \<in> set by_source then Inl ErrDuplicateMeasurement
          else Inr (by_id @ [(mb_id b, c)], by_source @ [binding_source_key b])))"

definition policy_included :: "candidate_index \<Rightarrow> uuid \<Rightarrow> bool" where
  "policy_included by_id i =
     (case map_of by_id i of None \<Rightarrow> False | Some c \<Rightarrow> mb_policy (rc_binding c) = ''include'')"

definition has_role :: "candidate_index \<Rightarrow> string \<Rightarrow> uuid \<Rightarrow> bool" where
  "has_role by_id r i = (case map_of by_id i of None \<Rightarrow> False | Some c \<Rightarrow> mb_role (rc_binding c) = r)"

definition group_of :: "candidate_index \<Rightarrow> uuid \<Rightarrow> aggregation_key option" where
  "group_of by_id i = map_option (\<lambda>c. aggregation_group (rc_binding c)) (map_of by_id i)"

definition inputs_of :: "candidate_index \<Rightarrow> uuid \<Rightarrow> uuid list" where
  "inputs_of by_id i = (case map_of by_id i of None \<Rightarrow> [] | Some c \<Rightarrow> mb_inputs (rc_binding c))"

definition note_main ::
  "candidate_index \<Rightarrow> (uuid \<Rightarrow> bool) \<Rightarrow> uuid \<Rightarrow> (aggregation_key option \<rightharpoonup> uuid) \<Rightarrow> asset_error + (aggregation_key option \<rightharpoonup> uuid)" where
  "note_main by_id included i mains =
     (if \<not> included i \<or> \<not> has_role by_id ''main'' i then Inr mains
      else if mains (group_of by_id i) \<noteq> None then Inl ErrConflictingMeters
      else Inr (mains(group_of by_id i \<mapsto> i)))"

definition exclude_downstream ::
  "candidate_index \<Rightarrow> (aggregation_key option \<rightharpoonup> uuid) \<Rightarrow> uuid \<Rightarrow> (uuid \<Rightarrow> bool) \<Rightarrow> uuid \<Rightarrow> bool" where
  "exclude_downstream by_id mains i included =
     (case mains (group_of by_id i) of
        None \<Rightarrow> included
      | Some m \<Rightarrow> if i \<noteq> m then included(i := False) else included)"

definition replace_input ::
  "candidate_index \<Rightarrow> uuid \<Rightarrow> uuid \<Rightarrow> (uuid \<Rightarrow> bool) \<Rightarrow> asset_error + (uuid \<Rightarrow> bool)" where
  "replace_input by_id i j included =
     (if map_of by_id j = None \<or> group_of by_id j \<noteq> group_of by_id i then Inl ErrInvalidAggregation
      else Inr (included(j := False)))"

definition replace_inputs ::
  "candidate_index \<Rightarrow> uuid \<Rightarrow> (uuid \<Rightarrow> bool) \<Rightarrow> asset_error + (uuid \<Rightarrow> bool)" where
  "replace_inputs by_id i included =
     (if \<not> included i \<or> \<not> has_role by_id ''virtual'' i then Inr included
      else foldE (replace_input by_id i) (inputs_of by_id i) included)"

definition build_rollup_plan ::
  "(nat \<Rightarrow> uuid list \<Rightarrow> uuid list) \<Rightarrow> uuid \<Rightarrow> rollup_candidate list \<Rightarrow> asset_error + rollup_plan" where
  "build_rollup_plan shuffle target candidates =
     (if target = uuid_nil then Inl ErrInvalidAggregation
      else bindE (foldE (index_candidate target) candidates ([], [])) (\<lambda>(by_id, by_source).
        let ids = map fst by_id
        in if virtual_dependency_cycle (shuffle 0 ids) by_id then Inl ErrVirtualMeterCycle
           else bindE (foldE (note_main by_id (policy_included by_id)) (shuffle 1 ids) Map.empty) (\<lambda>mains.
             let included = fold (exclude_downstream by_id mains) (shuffle 2 ids) (policy_included by_id)
             in bindE (foldE (replace_inputs by_id) (shuffle 3 ids) included) (\<lambda>included.
               Inr \<lparr>rp_included = sort (filter included (shuffle 4 ids)),
                    rp_excluded = sort (filter (\<lambda>i. \<not> included i) (shuffle 4 ids))\<rparr>))))"

section \<open>What the loops compute\<close>






section \<open>The index of the candidates\<close>

definition index_of :: "rollup_candidate list \<Rightarrow> candidate_index" where
  "index_of cs = map (\<lambda>c. (mb_id (rc_binding c), c)) cs"




section \<open>The search for cycles\<close>




section \<open>The plan counts every measurement once\<close>














text \<open>Meters of one asset that a test or a witness uses: energy of a site, in watt hours.\<close>

definition energy_semantic :: semantic where
  "energy_semantic = \<lparr>sm_resource = ''electricity'', sm_quantity = ''energy'', sm_unit = ''Wh'', sm_precision = 3,
     sm_reference = no_reference\<rparr>"

definition energy_meter :: "uuid \<Rightarrow> string \<Rightarrow> uuid list \<Rightarrow> rollup_candidate" where
  "energy_meter i role inputs = \<lparr>rc_binding = \<lparr>mb_id = i, mb_owner = 1, mb_boundary = 1, mb_source_key = [],
     mb_source = asset_output_source 1 (replicate (unat i) CHR ''a''), mb_semantic = energy_semantic, mb_role = role, mb_policy = ''include'', mb_inputs = inputs\<rparr>,
     rc_owner_ancestors = [], rc_owner_is_leaf = True\<rparr>"

definition energy_group :: aggregation_key where
  "energy_group = aggregation_group (rc_binding (energy_meter 0 ''main'' []))"

lemma energy_semantic_valid: "validate_semantic energy_semantic = Inr ()"
proof -
  have "map_of quantity_dimensions ''energy'' = Some DimensionEnergy" by (simp add: quantity_dimensions_def)
  moreover have "map_of unit_definitions ''Wh'' = Some (snd (unit_row ''Wh'' DimensionEnergy ''Wh'' 1 0 [] False))"
    by (simp add: unit_definitions_def unit_row_def)
  ultimately show ?thesis
    by (simp add: validate_semantic_def energy_semantic_def valid_resource_def resolve_unit_definition_def
        unit_row_def validate_reference_def no_reference_def)
qed

lemma energy_meter_simps:
  "mb_id (rc_binding (energy_meter i r js)) = i" "mb_role (rc_binding (energy_meter i r js)) = r"
  "mb_inputs (rc_binding (energy_meter i r js)) = js" "mb_policy (rc_binding (energy_meter i r js)) = ''include''"
  "mb_owner (rc_binding (energy_meter i r js)) = 1" "rc_owner_ancestors (energy_meter i r js) = []"
  "aggregation_group (rc_binding (energy_meter i r js)) = energy_group"
  by (simp_all add: energy_meter_def aggregation_group_def energy_group_def)

lemma energy_meter_valid:
  "i \<noteq> 0 \<Longrightarrow> role_matches_inputs (rc_binding (energy_meter i r js)) \<Longrightarrow> validate_candidate (energy_meter i r js) = Inr ()"
  using energy_semantic_valid
  by (simp add: validate_candidate_def Let_def energy_meter_def valid_policy_def binding_source_key_def
      validate_asset_source_def asset_output_source_def asset_source_key_def role_matches_inputs_def unat_eq_0)

lemma energy_meter_keys:
  "binding_source_key (rc_binding (energy_meter 2 r js)) \<noteq> binding_source_key (rc_binding (energy_meter 3 r' js'))"
  "binding_source_key (rc_binding (energy_meter 2 r js)) \<noteq> binding_source_key (rc_binding (energy_meter 4 r' js'))"
  "binding_source_key (rc_binding (energy_meter 3 r js)) \<noteq> binding_source_key (rc_binding (energy_meter 4 r' js'))"
  by (simp_all add: energy_meter_def binding_source_key_def validate_asset_source_def asset_output_source_def
      asset_source_key_def)

text \<open>
  A virtual meter that reads another virtual meter: whether the meter behind the second is counted
  depends on which of the two the loop meets first, so the total of the boundary does too. In the
  first order below the meter 4 is counted twice: on its own and, through 3, in 2. The comment in the
  code says that nested virtual meters are supported.
\<close>

definition nested_meters :: "rollup_candidate list" where
  "nested_meters = [energy_meter 2 ''virtual'' [3], energy_meter 3 ''virtual'' [4], energy_meter 4 ''direct'' []]"

lemma nested_meters_indexed:
  "foldE (index_candidate 1) nested_meters ([], []) =
     Inr (index_of nested_meters, map (\<lambda>c. binding_source_key (rc_binding c)) nested_meters)"
  using energy_meter_keys energy_meter_keys [symmetric]
  by (simp add: nested_meters_def index_candidate_def energy_meter_valid energy_meter_simps role_matches_inputs_def
      index_of_def Let_def)

lemma nested_meters_defs:
  "map fst (index_of nested_meters) = [2, 3, 4]"
  "policy_included (index_of nested_meters) = (\<lambda>i. i \<in> {2, 3, 4})"
  "has_role (index_of nested_meters) ''main'' i = False"
  "has_role (index_of nested_meters) ''virtual'' i \<longleftrightarrow> i \<in> {2, 3}"
  "map_of (index_of nested_meters) i = None \<longleftrightarrow> i \<notin> {2, 3, 4}"
  "group_of (index_of nested_meters) i = (if i \<in> {2, 3, 4} then Some energy_group else None)"
  "inputs_of (index_of nested_meters) i = (if i = 2 then [3] else if i = 3 then [4] else [])"
  by (simp_all add: nested_meters_def index_of_def energy_meter_simps policy_included_def has_role_def group_of_def
      inputs_of_def fun_eq_iff)

lemma nested_meters_acyclic:
  "\<not> virtual_dependency_cycle [2, 3, 4] (index_of nested_meters)"
  "\<not> virtual_dependency_cycle [4, 3, 2] (index_of nested_meters)"
  by (simp_all add: virtual_dependency_cycle_def nested_meters_def index_of_def meter_graph_def energy_meter_simps
      visit_meter.simps)

lemma nested_virtuals_depend_on_order:
  "build_rollup_plan (\<lambda>k xs. xs) 1 nested_meters = Inr \<lparr>rp_included = [2, 4], rp_excluded = [3]\<rparr>"
  "build_rollup_plan (\<lambda>k xs. rev xs) 1 nested_meters = Inr \<lparr>rp_included = [2], rp_excluded = [3, 4]\<rparr>"
  by (simp_all add: build_rollup_plan_def nested_meters_indexed nested_meters_defs nested_meters_acyclic note_main_def
      exclude_downstream_def replace_inputs_def replace_input_def Let_def)







end
