(* ===== verification/Asset_Hierarchy.thy ===== *)
theory Asset_Hierarchy
  imports Asset_Rollup Edge_Interfaces Go_Text "HOL-Library.List_Lexorder" "HOL-Library.Product_Lexorder" "HOL-Library.Char_ord"
begin

text \<open>
  The tree of assets and the tables behind it: \<open>internal/asset/model.go\<close>, \<open>hierarchy.go\<close> and
  \<open>internal/asset/postgres/repository.go\<close>, over the constraints and triggers that
  \<open>migrations/000019_create_assets_measurement_bindings.up.sql\<close> puts on the tables. A statement of
  the repository is one atomic step on the tables: the trigger of the row, its check constraints,
  the unique indexes and the foreign keys, in that order, and no change when one of them fails.
\<close>

section \<open>Assets\<close>

definition max_hierarchy_depth :: nat where "max_hierarchy_depth = 16"

record asset =
  at_id :: uuid
  at_parent :: "uuid option"
  at_name :: string
  at_kind :: string
  at_description :: "string option"
  at_enabled :: bool
  at_timezone :: "string option"
  at_position :: int
  at_metadata :: string

definition valid_kind :: "string \<Rightarrow> bool" where
  "valid_kind k \<longleftrightarrow> k \<in> {''site'', ''building'', ''area'', ''system'', ''equipment'', ''meter'', ''custom''}"

definition validate_placement :: "string \<Rightarrow> string option \<Rightarrow> asset_error + unit" where
  "validate_placement kind parent =
     (if \<not> valid_kind kind then Inl ErrInvalidAssetKind
      else if (case parent of None \<Rightarrow> False | Some k \<Rightarrow> \<not> valid_kind k) then Inl ErrInvalidAssetKind
      else if kind = ''site'' then (if parent \<noteq> None then Inl ErrInvalidAssetPlacement else Inr ())
      else if parent = None then Inl ErrInvalidAssetPlacement
      else Inr ())"

fun check_ancestors :: "uuid list \<Rightarrow> uuid list \<Rightarrow> asset_error + unit" where
  "check_ancestors seen [] = Inr ()"
| "check_ancestors seen (a # ids) =
     (if a = uuid_nil then Inl ErrInvalidAsset
      else if a \<in> set seen then Inl ErrHierarchyCycle
      else check_ancestors (a # seen) ids)"

definition validate_ancestry :: "uuid \<Rightarrow> uuid list \<Rightarrow> asset_error + unit" where
  "validate_ancestry i ids =
     (if i = uuid_nil then Inl ErrInvalidAsset
      else if length ids + 1 > max_hierarchy_depth then Inl ErrHierarchyDepth
      else check_ancestors [i] ids)"

definition effective_enabled :: "asset \<Rightarrow> asset list \<Rightarrow> bool" where
  "effective_enabled e ancestors \<longleftrightarrow> at_enabled e \<and> list_all at_enabled ancestors"

section \<open>The tables\<close>

text \<open>
  The rows of \<open>assets\<close>, \<open>measurement_bindings\<close> (their inputs are in the third table) and
  \<open>measurement_binding_inputs\<close>. Time stamps are left out. What the database knows and the code
  does not say is a parameter: \<open>LOWER\<close>, the sort key of the collation, the text it stores, and
  which tags and plugin instances exist; so are the Unicode tables of \<open>strings.ToLower\<close>.
\<close>

record asset_tables =
  tb_assets :: "asset list"
  tb_bindings :: "measurement_binding list"
  tb_inputs :: "(uuid \<times> uuid) list"

record asset_db =
  db_lower :: "string \<Rightarrow> string"
  db_collate :: "string \<Rightarrow> string"
  db_to_lower :: "string \<Rightarrow> string"
  db_text :: "string \<Rightarrow> bool"
  db_tag_exists :: "uuid \<Rightarrow> bool"
  db_instance_exists :: "uuid \<Rightarrow> bool"

definition find_asset :: "asset list \<Rightarrow> uuid \<Rightarrow> asset option" where
  "find_asset rows i = find (\<lambda>a. at_id a = i) rows"

definition parent_of :: "asset list \<Rightarrow> uuid \<Rightarrow> uuid option" where
  "parent_of rows i = Option.bind (find_asset rows i) at_parent"

text \<open>The walk of \<open>validate_asset_hierarchy\<close>, which starts at depth 1 at the new parent.\<close>

function hierarchy_walk :: "asset list \<Rightarrow> uuid \<Rightarrow> nat \<Rightarrow> uuid \<Rightarrow> asset_error + unit" where
  "hierarchy_walk rows i depth a =
     (if depth + 1 > max_hierarchy_depth then Inl ErrHierarchyDepth
      else if a = i then Inl ErrHierarchyCycle
      else case find_asset rows a of
        None \<Rightarrow> Inl (ErrAssetStore ''asset parent does not exist'')
      | Some r \<Rightarrow>
          (case at_parent r of None \<Rightarrow> Inr () | Some p \<Rightarrow> hierarchy_walk rows i (depth + 1) p))"
  by pat_completeness auto
termination
  by (relation "measure (\<lambda>(rows, i, depth, a). Suc max_hierarchy_depth - depth)") auto

declare hierarchy_walk.simps [simp del]

definition validate_asset_hierarchy :: "asset_tables \<Rightarrow> asset \<Rightarrow> asset_error + unit" where
  "validate_asset_hierarchy t e =
     (case at_parent e of
        None \<Rightarrow> Inr ()
      | Some p \<Rightarrow>
          if p = at_id e then Inl ErrHierarchyCycle
          else if \<exists>b \<in> set (tb_bindings t). mb_owner b = p then Inl ErrInvalidBinding
          else hierarchy_walk (tb_assets t) (at_id e) 1 p)"

text \<open>The check constraints. \<open>BTRIM\<close> removes blanks at both ends, so a trimmed text has none there.\<close>

definition no_blank_ends :: "string \<Rightarrow> bool" where
  "no_blank_ends s \<longleftrightarrow> s \<noteq> [] \<and> hd s \<noteq> CHR '' '' \<and> last s \<noteq> CHR '' ''"

definition check_asset_row :: "asset_db \<Rightarrow> asset \<Rightarrow> asset_error + unit" where
  "check_asset_row db e =
     (if at_position e > 2147483647 then Inl (ErrAssetStore ''position out of range'')
      else if \<not> db_text db (at_name e) \<or> (case at_description e of None \<Rightarrow> False | Some d \<Rightarrow> \<not> db_text db d)
      then Inl (ErrAssetStore ''invalid byte sequence'')
      else if \<not> no_blank_ends (at_name e) \<or> rune_count (at_name e) > 100 \<or> \<not> valid_kind (at_kind e)
           \<or> (at_kind e = ''site'') \<noteq> (at_parent e = None)
           \<or> (case at_timezone e of None \<Rightarrow> False | Some z \<Rightarrow> \<not> no_blank_ends z \<or> rune_count z > 100)
           \<or> at_position e < 0 then Inl ErrInvalidAsset
      else Inr ())"

definition sibling_name_taken :: "asset_db \<Rightarrow> asset list \<Rightarrow> asset \<Rightarrow> bool" where
  "sibling_name_taken db rows e \<longleftrightarrow>
     (\<exists>a \<in> set rows. at_id a \<noteq> at_id e \<and> at_parent a = at_parent e \<and> db_lower db (at_name a) = db_lower db (at_name e))"

definition replace_asset :: "asset \<Rightarrow> asset list \<Rightarrow> asset list" where
  "replace_asset e rows = map (\<lambda>a. if at_id a = at_id e then e else a) rows"

section \<open>The repository\<close>

type_synonym 'a asset_result = "(asset_error + 'a) \<times> asset_tables"

definition repo_create :: "asset_db \<Rightarrow> asset \<Rightarrow> asset_tables \<Rightarrow> unit asset_result" where
  "repo_create db e t =
     (case bindE (validate_asset_hierarchy t e) (\<lambda>_. bindE (check_asset_row db e) (\<lambda>_.
        if at_id e \<in> at_id ` set (tb_assets t) then Inl (ErrAssetStore ''assets_pkey'')
        else if sibling_name_taken db (tb_assets t) e then Inl ErrAssetNameExists
        else Inr ())) of
        Inl err \<Rightarrow> (Inl err, t)
      | Inr _ \<Rightarrow> (Inr (), t\<lparr>tb_assets := tb_assets t @ [e]\<rparr>))"

definition repo_find :: "uuid \<Rightarrow> asset_tables \<Rightarrow> asset_error + asset" where
  "repo_find i t =
     (if i = uuid_nil then Inl ErrInvalidAsset
      else case find_asset (tb_assets t) i of None \<Rightarrow> Inl ErrAssetNotFound | Some e \<Rightarrow> Inr e)"

text \<open>\<open>Update\<close> writes every column but the parent, so the trigger of the hierarchy does not fire.\<close>

definition repo_update :: "asset_db \<Rightarrow> asset \<Rightarrow> asset_tables \<Rightarrow> unit asset_result" where
  "repo_update db e t =
     (if at_id e = uuid_nil then (Inl ErrInvalidAsset, t)
      else case find_asset (tb_assets t) (at_id e) of
        None \<Rightarrow> (Inl ErrAssetNotFound, t)
      | Some old \<Rightarrow>
          let row = e\<lparr>at_parent := at_parent old\<rparr>
          in case bindE (check_asset_row db row) (\<lambda>_.
               if sibling_name_taken db (tb_assets t) row then Inl ErrAssetNameExists else Inr ()) of
             Inl err \<Rightarrow> (Inl err, t)
           | Inr _ \<Rightarrow> (Inr (), t\<lparr>tb_assets := replace_asset row (tb_assets t)\<rparr>))"

definition repo_move :: "asset_db \<Rightarrow> uuid \<Rightarrow> uuid option \<Rightarrow> int \<Rightarrow> asset_tables \<Rightarrow> unit asset_result" where
  "repo_move db i parent position t =
     (if i = uuid_nil \<or> position < 0 then (Inl ErrInvalidAsset, t)
      else case find_asset (tb_assets t) i of
        None \<Rightarrow> (Inl ErrAssetNotFound, t)
      | Some old \<Rightarrow>
          let row = old\<lparr>at_parent := parent, at_position := position\<rparr>
          in case bindE (validate_asset_hierarchy t row) (\<lambda>_. bindE (check_asset_row db row) (\<lambda>_.
               if sibling_name_taken db (tb_assets t) row then Inl ErrAssetNameExists else Inr ())) of
             Inl err \<Rightarrow> (Inl err, t)
           | Inr _ \<Rightarrow> (Inr (), t\<lparr>tb_assets := replace_asset row (tb_assets t)\<rparr>))"

definition repo_delete :: "uuid \<Rightarrow> asset_tables \<Rightarrow> unit asset_result" where
  "repo_delete i t =
     (if i = uuid_nil then (Inl ErrInvalidAsset, t)
      else if find_asset (tb_assets t) i = None then (Inl ErrAssetNotFound, t)
      else if (\<exists>a \<in> set (tb_assets t). at_parent a = Some i) \<or>
              (\<exists>b \<in> set (tb_bindings t). mb_owner b = i \<or> mb_boundary b = i) then (Inl ErrAssetHasDependents, t)
      else (Inr (), t\<lparr>tb_assets := filter (\<lambda>a. at_id a \<noteq> i) (tb_assets t)\<rparr>))"

text \<open>\<open>ORDER BY position ASC, LOWER(name) ASC, id ASC\<close>, and the order \<open>assetLess\<close> of a tree.\<close>

definition asset_less_key :: "asset_db \<Rightarrow> asset \<Rightarrow> int \<times> string \<times> uuid" where
  "asset_less_key db a = (at_position a, db_to_lower db (at_name a), at_id a)"

definition asset_order :: "asset_db \<Rightarrow> asset \<Rightarrow> int \<times> string \<times> uuid" where
  "asset_order db a = (at_position a, db_collate db (db_lower db (at_name a)), at_id a)"

definition repo_list_children :: "asset_db \<Rightarrow> uuid option \<Rightarrow> asset_tables \<Rightarrow> asset list" where
  "repo_list_children db parent t = sort_key (asset_order db) (filter (\<lambda>a. at_parent a = parent) (tb_assets t))"

text \<open>
  The recursive query of \<open>Ancestors\<close>: the parents from the nearest up, answered farthest first.
  A lineage has no more rows than the table, so the number of rows is enough fuel
  (\<open>lineage_complete\<close>).
\<close>

fun lineage :: "asset list \<Rightarrow> nat \<Rightarrow> uuid \<Rightarrow> asset list" where
  "lineage rows 0 i = []"
| "lineage rows (Suc n) i =
     (case parent_of rows i of
        None \<Rightarrow> []
      | Some p \<Rightarrow> (case find_asset rows p of None \<Rightarrow> [] | Some a \<Rightarrow> a # lineage rows n p))"

definition repo_ancestors :: "uuid \<Rightarrow> asset_tables \<Rightarrow> asset_error + asset list" where
  "repo_ancestors i t =
     bindE (repo_find i t) (\<lambda>_. Inr (rev (lineage (tb_assets t) (length (tb_assets t)) i)))"

text \<open>The recursive query of \<open>Subtree\<close> and the tree built from its rows.\<close>

datatype tree_node = TreeNode (tn_asset: asset) (tn_depth: nat) (tn_effective: bool) (tn_measurements: nat)
  (tn_children: "tree_node list")

fun build_tree :: "asset_db \<Rightarrow> asset_tables \<Rightarrow> nat \<Rightarrow> nat \<Rightarrow> bool \<Rightarrow> asset \<Rightarrow> tree_node" where
  "build_tree db t n depth effective a =
     TreeNode a depth effective (length (filter (\<lambda>b. mb_owner b = at_id a) (tb_bindings t)))
       (case n of 0 \<Rightarrow> []
        | Suc m \<Rightarrow> map (\<lambda>c. build_tree db t m (depth + 1) (effective \<and> at_enabled c) c)
            (sort_key (asset_less_key db) (filter (\<lambda>c. at_parent c = Some (at_id a)) (tb_assets t))))"

declare build_tree.simps [simp del]

definition repo_subtree :: "asset_db \<Rightarrow> uuid \<Rightarrow> asset_tables \<Rightarrow> asset_error + tree_node" where
  "repo_subtree db i t =
     bindE (repo_find i t) (\<lambda>a. Inr (build_tree db t (length (tb_assets t)) 0 (at_enabled a) a))"

section \<open>Rows by their id\<close>

lemma find_asset_Some: "find_asset rows i = Some a \<Longrightarrow> a \<in> set rows \<and> at_id a = i"
  by (auto simp: find_asset_def find_Some_iff)

lemma find_asset_None: "find_asset rows i = None \<longleftrightarrow> i \<notin> at_id ` set rows"
  by (auto simp: find_asset_def find_None_iff)

lemma find_asset_mem: "distinct (map at_id rows) \<Longrightarrow> a \<in> set rows \<Longrightarrow> find_asset rows (at_id a) = Some a"
  by (induction rows) (auto simp: find_asset_def)

lemma find_asset_append: "find_asset (rows @ [e]) i = (case find_asset rows i of Some a \<Rightarrow> Some a
    | None \<Rightarrow> if at_id e = i then Some e else None)"
  by (induction rows) (auto simp: find_asset_def)

lemma find_asset_replace:
  "find_asset (replace_asset e rows) i =
     (if i = at_id e then (if i \<in> at_id ` set rows then Some e else None) else find_asset rows i)"
  by (induction rows) (auto simp: find_asset_def replace_asset_def)

lemma find_asset_filter: "find_asset (filter (\<lambda>a. at_id a \<noteq> k) rows) i = (if i = k then None else find_asset rows i)"
  by (induction rows) (auto simp: find_asset_def)

lemma replace_asset_ids [simp]: "map at_id (replace_asset e rows) = map at_id rows"
  by (induction rows) (auto simp: replace_asset_def)

lemma set_replace_asset: "set (replace_asset e rows) \<subseteq> insert e {a \<in> set rows. at_id a \<noteq> at_id e}"
  by (auto simp: replace_asset_def)

section \<open>A forest of assets\<close>

text \<open>An asset is grounded if its parents lead to an asset without one.\<close>

inductive grounded :: "asset list \<Rightarrow> uuid \<Rightarrow> bool" for rows :: "asset list" where
  grounded_root: "find_asset rows i = Some a \<Longrightarrow> at_parent a = None \<Longrightarrow> grounded rows i"
| grounded_child: "find_asset rows i = Some a \<Longrightarrow> at_parent a = Some p \<Longrightarrow> grounded rows p \<Longrightarrow> grounded rows i"

definition forest :: "asset list \<Rightarrow> bool" where
  "forest rows \<longleftrightarrow> distinct (map at_id rows) \<and> (\<forall>a \<in> set rows. grounded rows (at_id a))"

lemma walk_grounded:
  "hierarchy_walk rows i depth a = Inr () \<Longrightarrow>
   (\<And>x r. x \<noteq> i \<Longrightarrow> find_asset rows x = Some r \<Longrightarrow> find_asset rows' x = Some r) \<Longrightarrow> grounded rows' a"
proof (induction rows i depth a rule: hierarchy_walk.induct)
  case (1 rows i depth a)
  from "1.prems"(1) obtain r where a: "a \<noteq> i" "\<not> depth + 1 > max_hierarchy_depth" and r: "find_asset rows a = Some r"
    by (subst (asm) hierarchy_walk.simps) (auto split: if_splits option.splits)
  note r' = "1.prems"(2) [OF a(1) r]
  show ?case
  proof (cases "at_parent r")
    case None
    then show ?thesis by (rule grounded_root [OF r'])
  next
    case (Some p)
    then have "hierarchy_walk rows i (depth + 1) p = Inr ()"
      using "1.prems"(1) a r by (simp add: hierarchy_walk.simps [of rows i depth a])
    then have "grounded rows' p" using "1.IH" [OF a(2,1) r Some] "1.prems"(2) by blast
    then show ?thesis by (rule grounded_child [OF r' Some])
  qed
qed

lemma grounded_change:
  assumes "grounded rows x" and "\<And>y r. find_asset rows y = Some r \<Longrightarrow> y = i \<and> grounded rows' i \<or>
      (\<exists>r'. find_asset rows' y = Some r' \<and> at_parent r' = at_parent r)"
  shows "grounded rows' x"
  using assms(1)
proof induction
  case (grounded_root x a)
  then show ?case using assms(2) [of x a] grounded.grounded_root by fastforce
next
  case (grounded_child x a p)
  then show ?case using assms(2) [of x a] grounded.grounded_child by fastforce
qed

text \<open>The trigger keeps the forest when a row is inserted or gets a new parent.\<close>

lemma trigger_grounded:
  assumes "validate_asset_hierarchy t e = Inr ()"
    and "find_asset rows' (at_id e) = Some e"
    and "\<And>x r. x \<noteq> at_id e \<Longrightarrow> find_asset (tb_assets t) x = Some r \<Longrightarrow> find_asset rows' x = Some r"
  shows "grounded rows' (at_id e)"
proof (cases "at_parent e")
  case None
  then show ?thesis by (rule grounded_root [OF assms(2)])
next
  case (Some p)
  then have "hierarchy_walk (tb_assets t) (at_id e) 1 p = Inr ()"
    using assms(1) by (simp add: validate_asset_hierarchy_def split: if_splits)
  then show ?thesis using grounded_child [OF assms(2) Some] walk_grounded assms(3) by blast
qed

lemma forest_create:
  assumes "forest (tb_assets t)" "repo_create db e t = (Inr (), t')"
  shows "forest (tb_assets t')"
proof -
  from assms(2) have t': "t' = t\<lparr>tb_assets := tb_assets t @ [e]\<rparr>" and v: "validate_asset_hierarchy t e = Inr ()"
    and new: "at_id e \<notin> at_id ` set (tb_assets t)"
    by (auto simp: repo_create_def bindE_Inr_iff split: sum.splits if_splits)
  have e: "grounded (tb_assets t') (at_id e)"
    by (rule trigger_grounded [OF v]) (use new in \<open>auto simp: t' find_asset_append find_asset_None [THEN iffD2]\<close>)
  have "grounded (tb_assets t') (at_id a)" if "a \<in> set (tb_assets t)" for a
    by (rule grounded_change [of "tb_assets t" _ "at_id e"]) (use assms(1) that in \<open>auto simp: forest_def t' find_asset_append\<close>)
  then show ?thesis using assms(1) new e by (auto simp: forest_def t')
qed

lemma forest_replace:
  assumes "forest rows" and "find_asset rows (at_id e) = Some old"
    and "at_parent e = at_parent old \<or> grounded (replace_asset e rows) (at_id e)"
  shows "forest (replace_asset e rows)"
proof -
  have "grounded (replace_asset e rows) i" if "i \<in> at_id ` set rows" for i
  proof (rule grounded_change [of rows _ "at_id e"])
    show "grounded rows i" using assms(1) that by (auto simp: forest_def)
    fix y r assume y: "find_asset rows y = Some r"
    then have mem: "y \<in> at_id ` set rows" using find_asset_Some by blast
    show "y = at_id e \<and> grounded (replace_asset e rows) (at_id e) \<or>
        (\<exists>r'. find_asset (replace_asset e rows) y = Some r' \<and> at_parent r' = at_parent r)"
    proof (cases "y = at_id e")
      case True
      then show ?thesis using assms(2,3) y mem by (auto simp: find_asset_replace)
    next
      case False
      then show ?thesis using y by (simp add: find_asset_replace)
    qed
  qed
  moreover have "at_id ` set (replace_asset e rows) = at_id ` set rows" by (metis list.set_map replace_asset_ids)
  ultimately show ?thesis using assms(1) unfolding forest_def by (metis image_eqI replace_asset_ids)
qed

lemma forest_update:
  assumes "forest (tb_assets t)" "repo_update db e t = (Inr (), t')"
  shows "forest (tb_assets t')"
proof -
  from assms(2) obtain old where old: "find_asset (tb_assets t) (at_id e) = Some old"
    and t': "tb_assets t' = replace_asset (e\<lparr>at_parent := at_parent old\<rparr>) (tb_assets t)"
    by (auto simp: repo_update_def Let_def split: if_splits option.splits sum.splits)
  show ?thesis unfolding t' by (rule forest_replace [OF assms(1), of _ old]) (use old in simp_all)
qed

lemma forest_move:
  assumes "forest (tb_assets t)" "repo_move db i parent position t = (Inr (), t')"
  shows "forest (tb_assets t')"
proof -
  from assms(2) obtain old where old: "find_asset (tb_assets t) i = Some old"
    and v: "validate_asset_hierarchy t (old\<lparr>at_parent := parent, at_position := position\<rparr>) = Inr ()"
    and t': "tb_assets t' = replace_asset (old\<lparr>at_parent := parent, at_position := position\<rparr>) (tb_assets t)"
    by (auto simp: repo_move_def Let_def bindE_Inr_iff split: if_splits option.splits sum.splits)
  let ?e = "old\<lparr>at_parent := parent, at_position := position\<rparr>"
  have i: "at_id old = i" "i \<in> at_id ` set (tb_assets t)" using find_asset_Some [OF old] by auto
  have "grounded (replace_asset ?e (tb_assets t)) (at_id ?e)"
    by (rule trigger_grounded [OF v]) (use i in \<open>auto simp: find_asset_replace\<close>)
  then show ?thesis unfolding t' by (intro forest_replace [OF assms(1), of _ old]) (use old i in simp_all)
qed

lemma forest_delete:
  assumes "forest (tb_assets t)" "repo_delete i t = (Inr (), t')"
  shows "forest (tb_assets t')"
proof -
  from assms(2) have t': "tb_assets t' = filter (\<lambda>a. at_id a \<noteq> i) (tb_assets t)"
    and leaf: "\<And>a. a \<in> set (tb_assets t) \<Longrightarrow> at_parent a \<noteq> Some i"
    by (auto simp: repo_delete_def split: if_splits)
  have "grounded (tb_assets t) x \<Longrightarrow> x \<noteq> i \<Longrightarrow> grounded (tb_assets t') x" for x
  proof (induction rule: grounded.induct)
    case (grounded_root x a)
    then have "find_asset (tb_assets t') x = Some a" by (simp add: t' find_asset_filter)
    then show ?case using grounded_root(2) by (rule grounded.grounded_root)
  next
    case (grounded_child x a p)
    then have "find_asset (tb_assets t') x = Some a" by (simp add: t' find_asset_filter)
    moreover have "p \<noteq> i" using leaf find_asset_Some [OF grounded_child(1)] grounded_child(2) by blast
    ultimately show ?case using grounded_child(2,4) by (blast intro: grounded.grounded_child)
  qed
  then show ?thesis using assms(1) by (auto simp: forest_def t' distinct_map_filter)
qed

section \<open>Lineages\<close>

text \<open>An asset has \<open>level k\<close> if its lineage has \<open>k\<close> rows once the fuel reaches \<open>k\<close>.\<close>

definition level :: "asset list \<Rightarrow> uuid \<Rightarrow> nat \<Rightarrow> bool" where
  "level rows i k \<longleftrightarrow> (\<forall>m \<ge> k. lineage rows m i = lineage rows k i \<and> length (lineage rows m i) = k)"

lemma level_unique: "level rows i k \<Longrightarrow> level rows i l \<Longrightarrow> k = l"
  unfolding level_def by (metis nle_le)

lemma level_child:
  assumes "parent_of rows i = Some p" "find_asset rows p = Some a" "level rows p k"
  shows "level rows i (Suc k)"
  unfolding level_def
proof (intro allI impI)
  fix m assume "Suc k \<le> m"
  then obtain n where n: "m = Suc n" "k \<le> n" by (cases m) auto
  then have "lineage rows n p = lineage rows k p" "length (lineage rows n p) = k"
    using assms(3) unfolding level_def by blast+
  then show "lineage rows m i = lineage rows (Suc k) i \<and> length (lineage rows m i) = Suc k"
    by (simp add: n(1) assms(1,2))
qed

lemma grounded_level: "grounded rows i \<Longrightarrow> \<exists>k. level rows i k"
proof (induction rule: grounded.induct)
  case (grounded_root i a)
  have "lineage rows m i = []" for m using grounded_root by (cases m) (simp_all add: parent_of_def)
  then show ?case by (intro exI [of _ 0]) (simp add: level_def)
next
  case (grounded_child i a p)
  then obtain k where k: "level rows p k" by blast
  from grounded_child(3) obtain b where "find_asset rows p = Some b" by cases auto
  then show ?case using level_child [OF _ _ k, of i] grounded_child(1,2) by (auto simp: parent_of_def)
qed

lemma lineage_mem: "b \<in> set (lineage rows m i) \<Longrightarrow> find_asset rows (at_id b) = Some b"
proof (induction rows m i rule: lineage.induct)
  case (2 rows n i)
  obtain p where p: "parent_of rows i = Some p" using "2.prems" by (cases "parent_of rows i") simp_all
  obtain a where a: "find_asset rows p = Some a" using "2.prems" p by (cases "find_asset rows p") simp_all
  have pa: "parent_of rows i = Some p" "find_asset rows p = Some a" "b = a \<or> b \<in> set (lineage rows n p)"
    using "2.prems" p a by simp_all
  then show ?case using "2.IH" [OF pa(1,2)] find_asset_Some [OF pa(2)] by auto
qed simp

text \<open>The rows of a lineage have smaller levels, so an asset is not in its own lineage.\<close>

lemma lineage_levels:
  "grounded rows i \<Longrightarrow> level rows i k \<Longrightarrow> b \<in> set (lineage rows m i) \<Longrightarrow> \<exists>l < k. level rows (at_id b) l"
proof (induction arbitrary: k m rule: grounded.induct)
  case (grounded_root i a)
  then show ?case by (cases m) (simp_all add: parent_of_def)
next
  case (grounded_child i a p)
  from grounded_level [OF grounded_child(3)] obtain j where j: "level rows p j" by blast
  from grounded_child(3) obtain q where q: "find_asset rows p = Some q" by cases auto
  have par: "parent_of rows i = Some p" using grounded_child(1,2) by (simp add: parent_of_def)
  have k: "k = Suc j" using level_unique [OF grounded_child(5) level_child [OF par q j]] .
  from grounded_child(6) obtain n where n: "m = Suc n" "b = q \<or> b \<in> set (lineage rows n p)"
    using par q by (cases m) auto
  then show ?case
  proof (elim disjE)
    assume "b = q"
    then show ?thesis using j k find_asset_Some [OF q] by blast
  next
    assume "b \<in> set (lineage rows n p)"
    then obtain l where "l < j" "level rows (at_id b) l" using grounded_child(4) [OF j] by blast
    then show ?thesis using k by (intro exI [of _ l]) simp
  qed
qed

lemma lineage_distinct: "grounded rows i \<Longrightarrow> distinct (i # map at_id (lineage rows m i))"
proof (induction arbitrary: m rule: grounded.induct)
  case (grounded_root i a)
  then show ?case by (cases m) (simp_all add: parent_of_def)
next
  case (grounded_child i a p)
  have g: "grounded rows i" using grounded_child(1-3) by (rule grounded.grounded_child)
  then obtain k where k: "level rows i k" using grounded_level by blast
  from grounded_child(3) obtain q where q: "find_asset rows p = Some q" by cases auto
  have par: "parent_of rows i = Some p" using grounded_child(1,2) by (simp add: parent_of_def)
  have "i \<notin> at_id ` set (lineage rows m i)"
  proof
    assume "i \<in> at_id ` set (lineage rows m i)"
    then obtain b where "b \<in> set (lineage rows m i)" "at_id b = i" by blast
    then obtain l where "l < k" "level rows i l" using lineage_levels [OF g k] by metis
    then show False using level_unique [OF k] by blast
  qed
  moreover have "distinct (map at_id (lineage rows m i))"
    using grounded_child(4) find_asset_Some [OF q] par q by (cases m) auto
  ultimately show ?case by simp
qed

text \<open>The fuel of \<open>Ancestors\<close> is enough.\<close>

lemma lineage_shorter:
  assumes "grounded rows i"
  shows "length (lineage rows m i) < length rows"
proof -
  have d: "distinct (i # map at_id (lineage rows m i))" by (rule lineage_distinct [OF assms])
  obtain a where "find_asset rows i = Some a" using assms by cases auto
  then have "set (i # map at_id (lineage rows m i)) \<subseteq> at_id ` set rows"
    using find_asset_Some [of rows i] find_asset_Some [OF lineage_mem [of _ rows m i]] by auto
  then have "card (set (i # map at_id (lineage rows m i))) \<le> card (at_id ` set rows)"
    by (intro card_mono) simp_all
  also have "\<dots> \<le> length rows" by (metis card_length length_map list.set_map)
  finally show ?thesis using distinct_card [OF d] by simp
qed

lemma lineage_complete:
  assumes "grounded rows i" and "length rows \<le> m"
  shows "lineage rows m i = lineage rows (length rows) i"
proof -
  obtain k where k: "level rows i k" using grounded_level [OF assms(1)] by blast
  then have "length (lineage rows k i) = k" unfolding level_def by blast
  then have "k < length rows" using lineage_shorter [OF assms(1), of k] by simp
  then have "lineage rows m i = lineage rows k i" "lineage rows (length rows) i = lineage rows k i"
    using k assms(2) unfolding level_def by (metis less_imp_le order_trans)+
  then show ?thesis by simp
qed

lemma lineage_unfold:
  assumes "forest rows" and "parent_of rows i = Some p" and "find_asset rows p = Some a" and "i \<in> at_id ` set rows"
  shows "lineage rows (length rows) i = a # lineage rows (length rows) p"
proof -
  have g: "grounded rows i" "grounded rows p"
    using assms(1,4) find_asset_Some [OF assms(3)] by (auto simp: forest_def)
  have "lineage rows (length rows) i = lineage rows (Suc (length rows)) i"
    using lineage_complete [OF g(1), of "Suc (length rows)"] by simp
  then show ?thesis using assms(2,3) by simp
qed

end
