(* ===== verification/Asset_Store.thy ===== *)
theory Asset_Store
  imports Asset_Hierarchy
begin

text \<open>
  The bindings of the assets in the tables, and what the tables keep: \<open>ListBindings\<close> and
  \<open>ReplaceBindings\<close> of \<open>internal/asset/postgres/repository.go\<close> with the triggers on
  \<open>measurement_bindings\<close> and \<open>measurement_binding_inputs\<close>, and the invariant of every sequence of
  repository operations.
\<close>

section \<open>Reading bindings\<close>

text \<open>
  The bindings of an asset are written by one transaction, so they share their creation time and are
  listed by id; their inputs are listed by id.
\<close>

definition inputs_rows :: "uuid \<Rightarrow> asset_tables \<Rightarrow> uuid list" where
  "inputs_rows i t = sort (map snd (filter (\<lambda>r. fst r = i) (tb_inputs t)))"

definition load_binding :: "asset_tables \<Rightarrow> measurement_binding \<Rightarrow> measurement_binding" where
  "load_binding t b = b\<lparr>mb_source_key := asset_source_key (mb_source b), mb_inputs := inputs_rows (mb_id b) t\<rparr>"

definition owned_bindings :: "uuid \<Rightarrow> asset_tables \<Rightarrow> measurement_binding list" where
  "owned_bindings i t = map (load_binding t) (sort_key mb_id (filter (\<lambda>b. mb_owner b = i) (tb_bindings t)))"

definition repo_list_bindings :: "uuid \<Rightarrow> asset_tables \<Rightarrow> asset_error + measurement_binding list" where
  "repo_list_bindings i t = bindE (repo_find i t) (\<lambda>_. Inr (owned_bindings i t))"

definition repo_list_bindings_by_tag :: "uuid \<Rightarrow> asset_tables \<Rightarrow> asset_error + measurement_binding list" where
  "repo_list_bindings_by_tag tag t =
     (if tag = uuid_nil then Inl ErrInvalidBinding
      else Inr (map (load_binding t) (sort_key mb_id
        (filter (\<lambda>b. as_kind (mb_source b) = ''tag'' \<and> as_tag_id (mb_source b) = tag) (tb_bindings t)))))"

section \<open>Writing bindings\<close>

definition validate_stored_binding :: "measurement_binding \<Rightarrow> asset_error + unit" where
  "validate_stored_binding b =
     (if mb_id b = uuid_nil \<or> mb_owner b = uuid_nil \<or> mb_boundary b = uuid_nil
         \<or> validate_asset_source (mb_source b) \<noteq> Inr () \<or> validate_semantic (mb_semantic b) \<noteq> Inr ()
      then Inl ErrInvalidBinding
      else if \<not> role_matches_inputs b then Inl ErrInvalidBinding
      else if \<not> valid_policy b then Inl ErrInvalidBinding
      else Inr ())"

text \<open>\<open>json.Marshal\<close> of a reference condition fails for a float that is not finite.\<close>

definition marshals_reference :: "reference_condition \<Rightarrow> bool" where
  "marshals_reference r \<longleftrightarrow>
     (case rf_temperature_kelvin r of None \<Rightarrow> True | Some x \<Rightarrow> fl_finite x) \<and>
     (case rf_pressure_pascal r of None \<Rightarrow> True | Some x \<Rightarrow> fl_finite x)"

text \<open>The trigger \<open>validate_measurement_binding\<close>.\<close>

function boundary_walk :: "asset list \<Rightarrow> uuid \<Rightarrow> nat \<Rightarrow> uuid \<Rightarrow> asset_error + unit" where
  "boundary_walk rows boundary depth a =
     (if depth + 1 > max_hierarchy_depth then Inl ErrHierarchyDepth
      else if a = boundary then Inr ()
      else case parent_of rows a of
        None \<Rightarrow> Inl ErrInvalidBinding
      | Some p \<Rightarrow> boundary_walk rows boundary (depth + 1) p)"
  by pat_completeness auto
termination
  by (relation "measure (\<lambda>(rows, b, depth, a). Suc max_hierarchy_depth - depth)") auto

declare boundary_walk.simps [simp del]

definition validate_measurement_binding :: "asset_tables \<Rightarrow> measurement_binding \<Rightarrow> asset_error + unit" where
  "validate_measurement_binding t b =
     (if \<exists>a \<in> set (tb_assets t). at_parent a = Some (mb_owner b) then Inl ErrInvalidBinding
      else boundary_walk (tb_assets t) (mb_boundary b) 0 (mb_owner b))"

text \<open>The check constraints: the table knows fewer quantities and units than the registry.\<close>

definition stored_quantities :: "string list" where
  "stored_quantities = [''power'', ''energy'', ''flow_rate'', ''volume'', ''pressure'', ''temperature'', ''ratio'', ''state'', ''cost'']"

definition stored_units :: "string list" where
  "stored_units = [''W'', ''kW'', ''MW'', ''Wh'', ''kWh'', ''MWh'', ''m3'', ''Nm3'', ''m3/s'', ''m3/h'', ''Nm3/h'', ''Pa'', ''kPa'',
     ''bar'', ''K'', ''degC'', ''degF'', ''1'', ''%'', ''bool'']"

definition stored_output_key :: "string \<Rightarrow> bool" where
  "stored_output_key k \<longleftrightarrow>
     (case k of [] \<Rightarrow> False
      | c # cs \<Rightarrow> in_range 97 122 c \<and> length cs \<le> 127 \<and>
          list_all (\<lambda>x. in_range 97 122 x \<or> in_range 48 57 x \<or> x \<in> set ''_.'') cs)"

definition check_binding_row :: "asset_db \<Rightarrow> measurement_binding \<Rightarrow> asset_error + unit" where
  "check_binding_row db b =
     (let plugin = (as_kind (mb_source b) \<noteq> ''tag'')
      in if plugin \<and> \<not> db_text db (as_output_key (mb_source b)) then Inl (ErrAssetStore ''invalid byte sequence'')
         else if plugin \<and> rune_count (as_output_key (mb_source b)) > 128 then Inl ErrInvalidAsset
         else if plugin \<and> \<not> stored_output_key (as_output_key (mb_source b))
              \<or> sm_quantity (mb_semantic b) \<notin> set stored_quantities \<or> sm_unit (mb_semantic b) \<notin> set stored_units
              \<or> sm_precision (mb_semantic b) > 12 then Inl ErrInvalidBinding
         else Inr ())"

definition source_exists :: "asset_db \<Rightarrow> asset_source \<Rightarrow> bool" where
  "source_exists db s = (if as_kind s = ''tag'' then db_tag_exists db (as_tag_id s) else db_instance_exists db (as_instance_id s))"

definition insert_binding ::
  "asset_db \<Rightarrow> measurement_binding \<Rightarrow> asset_tables \<times> uuid list \<Rightarrow> asset_error + asset_tables \<times> uuid list" where
  "insert_binding db b = (\<lambda>(t, seen).
     if mb_id b \<in> set seen \<or> validate_stored_binding b \<noteq> Inr () then Inl ErrInvalidBinding
     else if \<not> marshals_reference (sm_reference (mb_semantic b)) then Inl ErrInvalidBinding
     else bindE (validate_measurement_binding t b) (\<lambda>_. bindE (check_binding_row db b) (\<lambda>_.
       if mb_id b \<in> mb_id ` set (tb_bindings t) then Inl (ErrAssetStore ''measurement_bindings_pkey'')
       else if mb_source b \<in> mb_source ` set (tb_bindings t) then Inl ErrBindingSourceExists
       else if mb_boundary b \<notin> at_id ` set (tb_assets t) then Inl ErrAssetNotFound
       else if \<not> source_exists db (mb_source b) then Inl ErrBindingSourceMissing
       else Inr (t\<lparr>tb_bindings := tb_bindings t @ [b\<lparr>mb_inputs := []\<rparr>]\<rparr>, mb_id b # seen))))"

text \<open>The trigger \<open>validate_measurement_binding_input\<close>, whose message about a cycle reads like one of the hierarchy.\<close>

definition insert_input :: "measurement_binding \<Rightarrow> uuid \<Rightarrow> asset_tables \<Rightarrow> asset_error + asset_tables" where
  "insert_input b j t =
     (if \<not> (\<exists>r \<in> set (tb_bindings t). mb_id r = mb_id b \<and> mb_role r = ''virtual'') then Inl ErrInvalidBinding
      else if j = mb_id b \<or> (j, mb_id b) \<in> (set (tb_inputs t))\<^sup>+ then Inl ErrHierarchyCycle
      else if (mb_id b, j) \<in> set (tb_inputs t) then Inl (ErrAssetStore ''measurement_binding_inputs_pkey'')
      else if j \<notin> mb_id ` set (tb_bindings t) then Inl (ErrAssetStore ''measurement_binding_inputs_input_binding_id_fkey'')
      else Inr (t\<lparr>tb_inputs := tb_inputs t @ [(mb_id b, j)]\<rparr>))"

definition insert_inputs :: "measurement_binding \<Rightarrow> asset_tables \<Rightarrow> asset_error + asset_tables" where
  "insert_inputs b = foldE (insert_input b) (mb_inputs b)"

text \<open>The owner, and an id for a binding without one: \<open>fresh k\<close> is what \<open>uuid.New\<close> gives the \<open>k\<close>-th.\<close>

definition prepare_bindings :: "(nat \<Rightarrow> uuid) \<Rightarrow> uuid \<Rightarrow> measurement_binding list \<Rightarrow> measurement_binding list" where
  "prepare_bindings fresh owner bs =
     map (\<lambda>(k, b). b\<lparr>mb_id := if mb_id b = uuid_nil then fresh k else mb_id b, mb_owner := owner\<rparr>) (zip [0..<length bs] bs)"

definition repo_replace_bindings ::
  "asset_db \<Rightarrow> (nat \<Rightarrow> uuid) \<Rightarrow> uuid \<Rightarrow> measurement_binding list \<Rightarrow> asset_tables \<Rightarrow> unit asset_result" where
  "repo_replace_bindings db fresh owner bs t =
     (if owner = uuid_nil then (Inl ErrInvalidAsset, t)
      else if find_asset (tb_assets t) owner = None then (Inl ErrAssetNotFound, t)
      else
        let old = map mb_id (filter (\<lambda>b. mb_owner b = owner) (tb_bindings t));
            inputs = filter (\<lambda>r. fst r \<notin> set old) (tb_inputs t);
            new = prepare_bindings fresh owner bs
        in if \<exists>r \<in> set inputs. snd r \<in> set old
           then (Inl (ErrAssetStore ''measurement_binding_inputs_input_binding_id_fkey''), t)
           else case bindE (foldE (insert_binding db) new
                  (t\<lparr>tb_bindings := filter (\<lambda>b. mb_owner b \<noteq> owner) (tb_bindings t), tb_inputs := inputs\<rparr>, []))
                  (\<lambda>(t', seen). foldE insert_inputs new t') of
             Inl err \<Rightarrow> (Inl err, t)
           | Inr t' \<Rightarrow> (Inr (), t'))"

section \<open>What the tables keep\<close>

text \<open>
  The transactions that write, one after another, in any order and with any arguments: what the
  services pass is checked against reads that may be old by the time of the write, so the invariant
  must not rest on it. A transaction is one step: the reads of its triggers see what it sees, and no
  other transaction commits between them and its end. The database does not enforce this (the
  triggers take no locks and the transactions run at \<open>READ COMMITTED\<close>); what two transactions that
  overlap can do is the last section.
\<close>

inductive asset_step :: "asset_db \<Rightarrow> asset_tables \<Rightarrow> asset_tables \<Rightarrow> bool" for db :: asset_db where
  step_create: "at_id e \<noteq> uuid_nil \<Longrightarrow> repo_create db e t = (res, t') \<Longrightarrow> asset_step db t t'"
| step_update: "repo_update db e t = (res, t') \<Longrightarrow> asset_step db t t'"
| step_move: "repo_move db i parent position t = (res, t') \<Longrightarrow> asset_step db t t'"
| step_delete: "repo_delete i t = (res, t') \<Longrightarrow> asset_step db t t'"
| step_replace: "repo_replace_bindings db fresh owner bs t = (res, t') \<Longrightarrow> asset_step db t t'"

definition empty_tables :: "asset_tables \<Rightarrow> bool" where
  "empty_tables t \<longleftrightarrow> tb_assets t = [] \<and> tb_bindings t = [] \<and> tb_inputs t = []"

definition tree_ok :: "asset_db \<Rightarrow> asset list \<Rightarrow> bool" where
  "tree_ok db rows \<longleftrightarrow>
     forest rows \<and> uuid_nil \<notin> at_id ` set rows \<and>
     (\<forall>a \<in> set rows. valid_kind (at_kind a) \<and> (at_kind a = ''site'' \<longleftrightarrow> at_parent a = None) \<and> \<not> sibling_name_taken db rows a)"

definition bindings_ok :: "asset_tables \<Rightarrow> bool" where
  "bindings_ok t \<longleftrightarrow>
     distinct (map mb_id (tb_bindings t)) \<and> distinct (map mb_source (tb_bindings t)) \<and>
     (\<forall>b \<in> set (tb_bindings t). mb_owner b \<in> at_id ` set (tb_assets t) \<and> mb_boundary b \<in> at_id ` set (tb_assets t) \<and>
        (\<forall>a \<in> set (tb_assets t). at_parent a \<noteq> Some (mb_owner b)))"

definition inputs_ok :: "asset_tables \<Rightarrow> bool" where
  "inputs_ok t \<longleftrightarrow>
     acyclic (set (tb_inputs t)) \<and>
     (\<forall>(i, j) \<in> set (tb_inputs t). j \<in> mb_id ` set (tb_bindings t) \<and>
        (\<exists>b \<in> set (tb_bindings t). mb_id b = i \<and> mb_role b = ''virtual''))"

definition asset_tables_inv :: "asset_db \<Rightarrow> asset_tables \<Rightarrow> bool" where
  "asset_tables_inv db t \<longleftrightarrow> tree_ok db (tb_assets t) \<and> bindings_ok t \<and> inputs_ok t"

lemma sibling_taken_by:
  "c \<in> set rows \<Longrightarrow> at_id c \<noteq> at_id e \<Longrightarrow> at_parent c = at_parent e \<Longrightarrow>
   db_lower db (at_name c) = db_lower db (at_name e) \<Longrightarrow> sibling_name_taken db rows e"
  unfolding sibling_name_taken_def by blast

lemma sibling_taken_snoc:
  "sibling_name_taken db (rows @ [e]) a \<Longrightarrow> sibling_name_taken db rows a \<or>
   at_parent e = at_parent a \<and> db_lower db (at_name e) = db_lower db (at_name a)"
  unfolding sibling_name_taken_def by auto

lemma sibling_name_taken_commute:
  "\<not> sibling_name_taken db rows e \<Longrightarrow> a \<in> set rows \<Longrightarrow> at_id a \<noteq> at_id e \<Longrightarrow>
   \<not> (at_parent e = at_parent a \<and> db_lower db (at_name e) = db_lower db (at_name a))"
  by (auto simp: sibling_name_taken_def)

lemma tree_ok_kind:
  "tree_ok db rows \<Longrightarrow> a \<in> set rows \<Longrightarrow> valid_kind (at_kind a) \<and> (at_kind a = ''site'' \<longleftrightarrow> at_parent a = None)"
  by (simp add: tree_ok_def)

lemma tree_ok_replace:
  assumes "tree_ok db rows" "forest (replace_asset e rows)" "check_asset_row db e = Inr ()"
    and "\<not> sibling_name_taken db rows e"
  shows "tree_ok db (replace_asset e rows)"
proof -
  note set = set_replace_asset [of e rows]
  have ids: "at_id ` set (replace_asset e rows) = at_id ` set rows" by (metis list.set_map replace_asset_ids)
  have kind: "valid_kind (at_kind e) \<and> (at_kind e = ''site'' \<longleftrightarrow> at_parent e = None)"
    using assms(3) by (auto simp: check_asset_row_def split: if_splits)
  have free: "\<not> sibling_name_taken db (replace_asset e rows) a"
    if a: "a = e \<or> a \<in> set rows \<and> at_id a \<noteq> at_id e" for a
    unfolding sibling_name_taken_def
  proof
    assume "\<exists>c \<in> set (replace_asset e rows). at_id c \<noteq> at_id a \<and> at_parent c = at_parent a \<and>
        db_lower db (at_name c) = db_lower db (at_name a)"
    then obtain c where c: "c = e \<or> c \<in> set rows \<and> at_id c \<noteq> at_id e" "at_id c \<noteq> at_id a" "at_parent c = at_parent a"
        "db_lower db (at_name c) = db_lower db (at_name a)" using set by blast
    have old: "\<not> sibling_name_taken db rows a" if "a \<in> set rows" using assms(1) that by (simp add: tree_ok_def)
    consider "a = e" | "a \<noteq> e" "c = e" | "a \<noteq> e" "c \<noteq> e" by blast
    then show False
    proof cases
      case 1
      then have "c \<in> set rows" using c(1,2) by blast
      then show ?thesis using 1 c(2-4) assms(4) sibling_taken_by by blast
    next
      case 2
      then show ?thesis using a c sibling_name_taken_commute [OF assms(4), of a] by simp
    next
      case 3
      then have "a \<in> set rows" "c \<in> set rows" using a c(1) by simp_all
      then show ?thesis using old c(2-4) sibling_taken_by by blast
    qed
  qed
  show ?thesis unfolding tree_ok_def
  proof (intro conjI ballI)
    show "forest (replace_asset e rows)" by (rule assms(2))
    show "uuid_nil \<notin> at_id ` set (replace_asset e rows)" using assms(1) unfolding ids tree_ok_def by blast
    fix a assume "a \<in> set (replace_asset e rows)"
    then have a: "a = e \<or> a \<in> set rows \<and> at_id a \<noteq> at_id e" using set by blast
    then show "\<not> sibling_name_taken db (replace_asset e rows) a" by (rule free)
    have "valid_kind (at_kind a) \<and> (at_kind a = ''site'' \<longleftrightarrow> at_parent a = None)"
      using a kind tree_ok_kind [OF assms(1)] by metis
    then show "valid_kind (at_kind a)" "at_kind a = ''site'' \<longleftrightarrow> at_parent a = None" by simp_all
  qed
qed

lemma tree_ok_create:
  assumes "tree_ok db (tb_assets t)" "at_id e \<noteq> uuid_nil" "repo_create db e t = (res, t')"
  shows "tree_ok db (tb_assets t')"
proof (cases res)
  case Inl
  then show ?thesis using assms(1,3) by (auto simp: repo_create_def split: sum.splits)
next
  case (Inr u)
  then have ok: "repo_create db e t = (Inr (), t')" using assms(3) by simp
  then have t': "tb_assets t' = tb_assets t @ [e]" and new: "at_id e \<notin> at_id ` set (tb_assets t)"
    and c: "check_asset_row db e = Inr ()" and n: "\<not> sibling_name_taken db (tb_assets t) e"
    by (auto simp: repo_create_def bindE_Inr_iff split: sum.splits if_splits)
  have k: "valid_kind (at_kind e) \<and> (at_kind e = ''site'' \<longleftrightarrow> at_parent e = None)"
    using c by (auto simp: check_asset_row_def split: if_splits)
  have free: "\<not> sibling_name_taken db (tb_assets t @ [e]) a" if "a = e \<or> a \<in> set (tb_assets t)" for a
  proof (cases "a = e")
    case True
    then show ?thesis using n by (auto simp: sibling_name_taken_def)
  next
    case False
    then have a: "a \<in> set (tb_assets t)" using that by simp
    then have "\<not> sibling_name_taken db (tb_assets t) a" using assms(1) by (simp add: tree_ok_def)
    moreover have "at_id a \<noteq> at_id e" using new imageI [OF a, of at_id] by metis
    ultimately show ?thesis using sibling_name_taken_commute [OF n a] sibling_taken_snoc by blast
  qed
  show ?thesis unfolding tree_ok_def
  proof (intro conjI ballI)
    show "forest (tb_assets t')" using forest_create [OF _ ok] assms(1) by (simp add: tree_ok_def)
    show "uuid_nil \<notin> at_id ` set (tb_assets t')" using assms(1,2) by (auto simp: t' tree_ok_def)
    fix a assume "a \<in> set (tb_assets t')"
    then have a: "a = e \<or> a \<in> set (tb_assets t)" by (auto simp: t')
    then show "\<not> sibling_name_taken db (tb_assets t') a" unfolding t' by (rule free)
    have "valid_kind (at_kind a) \<and> (at_kind a = ''site'' \<longleftrightarrow> at_parent a = None)"
      using a k tree_ok_kind [OF assms(1)] by metis
    then show "valid_kind (at_kind a)" "at_kind a = ''site'' \<longleftrightarrow> at_parent a = None" by simp_all
  qed
qed

lemma repo_update_Inr:
  assumes "repo_update db e t = (Inr (), t')"
  obtains old where "find_asset (tb_assets t) (at_id e) = Some old"
    "t' = t\<lparr>tb_assets := replace_asset (e\<lparr>at_parent := at_parent old\<rparr>) (tb_assets t)\<rparr>"
    "check_asset_row db (e\<lparr>at_parent := at_parent old\<rparr>) = Inr ()"
    "\<not> sibling_name_taken db (tb_assets t) (e\<lparr>at_parent := at_parent old\<rparr>)"
  using assms
  by (auto simp: repo_update_def Let_def bindE_Inr_iff split: if_splits option.splits sum.splits)

lemma tree_ok_update:
  assumes "tree_ok db (tb_assets t)" "repo_update db e t = (res, t')"
  shows "tree_ok db (tb_assets t')"
proof (cases res)
  case Inl
  then show ?thesis using assms by (auto simp: repo_update_def Let_def split: sum.splits if_splits option.splits)
next
  case (Inr u)
  then have ok: "repo_update db e t = (Inr (), t')" using assms(2) by simp
  then obtain old where "find_asset (tb_assets t) (at_id e) = Some old"
    and eq: "t' = t\<lparr>tb_assets := replace_asset (e\<lparr>at_parent := at_parent old\<rparr>) (tb_assets t)\<rparr>"
    and c: "check_asset_row db (e\<lparr>at_parent := at_parent old\<rparr>) = Inr ()"
    and n: "\<not> sibling_name_taken db (tb_assets t) (e\<lparr>at_parent := at_parent old\<rparr>)"
    by (elim repo_update_Inr)
  then have t': "tb_assets t' = replace_asset (e\<lparr>at_parent := at_parent old\<rparr>) (tb_assets t)" by simp
  have "forest (tb_assets t')" using forest_update [OF _ ok] assms(1) by (simp add: tree_ok_def)
  then show ?thesis unfolding t' using assms(1) c n by (intro tree_ok_replace)
qed

lemma repo_move_Inr:
  assumes "repo_move db i parent position t = (Inr (), t')"
  obtains old where "find_asset (tb_assets t) i = Some old"
    "t' = t\<lparr>tb_assets := replace_asset (old\<lparr>at_parent := parent, at_position := position\<rparr>) (tb_assets t)\<rparr>"
    "validate_asset_hierarchy t (old\<lparr>at_parent := parent, at_position := position\<rparr>) = Inr ()"
    "check_asset_row db (old\<lparr>at_parent := parent, at_position := position\<rparr>) = Inr ()"
    "\<not> sibling_name_taken db (tb_assets t) (old\<lparr>at_parent := parent, at_position := position\<rparr>)"
  using assms
  by (auto simp: repo_move_def Let_def bindE_Inr_iff split: if_splits option.splits sum.splits)

lemma tree_ok_move:
  assumes "tree_ok db (tb_assets t)" "repo_move db i parent position t = (res, t')"
  shows "tree_ok db (tb_assets t')"
proof (cases res)
  case Inl
  then show ?thesis using assms by (auto simp: repo_move_def Let_def split: sum.splits if_splits option.splits)
next
  case (Inr u)
  then have ok: "repo_move db i parent position t = (Inr (), t')" using assms(2) by simp
  then obtain old where "find_asset (tb_assets t) i = Some old"
    and eq: "t' = t\<lparr>tb_assets := replace_asset (old\<lparr>at_parent := parent, at_position := position\<rparr>) (tb_assets t)\<rparr>"
    and "validate_asset_hierarchy t (old\<lparr>at_parent := parent, at_position := position\<rparr>) = Inr ()"
    and c: "check_asset_row db (old\<lparr>at_parent := parent, at_position := position\<rparr>) = Inr ()"
    and n: "\<not> sibling_name_taken db (tb_assets t) (old\<lparr>at_parent := parent, at_position := position\<rparr>)"
    by (elim repo_move_Inr)
  then have t': "tb_assets t' = replace_asset (old\<lparr>at_parent := parent, at_position := position\<rparr>) (tb_assets t)" by simp
  have "forest (tb_assets t')" using forest_move [OF _ ok] assms(1) by (simp add: tree_ok_def)
  then show ?thesis unfolding t' using assms(1) c n by (intro tree_ok_replace)
qed

lemma tree_ok_delete:
  assumes "tree_ok db (tb_assets t)" "repo_delete i t = (res, t')"
  shows "tree_ok db (tb_assets t')"
proof (cases res)
  case Inl
  then show ?thesis using assms by (auto simp: repo_delete_def split: if_splits)
next
  case (Inr u)
  then have ok: "repo_delete i t = (Inr (), t')" using assms(2) by simp
  then have t': "tb_assets t' = filter (\<lambda>a. at_id a \<noteq> i) (tb_assets t)" by (auto simp: repo_delete_def split: if_splits)
  have "forest (tb_assets t')" using forest_delete [OF _ ok] assms(1) by (simp add: tree_ok_def)
  then show ?thesis using assms(1) unfolding t' by (auto simp: tree_ok_def sibling_name_taken_def)
qed

section \<open>The bindings stay on leaves\<close>

text \<open>An asset operation keeps the bindings if no row gets an owner as its parent and no asset they name goes.\<close>

lemma bindings_ok_assets:
  assumes "bindings_ok t" "tb_bindings t' = tb_bindings t"
    and "\<And>b. b \<in> set (tb_bindings t) \<Longrightarrow> mb_owner b \<in> at_id ` set (tb_assets t') \<and> mb_boundary b \<in> at_id ` set (tb_assets t')"
    and "\<And>a b. a \<in> set (tb_assets t') \<Longrightarrow> b \<in> set (tb_bindings t) \<Longrightarrow> at_parent a = Some (mb_owner b) \<Longrightarrow>
      \<exists>c \<in> set (tb_assets t). at_parent c = Some (mb_owner b)"
  shows "bindings_ok t'"
proof -
  have "at_parent a \<noteq> Some (mb_owner b)" if "a \<in> set (tb_assets t')" "b \<in> set (tb_bindings t)" for a b
    using assms(1) assms(4) [OF that] that(2) unfolding bindings_ok_def by blast
  then show ?thesis using assms(1-3) unfolding bindings_ok_def by simp
qed

lemma trigger_no_owner:
  "validate_asset_hierarchy t e = Inr () \<Longrightarrow> b \<in> set (tb_bindings t) \<Longrightarrow> at_parent e \<noteq> Some (mb_owner b)"
  by (auto simp: validate_asset_hierarchy_def split: option.splits if_splits)

lemma bindings_ok_create:
  assumes "bindings_ok t" "repo_create db e t = (res, t')"
  shows "bindings_ok t'"
proof (cases res)
  case Inl
  then show ?thesis using assms by (auto simp: repo_create_def split: sum.splits)
next
  case (Inr u)
  then have t': "t' = t\<lparr>tb_assets := tb_assets t @ [e]\<rparr>" and v: "validate_asset_hierarchy t e = Inr ()"
    using assms(2) by (auto simp: repo_create_def bindE_Inr_iff split: sum.splits if_splits)
  show ?thesis
    by (rule bindings_ok_assets [OF assms(1)])
      (use assms(1) trigger_no_owner [OF v] in \<open>auto simp: t' bindings_ok_def\<close>)
qed

lemma bindings_ok_replace_asset:
  assumes "bindings_ok t" "t' = t\<lparr>tb_assets := replace_asset e (tb_assets t)\<rparr>"
    and "\<And>b. b \<in> set (tb_bindings t) \<Longrightarrow> at_parent e = Some (mb_owner b) \<Longrightarrow>
      \<exists>c \<in> set (tb_assets t). at_parent c = Some (mb_owner b)"
  shows "bindings_ok t'"
proof (rule bindings_ok_assets [OF assms(1)])
  show "tb_bindings t' = tb_bindings t" by (simp add: assms(2))
  have ids: "at_id ` set (tb_assets t') = at_id ` set (tb_assets t)"
    unfolding assms(2) by simp (metis list.set_map replace_asset_ids)
  fix b assume b: "b \<in> set (tb_bindings t)"
  then show "mb_owner b \<in> at_id ` set (tb_assets t') \<and> mb_boundary b \<in> at_id ` set (tb_assets t')"
    using assms(1) unfolding ids bindings_ok_def by blast
  fix a assume a: "a \<in> set (tb_assets t')" "at_parent a = Some (mb_owner b)"
  then have "a = e \<or> a \<in> set (tb_assets t)" using set_replace_asset [of e "tb_assets t"] assms(2) by auto
  then show "\<exists>c \<in> set (tb_assets t). at_parent c = Some (mb_owner b)" using a(2) assms(3) [OF b] by blast
qed

lemma bindings_ok_asset_ops:
  assumes "bindings_ok t"
  shows "repo_update db e t = (res, t') \<Longrightarrow> bindings_ok t'"
    "repo_move db i parent position t = (res, t') \<Longrightarrow> bindings_ok t'"
    "repo_delete i t = (res, t') \<Longrightarrow> bindings_ok t'"
proof -
  assume u: "repo_update db e t = (res, t')"
  show "bindings_ok t'"
  proof (cases "t' = t")
    case False
    then obtain old where old: "find_asset (tb_assets t) (at_id e) = Some old"
      and t': "t' = t\<lparr>tb_assets := replace_asset (e\<lparr>at_parent := at_parent old\<rparr>) (tb_assets t)\<rparr>"
      using u by (auto simp: repo_update_def Let_def split: if_splits option.splits sum.splits)
    show ?thesis
      by (rule bindings_ok_replace_asset [OF assms t']) (use find_asset_Some [OF old] in auto)
  qed (use assms in simp)
next
  assume m: "repo_move db i parent position t = (res, t')"
  show "bindings_ok t'"
  proof (cases res)
    case Inl
    then show ?thesis using assms m by (auto simp: repo_move_def Let_def split: sum.splits if_splits option.splits)
  next
    case (Inr u)
    then have "repo_move db i parent position t = (Inr (), t')" using m by simp
    then obtain old where "find_asset (tb_assets t) i = Some old"
      and t': "t' = t\<lparr>tb_assets := replace_asset (old\<lparr>at_parent := parent, at_position := position\<rparr>) (tb_assets t)\<rparr>"
      and v: "validate_asset_hierarchy t (old\<lparr>at_parent := parent, at_position := position\<rparr>) = Inr ()"
      and "check_asset_row db (old\<lparr>at_parent := parent, at_position := position\<rparr>) = Inr ()"
      and "\<not> sibling_name_taken db (tb_assets t) (old\<lparr>at_parent := parent, at_position := position\<rparr>)"
      by (elim repo_move_Inr)
    show ?thesis
      by (rule bindings_ok_replace_asset [OF assms t']) (use trigger_no_owner [OF v] in auto)
  qed
next
  assume d: "repo_delete i t = (res, t')"
  show "bindings_ok t'"
  proof (cases "t' = t")
    case False
    then have t': "t' = t\<lparr>tb_assets := filter (\<lambda>a. at_id a \<noteq> i) (tb_assets t)\<rparr>"
      and free: "\<And>b. b \<in> set (tb_bindings t) \<Longrightarrow> mb_owner b \<noteq> i \<and> mb_boundary b \<noteq> i"
      using d by (auto simp: repo_delete_def split: if_splits)
    have "k \<in> at_id ` set (tb_assets t')" if "k \<in> at_id ` set (tb_assets t)" "k \<noteq> i" for k
      using that by (auto simp: t')
    then show ?thesis
      by (intro bindings_ok_assets [OF assms]) (use assms free in \<open>auto simp: t' bindings_ok_def\<close>)
  qed (use assms in simp)
qed

lemma repo_replace_keeps_assets:
  "repo_replace_bindings db fresh owner bs t = (res, t') \<Longrightarrow> tb_assets t' = tb_assets t"
proof -
  have ins: "foldE (insert_binding db) xs s = Inr s' \<Longrightarrow> tb_assets (fst s') = tb_assets (fst s)" for xs s s'
    by (erule foldE_invariant [where P = "\<lambda>u. tb_assets (fst u) = tb_assets (fst s)"])
      (auto simp: insert_binding_def bindE_Inr_iff split: if_splits)
  have inp: "foldE (insert_input b) js s = Inr s' \<Longrightarrow> tb_assets s' = tb_assets s" for b js s s'
    by (erule foldE_invariant [where P = "\<lambda>u. tb_assets u = tb_assets s"])
      (auto simp: insert_input_def split: if_splits)
  have inps: "foldE insert_inputs xs s = Inr s' \<Longrightarrow> tb_assets s' = tb_assets s" for xs s s'
    by (erule foldE_invariant [where P = "\<lambda>u. tb_assets u = tb_assets s"]) (auto simp: insert_inputs_def dest: inp)
  assume "repo_replace_bindings db fresh owner bs t = (res, t')"
  then show ?thesis
    by (auto simp: repo_replace_bindings_def Let_def bindE_Inr_iff dest!: ins inps split: if_splits sum.splits)
qed

lemma insert_binding_ok:
  assumes "insert_binding db b (t, seen) = Inr (t', seen')" "bindings_ok t" "mb_owner b \<in> at_id ` set (tb_assets t)"
  shows "bindings_ok t'"
proof -
  from assms(1) have t': "t' = t\<lparr>tb_bindings := tb_bindings t @ [b\<lparr>mb_inputs := []\<rparr>]\<rparr>"
    and v: "validate_measurement_binding t b = Inr ()"
    and new: "mb_id b \<notin> mb_id ` set (tb_bindings t)" "mb_source b \<notin> mb_source ` set (tb_bindings t)"
      "mb_boundary b \<in> at_id ` set (tb_assets t)"
    by (auto simp: insert_binding_def bindE_Inr_iff split: if_splits)
  have "\<forall>a \<in> set (tb_assets t). at_parent a \<noteq> Some (mb_owner b)"
    using v by (auto simp: validate_measurement_binding_def split: if_splits)
  then show ?thesis using assms(2,3) new by (auto simp: t' bindings_ok_def)
qed

lemma insert_input_ok:
  assumes "insert_input b j t = Inr t'" "bindings_ok t \<and> inputs_ok t"
  shows "bindings_ok t' \<and> inputs_ok t'"
proof -
  from assms(1) have t': "t' = t\<lparr>tb_inputs := tb_inputs t @ [(mb_id b, j)]\<rparr>"
    and role: "\<exists>r \<in> set (tb_bindings t). mb_id r = mb_id b \<and> mb_role r = ''virtual''"
    and no: "j \<noteq> mb_id b" "(j, mb_id b) \<notin> (set (tb_inputs t))\<^sup>+" "j \<in> mb_id ` set (tb_bindings t)"
    by (auto simp: insert_input_def split: if_splits)
  have "(j, mb_id b) \<notin> (set (tb_inputs t))\<^sup>*" using no by (auto simp: rtrancl_eq_or_trancl)
  then have "acyclic (set (tb_inputs t'))" using assms(2) by (simp add: t' inputs_ok_def)
  then show ?thesis using assms(2) role no(3) by (auto simp: t' inputs_ok_def bindings_ok_def)
qed

lemma inputs_ok_more_bindings:
  "inputs_ok t \<Longrightarrow> tb_inputs t' = tb_inputs t \<Longrightarrow> set (tb_bindings t) \<subseteq> set (tb_bindings t') \<Longrightarrow> inputs_ok t'"
  unfolding inputs_ok_def by fastforce

lemma inputs_okD:
  assumes "inputs_ok t" "(i, j) \<in> set (tb_inputs t)"
  shows "j \<in> mb_id ` set (tb_bindings t)" "\<exists>b \<in> set (tb_bindings t). mb_id b = i \<and> mb_role b = ''virtual''"
  using assms by (auto simp: inputs_ok_def)

lemma replace_bindings_ok:
  assumes "bindings_ok t" "inputs_ok t" "repo_replace_bindings db fresh owner bs t = (res, t')"
  shows "bindings_ok t' \<and> inputs_ok t'"
proof (cases res)
  case Inl
  then show ?thesis using assms by (auto simp: repo_replace_bindings_def Let_def split: sum.splits if_splits)
next
  case (Inr u)
  let ?old = "map mb_id (filter (\<lambda>b. mb_owner b = owner) (tb_bindings t))"
  let ?inputs = "filter (\<lambda>r. fst r \<notin> set ?old) (tb_inputs t)"
  let ?new = "prepare_bindings fresh owner bs"
  let ?t = "t\<lparr>tb_bindings := filter (\<lambda>b. mb_owner b \<noteq> owner) (tb_bindings t), tb_inputs := ?inputs\<rparr>"
  from Inr assms(3) obtain m seen where owner: "owner \<in> at_id ` set (tb_assets t)"
    and fk: "\<not> (\<exists>r \<in> set ?inputs. snd r \<in> set ?old)"
    and ins: "foldE (insert_binding db) ?new (?t, []) = Inr (m, seen)" and inp: "foldE insert_inputs ?new m = Inr t'"
    by (auto simp: repo_replace_bindings_def Let_def bindE_Inr_iff find_asset_None split: sum.splits if_splits)
  have keep: "b \<in> set (tb_bindings ?t)" if "b \<in> set (tb_bindings t)" "mb_id b \<notin> set ?old" for b
    using that by auto
  have start1: "bindings_ok ?t" using assms(1) by (auto simp: bindings_ok_def distinct_map_filter)
  have start2: "inputs_ok ?t"
    unfolding inputs_ok_def
  proof (intro conjI ballI case_prodI2)
    show "acyclic (set (tb_inputs ?t))" using assms(2) by (auto simp: inputs_ok_def intro: acyclic_subset)
    fix r i j assume r: "r \<in> set (tb_inputs ?t)" "r = (i, j)"
    then have old: "(i, j) \<in> set (tb_inputs t)" "i \<notin> set ?old" "j \<notin> set ?old" using fk by auto
    note d = inputs_okD [OF assms(2) old(1)]
    from d(1) obtain c where c: "c \<in> set (tb_bindings t)" "j = mb_id c" by blast
    show "j \<in> mb_id ` set (tb_bindings ?t)" using keep [OF c(1)] old(3) c(2) by blast
    from d(2) obtain b where b: "b \<in> set (tb_bindings t)" "mb_id b = i" "mb_role b = ''virtual''" by blast
    show "\<exists>b \<in> set (tb_bindings ?t). mb_id b = i \<and> mb_role b = ''virtual''"
      using keep [OF b(1)] old(2) b(2,3) by blast
  qed
  have own: "mb_owner b = owner" if "b \<in> set ?new" for b
    using that by (auto simp: prepare_bindings_def)
  have each: "bindings_ok (fst s') \<and> inputs_ok (fst s') \<and> tb_assets (fst s') = tb_assets t"
    if b: "mb_owner b = owner" and s: "bindings_ok (fst s) \<and> inputs_ok (fst s) \<and> tb_assets (fst s) = tb_assets t"
      and step: "insert_binding db b s = Inr s'" for b s s'
  proof -
    obtain x xs y ys where eq: "s = (x, xs)" "s' = (y, ys)" by fastforce
    have y: "y = x\<lparr>tb_bindings := tb_bindings x @ [b\<lparr>mb_inputs := []\<rparr>]\<rparr>"
      using step by (auto simp: eq insert_binding_def bindE_Inr_iff split: if_splits)
    have "bindings_ok y" by (rule insert_binding_ok [OF step [unfolded eq]]) (use b s owner in \<open>simp_all add: eq\<close>)
    moreover have "inputs_ok y" by (rule inputs_ok_more_bindings [of x]) (use s in \<open>auto simp: eq y\<close>)
    ultimately show ?thesis using s by (simp add: eq y)
  qed
  have "bindings_ok (fst (m, seen)) \<and> inputs_ok (fst (m, seen)) \<and> tb_assets (fst (m, seen)) = tb_assets t"
  proof (rule foldE_invariant [OF ins])
    show "bindings_ok (fst (?t, [] :: uuid list)) \<and> inputs_ok (fst (?t, [] :: uuid list)) \<and>
        tb_assets (fst (?t, [] :: uuid list)) = tb_assets t"
      using start1 start2 by simp
  qed (rule each [OF own])
  then have m: "bindings_ok m \<and> inputs_ok m" by simp
  have one: "bindings_ok s' \<and> inputs_ok s'" if "foldE (insert_input b) js s = Inr s'" "bindings_ok s \<and> inputs_ok s" for b js s s'
    using that by (rule foldE_invariant) (rule insert_input_ok)
  show ?thesis using inp m by (rule foldE_invariant) (auto simp: insert_inputs_def dest: one)
qed

lemma inputs_ok_asset_ops:
  assumes "inputs_ok t" "tb_bindings t' = tb_bindings t" "tb_inputs t' = tb_inputs t"
  shows "inputs_ok t'"
  using assms by (simp add: inputs_ok_def)

lemma asset_ops_keep_bindings:
  "repo_create db e t = (res, t') \<Longrightarrow> tb_bindings t' = tb_bindings t \<and> tb_inputs t' = tb_inputs t"
  "repo_update db e t = (res, t') \<Longrightarrow> tb_bindings t' = tb_bindings t \<and> tb_inputs t' = tb_inputs t"
  "repo_move db i parent position t = (res, t') \<Longrightarrow> tb_bindings t' = tb_bindings t \<and> tb_inputs t' = tb_inputs t"
  "repo_delete i t = (res, t') \<Longrightarrow> tb_bindings t' = tb_bindings t \<and> tb_inputs t' = tb_inputs t"
proof -
  show "repo_create db e t = (res, t') \<Longrightarrow> tb_bindings t' = tb_bindings t \<and> tb_inputs t' = tb_inputs t"
    by (auto simp: repo_create_def split: sum.splits)
  show "repo_update db e t = (res, t') \<Longrightarrow> tb_bindings t' = tb_bindings t \<and> tb_inputs t' = tb_inputs t"
    by (auto simp: repo_update_def Let_def split: sum.splits if_splits option.splits)
  show "repo_move db i parent position t = (res, t') \<Longrightarrow> tb_bindings t' = tb_bindings t \<and> tb_inputs t' = tb_inputs t"
    by (auto simp: repo_move_def Let_def split: sum.splits if_splits option.splits)
  show "repo_delete i t = (res, t') \<Longrightarrow> tb_bindings t' = tb_bindings t \<and> tb_inputs t' = tb_inputs t"
    by (auto simp: repo_delete_def split: if_splits)
qed

lemma asset_step_inv: "asset_tables_inv db t \<Longrightarrow> asset_step db t t' \<Longrightarrow> asset_tables_inv db t'"
proof (erule asset_step.cases)
  assume inv: "asset_tables_inv db t"
  then have i: "tree_ok db (tb_assets t)" "bindings_ok t" "inputs_ok t" by (simp_all add: asset_tables_inv_def)
  {
    fix e s r s' assume eq: "t = s" "t' = s'" and h: "at_id e \<noteq> uuid_nil" "repo_create db e s = (r, s')"
    show ?thesis
      using i h inputs_ok_asset_ops [OF i(3)] asset_ops_keep_bindings(1) [OF h(2)] tree_ok_create [OF _ h] bindings_ok_create [OF _ h(2)]
      unfolding asset_tables_inv_def eq by simp
  next
    fix e s r s' assume eq: "t = s" "t' = s'" and h: "repo_update db e s = (r, s')"
    show ?thesis
      using i inputs_ok_asset_ops [OF i(3)] asset_ops_keep_bindings(2) [OF h] tree_ok_update [OF _ h] bindings_ok_asset_ops(1) [OF _ h]
      unfolding asset_tables_inv_def eq by simp
  next
    fix k p q s r s' assume eq: "t = s" "t' = s'" and h: "repo_move db k p q s = (r, s')"
    show ?thesis
      using i inputs_ok_asset_ops [OF i(3)] asset_ops_keep_bindings(3) [OF h] tree_ok_move [OF _ h] bindings_ok_asset_ops(2) [OF _ h]
      unfolding asset_tables_inv_def eq by simp
  next
    fix k s r s' assume eq: "t = s" "t' = s'" and h: "repo_delete k s = (r, s')"
    show ?thesis
      using i inputs_ok_asset_ops [OF i(3)] asset_ops_keep_bindings(4) [OF h] tree_ok_delete [OF _ h] bindings_ok_asset_ops(3) [OF _ h]
      unfolding asset_tables_inv_def eq by simp
  next
    fix fresh owner bs s r s' assume eq: "t = s" "t' = s'" and h: "repo_replace_bindings db fresh owner bs s = (r, s')"
    show ?thesis
      using i replace_bindings_ok [OF _ _ h] repo_replace_keeps_assets [OF h] unfolding asset_tables_inv_def eq by simp
  }
qed

interpretation assets: invariant_system empty_tables "asset_step db" "asset_tables_inv db" for db
proof
  show "empty_tables t \<Longrightarrow> asset_tables_inv db t" for t
    by (simp add: empty_tables_def asset_tables_inv_def tree_ok_def forest_def bindings_ok_def inputs_ok_def acyclic_def)
qed (rule asset_step_inv)

lemma lineage_root:
  assumes "forest rows" "find_asset rows i = Some a"
  shows "at_parent (last (a # lineage rows (length rows) i)) = None"
proof -
  have "grounded rows i" using assms find_asset_Some [OF assms(2)] by (auto simp: forest_def)
  then show ?thesis using assms(2)
  proof (induction arbitrary: a rule: grounded.induct)
    case (grounded_root i b)
    then have "lineage rows n i = []" for n by (cases n) (simp_all add: parent_of_def)
    then show ?case using grounded_root by simp
  next
    case (grounded_child i b p)
    from grounded_child(3) obtain q where q: "find_asset rows p = Some q" by cases auto
    have "i \<in> at_id ` set rows" using find_asset_Some [OF grounded_child(1)] by blast
    then have "lineage rows (length rows) i = q # lineage rows (length rows) p"
      using lineage_unfold [OF assms(1) _ q] grounded_child(1,2) by (simp add: parent_of_def)
    then show ?case using grounded_child(4) [OF q] by simp
  qed
qed

section \<open>Properties\<close>

text \<open>
  C37: Whatever write transactions of the repository run one after another, none overlapping another,
  in any order and with whatever arguments the services computed from older reads, the assets form a
  forest whose roots are exactly the sites: no asset is its own ancestor and every lineage ends at a
  site; siblings have different names; the assets that own measurements are leaves, and a source has
  one owner; and no virtual meter depends on itself.
\<close>

theorem asset_tables_reachable_inv:
  assumes "reachable empty_tables (asset_step db) t"
  shows "distinct (map at_id (tb_assets t)) \<and>
    (\<forall>a \<in> set (tb_assets t).
       let up = lineage (tb_assets t) (length (tb_assets t)) (at_id a)
       in distinct (map at_id (a # up)) \<and> at_kind (last (a # up)) = ''site'' \<and>
          (at_kind a = ''site'' \<longleftrightarrow> at_parent a = None) \<and> \<not> sibling_name_taken db (tb_assets t) a) \<and>
    (\<forall>b \<in> set (tb_bindings t). mb_owner b \<in> at_id ` set (tb_assets t) \<and> mb_boundary b \<in> at_id ` set (tb_assets t) \<and>
       (\<forall>a \<in> set (tb_assets t). at_parent a \<noteq> Some (mb_owner b))) \<and>
    distinct (map mb_source (tb_bindings t)) \<and> acyclic (set (tb_inputs t))"
proof -
  have inv: "asset_tables_inv db t" using assms by (rule assets.reachable_inv)
  then have tree: "tree_ok db (tb_assets t)" and f: "forest (tb_assets t)"
    by (simp_all add: asset_tables_inv_def tree_ok_def)
  have up: "let up = lineage (tb_assets t) (length (tb_assets t)) (at_id a)
       in distinct (map at_id (a # up)) \<and> at_kind (last (a # up)) = ''site'' \<and>
          (at_kind a = ''site'' \<longleftrightarrow> at_parent a = None) \<and> \<not> sibling_name_taken db (tb_assets t) a"
    if a: "a \<in> set (tb_assets t)" for a
  proof -
    let ?up = "lineage (tb_assets t) (length (tb_assets t)) (at_id a)"
    have g: "grounded (tb_assets t) (at_id a)" and found: "find_asset (tb_assets t) (at_id a) = Some a"
      using f a find_asset_mem by (auto simp: forest_def)
    have "set (a # ?up) \<subseteq> set (tb_assets t)" using a find_asset_Some [OF lineage_mem] by auto
    then have "last (a # ?up) \<in> set (tb_assets t)" using last_in_set [of "a # ?up"] by blast
    then have "at_kind (last (a # ?up)) = ''site''"
      using tree_ok_kind [OF tree] lineage_root [OF f found] by blast
    moreover have "distinct (map at_id (a # ?up))" using lineage_distinct [OF g] by simp
    ultimately show ?thesis using tree a by (simp add: tree_ok_def Let_def)
  qed
  show ?thesis using inv f up by (simp add: asset_tables_inv_def bindings_ok_def inputs_ok_def forest_def)
qed

definition plain_db :: asset_db where
  "plain_db = \<lparr>db_lower = (\<lambda>s. s), db_collate = (\<lambda>s. s), db_to_lower = (\<lambda>s. s), db_text = (\<lambda>s. True),
     db_tag_exists = (\<lambda>i. True), db_instance_exists = (\<lambda>i. True)\<rparr>"

definition plain_asset :: "uuid \<Rightarrow> uuid option \<Rightarrow> string \<Rightarrow> asset" where
  "plain_asset i parent name = \<lparr>at_id = i, at_parent = parent, at_name = name,
     at_kind = (if parent = None then ''site'' else ''area''), at_description = None, at_enabled = True,
     at_timezone = None, at_position = 0, at_metadata = ''{}''\<rparr>"

definition assets_only :: "asset list \<Rightarrow> asset_tables" where
  "assets_only rows = \<lparr>tb_assets = rows, tb_bindings = [], tb_inputs = []\<rparr>"

lemma one_site_created:
  "repo_create plain_db (plain_asset 1 None ''a'') (assets_only []) = (Inr (), assets_only [plain_asset 1 None ''a''])"
  by code_simp

theorem asset_tables_reachable_inv_witness:
  "at_kind (last (plain_asset 1 None ''a'' # lineage [plain_asset 1 None ''a''] 1 1)) = ''site''"
proof -
  have "reachable empty_tables (asset_step plain_db) (assets_only [plain_asset 1 None ''a''])"
  proof (rule reachable_step)
    show "reachable empty_tables (asset_step plain_db) (assets_only [])"
      by (rule reachable_init) (simp add: empty_tables_def assets_only_def)
    show "asset_step plain_db (assets_only []) (assets_only [plain_asset 1 None ''a''])"
      by (rule step_create [OF _ one_site_created]) (simp add: plain_asset_def)
  qed
  from asset_tables_reachable_inv [OF this] show ?thesis by (simp add: assets_only_def Let_def plain_asset_def)
qed

text \<open>
  Two guarantees of a single write that a move does not keep. The trigger counts the levels above
  the moved row, not those below it, so a moved subtree can end deeper than the limit; and nobody
  looks at the measurements below it, whose boundary can then lie outside their lineage.
\<close>

definition deep_rows :: "asset list" where
  "deep_rows = plain_asset 1 None ''a'' # map (\<lambda>n. plain_asset (of_nat n) (Some (of_nat (n - 1))) ''a'') [2..<17] @
     [plain_asset 17 (Some 1) ''b'']"

lemma move_exceeds_depth:
  "length (lineage deep_rows 18 16) + 1 = max_hierarchy_depth"
  "fst (repo_move plain_db 2 (Some 17) 0 (assets_only deep_rows)) = Inr ()"
  "length (lineage (tb_assets (snd (repo_move plain_db 2 (Some 17) 0 (assets_only deep_rows)))) 18 16) + 1 = 17"
  by code_simp+

definition boundary_rows :: "asset list" where
  "boundary_rows = [plain_asset 1 None ''a'', plain_asset 2 (Some 1) ''a'', plain_asset 3 (Some 1) ''b'', plain_asset 4 (Some 2) ''a'']"

definition bounded_meter :: measurement_binding where
  "bounded_meter = (rc_binding (energy_meter 9 ''direct'' []))\<lparr>mb_owner := 4, mb_boundary := 2\<rparr>"

lemma move_leaves_boundary_behind:
  "validate_measurement_binding (assets_only boundary_rows) bounded_meter = Inr ()"
  "fst (repo_move plain_db 4 (Some 3) 0 ((assets_only boundary_rows)\<lparr>tb_bindings := [bounded_meter]\<rparr>)) = Inr ()"
  "validate_measurement_binding (snd (repo_move plain_db 4 (Some 3) 0 (assets_only boundary_rows))) bounded_meter =
     Inl ErrInvalidBinding"
  by code_simp+

section \<open>Transactions that overlap\<close>

text \<open>
  A move whose trigger reads the tables \<open>seen\<close>, the last committed ones when its statement began, and
  whose row is written into the tables \<open>t\<close> with what other transactions have committed or are about to
  commit. The constraints and the unique index look at the tables as they become.
\<close>

definition overlapping_move ::
  "asset_db \<Rightarrow> asset_tables \<Rightarrow> uuid \<Rightarrow> uuid option \<Rightarrow> int \<Rightarrow> asset_tables \<Rightarrow> unit asset_result" where
  "overlapping_move db seen i parent position t =
     (if i = uuid_nil \<or> position < 0 then (Inl ErrInvalidAsset, t)
      else case find_asset (tb_assets t) i of
        None \<Rightarrow> (Inl ErrAssetNotFound, t)
      | Some old \<Rightarrow>
          let row = old\<lparr>at_parent := parent, at_position := position\<rparr>
          in case bindE (validate_asset_hierarchy seen row) (\<lambda>_. bindE (check_asset_row db row) (\<lambda>_.
               if sibling_name_taken db (tb_assets t) row then Inl ErrAssetNameExists
               else if parent \<noteq> None \<and> the parent \<notin> at_id ` set (tb_assets t)
               then Inl (ErrAssetStore ''assets_parent_id_fkey'') else Inr ())) of
             Inl err \<Rightarrow> (Inl err, t)
           | Inr _ \<Rightarrow> (Inr (), t\<lparr>tb_assets := replace_asset row (tb_assets t)\<rparr>))"

lemma hierarchy_walk_known: "hierarchy_walk rows i depth a = Inr () \<Longrightarrow> a \<in> at_id ` set rows"
  by (subst (asm) hierarchy_walk.simps) (auto dest: find_asset_Some split: if_splits option.splits)

text \<open>On its own, reading the tables it writes, it is the move of the repository.\<close>

lemma overlapping_move_alone: "overlapping_move db t i parent position t = repo_move db i parent position t"
proof -
  have known: "y \<in> at_id ` set (tb_assets t)"
    if "validate_asset_hierarchy t (old\<lparr>at_parent := Some y, at_position := position\<rparr>) = Inr ()" for old y
    using that hierarchy_walk_known by (auto simp: validate_asset_hierarchy_def split: if_splits)
  show ?thesis
    unfolding overlapping_move_def repo_move_def Let_def bindE_def
    by (cases parent) (auto dest: known split: option.splits sum.splits)
qed

text \<open>
  Two crossing moves: one puts the area 2 under the area 3, the other 3 under 2. Each trigger reads the
  tables without the write of the other transaction and finds no cycle, and nothing else stops them:
  they write different rows, and the foreign keys lock the parents only against a change of their key.
  Both commit, and each of the two assets is its own ancestor. One after the other, the second move
  is refused.
\<close>

definition crossing_rows :: asset_tables where
  "crossing_rows = assets_only [plain_asset 1 None ''a'', plain_asset 2 (Some 1) ''b'', plain_asset 3 (Some 1) ''c'']"

lemma crossing_moves_form_cycle:
  "fst (repo_move plain_db 2 (Some 3) 0 crossing_rows) = Inr () \<and>
   fst (overlapping_move plain_db crossing_rows 3 (Some 2) 0 (snd (repo_move plain_db 2 (Some 3) 0 crossing_rows))) = Inr () \<and>
   map (parent_of (tb_assets (snd (overlapping_move plain_db crossing_rows 3 (Some 2) 0
     (snd (repo_move plain_db 2 (Some 3) 0 crossing_rows)))))) [2, 3] = [Some 3, Some 2] \<and>
   fst (repo_move plain_db 3 (Some 2) 0 (snd (repo_move plain_db 2 (Some 3) 0 crossing_rows))) = Inl ErrHierarchyCycle"
  by code_simp

section \<open>The registry and the table\<close>

text \<open>The table has no row for a cost, an emission or a custom quantity, though the registry has units for them.\<close>

lemma registry_quantity_not_stored:
  assumes "validate_semantic (mb_semantic b) = Inr ()"
    and "sm_quantity (mb_semantic b) \<in> {''cost'', ''emissions'', ''custom''}"
  shows "check_binding_row db b \<noteq> Inr ()"
proof -
  obtain d u where d: "map_of quantity_dimensions (sm_quantity (mb_semantic b)) = Some d"
    and u: "resolve_unit_definition (sm_quantity (mb_semantic b)) (sm_unit (mb_semantic b)) = Some u" "ud_dimension u = d"
    by (rule validate_semantic_resolves [OF assms(1)])
  have currency: "sm_unit (mb_semantic b) \<notin> set stored_units" if q: "sm_quantity (mb_semantic b) = ''cost''"
  proof
    assume "sm_unit (mb_semantic b) \<in> set stored_units"
    then have "\<exists>e. map_of unit_definitions (sm_unit (mb_semantic b)) = Some e \<and> ud_dimension e \<noteq> DimensionCurrency"
      by (auto simp: stored_units_def unit_definitions_def unit_row_def)
    then have "ud_dimension u \<noteq> DimensionCurrency" using u(1) by (auto simp: resolve_unit_definition_def)
    moreover have "d = DimensionCurrency" using d q by (simp add: quantity_dimensions_def)
    ultimately show False using u(2) by simp
  qed
  have "sm_quantity (mb_semantic b) \<notin> set stored_quantities \<or> sm_unit (mb_semantic b) \<notin> set stored_units"
    using assms(2) currency by (auto simp: stored_quantities_def)
  then show ?thesis by (auto simp: check_binding_row_def Let_def)
qed

end
