(* ===== verification/Asset_Service.thy ===== *)
theory Asset_Service
  imports Asset_Store
begin

text \<open>
  The service of the assets, \<open>internal/asset/service.go\<close>, over the repository. A service call reads
  and writes the tables one statement after the other; here no other call comes between (what is
  kept when one does is \<open>asset_tables_reachable_inv\<close>). The time zone database, the canonical text of
  a JSON object, the catalog of sources and the ids that \<open>uuid.New\<close> gives are parameters.
\<close>

section \<open>Inputs\<close>

record source_descriptor =
  sd_reference :: asset_source
  sd_data_type :: string
  sd_unit :: string
  sd_dynamic_unit :: bool

record asset_env =
  en_db :: asset_db
  en_load_location :: "string \<Rightarrow> string option"
  en_json_object :: "string \<Rightarrow> string option"
  en_describe :: "asset_source \<Rightarrow> asset_error + source_descriptor"
  en_shuffle :: "nat \<Rightarrow> uuid list \<Rightarrow> uuid list"
  en_fresh :: "nat \<Rightarrow> uuid"

record create_asset_input =
  ci_parent :: "uuid option"
  ci_name :: string
  ci_kind :: string
  ci_description :: "string option"
  ci_enabled :: "bool option"
  ci_timezone :: "string option"
  ci_position :: int
  ci_metadata :: string

text \<open>A field of an update is set when it is \<open>Some\<close>; the code also tells a missing from a cleared text.\<close>

record update_asset_input =
  ui_name :: "string option"
  ui_kind :: "string option"
  ui_description :: "string option option"
  ui_enabled :: "bool option"
  ui_timezone :: "string option option"
  ui_position :: "int option"
  ui_metadata :: "string option"

record move_asset_input =
  mi_parent :: "uuid option"
  mi_position :: int

definition max_asset_name_length :: nat where "max_asset_name_length = 100"
definition max_asset_description_length :: nat where "max_asset_description_length = 2000"
definition max_asset_timezone_length :: nat where "max_asset_timezone_length = 100"
definition max_measurements_per_asset :: nat where "max_measurements_per_asset = 256"

section \<open>Normalisation\<close>

definition normalize_optional_text :: "string option \<Rightarrow> string option" where
  "normalize_optional_text v =
     (case v of None \<Rightarrow> None | Some s \<Rightarrow> (let n = trim_space s in if n = [] then None else Some n))"

definition normalize_asset_metadata :: "asset_env \<Rightarrow> string \<Rightarrow> asset_error + string" where
  "normalize_asset_metadata env raw =
     (if trim_space raw = [] then Inr ''{}''
      else case en_json_object env raw of None \<Rightarrow> Inl ErrInvalidAssetInput | Some c \<Rightarrow> Inr c)"

definition valid_timezone :: "asset_env \<Rightarrow> string option \<Rightarrow> bool" where
  "valid_timezone env z =
     (case z of
        None \<Rightarrow> True
      | Some z \<Rightarrow> trim_space z \<noteq> [] \<and> trim_space z = z \<and> length z \<le> max_asset_timezone_length \<and>
          en_load_location env z = Some z)"

definition normalize_asset :: "asset_env \<Rightarrow> asset \<Rightarrow> asset_error + asset" where
  "normalize_asset env e =
     (let name = trim_space (at_name e); description = normalize_optional_text (at_description e)
      in if name = [] \<or> length name > max_asset_name_length \<or> \<not> valid_kind (at_kind e) \<or> at_position e < 0
         then Inl ErrInvalidAssetInput
         else if (case description of None \<Rightarrow> False | Some d \<Rightarrow> length d > max_asset_description_length)
         then Inl ErrInvalidAssetInput
         else if \<not> valid_timezone env (at_timezone e) then Inl ErrInvalidAssetInput
         else bindE (normalize_asset_metadata env (at_metadata e)) (\<lambda>m.
           Inr (e\<lparr>at_name := name, at_description := description, at_metadata := m\<rparr>)))"

definition normalize_create_input :: "asset_env \<Rightarrow> create_asset_input \<Rightarrow> asset_error + asset" where
  "normalize_create_input env input =
     normalize_asset env \<lparr>at_id = en_fresh env 0, at_parent = ci_parent input, at_name = ci_name input,
       at_kind = ci_kind input, at_description = ci_description input,
       at_enabled = (case ci_enabled input of None \<Rightarrow> True | Some b \<Rightarrow> b), at_timezone = ci_timezone input,
       at_position = ci_position input,
       at_metadata = (if ci_metadata input = [] then ''{}'' else ci_metadata input)\<rparr>"

section \<open>Assets\<close>

definition get_asset :: "uuid \<Rightarrow> asset_tables \<Rightarrow> asset_error + asset" where
  "get_asset i t = (if i = uuid_nil then Inl ErrInvalidAssetInput else repo_find i t)"

text \<open>The kind of a parent and the ids from the root down to it, as \<open>Create\<close> and \<open>Move\<close> collect them.\<close>

definition parent_lineage :: "uuid option \<Rightarrow> asset_tables \<Rightarrow> asset_error + (string option \<times> uuid list)" where
  "parent_lineage parent t =
     (case parent of
        None \<Rightarrow> Inr (None, [])
      | Some p \<Rightarrow> bindE (repo_find p t) (\<lambda>a. bindE (repo_ancestors p t) (\<lambda>up.
          Inr (Some (at_kind a), map at_id up @ [at_id a]))))"

definition asset_write_result :: "uuid \<Rightarrow> unit asset_result \<Rightarrow> asset asset_result" where
  "asset_write_result i r = (bindE (fst r) (\<lambda>_. get_asset i (snd r)), snd r)"

definition create_asset :: "asset_env \<Rightarrow> create_asset_input \<Rightarrow> asset_tables \<Rightarrow> asset asset_result" where
  "create_asset env input t =
     (case bindE (normalize_create_input env input) (\<lambda>e.
        bindE (parent_lineage (at_parent e) t) (\<lambda>(kind, up).
          bindE (validate_placement (at_kind e) kind) (\<lambda>_.
            bindE (validate_ancestry (at_id e) up) (\<lambda>_. Inr e)))) of
        Inl err \<Rightarrow> (Inl err, t)
      | Inr e \<Rightarrow> asset_write_result (at_id e) (repo_create (en_db env) e t))"

definition apply_update :: "update_asset_input \<Rightarrow> asset \<Rightarrow> asset" where
  "apply_update input e =
     e\<lparr>at_name := (case ui_name input of None \<Rightarrow> at_name e | Some n \<Rightarrow> trim_space n),
       at_kind := (case ui_kind input of None \<Rightarrow> at_kind e | Some k \<Rightarrow> k),
       at_description := (case ui_description input of None \<Rightarrow> at_description e | Some d \<Rightarrow> normalize_optional_text d),
       at_enabled := (case ui_enabled input of None \<Rightarrow> at_enabled e | Some b \<Rightarrow> b),
       at_timezone := (case ui_timezone input of None \<Rightarrow> at_timezone e | Some z \<Rightarrow> z),
       at_position := (case ui_position input of None \<Rightarrow> at_position e | Some p \<Rightarrow> p),
       at_metadata := (case ui_metadata input of None \<Rightarrow> at_metadata e | Some m \<Rightarrow> m)\<rparr>"

definition parent_kind :: "uuid option \<Rightarrow> asset_tables \<Rightarrow> asset_error + string option" where
  "parent_kind parent t =
     (case parent of None \<Rightarrow> Inr None | Some p \<Rightarrow> bindE (repo_find p t) (\<lambda>a. Inr (Some (at_kind a))))"

definition update_asset :: "asset_env \<Rightarrow> uuid \<Rightarrow> update_asset_input \<Rightarrow> asset_tables \<Rightarrow> asset asset_result" where
  "update_asset env i input t =
     (if i = uuid_nil then (Inl ErrInvalidAssetInput, t)
      else case bindE (repo_find i t) (\<lambda>old. bindE (normalize_asset env (apply_update input old)) (\<lambda>e.
        bindE (parent_kind (at_parent e) t) (\<lambda>kind. bindE (validate_placement (at_kind e) kind) (\<lambda>_. Inr e)))) of
        Inl err \<Rightarrow> (Inl err, t)
      | Inr e \<Rightarrow> asset_write_result i (repo_update (en_db env) e t))"

definition move_asset :: "asset_env \<Rightarrow> uuid \<Rightarrow> move_asset_input \<Rightarrow> asset_tables \<Rightarrow> asset asset_result" where
  "move_asset env i input t =
     (if i = uuid_nil \<or> mi_position input < 0 \<or> mi_parent input = Some uuid_nil then (Inl ErrInvalidMoveInput, t)
      else case bindE (repo_find i t) (\<lambda>e. bindE (parent_lineage (mi_parent input) t) (\<lambda>(kind, up).
        bindE (validate_placement (at_kind e) kind) (\<lambda>_. validate_ancestry (at_id e) up))) of
        Inl err \<Rightarrow> (Inl err, t)
      | Inr _ \<Rightarrow> asset_write_result i (repo_move (en_db env) i (mi_parent input) (mi_position input) t))"

definition delete_asset :: "asset_env \<Rightarrow> uuid \<Rightarrow> asset_tables \<Rightarrow> unit asset_result" where
  "delete_asset env i t =
     (if i = uuid_nil then (Inl ErrInvalidAssetInput, t)
      else case bindE (repo_find i t) (\<lambda>_.
        if repo_list_children (en_db env) (Some i) t \<noteq> [] then Inl ErrAssetHasDependents
        else bindE (repo_list_bindings i t) (\<lambda>bs. if bs \<noteq> [] then Inl ErrAssetHasDependents else Inr ())) of
        Inl err \<Rightarrow> (Inl err, t)
      | Inr _ \<Rightarrow> repo_delete i t)"

definition asset_children :: "asset_env \<Rightarrow> uuid option \<Rightarrow> asset_tables \<Rightarrow> asset_error + asset list" where
  "asset_children env parent t =
     (if parent = Some uuid_nil then Inl ErrInvalidAssetInput else Inr (repo_list_children (en_db env) parent t))"

definition asset_subtree :: "asset_env \<Rightarrow> uuid \<Rightarrow> asset_tables \<Rightarrow> asset_error + tree_node" where
  "asset_subtree env i t = (if i = uuid_nil then Inl ErrInvalidAssetInput else repo_subtree (en_db env) i t)"

definition asset_ancestors :: "uuid \<Rightarrow> asset_tables \<Rightarrow> asset_error + asset list" where
  "asset_ancestors i t = (if i = uuid_nil then Inl ErrInvalidAssetInput else repo_ancestors i t)"

section \<open>Measurements\<close>

definition validate_source_compatibility ::
  "asset_source \<Rightarrow> semantic \<Rightarrow> source_descriptor \<Rightarrow> asset_error + unit" where
  "validate_source_compatibility s m d =
     (if sd_reference d \<noteq> s then Inl ErrIncompatibleSource
      else if sd_dynamic_unit d then Inl ErrIncompatibleSource
      else if sd_unit d \<noteq> [] \<and> sd_unit d \<noteq> sm_unit m then Inl ErrIncompatibleSource
      else if sm_quantity m = ''state'' then (if sd_data_type d \<noteq> ''bool'' then Inl ErrIncompatibleSource else Inr ())
      else if sd_data_type d \<in> {''int16'', ''uint16'', ''int32'', ''uint32'', ''float32'', ''float64''} then Inr ()
      else Inl ErrIncompatibleSource)"

definition normalize_binding ::
  "asset_env \<Rightarrow> uuid \<Rightarrow> uuid list \<Rightarrow> nat \<times> measurement_binding \<Rightarrow>
   uuid list \<times> string list \<times> measurement_binding list \<Rightarrow> asset_error + uuid list \<times> string list \<times> measurement_binding list" where
  "normalize_binding env owner ancestors = (\<lambda>(k, b) (ids, sources, acc).
     let b = b\<lparr>mb_id := if mb_id b = uuid_nil then en_fresh env k else mb_id b, mb_owner := owner,
               mb_source_key := asset_source_key (mb_source b)\<rparr>
     in if mb_id b \<in> set ids then Inl ErrInvalidBinding
        else if validate_asset_source (mb_source b) \<noteq> Inr () \<or> validate_semantic (mb_semantic b) \<noteq> Inr () then Inl ErrInvalidBinding
        else if mb_source_key b \<in> set sources then Inl ErrDuplicateMeasurement
        else if mb_boundary b \<noteq> owner \<and> mb_boundary b \<notin> set ancestors then Inl ErrInvalidAggregation
        else bindE (en_describe env (mb_source b)) (\<lambda>d.
          bindE (validate_source_compatibility (mb_source b) (mb_semantic b) d) (\<lambda>_.
            Inr (mb_id b # ids, mb_source_key b # sources, acc @ [b]))))"

definition validate_submitted_bindings ::
  "asset_env \<Rightarrow> uuid \<Rightarrow> uuid list \<Rightarrow> measurement_binding list \<Rightarrow> asset_error + unit" where
  "validate_submitted_bindings env owner ancestors bs =
     (if \<exists>b \<in> set bs. \<exists>j \<in> set (mb_inputs b). j \<notin> mb_id ` set bs then Inl ErrInvalidBinding
      else bindE (build_rollup_plan (en_shuffle env) owner
        (map (\<lambda>b. \<lparr>rc_binding = b, rc_owner_ancestors = ancestors, rc_owner_is_leaf = True\<rparr>) bs)) (\<lambda>_. Inr ()))"

text \<open>The walk of \<open>validateHierarchyRollups\<close> over a subtree, with the submitted bindings in place of the owner's.\<close>

fun subtree_candidates ::
  "asset_tables \<Rightarrow> uuid \<Rightarrow> uuid \<Rightarrow> measurement_binding list \<Rightarrow> tree_node \<Rightarrow> rollup_candidate list" where
  "subtree_candidates t owner boundary replacement (TreeNode a depth effective n children) =
     map (\<lambda>b. \<lparr>rc_binding = b, rc_owner_ancestors = [boundary], rc_owner_is_leaf = (children = [])\<rparr>)
       (filter (\<lambda>b. mb_boundary b = boundary) (if at_id a \<noteq> owner then owned_bindings (at_id a) t else replacement)) @
     concat (map (subtree_candidates t owner boundary replacement) children)"

definition validate_boundary ::
  "asset_env \<Rightarrow> asset_tables \<Rightarrow> uuid \<Rightarrow> measurement_binding list \<Rightarrow> uuid \<Rightarrow> unit \<Rightarrow> asset_error + unit" where
  "validate_boundary env t owner replacement boundary = (\<lambda>_.
     bindE (repo_subtree (en_db env) boundary t) (\<lambda>tree.
       bindE (build_rollup_plan (en_shuffle env) boundary (subtree_candidates t owner boundary replacement tree)) (\<lambda>_. Inr ())))"

definition validate_hierarchy_rollups ::
  "asset_env \<Rightarrow> asset_tables \<Rightarrow> uuid \<Rightarrow> measurement_binding list \<Rightarrow> asset_error + unit" where
  "validate_hierarchy_rollups env t owner replacement =
     foldE (validate_boundary env t owner replacement) (en_shuffle env 5 (remdups (map mb_boundary replacement))) ()"

definition asset_bindings :: "uuid \<Rightarrow> asset_tables \<Rightarrow> asset_error + measurement_binding list" where
  "asset_bindings i t = (if i = uuid_nil then Inl ErrInvalidBinding else repo_list_bindings i t)"

definition prepare_replacement ::
  "asset_env \<Rightarrow> uuid \<Rightarrow> measurement_binding list \<Rightarrow> asset_tables \<Rightarrow> asset_error + measurement_binding list" where
  "prepare_replacement env owner bs t =
     bindE (repo_find owner t) (\<lambda>_.
       if repo_list_children (en_db env) (Some owner) t \<noteq> [] then Inl ErrInvalidBinding
       else bindE (repo_ancestors owner t) (\<lambda>up.
         bindE (foldE (normalize_binding env owner (map at_id up)) (zip [0..<length bs] bs) ([], [], [])) (\<lambda>(ids, sources, new).
           bindE (validate_submitted_bindings env owner (map at_id up) new) (\<lambda>_.
             bindE (validate_hierarchy_rollups env t owner new) (\<lambda>_. Inr new)))))"

definition replace_asset_bindings ::
  "asset_env \<Rightarrow> uuid \<Rightarrow> measurement_binding list \<Rightarrow> asset_tables \<Rightarrow> (asset_error + measurement_binding list) \<times> asset_tables" where
  "replace_asset_bindings env owner bs t =
     (if owner = uuid_nil \<or> length bs > max_measurements_per_asset then (Inl ErrInvalidBinding, t)
      else case prepare_replacement env owner bs t of
        Inl err \<Rightarrow> (Inl err, t)
      | Inr new \<Rightarrow>
          (case repo_replace_bindings (en_db env) (en_fresh env) owner new t of
             (Inl err, t') \<Rightarrow> (Inl err, t')
           | (Inr _, t') \<Rightarrow> (asset_bindings owner t', t')))"

section \<open>The service writes through the repository\<close>

lemma service_writes_are_steps:
  "create_asset env input t = (res, t') \<Longrightarrow> t' = t \<or> asset_step (en_db env) t t'"
  "update_asset env i upd t = (res, t') \<Longrightarrow> t' = t \<or> asset_step (en_db env) t t'"
  "move_asset env i mv t = (res, t') \<Longrightarrow> t' = t \<or> asset_step (en_db env) t t'"
  "delete_asset env i t = (res', t') \<Longrightarrow> t' = t \<or> asset_step (en_db env) t t'"
  "replace_asset_bindings env i bs t = (res'', t') \<Longrightarrow> t' = t \<or> asset_step (en_db env) t t'"
proof -
  have w: "asset_write_result j r = (x, t') \<Longrightarrow> t' = snd r" for j r x by (simp add: asset_write_result_def)
  show "t' = t \<or> asset_step (en_db env) t t'" if h: "create_asset env input t = (res, t')"
  proof (cases "t' = t")
    case False
    then obtain e up where e: "asset_write_result (at_id e) (repo_create (en_db env) e t) = (res, t')"
        "validate_ancestry (at_id e) up = Inr ()"
      using h by (auto simp: create_asset_def bindE_Inr_iff split: sum.splits prod.splits)
    have "at_id e \<noteq> uuid_nil" using e(2) by (auto simp: validate_ancestry_def)
    then show ?thesis using step_create [of e "en_db env" t] w [OF e(1)] by (metis prod.collapse)
  qed simp
  show "t' = t \<or> asset_step (en_db env) t t'" if "update_asset env i upd t = (res, t')"
    using that step_update [of "en_db env"] w
    by (auto simp: update_asset_def split: if_splits sum.splits) (metis prod.collapse)
  show "t' = t \<or> asset_step (en_db env) t t'" if "move_asset env i mv t = (res, t')"
    using that step_move [of "en_db env"] w
    by (auto simp: move_asset_def split: if_splits sum.splits) (metis prod.collapse)
  show "t' = t \<or> asset_step (en_db env) t t'" if "delete_asset env i t = (res', t')"
    using that step_delete by (auto simp: delete_asset_def split: if_splits sum.splits)
  show "t' = t \<or> asset_step (en_db env) t t'" if "replace_asset_bindings env i bs t = (res'', t')"
    using that step_replace by (fastforce simp: replace_asset_bindings_def split: if_splits sum.splits prod.splits)
qed

section \<open>Moving an asset\<close>

lemma lineage_unchanged:
  assumes same: "\<And>k. k \<noteq> i \<Longrightarrow> find_asset rows' k = find_asset rows k" and i: "find_asset rows i \<noteq> None"
  shows "x \<noteq> i \<Longrightarrow> i \<notin> at_id ` set (lineage rows n x) \<Longrightarrow> lineage rows' n x = lineage rows n x"
proof (induction n arbitrary: x)
  case (Suc n)
  have par: "parent_of rows' x = parent_of rows x" using same [OF Suc.prems(1)] by (simp add: parent_of_def)
  show ?case
  proof (cases "parent_of rows x")
    case None
    then show ?thesis by (simp add: par)
  next
    case (Some p)
    show ?thesis
    proof (cases "find_asset rows p")
      case None
      then have "p \<noteq> i" using i by metis
      then show ?thesis using None same [of p] by (simp add: par Some)
    next
      case (Some a)
      have lin: "lineage rows (Suc n) x = a # lineage rows n p" using \<open>parent_of rows x = Some p\<close> Some by simp
      have "at_id a = p" using find_asset_Some [OF Some] by blast
      then have "p \<noteq> i" "i \<notin> at_id ` set (lineage rows n p)" using Suc.prems(2) unfolding lin by auto
      then show ?thesis
        using Suc.IH [of p] same [of p] Some \<open>parent_of rows x = Some p\<close> by (simp add: par)
    qed
  qed
qed simp

lemma check_ancestors_ok: "check_ancestors seen ids = Inr () \<Longrightarrow> set seen \<inter> set ids = {} \<and> uuid_nil \<notin> set ids \<and> distinct ids"
  by (induction seen ids rule: check_ancestors.induct) (auto split: if_splits)

lemma validate_ancestry_ok:
  "validate_ancestry i ids = Inr () \<Longrightarrow> i \<notin> set ids \<and> length ids < max_hierarchy_depth"
  using check_ancestors_ok [of "[i]" ids] by (auto simp: validate_ancestry_def split: if_splits)

lemma repo_move_found:
  assumes "repo_move db i parent position t = (Inr (), t')"
  shows "find_asset (tb_assets t') i \<noteq> None"
proof -
  obtain old where "find_asset (tb_assets t) i = Some old"
    and "tb_assets t' = replace_asset (old\<lparr>at_parent := parent, at_position := position\<rparr>) (tb_assets t)"
    using assms by (auto elim: repo_move_Inr)
  then show ?thesis using find_asset_Some by (auto simp: find_asset_replace)
qed

text \<open>What an accepted move has checked, on the tables it then writes.\<close>

lemma move_asset_Inr:
  assumes "move_asset env i input t = (Inr e, t')"
  obtains kind up where "repo_move (en_db env) i (mi_parent input) (mi_position input) t = (Inr (), t')"
    "parent_lineage (mi_parent input) t = Inr (kind, up)" "validate_ancestry i up = Inr ()" "repo_find i t' = Inr e"
proof -
  obtain u where m: "repo_move (en_db env) i (mi_parent input) (mi_position input) t = (Inr u, t')"
    and f: "repo_find i t' = Inr e"
    using assms by (auto simp: move_asset_def asset_write_result_def get_asset_def bindE_Inr_iff
        split: if_splits sum.splits) (metis prod.collapse)+
  obtain old kind up where "repo_find i t = Inr old" "parent_lineage (mi_parent input) t = Inr (kind, up)"
      "validate_ancestry (at_id old) up = Inr ()"
    using assms by (auto simp: move_asset_def bindE_Inr_iff split: if_splits sum.splits prod.splits)
  moreover from this(1) have "at_id old = i"
    using find_asset_Some by (fastforce simp: repo_find_def split: if_splits option.splits)
  ultimately show thesis using that m f by auto
qed

lemma parent_lineage_ids:
  assumes "parent_lineage (Some p) t = Inr (kind, up)"
  shows "up = map at_id (rev (lineage (tb_assets t) (length (tb_assets t)) p)) @ [p]"
    "find_asset (tb_assets t) p \<noteq> None"
proof -
  from assms obtain a where a: "repo_find p t = Inr a"
    and up: "up = map at_id (rev (lineage (tb_assets t) (length (tb_assets t)) p)) @ [at_id a]"
    by (auto simp: parent_lineage_def repo_ancestors_def bindE_Inr_iff)
  then have "find_asset (tb_assets t) p = Some a" by (auto simp: repo_find_def split: if_splits option.splits)
  then show "up = map at_id (rev (lineage (tb_assets t) (length (tb_assets t)) p)) @ [p]"
    "find_asset (tb_assets t) p \<noteq> None"
    using find_asset_Some up by auto
qed

text \<open>
  C38: Moving an asset either fails and changes nothing, or hangs exactly this asset under the parent it
  was given: its new lineage is the parent and the lineage the parent had, at most 15 long, and every
  other asset keeps its row. A move under the asset itself or under one of its descendants is refused.
\<close>

theorem move_asset_effect:
  assumes "reachable empty_tables (asset_step (en_db env)) t" and "move_asset env i input t = (res, t')"
  shows "case res of
      Inl err \<Rightarrow> t' = t
    | Inr e \<Rightarrow> at_id e = i \<and> at_parent e = mi_parent input \<and> at_position e = mi_position input \<and>
        (\<forall>k. k \<noteq> i \<longrightarrow> find_asset (tb_assets t') k = find_asset (tb_assets t) k) \<and>
        (let up = (case mi_parent input of None \<Rightarrow> []
             | Some p \<Rightarrow> p # map at_id (lineage (tb_assets t) (length (tb_assets t)) p))
         in map at_id (lineage (tb_assets t') (length (tb_assets t')) i) = up \<and> i \<notin> set up \<and> length up < max_hierarchy_depth)"
proof (cases res)
  case (Inl err)
  have "t' = t"
  proof (rule ccontr)
    assume n: "t' \<noteq> t"
    let ?r = "repo_move (en_db env) i (mi_parent input) (mi_position input) t"
    from n have w: "(res, t') = asset_write_result i ?r" and i: "i \<noteq> uuid_nil"
      using assms(2) by (auto simp: move_asset_def split: if_splits sum.splits)
    have ok: "?r = (Inr (), t')"
    proof (cases "fst ?r")
      case Inl
      then have "snd ?r = t" by (auto simp: repo_move_def Let_def split: if_splits option.splits sum.splits)
      then show ?thesis using w n by (simp add: asset_write_result_def)
    next
      case (Inr u)
      then show ?thesis using w by (simp add: asset_write_result_def prod_eq_iff)
    qed
    then have "find_asset (tb_assets t') i \<noteq> None" by (simp add: repo_move_found)
    then show False using w ok i Inl by (auto simp: asset_write_result_def get_asset_def repo_find_def)
  qed
  then show ?thesis using Inl by simp
next
  case (Inr e)
  obtain kind up where m: "repo_move (en_db env) i (mi_parent input) (mi_position input) t = (Inr (), t')"
    and pl: "parent_lineage (mi_parent input) t = Inr (kind, up)" and anc: "validate_ancestry i up = Inr ()"
    and e: "repo_find i t' = Inr e"
    using assms(2) unfolding Inr by (rule move_asset_Inr)
  obtain old where old: "find_asset (tb_assets t) i = Some old"
    and t': "tb_assets t' = replace_asset (old\<lparr>at_parent := mi_parent input, at_position := mi_position input\<rparr>) (tb_assets t)"
    using m by (auto elim: repo_move_Inr)
  have idold: "at_id old = i" using find_asset_Some [OF old] by blast
  have inv: "asset_tables_inv (en_db env) t" using assms(1) by (rule assets.reachable_inv)
  then have f: "forest (tb_assets t)" by (simp add: asset_tables_inv_def tree_ok_def)
  have f': "forest (tb_assets t')" using forest_move [OF f m] .
  have found: "find_asset (tb_assets t') i = Some (old\<lparr>at_parent := mi_parent input, at_position := mi_position input\<rparr>)"
    using imageI [of old "set (tb_assets t)" at_id] find_asset_Some [OF old] by (simp add: t' find_asset_replace)
  have same: "find_asset (tb_assets t') k = find_asset (tb_assets t) k" if "k \<noteq> i" for k
    using that by (simp add: t' find_asset_replace idold)
  have eq: "e = old\<lparr>at_parent := mi_parent input, at_position := mi_position input\<rparr>"
    using e found by (auto simp: repo_find_def split: if_splits)
  have len: "length (tb_assets t') = length (tb_assets t)" by (simp add: t' replace_asset_def)
  have par: "parent_of (tb_assets t') i = mi_parent input" by (simp add: parent_of_def found)
  have lin: "let up = (case mi_parent input of None \<Rightarrow> []
             | Some p \<Rightarrow> p # map at_id (lineage (tb_assets t) (length (tb_assets t)) p))
         in map at_id (lineage (tb_assets t') (length (tb_assets t')) i) = up \<and> i \<notin> set up \<and> length up < max_hierarchy_depth"
  proof (cases "mi_parent input")
    case None
    then have "lineage (tb_assets t') n i = []" for n using par by (cases n) simp_all
    then show ?thesis by (simp add: None max_hierarchy_depth_def)
  next
    case (Some p)
    note pl' = parent_lineage_ids [OF pl [unfolded Some]]
    have away: "i \<notin> set up" "length up < max_hierarchy_depth" using validate_ancestry_ok [OF anc] by simp_all
    then have p: "p \<noteq> i" "i \<notin> at_id ` set (lineage (tb_assets t) (length (tb_assets t)) p)" by (auto simp: pl'(1))
    then obtain q where q: "find_asset (tb_assets t') p = Some q" using pl'(2) same by auto
    have "i \<in> at_id ` set (tb_assets t')" using find_asset_Some [OF found] by blast
    then have "lineage (tb_assets t') (length (tb_assets t')) i = q # lineage (tb_assets t') (length (tb_assets t')) p"
      using lineage_unfold [OF f' _ q] par Some by simp
    moreover have "lineage (tb_assets t') (length (tb_assets t)) p = lineage (tb_assets t) (length (tb_assets t)) p"
      by (rule lineage_unchanged [where i = i]) (use same old p in auto)
    moreover have "at_id q = p" using find_asset_Some [OF q] by blast
    ultimately show ?thesis using away p pl'(1) by (simp add: Some len Let_def)
  qed
  show ?thesis using lin same by (simp add: Inr eq idold)
qed

lemma two_assets:
  "repo_create plain_db (plain_asset 2 (Some 1) ''b'') (assets_only [plain_asset 1 None ''a'']) =
     (Inr (), assets_only [plain_asset 1 None ''a'', plain_asset 2 (Some 1) ''b''])"
  by code_simp

definition plain_env :: asset_env where
  "plain_env = \<lparr>en_db = plain_db, en_load_location = (\<lambda>z. None), en_json_object = (\<lambda>s. Some s),
     en_describe = (\<lambda>s. Inl ErrAssetNotFound), en_shuffle = (\<lambda>k xs. xs), en_fresh = of_nat\<rparr>"

theorem move_asset_effect_witness:
  "snd (move_asset plain_env 2 \<lparr>mi_parent = Some 2, mi_position = 0\<rparr>
     (assets_only [plain_asset 1 None ''a'', plain_asset 2 (Some 1) ''b''])) =
   assets_only [plain_asset 1 None ''a'', plain_asset 2 (Some 1) ''b'']"
proof -
  have "reachable empty_tables (asset_step plain_db) (assets_only [plain_asset 1 None ''a'', plain_asset 2 (Some 1) ''b''])"
  proof (rule reachable_step)
    show "reachable empty_tables (asset_step plain_db) (assets_only [plain_asset 1 None ''a''])"
    proof (rule reachable_step)
      show "reachable empty_tables (asset_step plain_db) (assets_only [])"
        by (rule reachable_init) (simp add: empty_tables_def assets_only_def)
      show "asset_step plain_db (assets_only []) (assets_only [plain_asset 1 None ''a''])"
        by (rule step_create [OF _ one_site_created]) (simp add: plain_asset_def)
    qed
    show "asset_step plain_db (assets_only [plain_asset 1 None ''a''])
        (assets_only [plain_asset 1 None ''a'', plain_asset 2 (Some 1) ''b''])"
      by (rule step_create [OF _ two_assets]) (simp add: plain_asset_def)
  qed
  then have r: "reachable empty_tables (asset_step (en_db plain_env))
      (assets_only [plain_asset 1 None ''a'', plain_asset 2 (Some 1) ''b''])" by (simp add: plain_env_def)
  have "fst (move_asset plain_env 2 \<lparr>mi_parent = Some 2, mi_position = 0\<rparr>
     (assets_only [plain_asset 1 None ''a'', plain_asset 2 (Some 1) ''b''])) = Inl ErrHierarchyCycle"
    by code_simp
  then show ?thesis
    using move_asset_effect [OF r prod.collapse [symmetric],
        of 2 "\<lparr>mi_parent = Some 2, mi_position = 0\<rparr>"] by simp
qed

section \<open>Subtrees\<close>

fun tree_nodes :: "tree_node \<Rightarrow> tree_node list" where
  "tree_nodes (TreeNode a d e m cs) = TreeNode a d e m cs # concat (map tree_nodes cs)"

lemma lineage_suffix:
  assumes f: "forest rows" and "find_asset rows x = Some a"
  shows "a # lineage rows (length rows) x = pre @ c # rest \<Longrightarrow> rest = lineage rows (length rows) (at_id c)"
  using assms(2)
proof (induction pre arbitrary: x a)
  case Nil
  then show ?case using find_asset_Some by fastforce
next
  case (Cons b pre)
  then have ne: "lineage rows (length rows) x = pre @ c # rest" by simp
  obtain p where p: "parent_of rows x = Some p"
    using ne by (cases "parent_of rows x"; cases "length rows") simp_all
  obtain q where q: "find_asset rows p = Some q"
    using ne p by (cases "find_asset rows p"; cases "length rows") simp_all
  have "x \<in> at_id ` set rows" using find_asset_Some [OF Cons.prems(2)] by blast
  then have "q # lineage rows (length rows) p = pre @ c # rest" using lineage_unfold [OF f p q] ne by simp
  then show ?case using Cons.IH q by blast
qed

text \<open>Every node lies below the root of the tree, and knows its depth and the switches on the way up.\<close>

lemma subtree_sound:
  assumes f: "forest (tb_assets t)" and "a \<in> set (tb_assets t)"
    and "node \<in> set (tree_nodes (build_tree db t n d e a))"
  shows "\<exists>pre. tn_asset node # lineage (tb_assets t) (length (tb_assets t)) (at_id (tn_asset node)) =
      pre @ a # lineage (tb_assets t) (length (tb_assets t)) (at_id a) \<and> tn_asset node \<in> set (tb_assets t) \<and>
      tn_depth node = d + length pre \<and> (tn_effective node \<longleftrightarrow> e \<and> list_all at_enabled pre)"
  using assms(2,3)
proof (induction n arbitrary: a d e)
  case 0
  then show ?case by (intro exI [of _ "[]"]) (simp add: build_tree.simps)
next
  case (Suc n)
  let ?lin = "\<lambda>x. lineage (tb_assets t) (length (tb_assets t)) x"
  show ?case
  proof (cases "tn_asset node = a \<and> tn_depth node = d \<and> tn_effective node = e")
    case True
    then show ?thesis using Suc.prems by (intro exI [of _ "[]"]) simp
  next
    case False
    then obtain c where c: "c \<in> set (tb_assets t)" "at_parent c = Some (at_id a)"
      and node: "node \<in> set (tree_nodes (build_tree db t n (d + 1) (e \<and> at_enabled c) c))"
      using Suc.prems(2) by (auto simp: build_tree.simps [of db t "Suc n"])
    from Suc.IH [OF c(1) node] obtain pre where pre: "tn_asset node # ?lin (at_id (tn_asset node)) = pre @ c # ?lin (at_id c)"
      "tn_asset node \<in> set (tb_assets t)" "tn_depth node = d + 1 + length pre"
      "tn_effective node \<longleftrightarrow> (e \<and> at_enabled c) \<and> list_all at_enabled pre" by blast
    have "find_asset (tb_assets t) (at_id a) = Some a" "find_asset (tb_assets t) (at_id c) = Some c"
      using f Suc.prems(1) c(1) find_asset_mem by (auto simp: forest_def)
    then have "?lin (at_id c) = a # ?lin (at_id a)"
      using lineage_unfold [OF f, of "at_id c" "at_id a" a] c by (simp add: parent_of_def)
    then show ?thesis using pre by (intro exI [of _ "pre @ [c]"]) auto
  qed
qed

lemma subtree_complete:
  assumes f: "forest (tb_assets t)"
    and "x \<in> set (tb_assets t)" "a \<in> set (tb_assets t)"
    and "x # lineage (tb_assets t) (length (tb_assets t)) (at_id x) =
      pre @ a # lineage (tb_assets t) (length (tb_assets t)) (at_id a)" "length pre \<le> n"
  shows "x \<in> tn_asset ` set (tree_nodes (build_tree db t n d e a))"
  using assms(3-5)
proof (induction n arbitrary: a d e pre)
  case 0
  then show ?case by (simp add: build_tree.simps)
next
  case (Suc n)
  let ?lin = "\<lambda>x. lineage (tb_assets t) (length (tb_assets t)) x"
  show ?case
  proof (cases pre rule: rev_cases)
    case Nil
    then show ?thesis using Suc.prems(2) by (simp add: build_tree.simps [of db t "Suc n"])
  next
    case (snoc pre' c)
    have fx: "find_asset (tb_assets t) (at_id x) = Some x" using f assms(2) find_asset_mem by (auto simp: forest_def)
    have split: "x # ?lin (at_id x) = pre' @ c # a # ?lin (at_id a)" using Suc.prems(2) snoc by simp
    have lc: "?lin (at_id c) = a # ?lin (at_id a)" using lineage_suffix [OF f fx split] by simp
    have "c \<in> set (x # ?lin (at_id x))" unfolding split by simp
    then have c: "c \<in> set (tb_assets t)" using assms(2) find_asset_Some [OF lineage_mem] by auto
    then have fc: "find_asset (tb_assets t) (at_id c) = Some c" using f find_asset_mem by (auto simp: forest_def)
    obtain p where p: "at_parent c = Some p"
      using lc fc by (cases "at_parent c"; cases "length (tb_assets t)") (simp_all add: parent_of_def)
    obtain q where q: "find_asset (tb_assets t) p = Some q"
      using lc fc p by (cases "find_asset (tb_assets t) p"; cases "length (tb_assets t)") (simp_all add: parent_of_def)
    have "?lin (at_id c) = q # ?lin p"
      using lineage_unfold [OF f _ q, of "at_id c"] fc p c by (simp add: parent_of_def)
    then have pa: "at_parent c = Some (at_id a)" using lc p find_asset_Some [OF q] by simp
    have "x \<in> tn_asset ` set (tree_nodes (build_tree db t n (d + 1) (e \<and> at_enabled c) c))"
      by (rule Suc.IH [OF c, of pre']) (use split lc Suc.prems(3) snoc in simp_all)
    then show ?thesis using c pa by (auto simp: build_tree.simps [of db t "Suc n"])
  qed
qed

text \<open>
  C39: The subtree of an asset consists of exactly the assets that have it in their lineage, and itself.
  A node carries the number of levels down from the root of the tree, and it is effectively enabled
  when it and every asset above it up to that root are; for the tree of a site that is
  \<open>EffectiveEnabled\<close> over all its ancestors.
\<close>

theorem asset_subtree_correct:
  assumes "reachable empty_tables (asset_step (en_db env)) t" and "asset_subtree env i t = Inr tree"
  shows "tn_asset ` set (tree_nodes tree) =
      {a \<in> set (tb_assets t). at_id a = i \<or> i \<in> at_id ` set (lineage (tb_assets t) (length (tb_assets t)) (at_id a))} \<and>
    (\<forall>node \<in> set (tree_nodes tree).
       let up = lineage (tb_assets t) (length (tb_assets t)) (at_id (tn_asset node)); above = take (tn_depth node) up
       in tn_depth node \<le> length up \<and> (tn_depth node = 0 \<longleftrightarrow> at_id (tn_asset node) = i) \<and>
          (tn_effective node \<longleftrightarrow> effective_enabled (tn_asset node) above) \<and>
          (at_kind (tn_asset tree) = ''site'' \<longrightarrow> above = up))"
proof -
  let ?rows = "tb_assets t" let ?lin = "\<lambda>x. lineage ?rows (length ?rows) x"
  obtain r where found: "find_asset ?rows i = Some r" and tree: "tree = build_tree (en_db env) t (length ?rows) 0 (at_enabled r) r"
    using assms(2) by (auto simp: asset_subtree_def repo_subtree_def repo_find_def bindE_Inr_iff split: if_splits option.splits)
  have r: "r \<in> set ?rows" "at_id r = i" using find_asset_Some [OF found] by simp_all
  have inv: "asset_tables_inv (en_db env) t" using assms(1) by (rule assets.reachable_inv)
  then have ok: "tree_ok (en_db env) ?rows" and f: "forest ?rows" by (simp_all add: asset_tables_inv_def tree_ok_def)
  have sound: "\<exists>pre. tn_asset node # ?lin (at_id (tn_asset node)) = pre @ r # ?lin i \<and> tn_asset node \<in> set ?rows \<and>
      tn_depth node = length pre \<and> (tn_effective node \<longleftrightarrow> at_enabled r \<and> list_all at_enabled pre)"
    if "node \<in> set (tree_nodes tree)" for node
    using subtree_sound [OF f r(1) that [unfolded tree]] r(2) by simp
  have "tn_asset ` set (tree_nodes tree) \<subseteq> {a \<in> set ?rows. at_id a = i \<or> i \<in> at_id ` set (?lin (at_id a))}"
  proof (rule image_subsetI)
    fix node assume "node \<in> set (tree_nodes tree)"
    from sound [OF this] obtain pre where pre: "tn_asset node # ?lin (at_id (tn_asset node)) = pre @ r # ?lin i"
      "tn_asset node \<in> set ?rows" by blast
    then have "tn_asset node = r \<or> r \<in> set (?lin (at_id (tn_asset node)))" by (cases pre) auto
    then show "tn_asset node \<in> {a \<in> set ?rows. at_id a = i \<or> i \<in> at_id ` set (?lin (at_id a))}"
      using r(2) pre(2) by auto
  qed
  moreover have "{a \<in> set ?rows. at_id a = i \<or> i \<in> at_id ` set (?lin (at_id a))} \<subseteq> tn_asset ` set (tree_nodes tree)"
  proof (rule subsetI)
    fix a assume "a \<in> {a \<in> set ?rows. at_id a = i \<or> i \<in> at_id ` set (?lin (at_id a))}"
    then have a: "a \<in> set ?rows" "at_id a = i \<or> i \<in> at_id ` set (?lin (at_id a))" by simp_all
    have fa: "find_asset ?rows (at_id a) = Some a" using f a(1) find_asset_mem by (auto simp: forest_def)
    have "\<exists>pre. a # ?lin (at_id a) = pre @ r # ?lin i \<and> length pre \<le> length ?rows"
    proof (cases "at_id a = i")
      case True
      then have "a = r" using fa found by simp
      then show ?thesis using True by (intro exI [of _ "[]"]) simp
    next
      case False
      then obtain c where c: "c \<in> set (?lin (at_id a))" "at_id c = i" using a(2) by blast
      then have "c = r" using lineage_mem [OF c(1)] found by simp
      then obtain us vs where split: "?lin (at_id a) = us @ r # vs" using c(1) by (metis split_list)
      have "vs = ?lin i" using lineage_suffix [OF f fa, of "a # us" r vs] split r(2) by simp
      moreover have "length (?lin (at_id a)) < length ?rows"
        using lineage_shorter f a(1) by (auto simp: forest_def)
      ultimately show ?thesis using split by (intro exI [of _ "a # us"]) simp
    qed
    then show "a \<in> tn_asset ` set (tree_nodes tree)"
      using subtree_complete [OF f a(1) r(1)] r(2) unfolding tree by blast
  qed
  ultimately have nodes: "tn_asset ` set (tree_nodes tree) = {a \<in> set ?rows. at_id a = i \<or> i \<in> at_id ` set (?lin (at_id a))}"
    by (rule subset_antisym)
  have root: "tn_asset tree = r" by (simp add: tree build_tree.simps)
  have site: "?lin i = []" if "at_kind (tn_asset tree) = ''site''"
  proof -
    have "at_parent r = None" using that tree_ok_kind [OF ok r(1)] root by simp
    then show ?thesis using found by (cases "length ?rows") (simp_all add: parent_of_def)
  qed
  have node: "let up = ?lin (at_id (tn_asset node)); above = take (tn_depth node) up
       in tn_depth node \<le> length up \<and> (tn_depth node = 0 \<longleftrightarrow> at_id (tn_asset node) = i) \<and>
          (tn_effective node \<longleftrightarrow> effective_enabled (tn_asset node) above) \<and>
          (at_kind (tn_asset tree) = ''site'' \<longrightarrow> above = up)"
    if n: "node \<in> set (tree_nodes tree)" for node
  proof -
    from sound [OF n] obtain pre where pre: "tn_asset node # ?lin (at_id (tn_asset node)) = pre @ r # ?lin i"
      "tn_asset node \<in> set ?rows" "tn_depth node = length pre" "tn_effective node \<longleftrightarrow> at_enabled r \<and> list_all at_enabled pre"
      by blast
    show ?thesis
    proof (cases pre)
      case Nil
      then show ?thesis using pre r(2) site by (auto simp: effective_enabled_def Let_def)
    next
      case (Cons x pre')
      then have up: "x = tn_asset node" "?lin (at_id (tn_asset node)) = pre' @ r # ?lin i"
        using pre(1) by (metis append_Cons list.inject)+
      have "at_id (tn_asset node) \<noteq> i"
      proof
        assume same: "at_id (tn_asset node) = i"
        then have "?lin i = pre' @ r # ?lin i" using up(2) by simp
        then show False by (metis add_Suc_right append_self_conv2 length_append length_Cons less_add_Suc2 less_irrefl)
      qed
      then show ?thesis using pre(3,4) Cons up site by (auto simp: effective_enabled_def Let_def)
    qed
  qed
  show ?thesis using nodes node by blast
qed

theorem asset_subtree_correct_witness:
  "tn_asset ` set (tree_nodes (TreeNode (plain_asset 1 None ''a'') 0 True 0 [])) = {plain_asset 1 None ''a''}"
proof -
  have "reachable empty_tables (asset_step plain_db) (assets_only [plain_asset 1 None ''a''])"
  proof (rule reachable_step)
    show "reachable empty_tables (asset_step plain_db) (assets_only [])"
      by (rule reachable_init) (simp add: empty_tables_def assets_only_def)
    show "asset_step plain_db (assets_only []) (assets_only [plain_asset 1 None ''a''])"
      by (rule step_create [OF _ one_site_created]) (simp add: plain_asset_def)
  qed
  then have r: "reachable empty_tables (asset_step (en_db plain_env)) (assets_only [plain_asset 1 None ''a''])"
    by (simp add: plain_env_def)
  have "asset_subtree plain_env 1 (assets_only [plain_asset 1 None ''a'']) =
      Inr (TreeNode (plain_asset 1 None ''a'') 0 True 0 [])"
    by (simp add: asset_subtree_def repo_subtree_def repo_find_def assets_only_def find_asset_def plain_asset_def
        build_tree.simps)
  from asset_subtree_correct [OF r this] show ?thesis by (auto simp: assets_only_def plain_asset_def)
qed

text \<open>Below the root of a tree that is no site, the switches above that root are not seen.\<close>

definition switched_off :: "asset list" where
  "switched_off = [(plain_asset 1 None ''a'')\<lparr>at_enabled := False\<rparr>, plain_asset 2 (Some 1) ''b'']"

lemma subtree_ignores_disabled_ancestors:
  "asset_subtree plain_env 2 (assets_only switched_off) = Inr (TreeNode (plain_asset 2 (Some 1) ''b'') 0 True 0 [])"
  "\<not> effective_enabled (plain_asset 2 (Some 1) ''b'') (lineage switched_off 2 2)"
  by (simp_all add: asset_subtree_def repo_subtree_def repo_find_def assets_only_def find_asset_def plain_asset_def
      build_tree.simps switched_off_def effective_enabled_def numeral_2_eq_2 parent_of_def)

end
