(* ===== verification/Energy_Calc.thy ===== *)
theory Energy_Calc
  imports Batch_Broker "HOL-Library.Multiset"
begin

text \<open>
  The energy plugin's configuration and its calculator: \<open>config.go\<close>, \<open>compatibility.go\<close> and
  \<open>calculator.go\<close> of \<open>internal/plugin/energy\<close>. A committed batch is evaluated to the electrical
  and thermal demand, the tariff and the COP of its instant; the demands of the ordered batches of a
  period are integrated by trapezoids, segment by segment, and every part of the period that no
  usable segment covers is reported as an issue. A configuration is what is left of it after
  \<open>encoding/json\<close> has decoded its fields (\<open>None\<close> where it cannot).
  Floats round after every operation, as on processors where the compiler fuses none of them.
\<close>

section \<open>Configuration\<close>

datatype energy_error =
    ErrInvalidConfiguration | ErrLoggerUnavailable | ErrPowerTagNotSelected uuid | ErrPowerTagNotNumeric uuid
  | ErrTariffTagNotSelected uuid | ErrTariffTagNotNumeric uuid | ErrUnsupportedConfigVersion "64 word"
  | ErrInvalidEnergyBatch | ErrInvalidEnergyRange | ErrUnorderedMetrics | ErrEnergyRuntimeUnavailable
  | ErrEnergyHistory string

datatype power_unit = UnitW | UnitKW | UnitMW | UnitOther string
datatype tariff_mode = TariffModeUnset | TariffModeFlat | TariffModeTag | TariffModeOther string

record power_tag =
  pt_tag_id :: uuid
  pt_unit :: power_unit

record tariff =
  tf_mode :: tariff_mode
  tf_currency :: string
  tf_rate :: fl
  tf_tag_id :: uuid

record energy_config =
  ec_logger_id :: uuid
  ec_electrical :: "power_tag list"
  ec_thermal :: "power_tag list"
  ec_timezone :: string
  ec_max_gap_seconds :: int
  ec_tariff :: tariff

definition max_power_tags :: nat where "max_power_tags = 100"
definition max_gap_seconds :: int where "max_gap_seconds = (2 ^ 63 - 1) div second"

definition to_kilowatts :: "power_unit \<Rightarrow> fl \<Rightarrow> energy_error + fl" where
  "to_kilowatts u x =
     (if \<not> fl_finite x then Inl ErrInvalidConfiguration
      else let converted = (case u of
               UnitW \<Rightarrow> Some (fl_div binary64 x (FNum 1000))
             | UnitKW \<Rightarrow> Some x
             | UnitMW \<Rightarrow> Some (fl_mul binary64 x (FNum 1000))
             | UnitOther s \<Rightarrow> None)
           in case converted of
                None \<Rightarrow> Inl ErrInvalidConfiguration
              | Some y \<Rightarrow> if \<not> fl_finite y then Inl ErrInvalidConfiguration else Inr y)"

definition effective_mode :: "tariff \<Rightarrow> tariff_mode" where
  "effective_mode t = (if tf_mode t = TariffModeUnset then TariffModeFlat else tf_mode t)"

definition append_power_tags :: "energy_config \<Rightarrow> power_tag list" where
  "append_power_tags c = ec_electrical c @ ec_thermal c"

definition upper_letter :: "char \<Rightarrow> bool" where
  "upper_letter c \<longleftrightarrow> 65 \<le> byte_of c \<and> byte_of c \<le> 90"

definition currency_pattern :: "string \<Rightarrow> bool" where
  "currency_pattern s \<longleftrightarrow> length s = 3 \<and> list_all upper_letter s"

definition check_power_tag :: "power_tag \<Rightarrow> uuid set \<Rightarrow> energy_error + uuid set" where
  "check_power_tag p seen =
     (if pt_tag_id p = uuid_nil then Inl ErrInvalidConfiguration
      else if pt_tag_id p \<in> seen then Inl ErrInvalidConfiguration
      else bindE (to_kilowatts (pt_unit p) (FNum 1)) (\<lambda>y. Inr (insert (pt_tag_id p) seen)))"

definition tariff_shape_ok :: "tariff \<Rightarrow> bool" where
  "tariff_shape_ok t =
     (case effective_mode t of
        TariffModeFlat \<Rightarrow> \<not> (tf_tag_id t \<noteq> uuid_nil \<or> fl_less (tf_rate t) (FZero False) \<or> \<not> fl_finite (tf_rate t))
      | TariffModeTag \<Rightarrow> \<not> (tf_tag_id t = uuid_nil \<or> \<not> fl_eq (tf_rate t) (FZero False))
      | _ \<Rightarrow> False)"

definition validate_config_shape :: "locations \<Rightarrow> energy_config \<Rightarrow> energy_error + unit" where
  "validate_config_shape locs c =
     (if ec_logger_id c = uuid_nil \<or> ec_electrical c = [] \<or>
         length (ec_electrical c) + length (ec_thermal c) > max_power_tags then Inl ErrInvalidConfiguration
      else if ec_timezone c = [] \<or> ec_timezone c = ''Local'' \<or> ec_timezone c \<noteq> trim_space (ec_timezone c) \<or>
         length (ec_timezone c) > 100 then Inl ErrInvalidConfiguration
      else if (case locs (ec_timezone c) of None \<Rightarrow> True | Some l \<Rightarrow> loc_name l \<noteq> ec_timezone c)
      then Inl ErrInvalidConfiguration
      else if ec_max_gap_seconds c < 1 \<or> ec_max_gap_seconds c > max_gap_seconds then Inl ErrInvalidConfiguration
      else if \<not> currency_pattern (tf_currency (ec_tariff c)) then Inl ErrInvalidConfiguration
      else if \<not> tariff_shape_ok (ec_tariff c) then Inl ErrInvalidConfiguration
      else bindE (foldE check_power_tag (append_power_tags c) {}) (\<lambda>seen.
        if effective_mode (ec_tariff c) = TariffModeTag \<and> tf_tag_id (ec_tariff c) \<in> seen
        then Inl ErrInvalidConfiguration else Inr ()))"

definition decode_energy_config :: "locations \<Rightarrow> energy_config option \<Rightarrow> energy_error + energy_config" where
  "decode_energy_config locs raw =
     (case raw of None \<Rightarrow> Inl ErrInvalidConfiguration
      | Some c \<Rightarrow> bindE (validate_config_shape locs c) (\<lambda>u. Inr c))"

definition decode_compatible_config :: "locations \<Rightarrow> 64 word \<Rightarrow> energy_config option \<Rightarrow> energy_error + energy_config" where
  "decode_compatible_config locs version raw =
     (if version = 1 then decode_energy_config locs raw else Inl (ErrUnsupportedConfigVersion version))"

definition numeric_data_type :: "data_type \<Rightarrow> bool" where
  "numeric_data_type d = (case d of DTInt16 \<Rightarrow> True | DTUInt16 \<Rightarrow> True | DTInt32 \<Rightarrow> True | DTUInt32 \<Rightarrow> True
     | DTFloat32 \<Rightarrow> True | DTFloat64 \<Rightarrow> True | _ \<Rightarrow> False)"

text \<open>The map of the selected tags: a later reference of a tag replaces an earlier one.\<close>

definition selected_reference :: "logger \<Rightarrow> uuid \<Rightarrow> tag_reference option" where
  "selected_reference lg i = map_of (rev (map (\<lambda>r. (ref_id r, r)) (lg_tags lg))) i"

definition validate_logger_membership :: "energy_config \<Rightarrow> logger option \<Rightarrow> energy_error + unit" where
  "validate_logger_membership c found =
     (case found of
        None \<Rightarrow> Inl ErrLoggerUnavailable
      | Some lg \<Rightarrow>
          if lg_id lg \<noteq> ec_logger_id c then Inl ErrLoggerUnavailable
          else bindE (foldE (\<lambda>p u. case selected_reference lg (pt_tag_id p) of
                   None \<Rightarrow> Inl (ErrPowerTagNotSelected (pt_tag_id p))
                 | Some r \<Rightarrow> if \<not> numeric_data_type (ref_data_type r) then Inl (ErrPowerTagNotNumeric (pt_tag_id p))
                     else Inr u) (append_power_tags c) ()) (\<lambda>u.
            if effective_mode (ec_tariff c) = TariffModeTag
            then (let i = tf_tag_id (ec_tariff c) in case selected_reference lg i of
                    None \<Rightarrow> Inl (ErrTariffTagNotSelected i)
                  | Some r \<Rightarrow> if \<not> numeric_data_type (ref_data_type r) then Inl (ErrTariffTagNotNumeric i) else Inr ())
            else Inr ()))"

section \<open>Metrics\<close>

datatype metric_error_code =
  MetricMissingSample | MetricSourceBad | MetricInvalidValue | MetricStaleGap | MetricNoCoverage

record metric_error =
  me_code :: metric_error_code
  me_tag_id :: uuid
  me_at :: gotime
  me_message :: string

record demand_metric =
  dm_kilowatts :: fl
  dm_valid :: bool
  dm_errors :: "metric_error list"

record ratio_metric =
  rm_value :: fl
  rm_valid :: bool
  rm_error :: string

record tariff_metric =
  tm_rate :: fl
  tm_valid :: bool
  tm_errors :: "metric_error list"

record batch_metrics =
  bm_at :: gotime
  bm_electrical :: demand_metric
  bm_thermal :: demand_metric
  bm_tariff :: tariff_metric
  bm_cop :: ratio_metric

record segment_issue =
  si_from :: gotime
  si_to :: gotime
  si_code :: metric_error_code
  si_errors :: "metric_error list"

record energy_metric =
  en_kwh :: fl
  en_covered :: duration
  en_skipped :: duration
  en_segments :: int
  en_skipped_segments :: int
  en_issues :: "segment_issue list"

record period_metrics =
  pm_from :: gotime
  pm_to :: gotime
  pm_electrical :: energy_metric
  pm_thermal :: energy_metric
  pm_cost :: ratio_metric
  pm_cop :: ratio_metric

abbreviation fl_zero :: fl where "fl_zero \<equiv> FZero False"

definition no_demand :: demand_metric where
  "no_demand = \<lparr>dm_kilowatts = fl_zero, dm_valid = False, dm_errors = []\<rparr>"
definition ratio_error :: "string \<Rightarrow> ratio_metric" where
  "ratio_error message = \<lparr>rm_value = fl_zero, rm_valid = False, rm_error = message\<rparr>"
definition ratio_value :: "fl \<Rightarrow> ratio_metric" where
  "ratio_value x = \<lparr>rm_value = x, rm_valid = True, rm_error = []\<rparr>"
definition no_energy :: energy_metric where
  "no_energy = \<lparr>en_kwh = fl_zero, en_covered = 0, en_skipped = 0, en_segments = 0, en_skipped_segments = 0, en_issues = []\<rparr>"
definition no_period :: "gotime \<Rightarrow> gotime \<Rightarrow> period_metrics" where
  "no_period from to = \<lparr>pm_from = from, pm_to = to, pm_electrical = no_energy, pm_thermal = no_energy,
     pm_cost = ratio_error [], pm_cop = ratio_error []\<rparr>"

section \<open>Evaluating a batch\<close>

definition numeric_sample_value :: "raw_sample \<Rightarrow> fl option" where
  "numeric_sample_value s =
     (let x = (case (rs_data_type s, rs_value s) of
          (DTInt16, VInt16 w) \<Rightarrow> Some (fl_of_int binary64 (sint w))
        | (DTUInt16, VUInt16 w) \<Rightarrow> Some (fl_of_int binary64 (uint w))
        | (DTInt32, VInt32 w) \<Rightarrow> Some (fl_of_int binary64 (sint w))
        | (DTUInt32, VUInt32 w) \<Rightarrow> Some (fl_of_int binary64 (uint w))
        | (DTFloat32, VFloat32 f) \<Rightarrow> Some (fl_conv binary64 f)
        | (DTFloat64, VFloat64 f) \<Rightarrow> Some f
        | _ \<Rightarrow> None)
      in case x of None \<Rightarrow> None | Some y \<Rightarrow> if fl_finite y then Some y else None)"

definition error_of_metric :: "metric_error_code \<Rightarrow> uuid \<Rightarrow> gotime \<Rightarrow> string \<Rightarrow> metric_error" where
  "error_of_metric code i t message = \<lparr>me_code = code, me_tag_id = i, me_at = t, me_message = message\<rparr>"

definition source_bad_message :: "raw_sample \<Rightarrow> string \<Rightarrow> string" where
  "source_bad_message s fallback = (let m = trim_space (rs_error s) in if m = [] then fallback else m)"

text \<open>One mapping: the kilowatts so far and the errors; an error makes the metric invalid.\<close>

definition add_demand :: "gotime \<Rightarrow> (uuid \<Rightarrow> raw_sample option) \<Rightarrow> power_tag \<Rightarrow> demand_metric \<Rightarrow> demand_metric" where
  "add_demand batch_at samples p m =
     (let bad = (\<lambda>e. m\<lparr>dm_valid := False, dm_errors := dm_errors m @ [e]\<rparr>)
      in case samples (pt_tag_id p) of
           None \<Rightarrow> bad (error_of_metric MetricMissingSample (pt_tag_id p) batch_at
                          ''power Tag sample is missing from committed batch'')
         | Some s \<Rightarrow>
             if rs_quality s \<noteq> QualityGood
             then bad (error_of_metric MetricSourceBad (pt_tag_id p) (rs_observed_at s)
                         (source_bad_message s ''power Tag source quality is bad''))
             else case numeric_sample_value s of
               None \<Rightarrow> bad (error_of_metric MetricInvalidValue (pt_tag_id p) (rs_observed_at s)
                              ''power Tag value is not a finite numeric value'')
             | Some x \<Rightarrow>
                 (case to_kilowatts (pt_unit p) x of
                    Inl e \<Rightarrow> bad (error_of_metric MetricInvalidValue (pt_tag_id p) (rs_observed_at s)
                                    ''power Tag value cannot be represented in kilowatts'')
                  | Inr kw \<Rightarrow>
                      if \<not> fl_finite (fl_add binary64 (dm_kilowatts m) kw)
                      then bad (error_of_metric MetricInvalidValue (pt_tag_id p) (rs_observed_at s)
                                  ''power Tag value cannot be represented in kilowatts'')
                      else m\<lparr>dm_kilowatts := fl_add binary64 (dm_kilowatts m) kw\<rparr>))"

definition evaluate_demand :: "gotime \<Rightarrow> power_tag list \<Rightarrow> (uuid \<Rightarrow> raw_sample option) \<Rightarrow> demand_metric" where
  "evaluate_demand batch_at mappings samples =
     (if mappings = [] then no_demand
      else let m = fold (add_demand batch_at samples) mappings (no_demand\<lparr>dm_valid := True\<rparr>)
           in if \<not> dm_valid m then m\<lparr>dm_kilowatts := fl_zero\<rparr> else m)"

definition bad_tariff :: "metric_error \<Rightarrow> tariff_metric" where
  "bad_tariff e = \<lparr>tm_rate = fl_zero, tm_valid = False, tm_errors = [e]\<rparr>"

definition evaluate_tariff :: "gotime \<Rightarrow> tariff \<Rightarrow> (uuid \<Rightarrow> raw_sample option) \<Rightarrow> tariff_metric" where
  "evaluate_tariff batch_at t samples =
     (if effective_mode t = TariffModeFlat then \<lparr>tm_rate = tf_rate t, tm_valid = True, tm_errors = []\<rparr>
      else case samples (tf_tag_id t) of
        None \<Rightarrow> bad_tariff (error_of_metric MetricMissingSample (tf_tag_id t) batch_at
                              ''tariff Tag sample is missing from committed batch'')
      | Some s \<Rightarrow>
          if rs_quality s \<noteq> QualityGood
          then bad_tariff (error_of_metric MetricSourceBad (tf_tag_id t) (rs_observed_at s)
                             (source_bad_message s ''tariff Tag source quality is bad''))
          else case numeric_sample_value s of
            None \<Rightarrow> bad_tariff (error_of_metric MetricInvalidValue (tf_tag_id t) (rs_observed_at s)
                                  ''tariff Tag value must be a finite non-negative number'')
          | Some x \<Rightarrow>
              if fl_less x fl_zero
              then bad_tariff (error_of_metric MetricInvalidValue (tf_tag_id t) (rs_observed_at s)
                                 ''tariff Tag value must be a finite non-negative number'')
              else \<lparr>tm_rate = x, tm_valid = True, tm_errors = []\<rparr>)"

definition instantaneous_cop :: "demand_metric \<Rightarrow> demand_metric \<Rightarrow> ratio_metric" where
  "instantaneous_cop electrical thermal =
     (if \<not> dm_valid electrical \<or> \<not> dm_valid thermal
      then ratio_error ''electrical and thermal demand must both be valid''
      else if fl_le (dm_kilowatts electrical) fl_zero then ratio_error ''electrical demand must be positive''
      else let x = fl_div binary64 (dm_kilowatts thermal) (dm_kilowatts electrical)
           in if \<not> fl_finite x then ratio_error ''COP is not finite'' else ratio_value x)"

definition add_batch_sample :: "raw_sample \<Rightarrow> (uuid \<rightharpoonup> raw_sample) \<Rightarrow> energy_error + (uuid \<rightharpoonup> raw_sample)" where
  "add_batch_sample s samples =
     (if rs_tag_id s = uuid_nil then Inl ErrInvalidEnergyBatch
      else if samples (rs_tag_id s) \<noteq> None then Inl ErrInvalidEnergyBatch
      else Inr (samples(rs_tag_id s \<mapsto> s)))"

definition evaluate_batch :: "energy_config \<Rightarrow> raw_batch \<Rightarrow> energy_error + batch_metrics" where
  "evaluate_batch c b =
     (if rb_logger_id b \<noteq> ec_logger_id c \<or> rb_batch_at b = 0 then Inl ErrInvalidEnergyBatch
      else bindE (foldE add_batch_sample (rb_samples b) Map.empty) (\<lambda>samples.
        let electrical = evaluate_demand (rb_batch_at b) (ec_electrical c) samples;
            thermal = evaluate_demand (rb_batch_at b) (ec_thermal c) samples
        in Inr \<lparr>bm_at = rb_batch_at b, bm_electrical = electrical, bm_thermal = thermal,
                bm_tariff = evaluate_tariff (rb_batch_at b) (ec_tariff c) samples,
                bm_cop = instantaneous_cop electrical thermal\<rparr>))"

section \<open>Integrating a period\<close>

definition later_time :: "gotime \<Rightarrow> gotime \<Rightarrow> gotime" where
  "later_time a b = (if a > b then a else b)"
definition earlier_time :: "gotime \<Rightarrow> gotime \<Rightarrow> gotime" where
  "earlier_time a b = (if a < b then a else b)"

text \<open>\<open>float64(d)\<close> and \<open>d.Hours()\<close>.\<close>

definition fl_duration :: "duration \<Rightarrow> fl" where "fl_duration d = fl_of_int binary64 d"

definition duration_hours :: "duration \<Rightarrow> fl" where
  "duration_hours d =
     fl_add binary64 (fl_of_int binary64 (d sdiv hour)) (fl_div binary64 (fl_of_int binary64 (d smod hour)) (FNum 3600000000000))"

text \<open>The energy of the part of a segment between two instants, by linear interpolation.\<close>

definition segment_energy :: "(batch_metrics \<Rightarrow> demand_metric) \<Rightarrow> batch_metrics \<Rightarrow> batch_metrics \<Rightarrow> gotime \<Rightarrow> gotime \<Rightarrow> fl" where
  "segment_energy demand l r segment_from segment_to =
     (let full = time_sub (bm_at r) (bm_at l);
          start_fraction = fl_div binary64 (fl_duration (time_sub segment_from (bm_at l))) (fl_duration full);
          end_fraction = fl_div binary64 (fl_duration (time_sub segment_to (bm_at l))) (fl_duration full);
          left_kw = dm_kilowatts (demand l);
          rise = fl_sub binary64 (dm_kilowatts (demand r)) left_kw;
          start_power = fl_add binary64 left_kw (fl_mul binary64 rise start_fraction);
          end_power = fl_add binary64 left_kw (fl_mul binary64 rise end_fraction)
      in fl_mul binary64 (fl_div binary64 (fl_add binary64 start_power end_power) (FNum 2))
           (duration_hours (time_sub segment_to segment_from)))"

definition skip_segment :: "segment_issue \<Rightarrow> energy_metric \<Rightarrow> energy_metric" where
  "skip_segment i m = m\<lparr>en_skipped_segments := en_skipped_segments m + 1, en_issues := en_issues m @ [i]\<rparr>"

definition integrate_segment ::
  "gotime \<Rightarrow> gotime \<Rightarrow> duration \<Rightarrow> (batch_metrics \<Rightarrow> demand_metric) \<Rightarrow> batch_metrics \<Rightarrow> batch_metrics \<Rightarrow>
   energy_metric \<Rightarrow> energy_metric" where
  "integrate_segment from to max_gap demand l r m =
     (let segment_from = later_time from (bm_at l); segment_to = earlier_time to (bm_at r);
          issue = (\<lambda>code errors. \<lparr>si_from = segment_from, si_to = segment_to, si_code = code, si_errors = errors\<rparr>)
      in if \<not> segment_from < segment_to then m
         else if time_sub (bm_at r) (bm_at l) > max_gap then skip_segment (issue MetricStaleGap []) m
         else if \<not> dm_valid (demand l) \<or> \<not> dm_valid (demand r)
         then skip_segment (issue MetricInvalidValue (dm_errors (demand l) @ dm_errors (demand r))) m
         else let energy = segment_energy demand l r segment_from segment_to
              in if \<not> fl_finite energy \<or> \<not> fl_finite (fl_add binary64 (en_kwh m) energy)
                 then skip_segment (issue MetricInvalidValue []) m
                 else m\<lparr>en_kwh := fl_add binary64 (en_kwh m) energy,
                        en_covered := en_covered m + time_sub segment_to segment_from,
                        en_segments := en_segments m + 1\<rparr>)"

fun integrate_segments ::
  "gotime \<Rightarrow> gotime \<Rightarrow> duration \<Rightarrow> (batch_metrics \<Rightarrow> demand_metric) \<Rightarrow> batch_metrics list \<Rightarrow> energy_metric \<Rightarrow> energy_metric" where
  "integrate_segments from to max_gap demand (l # r # ms) m =
     integrate_segments from to max_gap demand (r # ms) (integrate_segment from to max_gap demand l r m)"
| "integrate_segments from to max_gap demand _ m = m"

text \<open>
  The issues are sorted by their instants with a stable sort: by the end, then by the beginning.
\<close>

definition no_coverage :: "gotime \<Rightarrow> gotime \<Rightarrow> segment_issue" where
  "no_coverage from to = \<lparr>si_from = from, si_to = to, si_code = MetricNoCoverage, si_errors = []\<rparr>"

definition append_boundary_issues :: "batch_metrics list \<Rightarrow> gotime \<Rightarrow> gotime \<Rightarrow> energy_metric \<Rightarrow> energy_metric" where
  "append_boundary_issues ms from to m =
     (let first = bm_at (hd ms); final = bm_at (last ms);
          before = (if from < first then [no_coverage from (earlier_time to first)] else []);
          after = (if final < to then [no_coverage (later_time from final) to] else [])
      in m\<lparr>en_issues := sort_key si_from (sort_key si_to (en_issues m @ before @ after))\<rparr>)"

definition integrate_demand ::
  "batch_metrics list \<Rightarrow> gotime \<Rightarrow> gotime \<Rightarrow> duration \<Rightarrow> (batch_metrics \<Rightarrow> demand_metric) \<Rightarrow> energy_metric" where
  "integrate_demand ms from to max_gap demand =
     (let start = no_energy\<lparr>en_skipped := time_sub to from\<rparr>
      in if length ms < 2 then start\<lparr>en_issues := [no_coverage from to]\<rparr>
         else let m = integrate_segments from to max_gap demand ms start;
                  skipped = en_skipped m - en_covered m
              in append_boundary_issues ms from to (m\<lparr>en_skipped := (if skipped < 0 then 0 else skipped)\<rparr>))"

definition period_cost :: "energy_metric \<Rightarrow> fl \<Rightarrow> ratio_metric" where
  "period_cost electrical rate =
     (if en_covered electrical = 0 then ratio_error ''electrical energy has no covered duration''
      else let x = fl_mul binary64 (en_kwh electrical) rate
           in if \<not> fl_finite x then ratio_error ''cost is not finite'' else ratio_value x)"

text \<open>The loop over the segments with the tariff of their left batch; \<open>None\<close> where the cost is not finite.\<close>

definition tag_cost_segment ::
  "gotime \<Rightarrow> gotime \<Rightarrow> duration \<Rightarrow> batch_metrics \<Rightarrow> batch_metrics \<Rightarrow> fl \<times> duration \<Rightarrow> (fl \<times> duration) option" where
  "tag_cost_segment from to max_gap l r acc =
     (let segment_from = later_time from (bm_at l); segment_to = earlier_time to (bm_at r)
      in if \<not> segment_from < segment_to \<or> time_sub (bm_at r) (bm_at l) > max_gap \<or>
            \<not> dm_valid (bm_electrical l) \<or> \<not> dm_valid (bm_electrical r) then Some acc
         else if \<not> tm_valid (bm_tariff l) then Some acc
         else let cost = fl_mul binary64 (segment_energy bm_electrical l r segment_from segment_to) (tm_rate (bm_tariff l));
                  total = fl_add binary64 (fst acc) cost
              in if \<not> fl_finite cost \<or> \<not> fl_finite total then None
                 else Some (total, snd acc + time_sub segment_to segment_from))"

fun tag_cost_segments ::
  "gotime \<Rightarrow> gotime \<Rightarrow> duration \<Rightarrow> batch_metrics list \<Rightarrow> fl \<times> duration \<Rightarrow> (fl \<times> duration) option" where
  "tag_cost_segments from to max_gap (l # r # ms) acc =
     (case tag_cost_segment from to max_gap l r acc of
        None \<Rightarrow> None | Some acc' \<Rightarrow> tag_cost_segments from to max_gap (r # ms) acc')"
| "tag_cost_segments from to max_gap _ acc = Some acc"

definition period_tag_cost :: "batch_metrics list \<Rightarrow> gotime \<Rightarrow> gotime \<Rightarrow> duration \<Rightarrow> energy_metric \<Rightarrow> ratio_metric" where
  "period_tag_cost ms from to max_gap electrical =
     (if en_covered electrical = 0 then ratio_error ''electrical energy has no covered duration''
      else case tag_cost_segments from to max_gap ms (fl_zero, 0) of
        None \<Rightarrow> ratio_error ''cost is not finite''
      | Some (x, covered) \<Rightarrow>
          if covered \<noteq> en_covered electrical then ratio_error ''tariff Tag coverage is incomplete''
          else ratio_value x)"

definition period_cop :: "energy_metric \<Rightarrow> energy_metric \<Rightarrow> ratio_metric" where
  "period_cop electrical thermal =
     (if en_covered electrical = 0 \<or> en_covered thermal = 0
      then ratio_error ''electrical and thermal energy must both have covered duration''
      else if fl_le (en_kwh electrical) fl_zero then ratio_error ''electrical energy must be positive''
      else let x = fl_div binary64 (en_kwh thermal) (en_kwh electrical)
           in if \<not> fl_finite x then ratio_error ''COP is not finite'' else ratio_value x)"

fun check_ordered :: "gotime option \<Rightarrow> batch_metrics list \<Rightarrow> energy_error + unit" where
  "check_ordered previous [] = Inr ()"
| "check_ordered previous (m # ms) =
     (if bm_at m = 0 then Inl ErrInvalidEnergyBatch
      else if (case previous of None \<Rightarrow> False | Some t \<Rightarrow> \<not> t < bm_at m) then Inl ErrUnorderedMetrics
      else check_ordered (Some (bm_at m)) ms)"

definition integrate_metrics ::
  "energy_config \<Rightarrow> batch_metrics list \<Rightarrow> gotime \<Rightarrow> gotime \<Rightarrow> energy_error + period_metrics" where
  "integrate_metrics c ms from to =
     (if from = 0 \<or> to = 0 \<or> \<not> from < to then Inl ErrInvalidEnergyRange
      else bindE (check_ordered None ms) (\<lambda>u.
        let max_gap = ec_max_gap_seconds c * second;
            electrical = integrate_demand ms from to max_gap bm_electrical;
            thermal = integrate_demand ms from to max_gap bm_thermal
        in Inr \<lparr>pm_from = from, pm_to = to, pm_electrical = electrical, pm_thermal = thermal,
                pm_cost = (if effective_mode (ec_tariff c) = TariffModeTag
                           then period_tag_cost ms from to max_gap electrical
                           else period_cost electrical (tf_rate (ec_tariff c))),
                pm_cop = period_cop electrical thermal\<rparr>))"

section \<open>Every instant of the period is accounted for\<close>

lemma earlier_later [simp]: "later_time a b = max a b" "earlier_time a b = min a b"
  by (auto simp: later_time_def earlier_time_def)

definition strictly_ordered :: "batch_metrics list \<Rightarrow> bool" where
  "strictly_ordered ms \<longleftrightarrow> sorted_wrt (\<lambda>a b. bm_at a < bm_at b) ms \<and> (\<forall>m \<in> set ms. bm_at m \<noteq> 0)"

lemma check_ordered_iff:
  "check_ordered previous ms = Inr u \<longleftrightarrow>
     strictly_ordered ms \<and> (\<forall>t. previous = Some t \<longrightarrow> (\<forall>m \<in> set ms. t < bm_at m))"
  by (induction previous ms rule: check_ordered.induct)
    (auto simp: strictly_ordered_def split: option.splits)

definition clip :: "gotime \<Rightarrow> gotime \<Rightarrow> gotime \<Rightarrow> gotime" where
  "clip from to t = max from (min to t)"

definition issue_length :: "segment_issue \<Rightarrow> duration" where
  "issue_length i = si_to i - si_from i"

definition accounted :: "energy_metric \<Rightarrow> duration" where
  "accounted m = en_covered m + sum_list (map issue_length (en_issues m))"

lemma overlap_clip:
  assumes "from < to" and "l < r" and "max from l < min to r"
  shows "clip from to l = max from l \<and> clip from to r = min to r"
  using assms unfolding clip_def by linarith

lemma no_overlap_clip:
  assumes "from < to" and "l < r" and "\<not> max from l < min to r"
  shows "clip from to r = clip from to (l :: gotime)"
  using assms by (auto simp: clip_def max_def min_def split: if_splits)

definition issue_ok :: "gotime \<Rightarrow> gotime \<Rightarrow> segment_issue \<Rightarrow> bool" where
  "issue_ok from to i \<longleftrightarrow> from \<le> si_from i \<and> si_from i < si_to i \<and> si_to i \<le> to"

lemma integrate_segment_cases:
  assumes "from < to" and "to - from \<le> max_duration" and "bm_at l < bm_at r"
    and "m' = integrate_segment from to max_gap demand l r m"
  obtains (none) "m' = m" "clip from to (bm_at r) = clip from to (bm_at l)"
  | (skipped) i where "m' = skip_segment i m" "issue_ok from to i"
      "issue_length i = clip from to (bm_at r) - clip from to (bm_at l)"
  | (covered) "m' = m\<lparr>en_kwh := fl_add binary64 (en_kwh m) (segment_energy demand l r (max from (bm_at l)) (min to (bm_at r))),
         en_covered := en_covered m + (clip from to (bm_at r) - clip from to (bm_at l)), en_segments := en_segments m + 1\<rparr>"
      "clip from to (bm_at l) < clip from to (bm_at r)"
proof (cases "max from (bm_at l) < min to (bm_at r)")
  case False
  then have "m' = m" using assms(4) by (simp add: integrate_segment_def)
  with none no_overlap_clip [OF assms(1,3) False] show ?thesis by blast
next
  case True
  note c = overlap_clip [OF assms(1,3) True]
  have exact: "time_sub (min to (bm_at r)) (max from (bm_at l)) = min to (bm_at r) - max from (bm_at l)"
    using True assms(2) by (intro time_sub_exact) (auto simp: min_duration_def)
  let ?i = "\<lambda>code errors. \<lparr>si_from = max from (bm_at l), si_to = min to (bm_at r), si_code = code, si_errors = errors\<rparr>"
  have ok: "issue_ok from to (?i code errors)"
    "issue_length (?i code errors) = clip from to (bm_at r) - clip from to (bm_at l)" for code errors
    using True c by (auto simp: issue_ok_def issue_length_def)
  consider "\<exists>code errors. m' = skip_segment (?i code errors) m"
    | "m' = m\<lparr>en_kwh := fl_add binary64 (en_kwh m) (segment_energy demand l r (max from (bm_at l)) (min to (bm_at r))),
         en_covered := en_covered m + (min to (bm_at r) - max from (bm_at l)), en_segments := en_segments m + 1\<rparr>"
    using True unfolding assms(4) integrate_segment_def Let_def earlier_later exact by (simp split: if_splits) metis
  then show ?thesis
  proof cases
    case 1
    then show ?thesis using skipped ok by blast
  next
    case 2
    then show ?thesis using covered c True by simp
  qed
qed

definition progress_ok :: "gotime \<Rightarrow> gotime \<Rightarrow> energy_metric \<Rightarrow> bool" where
  "progress_ok from to m \<longleftrightarrow> 0 \<le> en_covered m \<and> list_all (issue_ok from to) (en_issues m)"

lemma integrate_segment_accounts:
  assumes "from < to" and "to - from \<le> max_duration" and "bm_at l < bm_at r" and "progress_ok from to m"
  shows "accounted (integrate_segment from to max_gap demand l r m) =
           accounted m + (clip from to (bm_at r) - clip from to (bm_at l)) \<and>
         en_skipped (integrate_segment from to max_gap demand l r m) = en_skipped m \<and>
         progress_ok from to (integrate_segment from to max_gap demand l r m)"
  by (rule integrate_segment_cases [OF assms(1-3) refl, of max_gap demand m])
    (use assms(4) in \<open>auto simp: accounted_def skip_segment_def progress_ok_def\<close>)

lemma integrate_segments_accounts:
  assumes "from < to" and "to - from \<le> max_duration" and "sorted_wrt (\<lambda>a b. bm_at a < bm_at b) ms" and "ms \<noteq> []"
    and "progress_ok from to m"
  shows "accounted (integrate_segments from to max_gap demand ms m) =
           accounted m + (clip from to (bm_at (last ms)) - clip from to (bm_at (hd ms))) \<and>
         en_skipped (integrate_segments from to max_gap demand ms m) = en_skipped m \<and>
         progress_ok from to (integrate_segments from to max_gap demand ms m)"
  using assms(3,4,5)
proof (induction ms arbitrary: m rule: induct_list012)
  case (3 l r ms)
  note step = integrate_segment_accounts [OF assms(1,2), of l r m max_gap demand]
  show ?case using 3 step by simp
qed auto

lemma sum_list_sort_key: "sum_list (map g (sort_key f xs)) = (sum_list (map g xs) :: int)"
  using mset_sort [of f xs] by (metis mset_map sum_mset_sum_list)

lemma sum_list_pos_iff: "(\<And>x. x \<in> set xs \<Longrightarrow> 0 < g x) \<Longrightarrow> 0 \<le> sum_list (map g xs) \<and> (sum_list (map g xs) = (0 :: int) \<longleftrightarrow> xs = [])"
proof (induction xs)
  case (Cons x xs)
  then have "0 < g x" and "0 \<le> sum_list (map g xs)" by auto
  then show ?case by simp
qed simp

lemma integrate_demand_accounts:
  assumes "from < to" and "to - from \<le> max_duration" and "strictly_ordered ms"
    and "m = integrate_demand ms from to max_gap demand"
  shows "0 \<le> en_covered m \<and> en_covered m + en_skipped m = to - from \<and>
         sum_list (map issue_length (en_issues m)) = en_skipped m \<and> list_all (issue_ok from to) (en_issues m)"
proof (cases "length ms < 2")
  case True
  then show ?thesis using assms
    by (simp add: integrate_demand_def no_energy_def no_coverage_def issue_length_def issue_ok_def time_sub_exact min_duration_def)
next
  case False
  then have ne: "ms \<noteq> []" by auto
  define start where "start = no_energy\<lparr>en_skipped := to - from\<rparr>"
  have start: "progress_ok from to start" "accounted start = 0" "en_skipped start = to - from"
    by (simp_all add: start_def no_energy_def progress_ok_def accounted_def)
  define n where "n = integrate_segments from to max_gap demand ms start"
  have n: "accounted n = clip from to (bm_at (last ms)) - clip from to (bm_at (hd ms))"
    "en_skipped n = to - from" "progress_ok from to n"
    using integrate_segments_accounts [OF assms(1,2) _ ne start(1), of max_gap demand] assms(3) start
    by (auto simp: n_def strictly_ordered_def)
  define ends where "ends = (if from < bm_at (hd ms) then [no_coverage from (earlier_time to (bm_at (hd ms)))] else []) @
      (if bm_at (last ms) < to then [no_coverage (later_time from (bm_at (last ms))) to] else [])"
  have ends: "list_all (issue_ok from to) ends"
    "sum_list (map issue_length ends) = (clip from to (bm_at (hd ms)) - from) + (to - clip from to (bm_at (last ms)))"
    using assms(1) by (auto simp: ends_def no_coverage_def issue_ok_def issue_length_def clip_def)
  have issues: "sum_list (map issue_length (en_issues n @ ends)) = to - from - en_covered n"
    using n(1) ends(2) by (simp add: accounted_def)
  have pos: "0 \<le> sum_list (map issue_length (en_issues n @ ends))"
    using n(3) ends(1) by (intro sum_list_pos_iff [THEN conjunct1])
      (auto simp: progress_ok_def list_all_iff issue_ok_def issue_length_def)
  have sub: "time_sub to from = to - from" using assms(1,2) by (simp add: time_sub_exact min_duration_def)
  have "m = n\<lparr>en_skipped := to - from - en_covered n, en_issues := sort_key si_from (sort_key si_to (en_issues n @ ends))\<rparr>"
    using False issues pos n(2) unfolding assms(4) integrate_demand_def append_boundary_issues_def Let_def sub
    by (simp add: ends_def flip: n_def start_def)
  then show ?thesis using issues pos n(3) ends(1)
    by (simp add: sum_list_sort_key list_all_iff progress_ok_def ball_Un del: map_append)
qed

text \<open>
  Integrating the demands of a period accounts for every instant of it: the covered and the skipped
  time add up to the period, the issues are proper intervals within it whose lengths add up to the
  skipped time, and there is no issue exactly when the whole period is covered.
\<close>

theorem integration_accounts_for_period:
  assumes "integrate_metrics c ms from to = Inr p" and "to - from \<le> max_duration"
    and "m = pm_electrical p \<or> m = pm_thermal p"
  shows "0 \<le> en_covered m \<and> 0 \<le> en_skipped m \<and> en_covered m + en_skipped m = to - from \<and>
         sum_list (map (\<lambda>i. si_to i - si_from i) (en_issues m)) = en_skipped m \<and>
         list_all (\<lambda>i. from \<le> si_from i \<and> si_from i < si_to i \<and> si_to i \<le> to) (en_issues m) \<and>
         (en_issues m = [] \<longleftrightarrow> en_covered m = to - from)"
proof -
  have "from < to" and "strictly_ordered ms"
    and "\<exists>demand. m = integrate_demand ms from to (ec_max_gap_seconds c * second) demand"
    using assms(1,3) by (auto simp: integrate_metrics_def bindE_Inr_iff check_ordered_iff Let_def split: if_splits)
  then obtain demand where a: "0 \<le> en_covered m \<and> en_covered m + en_skipped m = to - from \<and>
      sum_list (map issue_length (en_issues m)) = en_skipped m \<and> list_all (issue_ok from to) (en_issues m)"
    using integrate_demand_accounts [OF _ assms(2)] by metis
  have "0 \<le> sum_list (map issue_length (en_issues m)) \<and>
      (sum_list (map issue_length (en_issues m)) = 0 \<longleftrightarrow> en_issues m = [])"
    using a by (intro sum_list_pos_iff) (auto simp: list_all_iff issue_ok_def issue_length_def)
  then show ?thesis using a unfolding issue_ok_def issue_length_def by auto
qed

definition sample_energy_config :: energy_config where
  "sample_energy_config = \<lparr>ec_logger_id = 1, ec_electrical = [\<lparr>pt_tag_id = 2, pt_unit = UnitKW\<rparr>], ec_thermal = [],
     ec_timezone = ''UTC'', ec_max_gap_seconds = 7200,
     ec_tariff = \<lparr>tf_mode = TariffModeFlat, tf_currency = ''EUR'', tf_rate = FNum (1/4), tf_tag_id = uuid_nil\<rparr>\<rparr>"

definition sample_energy_batch :: "gotime \<Rightarrow> raw_batch" where
  "sample_energy_batch t = \<lparr>rb_logger_id = 1, rb_batch_at = t,
     rb_samples = [\<lparr>rs_tag_id = 2, rs_observed_at = t, rs_data_type = DTFloat64, rs_value = VFloat64 (FNum 2),
        rs_quality = QualityGood, rs_error = []\<rparr>]\<rparr>"

definition sample_metrics :: "gotime \<Rightarrow> batch_metrics" where
  "sample_metrics t = \<lparr>bm_at = t, bm_electrical = \<lparr>dm_kilowatts = FNum 2, dm_valid = True, dm_errors = []\<rparr>,
     bm_thermal = no_demand, bm_tariff = \<lparr>tm_rate = FNum (1/4), tm_valid = True, tm_errors = []\<rparr>,
     bm_cop = ratio_error ''electrical and thermal demand must both be valid''\<rparr>"

text \<open>Small whole numbers are exact.\<close>

lemma fl_round64_numeral: "(numeral k :: int) \<le> 2 ^ 53 \<Longrightarrow> fl_round binary64 neg (numeral k) = FNum (numeral k)"
  using fl_round_exact [OF _ representable_int, of binary64 "numeral k" neg] by (simp add: format_defs)

lemma fl_round64_one: "fl_round binary64 neg 1 = FNum 1"
  using fl_round_exact [OF _ representable_int, of binary64 1 neg] by (simp add: format_defs)

lemma fl_round_zero: "fl_round fm neg 0 = FZero neg"
  by (simp add: fl_round_def)

lemmas fl_small = fl_round64_numeral fl_round64_one fl_round_zero fl_of_int_def fl_add_def fl_sub_def fl_mul_def fl_div_def
  fl_is_zero_def

lemma sample_evaluated: "evaluate_batch sample_energy_config (sample_energy_batch (5 * hour)) = Inr (sample_metrics (5 * hour))"
  by (simp add: evaluate_batch_def sample_energy_config_def sample_energy_batch_def duration_units add_batch_sample_def
      evaluate_demand_def add_demand_def no_demand_def numeric_sample_value_def to_kilowatts_def Let_def fl_small
      evaluate_tariff_def effective_mode_def instantaneous_cop_def sample_metrics_def)

lemma one_hour_facts: "fl_duration hour = FNum 3600000000000" "fl_duration 0 = FZero False" "duration_hours hour = FNum 1"
  by (simp_all add: fl_duration_def duration_hours_def duration_units fl_small sdiv_nonneg smod_nonneg)

lemma sample_segment: "segment_energy bm_electrical (sample_metrics hour) (sample_metrics (2 * hour)) hour (2 * hour) = FNum 2"
proof -
  have sub: "time_sub (2 * hour) hour = hour" "time_sub hour hour = 0"
    by (simp_all add: time_sub_def duration_units)
  show ?thesis unfolding segment_energy_def Let_def sample_metrics_def batch_metrics.simps demand_metric.simps sub one_hour_facts
    by (simp add: fl_small)
qed

lemma sample_integrated:
  "integrate_demand [sample_metrics hour, sample_metrics (2 * hour)] hour (3 * hour) (7200 * second) bm_electrical =
   \<lparr>en_kwh = FNum 2, en_covered = hour, en_skipped = hour, en_segments = 1, en_skipped_segments = 0,
        en_issues = [no_coverage (2 * hour) (3 * hour)]\<rparr>"
proof -
  have at: "bm_at (sample_metrics t) = t" "dm_valid (bm_electrical (sample_metrics t))" for t
    by (simp_all add: sample_metrics_def)
  have "integrate_segment hour (3 * hour) (7200 * second) bm_electrical (sample_metrics hour) (sample_metrics (2 * hour)) m =
      m\<lparr>en_kwh := fl_add binary64 (en_kwh m) (FNum 2), en_covered := en_covered m + hour, en_segments := en_segments m + 1\<rparr>"
    if "en_kwh m = fl_zero" for m
    using that sample_segment unfolding integrate_segment_def Let_def at earlier_later
    by (simp add: at time_sub_def duration_units fl_small)
  then show ?thesis
    unfolding integrate_demand_def Let_def append_boundary_issues_def
    by (simp add: at no_energy_def fl_small) (simp add: duration_units time_sub_def)
qed

lemma sample_period:
  "\<exists>p. integrate_metrics sample_energy_config [sample_metrics hour, sample_metrics (2 * hour)] hour (3 * hour) = Inr p"
  by (simp add: integrate_metrics_def sample_metrics_def duration_units Let_def)

theorem integration_accounts_for_period_witness:
  "\<exists>p. integrate_metrics sample_energy_config [sample_metrics hour, sample_metrics (2 * hour)] hour (3 * hour) = Inr p \<and>
     en_covered (pm_electrical p) = hour \<and> en_covered (pm_electrical p) + en_skipped (pm_electrical p) = 2 * hour"
proof -
  obtain p where p: "integrate_metrics sample_energy_config [sample_metrics hour, sample_metrics (2 * hour)] hour (3 * hour) = Inr p"
    using sample_period by blast
  moreover have "pm_electrical p = integrate_demand [sample_metrics hour, sample_metrics (2 * hour)] hour (3 * hour) (7200 * second) bm_electrical"
    using p by (auto simp: integrate_metrics_def Let_def bindE_Inr_iff sample_energy_config_def split: if_splits)
  then have "en_covered (pm_electrical p) = hour" by (simp add: sample_integrated)
  ultimately show ?thesis
    using integration_accounts_for_period [OF p, of "pm_electrical p"] by (auto simp add: duration_units)
qed

end
