(* ===== verification/Spec2Isabelle.thy ===== *)
theory Spec2Isabelle
  imports Tag_Acquisition Modbus_Tcp Publisher_Manager Tag_Binary Persistent_Store Tag_Expr_Eval Tag_Graph Tag_Service
    Logger_Schedule History_Store Logger_Runtime Plugin_Manager Asset_Service Energy_Calc
begin

text \<open>
  IoT Edge: the backend of an edge device that reads field devices, computes tags from the readings,
  records them, runs plugins and publishes the results. This library models the parts of
  \<open>src/backend/internal\<close> that decide something, one theory per part, and proves what makes each of
  them correct. Paths below are relative to \<open>src/backend/internal\<close>.

  \<^bold>\<open>The parts and how they meet.\<close> A device answers a Modbus request (\<open>protocol/modbus\<close>) with raw
  bytes; the acquisition runtime (\<open>tag/acquisition.go\<close>) decodes the window of each tag
  (\<open>tag/decoder.go\<close>, \<open>converter.go\<close>), transforms and types the value and stores it in the value
  store (\<open>tag/value_store.go\<close>), which streams it to its subscribers and, behind it, writes it to the
  table of latest values (\<open>tag/persistent_value_store.go\<close>). A stored value triggers the calculated
  tags that depend on it (\<open>tag/expression.go\<close>); the tag service (\<open>tag/service.go\<close>) keeps their
  dependencies free of cycles. Data loggers (\<open>datalogger\<close>) record batches of tags on an interval or
  a calendar schedule into a history with a size and an age limit and publish each committed batch;
  plugins (\<open>plugin\<close>) consume batches and produce outputs; publishers (\<open>publisher\<close>) watch tags and
  outputs and send snapshots of them to an outside transport. Assets (\<open>asset\<close>) are the tree of the
  plant: they own measurements, whose sources are tags or plugin outputs, and say how those add up.

  \<^bold>\<open>Conventions.\<close>
    \<^item> A Go function that returns \<open>(value, error)\<close> is a function into \<open>error + value\<close>; the errors of a
      package are one datatype with the code's names, and a return with an error is a branch.
    \<^item> Instants are nanoseconds since Go's zero time and durations are int64 nanoseconds, both as \<open>int\<close>,
      with saturation or wrap-around written out where the code meets it; machine integers whose
      width matters are words; floats are the IEEE data of \<open>Go_Float\<close>, rounded after each operation.
    \<^item> A Go string is a list of bytes (\<open>char\<close>); lengths are in bytes, or in runes where the code counts them.
    \<^item> A \<open>for\<close> loop that may return is \<open>foldE\<close>, a loop over indices a \<open>function\<close> with a measure. A Go map
      whose order the code walks is a list with an arbitrary permutation where the order can show.
    \<^item> A section under a mutex, and a transaction of the database, is one atomic step. Goroutines are
      sequences of such steps, and \<open>reachable\<close> quantifies over all of their interleavings. Transactions
      therefore run one after another; \<open>READ COMMITTED\<close> allows more where triggers read without locks,
      which the last part of \<open>Asset_Store\<close> shows on two moves that cross.
    \<^item> What is not under \<open>src\<close> is a parameter: the time zone database, the JSON and UUID parsers, hash
      sums, the wire library of Modbus, the collation and text checks of the database. Contexts that
      are cancelled, timers and clocks are inputs of the steps.

  \<^bold>\<open>Theories.\<close>
    \<^item> \<open>Edge_Prelude\<close> (results, instants, byte strings), \<open>Edge_Interfaces\<close> (channels, and the contracts
      between components as locales: recent buffers, lossy subscribers, systems of atomic steps),
      \<open>Go_Float\<close>, \<open>Go_Text\<close>.
    \<^item> \<open>Tag_Types\<close>, \<open>Tag_Binary\<close>, \<open>Tag_Value\<close>: \<open>tag/model.go\<close>, \<open>converter.go\<close>, \<open>decoder.go\<close>,
      \<open>transform.go\<close> and the coercions of \<open>service.go\<close>. Decoding inverts the device's encoding in every
      byte order; accepted configurations are fixed points and decode.
    \<^item> \<open>Value_Store\<close>, \<open>Persistent_Store\<close>: \<open>tag/value_store.go\<close>, \<open>persistent_value_store.go\<close>. The store is
      consistent in every reachable state, its streams have no gap, and write-behind loses no latest value
      of a tag, except behind a row of an older data type that the start did not list.
    \<^item> \<open>Tag_Expr_Lexer\<close>, \<open>Tag_Expr_Parser\<close>, \<open>Tag_Expr_Eval\<close>: \<open>tag/expression.go\<close>. Limits (the nesting is
      counted by a scan of the tokens apart from the parser), a round trip with a printer, and agreement
      of the evaluator with a semantics over truth values and exact rationals that shares only the rounding of a float with it.
    \<^item> \<open>Tag_Graph\<close>, \<open>Tag_Service\<close>: the search for dependency cycles, and the service over its tables.
    \<^item> \<open>Tag_Acquisition\<close>, \<open>Modbus_Tcp\<close>: \<open>tag/acquisition.go\<close>, \<open>protocol/modbus\<close>. A device value reaches its
      tag; a cascade of calculated tags ends.
    \<^item> \<open>Logger_Model\<close>, \<open>Logger_Schedule\<close>, \<open>Logger_Retention\<close>, \<open>History_Store\<close>, \<open>Batch_Broker\<close>,
      \<open>Event_Broker\<close>, \<open>Logger_Runtime\<close>: \<open>datalogger\<close> and \<open>datalogger/postgres\<close>. Schedules record what they
      should and when, the accounting counts the rows written (the cascade of a deleted tag takes rows
      it keeps counting), and cleanup runs, each at its own instant, reach the plan of the last one.
    \<^item> \<open>Plugin_Output\<close>, \<open>Plugin_Registry\<close>, \<open>Plugin_Manager\<close> over \<open>Job_Supervisor\<close> and \<open>Runtime_Manager\<close>, which
      the logger runtime and the publisher manager use too: \<open>plugin\<close>.
    \<^item> \<open>Energy_Calc\<close>: the configuration and the calculator of \<open>plugin/energy\<close>. Integrating a period
      accounts for every instant of it: what is not covered is the sum of its issues.
    \<^item> \<open>Publisher_Source\<close>, \<open>Publisher_Transport\<close>, \<open>Publisher_Redaction\<close>, \<open>Publisher_Manager\<close>: \<open>publisher\<close>.
    \<^item> \<open>Asset_Semantic\<close>, \<open>Asset_Rollup\<close>, \<open>Asset_Hierarchy\<close>, \<open>Asset_Store\<close>, \<open>Asset_Service\<close>: \<open>asset\<close> with its
      tables and triggers (\<open>migrations/000019\<close>). Transactions that do not overlap keep the assets a forest
      with measured leaves; a rollup plan excludes what an included meter reads directly, and so counts
      once what no nested virtual meter reads.

  \<^bold>\<open>Bounds and fuel.\<close> A calculated cascade stops after 1024 values, expressions have at most 256 tokens
  and nest at most 32 deep, dependency chains at most 128: these are the code's constants, and the
  functions recurse on them. Searches without a bound of their own in the code take the number of
  rows or meters as fuel, with a lemma that it never runs out (\<open>lineage_complete\<close>,
  \<open>meter_search_complete\<close>, \<open>subtree_complete\<close>); the calendar search is a \<open>partial_function\<close> with a
  theorem that it returns in zones with a fixed offset.

  \<^bold>\<open>Not modelled.\<close> The HTTP handlers and routes (they decode a request, call a service and encode its
  result), the SQL of listings and pages, the JSON encodings themselves, the Windows service, the
  migration runner, backups and the command-line programs (calls of the operating system and of
  tools), and the web user interface. The packages \<open>auth\<close>, \<open>credential\<close>, \<open>device\<close>, \<open>vgateway\<close>, \<open>report\<close>,
  \<open>utility\<close> and the rest of the energy plugin (its outputs, runtime and live view) are left to a later
  extension of the library, as are the HTTP and MQTT transports, secrets and payload templates of the publishers.
\<close>

end
